(* ===== verification/Prelude.thy ===== *)
theory Prelude
  imports Main "HOL-Library.Word"
begin

unbundle bit_operations_syntax

text \<open>
  What every component shares: the machine-integer types of the source, byte strings, the
  little- and big-endian conversions of Rust's \<open>to_le_bytes\<close> and \<open>from_be_bytes\<close> families,
  \<open>copy_from_slice\<close> into a fixed array, cutting a byte string into blocks, and the fold of a
  block function over a message. The collections \<open>len_simps\<close> (lengths of what the components
  build) and \<open>le_be_simps\<close> (byte conversions) gather the facts that the component proofs
  rewrite with.
\<close>

section \<open>Machine types\<close>

type_synonym u8 = "8 word"
type_synonym u16 = "16 word"
type_synonym u32 = "32 word"
type_synonym u64 = "64 word"
type_synonym bytes = "u8 list"

named_theorems len_simps \<open>lengths of the byte strings the components build\<close>
named_theorems le_be_simps \<open>endian conversions and their inverses\<close>

text \<open>\<open>s.as_bytes()\<close> and \<open>b"..."\<close> for the ASCII text that the source writes as literals.\<close>

definition ascii :: "string \<Rightarrow> bytes" where
  "ascii s = map (\<lambda>c. of_nat (of_char c)) s"

section \<open>Endian conversions\<close>

fun le_bytes :: "nat \<Rightarrow> 'a::len word \<Rightarrow> bytes" where
  "le_bytes 0 w = []"
| "le_bytes (Suc n) w = ucast w # le_bytes n (drop_bit 8 w)"

definition be_bytes :: "nat \<Rightarrow> 'a::len word \<Rightarrow> bytes" where
  "be_bytes n w = rev (le_bytes n w)"

fun of_le :: "bytes \<Rightarrow> 'a::len word" where
  "of_le [] = 0"
| "of_le (b # bs) = ucast b OR push_bit 8 (of_le bs)"

definition of_be :: "bytes \<Rightarrow> 'a::len word" where
  "of_be bs = of_le (rev bs)"

lemma be_bytes_explicit:
  "be_bytes 2 w = [ucast (drop_bit 8 w), ucast w]"
  "be_bytes 4 w = [ucast (drop_bit 24 w), ucast (drop_bit 16 w), ucast (drop_bit 8 w), ucast w]"
  by (simp_all add: be_bytes_def numeral_eq_Suc)

lemma length_le_bytes [simp, len_simps]: "length (le_bytes n w) = n"
  by (induction n arbitrary: w) auto

lemma length_be_bytes [simp, len_simps]: "length (be_bytes n w) = n"
  by (simp add: be_bytes_def)

lemma bit_of_le:
  "bit (of_le bs :: 'a::len word) i \<longleftrightarrow>
     i < LENGTH('a) \<and> i div 8 < length bs \<and> bit (bs ! (i div 8)) (i mod 8)"
proof (induction bs arbitrary: i)
  case (Cons b bs)
  show ?case
  proof (cases "i < 8")
    case True
    then show ?thesis
      using bit_imp_le_length[of b i]
      by (auto simp: bit_simps)
  next
    case False
    then obtain j where j: "i = 8 + j" by (metis le_add_diff_inverse not_less)
    have "\<not> bit b (8 + j)" using bit_imp_le_length[of b "8 + j"] by auto
    moreover have "(8 + j) div 8 = Suc (j div 8)" "(8 + j) mod 8 = j mod 8" by auto
    ultimately show ?thesis
      by (auto simp: j bit_simps Cons.IH)
  qed
qed simp

lemma nth_le_bytes:
  "i < n \<Longrightarrow> le_bytes n w ! i = ucast (drop_bit (8 * i) w)"
proof (induction n arbitrary: w i)
  case (Suc n)
  then show ?case
    by (cases i) (auto simp: drop_bit_drop_bit add.commute)
qed simp

lemma of_le_le_bytes [le_be_simps]:
  fixes w :: "'a::len word"
  assumes "LENGTH('a) \<le> 8 * n"
  shows "of_le (le_bytes n w) = w"
proof (rule bit_word_eqI)
  fix i assume i: "i < LENGTH('a)"
  then have d: "i div 8 < n" using assms by auto
  have m: "8 * (i div 8) + i mod 8 = i" "i mod 8 < LENGTH(8)" by simp_all
  show "bit (of_le (le_bytes n w) :: 'a word) i = bit w i"
    using i d m by (simp only: bit_of_le nth_le_bytes bit_ucast_iff bit_drop_bit_eq o_apply
        length_le_bytes simp_thms)
qed

lemma of_be_be_bytes [le_be_simps]:
  fixes w :: "'a::len word"
  assumes "LENGTH('a) \<le> 8 * n"
  shows "of_be (be_bytes n w) = w"
  using assms by (simp add: of_be_def be_bytes_def of_le_le_bytes)

lemma le_bytes_of_le [le_be_simps]:
  assumes "length bs = n" "8 * n \<le> LENGTH('a::len)"
  shows "le_bytes n (of_le bs :: 'a word) = bs"
proof (rule nth_equalityI)
  show "length (le_bytes n (of_le bs :: 'a word)) = length bs" using assms by simp
  fix i assume i: "i < length (le_bytes n (of_le bs :: 'a word))"
  then have i': "i < n" by simp
  have "bit (ucast (drop_bit (8 * i) (of_le bs :: 'a word)) :: u8) k = bit (bs ! i) k" if "k < 8" for k
  proof -
    have "(8 * i + k) div 8 = i" "(8 * i + k) mod 8 = k" using that by auto
    moreover have "8 * i + k < LENGTH('a)" using i' that assms by auto
    ultimately show ?thesis
      using i' assms that by (simp add: bit_simps bit_of_le add.commute)
  qed
  then have "(ucast (drop_bit (8 * i) (of_le bs :: 'a word)) :: u8) = bs ! i"
    by (intro bit_word_eqI) simp
  then show "le_bytes n (of_le bs :: 'a word) ! i = bs ! i"
    using i' by (simp add: nth_le_bytes)
qed

lemma be_bytes_of_be [le_be_simps]:
  assumes "length bs = n" "8 * n \<le> LENGTH('a::len)"
  shows "be_bytes n (of_be bs :: 'a word) = bs"
  using assms by (simp add: of_be_def be_bytes_def le_bytes_of_le)

text \<open>The number a little-endian byte string stands for.\<close>

fun le_nat :: "bytes \<Rightarrow> nat" where
  "le_nat [] = 0"
| "le_nat (b # bs) = unat b + 256 * le_nat bs"

lemma le_nat_append: "le_nat (xs @ ys) = le_nat xs + 256 ^ length xs * le_nat ys"
  by (induction xs) (auto simp: algebra_simps)

lemma le_nat_less: "le_nat bs < 256 ^ length bs"
proof (induction bs)
  case (Cons b bs)
  have "unat b < 256" using unsigned_less[of b] by simp
  moreover have "256 * le_nat bs + 256 \<le> 256 * 256 ^ length bs" using Cons by simp
  ultimately show ?case by simp
qed simp

lemma unat_ucast_or_push:
  fixes r :: "'a::len word"
  assumes "unat b + 256 * unat r < 2 ^ LENGTH('a)" "8 \<le> LENGTH('a)"
  shows "unat ((ucast (b :: u8) :: 'a word) OR push_bit 8 r) = unat b + 256 * unat r"
proof -
  have ub: "unat (ucast b :: 'a word) = unat b"
  proof -
    have "unat b < 2 ^ 8" using unsigned_less[of b] by simp
    also have "(2::nat) ^ 8 \<le> 2 ^ LENGTH('a)" using assms(2) by (intro power_increasing) auto
    finally show ?thesis by (simp add: unsigned_ucast_eq take_bit_nat_eq_self)
  qed
  have disj: "(ucast b :: 'a word) AND push_bit 8 r = 0"
    by (rule bit_word_eqI) (auto simp: bit_simps dest: bit_imp_le_length)
  have "unat (push_bit 8 r) = 256 * unat r"
    using assms(1)
    by (simp only: unsigned_push_bit_eq, subst take_bit_nat_eq_self) (simp_all add: push_bit_eq_mult)
  with ub disj assms(1) show ?thesis
    by (simp add: disjunctive_add_eq_or [symmetric] unat_word_ariths)
qed

lemma unat_of_le:
  assumes "8 * length bs \<le> LENGTH('a::len)"
  shows "unat (of_le bs :: 'a word) = le_nat bs"
  using assms
proof (induction bs)
  case (Cons b bs)
  then have IH: "unat (of_le bs :: 'a word) = le_nat bs" by simp
  have "le_nat (b # bs) < 256 ^ length (b # bs)" by (rule le_nat_less)
  also have "(256::nat) ^ length (b # bs) = 2 ^ (8 * length (b # bs))"
    by (simp only: power_mult) simp
  also have "\<dots> \<le> 2 ^ LENGTH('a)" using Cons.prems by (intro power_increasing) auto
  finally have "unat b + 256 * unat (of_le bs :: 'a word) < 2 ^ LENGTH('a)" by (simp add: IH)
  then show ?case
    using Cons.prems by (simp add: unat_ucast_or_push IH)
qed simp

section \<open>Arrays, blocks and folds\<close>

text \<open>\<open>dst[i..i + src.len()].copy_from_slice(src)\<close>.\<close>

definition overwrite :: "nat \<Rightarrow> 'a list \<Rightarrow> 'a list \<Rightarrow> 'a list" where
  "overwrite i src dst = take i dst @ src @ drop (i + length src) dst"

lemma length_overwrite [simp, len_simps]:
  "i + length src \<le> length dst \<Longrightarrow> length (overwrite i src dst) = length dst"
  by (simp add: overwrite_def)

text \<open>\<open>xs.chunks(n)\<close>: consecutive pieces of \<open>n\<close> elements, the last one shorter when the
  length is no multiple.\<close>

function chunks_of :: "nat \<Rightarrow> 'a list \<Rightarrow> 'a list list" where
  "chunks_of n xs = (if n = 0 \<or> xs = [] then [] else take n xs # chunks_of n (drop n xs))"
  by pat_completeness auto
termination by (relation "measure (\<lambda>(n, xs). length xs)") auto

declare chunks_of.simps [simp del]

lemma chunks_of_Nil [simp]: "chunks_of n [] = []"
  by (simp add: chunks_of.simps)

lemma chunks_of_unfold:
  "0 < n \<Longrightarrow> xs \<noteq> [] \<Longrightarrow> chunks_of n xs = take n xs # chunks_of n (drop n xs)"
  by (subst chunks_of.simps) simp

lemma concat_chunks_of: "0 < n \<Longrightarrow> concat (chunks_of n xs) = xs"
proof (induction n xs rule: chunks_of.induct)
  case (1 n xs)
  then show ?case
    by (cases "xs = []") (simp_all add: chunks_of_unfold)
qed

text \<open>
  The block loop of the hash functions, \<open>while i + n <= data.len()\<close> with \<open>i += n\<close>: apply the
  block function to each whole block; what is left at the end is \<open>block_rest\<close>.
\<close>

function absorb :: "nat \<Rightarrow> ('s \<Rightarrow> 'a list \<Rightarrow> 's) \<Rightarrow> 's \<Rightarrow> 'a list \<Rightarrow> 's" where
  "absorb n f s data =
     (if n = 0 \<or> length data < n then s else absorb n f (f s (take n data)) (drop n data))"
  by pat_completeness auto
termination by (relation "measure (\<lambda>(n, f, s, data). length data)") auto

declare absorb.simps [simp del]

definition block_rest :: "nat \<Rightarrow> 'a list \<Rightarrow> 'a list" where
  "block_rest n data = drop (n * (length data div n)) data"

lemma absorb_short [simp]: "length data < n \<Longrightarrow> absorb n f s data = s"
  by (simp add: absorb.simps)

lemma absorb_step:
  "0 < n \<Longrightarrow> n \<le> length data \<Longrightarrow> absorb n f s data = absorb n f (f s (take n data)) (drop n data)"
  by (subst absorb.simps) simp

lemma absorb_block [simp]: "0 < n \<Longrightarrow> length b = n \<Longrightarrow> absorb n f s (b @ data) = absorb n f (f s b) data"
  by (subst absorb_step) auto

lemma absorb_one: "0 < n \<Longrightarrow> length b = n \<Longrightarrow> absorb n f s b = f s b"
  using absorb_block[of n b f s "[]"] by simp

lemma absorb_append:
  assumes "0 < n" "n dvd length xs"
  shows "absorb n f s (xs @ ys) = absorb n f (absorb n f s xs) ys"
  using assms
proof (induction n f s xs rule: absorb.induct)
  case (1 n f s xs)
  show ?case
  proof (cases "length xs < n")
    case True
    then have "xs = []" using 1 by (auto dest: dvd_imp_le)
    then show ?thesis using 1 by simp
  next
    case False
    with 1 have "n dvd length (drop n xs)" by (simp add: dvd_diff_nat)
    with 1 False have
      "absorb n f (f s (take n xs)) (drop n xs @ ys)
       = absorb n f (absorb n f (f s (take n xs)) (drop n xs)) ys" by simp
    with 1 False show ?thesis
      by (simp add: absorb_step[of n xs] absorb_step[of n "xs @ ys"])
  qed
qed

lemma absorb_invariant:
  assumes "\<And>s b. P s \<Longrightarrow> P (f s b)" "P s"
  shows "P (absorb n f s data)"
  using assms
proof (induction n f s data rule: absorb.induct)
  case (1 n f s data)
  show ?case
  proof (cases "n = 0 \<or> length data < n")
    case False
    with 1 have "P (absorb n f (f s (take n data)) (drop n data))" by blast
    with False show ?thesis by (simp add: absorb_step)
  qed (use 1 in \<open>auto simp: absorb.simps[of n f s data]\<close>)
qed

lemma length_block_rest: "0 < n \<Longrightarrow> length (block_rest n data) = length data mod n"
  by (simp add: block_rest_def minus_mult_div_eq_mod)

lemma block_rest_split:
  "take (n * (length data div n)) data @ block_rest n data = data"
  by (simp add: block_rest_def)

lemma absorb_block_rest:
  assumes "0 < n"
  shows "absorb n f (absorb n f s xs) (block_rest n xs @ ys) = absorb n f s (xs @ ys)"
proof -
  let ?h = "take (n * (length xs div n)) xs"
  have dvd: "n dvd length ?h"
    by (simp add: min_absorb2)
  have "absorb n f s xs = absorb n f (absorb n f s ?h) (block_rest n xs)"
    using absorb_append[OF assms dvd, of f s "block_rest n xs"] by (simp add: block_rest_split)
  also have "\<dots> = absorb n f s ?h"
    using assms by (simp add: length_block_rest)
  finally have h: "absorb n f s xs = absorb n f s ?h" .
  have "absorb n f s (?h @ (block_rest n xs @ ys)) = absorb n f (absorb n f s ?h) (block_rest n xs @ ys)"
    by (rule absorb_append[OF assms dvd])
  then show ?thesis
    by (metis append.assoc block_rest_split h)
qed

lemma block_rest_blocks:
  assumes "0 < n" "n dvd length a"
  shows "block_rest n (a @ zs) = block_rest n zs"
proof -
  from assms obtain k where k: "length a = n * k" by auto
  have "n * ((n * k + length zs) div n) = length a + n * (length zs div n)"
    using assms k by (simp add: algebra_simps)
  then show ?thesis by (simp add: block_rest_def k)
qed

lemma block_rest_append:
  assumes "0 < n"
  shows "block_rest n (xs @ ys) = block_rest n (block_rest n xs @ ys)"
proof -
  have "n dvd length (take (n * (length xs div n)) xs)" by (simp add: min_absorb2)
  from block_rest_blocks[OF assms this, of "block_rest n xs @ ys"] show ?thesis
    by (metis append.assoc block_rest_split)
qed

lemma block_rest_short [simp]: "length xs < n \<Longrightarrow> block_rest n xs = xs"
  by (simp add: block_rest_def)

lemma overwrite_prefix [simp]:
  "i \<le> length dst \<Longrightarrow> take (i + length src) (overwrite i src dst) = take i dst @ src"
  by (simp add: overwrite_def)

lemma overwrite_all:
  "i + length src = length dst \<Longrightarrow> overwrite i src dst = take i dst @ src"
  by (simp add: overwrite_def)

text \<open>Folding a chunked loop (\<open>for chunk in msg.chunks(n)\<close>) is \<open>absorb\<close> when the length fits.\<close>

lemma fold_chunks_absorb:
  assumes "0 < n" "n dvd length xs"
  shows "foldl f s (chunks_of n xs) = absorb n f s xs"
  using assms
proof (induction n f s xs rule: absorb.induct)
  case (1 n f s xs)
  show ?case
  proof (cases "length xs < n")
    case True
    then have "xs = []" using 1 by (auto dest: dvd_imp_le)
    then show ?thesis using 1 by simp
  next
    case False
    with 1 have "n dvd length (drop n xs)" by (simp add: dvd_diff_nat)
    moreover have "xs \<noteq> []" using False 1 by auto
    ultimately show ?thesis
      using 1 False by (simp add: chunks_of_unfold absorb_step)
  qed
qed

section \<open>Exclusive or on byte strings\<close>

definition xor_bytes :: "bytes \<Rightarrow> bytes \<Rightarrow> bytes" where
  "xor_bytes xs ys = map2 (\<lambda>x y. x XOR y) xs ys"

lemma length_xor_bytes [simp, len_simps]:
  "length (xor_bytes xs ys) = min (length xs) (length ys)"
  by (simp add: xor_bytes_def)

lemma nth_xor_bytes:
  "i < length xs \<Longrightarrow> i < length ys \<Longrightarrow> xor_bytes xs ys ! i = xs ! i XOR ys ! i"
  by (simp add: xor_bytes_def)

lemma xor_bytes_cancel:
  "length xs \<le> length ks \<Longrightarrow> xor_bytes (xor_bytes xs ks) ks = xs"
  by (rule nth_equalityI) (auto simp: nth_xor_bytes xor.assoc)

lemma xor_bytes_common_key:
  "length xs \<le> length ks \<Longrightarrow> length ys \<le> length ks \<Longrightarrow>
   xor_bytes (xor_bytes xs ks) (xor_bytes ys ks) = xor_bytes xs ys"
  by (rule nth_equalityI) (auto simp: nth_xor_bytes ac_simps)

lemma xor_bytes_zeros:
  "n = length ks \<Longrightarrow> xor_bytes (replicate n 0) ks = ks"
  by (rule nth_equalityI) (auto simp: nth_xor_bytes)

lemma xor_bytes_append:
  "length a = length c \<Longrightarrow> xor_bytes (a @ b) (c @ d) = xor_bytes a c @ xor_bytes b d"
  by (simp add: xor_bytes_def)

end
