(* ===== verification/Rust_Str.thy ===== *)
theory Rust_Str
  imports Prelude
begin

text \<open>
  The parts of Rust's \<open>str\<close> and \<open>char\<close> that the program uses. A string is the list of its code points; the
  byte positions of the source (\<open>find\<close>, slicing) fall on ASCII characters, where they agree with positions
  of code points. UTF-8 is written out where the source goes through bytes.
\<close>

type_synonym rchar = nat
type_synonym rstr = "rchar list"

definition str :: "string \<Rightarrow> rstr" where
  "str s = map of_char s"

lemma str_simps: "str [] = []" "str (c # s) = of_char c # str s" "str (s @ t) = str s @ str t"
  by (simp_all add: str_def)

lemma str_eq [simp]: "str s = str t \<longleftrightarrow> s = t"
  by (simp add: str_def inj_map_eq_map[OF inj_of_char])

lemma str_nil [simp]: "str [] = []" "str s = [] \<longleftrightarrow> s = []" "[] = str s \<longleftrightarrow> s = []"
  by (auto simp: str_def)

definition is_scalar :: "rchar \<Rightarrow> bool" where
  "is_scalar c \<longleftrightarrow> c < 0xD800 \<or> (0xE000 \<le> c \<and> c < 0x110000)"

section \<open>Characters\<close>

definition is_whitespace :: "rchar \<Rightarrow> bool" where
  "is_whitespace c \<longleftrightarrow> (9 \<le> c \<and> c \<le> 13) \<or> c = 32 \<or> c = 0x85 \<or> c = 0xA0 \<or> c = 0x1680 \<or>
     (0x2000 \<le> c \<and> c \<le> 0x200A) \<or> c = 0x2028 \<or> c = 0x2029 \<or> c = 0x202F \<or> c = 0x205F \<or> c = 0x3000"

definition is_control :: "rchar \<Rightarrow> bool" where
  "is_control c \<longleftrightarrow> c < 32 \<or> (127 \<le> c \<and> c < 160)"

definition is_ascii_digit :: "rchar \<Rightarrow> bool" where
  "is_ascii_digit c \<longleftrightarrow> 48 \<le> c \<and> c \<le> 57"

definition hex_value :: "rchar \<Rightarrow> nat option" where
  "hex_value c =
     (if 48 \<le> c \<and> c \<le> 57 then Some (c - 48)
      else if 65 \<le> c \<and> c \<le> 70 then Some (c - 55)
      else if 97 \<le> c \<and> c \<le> 102 then Some (c - 87)
      else None)"

definition hex_lower :: "nat \<Rightarrow> rchar" where
  "hex_lower d = (if d < 10 then 48 + d else 87 + d)"

definition hex_upper :: "nat \<Rightarrow> rchar" where
  "hex_upper d = (if d < 10 then 48 + d else 55 + d)"

lemma hex_value_lower [simp]: "d < 16 \<Longrightarrow> hex_value (hex_lower d) = Some d"
  by (auto simp: hex_value_def hex_lower_def)

lemma hex_value_upper [simp]: "d < 16 \<Longrightarrow> hex_value (hex_upper d) = Some d"
  by (auto simp: hex_value_def hex_upper_def)

lemma hex_digit_bounds: "d < 16 \<Longrightarrow> 48 \<le> hex_lower d \<and> hex_lower d \<le> 102"
  "d < 16 \<Longrightarrow> 48 \<le> hex_upper d \<and> hex_upper d \<le> 70"
  by (auto simp: hex_lower_def hex_upper_def)

section \<open>Trimming\<close>

definition trim_start_matches :: "(rchar \<Rightarrow> bool) \<Rightarrow> rstr \<Rightarrow> rstr" where
  "trim_start_matches p s = dropWhile p s"

definition trim_end_matches :: "(rchar \<Rightarrow> bool) \<Rightarrow> rstr \<Rightarrow> rstr" where
  "trim_end_matches p s = rev (dropWhile p (rev s))"

definition trim :: "rstr \<Rightarrow> rstr" where
  "trim s = trim_end_matches is_whitespace (trim_start_matches is_whitespace s)"

text \<open>A string without outer white space.\<close>

definition trimmed :: "rstr \<Rightarrow> bool" where
  "trimmed s \<longleftrightarrow> s = [] \<or> \<not> is_whitespace (hd s) \<and> \<not> is_whitespace (last s)"

lemma trim_start_matches_id: "s = [] \<or> \<not> p (hd s) \<Longrightarrow> trim_start_matches p s = s"
  by (cases s) (auto simp: trim_start_matches_def)

lemma trim_end_matches_id: "s = [] \<or> \<not> p (last s) \<Longrightarrow> trim_end_matches p s = s"
  by (cases s rule: rev_cases) (auto simp: trim_end_matches_def)

lemma trim_trimmed: "trimmed s \<Longrightarrow> trim s = s"
  by (auto simp: trimmed_def trim_def trim_start_matches_id trim_end_matches_id)

lemma trim_nil [simp]: "trim [] = []"
  by (simp add: trim_trimmed trimmed_def)

lemma trim_space_end: "trim (s @ [32]) = trim s"
proof -
  have w: "is_whitespace 32" by (simp add: is_whitespace_def)
  show ?thesis
  proof (cases "\<forall>c\<in>set s. is_whitespace c")
    case True
    then have "dropWhile is_whitespace (s @ [32]) = []" "dropWhile is_whitespace s = []"
      using w by (simp_all only: dropWhile_eq_Nil_conv) auto
    then show ?thesis by (simp only: trim_def trim_start_matches_def)
  next
    case False
    then have "dropWhile is_whitespace (s @ [32]) = dropWhile is_whitespace s @ [32]"
      by (meson dropWhile_append1)
    then show ?thesis using w by (simp add: trim_def trim_start_matches_def trim_end_matches_def)
  qed
qed

lemma trim_space_start: "trim (32 # s) = trim s"
  by (simp add: trim_def trim_start_matches_def is_whitespace_def)

lemma set_dropWhile_subset: "set (dropWhile p s) \<subseteq> set s"
  by (induction s) auto

lemma set_trim_subset: "set (trim s) \<subseteq> set s"
  unfolding trim_def trim_start_matches_def trim_end_matches_def
  using set_dropWhile_subset[of is_whitespace s]
    set_dropWhile_subset[of is_whitespace "rev (dropWhile is_whitespace s)"] by auto

section \<open>Searching and splitting\<close>

definition starts_with :: "rstr \<Rightarrow> rstr \<Rightarrow> bool" where
  "starts_with pfx s \<longleftrightarrow> take (length pfx) s = pfx"

lemma starts_with_single: "starts_with [c] s \<longleftrightarrow> s \<noteq> [] \<and> hd s = c"
  by (cases s) (auto simp: starts_with_def)

definition split_once :: "rchar \<Rightarrow> rstr \<Rightarrow> (rstr \<times> rstr) option" where
  "split_once c s = (case dropWhile (\<lambda>x. x \<noteq> c) s of [] \<Rightarrow> None | _ # r \<Rightarrow> Some (takeWhile (\<lambda>x. x \<noteq> c) s, r))"

lemma split_once_none: "c \<notin> set s \<Longrightarrow> split_once c s = None"
proof -
  assume "c \<notin> set s"
  then have "dropWhile (\<lambda>x. x \<noteq> c) s = []" by (simp only: dropWhile_eq_Nil_conv) auto
  then show ?thesis by (simp only: split_once_def list.case)
qed

lemma split_once_append: "c \<notin> set a \<Longrightarrow> split_once c (a @ c # b) = Some (a, b)"
proof -
  assume "c \<notin> set a"
  then have "\<forall>x\<in>set a. x \<noteq> c" by auto
  then show ?thesis by (simp add: split_once_def dropWhile_append2 takeWhile_append2)
qed

lemma split_once_some:
  "split_once c s = Some (a, b) \<longleftrightarrow> s = a @ c # b \<and> c \<notin> set a"
proof
  assume "split_once c s = Some (a, b)"
  then obtain x where "dropWhile (\<lambda>x. x \<noteq> c) s = x # b" "a = takeWhile (\<lambda>x. x \<noteq> c) s"
    by (auto simp: split_once_def split: list.splits)
  then show "s = a @ c # b \<and> c \<notin> set a"
    by (metis (mono_tags, lifting) hd_dropWhile list.discI list.sel(1) set_takeWhileD takeWhile_dropWhile_id)
qed (simp add: split_once_append)

text \<open>\<open>splitn(n, c)\<close> and \<open>split(c)\<close>.\<close>

fun splitn :: "nat \<Rightarrow> rchar \<Rightarrow> rstr \<Rightarrow> rstr list" where
  "splitn 0 c s = []"
| "splitn (Suc 0) c s = [s]"
| "splitn (Suc (Suc n)) c s = (case split_once c s of None \<Rightarrow> [s] | Some (a, b) \<Rightarrow> a # splitn (Suc n) c b)"

function split_on :: "rchar \<Rightarrow> rstr \<Rightarrow> rstr list" where
  "split_on c s = (case split_once c s of None \<Rightarrow> [s] | Some (a, b) \<Rightarrow> a # split_on c b)"
  by pat_completeness auto
termination
  by (relation "measure (\<lambda>(c, s). length s)") (auto simp: split_once_some)

declare split_on.simps [simp del]

primrec join :: "rstr \<Rightarrow> rstr list \<Rightarrow> rstr" where
  "join sep [] = []"
| "join sep (a # as) = (if as = [] then a else a @ sep @ join sep as)"

lemma split_on_nonempty: "split_on c s \<noteq> []"
  by (subst split_on.simps) (auto split: option.split)

lemma split_on_join:
  assumes "as \<noteq> []" "\<forall>a\<in>set as. c \<notin> set a"
  shows "split_on c (join [c] as) = as"
  using assms
proof (induction as)
  case (Cons a as)
  then show ?case
    by (subst split_on.simps) (cases "as = []"; simp add: split_once_none split_once_append)
qed simp

lemma join_split_on: "join [c] (split_on c s) = s"
proof (induction c s rule: split_on.induct)
  case (1 c s)
  then show ?case
    by (subst split_on.simps) (auto simp: split_once_some split_on_nonempty split: option.split)
qed

section \<open>Lines\<close>

definition strip_cr :: "rstr \<Rightarrow> rstr" where
  "strip_cr s = (if s \<noteq> [] \<and> last s = 13 then butlast s else s)"

function lines :: "rstr \<Rightarrow> rstr list" where
  "lines s = (if s = [] then [] else case split_once 10 s of None \<Rightarrow> [s] | Some (a, b) \<Rightarrow> strip_cr a # lines b)"
  by pat_completeness auto
termination
  by (relation "measure length") (auto simp: split_once_some)

declare lines.simps [simp del]

lemma lines_nil [simp]: "lines [] = []"
  by (subst lines.simps) simp

lemma lines_line: "10 \<notin> set l \<Longrightarrow> lines (l @ 10 # rest) = strip_cr l # lines rest"
  by (subst lines.simps) (simp add: split_once_append)

lemma strip_cr_id: "13 \<notin> set l \<Longrightarrow> strip_cr l = l"
  by (metis last_in_set strip_cr_def)

section \<open>Numbers\<close>

fun show_nat :: "nat \<Rightarrow> rstr" where
  "show_nat n = (if n < 10 then [48 + n] else show_nat (n div 10) @ [48 + n mod 10])"

declare show_nat.simps [simp del]

definition show_int :: "int \<Rightarrow> rstr" where
  "show_int i = (if i < 0 then 45 # show_nat (nat (- i)) else show_nat (nat i))"

primrec digits_value :: "nat \<Rightarrow> rstr \<Rightarrow> nat option" where
  "digits_value acc [] = Some acc"
| "digits_value acc (c # cs) = (if is_ascii_digit c then digits_value (10 * acc + (c - 48)) cs else None)"

text \<open>\<open>parse::<i32>()\<close>: an optional sign, at least one digit, and the range of \<open>i32\<close>.\<close>

definition parse_i32 :: "rstr \<Rightarrow> int option" where
  "parse_i32 s =
     (let (neg, ds) = (case s of [] \<Rightarrow> (False, []) | c # cs \<Rightarrow> if c = 45 then (True, cs) else if c = 43 then (False, cs) else (False, s))
      in if ds = [] then None
         else case digits_value 0 ds of
           None \<Rightarrow> None
         | Some n \<Rightarrow>
             (let i = (if neg then - int n else int n)
              in if - 2147483648 \<le> i \<and> i \<le> 2147483647 then Some i else None))"

lemma digits_value_append:
  "digits_value acc (a @ b) = (case digits_value acc a of None \<Rightarrow> None | Some v \<Rightarrow> digits_value v b)"
  by (induction a arbitrary: acc) auto

lemma show_nat_digits: "c \<in> set (show_nat n) \<Longrightarrow> is_ascii_digit c"
proof (induction n rule: show_nat.induct)
  case (1 n)
  then show ?case
    by (subst (asm) (2) show_nat.simps) (auto simp: is_ascii_digit_def split: if_splits)
qed

lemma show_nat_nonempty [simp]: "show_nat n \<noteq> []"
  by (subst show_nat.simps) simp

lemma digits_value_show_nat: "digits_value 0 (show_nat n) = Some n"
proof (induction n rule: show_nat.induct)
  case (1 n)
  then show ?case
    by (subst show_nat.simps) (auto simp: digits_value_append is_ascii_digit_def)
qed

lemma hd_show_nat: "is_ascii_digit (hd (show_nat n))"
  by (rule show_nat_digits[of _ n]) simp

lemma parse_show_i32:
  assumes "- 2147483648 \<le> i" "i \<le> 2147483647"
  shows "parse_i32 (show_int i) = Some i"
proof -
  have d: "c \<noteq> 45" "c \<noteq> 43" if "is_ascii_digit c" for c using that by (auto simp: is_ascii_digit_def)
  obtain c cs where s: "show_nat (nat i) = c # cs" by (cases "show_nat (nat i)") auto
  then have c: "c \<noteq> 45" "c \<noteq> 43" using hd_show_nat[of "nat i"] d by auto
  show ?thesis
  proof (cases "i < 0")
    case True
    then show ?thesis
      using assms digits_value_show_nat[of "nat (- i)"] by (simp add: parse_i32_def show_int_def)
  next
    case False
    then show ?thesis
      using assms digits_value_show_nat[of "nat i"] c
      by (simp only: parse_i32_def show_int_def s) simp
  qed
qed

end
