(* ===== verification/Toml.thy ===== *)
theory Toml
  imports Rust_Str
begin

text \<open>
  \<open>src/src/config.rs\<close>, lines 746 to 821: the quoting of values in the configuration files and the parser of
  one line. A written value reads back for every string, control characters and quotes included; a
  written line reads back when its key can be told apart from the syntax around it.
\<close>

section \<open>Quoting\<close>

text \<open>\<open>format!("\\u{:04X}", c)\<close> for a code point below \<open>0x10000\<close>; control characters are.\<close>

definition hex4 :: "nat \<Rightarrow> rstr" where
  "hex4 c = [hex_upper (c div 4096 mod 16), hex_upper (c div 256 mod 16), hex_upper (c div 16 mod 16), hex_upper (c mod 16)]"

definition toml_encode_char :: "rchar \<Rightarrow> rstr" where
  "toml_encode_char c =
     (if c = 34 then [92, 34]
      else if c = 92 then [92, 92]
      else if c = 10 then [92, 110]
      else if c = 13 then [92, 114]
      else if c = 9 then [92, 116]
      else if is_control c then [92, 117] @ hex4 c
      else [c])"

definition toml_encode_str :: "rstr \<Rightarrow> rstr" where
  "toml_encode_str val = [34] @ concat (map toml_encode_char val) @ [34]"

text \<open>\<open>u32::from_str_radix(hex, 16)\<close> on at most four characters: an optional plus sign, then digits.\<close>

definition parse_hex :: "rstr \<Rightarrow> nat option" where
  "parse_hex s =
     (let ds = (if length s > 1 \<and> hd s = 43 then tl s else s)
      in if ds = [] then None
         else foldl (\<lambda>acc c. Option.bind acc (\<lambda>v. map_option (\<lambda>d. 16 * v + d) (hex_value c))) (Some 0) ds)"

definition char_from_u32 :: "nat \<Rightarrow> rchar option" where
  "char_from_u32 n = (if is_scalar n then Some n else None)"

fun unescape_basic :: "rstr \<Rightarrow> rstr" where
  "unescape_basic [] = []"
| "unescape_basic (c # cs) =
     (if c \<noteq> 92 then c # unescape_basic cs
      else case cs of
        [] \<Rightarrow> [92]
      | e # cs \<Rightarrow>
          if e = 34 then 34 # unescape_basic cs
          else if e = 92 then 92 # unescape_basic cs
          else if e = 110 then 10 # unescape_basic cs
          else if e = 114 then 13 # unescape_basic cs
          else if e = 116 then 9 # unescape_basic cs
          else if e = 117 then
            (case Option.bind (parse_hex (take 4 cs)) char_from_u32 of
               None \<Rightarrow> []
             | Some ch \<Rightarrow> [ch]) @ unescape_basic (drop 4 cs)
          else 92 # e # unescape_basic cs)"

definition toml_decode_str :: "rstr \<Rightarrow> rstr" where
  "toml_decode_str val =
     (let val = trim val
      in if length val \<ge> 2 \<and> hd val = 39 \<and> last val = 39 then butlast (tl val)
         else if length val \<ge> 2 \<and> hd val = 34 \<and> last val = 34 then unescape_basic (butlast (tl val))
         else val)"

definition parse_toml_line :: "rstr \<Rightarrow> (rstr \<times> rstr) option" where
  "parse_toml_line line =
     (let line = trim line
      in if line = [] \<or> starts_with [35] line \<or> starts_with [91] line then None
         else case split_once 61 line of
           None \<Rightarrow> None
         | Some (key, val) \<Rightarrow> Some (trim key, toml_decode_str (trim val)))"

section \<open>A written value reads back\<close>

lemma hex4_sum:
  "q1 * 16 + m0 = c \<Longrightarrow> q2 * 16 + m1 = q1 \<Longrightarrow> q3 * 16 + m2 = q2 \<Longrightarrow>
   16 * (16 * (16 * q3 + m2) + m1) + m0 = (c :: nat)"
  by simp

lemma parse_hex4: "c < 0x10000 \<Longrightarrow> parse_hex (hex4 c) = Some c"
proof -
  assume c: "c < 0x10000"
  have d: "c div 4096 mod 16 < 16" "c div 256 mod 16 < 16" "c div 16 mod 16 < 16" "c mod 16 < 16" by simp_all
  have "hex_upper (c div 4096 mod 16) \<noteq> 43" using hex_digit_bounds(2)[OF d(1)] by auto
  then have "parse_hex (hex4 c) =
      Some (16 * (16 * (16 * (c div 4096 mod 16) + c div 256 mod 16) + c div 16 mod 16) + c mod 16)"
    by (simp add: parse_hex_def hex4_def hex_value_upper[OF d(1)] hex_value_upper[OF d(2)]
        hex_value_upper[OF d(3)] hex_value_upper[OF d(4)])
  also have "16 * (16 * (16 * (c div 4096 mod 16) + c div 256 mod 16) + c div 16 mod 16) + c mod 16 = c"
  proof -
    have d: "c div 256 = c div 16 div 16" "c div 4096 = c div 16 div 16 div 16" by (simp_all add: div_mult2_eq[symmetric])
    have "c div 4096 < 16" using c by auto
    then have top: "c div 16 div 16 div 16 mod 16 = c div 16 div 16 div 16" unfolding d by simp
    show ?thesis
      unfolding d top by (rule hex4_sum) (simp_all only: div_mult_mod_eq)
  qed
  finally show ?thesis .
qed

lemma unescape_encode_char: "unescape_basic (toml_encode_char c @ s) = c # unescape_basic s"
proof -
  have l: "length (hex4 c) = 4" by (simp add: hex4_def)
  have "is_control c \<Longrightarrow> Option.bind (parse_hex (hex4 c)) char_from_u32 = Some c"
    by (subst parse_hex4) (auto simp: is_control_def char_from_u32_def is_scalar_def)
  then show ?thesis
    using l by (auto simp: toml_encode_char_def)
qed

lemma unescape_encode: "unescape_basic (concat (map toml_encode_char s)) = s"
  by (induction s) (auto simp: unescape_encode_char simp del: unescape_basic.simps(2))

lemma trimmed_quoted: "trimmed (34 # s @ [34])"
  by (simp add: trimmed_def is_whitespace_def)

lemma toml_decode_encode: "toml_decode_str (toml_encode_str s) = s"
proof -
  have "trim (toml_encode_str s) = toml_encode_str s"
    unfolding toml_encode_str_def using trim_trimmed[OF trimmed_quoted] by simp
  then show ?thesis
    by (simp add: toml_decode_str_def toml_encode_str_def unescape_encode butlast_append)
qed

lemma trim_toml_encode: "trim (toml_encode_str s) = toml_encode_str s"
  unfolding toml_encode_str_def using trim_trimmed[OF trimmed_quoted] by simp

text \<open>A written value has no line breaks, so a file of written lines is cut at the right places.\<close>

lemma hex4_chars: "c \<in> set (hex4 n) \<Longrightarrow> 48 \<le> c \<and> c \<le> 70"
proof -
  have "x < 16 \<Longrightarrow> 48 \<le> hex_upper x \<and> hex_upper x \<le> 70" for x by (rule hex_digit_bounds(2))
  moreover have "n div 4096 mod 16 < 16" "n div 256 mod 16 < 16" "n div 16 mod 16 < 16" "n mod 16 < 16" by simp_all
  ultimately show "c \<in> set (hex4 n) \<Longrightarrow> 48 \<le> c \<and> c \<le> 70" unfolding hex4_def by auto
qed

lemma toml_encode_char_set: "x \<in> set (toml_encode_char c) \<Longrightarrow> \<not> is_control x"
proof -
  assume x: "x \<in> set (toml_encode_char c)"
  have "\<not> is_control y" if "y \<in> set (hex4 c)" for y
    using hex4_chars[OF that] by (auto simp: is_control_def)
  with x show ?thesis
    by (auto simp: toml_encode_char_def split: if_splits) (auto simp: is_control_def)
qed

lemma toml_encode_no_control: "x \<in> set (toml_encode_str s) \<Longrightarrow> \<not> is_control x"
  using toml_encode_char_set by (auto simp: toml_encode_str_def) (auto simp: is_control_def)

lemma toml_encode_no_break: "10 \<notin> set (toml_encode_str s)" "13 \<notin> set (toml_encode_str s)"
  using toml_encode_no_control[of 10 s] toml_encode_no_control[of 13 s] by (auto simp: is_control_def)

section \<open>A written line reads back\<close>

text \<open>The keys for which \<open>key = value\<close> can be read.\<close>

definition toml_key :: "rstr \<Rightarrow> bool" where
  "toml_key k \<longleftrightarrow> k \<noteq> [] \<and> trimmed k \<and> 61 \<notin> set k \<and> 10 \<notin> set k \<and> 13 \<notin> set k \<and> hd k \<noteq> 35 \<and> hd k \<noteq> 91"

definition toml_line :: "rstr \<Rightarrow> rstr \<Rightarrow> rstr" where
  "toml_line k v = k @ str '' = '' @ v"

lemma toml_line_parts: "toml_line k v = k @ 32 # 61 # 32 # v"
  by (simp add: toml_line_def str_simps)

lemma trim_toml_line:
  assumes "toml_key k" "v \<noteq> []" "\<not> is_whitespace (last v)"
  shows "trim (toml_line k v) = toml_line k v"
proof -
  have "k \<noteq> []" "\<not> is_whitespace (hd k)" using assms(1) by (auto simp: toml_key_def trimmed_def)
  then show ?thesis using assms(2,3) by (intro trim_trimmed) (simp add: trimmed_def toml_line_parts)
qed

lemma parse_toml_line_plain:
  assumes "toml_key k" "v \<noteq> []" "trimmed v"
  shows "parse_toml_line (toml_line k v) = Some (k, toml_decode_str v)"
proof -
  have k: "k \<noteq> []" "61 \<notin> set (k @ [32])" "hd k \<noteq> 35" "hd k \<noteq> 91" "trimmed k"
    using assms(1) by (auto simp: toml_key_def)
  have l: "toml_line k v = (k @ [32]) @ 61 # 32 # v" by (simp add: toml_line_parts)
  have "\<not> starts_with [35] (toml_line k v)" "\<not> starts_with [91] (toml_line k v)"
    using k(1,3,4) by (simp_all add: toml_line_parts starts_with_single)
  moreover have "split_once 61 (toml_line k v) = Some (k @ [32], 32 # v)"
    unfolding l by (rule split_once_append[OF k(2)])
  moreover have "trim (toml_line k v) = toml_line k v"
    using assms by (intro trim_toml_line) (auto simp: trimmed_def)
  moreover have "toml_line k v \<noteq> []" by (simp add: l)
  ultimately show ?thesis
    by (simp add: parse_toml_line_def trim_space_end trim_space_start trim_trimmed k(5) assms(3))
qed

lemma parse_toml_line_encode:
  assumes "toml_key k"
  shows "parse_toml_line (toml_line k (toml_encode_str v)) = Some (k, v)"
proof -
  have "toml_encode_str v \<noteq> []" by (simp add: toml_encode_str_def)
  moreover have "trimmed (toml_encode_str v)" unfolding toml_encode_str_def using trimmed_quoted by simp
  ultimately show ?thesis using parse_toml_line_plain[OF assms] toml_decode_encode by simp
qed

lemma trim_toml_line_encode:
  assumes "toml_key k"
  shows "trim (toml_line k (toml_encode_str v)) = toml_line k (toml_encode_str v)"
  using assms by (intro trim_toml_line) (auto simp: toml_encode_str_def is_whitespace_def)

end
