(* ===== verification/Utf8.thy ===== *)
theory Utf8
  imports Rust_Str
begin

text \<open>
  UTF-8 as \<open>as_bytes\<close> and \<open>String::from_utf8\<close> of the Rust library have it: shortest forms only, no
  surrogates, nothing above \<open>0x10FFFF\<close>. Decoding undoes encoding; the password store and the terminal
  rest on it.
\<close>

definition utf8_char :: "rchar \<Rightarrow> bytes" where
  "utf8_char c = map word_of_nat
     (if c < 0x80 then [c]
      else if c < 0x800 then [0xC0 + c div 64, 0x80 + c mod 64]
      else if c < 0x10000 then [0xE0 + c div 4096, 0x80 + c div 64 mod 64, 0x80 + c mod 64]
      else [0xF0 + c div 262144, 0x80 + c div 4096 mod 64, 0x80 + c div 64 mod 64, 0x80 + c mod 64])"

definition utf8 :: "rstr \<Rightarrow> bytes" where
  "utf8 s = concat (map utf8_char s)"

definition utf8_cont :: "u8 \<Rightarrow> bool" where
  "utf8_cont b \<longleftrightarrow> 0x80 \<le> unat b \<and> unat b < 0xC0"

text \<open>One character from the front: its code point and what follows.\<close>

definition utf8_next :: "bytes \<Rightarrow> (rchar \<times> bytes) option" where
  "utf8_next bs =
     (case bs of [] \<Rightarrow> None
      | b0 # r \<Rightarrow>
          if unat b0 < 0x80 then Some (unat b0, r)
          else if 0xC2 \<le> unat b0 \<and> unat b0 < 0xE0 then
            (case r of
               b1 # r' \<Rightarrow> if utf8_cont b1 then Some ((unat b0 - 0xC0) * 64 + (unat b1 - 0x80), r') else None
             | _ \<Rightarrow> None)
          else if 0xE0 \<le> unat b0 \<and> unat b0 < 0xF0 then
            (case r of
               b1 # b2 # r' \<Rightarrow>
                 let c = (unat b0 - 0xE0) * 4096 + (unat b1 - 0x80) * 64 + (unat b2 - 0x80)
                 in if utf8_cont b1 \<and> utf8_cont b2 \<and> 0x800 \<le> c \<and> is_scalar c then Some (c, r') else None
             | _ \<Rightarrow> None)
          else if 0xF0 \<le> unat b0 \<and> unat b0 < 0xF5 then
            (case r of
               b1 # b2 # b3 # r' \<Rightarrow>
                 let c = (unat b0 - 0xF0) * 262144 + (unat b1 - 0x80) * 4096 + (unat b2 - 0x80) * 64 + (unat b3 - 0x80)
                 in if utf8_cont b1 \<and> utf8_cont b2 \<and> utf8_cont b3 \<and> 0x10000 \<le> c \<and> c < 0x110000
                    then Some (c, r') else None
             | _ \<Rightarrow> None)
          else None)"

lemma utf8_next_shorter: "utf8_next bs = Some (c, r) \<Longrightarrow> length r < length bs"
  by (auto simp: utf8_next_def Let_def split: list.splits if_splits)

function from_utf8 :: "bytes \<Rightarrow> rstr option" where
  "from_utf8 bs =
     (if bs = [] then Some []
      else case utf8_next bs of None \<Rightarrow> None | Some (c, r) \<Rightarrow> map_option ((#) c) (from_utf8 r))"
  by pat_completeness auto
termination
  by (relation "measure length") (auto dest: utf8_next_shorter)

declare from_utf8.simps [simp del]

lemma utf8_next_char:
  assumes "is_scalar c"
  shows "utf8_next (utf8_char c @ r) = Some (c, r)"
proof -
  have u: "unat (word_of_nat n :: u8) = n" if "n < 256" for n using that by (simp add: unat_of_nat)
  have cont: "unat (word_of_nat (0x80 + n mod 64) :: u8) = 0x80 + n mod 64" for n
  proof -
    have "n mod 64 < 64" by simp
    then show ?thesis by (intro u) linarith
  qed
  have m: "n mod 64 < 64" for n :: nat by simp
  define b1 b2 b3 :: u8 where "b1 = word_of_nat (0x80 + c mod 64)" and "b2 = word_of_nat (0x80 + c div 64 mod 64)"
    and "b3 = word_of_nat (0x80 + c div 4096 mod 64)"
  have v: "unat b1 = 0x80 + c mod 64" "unat b2 = 0x80 + c div 64 mod 64" "unat b3 = 0x80 + c div 4096 mod 64"
    unfolding b1_def b2_def b3_def by (rule cont)+
  then have w: "utf8_cont b1" "utf8_cont b2" "utf8_cont b3"
    using m[of c] m[of "c div 64"] m[of "c div 4096"] by (simp_all add: utf8_cont_def)
  have div: "c div 4096 = c div 64 div 64" "c div 262144 = c div 64 div 64 div 64"
    by (simp_all add: div_mult2_eq[symmetric])
  consider "c < 0x80" | "0x80 \<le> c" "c < 0x800" | "0x800 \<le> c" "c < 0x10000" | "0x10000 \<le> c" "c < 0x110000"
  proof -
    have "c < 0x110000" using assms by (auto simp: is_scalar_def)
    then show ?thesis using that by linarith
  qed
  then show ?thesis
  proof cases
    case 1
    then show ?thesis by (simp add: utf8_char_def utf8_next_def u)
  next
    case 2
    define b0 :: u8 where "b0 = word_of_nat (0xC0 + c div 64)"
    have q: "2 \<le> c div 64" "c div 64 < 32" using 2 by auto
    then have b0: "unat b0 = 0xC0 + c div 64" unfolding b0_def by (intro u) simp
    have e: "utf8_char c = [b0, b1]" using 2 by (simp add: utf8_char_def b0_def b1_def)
    show ?thesis
      unfolding e using q b0 v(1) w(1) by (simp add: utf8_next_def)
  next
    case 3
    define b0 :: u8 where "b0 = word_of_nat (0xE0 + c div 4096)"
    have q: "c div 4096 < 16" using 3 by auto
    then have b0: "unat b0 = 0xE0 + c div 4096" unfolding b0_def by (intro u) simp
    have e: "utf8_char c = [b0, b2, b1]" using 3 by (simp add: utf8_char_def b0_def b1_def b2_def)
    have c: "c div 4096 * 4096 + c div 64 mod 64 * 64 + c mod 64 = c"
      unfolding div using div_mult_mod_eq[of c 64] div_mult_mod_eq[of "c div 64" 64] by linarith
    show ?thesis
      unfolding e using q b0 v w c 3 assms by (simp add: utf8_next_def Let_def)
  next
    case 4
    define b0 :: u8 where "b0 = word_of_nat (0xF0 + c div 262144)"
    have q: "c div 262144 < 5" using 4 by auto
    then have b0: "unat b0 = 0xF0 + c div 262144" unfolding b0_def by (intro u) simp
    have e: "utf8_char c = [b0, b3, b2, b1]" using 4 by (simp add: utf8_char_def b0_def b1_def b2_def b3_def)
    have c: "c div 262144 * 262144 + c div 4096 mod 64 * 4096 + c div 64 mod 64 * 64 + c mod 64 = c"
      unfolding div using div_mult_mod_eq[of c 64] div_mult_mod_eq[of "c div 64" 64]
        div_mult_mod_eq[of "c div 64 div 64" 64] by linarith
    show ?thesis
      unfolding e using q b0 v w c 4 by (simp add: utf8_next_def Let_def)
  qed
qed

lemma utf8_char_nonempty: "utf8_char c \<noteq> []"
  by (simp add: utf8_char_def)

lemma from_utf8_utf8:
  "\<forall>c\<in>set s. is_scalar c \<Longrightarrow> from_utf8 (utf8 s) = Some s"
proof (induction s)
  case (Cons c s)
  then have "from_utf8 (utf8_char c @ utf8 s) = Some (c # s)"
    by (subst from_utf8.simps) (simp add: utf8_next_char utf8_char_nonempty)
  then show ?case by (simp add: utf8_def)
qed (simp add: utf8_def from_utf8.simps)

lemma utf8_ascii: "\<forall>c\<in>set s. c < 128 \<Longrightarrow> utf8 s = map word_of_nat s"
  by (induction s) (auto simp: utf8_def utf8_char_def)

end
