(* ===== verification/Word_Nat.thy ===== *)
theory Word_Nat
  imports Prelude
begin

text \<open>
  Reading word expressions as numbers. Each lemma of the collection \<open>word_nat\<close> turns one operation of the
  limb arithmetic (Poly1305, the frame headers, the byte codecs) into its value on \<open>nat\<close> under the bound
  that rules out wrap-around.
\<close>

named_theorems word_nat \<open>the value of a word operation as a natural number\<close>

lemma unat_add_small:
  "unat (a :: 'a::len word) + unat b < 2 ^ LENGTH('a) \<Longrightarrow> unat (a + b) = unat a + unat b"
  by (simp add: unat_word_ariths)

lemma unat_mult_small:
  "unat (a :: 'a::len word) * unat b < 2 ^ LENGTH('a) \<Longrightarrow> unat (a * b) = unat a * unat b"
  by (simp add: unat_word_ariths)

lemma unat_drop_bit [word_nat]: "unat (drop_bit k (w :: 'a::len word)) = unat w div 2 ^ k"
proof -
  have "unat w div 2 ^ k < 2 ^ LENGTH('a)"
    by (rule order_le_less_trans[OF div_le_dividend unsigned_less])
  then show ?thesis
    by (metis drop_bit_eq_div take_bit_nat_eq_self unsigned_drop_bit_eq unsigned_less)
qed

lemma unat_and_mask:
  assumes "unat (m :: 'a::len word) = 2 ^ k - 1"
  shows "unat (w AND m) = unat w mod 2 ^ k"
proof -
  have "unat (w AND m) = unat w AND mask k"
    using assms by (simp add: unsigned_and_eq mask_eq_exp_minus_1)
  also have "\<dots> = unat w mod 2 ^ k"
    by (simp only: take_bit_eq_mask[symmetric] take_bit_eq_mod)
  finally show ?thesis .
qed

lemma unat_ucast_up: "LENGTH('a::len) \<le> LENGTH('b::len) \<Longrightarrow> unat (ucast (w :: 'a word) :: 'b word) = unat w"
  by (simp add: unsigned_ucast_eq take_bit_nat_eq_self order_less_le_trans[OF unsigned_less]
      power_increasing)

lemma unat_ucast_mod: "unat (ucast (w :: 'a::len word) :: 'b::len word) = unat w mod 2 ^ LENGTH('b)"
  by (simp add: unsigned_ucast_eq take_bit_eq_mod)

lemma unat_or_push:
  assumes "unat (x :: 'a::len word) < 2 ^ k" "unat y * 2 ^ k < 2 ^ LENGTH('a)"
  shows "unat (x OR push_bit k y) = unat x + unat y * 2 ^ k"
proof -
  have pb: "unat (push_bit k y) = unat y * 2 ^ k"
    using assms(2)
    by (simp only: unsigned_push_bit_eq, subst take_bit_nat_eq_self) (simp_all add: push_bit_eq_mult)
  have "bit x i \<Longrightarrow> i < k" for i
    using assms(1) bit_take_bit_iff[of k "unat x" i]
    by (simp add: take_bit_nat_eq_self bit_unsigned_iff bit_imp_le_length)
  then have "x AND push_bit k y = 0"
    by (intro bit_word_eqI) (auto simp: bit_simps dest: leD)
  moreover have "unat x + unat y * 2 ^ k < 2 ^ LENGTH('a)"
  proof (cases "k < LENGTH('a)")
    case True
    then obtain j where j: "LENGTH('a) = k + j" by (metis less_imp_add_positive)
    then have "unat y < 2 ^ j" using assms(2) by (simp add: power_add)
    then have "(unat y + 1) * 2 ^ k \<le> 2 ^ j * 2 ^ k" by (intro mult_right_mono) auto
    then show ?thesis using assms(1) j by (simp add: power_add algebra_simps)
  next
    case False
    then have "2 ^ LENGTH('a) \<le> (2 :: nat) ^ k" by (intro power_increasing) auto
    moreover have "2 ^ k \<le> unat y * 2 ^ k" if "unat y \<noteq> 0" using that by simp
    ultimately have "unat y = 0" using assms(2) by linarith
    then show ?thesis by simp
  qed
  ultimately show ?thesis
    using pb by (simp add: disjunctive_add_eq_or[symmetric] unat_add_small)
qed

lemma unat_or_push_wrap:
  assumes "unat (x :: 'a::len word) < 2 ^ k" "k \<le> LENGTH('a)"
  shows "unat (x OR push_bit k y) = unat x + unat y mod 2 ^ (LENGTH('a) - k) * 2 ^ k"
proof -
  have t: "unat (take_bit n (y :: 'a word)) = unat y mod 2 ^ n" for n
  proof -
    have "unat (take_bit n y) = take_bit n (unat y)" by (rule unsigned_take_bit_eq)
    then show ?thesis by (simp only: take_bit_eq_mod[of n "unat y"])
  qed
  have p: "push_bit k y = push_bit k (take_bit (LENGTH('a) - k) y)"
    by (rule bit_word_eqI) (auto simp: bit_simps)
  have "unat y mod 2 ^ (LENGTH('a) - k) * 2 ^ k < 2 ^ (LENGTH('a) - k) * 2 ^ k" by simp
  also have "\<dots> = 2 ^ LENGTH('a)" using assms(2) by (simp flip: power_add)
  finally show ?thesis
    unfolding p by (subst unat_or_push) (use assms(1) in \<open>simp_all add: t\<close>)
qed

lemma bit_nat_less: "bit (n :: nat) i \<Longrightarrow> n < 2 ^ k \<Longrightarrow> i < k"
  by (metis bit_take_bit_iff take_bit_nat_eq_self)

lemma bit_word_less: "bit (w :: 'a::len word) i \<Longrightarrow> unat w < 2 ^ k \<Longrightarrow> i < k"
  by (rule bit_nat_less[of "unat w"]) (auto simp: bit_unsigned_iff bit_imp_le_length)

lemma unat_byte_less: "unat (b :: u8) < 256"
  using unsigned_less[of b] by simp

text \<open>A number as its residue and quotient, for limb sums.\<close>

lemma split_limb: "(d :: nat) = d mod 2 ^ k + 2 ^ k * (d div 2 ^ k)"
  by simp

text \<open>The low bytes of a word, shifted out one by one.\<close>

lemma le_nat_bytes:
  fixes v :: "'a::len word"
  assumes "unat v = x"
  shows "le_nat [ucast v] = x mod 256" "le_nat [ucast v, ucast (drop_bit 8 v)] = x mod 65536"
    "le_nat [ucast v, ucast (drop_bit 8 v), ucast (drop_bit 16 v)] = x mod 16777216"
    "le_nat [ucast v, ucast (drop_bit 8 v), ucast (drop_bit 16 v), ucast (drop_bit 24 v)] = x mod 4294967296"
proof -
  have b: "unat (ucast (drop_bit k v) :: u8) = x div 2 ^ k mod 256" "unat (ucast v :: u8) = x mod 256" for k
    using assms by (simp_all add: unat_ucast_mod unat_drop_bit)
  have m: "x mod (256 * y) = x mod 256 + 256 * (x div 256 mod y)" for x y :: nat
    by (simp add: mod_mult2_eq)
  show "le_nat [ucast v] = x mod 256" by (simp add: b)
  show 2: "le_nat [ucast v, ucast (drop_bit 8 v)] = x mod 65536"
    using m[of x 256] by (simp add: b)
  show "le_nat [ucast v, ucast (drop_bit 8 v), ucast (drop_bit 16 v)] = x mod 16777216"
    using m[of x 65536] m[of "x div 256" 256] by (simp add: b div_mult2_eq[symmetric])
  show "le_nat [ucast v, ucast (drop_bit 8 v), ucast (drop_bit 16 v), ucast (drop_bit 24 v)] = x mod 4294967296"
    using m[of x 16777216] m[of "x div 256" 65536] m[of "x div 256 div 256" 256]
    by (simp add: b div_mult2_eq[symmetric])
qed

end
