(* ===== verification/Codecs.thy ===== *)
theory Codecs
  imports Utf8 Word_Nat
begin

text \<open>
  The byte codecs of \<open>src/src/config.rs\<close> (hexadecimal, base64, the repeating-key mask of stored passwords,
  random strings, \<open>mask_ip\<close>) and the second base64 encoder of \<open>src/src/websocket.rs\<close>. ASCII text is kept as
  bytes where the source indexes it by byte. A decoder undoes its encoder on every input.
\<close>

section \<open>Hexadecimal\<close>

definition hex_encode :: "bytes \<Rightarrow> rstr" where
  "hex_encode data = concat (map (\<lambda>b. [hex_lower (unat b div 16), hex_lower (unat b mod 16)]) data)"

text \<open>\<open>u8::from_str_radix(chunk, 16)\<close> on one or two bytes.\<close>

definition hex_byte :: "bytes \<Rightarrow> u8 option" where
  "hex_byte chunk =
     (case chunk of
        [a] \<Rightarrow> map_option word_of_nat (hex_value (unat a))
      | [a, b] \<Rightarrow>
          (if unat a = 43 then map_option word_of_nat (hex_value (unat b))
           else case (hex_value (unat a), hex_value (unat b)) of
             (Some x, Some y) \<Rightarrow> Some (word_of_nat (16 * x + y))
           | _ \<Rightarrow> None)
      | _ \<Rightarrow> None)"

text \<open>Slicing two bytes at a time panics (\<open>None\<close>) inside a character of several bytes; a pair that is not
  hexadecimal is skipped.\<close>

definition hex_decode :: "rstr \<Rightarrow> bytes option" where
  "hex_decode s =
     (let cs = chunks_of 2 (utf8 s)
      in if \<exists>c\<in>set cs. utf8_cont (hd c) then None else Some (List.map_filter hex_byte cs))"

section \<open>Base64\<close>

definition base64_alphabet :: bytes where
  "base64_alphabet = ascii ''ABCDEFGHIJKLMNOPQRSTUVWXYZabcdefghijklmnopqrstuvwxyz0123456789+/''"

definition base64_pad :: u8 where
  "base64_pad = 61"

definition base64_group :: "bytes \<Rightarrow> bytes" where
  "base64_group g =
     (let b0 = ucast (g ! 0) :: u32;
          b1 = (if length g > 1 then ucast (g ! 1) else 0) :: u32;
          b2 = (if length g > 2 then ucast (g ! 2) else 0) :: u32;
          triple = push_bit 16 b0 OR push_bit 8 b1 OR b2
      in [base64_alphabet ! unat (drop_bit 18 triple AND 0x3F),
          base64_alphabet ! unat (drop_bit 12 triple AND 0x3F),
          if length g > 1 then base64_alphabet ! unat (drop_bit 6 triple AND 0x3F) else base64_pad,
          if length g > 2 then base64_alphabet ! unat (triple AND 0x3F) else base64_pad])"

text \<open>\<open>while i < data.len()\<close>, three bytes a turn: what is left from \<open>i\<close> on.\<close>

function base64_encode :: "bytes \<Rightarrow> bytes" where
  "base64_encode data = (if data = [] then [] else base64_group (take 3 data) @ base64_encode (drop 3 data))"
  by pat_completeness auto
termination by (relation "measure length") auto

declare base64_encode.simps [simp del]

text \<open>\<open>websocket.rs\<close>: \<open>for chunk in data.chunks(3)\<close>.\<close>

definition ws_base64_encode :: "bytes \<Rightarrow> bytes" where
  "ws_base64_encode data = concat (map base64_group (chunks_of 3 data))"

definition base64_decode_byte :: "u8 \<Rightarrow> u8 option" where
  "base64_decode_byte c =
     (let n = unat c
      in if 65 \<le> n \<and> n \<le> 90 then Some (c - 65)
         else if 97 \<le> n \<and> n \<le> 122 then Some (c - 97 + 26)
         else if 48 \<le> n \<and> n \<le> 57 then Some (c - 48 + 52)
         else if n = 43 then Some 62
         else if n = 47 then Some 63
         else None)"

definition base64_ungroup :: "u8 \<Rightarrow> u8 \<Rightarrow> u8 \<Rightarrow> u8 \<Rightarrow> bytes option" where
  "base64_ungroup c0 c1 c2 c3 =
     Option.bind (base64_decode_byte c0) (\<lambda>a. Option.bind (base64_decode_byte c1) (\<lambda>b.
       let r0 = push_bit 2 a OR drop_bit 4 b
       in if c2 = base64_pad then Some [r0]
          else Option.bind (base64_decode_byte c2) (\<lambda>c.
            let r1 = push_bit 4 b OR drop_bit 2 c
            in if c3 = base64_pad then Some [r0, r1]
               else Option.bind (base64_decode_byte c3) (\<lambda>d. Some [r0, r1, push_bit 6 c OR d]))))"

fun base64_decode :: "bytes \<Rightarrow> bytes option" where
  "base64_decode (c0 # c1 # c2 # c3 # rest) =
     Option.bind (base64_ungroup c0 c1 c2 c3) (\<lambda>g. map_option (\<lambda>r. g @ r) (base64_decode rest))"
| "base64_decode _ = Some []"

section \<open>The mask of stored passwords\<close>

definition symmetric_crypt :: "bytes \<Rightarrow> bytes \<Rightarrow> bytes" where
  "symmetric_crypt data key =
     (if key = [] then data else map (\<lambda>i. data ! i XOR key ! (i mod length key)) [0..<length data])"

text \<open>The key is the configuration's \<open>encryption_key\<close>, a string. The stored text is ASCII in what is written
  here; what is read from a file may be any string.\<close>

definition encrypt_password :: "rstr \<Rightarrow> rstr \<Rightarrow> rstr" where
  "encrypt_password encryption_key plain =
     (if plain = [] then []
      else str ''00'' @ map unat (base64_encode (symmetric_crypt (utf8 plain) (utf8 encryption_key))))"

definition decrypt_password :: "rstr \<Rightarrow> rstr \<Rightarrow> rstr" where
  "decrypt_password encryption_key stored =
     (if stored = [] then []
      else if starts_with (str ''00'') stored then
        (case base64_decode (utf8 (drop 2 stored)) of
           None \<Rightarrow> stored
         | Some bs \<Rightarrow>
             (case from_utf8 (symmetric_crypt bs (utf8 encryption_key)) of
                None \<Rightarrow> stored
              | Some s \<Rightarrow> s))
      else stored)"

section \<open>Random strings\<close>

definition CHARS :: "rchar list" where
  "CHARS = str ''23456789abcdefghijkmnpqrstuvwxyz''"

definition generate_random_string :: "bytes \<Rightarrow> rstr" where
  "generate_random_string random = map (\<lambda>b. CHARS ! (unat b AND (length CHARS - 1))) random"

text \<open>The fallback generator, from its seed on.\<close>

primrec weak_random_bytes :: "u64 \<Rightarrow> nat \<Rightarrow> bytes" where
  "weak_random_bytes seed 0 = []"
| "weak_random_bytes seed (Suc n) =
     (let seed = seed * 6364136223846793005 + 1442695040888963407
      in ucast (drop_bit 33 seed) # weak_random_bytes seed n)"

section \<open>Masking an address in the log\<close>

definition rfind_split :: "rchar \<Rightarrow> rstr \<Rightarrow> (rstr \<times> rstr) option" where
  "rfind_split c s = (case split_once c (rev s) of None \<Rightarrow> None | Some (a, b) \<Rightarrow> Some (rev b, c # rev a))"

definition mask_ip :: "rstr \<Rightarrow> rstr" where
  "mask_ip s =
     (let plain = (let t = join [46] (take 3 (split_on 46 s)) in if t \<noteq> s then t else s)
      in case rfind_split 58 s of
           None \<Rightarrow> plain
         | Some (ip_part, port_part) \<Rightarrow>
             (let truncated = join [46] (take 3 (split_on 46 ip_part))
              in if truncated \<noteq> ip_part then truncated @ port_part else plain))"

section \<open>Hexadecimal reads back\<close>

lemma hex_byte_pair:
  assumes "x < 16" "y < 16"
  shows "hex_byte [word_of_nat (hex_lower x), word_of_nat (hex_lower y)] = Some (word_of_nat (16 * x + y))"
proof -
  have b: "unat (word_of_nat (hex_lower z) :: u8) = hex_lower z" if "z < 16" for z
    using hex_digit_bounds(1)[OF that] by (simp add: unat_of_nat)
  then show ?thesis
    using assms hex_digit_bounds(1)[OF assms(1)] by (simp add: hex_byte_def)
qed

lemma utf8_hex_encode:
  "utf8 (hex_encode data) =
     concat (map (\<lambda>b. [word_of_nat (hex_lower (unat b div 16)), word_of_nat (hex_lower (unat b mod 16))]) data)"
proof -
  have s: "hex_lower z < 128" if "z < 16" for z using hex_digit_bounds(1)[OF that] by simp
  have d: "unat (b :: u8) div 16 < 16" for b using unat_byte_less[of b] by auto
  have "utf8 (hex_encode data) = map word_of_nat (hex_encode data)"
    by (rule utf8_ascii) (auto simp: hex_encode_def s d)
  then show ?thesis by (simp add: hex_encode_def map_concat comp_def)
qed

lemma chunks_of_pairs: "chunks_of 2 (concat (map (\<lambda>b. [f b, g b]) xs)) = map (\<lambda>b. [f b, g b]) xs"
  by (induction xs) (auto simp: chunks_of_unfold)

lemma hex_decode_encode: "hex_decode (hex_encode data) = Some data"
proof -
  have d: "unat (b :: u8) div 16 < 16" for b using unat_byte_less[of b] by auto
  have "\<not> utf8_cont (word_of_nat (hex_lower z))" if "z < 16" for z
    using hex_digit_bounds(1)[OF that] by (simp add: utf8_cont_def unat_of_nat)
  moreover have "hex_byte [word_of_nat (hex_lower (unat b div 16)), word_of_nat (hex_lower (unat b mod 16))] = Some b"
    for b :: u8 by (simp only: hex_byte_pair[OF d] mod_less_divisor) (simp add: hex_byte_pair[OF d])
  ultimately show ?thesis
    by (simp add: hex_decode_def utf8_hex_encode chunks_of_pairs Let_def d comp_def
        List.map_filter_def)
qed

section \<open>Base64 reads back\<close>

lemma base64_alphabet_list:
  "base64_alphabet =
    [65, 66, 67, 68, 69, 70, 71, 72, 73, 74, 75, 76, 77, 78, 79, 80, 81, 82, 83, 84, 85, 86, 87, 88,
     89, 90, 97, 98, 99, 100, 101, 102, 103, 104, 105, 106, 107, 108, 109, 110, 111, 112, 113, 114,
     115, 116, 117, 118, 119, 120, 121, 122, 48, 49, 50, 51, 52, 53, 54, 55, 56, 57, 43, 47]"
  by (simp add: base64_alphabet_def ascii_def)

lemma base64_alphabet_decodes:
  assumes "n < 64"
  shows "base64_decode_byte (base64_alphabet ! n) = Some (word_of_nat n)" "base64_alphabet ! n \<noteq> base64_pad"
    "unat (base64_alphabet ! n) < 128"
proof -
  have "list_all2 (\<lambda>c n. base64_decode_byte c = Some (word_of_nat n) \<and> c \<noteq> base64_pad \<and> unat c < 128)
      base64_alphabet [0..<64]"
    by (simp add: base64_alphabet_list base64_decode_byte_def base64_pad_def upt_rec)
  then show "base64_decode_byte (base64_alphabet ! n) = Some (word_of_nat n)" "base64_alphabet ! n \<noteq> base64_pad"
    "unat (base64_alphabet ! n) < 128"
    using assms by (auto simp: list_all2_conv_all_nth)
qed

text \<open>The four six-bit digits of three bytes, and the bytes of four digits, as numbers.\<close>

lemma unat_triple:
  fixes x y z :: u8
  shows "unat (push_bit 16 (ucast x :: u32) OR push_bit 8 (ucast y) OR ucast z) =
    unat z + unat y * 256 + unat x * 65536"
proof -
  have up: "unat (ucast (w :: u8) :: u32) = unat w" for w by (rule unat_ucast_up) simp
  have e: "push_bit 16 (ucast x :: u32) OR push_bit 8 (ucast y) OR ucast z
      = (ucast z OR push_bit 8 (ucast y)) OR push_bit 16 (ucast x)"
    by (simp only: ac_simps)
  have 1: "unat ((ucast z :: u32) OR push_bit 8 (ucast y)) = unat z + unat y * 256"
    using unat_byte_less[of z] unat_byte_less[of y] by (subst unat_or_push) (simp_all add: up)
  show ?thesis
    unfolding e using unat_byte_less[of z] unat_byte_less[of y] unat_byte_less[of x]
    by (subst unat_or_push) (simp_all add: up 1)
qed

lemma six_bit_digits:
  fixes x :: nat
  assumes "x < 256" "y < 256" "z < 256"
  shows "(z + y * 256 + x * 65536) div 262144 mod 64 = x div 4"
    "(z + y * 256 + x * 65536) div 4096 mod 64 = x mod 4 * 16 + y div 16"
    "(z + y * 256 + x * 65536) div 64 mod 64 = y mod 16 * 4 + z div 64"
    "(z + y * 256 + x * 65536) mod 64 = z mod 64"
proof -
  have m: "(p + k * w) mod (k * n) = p + k * (w mod n)" if "p < k" for p k n w :: nat
    using that by (simp add: mod_mult2_eq)
  have d: "(p + k * w) div k = p div k + w" if "0 < k" for p k w :: nat
    using that by simp
  have 1: "(z + y * 256 + x * 65536) div 65536 = x"
    using d[of 65536 "z + y * 256" x] assms by simp
  have 2: "(z + y * 256 + x * 65536) div 256 = y + 256 * x"
    using d[of 256 z "y + 256 * x"] assms by simp
  have "(z + y * 256 + x * 65536) div 262144 = x div 4"
    using div_mult2_eq[of "z + y * 256 + x * 65536" 65536 4] 1 by simp
  then show "(z + y * 256 + x * 65536) div 262144 mod 64 = x div 4" using assms by simp
  have "(z + y * 256 + x * 65536) div 4096 = y div 16 + 16 * x"
    using div_mult2_eq[of "z + y * 256 + x * 65536" 256 16] d[of 16 y "16 * x"] 2 by simp
  then show "(z + y * 256 + x * 65536) div 4096 mod 64 = x mod 4 * 16 + y div 16"
    using m[of "y div 16" 16 x 4] assms by simp
  have "(z + y * 256 + x * 65536) div 64 = z div 64 + 4 * (y + 256 * x)"
    using d[of 64 z "4 * (y + 256 * x)"] by simp
  moreover have "(y + 256 * x) mod 16 = y mod 16" using mod_mult_self2[of y 16 "16 * x"] by simp
  ultimately show "(z + y * 256 + x * 65536) div 64 mod 64 = y mod 16 * 4 + z div 64"
    using m[of "z div 64" 4 "y + 256 * x" 16] assms by simp
  show "(z + y * 256 + x * 65536) mod 64 = z mod 64"
    using mod_mult_self2[of z 64 "y * 4 + x * 1024"] by (simp add: algebra_simps)
qed

lemma base64_digit: "unat (t AND 0x3F :: u32) = unat t mod 64"
proof -
  have "unat (t AND 0x3F :: u32) = unat t mod 2 ^ 6" by (rule unat_and_mask) simp
  then show ?thesis by simp
qed

lemma base64_group_digits:
  assumes "g \<noteq> []"
  defines "x \<equiv> unat (g ! 0)" and "y \<equiv> (if length g > 1 then unat (g ! 1) else 0)"
    and "z \<equiv> (if length g > 2 then unat (g ! 2) else 0)"
  shows "base64_group g =
    [base64_alphabet ! (x div 4), base64_alphabet ! (x mod 4 * 16 + y div 16),
     if length g > 1 then base64_alphabet ! (y mod 16 * 4 + z div 64) else base64_pad,
     if length g > 2 then base64_alphabet ! (z mod 64) else base64_pad]"
proof -
  have c: "(if length g > 1 then ucast (g ! 1) else 0 :: u32) = ucast (if length g > 1 then g ! 1 else 0 :: u8)"
    "(if length g > 2 then ucast (g ! 2) else 0 :: u32) = ucast (if length g > 2 then g ! 2 else 0 :: u8)"
    by simp_all
  have yz: "unat (if length g > 1 then g ! 1 else 0 :: u8) = y" "unat (if length g > 2 then g ! 2 else 0 :: u8) = z"
    by (simp_all add: y_def z_def)
  have B: "x < 256" "y < 256" "z < 256" unfolding x_def y_def z_def using unat_byte_less by auto
  have p: "(2 :: nat) ^ 18 = 262144" "(2 :: nat) ^ 12 = 4096" "(2 :: nat) ^ 6 = 64" by simp_all
  show ?thesis
    unfolding base64_group_def Let_def c base64_digit unat_drop_bit unat_triple yz x_def[symmetric] p six_bit_digits[OF B]
    by (rule refl)
qed

lemma base64_ungroup_digits:
  assumes "e0 < 64" "e1 < 64" "e2 < 64" "e3 < 64"
  shows "base64_ungroup (base64_alphabet ! e0) (base64_alphabet ! e1) base64_pad q =
      Some [word_of_nat (e1 div 16 + e0 * 4)]"
    "base64_ungroup (base64_alphabet ! e0) (base64_alphabet ! e1) (base64_alphabet ! e2) base64_pad =
      Some [word_of_nat (e1 div 16 + e0 * 4), word_of_nat (e2 div 4 + e1 mod 16 * 16)]"
    "base64_ungroup (base64_alphabet ! e0) (base64_alphabet ! e1) (base64_alphabet ! e2) (base64_alphabet ! e3) =
      Some [word_of_nat (e1 div 16 + e0 * 4), word_of_nat (e2 div 4 + e1 mod 16 * 16), word_of_nat (e3 + e2 mod 4 * 64)]"
proof -
  have u: "unat (word_of_nat e :: u8) = e" if "e < 64" for e using that by (simp add: unat_of_nat)
  have w: "v = word_of_nat n" if "unat v = n" for v :: u8 and n using that by auto
  have r0: "push_bit 2 (word_of_nat e0 :: u8) OR drop_bit 4 (word_of_nat e1) = word_of_nat (e1 div 16 + e0 * 4)"
    by (rule w, subst or.commute, subst unat_or_push_wrap)
      (use assms in \<open>simp_all add: u unat_drop_bit div_less_iff_less_mult\<close>)
  have r1: "push_bit 4 (word_of_nat e1 :: u8) OR drop_bit 2 (word_of_nat e2) = word_of_nat (e2 div 4 + e1 mod 16 * 16)"
    by (rule w, subst or.commute, subst unat_or_push_wrap)
      (use assms in \<open>simp_all add: u unat_drop_bit div_less_iff_less_mult\<close>)
  have r2: "push_bit 6 (word_of_nat e2 :: u8) OR word_of_nat e3 = word_of_nat (e3 + e2 mod 4 * 64)"
    by (rule w, subst or.commute, subst unat_or_push_wrap) (use assms in \<open>simp_all add: u\<close>)
  show "base64_ungroup (base64_alphabet ! e0) (base64_alphabet ! e1) base64_pad q =
      Some [word_of_nat (e1 div 16 + e0 * 4)]"
    using assms by (simp add: base64_ungroup_def base64_alphabet_decodes r0)
  show "base64_ungroup (base64_alphabet ! e0) (base64_alphabet ! e1) (base64_alphabet ! e2) base64_pad =
      Some [word_of_nat (e1 div 16 + e0 * 4), word_of_nat (e2 div 4 + e1 mod 16 * 16)]"
    using assms by (simp add: base64_ungroup_def base64_alphabet_decodes r0 r1)
  show "base64_ungroup (base64_alphabet ! e0) (base64_alphabet ! e1) (base64_alphabet ! e2) (base64_alphabet ! e3) =
      Some [word_of_nat (e1 div 16 + e0 * 4), word_of_nat (e2 div 4 + e1 mod 16 * 16), word_of_nat (e3 + e2 mod 4 * 64)]"
    using assms by (simp add: base64_ungroup_def base64_alphabet_decodes r0 r1 r2)
qed

lemma base64_decode_group:
  assumes "g \<noteq> []" "length g \<le> 3"
  shows "base64_decode (base64_group g @ rest) = map_option (\<lambda>r. g @ r) (base64_decode rest)"
proof -
  define x y z where "x = unat (g ! 0)" and "y = (if length g > 1 then unat (g ! 1) else 0)"
    and "z = (if length g > 2 then unat (g ! 2) else 0)"
  have B: "x < 256" "y < 256" "z < 256" unfolding x_def y_def z_def using unat_byte_less by auto
  have q: "y div 16 < 16" "z div 64 < 4" "x mod 4 < 4" "y mod 16 < 16" using B by auto
  have e: "x div 4 < 64" "x mod 4 * 16 + y div 16 < 64" "y mod 16 * 4 + z div 64 < 64" "z mod 64 < 64"
    using B q by auto
  have d: "(a * k + r) div k = a" "(a * k + r) mod k = r" if "r < k" for a k r :: nat
    using that by simp_all
  have undo: "(x mod 4 * 16 + y div 16) div 16 + x div 4 * 4 = x"
    "(y mod 16 * 4 + z div 64) div 4 + (x mod 4 * 16 + y div 16) mod 16 * 16 = y"
    "z mod 64 + (y mod 16 * 4 + z div 64) mod 4 * 64 = z"
    unfolding d[OF q(1)] d[OF q(2)] by simp_all
  note un = base64_ungroup_digits[OF e, unfolded undo]
  have grp: "base64_group g =
    [base64_alphabet ! (x div 4), base64_alphabet ! (x mod 4 * 16 + y div 16),
     if length g > 1 then base64_alphabet ! (y mod 16 * 4 + z div 64) else base64_pad,
     if length g > 2 then base64_alphabet ! (z mod 64) else base64_pad]"
    unfolding x_def y_def z_def by (rule base64_group_digits[OF assms(1)])
  consider a where "g = [a]" | a b where "g = [a, b]" | a b c where "g = [a, b, c]"
    using assms by (cases g; cases "tl g"; cases "tl (tl g)"; cases "tl (tl (tl g))") auto
  then show ?thesis
  proof cases
    case (1 a)
    then have "word_of_nat x = a" by (simp add: x_def)
    then show ?thesis unfolding grp using 1 un(1) by (simp add: map_option_case split: option.split)
  next
    case (2 a b)
    then have "word_of_nat x = a" "word_of_nat y = b" by (simp_all add: x_def y_def)
    then show ?thesis unfolding grp using 2 un(2) by (simp add: map_option_case split: option.split)
  next
    case (3 a b c)
    then have "word_of_nat x = a" "word_of_nat y = b" "word_of_nat z = c" by (simp_all add: x_def y_def z_def)
    then show ?thesis unfolding grp using 3 un(3) by (simp add: map_option_case split: option.split)
  qed
qed

lemma base64_decode_encode: "base64_decode (base64_encode data) = Some data"
proof (induction data rule: base64_encode.induct)
  case (1 data)
  show ?case
  proof (cases "data = []")
    case False
    then have "base64_decode (base64_encode data) = map_option (\<lambda>r. take 3 data @ r) (Some (drop 3 data))"
      using 1 by (subst base64_encode.simps) (simp add: base64_decode_group)
    then show ?thesis by simp
  qed (simp add: base64_encode.simps)
qed

lemma base64_encoders_agree: "ws_base64_encode data = base64_encode data"
proof (induction data rule: base64_encode.induct)
  case (1 data)
  then show ?case
    by (subst base64_encode.simps) (simp add: ws_base64_encode_def chunks_of_unfold)
qed

lemma length_base64_encode: "length (base64_encode data) = 4 * ((length data + 2) div 3)"
proof (induction data rule: base64_encode.induct)
  case (1 data)
  show ?case
  proof (cases "data = []")
    case False
    have "(length data + 2) div 3 = 1 + (length data - 3 + 2) div 3"
      using False by (cases "length data < 3") (auto simp: le_div_geq, (cases data; auto)+)
    then show ?thesis using 1 False by (subst base64_encode.simps) (simp add: base64_group_def Let_def)
  qed (simp add: base64_encode.simps)
qed

section \<open>Stored passwords\<close>

lemma symmetric_crypt_crypt: "symmetric_crypt (symmetric_crypt data key) key = data"
  by (cases "key = []") (auto simp: symmetric_crypt_def xor.assoc intro!: nth_equalityI)

lemma base64_encode_ascii: "c \<in> set (base64_encode data) \<Longrightarrow> unat c < 128"
proof (induction data rule: base64_encode.induct)
  case (1 data)
  have d: "unat (t AND 0x3F :: u32) < 64" for t by (simp add: base64_digit)
  have "unat c < 128" if "c \<in> set (base64_group g)" for g
    using that base64_alphabet_decodes(3)[OF d] by (auto simp: base64_group_def Let_def base64_pad_def split: if_splits)
  then show ?case using 1 by (cases "data = []") (auto simp: base64_encode.simps[of data] base64_encode.simps[of "[]"])
qed

lemma utf8_base64: "utf8 (map unat (base64_encode data)) = base64_encode data"
  using base64_encode_ascii by (subst utf8_ascii) (auto simp: comp_def)

lemma decrypt_encrypt:
  assumes "\<forall>c\<in>set plain. is_scalar c"
  shows "decrypt_password k (encrypt_password k plain) = plain"
  using from_utf8_utf8[OF assms]
  by (simp add: str_simps decrypt_password_def encrypt_password_def starts_with_def utf8_base64 base64_decode_encode
      symmetric_crypt_crypt)

section \<open>Properties\<close>

text \<open>Base64 decoding undoes the encoder of \<open>config.rs\<close> on every byte string, the output has four characters for
  each started group of three bytes, and the second encoder, in \<open>websocket.rs\<close>, writes the same text.\<close>

theorem base64_roundtrip:
  "base64_decode (base64_encode data) = Some data \<and>
   length (base64_encode data) = 4 * ((length data + 2) div 3) \<and>
   ws_base64_encode data = base64_encode data"
  by (simp add: base64_decode_encode length_base64_encode base64_encoders_agree)

text \<open>A stored password decrypts to what was encrypted, for every Unicode string and every encryption key, the
  empty key included; the text written starts with the version mark \<open>00\<close>.\<close>

theorem password_store_roundtrip:
  assumes "\<forall>c\<in>set plain. is_scalar c" "plain \<noteq> []"
  shows "decrypt_password k (encrypt_password k plain) = plain \<and> starts_with (str ''00'') (encrypt_password k plain)"
  using decrypt_encrypt[OF assms(1)] assms(2) by (simp add: str_simps encrypt_password_def starts_with_def)

theorem password_store_roundtrip_witness:
  "decrypt_password (str ''k'') (encrypt_password (str ''k'') [0x20AC, 97]) = [0x20AC, 97]"
  using password_store_roundtrip[of "[0x20AC, 97]" "str ''k''"] by (simp add: is_scalar_def)

text \<open>A key pair written as hexadecimal text reads back as the same bytes.\<close>

lemma hex_roundtrip: "hex_decode (hex_encode data) = Some data"
  by (rule hex_decode_encode)

text \<open>Reading hexadecimal text cuts the string every two bytes: when that falls inside a character the slice
  panics, so a configuration file whose key text has a letter followed by an accented one stops the program.\<close>

theorem hex_decode_panics: "hex_decode (str ''a'' @ [0xE9] @ str ''b'') = None"
  by (simp add: str_simps hex_decode_def utf8_def utf8_char_def chunks_of.simps utf8_cont_def)

end
