(* ===== verification/Config_Store.thy ===== *)
theory Config_Store
  imports Toml Codecs "HOL-Library.AList" "HOL-Library.List_Lexorder"
begin

text \<open>
  The four configuration stores of \<open>src/src/config.rs\<close> (\<open>Config\<close>, \<open>Config2\<close>, \<open>LocalConfig\<close>, \<open>PeerConfig\<close>): what each
  keeps, how it is read from and written to its file, and its operations. A file's content is a string,
  and a read that failed is \<open>None\<close>; \<open>save\<close> gives the content written, or \<open>None\<close> when it writes
  nothing. A \<open>HashMap\<close> is an association list with distinct keys, in the order its iteration happens to
  have. Values that come from the clock, the random generator or another file are arguments.
\<close>

section \<open>Lines of a file\<close>

definition unlines :: "rstr list \<Rightarrow> rstr" where
  "unlines ls = concat (map (\<lambda>l. l @ [10]) ls)"

lemma unlines_simps [simp]: "unlines [] = []" "unlines (l # ls) = l @ 10 # unlines ls"
  "unlines (ls @ ms) = unlines ls @ unlines ms"
  by (simp_all add: unlines_def)

text \<open>A line without line breaks.\<close>

definition one_line :: "rstr \<Rightarrow> bool" where
  "one_line l \<longleftrightarrow> 10 \<notin> set l \<and> 13 \<notin> set l"

lemma lines_unlines: "\<forall>l\<in>set ls. one_line l \<Longrightarrow> lines (unlines ls) = ls"
  by (induction ls) (auto simp: lines_line strip_cr_id one_line_def)

lemma one_line_simps [simp]:
  "one_line []" "one_line (c # l) \<longleftrightarrow> c \<noteq> 10 \<and> c \<noteq> 13 \<and> one_line l"
  "one_line (l @ m) \<longleftrightarrow> one_line l \<and> one_line m" "one_line (toml_encode_str v)"
  using toml_encode_no_break by (auto simp: one_line_def)

lemma one_line_digits: "\<forall>c\<in>set l. is_ascii_digit c \<Longrightarrow> one_line l"
  by (auto simp: one_line_def is_ascii_digit_def)

lemma one_line_show_nat [simp]: "one_line (show_nat n)"
  using show_nat_digits by (intro one_line_digits) blast

lemma one_line_show_int [simp]: "one_line (show_int i)"
  by (simp add: show_int_def)

lemma one_line_toml_line [simp]: "toml_key k \<Longrightarrow> one_line v \<Longrightarrow> one_line (toml_line k v)"
  by (auto simp: toml_line_parts toml_key_def one_line_def)

text \<open>Reading a file is a fold over its lines; a step that panics gives \<open>None\<close>.\<close>

primrec fold_lines :: "('s \<Rightarrow> rstr \<Rightarrow> 's option) \<Rightarrow> 's \<Rightarrow> rstr list \<Rightarrow> 's option" where
  "fold_lines f s [] = Some s"
| "fold_lines f s (l # ls) = Option.bind (f s l) (\<lambda>s. fold_lines f s ls)"

lemma fold_lines_append:
  "fold_lines f s (ls @ ms) = Option.bind (fold_lines f s ls) (\<lambda>s. fold_lines f s ms)"
  by (induction ls arbitrary: s) (simp_all split: bind_split)

section \<open>The contracts\<close>

text \<open>A store of options: what is set is what is got, and nothing else changes. An empty value is an unset one.\<close>

locale option_store =
  fixes get :: "'s \<Rightarrow> rstr \<Rightarrow> rstr"
    and put :: "'s \<Rightarrow> rstr \<Rightarrow> rstr \<Rightarrow> 's"
  assumes get_put: "get (put s k v) k' = (if k' = k then v else get s k')"
begin

lemma get_put_same: "get (put s k v) k = v"
  by (simp add: get_put)

lemma get_put_twice: "get (put (put s k v) k w) k' = get (put s k w) k'"
  by (simp add: get_put)

lemma get_put_commute: "k \<noteq> l \<Longrightarrow> get (put (put s k v) l w) k' = get (put (put s l w) k v) k'"
  by (simp add: get_put)

lemma get_puts: "get (foldl (\<lambda>s (k, v). put s k v) s kvs) k = (case map_of (rev kvs) k of None \<Rightarrow> get s k | Some v \<Rightarrow> v)"
  by (induction kvs rule: rev_induct) (auto simp: get_put split: option.split)

end

text \<open>A store with a file: what is written for a well-formed state reads back, up to what the file keeps of it.\<close>

locale persistent_store =
  fixes store :: "'s \<Rightarrow> rstr option"
    and load :: "rstr option \<Rightarrow> 's option"
    and wf :: "'s \<Rightarrow> bool"
    and kept :: "'s \<Rightarrow> 's"
  assumes load_store: "wf s \<Longrightarrow> store s = Some content \<Longrightarrow> load (Some content) = Some (kept s)"
    and kept_wf: "wf s \<Longrightarrow> wf (kept s)"
    and kept_kept: "wf s \<Longrightarrow> kept (kept s) = kept s"
begin

text \<open>Writing and reading again settles after one round.\<close>

lemma load_store_load:
  "wf s \<Longrightarrow> store s = Some c \<Longrightarrow> load (Some c) = Some s' \<Longrightarrow> store s' = Some c' \<Longrightarrow> load (Some c') = Some s'"
  using load_store[of s c] load_store[of s' c'] kept_wf kept_kept by auto

end

section \<open>\<open>Config\<close>\<close>

record config =
  cfg_id :: rstr
  password :: rstr
  permanent_password :: rstr
  salt :: rstr
  key_confirmed :: bool
  encryption_key :: rstr
  key_sk :: bytes
  key_pk :: bytes
  read_failed :: bool

definition config_empty :: config where
  "config_empty = \<lparr>cfg_id = [], password = [], permanent_password = [], salt = [], key_confirmed = False,
     encryption_key = [], key_sk = [], key_pk = [], read_failed = False\<rparr>"

definition config_line :: "config \<Rightarrow> rstr \<Rightarrow> config option" where
  "config_line cfg line =
     (case parse_toml_line (trim line) of
        None \<Rightarrow> Some cfg
      | Some (k, v) \<Rightarrow>
          if k = str ''id'' then Some (cfg\<lparr>cfg_id := v\<rparr>)
          else if k = str ''password'' then Some (cfg\<lparr>password := v\<rparr>)
          else if k = str ''permanent_password'' then Some (cfg\<lparr>permanent_password := v\<rparr>)
          else if k = str ''salt'' then Some (cfg\<lparr>salt := v\<rparr>)
          else if k = str ''key_confirmed'' then Some (cfg\<lparr>key_confirmed := (v = str ''true'')\<rparr>)
          else if k = str ''encryption_key'' then Some (cfg\<lparr>encryption_key := v\<rparr>)
          else if k = str ''key_pair_sk'' then map_option (\<lambda>d. cfg\<lparr>key_sk := d\<rparr>) (hex_decode v)
          else if k = str ''key_pair_pk'' then map_option (\<lambda>d. cfg\<lparr>key_pk := d\<rparr>) (hex_decode v)
          else Some cfg)"

definition config_read :: "rstr option \<Rightarrow> config \<Rightarrow> config option" where
  "config_read content cfg =
     (let cfg = cfg\<lparr>read_failed := (content = None)\<rparr>
      in case content of None \<Rightarrow> Some cfg | Some c \<Rightarrow> fold_lines config_line cfg (lines c))"

definition config_save :: "config \<Rightarrow> rstr option" where
  "config_save cfg =
     (if read_failed cfg then None
      else Some (unlines (
        [toml_line (str ''id'') (toml_encode_str (cfg_id cfg)),
         toml_line (str ''password'') (toml_encode_str (password cfg)),
         toml_line (str ''salt'') (toml_encode_str (salt cfg)),
         toml_line (str ''key_confirmed'') (if key_confirmed cfg then str ''true'' else str ''false''),
         toml_line (str ''key_pair_sk'') (toml_encode_str (hex_encode (key_sk cfg))),
         toml_line (str ''key_pair_pk'') (toml_encode_str (hex_encode (key_pk cfg)))]
        @ (if permanent_password cfg \<noteq> []
           then [toml_line (str ''permanent_password'') (toml_encode_str (permanent_password cfg))] else [])
        @ (if encryption_key cfg \<noteq> []
           then [toml_line (str ''encryption_key'') (toml_encode_str (encryption_key cfg))] else []))))"

text \<open>What the generators of \<open>load\<close> would give now.\<close>

record fresh =
  new_id :: rstr
  new_password :: rstr
  new_salt :: rstr
  new_key :: rstr
  new_sk :: bytes
  new_pk :: bytes

definition keys_ok :: "config \<Rightarrow> bool" where
  "keys_ok cfg \<longleftrightarrow> length (key_sk cfg) = 64 \<and> length (key_pk cfg) = 32 \<and> drop 32 (key_sk cfg) = key_pk cfg"

text \<open>\<open>legacy\<close> is the content of the shared file when there is another one of at most 65536 bytes;
  \<open>len()\<close> counts bytes.\<close>

definition import_legacy_identity :: "rstr option option \<Rightarrow> config \<Rightarrow> (bool \<times> config) option" where
  "import_legacy_identity legacy cfg =
     (case legacy of
        None \<Rightarrow> Some (False, cfg)
      | Some content \<Rightarrow>
          map_option (\<lambda>old.
            let id_ok = length (utf8 (cfg_id old)) \<ge> 6 \<and> length (utf8 (cfg_id old)) \<le> 16 \<and> list_all is_ascii_digit (cfg_id old)
            in if \<not> id_ok \<or> \<not> keys_ok old \<or> length (utf8 (salt old)) > 64 \<or> length (utf8 (password old)) > 128
                  \<or> length (utf8 (permanent_password old)) > 128
               then (False, cfg)
               else (True,
                 cfg\<lparr>cfg_id := cfg_id old, salt := salt old, key_sk := key_sk old, key_pk := key_pk old,
                     key_confirmed := key_confirmed old,
                     password := (if password old \<noteq> [] then password old else password cfg),
                     permanent_password :=
                       (if permanent_password old \<noteq> [] then permanent_password old else permanent_password cfg)\<rparr>))
            (config_read content config_empty))"

definition FILE_RETRIES :: nat where
  "FILE_RETRIES = 20"

text \<open>The retry loop: \<open>reads\<close> are what further reads would give, each with whether the file exists then.\<close>

fun config_retry :: "nat \<Rightarrow> (bool \<times> rstr option) list \<Rightarrow> config \<Rightarrow> config option" where
  "config_retry 0 reads cfg = Some cfg"
| "config_retry (Suc n) [] cfg = Some cfg"
| "config_retry (Suc n) ((exists, content) # reads) cfg =
     (if cfg_id cfg = [] \<and> \<not> read_failed cfg \<and> exists
      then Option.bind (config_read content cfg) (config_retry n reads)
      else Some cfg)"

definition config_complete :: "fresh \<Rightarrow> config \<Rightarrow> bool \<times> config" where
  "config_complete gen cfg =
     (let (g, cfg) = (if password cfg = [] then (True, cfg\<lparr>password := new_password gen\<rparr>) else (False, cfg));
          (g, cfg) = (if salt cfg = [] then (True, cfg\<lparr>salt := new_salt gen\<rparr>) else (g, cfg));
          (g, cfg) = (if encryption_key cfg = [] then (True, cfg\<lparr>encryption_key := new_key gen\<rparr>) else (g, cfg));
          (g, cfg) = (if \<not> keys_ok cfg then (True, cfg\<lparr>key_sk := new_sk gen, key_pk := new_pk gen\<rparr>) else (g, cfg))
      in (g, cfg))"

text \<open>\<open>load\<close>: the configuration, and what is written back when something had to be generated.\<close>

definition config_load ::
    "rstr option \<Rightarrow> (bool \<times> rstr option) list \<Rightarrow> rstr option option \<Rightarrow> fresh \<Rightarrow> (config \<times> rstr option) option" where
  "config_load content reads legacy gen =
     Option.bind (config_read content config_empty) (\<lambda>cfg.
     Option.bind (config_retry FILE_RETRIES reads cfg) (\<lambda>cfg.
     Option.bind
       (if cfg_id cfg = []
        then map_option (\<lambda>(imported, cfg). (True, if imported then cfg else cfg\<lparr>cfg_id := new_id gen\<rparr>))
               (import_legacy_identity legacy cfg)
        else Some (False, cfg)) (\<lambda>(generated, cfg).
       let (g, cfg) = config_complete gen cfg
       in Some (cfg, if generated \<or> g then config_save cfg else None))))"

section \<open>\<open>Config\<close> reads back\<close>

lemma parse_written_line [simp]:
  "toml_key k \<Longrightarrow> parse_toml_line (trim (toml_line k (toml_encode_str v))) = Some (k, v)"
  by (simp add: trim_toml_line_encode parse_toml_line_encode)

lemma parse_plain_line:
  assumes "toml_key k" "v \<noteq> []" "trimmed v" "hd v \<noteq> 34" "hd v \<noteq> 39"
  shows "parse_toml_line (trim (toml_line k v)) = Some (k, v)"
proof -
  have "trim (toml_line k v) = toml_line k v"
    using assms by (intro trim_toml_line) (auto simp: trimmed_def)
  moreover have "toml_decode_str v = v" using assms by (simp add: toml_decode_str_def trim_trimmed)
  ultimately show ?thesis using parse_toml_line_plain[OF assms(1-3)] by simp
qed

lemmas key_simps = str_simps toml_key_def trimmed_def is_whitespace_def

lemma config_keys [simp]:
  "toml_key (str ''id'')" "toml_key (str ''password'')" "toml_key (str ''salt'')" "toml_key (str ''key_confirmed'')"
  "toml_key (str ''key_pair_sk'')" "toml_key (str ''key_pair_pk'')" "toml_key (str ''permanent_password'')"
  "toml_key (str ''encryption_key'')"
  by (simp_all add: key_simps)

lemma parse_bool_line:
  "parse_toml_line (trim (toml_line (str ''key_confirmed'') (if b then str ''true'' else str ''false''))) =
     Some (str ''key_confirmed'', if b then str ''true'' else str ''false'')"
  by (rule parse_plain_line) (simp_all add: key_simps)

lemma config_line_written:
  assumes "toml_key k"
  shows "config_line cfg (toml_line k (toml_encode_str v)) =
   (if k = str ''id'' then Some (cfg\<lparr>cfg_id := v\<rparr>)
    else if k = str ''password'' then Some (cfg\<lparr>password := v\<rparr>)
    else if k = str ''permanent_password'' then Some (cfg\<lparr>permanent_password := v\<rparr>)
    else if k = str ''salt'' then Some (cfg\<lparr>salt := v\<rparr>)
    else if k = str ''key_confirmed'' then Some (cfg\<lparr>key_confirmed := (v = str ''true'')\<rparr>)
    else if k = str ''encryption_key'' then Some (cfg\<lparr>encryption_key := v\<rparr>)
    else if k = str ''key_pair_sk'' then map_option (\<lambda>d. cfg\<lparr>key_sk := d\<rparr>) (hex_decode v)
    else if k = str ''key_pair_pk'' then map_option (\<lambda>d. cfg\<lparr>key_pk := d\<rparr>) (hex_decode v)
    else Some cfg)"
  using assms by (simp only: config_line_def parse_written_line option.case prod.case)

lemma config_line_confirmed:
  "config_line cfg (toml_line (str ''key_confirmed'') (if b then str ''true'' else str ''false'')) =
     Some (cfg\<lparr>key_confirmed := b\<rparr>)"
  unfolding config_line_def parse_bool_line by simp

lemma config_read_save:
  assumes "config_save cfg = Some content"
  shows "config_read (Some content) config_empty = Some (cfg\<lparr>read_failed := False\<rparr>)"
proof -
  define ls where "ls = [toml_line (str ''id'') (toml_encode_str (cfg_id cfg)),
         toml_line (str ''password'') (toml_encode_str (password cfg)),
         toml_line (str ''salt'') (toml_encode_str (salt cfg)),
         toml_line (str ''key_confirmed'') (if key_confirmed cfg then str ''true'' else str ''false''),
         toml_line (str ''key_pair_sk'') (toml_encode_str (hex_encode (key_sk cfg))),
         toml_line (str ''key_pair_pk'') (toml_encode_str (hex_encode (key_pk cfg)))]
        @ (if permanent_password cfg \<noteq> []
           then [toml_line (str ''permanent_password'') (toml_encode_str (permanent_password cfg))] else [])
        @ (if encryption_key cfg \<noteq> []
           then [toml_line (str ''encryption_key'') (toml_encode_str (encryption_key cfg))] else [])"
  have content: "content = unlines ls" using assms by (simp add: config_save_def ls_def split: if_splits)
  have "one_line (if key_confirmed cfg then str ''true'' else str ''false'')" by (simp add: str_simps)
  then have "\<forall>l\<in>set ls. one_line l" unfolding ls_def by auto
  then have lines: "lines content = ls" unfolding content by (rule lines_unlines)
  show ?thesis
    unfolding config_read_def Let_def option.case lines ls_def
    by (simp add: fold_lines_append config_line_written config_line_confirmed hex_decode_encode config_empty_def)
qed


lemma read_failed_id: "\<not> read_failed cfg \<Longrightarrow> cfg\<lparr>read_failed := False\<rparr> = cfg"
  by simp

interpretation config_file: persistent_store config_save "\<lambda>c. config_read c config_empty" "\<lambda>_. True"
  "\<lambda>cfg. cfg\<lparr>read_failed := False\<rparr>"
  by unfold_locales (simp_all add: config_read_save)

lemma config_retry_present: "cfg_id cfg \<noteq> [] \<Longrightarrow> config_retry n reads cfg = Some cfg"
  by (induction n reads cfg rule: config_retry.induct) auto

lemma config_load_complete:
  assumes "config_read content config_empty = Some cfg" "cfg_id cfg \<noteq> []" "password cfg \<noteq> []" "salt cfg \<noteq> []"
    and "encryption_key cfg \<noteq> []" "keys_ok cfg"
  shows "config_load content reads legacy gen = Some (cfg, None)"
  using assms by (simp add: config_load_def config_retry_present config_complete_def)

text \<open>Whatever the files hold, a loaded configuration is usable.\<close>

definition usable :: "config \<Rightarrow> bool" where
  "usable cfg \<longleftrightarrow> cfg_id cfg \<noteq> [] \<and> password cfg \<noteq> [] \<and> salt cfg \<noteq> [] \<and> encryption_key cfg \<noteq> [] \<and> keys_ok cfg"

definition fresh_ok :: "fresh \<Rightarrow> bool" where
  "fresh_ok gen \<longleftrightarrow> new_id gen \<noteq> [] \<and> new_password gen \<noteq> [] \<and> new_salt gen \<noteq> [] \<and> new_key gen \<noteq> [] \<and>
     length (new_sk gen) = 64 \<and> length (new_pk gen) = 32 \<and> drop 32 (new_sk gen) = new_pk gen"

lemma config_complete_usable:
  assumes "fresh_ok gen" "cfg_id cfg \<noteq> []" "config_complete gen cfg = (g, cfg')"
  shows "usable cfg' \<and> (\<not> g \<longrightarrow> cfg' = cfg) \<and> read_failed cfg' = read_failed cfg"
  using assms by (auto simp: config_complete_def usable_def fresh_ok_def keys_ok_def Let_def split: if_splits)

lemma import_legacy_cases:
  assumes "import_legacy_identity legacy cfg = Some (b, cfg')"
  shows "(b \<longrightarrow> cfg_id cfg' \<noteq> [] \<and> list_all is_ascii_digit (cfg_id cfg') \<and> keys_ok cfg') \<and>
    (\<not> b \<longrightarrow> cfg' = cfg) \<and> read_failed cfg' = read_failed cfg"
proof (cases legacy)
  case (Some content)
  with assms obtain old where old: "config_read content config_empty = Some old"
    by (auto simp: import_legacy_identity_def)
  have "cfg_id old = [] \<Longrightarrow> length (utf8 (cfg_id old)) = 0" by (simp add: utf8_def)
  then show ?thesis
    using assms Some old by (auto simp: import_legacy_identity_def Let_def keys_ok_def split: if_splits)
qed (use assms in \<open>simp add: import_legacy_identity_def\<close>)

lemma config_load_usable:
  assumes "fresh_ok gen" "config_load content reads legacy gen = Some (cfg, written)"
  shows "usable cfg \<and> written \<in> {None, config_save cfg}"
proof -
  from assms(2) obtain c2 g c3 where
    g: "(if cfg_id c2 = [] then map_option (\<lambda>(imported, cfg). (True, if imported then cfg else cfg\<lparr>cfg_id := new_id gen\<rparr>))
          (import_legacy_identity legacy c2) else Some (False, c2)) = Some (g, c3)"
    and r: "(case config_complete gen c3 of (g', cfg) \<Rightarrow> Some (cfg, if g \<or> g' then config_save cfg else None))
      = Some (cfg, written)"
    unfolding config_load_def Let_def bind_eq_Some_conv split_paired_Ex prod.case by blast
  have "cfg_id c3 \<noteq> []"
  proof (cases "cfg_id c2 = []")
    case True
    with g obtain b c where i: "import_legacy_identity legacy c2 = Some (b, c)"
      by (cases "import_legacy_identity legacy c2") auto
    then have "c3 = (if b then c else c\<lparr>cfg_id := new_id gen\<rparr>)" using g True by simp
    then show ?thesis using import_legacy_cases[OF i] assms(1) by (auto simp: fresh_ok_def)
  qed (use g in auto)
  moreover obtain g' c4 where "config_complete gen c3 = (g', c4)" by (cases "config_complete gen c3")
  ultimately show ?thesis using config_complete_usable[OF assms(1)] r by (auto split: if_splits)
qed

end
