(* ===== verification/Config_Options.thy ===== *)
theory Config_Options
  imports Config_Store
begin

text \<open>
  \<open>Config2\<close>, \<open>LocalConfig\<close> and \<open>PeerConfig\<close> of \<open>src/src/config.rs\<close>: their options, the list of recent peers and
  the favourites, with the sections of their files. All three are instances of the option store's
  contract and of the contract of a store with a file; what the files do not keep is said by \<open>kept\<close>.
\<close>

section \<open>Options\<close>

definition options_get :: "(rstr \<times> rstr) list \<Rightarrow> rstr \<Rightarrow> rstr" where
  "options_get opts k = (case map_of opts k of None \<Rightarrow> [] | Some v \<Rightarrow> v)"

definition options_set :: "(rstr \<times> rstr) list \<Rightarrow> rstr \<Rightarrow> rstr \<Rightarrow> (rstr \<times> rstr) list" where
  "options_set opts k v = (if v = [] then AList.delete k opts else AList.update k v opts)"

text \<open>\<open>keys.sort()\<close> and the look-up of each key.\<close>

definition options_lines :: "(rstr \<times> rstr) list \<Rightarrow> rstr list" where
  "options_lines opts =
     List.map_filter (\<lambda>k. map_option (\<lambda>v. toml_line k (toml_encode_str v)) (map_of opts k)) (sort (map fst opts))"

section \<open>\<open>Config2\<close>\<close>

record config2 =
  c2_rendezvous_server :: rstr
  c2_nat_type :: int
  c2_serial :: int
  c2_options :: "(rstr \<times> rstr) list"
  c2_read_failed :: bool

definition config2_empty :: config2 where
  "config2_empty = \<lparr>c2_rendezvous_server = [], c2_nat_type = 0, c2_serial = 0, c2_options = [], c2_read_failed = False\<rparr>"

definition i32_or_0 :: "rstr \<Rightarrow> int" where
  "i32_or_0 v = (case parse_i32 v of None \<Rightarrow> 0 | Some i \<Rightarrow> i)"

definition config2_line :: "bool \<times> config2 \<Rightarrow> rstr \<Rightarrow> (bool \<times> config2) option" where
  "config2_line = (\<lambda>(in_options, cfg) line. Some (
     let line = trim line in
     if line = str ''[options]'' then (True, cfg)
     else if starts_with [91] line then (False, cfg)
     else case parse_toml_line line of
       None \<Rightarrow> (in_options, cfg)
     | Some (k, v) \<Rightarrow>
         if in_options then (in_options, cfg\<lparr>c2_options := AList.update k v (c2_options cfg)\<rparr>)
         else if k = str ''rendezvous_server'' then (in_options, cfg\<lparr>c2_rendezvous_server := v\<rparr>)
         else if k = str ''nat_type'' then (in_options, cfg\<lparr>c2_nat_type := i32_or_0 v\<rparr>)
         else if k = str ''serial'' then (in_options, cfg\<lparr>c2_serial := i32_or_0 v\<rparr>)
         else (in_options, cfg)))"

definition config2_load :: "rstr option \<Rightarrow> config2 option" where
  "config2_load content =
     (let cfg = config2_empty\<lparr>c2_read_failed := (content = None)\<rparr>
      in case content of None \<Rightarrow> Some cfg | Some c \<Rightarrow> map_option snd (fold_lines config2_line (False, cfg) (lines c)))"

definition config2_save :: "config2 \<Rightarrow> rstr option" where
  "config2_save cfg =
     (if c2_read_failed cfg then None
      else Some (unlines (
        (if c2_rendezvous_server cfg \<noteq> []
         then [toml_line (str ''rendezvous_server'') (toml_encode_str (c2_rendezvous_server cfg))] else [])
        @ [toml_line (str ''nat_type'') (show_int (c2_nat_type cfg)),
           toml_line (str ''serial'') (show_int (c2_serial cfg))]
        @ (if c2_options cfg \<noteq> [] then [[], str ''[options]''] @ options_lines (c2_options cfg) else []))))"

definition config2_get_option :: "config2 \<Rightarrow> rstr \<Rightarrow> rstr" where
  "config2_get_option cfg k = options_get (c2_options cfg) k"

text \<open>\<open>set_option\<close>: the new state and what \<open>save\<close> then writes.\<close>

definition config2_set_option :: "config2 \<Rightarrow> rstr \<Rightarrow> rstr \<Rightarrow> config2 \<times> rstr option" where
  "config2_set_option cfg k v =
     (let cfg = cfg\<lparr>c2_options := options_set (c2_options cfg) k v\<rparr> in (cfg, config2_save cfg))"

definition get_rendezvous_servers :: "config2 \<Rightarrow> rstr list" where
  "get_rendezvous_servers cfg =
     (let custom = config2_get_option cfg (str ''custom-rendezvous-server'')
      in if custom \<noteq> [] then [custom]
         else if c2_rendezvous_server cfg \<noteq> [] then [c2_rendezvous_server cfg]
         else [])"

section \<open>\<open>LocalConfig\<close>\<close>

record recent_peer =
  rp_id :: rstr
  rp_username :: rstr
  rp_hostname :: rstr
  rp_platform :: rstr

record local_config =
  remote_id :: rstr
  lc_size :: "int \<times> int \<times> int \<times> int"
  fav :: "rstr list"
  recent_peers :: "recent_peer list"
  lc_options :: "(rstr \<times> rstr) list"
  lc_read_failed :: bool

definition local_empty :: local_config where
  "local_empty = \<lparr>remote_id = [], lc_size = (0, 0, 0, 0), fav = [], recent_peers = [], lc_options = [],
     lc_read_failed = False\<rparr>"

definition parse_recent :: "rstr \<Rightarrow> recent_peer option" where
  "parse_recent val =
     (let parts = splitn 4 124 val;
          get = (\<lambda>i. if i < length parts then parts ! i else [])
      in if parts \<noteq> [] \<and> parts ! 0 \<noteq> []
         then Some \<lparr>rp_id = parts ! 0, rp_username = get 1, rp_hostname = get 2, rp_platform = get 3\<rparr>
         else None)"

definition parse_fav :: "rstr \<Rightarrow> rstr list" where
  "parse_fav val =
     (let t = trim_end_matches (\<lambda>c. c = 93) (trim_start_matches (\<lambda>c. c = 91) val)
      in filter (\<lambda>f. f \<noteq> []) (map (\<lambda>item. toml_decode_str (trim item)) (split_on 44 t)))"

datatype local_section = Top | Options | Recent

definition local_line :: "local_section \<times> local_config \<Rightarrow> rstr \<Rightarrow> (local_section \<times> local_config) option" where
  "local_line = (\<lambda>(sec, cfg) line. Some (
     let line = trim line in
     if line = str ''[options]'' then (Options, cfg)
     else if line = str ''[recent]'' then (Recent, cfg)
     else if starts_with [91] line then (Top, cfg)
     else case sec of
       Recent \<Rightarrow>
         (case parse_toml_line line of
            None \<Rightarrow> (sec, cfg)
          | Some (_, v) \<Rightarrow>
              (case parse_recent v of
                 None \<Rightarrow> (sec, cfg)
               | Some p \<Rightarrow> (sec, cfg\<lparr>recent_peers := recent_peers cfg @ [p]\<rparr>)))
     | _ \<Rightarrow>
         (case parse_toml_line line of
            None \<Rightarrow> (sec, cfg)
          | Some (k, v) \<Rightarrow>
              if sec = Options then (sec, cfg\<lparr>lc_options := AList.update k v (lc_options cfg)\<rparr>)
              else if k = str ''remote_id'' then (sec, cfg\<lparr>remote_id := v\<rparr>)
              else if k = str ''fav'' then (sec, cfg\<lparr>fav := fav cfg @ parse_fav v\<rparr>)
              else (sec, cfg))))"

definition local_load :: "rstr option \<Rightarrow> local_config option" where
  "local_load content =
     (let cfg = local_empty\<lparr>lc_read_failed := (content = None)\<rparr>
      in case content of None \<Rightarrow> Some cfg | Some c \<Rightarrow> map_option snd (fold_lines local_line (Top, cfg) (lines c)))"

definition recent_line :: "nat \<times> recent_peer \<Rightarrow> rstr" where
  "recent_line = (\<lambda>(i, p). toml_line (str ''peer'' @ show_nat i)
     (toml_encode_str (rp_id p @ [124] @ rp_username p @ [124] @ rp_hostname p @ [124] @ rp_platform p)))"

definition local_save :: "local_config \<Rightarrow> rstr option" where
  "local_save cfg =
     (if lc_read_failed cfg then None
      else Some (unlines (
        (if remote_id cfg \<noteq> [] then [toml_line (str ''remote_id'') (toml_encode_str (remote_id cfg))] else [])
        @ (case lc_size cfg of (a, b, c, d) \<Rightarrow>
             if lc_size cfg \<noteq> (0, 0, 0, 0)
             then [toml_line (str ''size'')
                    ([91] @ join (str '', '') [show_int a, show_int b, show_int c, show_int d] @ [93])]
             else [])
        @ (if fav cfg \<noteq> []
           then [toml_line (str ''fav'') ([91] @ join (str '', '') (map toml_encode_str (fav cfg)) @ [93])] else [])
        @ (if recent_peers cfg \<noteq> []
           then [[], str ''[recent]''] @ map recent_line (enumerate 0 (recent_peers cfg)) else [])
        @ (if lc_options cfg \<noteq> [] then [[], str ''[options]''] @ options_lines (lc_options cfg) else []))))"

definition new_peer :: "rstr \<Rightarrow> recent_peer" where
  "new_peer i = \<lparr>rp_id = i, rp_username = [], rp_hostname = [], rp_platform = []\<rparr>"

text \<open>The operations change the state; each then saves it.\<close>

definition set_remote_id :: "local_config \<Rightarrow> rstr \<Rightarrow> local_config" where
  "set_remote_id cfg i = cfg\<lparr>remote_id := i\<rparr>"

definition add_recent_peer :: "local_config \<Rightarrow> rstr \<Rightarrow> local_config" where
  "add_recent_peer cfg i =
     (let ps = new_peer i # filter (\<lambda>p. rp_id p \<noteq> i) (recent_peers cfg)
      in cfg\<lparr>recent_peers := (if length ps > 20 then take 20 ps else ps)\<rparr>)"

text \<open>\<open>iter_mut().find(..)\<close>: the first peer with the id is updated in place.\<close>

fun update_first :: "('a \<Rightarrow> bool) \<Rightarrow> ('a \<Rightarrow> 'a) \<Rightarrow> 'a list \<Rightarrow> 'a list" where
  "update_first P f [] = []"
| "update_first P f (x # xs) = (if P x then f x # xs else x # update_first P f xs)"

definition update_recent_peer :: "local_config \<Rightarrow> rstr \<Rightarrow> rstr \<Rightarrow> rstr \<Rightarrow> rstr \<Rightarrow> local_config" where
  "update_recent_peer cfg i username hostname platform =
     (let ps = recent_peers cfg;
          ps = (if list_all (\<lambda>p. rp_id p \<noteq> i) ps
                then (let ps = new_peer i # ps in if length ps > 20 then take 20 ps else ps)
                else ps)
      in cfg\<lparr>recent_peers := update_first (\<lambda>p. rp_id p = i)
           (\<lambda>p. p\<lparr>rp_username := (if username \<noteq> [] then username else rp_username p),
                  rp_hostname := (if hostname \<noteq> [] then hostname else rp_hostname p),
                  rp_platform := (if platform \<noteq> [] then platform else rp_platform p)\<rparr>) ps\<rparr>)"

definition remove_recent_peer :: "local_config \<Rightarrow> rstr \<Rightarrow> local_config" where
  "remove_recent_peer cfg i = cfg\<lparr>recent_peers := filter (\<lambda>p. rp_id p \<noteq> i) (recent_peers cfg)\<rparr>"

definition is_fav :: "local_config \<Rightarrow> rstr \<Rightarrow> bool" where
  "is_fav cfg i = list_ex (\<lambda>f. f = i) (fav cfg)"

definition toggle_fav :: "local_config \<Rightarrow> rstr \<Rightarrow> bool \<times> local_config" where
  "toggle_fav cfg i =
     (if i \<in> set (fav cfg) then (False, cfg\<lparr>fav := remove1 i (fav cfg)\<rparr>)
      else (True, cfg\<lparr>fav := i # fav cfg\<rparr>))"

definition local_get_option :: "local_config \<Rightarrow> rstr \<Rightarrow> rstr" where
  "local_get_option cfg k = options_get (lc_options cfg) k"

definition local_set_option :: "local_config \<Rightarrow> rstr \<Rightarrow> rstr \<Rightarrow> local_config" where
  "local_set_option cfg k v = cfg\<lparr>lc_options := options_set (lc_options cfg) k v\<rparr>"

section \<open>\<open>PeerConfig\<close>\<close>

record peer_config =
  peer_alias :: rstr
  pc_options :: "(rstr \<times> rstr) list"
  pc_read_failed :: bool

definition peer_empty :: peer_config where
  "peer_empty = \<lparr>peer_alias = [], pc_options = [], pc_read_failed = False\<rparr>"

text \<open>\<open>enc_key\<close> is the \<open>encryption_key\<close> of \<open>Config\<close>.\<close>

definition peer_line :: "rstr \<Rightarrow> peer_config \<Rightarrow> rstr \<Rightarrow> peer_config option" where
  "peer_line enc_key cfg line = Some (
     case parse_toml_line (trim line) of
       None \<Rightarrow> cfg
     | Some (k, v) \<Rightarrow>
         if k = str ''alias'' then cfg\<lparr>peer_alias := v\<rparr>
         else if k = str ''password''
           then cfg\<lparr>pc_options := AList.update k (decrypt_password enc_key v) (pc_options cfg)\<rparr>
         else cfg\<lparr>pc_options := AList.update k v (pc_options cfg)\<rparr>)"

definition peer_load :: "rstr \<Rightarrow> rstr option \<Rightarrow> peer_config option" where
  "peer_load enc_key content =
     (let cfg = peer_empty\<lparr>pc_read_failed := (content = None)\<rparr>
      in case content of None \<Rightarrow> Some cfg | Some c \<Rightarrow> fold_lines (peer_line enc_key) cfg (lines c))"

definition peer_save :: "rstr \<Rightarrow> peer_config \<Rightarrow> rstr option" where
  "peer_save enc_key cfg =
     (if pc_read_failed cfg then None
      else Some (unlines (
        (if peer_alias cfg \<noteq> [] then [toml_line (str ''alias'') (toml_encode_str (peer_alias cfg))] else [])
        @ map (\<lambda>(k, v). toml_line k (toml_encode_str
            (if k = str ''password'' then encrypt_password enc_key v else v))) (pc_options cfg))))"

definition peer_get_option :: "peer_config \<Rightarrow> rstr \<Rightarrow> rstr" where
  "peer_get_option cfg k = options_get (pc_options cfg) k"

definition peer_set_option :: "peer_config \<Rightarrow> rstr \<Rightarrow> rstr \<Rightarrow> peer_config" where
  "peer_set_option cfg k v = cfg\<lparr>pc_options := options_set (pc_options cfg) k v\<rparr>"

section \<open>Options read back\<close>

lemma update_new: "k \<notin> fst ` set al \<Longrightarrow> AList.update k v al = al @ [(k, v)]"
  by (induction al) auto

lemma fold_update_new:
  "distinct (map fst (al @ kvs)) \<Longrightarrow> foldl (\<lambda>al (k, v). AList.update k v al) al kvs = al @ kvs"
proof (induction kvs arbitrary: al)
  case (Cons kv kvs)
  obtain k v where kv: "kv = (k, v)" by (cases kv)
  then have "k \<notin> fst ` set al" using Cons.prems by auto
  then show ?case using Cons by (simp add: kv update_new)
qed simp

lemma options_get_set: "options_get (options_set opts k v) k' = (if k' = k then v else options_get opts k')"
  by (auto simp: options_get_def options_set_def update_conv' delete_conv' split: option.splits)

lemma distinct_options_set: "distinct (map fst opts) \<Longrightarrow> distinct (map fst (options_set opts k v))"
  by (simp add: options_set_def distinct_update distinct_delete)

lemma keys_options_set: "fst ` set (options_set opts k v) \<subseteq> insert k (fst ` set opts)"
  by (auto simp: options_set_def update_conv' delete_conv' split: if_splits simp flip: dom_map_of_conv_image_fst)

definition sorted_options :: "(rstr \<times> rstr) list \<Rightarrow> (rstr \<times> rstr) list" where
  "sorted_options opts = map (\<lambda>k. (k, options_get opts k)) (sort (map fst opts))"

lemma keys_sorted_options [simp]: "map fst (sorted_options opts) = sort (map fst opts)"
  by (simp add: sorted_options_def comp_def)

lemma get_sorted_options: "options_get (sorted_options opts) k = options_get opts k"
proof -
  have "map_of (map (\<lambda>k. (k, f k)) ks) k = (if k \<in> set ks then Some (f k) else None)" for f :: "rstr \<Rightarrow> rstr" and ks
    by (induction ks) auto
  then show ?thesis
    by (auto simp: sorted_options_def options_get_def split: option.split)
      (metis map_of_SomeD fst_conv image_eqI)
qed

lemma sorted_sorted_options: "sorted_options (sorted_options opts) = sorted_options opts"
  by (simp add: sorted_options_def[of "sorted_options opts"] get_sorted_options)
    (simp add: sorted_options_def sorted_sort_id)

definition opt_line :: "rstr \<times> rstr \<Rightarrow> rstr" where
  "opt_line = (\<lambda>(k, v). toml_line k (toml_encode_str v))"

lemma options_lines_sorted: "options_lines opts = map opt_line (sorted_options opts)"
proof -
  have "List.map_filter (\<lambda>k. map_option (\<lambda>v. toml_line k (toml_encode_str v)) (map_of opts k)) ks
      = map opt_line (map (\<lambda>k. (k, options_get opts k)) ks)" if "set ks \<subseteq> fst ` set opts" for ks
    using that
  proof (induction ks)
    case (Cons k ks)
    then obtain v where "map_of opts k = Some v" by (metis insert_subset list.simps(15) map_of_eq_None_iff not_None_eq)
    then show ?case using Cons by (simp add: List.map_filter_simps opt_line_def options_get_def)
  qed (simp add: List.map_filter_simps)
  then show ?thesis by (simp add: options_lines_def sorted_options_def)
qed

definition options_ok :: "(rstr \<times> rstr) list \<Rightarrow> bool" where
  "options_ok opts \<longleftrightarrow> distinct (map fst opts) \<and> (\<forall>k\<in>fst ` set opts. toml_key k)"

lemma options_ok_sorted: "options_ok opts \<Longrightarrow> options_ok (sorted_options opts)"
proof -
  assume a: "options_ok opts"
  have "fst ` set (sorted_options opts) = fst ` set opts" by (simp add: sorted_options_def image_image)
  then show ?thesis using a unfolding options_ok_def by (simp only: keys_sorted_options) simp
qed

lemma options_ok_set: "options_ok opts \<Longrightarrow> toml_key k \<Longrightarrow> options_ok (options_set opts k v)"
  using keys_options_set[of opts k v] distinct_options_set[of opts k v] unfolding options_ok_def by blast

section \<open>Written lines\<close>

lemma not_section [simp]:
  assumes "toml_key k"
  shows "\<not> starts_with [91] (toml_line k v)" "toml_line k v \<noteq> str (CHR ''['' # s)"
proof -
  have k: "k \<noteq> []" "hd k \<noteq> 91" using assms by (auto simp: toml_key_def)
  then show "\<not> starts_with [91] (toml_line k v)" by (simp add: toml_line_parts starts_with_single)
  show "toml_line k v \<noteq> str (CHR ''['' # s)"
  proof
    assume "toml_line k v = str (CHR ''['' # s)"
    then have "hd (toml_line k v) = hd (str (CHR ''['' # s))" by simp
    then show False using k by (simp add: toml_line_parts str_simps)
  qed
qed

lemma trim_written [simp]: "toml_key k \<Longrightarrow> trim (toml_line k (toml_encode_str v)) = toml_line k (toml_encode_str v)"
  by (rule trim_toml_line_encode)

lemma parse_written [simp]: "toml_key k \<Longrightarrow> parse_toml_line (toml_line k (toml_encode_str v)) = Some (k, v)"
  by (rule parse_toml_line_encode)

lemma show_int_shape: "show_int i \<noteq> []" "trimmed (show_int i)" "hd (show_int i) \<noteq> 34" "hd (show_int i) \<noteq> 39"
proof -
  have d: "is_ascii_digit (hd (show_nat n))" "is_ascii_digit (last (show_nat n))" for n
    using show_nat_digits[of _ n] by simp_all
  have w: "\<not> is_whitespace c" "c \<noteq> 34" "c \<noteq> 39" if "is_ascii_digit c" for c
    using that by (auto simp: is_whitespace_def is_ascii_digit_def)
  have m: "\<not> is_whitespace 45" by (simp add: is_whitespace_def)
  show "show_int i \<noteq> []" "trimmed (show_int i)" "hd (show_int i) \<noteq> 34" "hd (show_int i) \<noteq> 39"
    using d w m by (auto simp: show_int_def trimmed_def)
qed

lemma plain_int [simp]:
  assumes "toml_key k"
  shows "trim (toml_line k (show_int i)) = toml_line k (show_int i)"
    "parse_toml_line (toml_line k (show_int i)) = Some (k, show_int i)"
proof -
  show t: "trim (toml_line k (show_int i)) = toml_line k (show_int i)"
    using assms show_int_shape[of i] by (intro trim_toml_line) (auto simp: trimmed_def)
  show "parse_toml_line (toml_line k (show_int i)) = Some (k, show_int i)"
    using parse_plain_line[OF assms show_int_shape, of i] by (simp only: t)
qed

lemma section_lines [simp]:
  "trim (str ''[options]'') = str ''[options]''" "trim (str ''[recent]'') = str ''[recent]''"
  "starts_with [91] [] = False" "parse_toml_line [] = None" "one_line (str ''[options]'')" "one_line (str ''[recent]'')"
  by (simp_all add: key_simps trim_trimmed starts_with_def parse_toml_line_def one_line_def)

section \<open>\<open>Config2\<close>\<close>

definition i32 :: "int \<Rightarrow> bool" where
  "i32 i \<longleftrightarrow> - 2147483648 \<le> i \<and> i \<le> 2147483647"

definition config2_wf :: "config2 \<Rightarrow> bool" where
  "config2_wf cfg \<longleftrightarrow> options_ok (c2_options cfg) \<and> i32 (c2_nat_type cfg) \<and> i32 (c2_serial cfg)"

definition config2_kept :: "config2 \<Rightarrow> config2" where
  "config2_kept cfg = cfg\<lparr>c2_options := sorted_options (c2_options cfg), c2_read_failed := False\<rparr>"

lemma config2_keys [simp]:
  "toml_key (str ''rendezvous_server'')" "toml_key (str ''nat_type'')" "toml_key (str ''serial'')"
  by (simp_all add: key_simps)

lemma config2_option_lines:
  assumes "\<forall>k\<in>fst ` set kvs. toml_key k"
  shows "fold_lines config2_line (True, cfg) (map opt_line kvs) =
    Some (True, cfg\<lparr>c2_options := foldl (\<lambda>al (k, v). AList.update k v al) (c2_options cfg) kvs\<rparr>)"
  using assms
proof (induction kvs arbitrary: cfg)
  case (Cons kv kvs)
  then show ?case by (cases kv) (simp add: config2_line_def opt_line_def)
qed simp

lemma config2_load_save:
  assumes "config2_wf cfg" "config2_save cfg = Some content"
  shows "config2_load (Some content) = Some (config2_kept cfg)"
proof -
  define ls where "ls = (if c2_rendezvous_server cfg \<noteq> []
         then [toml_line (str ''rendezvous_server'') (toml_encode_str (c2_rendezvous_server cfg))] else [])
        @ [toml_line (str ''nat_type'') (show_int (c2_nat_type cfg)),
           toml_line (str ''serial'') (show_int (c2_serial cfg))]
        @ (if c2_options cfg \<noteq> [] then [[], str ''[options]''] @ options_lines (c2_options cfg) else [])"
  have content: "content = unlines ls" using assms(2) by (simp add: config2_save_def ls_def split: if_splits)
  have ok: "options_ok (sorted_options (c2_options cfg))" using assms(1) by (simp add: config2_wf_def options_ok_sorted)
  then have "\<forall>l\<in>set (options_lines (c2_options cfg)). one_line l"
    by (auto simp: options_lines_sorted opt_line_def options_ok_def)
  then have lines: "lines content = ls" unfolding content ls_def by (intro lines_unlines) auto
  have int: "i32_or_0 (show_int i) = i" if "i32 i" for i
    using parse_show_i32 that by (simp add: i32_or_0_def i32_def)
  have opts: "fold_lines config2_line (True, c) (options_lines (c2_options cfg)) =
      Some (True, c\<lparr>c2_options := sorted_options (c2_options cfg)\<rparr>)" if "c2_options c = []" for c
    using ok that fold_update_new[of "[]" "sorted_options (c2_options cfg)"] unfolding options_lines_sorted
    by (subst config2_option_lines) (auto simp: options_ok_def)
  have empty: "c2_options cfg = [] \<Longrightarrow> sorted_options (c2_options cfg) = []" by (simp add: sorted_options_def)
  show ?thesis
    using assms(1) opts empty
    unfolding config2_load_def Let_def option.case lines ls_def config2_wf_def
    by (simp add: fold_lines_append config2_line_def int config2_empty_def config2_kept_def ex_bool_eq)
qed

interpretation config2_file: persistent_store config2_save config2_load config2_wf config2_kept
  by unfold_locales
    (simp_all add: config2_load_save config2_wf_def config2_kept_def options_ok_sorted sorted_sorted_options)

interpretation config2_options: option_store config2_get_option "\<lambda>s k v. fst (config2_set_option s k v)"
  by unfold_locales (simp add: config2_get_option_def config2_set_option_def Let_def options_get_set)

section \<open>\<open>LocalConfig\<close>\<close>

definition local_kept :: "local_config \<Rightarrow> local_config" where
  "local_kept cfg = cfg\<lparr>lc_size := (0, 0, 0, 0), lc_options := sorted_options (lc_options cfg), lc_read_failed := False\<rparr>"

definition recent_ok :: "recent_peer \<Rightarrow> bool" where
  "recent_ok p \<longleftrightarrow> rp_id p \<noteq> [] \<and> 124 \<notin> set (rp_id p) \<and> 124 \<notin> set (rp_username p) \<and> 124 \<notin> set (rp_hostname p)"

definition local_wf :: "local_config \<Rightarrow> bool" where
  "local_wf cfg \<longleftrightarrow> options_ok (lc_options cfg) \<and> list_all recent_ok (recent_peers cfg) \<and>
     list_all (\<lambda>f. f \<noteq> [] \<and> 44 \<notin> set f) (fav cfg)"

lemma parse_recent_written:
  assumes "recent_ok p"
  shows "parse_recent (rp_id p @ [124] @ rp_username p @ [124] @ rp_hostname p @ [124] @ rp_platform p) = Some p"
  using assms by (simp add: parse_recent_def recent_ok_def numeral_eq_Suc split_once_append)

lemma digits_no: "is_ascii_digit c \<Longrightarrow> \<not> is_whitespace c \<and> c \<noteq> 61 \<and> c \<noteq> 10 \<and> c \<noteq> 13"
  by (auto simp: is_ascii_digit_def is_whitespace_def)

lemma recent_key [simp]: "toml_key (str ''peer'' @ show_nat i)"
proof -
  have "is_ascii_digit (last (show_nat i))" by (rule show_nat_digits[of _ i]) simp
  then show ?thesis
    using show_nat_digits[of _ i] digits_no by (auto simp: key_simps)
qed

lemma recent_lines:
  "list_all recent_ok ps \<Longrightarrow>
   fold_lines local_line (Recent, cfg) (map recent_line (enumerate n ps)) =
     Some (Recent, cfg\<lparr>recent_peers := recent_peers cfg @ ps\<rparr>)"
  by (induction ps arbitrary: n cfg) (simp_all add: recent_line_def local_line_def parse_recent_written del: append.simps)

lemma comma_encode: "44 \<notin> set f \<Longrightarrow> 44 \<notin> set (toml_encode_str f)"
proof -
  have "44 \<in> set (toml_encode_char c) \<Longrightarrow> c = 44" for c
    using hex4_chars[of 44 c] by (auto simp: toml_encode_char_def split: if_splits)
  then show "44 \<notin> set f \<Longrightarrow> 44 \<notin> set (toml_encode_str f)" by (auto simp: toml_encode_str_def)
qed

lemma join_comma_space: "join [44, 32] (e # es) = join [44] (e # map ((#) 32) es)"
  by (induction es arbitrary: e) auto

lemma join_first_last:
  assumes "es \<noteq> []" "\<forall>e\<in>set es. e \<noteq> [] \<and> hd e = c \<and> last e = c"
  shows "join s es \<noteq> []" "hd (join s es) = c" "last (join s es) = c"
proof -
  have ne: "es \<noteq> [] \<Longrightarrow> \<forall>e\<in>set es. e \<noteq> [] \<Longrightarrow> join s es \<noteq> []" for es by (cases es) auto
  then show "join s es \<noteq> []" using assms by blast
  show "hd (join s es) = c" using assms by (cases es) auto
  show "last (join s es) = c" using assms ne by (induction es) auto
qed

lemma parse_fav_written:
  assumes "favs \<noteq> []" "list_all (\<lambda>f. f \<noteq> [] \<and> 44 \<notin> set f) favs"
  shows "parse_fav ([91] @ join (str '', '') (map toml_encode_str favs) @ [93]) = favs"
proof -
  let ?j = "join (str '', '') (map toml_encode_str favs)"
  have s: "str '', '' = [44, 32]" by (simp add: str_simps)
  have j: "?j \<noteq> []" "hd ?j = 34" "last ?j = 34"
    using join_first_last[of "map toml_encode_str favs" 34 "str '', ''"] assms(1) by (auto simp: toml_encode_str_def)
  have "trim_end_matches (\<lambda>c. c = 93) (trim_start_matches (\<lambda>c. c = 91) ([91] @ ?j @ [93])) = ?j"
  proof -
    have "trim_start_matches (\<lambda>c. c = 91) ([91] @ ?j @ [93]) = trim_start_matches (\<lambda>c. c = 91) (?j @ [93])"
      by (simp add: trim_start_matches_def)
    also have "\<dots> = ?j @ [93]" using j by (intro trim_start_matches_id) simp
    finally have "trim_end_matches (\<lambda>c. c = 93) (trim_start_matches (\<lambda>c. c = 91) ([91] @ ?j @ [93]))
        = trim_end_matches (\<lambda>c. c = 93) ?j"
      by (simp add: trim_end_matches_def)
    also have "\<dots> = ?j" using j by (intro trim_end_matches_id) simp
    finally show ?thesis .
  qed
  moreover obtain f fs where f: "favs = f # fs" using assms(1) by (cases favs) auto
  moreover have "split_on 44 ?j = toml_encode_str f # map ((#) 32) (map toml_encode_str fs)"
    unfolding f s list.map join_comma_space
    by (rule split_on_join) (use assms(2) comma_encode f in \<open>auto simp: list_all_iff\<close>)
  ultimately have "parse_fav ([91] @ ?j @ [93]) = filter (\<lambda>f. f \<noteq> []) (f # fs)"
    by (simp add: parse_fav_def trim_space_start trim_toml_encode toml_decode_encode comp_def)
  also have "\<dots> = favs" using assms(2) unfolding f[symmetric] by (auto simp: list_all_iff filter_id_conv)
  finally show ?thesis .
qed

lemma bracketed_line:
  assumes "toml_key k"
  shows "trim (toml_line k ([91] @ v @ [93])) = toml_line k ([91] @ v @ [93])"
    "parse_toml_line (toml_line k ([91] @ v @ [93])) = Some (k, [91] @ v @ [93])"
proof -
  have t: "trimmed ([91] @ v @ [93])" by (simp add: key_simps)
  show tl: "trim (toml_line k ([91] @ v @ [93])) = toml_line k ([91] @ v @ [93])"
    using assms t by (intro trim_toml_line) (auto simp: trimmed_def)
  have "parse_toml_line (trim (toml_line k ([91] @ v @ [93]))) = Some (k, [91] @ v @ [93])"
    by (rule parse_plain_line[OF assms _ t]) simp_all
  then show "parse_toml_line (toml_line k ([91] @ v @ [93])) = Some (k, [91] @ v @ [93])"
    by (simp only: tl)
qed

lemma local_keys [simp]: "toml_key (str ''remote_id'')" "toml_key (str ''size'')" "toml_key (str ''fav'')"
  by (simp_all add: key_simps)

lemma local_option_lines:
  assumes "\<forall>k\<in>fst ` set kvs. toml_key k"
  shows "fold_lines local_line (Options, cfg) (map opt_line kvs) =
    Some (Options, cfg\<lparr>lc_options := foldl (\<lambda>al (k, v). AList.update k v al) (lc_options cfg) kvs\<rparr>)"
  using assms
proof (induction kvs arbitrary: cfg)
  case (Cons kv kvs)
  then show ?case by (cases kv) (simp add: local_line_def opt_line_def)
qed simp

lemma local_top_lines:
  "fold_lines local_line (Top, cfg) (if v \<noteq> [] then [toml_line (str ''remote_id'') (toml_encode_str v)] else []) =
     Some (Top, if v \<noteq> [] then cfg\<lparr>remote_id := v\<rparr> else cfg)"
  "fold_lines local_line (Top, cfg) (if P then [toml_line (str ''size'') ([91] @ w @ [93])] else []) = Some (Top, cfg)"
  "list_all (\<lambda>f. f \<noteq> [] \<and> 44 \<notin> set f) favs \<Longrightarrow> fav cfg = [] \<Longrightarrow>
   fold_lines local_line (Top, cfg)
     (if favs \<noteq> [] then [toml_line (str ''fav'') ([91] @ join (str '', '') (map toml_encode_str favs) @ [93])] else []) =
     Some (Top, cfg\<lparr>fav := favs\<rparr>)"
  by (simp_all add: local_line_def bracketed_line[simplified] parse_fav_written[simplified])

lemma local_section_lines:
  "list_all recent_ok ps \<Longrightarrow> recent_peers cfg = [] \<Longrightarrow>
   \<exists>sec. fold_lines local_line (Top, cfg)
     (if ps \<noteq> [] then [[], str ''[recent]''] @ map recent_line (enumerate 0 ps) else []) =
     Some (sec, cfg\<lparr>recent_peers := ps\<rparr>)"
  "options_ok opts \<Longrightarrow> lc_options cfg = [] \<Longrightarrow>
   \<exists>sec. fold_lines local_line (s, cfg)
     (if opts \<noteq> [] then [[], str ''[options]''] @ options_lines opts else []) =
     Some (sec, cfg\<lparr>lc_options := sorted_options opts\<rparr>)"
proof -
  show "\<exists>sec. fold_lines local_line (Top, cfg)
     (if ps \<noteq> [] then [[], str ''[recent]''] @ map recent_line (enumerate 0 ps) else []) =
     Some (sec, cfg\<lparr>recent_peers := ps\<rparr>)" if "list_all recent_ok ps" "recent_peers cfg = []"
    using that recent_lines[OF that(1), of cfg 0] by (simp add: local_line_def)
  assume o: "options_ok opts" "lc_options cfg = []"
  have empty: "opts = [] \<Longrightarrow> sorted_options opts = []" by (simp add: sorted_options_def)
  have 1: "\<exists>sec'. local_line (s, cfg) [] = Some (sec', cfg)"
    by (cases s) (simp_all add: local_line_def)
  have 2: "local_line (sec', cfg) (str ''[options]'') = Some (Options, cfg)" for sec'
    by (simp add: local_line_def)
  have "fold_lines local_line (Options, cfg) (options_lines opts) =
      Some (Options, cfg\<lparr>lc_options := sorted_options opts\<rparr>)"
    using options_ok_sorted[OF o(1)] o(2) fold_update_new[of "[]" "sorted_options opts"] unfolding options_lines_sorted
    by (subst local_option_lines) (auto simp: options_ok_def)
  then show "\<exists>sec. fold_lines local_line (s, cfg)
     (if opts \<noteq> [] then [[], str ''[options]''] @ options_lines opts else []) =
     Some (sec, cfg\<lparr>lc_options := sorted_options opts\<rparr>)"
    using 1 2 empty o(2) by auto
qed

lemma one_line_join: "one_line s \<Longrightarrow> \<forall>a\<in>set as. one_line a \<Longrightarrow> one_line (join s as)"
  by (induction as) auto

lemma local_load_save:
  assumes "local_wf cfg" "local_save cfg = Some content"
  shows "local_load (Some content) = Some (local_kept cfg)"
proof -
  obtain a b c d where sz: "lc_size cfg = (a, b, c, d)" by (cases "lc_size cfg")
  define w where "w = join (str '', '') [show_int a, show_int b, show_int c, show_int d]"
  define l1 where "l1 = (if remote_id cfg \<noteq> [] then [toml_line (str ''remote_id'') (toml_encode_str (remote_id cfg))] else [])"
  define l2 where "l2 = (if lc_size cfg \<noteq> (0, 0, 0, 0) then [toml_line (str ''size'') ([91] @ w @ [93])] else [])"
  define l3 where "l3 = (if fav cfg \<noteq> []
      then [toml_line (str ''fav'') ([91] @ join (str '', '') (map toml_encode_str (fav cfg)) @ [93])] else [])"
  define l4 where "l4 = (if recent_peers cfg \<noteq> []
      then [[], str ''[recent]''] @ map recent_line (enumerate 0 (recent_peers cfg)) else [])"
  define l5 where "l5 = (if lc_options cfg \<noteq> [] then [[], str ''[options]''] @ options_lines (lc_options cfg) else [])"
  note ls = l1_def l2_def l3_def l4_def l5_def
  have content: "content = unlines (l1 @ l2 @ l3 @ l4 @ l5)"
  proof -
    have "\<not> lc_read_failed cfg" using assms(2) by (auto simp: local_save_def)
    from assms(2)[unfolded local_save_def if_not_P[OF this] option.inject] show ?thesis
      by (simp only: ls sz w_def prod.case)
  qed
  have comma: "one_line (str '', '')" by (simp add: str_simps)
  have ok: "options_ok (sorted_options (lc_options cfg))" using assms(1) by (simp add: local_wf_def options_ok_sorted)
  have "one_line w" unfolding w_def by (rule one_line_join[OF comma]) simp
  moreover have "one_line (join (str '', '') (map toml_encode_str (fav cfg)))" by (rule one_line_join[OF comma]) auto
  moreover have "\<forall>l\<in>set (map recent_line (enumerate 0 (recent_peers cfg))). one_line l"
    by (auto simp: recent_line_def)
  moreover have "\<forall>l\<in>set (options_lines (lc_options cfg)). one_line l"
    using ok by (auto simp: options_lines_sorted opt_line_def options_ok_def)
  ultimately have lines: "lines content = l1 @ l2 @ l3 @ l4 @ l5"
    unfolding content ls by (intro lines_unlines) auto
  note wf = assms(1)[unfolded local_wf_def]
  let ?c1 = "local_empty\<lparr>remote_id := remote_id cfg\<rparr>"
  let ?c2 = "?c1\<lparr>fav := fav cfg\<rparr>"
  let ?c3 = "?c2\<lparr>recent_peers := recent_peers cfg\<rparr>"
  have r1: "fold_lines local_line (Top, local_empty) l1 = Some (Top, ?c1)"
    unfolding l1_def local_top_lines by (simp add: local_empty_def)
  have r2: "fold_lines local_line (Top, ?c1) l2 = Some (Top, ?c1)"
    unfolding l2_def by (rule local_top_lines)
  have r3: "fold_lines local_line (Top, ?c1) l3 = Some (Top, ?c2)"
    unfolding l3_def by (rule local_top_lines) (use wf in \<open>simp_all add: local_empty_def\<close>)
  obtain s4 where r4: "fold_lines local_line (Top, ?c2) l4 = Some (s4, ?c3)"
    unfolding l4_def using local_section_lines(1)[of "recent_peers cfg" ?c2] wf by (auto simp: local_empty_def)
  obtain s5 where r5: "fold_lines local_line (s4, ?c3) l5 = Some (s5, ?c3\<lparr>lc_options := sorted_options (lc_options cfg)\<rparr>)"
    unfolding l5_def using local_section_lines(2)[of "lc_options cfg" ?c3 s4] wf by (auto simp: local_empty_def)
  have "fold_lines local_line (Top, local_empty) (l1 @ l2 @ l3 @ l4 @ l5) =
      Some (s5, ?c3\<lparr>lc_options := sorted_options (lc_options cfg)\<rparr>)"
    by (simp only: fold_lines_append r1 r2 r3 r4 r5 bind.bind_lunit)
  moreover have "local_empty\<lparr>lc_read_failed := False\<rparr> = local_empty" by (simp add: local_empty_def)
  ultimately show ?thesis
    by (simp add: local_load_def lines local_kept_def local_empty_def)
qed

interpretation local_file: persistent_store local_save local_load local_wf local_kept
  by unfold_locales
    (simp_all add: local_load_save local_wf_def local_kept_def options_ok_sorted sorted_sorted_options)

interpretation local_options: option_store local_get_option local_set_option
  by unfold_locales (simp add: local_get_option_def local_set_option_def options_get_set)

section \<open>\<open>PeerConfig\<close>\<close>

definition peer_wf :: "peer_config \<Rightarrow> bool" where
  "peer_wf cfg \<longleftrightarrow> options_ok (pc_options cfg) \<and> str ''alias'' \<notin> fst ` set (pc_options cfg) \<and>
     (\<forall>v. (str ''password'', v) \<in> set (pc_options cfg) \<longrightarrow> list_all is_scalar v)"

definition peer_kept :: "peer_config \<Rightarrow> peer_config" where
  "peer_kept cfg = cfg\<lparr>pc_read_failed := False\<rparr>"

definition peer_opt_line :: "rstr \<Rightarrow> rstr \<times> rstr \<Rightarrow> rstr" where
  "peer_opt_line enc_key = (\<lambda>(k, v). toml_line k (toml_encode_str
     (if k = str ''password'' then encrypt_password enc_key v else v)))"

lemma peer_lines:
  assumes "\<forall>(k, v)\<in>set kvs. toml_key k \<and> k \<noteq> str ''alias'' \<and> (k = str ''password'' \<longrightarrow> list_all is_scalar v)"
  shows "fold_lines (peer_line enc_key) cfg (map (peer_opt_line enc_key) kvs) =
    Some (cfg\<lparr>pc_options := foldl (\<lambda>al (k, v). AList.update k v al) (pc_options cfg) kvs\<rparr>)"
  using assms
proof (induction kvs arbitrary: cfg)
  case (Cons kv kvs)
  obtain k v where kv: "kv = (k, v)" by (cases kv)
  have "toml_key k" "k \<noteq> str ''alias''" "k = str ''password'' \<Longrightarrow> decrypt_password enc_key (encrypt_password enc_key v) = v"
    using Cons.prems decrypt_encrypt[of v enc_key] by (auto simp: kv list_all_iff)
  then have "peer_line enc_key cfg (peer_opt_line enc_key kv) = Some (cfg\<lparr>pc_options := AList.update k v (pc_options cfg)\<rparr>)"
    by (simp add: kv peer_line_def peer_opt_line_def)
  then show ?case using Cons by (simp add: kv)
qed simp

lemma alias_key [simp]: "toml_key (str ''alias'')"
  by (simp add: key_simps)

lemma peer_load_save:
  assumes "peer_wf cfg" "peer_save enc_key cfg = Some content"
  shows "peer_load enc_key (Some content) = Some (peer_kept cfg)"
proof -
  define l1 where "l1 = (if peer_alias cfg \<noteq> [] then [toml_line (str ''alias'') (toml_encode_str (peer_alias cfg))] else [])"
  define l2 where "l2 = map (peer_opt_line enc_key) (pc_options cfg)"
  have nf: "\<not> pc_read_failed cfg" using assms(2) by (auto simp: peer_save_def)
  have content: "content = unlines (l1 @ l2)"
    using assms(2)[unfolded peer_save_def if_not_P[OF nf] option.inject]
    by (simp only: l1_def l2_def peer_opt_line_def)
  note wf = assms(1)[unfolded peer_wf_def options_ok_def]
  have "\<forall>l\<in>set l2. one_line l" using wf unfolding l2_def by (auto simp: peer_opt_line_def)
  then have lines: "lines content = l1 @ l2" unfolding content l1_def by (intro lines_unlines) auto
  let ?c = "peer_empty\<lparr>peer_alias := peer_alias cfg\<rparr>"
  have r1: "fold_lines (peer_line enc_key) peer_empty l1 = Some ?c"
    unfolding l1_def by (simp add: peer_line_def) (simp add: peer_empty_def)
  have "\<forall>(k, v)\<in>set (pc_options cfg). toml_key k \<and> k \<noteq> str ''alias'' \<and> (k = str ''password'' \<longrightarrow> list_all is_scalar v)"
    using wf by (force simp: image_iff)
  from peer_lines[OF this, of enc_key ?c]
  have r2: "fold_lines (peer_line enc_key) ?c l2 = Some (?c\<lparr>pc_options := pc_options cfg\<rparr>)"
    using fold_update_new[of "[]" "pc_options cfg"] wf unfolding l2_def by (simp add: peer_empty_def)
  have "peer_empty\<lparr>pc_read_failed := False\<rparr> = peer_empty" by (simp add: peer_empty_def)
  moreover have "fold_lines (peer_line enc_key) peer_empty (l1 @ l2) = Some (?c\<lparr>pc_options := pc_options cfg\<rparr>)"
    by (simp only: fold_lines_append r1 r2 bind.bind_lunit)
  ultimately show ?thesis by (simp add: peer_load_def lines peer_kept_def peer_empty_def)
qed

interpretation peer_file: persistent_store "peer_save enc_key" "peer_load enc_key" peer_wf peer_kept for enc_key
  by unfold_locales (simp_all add: peer_load_save peer_wf_def peer_kept_def)

interpretation peer_options: option_store peer_get_option peer_set_option
  by unfold_locales (simp add: peer_get_option_def peer_set_option_def options_get_set)

section \<open>Recent peers and favourites\<close>

definition recents_ok :: "local_config \<Rightarrow> bool" where
  "recents_ok cfg \<longleftrightarrow> distinct (map rp_id (recent_peers cfg)) \<and> length (recent_peers cfg) \<le> 20"

lemma distinct_recent_cons:
  "distinct (map rp_id ps) \<Longrightarrow> i \<notin> rp_id ` set ps \<Longrightarrow> distinct (map rp_id (take n (new_peer i # ps)))"
proof -
  assume "distinct (map rp_id ps)" "i \<notin> rp_id ` set ps"
  then have "distinct (map rp_id (new_peer i # ps))" by (simp add: new_peer_def)
  then have "distinct (take n (map rp_id (new_peer i # ps)))" by (rule distinct_take)
  then show ?thesis by (simp only: take_map)
qed

lemma add_recent_peer_eq:
  "recent_peers (add_recent_peer cfg i) = take 20 (new_peer i # filter (\<lambda>p. rp_id p \<noteq> i) (recent_peers cfg))"
  by (simp add: add_recent_peer_def Let_def)

lemma map_update_first: "(\<And>x. g (f x) = g x) \<Longrightarrow> map g (update_first P f xs) = map g xs"
  by (induction xs) auto

lemma add_recent_peer_ok: "recents_ok cfg \<Longrightarrow> recents_ok (add_recent_peer cfg i)"
  using distinct_recent_cons[of "filter (\<lambda>p. rp_id p \<noteq> i) (recent_peers cfg)" i 20]
  by (auto simp: recents_ok_def add_recent_peer_eq distinct_map_filter simp del: take_Suc_Cons)

lemma length_update_first [simp]: "length (update_first P f xs) = length xs"
  by (induction xs) auto

lemma update_recent_peer_ok:
  assumes "recents_ok cfg" shows "recents_ok (update_recent_peer cfg i u h p)"
proof -
  define ps where "ps = (if list_all (\<lambda>p. rp_id p \<noteq> i) (recent_peers cfg)
     then take 20 (new_peer i # recent_peers cfg) else recent_peers cfg)"
  have "distinct (map rp_id ps)" "length ps \<le> 20"
    using assms distinct_recent_cons[of "recent_peers cfg" i 20]
    by (auto simp: ps_def recents_ok_def list_all_iff simp del: take_Suc_Cons)
  moreover have "recent_peers (update_recent_peer cfg i u h p) = update_first (\<lambda>p. rp_id p = i)
           (\<lambda>q. q\<lparr>rp_username := (if u \<noteq> [] then u else rp_username q),
                  rp_hostname := (if h \<noteq> [] then h else rp_hostname q),
                  rp_platform := (if p \<noteq> [] then p else rp_platform q)\<rparr>) ps"
    by (simp add: update_recent_peer_def ps_def Let_def)
  ultimately show ?thesis
    by (simp add: recents_ok_def map_update_first del: fun_upd_apply)
qed

lemma remove_recent_peer_ok: "recents_ok cfg \<Longrightarrow> recents_ok (remove_recent_peer cfg i)"
  by (auto simp: recents_ok_def remove_recent_peer_def distinct_map_filter intro: order_trans[OF length_filter_le])

lemma toggle_fav_ok: "distinct (fav cfg) \<Longrightarrow> distinct (fav (snd (toggle_fav cfg i)))"
  by (auto simp: toggle_fav_def distinct_remove1)

lemma toggle_fav_flips:
  "distinct (fav cfg) \<Longrightarrow> toggle_fav cfg i = (b, cfg') \<Longrightarrow>
   b = is_fav cfg' i \<and> b = (\<not> is_fav cfg i) \<and> (\<forall>j. j \<noteq> i \<longrightarrow> is_fav cfg' j = is_fav cfg j)"
  by (auto simp: toggle_fav_def is_fav_def list_ex_iff split: if_splits)

section \<open>Properties\<close>

text \<open>C35: The main configuration survives its file: whatever strings, flags and keys a complete configuration holds,
  loading what \<open>save\<close> wrote gives the same configuration back, nothing is generated anew and nothing is
  written. Quotes, line breaks and control characters in the values do no harm.\<close>

theorem config_persists:
  assumes "usable cfg" "\<not> read_failed cfg" "config_save cfg = Some content"
  shows "config_load (Some content) reads legacy gen = Some (cfg, None)"
  using config_file.load_store[OF _ assms(3)] assms(1,2) config_load_complete[of "Some content" cfg]
  by (simp add: usable_def)

theorem config_persists_witness:
  "\<exists>content. config_load (Some content) [] None
      \<lparr>new_id = [], new_password = [], new_salt = [], new_key = [], new_sk = [], new_pk = []\<rparr>
    = Some (config_empty\<lparr>cfg_id := [49], password := [34, 10], salt := [50], encryption_key := [51],
        key_sk := replicate 64 7, key_pk := replicate 32 7\<rparr>, None)"
proof -
  let ?cfg = "config_empty\<lparr>cfg_id := [49], password := [34, 10], salt := [50], encryption_key := [51],
        key_sk := replicate 64 7, key_pk := replicate 32 7\<rparr>"
  obtain content where c: "config_save ?cfg = Some content"
    by (simp add: config_save_def config_empty_def)
  show ?thesis
    using config_persists[OF _ _ c] by (intro exI[of _ content]) (simp add: usable_def keys_ok_def config_empty_def)
qed

text \<open>C36: Whatever the files hold, a configuration that loads is usable: it has an id, a password, a salt, an
  encryption key and a key pair whose secret half ends with the public one. And a configuration whose file
  could not be read is not written, by any of the four stores, so the file is never replaced by defaults.\<close>

theorem config_load_sound:
  assumes "fresh_ok gen"
  shows "(\<forall>cfg written. config_load content reads legacy gen = Some (cfg, written) \<longrightarrow>
       usable cfg \<and> written \<in> {None, config_save cfg}) \<and>
    (read_failed c1 \<longrightarrow> config_save c1 = None) \<and> (c2_read_failed c2 \<longrightarrow> config2_save c2 = None) \<and>
    (lc_read_failed c3 \<longrightarrow> local_save c3 = None) \<and> (pc_read_failed c4 \<longrightarrow> peer_save k c4 = None)"
  using config_load_usable[OF assms]
  by (auto simp: config_save_def config2_save_def local_save_def peer_save_def)

theorem config_load_sound_witness:
  "fresh_ok \<lparr>new_id = [49], new_password = [50], new_salt = [51], new_key = [52],
      new_sk = replicate 64 0, new_pk = replicate 32 0\<rparr> \<and>
   config_save (config_empty\<lparr>read_failed := True\<rparr>) = None"
proof -
  have "fresh_ok \<lparr>new_id = [49], new_password = [50], new_salt = [51], new_key = [52],
      new_sk = replicate 64 0, new_pk = replicate 32 0\<rparr>" by (simp add: fresh_ok_def)
  then show ?thesis using config_load_sound[of _ None "[]" None "config_empty\<lparr>read_failed := True\<rparr>"] by auto
qed

text \<open>The option files read back: \<open>Config2\<close>, \<open>LocalConfig\<close> and \<open>PeerConfig\<close> load from what they wrote with every
  option, favourite and recent peer in place (the options sorted, which their order does not matter for,
  and a peer's password decrypted again), for keys that can stand before an equals sign, favourites
  without commas and recent peers without bars; the window size is the one field \<open>LocalConfig\<close> writes
  and never reads.\<close>

theorem option_files_persist:
  "(config2_wf c2 \<longrightarrow> config2_save c2 = Some t2 \<longrightarrow> config2_load (Some t2) = Some (config2_kept c2)) \<and>
   (local_wf lc \<longrightarrow> local_save lc = Some t3 \<longrightarrow> local_load (Some t3) = Some (local_kept lc)) \<and>
   (peer_wf pc \<longrightarrow> peer_save k pc = Some t4 \<longrightarrow> peer_load k (Some t4) = Some (peer_kept pc)) \<and>
   (\<forall>q. config2_get_option (config2_kept c2) q = config2_get_option c2 q \<and>
        local_get_option (local_kept lc) q = local_get_option lc q)"
  by (simp add: config2_file.load_store local_file.load_store peer_file.load_store get_sorted_options
      config2_kept_def local_kept_def config2_get_option_def local_get_option_def)

theorem option_files_persist_witness:
  "\<exists>t. local_load (Some t) =
     Some (local_empty\<lparr>fav := [[97], [34, 98]], recent_peers := [new_peer [55]], lc_options := [([107], [61, 10])]\<rparr>)"
proof -
  let ?lc = "local_empty\<lparr>fav := [[97], [34, 98]], recent_peers := [new_peer [55]], lc_options := [([107], [61, 10])]\<rparr>"
  obtain t where t: "local_save ?lc = Some t" by (simp add: local_save_def local_empty_def)
  have "local_wf ?lc"
    by (simp add: local_wf_def options_ok_def local_empty_def recent_ok_def new_peer_def key_simps)
  moreover have "local_kept ?lc = ?lc"
    by (simp add: local_kept_def local_empty_def sorted_options_def options_get_def)
  ultimately show ?thesis
    using option_files_persist[of config2_empty "[]" ?lc t peer_empty "[]" "[]"] t by auto
qed

text \<open>The list of recent peers keeps its invariant, at most twenty entries and no id twice, under every operation;
  an added peer is in front, a removed one is gone, and toggling a favourite reports and makes exactly
  the change of that one id.\<close>

theorem recent_peers_invariant:
  assumes "recents_ok cfg" "distinct (fav cfg)"
  shows "recents_ok (add_recent_peer cfg i) \<and> recents_ok (update_recent_peer cfg i u h p) \<and>
    recents_ok (remove_recent_peer cfg i) \<and> rp_id (hd (recent_peers (add_recent_peer cfg i))) = i \<and>
    i \<notin> rp_id ` set (recent_peers (remove_recent_peer cfg i)) \<and>
    (case toggle_fav cfg i of (b, cfg') \<Rightarrow> distinct (fav cfg') \<and> b = is_fav cfg' i \<and> b = (\<not> is_fav cfg i) \<and>
       (\<forall>j. j \<noteq> i \<longrightarrow> is_fav cfg' j = is_fav cfg j))"
  using add_recent_peer_ok[OF assms(1)] update_recent_peer_ok[OF assms(1)] remove_recent_peer_ok[OF assms(1)]
    toggle_fav_ok[OF assms(2), of i] toggle_fav_flips[OF assms(2), of i]
  by (auto simp: add_recent_peer_eq remove_recent_peer_def new_peer_def split: prod.splits)

theorem recent_peers_invariant_witness:
  "recents_ok (add_recent_peer local_empty [49])"
  using recent_peers_invariant[of local_empty "[49]"] by (simp add: recents_ok_def local_empty_def)

text \<open>The options of the three stores are maps: after a \<open>set_option\<close> the key has the value set, every other key the
  value it had, and setting a key to the empty string unsets it.\<close>

theorem option_stores_are_maps:
  "config2_get_option (fst (config2_set_option c2 k v)) k' = (if k' = k then v else config2_get_option c2 k') \<and>
   local_get_option (local_set_option lc k v) k' = (if k' = k then v else local_get_option lc k') \<and>
   peer_get_option (peer_set_option pc k v) k' = (if k' = k then v else peer_get_option pc k')"
  by (simp add: config2_options.get_put local_options.get_put peer_options.get_put)

text \<open>\<open>Config2::load\<close> reads the file each time; \<open>None\<close> is a file that cannot be read.\<close>

definition load_config2 :: "rstr option \<Rightarrow> config2" where
  "load_config2 file = (case config2_load file of Some c \<Rightarrow> c | None \<Rightarrow> config2_empty)"

definition save_config2 :: "bool \<Rightarrow> config2 \<Rightarrow> rstr option \<Rightarrow> rstr option" where
  "save_config2 disk cfg file = (case config2_save cfg of Some content \<Rightarrow> if disk then Some content else file | None \<Rightarrow> file)"

end
