(* ===== verification/Salsa20.thy ===== *)
theory Salsa20
  imports Prelude
begin

text \<open>
  \<open>src/src/crypto.rs\<close>, lines 337 to 474: the Salsa20 core, HSalsa20 and the XSalsa20 stream. The loop
  of \<open>salsa20_xor\<close> keeps its \<open>u64\<close> block counter. The lemmas show that the loop is exclusive or
  with a keystream whose prefixes do not depend on how much of it is drawn, which is the contract of the
  locale \<open>stream_cipher\<close>; sealing and opening rest on that contract alone.
\<close>

section \<open>The core\<close>

definition salsa20_quarter_round :: "nat \<Rightarrow> nat \<Rightarrow> nat \<Rightarrow> nat \<Rightarrow> u32 list \<Rightarrow> u32 list" where
  "salsa20_quarter_round a b c d y =
     (let y = y[b := y ! b XOR word_rotl 7 (y ! a + y ! d)];
          y = y[c := y ! c XOR word_rotl 9 (y ! b + y ! a)];
          y = y[d := y ! d XOR word_rotl 13 (y ! c + y ! b)];
          y = y[a := y ! a XOR word_rotl 18 (y ! d + y ! c)]
      in y)"

definition salsa20_double_round :: "u32 list \<Rightarrow> u32 list" where
  "salsa20_double_round y =
     (let y = salsa20_quarter_round 0 4 8 12 y;
          y = salsa20_quarter_round 5 9 13 1 y;
          y = salsa20_quarter_round 10 14 2 6 y;
          y = salsa20_quarter_round 15 3 7 11 y;
          y = salsa20_quarter_round 0 1 2 3 y;
          y = salsa20_quarter_round 5 6 7 4 y;
          y = salsa20_quarter_round 10 11 8 9 y;
          y = salsa20_quarter_round 15 12 13 14 y
      in y)"

definition salsa20_core :: "u32 list \<Rightarrow> u32 list" where
  "salsa20_core input =
     (let output = (salsa20_double_round ^^ 10) input
      in map (\<lambda>i. output ! i + input ! i) [0..<16])"

definition le32 :: "bytes \<Rightarrow> u32" where
  "le32 s = of_le [s ! 0, s ! 1, s ! 2, s ! 3]"

definition slice :: "nat \<Rightarrow> nat \<Rightarrow> 'a list \<Rightarrow> 'a list" where
  "slice i j xs = take (j - i) (drop i xs)"

definition hsalsa20 :: "bytes \<Rightarrow> bytes \<Rightarrow> bytes" where
  "hsalsa20 key nonce =
     (let x = [0x61707865,
               le32 (slice 0 4 key), le32 (slice 4 8 key), le32 (slice 8 12 key), le32 (slice 12 16 key),
               0x3320646e,
               le32 (slice 0 4 nonce), le32 (slice 4 8 nonce), le32 (slice 8 12 nonce), le32 (slice 12 16 nonce),
               0x79622d32,
               le32 (slice 16 20 key), le32 (slice 20 24 key), le32 (slice 24 28 key), le32 (slice 28 32 key),
               0x6b206574];
          x = (salsa20_double_round ^^ 10) x
      in le_bytes 4 (x ! 0) @ le_bytes 4 (x ! 5) @ le_bytes 4 (x ! 10) @ le_bytes 4 (x ! 15) @
         le_bytes 4 (x ! 6) @ le_bytes 4 (x ! 7) @ le_bytes 4 (x ! 8) @ le_bytes 4 (x ! 9))"

section \<open>The block loop\<close>

definition salsa20_input :: "bytes \<Rightarrow> bytes \<Rightarrow> u64 \<Rightarrow> u32 list" where
  "salsa20_input key nonce block_counter =
     (let input_base =
        [0x61707865,
         le32 (slice 0 4 key), le32 (slice 4 8 key), le32 (slice 8 12 key), le32 (slice 12 16 key),
         0x3320646e,
         le32 (slice 0 4 nonce), le32 (slice 4 8 nonce),
         0, 0,
         0x79622d32,
         le32 (slice 16 20 key), le32 (slice 20 24 key), le32 (slice 24 28 key), le32 (slice 28 32 key),
         0x6b206574]
      in input_base[8 := ucast block_counter, 9 := ucast (drop_bit 32 block_counter)])"

definition salsa20_block :: "bytes \<Rightarrow> bytes \<Rightarrow> u64 \<Rightarrow> bytes" where
  "salsa20_block key nonce block_counter =
     concat (map (le_bytes 4) (salsa20_core (salsa20_input key nonce block_counter)))"

function salsa20_loop :: "bytes \<Rightarrow> bytes \<Rightarrow> u64 \<Rightarrow> bytes \<Rightarrow> bytes" where
  "salsa20_loop key nonce block_counter msg =
     (if msg = [] then []
      else xor_bytes (take 64 msg) (salsa20_block key nonce block_counter)
             @ salsa20_loop key nonce (block_counter + 1) (drop 64 msg))"
  by pat_completeness auto
termination by (relation "measure (\<lambda>(key, nonce, ctr, msg). length msg)") auto

declare salsa20_loop.simps [simp del]

definition salsa20_xor :: "bytes \<Rightarrow> bytes \<Rightarrow> bytes \<Rightarrow> bytes" where
  "salsa20_xor key nonce msg = salsa20_loop key nonce 0 msg"

definition xsalsa20_xor :: "bytes \<Rightarrow> bytes \<Rightarrow> bytes \<Rightarrow> bytes" where
  "xsalsa20_xor key nonce msg =
     (let subkey = hsalsa20 key (slice 0 16 nonce)
      in salsa20_xor subkey (slice 16 24 nonce) msg)"

definition xsalsa20_keystream :: "bytes \<Rightarrow> bytes \<Rightarrow> nat \<Rightarrow> bytes" where
  "xsalsa20_keystream key nonce len = xsalsa20_xor key nonce (replicate len 0)"

section \<open>The contract of a stream cipher\<close>

locale stream_cipher =
  fixes crypt :: "bytes \<Rightarrow> bytes \<Rightarrow> bytes \<Rightarrow> bytes"
    and keystream :: "bytes \<Rightarrow> bytes \<Rightarrow> nat \<Rightarrow> bytes"
  assumes length_keystream: "length (keystream k n l) = l"
    and keystream_prefix: "i \<le> l \<Longrightarrow> take i (keystream k n l) = keystream k n i"
    and crypt_keystream: "crypt k n msg = xor_bytes msg (keystream k n (length msg))"
begin

lemma length_crypt: "length (crypt k n msg) = length msg"
  by (simp add: crypt_keystream length_keystream)

lemma crypt_crypt: "crypt k n (crypt k n msg) = msg"
  using crypt_keystream[of k n "crypt k n msg"]
  by (simp add: length_crypt) (simp add: crypt_keystream length_keystream xor_bytes_cancel)

lemma keystream_add:
  "keystream k n (i + j) = keystream k n i @ drop i (keystream k n (i + j))"
  by (metis append_take_drop_id keystream_prefix le_add1)

text \<open>Two messages under one key and nonce leak their exclusive or.\<close>

lemma crypt_reuse:
  "length m = length m' \<Longrightarrow> xor_bytes (crypt k n m) (crypt k n m') = xor_bytes m m'"
  by (simp add: crypt_keystream length_keystream xor_bytes_common_key)

end

section \<open>XSalsa20 meets the contract\<close>

lemma length_salsa20_core [simp, len_simps]: "length (salsa20_core x) = 16"
  by (simp add: salsa20_core_def Let_def)

lemma length_salsa20_block [simp, len_simps]: "length (salsa20_block key nonce ctr) = 64"
proof -
  have "length (concat (map (le_bytes 4) ws)) = 4 * length ws" for ws :: "u32 list"
    by (induction ws) auto
  then show ?thesis by (simp add: salsa20_block_def)
qed

text \<open>The stream of \<open>n\<close> whole blocks from a counter on.\<close>

primrec salsa20_blocks :: "bytes \<Rightarrow> bytes \<Rightarrow> u64 \<Rightarrow> nat \<Rightarrow> bytes" where
  "salsa20_blocks key nonce ctr 0 = []"
| "salsa20_blocks key nonce ctr (Suc n) =
     salsa20_block key nonce ctr @ salsa20_blocks key nonce (ctr + 1) n"

lemma length_salsa20_blocks: "length (salsa20_blocks key nonce ctr n) = 64 * n"
  by (induction n arbitrary: ctr) auto

lemma take_salsa20_blocks:
  "i \<le> 64 * m \<Longrightarrow> m \<le> n \<Longrightarrow>
   take i (salsa20_blocks key nonce ctr n) = take i (salsa20_blocks key nonce ctr m)"
proof (induction m arbitrary: i n ctr)
  case (Suc m)
  then obtain n' where n: "n = Suc n'" "m \<le> n'" by (cases n) auto
  have "take (i - 64) (salsa20_blocks key nonce (ctr + 1) n')
      = take (i - 64) (salsa20_blocks key nonce (ctr + 1) m)"
    using Suc.prems n by (intro Suc.IH) auto
  then show ?case by (simp only: n salsa20_blocks.simps take_append length_salsa20_block)
qed simp

lemma xor_bytes_take: "length xs \<le> n \<Longrightarrow> xor_bytes xs (take n ks) = xor_bytes xs ks"
  by (rule nth_equalityI) (auto simp: nth_xor_bytes)

lemma salsa20_loop_blocks:
  "length msg \<le> 64 * n \<Longrightarrow>
   salsa20_loop key nonce ctr msg = xor_bytes msg (salsa20_blocks key nonce ctr n)"
proof (induction key nonce ctr msg arbitrary: n rule: salsa20_loop.induct)
  case (1 key nonce ctr msg)
  show ?case
  proof (cases "msg = []")
    case True
    then show ?thesis by (simp add: salsa20_loop.simps xor_bytes_def)
  next
    case False
    then obtain n' where n: "n = Suc n'" using 1 by (cases n) auto
    let ?b = "salsa20_block key nonce ctr" and ?r = "salsa20_blocks key nonce (ctr + 1) n'"
    have IH: "salsa20_loop key nonce (ctr + 1) (drop 64 msg) = xor_bytes (drop 64 msg) ?r"
      using 1 False n by simp
    have "xor_bytes msg (?b @ ?r) = xor_bytes (take 64 msg) ?b @ xor_bytes (drop 64 msg) ?r"
    proof (cases "64 \<le> length msg")
      case True
      then show ?thesis
        using xor_bytes_append[of "take 64 msg" ?b "drop 64 msg" ?r] by simp
    next
      case False
      then show ?thesis by (simp add: xor_bytes_def zip_append2)
    qed
    then show ?thesis using False IH n by (subst salsa20_loop.simps) simp
  qed
qed

definition xsalsa20_stream :: "bytes \<Rightarrow> bytes \<Rightarrow> nat \<Rightarrow> bytes" where
  "xsalsa20_stream key nonce n =
     salsa20_blocks (hsalsa20 key (slice 0 16 nonce)) (slice 16 24 nonce) 0 n"

lemma xsalsa20_xor_stream:
  "length msg \<le> 64 * n \<Longrightarrow> xsalsa20_xor key nonce msg = xor_bytes msg (xsalsa20_stream key nonce n)"
  by (simp add: xsalsa20_xor_def salsa20_xor_def xsalsa20_stream_def salsa20_loop_blocks Let_def)

lemma xsalsa20_keystream_stream:
  assumes "l \<le> 64 * n"
  shows "xsalsa20_keystream key nonce l = take l (xsalsa20_stream key nonce n)"
proof -
  have "xsalsa20_keystream key nonce l = xor_bytes (replicate l 0) (take l (xsalsa20_stream key nonce n))"
    using assms by (simp add: xsalsa20_keystream_def xsalsa20_xor_stream xor_bytes_take)
  then show ?thesis
    using assms by (simp add: xor_bytes_zeros xsalsa20_stream_def length_salsa20_blocks)
qed

lemma length_xsalsa20_keystream [simp, len_simps]: "length (xsalsa20_keystream key nonce l) = l"
  using xsalsa20_keystream_stream[of l l] by (simp add: xsalsa20_stream_def length_salsa20_blocks)

interpretation xsalsa20: stream_cipher xsalsa20_xor xsalsa20_keystream
proof
  fix k n msg and i l :: nat
  show "length (xsalsa20_keystream k n l) = l" by simp
  show "take i (xsalsa20_keystream k n l) = xsalsa20_keystream k n i" if "i \<le> l"
    using that xsalsa20_keystream_stream[of l l k n] xsalsa20_keystream_stream[of i l k n]
    by (simp add: min_absorb1)
  show "xsalsa20_xor k n msg = xor_bytes msg (xsalsa20_keystream k n (length msg))"
    using xsalsa20_keystream_stream[of "length msg" "length msg" k n]
    by (simp add: xsalsa20_xor_stream[of msg "length msg"] xor_bytes_take)
qed

section \<open>Properties\<close>

text \<open>The XSalsa20 cipher undoes itself under the same key and nonce, keeps the length, and its keystream of
  one length is a prefix of that of any greater length, across the 64-byte blocks and their counter.\<close>

theorem xsalsa20_involution:
  "xsalsa20_xor key nonce (xsalsa20_xor key nonce msg) = msg \<and>
   length (xsalsa20_xor key nonce msg) = length msg \<and>
   take i (xsalsa20_keystream key nonce (i + j)) = xsalsa20_keystream key nonce i"
  by (simp add: xsalsa20.crypt_crypt xsalsa20.length_crypt xsalsa20.keystream_prefix)

end
