(* ===== verification/Poly1305.thy ===== *)
theory Poly1305
  imports Word_Nat Salsa20
begin

text \<open>
  \<open>src/src/crypto.rs\<close>, lines 476 to 574: \<open>poly1305_mac\<close> on five 26-bit limbs, with the accumulator in
  \<open>u32\<close> words and the products in \<open>u64\<close> words as in the code. The reference is arithmetic on
  numbers: the polynomial of the message blocks at the clamped key modulo \<open>2 ^ 130 - 5\<close>, plus the second
  half of the key modulo \<open>2 ^ 128\<close>. The lemmas bound every limb, so that no word operation
  wraps around where the reference does not, and show that the limb code computes the reference.
\<close>

section \<open>The limb code\<close>

type_synonym limbs = "u32 \<times> u32 \<times> u32 \<times> u32 \<times> u32"

definition poly1305_r :: "bytes \<Rightarrow> limbs" where
  "poly1305_r key =
     (le32 (slice 0 4 key) AND 0x3ffffff,
      drop_bit 2 (le32 (slice 3 7 key)) AND 0x3ffff03,
      drop_bit 4 (le32 (slice 6 10 key)) AND 0x3ffc0ff,
      drop_bit 6 (le32 (slice 9 13 key)) AND 0x3f03fff,
      drop_bit 8 (le32 (slice 12 16 key)) AND 0x00fffff)"

definition poly1305_pad_block :: "bytes \<Rightarrow> bytes" where
  "poly1305_pad_block blk = (overwrite 0 blk (replicate 17 0))[length blk := 1]"

definition poly1305_load :: "bytes \<Rightarrow> limbs" where
  "poly1305_load buf =
     (let b = (\<lambda>i. ucast (buf ! i) :: u32) in
      (b 0 OR push_bit 8 (b 1) OR push_bit 16 (b 2) OR push_bit 24 (b 3 AND 3),
       drop_bit 2 (b 3) OR push_bit 6 (b 4) OR push_bit 14 (b 5) OR push_bit 22 (b 6 AND 0xf),
       drop_bit 4 (b 6) OR push_bit 4 (b 7) OR push_bit 12 (b 8) OR push_bit 20 (b 9 AND 0x3f),
       drop_bit 6 (b 9) OR push_bit 2 (b 10) OR push_bit 10 (b 11) OR push_bit 18 (b 12),
       b 13 OR push_bit 8 (b 14) OR push_bit 16 (b 15) OR push_bit 24 (b 16)))"

definition poly1305_add :: "limbs \<Rightarrow> limbs \<Rightarrow> limbs" where
  "poly1305_add = (\<lambda>(h0, h1, h2, h3, h4) (a0, a1, a2, a3, a4).
     (h0 + a0, h1 + a1, h2 + a2, h3 + a3, h4 + a4))"

type_synonym wide_limbs = "u64 \<times> u64 \<times> u64 \<times> u64 \<times> u64"

definition poly1305_products :: "limbs \<Rightarrow> limbs \<Rightarrow> wide_limbs" where
  "poly1305_products = (\<lambda>(r0', r1', r2', r3', r4') (h0', h1', h2', h3', h4').
     let r0 = ucast r0'; r1 = ucast r1'; r2 = ucast r2'; r3 = ucast r3'; r4 = ucast r4';
         s1 = r1 * 5; s2 = r2 * 5; s3 = r3 * 5; s4 = r4 * 5;
         h0 = ucast h0'; h1 = ucast h1'; h2 = ucast h2'; h3 = ucast h3'; h4 = ucast h4'
     in (h0 * r0 + h1 * s4 + h2 * s3 + h3 * s2 + h4 * s1,
         h0 * r1 + h1 * r0 + h2 * s4 + h3 * s3 + h4 * s2,
         h0 * r2 + h1 * r1 + h2 * r0 + h3 * s4 + h4 * s3,
         h0 * r3 + h1 * r2 + h2 * r1 + h3 * r0 + h4 * s4,
         h0 * r4 + h1 * r3 + h2 * r2 + h3 * r1 + h4 * r0))"

definition poly1305_reduce :: "wide_limbs \<Rightarrow> limbs" where
  "poly1305_reduce = (\<lambda>(d0, d1, d2, d3, d4).
     let c = drop_bit 26 d0; h0 = (ucast d0 :: u32) AND 0x3ffffff; d1 = d1 + c;
         c = drop_bit 26 d1; h1 = (ucast d1 :: u32) AND 0x3ffffff; d2 = d2 + c;
         c = drop_bit 26 d2; h2 = (ucast d2 :: u32) AND 0x3ffffff; d3 = d3 + c;
         c = drop_bit 26 d3; h3 = (ucast d3 :: u32) AND 0x3ffffff; d4 = d4 + c;
         c = drop_bit 26 d4; h4 = (ucast d4 :: u32) AND 0x3ffffff; h0 = h0 + ucast (c * 5);
         c = ucast (drop_bit 26 h0) :: u64; h0 = h0 AND 0x3ffffff; h1 = h1 + ucast c
     in (h0, h1, h2, h3, h4))"

definition poly1305_mul :: "limbs \<Rightarrow> limbs \<Rightarrow> limbs" where
  "poly1305_mul r h = poly1305_reduce (poly1305_products r h)"

text \<open>\<open>while i < msg.len()\<close>, the whole loop from an accumulator.\<close>

function poly1305_loop :: "limbs \<Rightarrow> limbs \<Rightarrow> bytes \<Rightarrow> limbs" where
  "poly1305_loop r h msg =
     (if msg = [] then h
      else poly1305_loop r
             (poly1305_mul r (poly1305_add h (poly1305_load (poly1305_pad_block (take 16 msg)))))
             (drop 16 msg))"
  by pat_completeness auto
termination by (relation "measure (\<lambda>(r, h, msg). length msg)") auto

declare poly1305_loop.simps [simp del]

definition poly1305_carry :: "limbs \<Rightarrow> limbs" where
  "poly1305_carry = (\<lambda>(h0, h1, h2, h3, h4).
     let c = drop_bit 26 h1; h1 = h1 AND 0x3ffffff; h2 = h2 + c;
         c = drop_bit 26 h2; h2 = h2 AND 0x3ffffff; h3 = h3 + c;
         c = drop_bit 26 h3; h3 = h3 AND 0x3ffffff; h4 = h4 + c;
         c = drop_bit 26 h4; h4 = h4 AND 0x3ffffff; h0 = h0 + c * 5;
         c = drop_bit 26 h0; h0 = h0 AND 0x3ffffff; h1 = h1 + c
     in (h0, h1, h2, h3, h4))"

definition poly1305_freeze :: "limbs \<Rightarrow> limbs" where
  "poly1305_freeze = (\<lambda>(h0, h1, h2, h3, h4).
     let g0 = h0 + 5; c = drop_bit 26 g0; g0 = g0 AND 0x3ffffff;
         g1 = h1 + c; c = drop_bit 26 g1; g1 = g1 AND 0x3ffffff;
         g2 = h2 + c; c = drop_bit 26 g2; g2 = g2 AND 0x3ffffff;
         g3 = h3 + c; c = drop_bit 26 g3; g3 = g3 AND 0x3ffffff;
         g4 = h4 + c - push_bit 26 1;
         mask = drop_bit 31 g4 - 1
     in ((h0 AND NOT mask) OR (g0 AND mask),
         (h1 AND NOT mask) OR (g1 AND mask),
         (h2 AND NOT mask) OR (g2 AND mask),
         (h3 AND NOT mask) OR (g3 AND mask),
         (h4 AND NOT mask) OR (g4 AND mask)))"

definition poly1305_tag :: "limbs \<Rightarrow> bytes \<Rightarrow> bytes" where
  "poly1305_tag = (\<lambda>(h0, h1, h2, h3, h4) key.
     let s0 = ucast (le32 (slice 16 20 key)) :: u64;
         s1 = ucast (le32 (slice 20 24 key)) :: u64;
         s2 = ucast (le32 (slice 24 28 key)) :: u64;
         s3 = ucast (le32 (slice 28 32 key)) :: u64;
         hh0 = (ucast h0 :: u64) OR push_bit 26 (ucast h1);
         hh1 = drop_bit 6 (ucast h1 :: u64) OR push_bit 20 (ucast h2);
         hh2 = drop_bit 12 (ucast h2 :: u64) OR push_bit 14 (ucast h3);
         hh3 = drop_bit 18 (ucast h3 :: u64) OR push_bit 8 (ucast h4);
         f = (hh0 AND 0xffffffff) + s0; o0 = ucast f :: u32; f = drop_bit 32 f;
         f = f + ((hh1 AND 0xffffffff) + s1); o1 = ucast f :: u32; f = drop_bit 32 f;
         f = f + ((hh2 AND 0xffffffff) + s2); o2 = ucast f :: u32; f = drop_bit 32 f;
         f = f + ((hh3 AND 0xffffffff) + s3); o3 = ucast f :: u32
     in le_bytes 4 o0 @ le_bytes 4 o1 @ le_bytes 4 o2 @ le_bytes 4 o3)"

definition poly1305_mac :: "bytes \<Rightarrow> bytes \<Rightarrow> bytes" where
  "poly1305_mac key msg =
     (let h = poly1305_loop (poly1305_r key) (0, 0, 0, 0, 0) msg
      in poly1305_tag (poly1305_freeze (poly1305_carry h)) key)"

section \<open>The reference\<close>

definition poly1305_prime :: nat where
  "poly1305_prime = 2 ^ 130 - 5"

lemma poly1305_prime_num: "poly1305_prime = 1361129467683753853853498429727072845819"
  by (simp add: poly1305_prime_def)

definition poly1305_clamp :: "bytes \<Rightarrow> nat" where
  "poly1305_clamp key = le_nat (take 16 key) AND 0x0ffffffc0ffffffc0ffffffc0fffffff"

definition poly1305_poly :: "nat \<Rightarrow> nat \<Rightarrow> bytes \<Rightarrow> nat" where
  "poly1305_poly r a msg =
     foldl (\<lambda>a blk. (a + le_nat (blk @ [1])) * r mod poly1305_prime) a (chunks_of 16 msg)"

definition poly1305_reference :: "bytes \<Rightarrow> bytes \<Rightarrow> nat" where
  "poly1305_reference key msg =
     (poly1305_poly (poly1305_clamp key) 0 msg + le_nat (slice 16 32 key)) mod 2 ^ 128"


section \<open>Limbs as numbers\<close>

fun limb_val :: "limbs \<Rightarrow> nat" where
  "limb_val (h0, h1, h2, h3, h4) =
     unat h0 + 67108864 * unat h1 + 4503599627370496 * unat h2
       + 302231454903657293676544 * unat h3 + 20282409603651670423947251286016 * unat h4"

text \<open>Between blocks: every limb below \<open>2 ^ 26\<close>, but for the carry into the second one.\<close>

fun limb_ok :: "limbs \<Rightarrow> bool" where
  "limb_ok (h0, h1, h2, h3, h4) \<longleftrightarrow>
     unat h0 < 67108864 \<and> unat h1 < 67108928 \<and> unat h2 < 67108864 \<and> unat h3 < 67108864 \<and> unat h4 < 67108864"

text \<open>After a block has been added.\<close>

fun limb_sum_ok :: "limbs \<Rightarrow> bool" where
  "limb_sum_ok (h0, h1, h2, h3, h4) \<longleftrightarrow>
     unat h0 \<le> 134217792 \<and> unat h1 \<le> 134217792 \<and> unat h2 \<le> 134217792 \<and> unat h3 \<le> 134217792 \<and>
     unat h4 \<le> 100663296"

fun limb_tight :: "limbs \<Rightarrow> bool" where
  "limb_tight (h0, h1, h2, h3, h4) \<longleftrightarrow>
     unat h0 \<le> 67108863 \<and> unat h1 \<le> 67108863 \<and> unat h2 \<le> 67108863 \<and> unat h3 \<le> 67108863 \<and> unat h4 \<le> 67108863"

lemma poly1305_ring:
  fixes h0 :: nat
  shows "(h0 + 67108864 * h1 + 4503599627370496 * h2 + 302231454903657293676544 * h3 + 20282409603651670423947251286016 * h4) *
  (r0 + 67108864 * r1 + 4503599627370496 * r2 + 302231454903657293676544 * r3 + 20282409603651670423947251286016 * r4)
  = ((h0 * r0 + h1 * (r4 * 5) + h2 * (r3 * 5) + h3 * (r2 * 5) + h4 * (r1 * 5))
   + 67108864 * (h0 * r1 + h1 * r0 + h2 * (r4 * 5) + h3 * (r3 * 5) + h4 * (r2 * 5))
   + 4503599627370496 * (h0 * r2 + h1 * r1 + h2 * r0 + h3 * (r4 * 5) + h4 * (r3 * 5))
   + 302231454903657293676544 * (h0 * r3 + h1 * r2 + h2 * r1 + h3 * r0 + h4 * (r4 * 5))
   + 20282409603651670423947251286016 * (h0 * r4 + h1 * r3 + h2 * r2 + h3 * r1 + h4 * r0))
   + 1361129467683753853853498429727072845819 *
     ((h1 * r4 + h2 * r3 + h3 * r2 + h4 * r1) + 67108864 * (h2 * r4 + h3 * r3 + h4 * r2)
      + 4503599627370496 * (h3 * r4 + h4 * r3) + 302231454903657293676544 * (h4 * r4))"
  by algebra

text \<open>The wide products, as a sum that does not wrap.\<close>

lemma unat_dot5:
  fixes a0 :: u64
  assumes "unat a0 * unat b0 + unat a1 * unat b1 + unat a2 * unat b2 + unat a3 * unat b3 + unat a4 * unat b4 < 2 ^ 64"
  shows "unat (a0 * b0 + a1 * b1 + a2 * b2 + a3 * b3 + a4 * b4) =
    unat a0 * unat b0 + unat a1 * unat b1 + unat a2 * unat b2 + unat a3 * unat b3 + unat a4 * unat b4"
  using assms by (simp add: unat_add_small unat_mult_small)

text \<open>One carry of the chain: what stays in the limb and what moves on.\<close>

lemma carry_limb_u64:
  fixes d :: u64
  shows "unat ((ucast d :: u32) AND 0x3ffffff) = unat d mod 67108864"
proof -
  have "unat ((ucast d :: u32) AND 0x3ffffff) = unat (ucast d :: u32) mod 2 ^ 26"
    by (rule unat_and_mask) simp
  then show ?thesis by (simp add: unat_ucast_mod mod_mod_cancel)
qed

lemma carry_limb_u32: "unat ((h :: u32) AND 0x3ffffff) = unat h mod 67108864"
  using unat_and_mask[of "0x3ffffff :: u32" 26 h] by simp

lemma carry_shift_26: "unat (drop_bit 26 (w :: 'a::len word)) = unat w div 67108864"
  by (simp only: unat_drop_bit) simp

fun wide_val :: "wide_limbs \<Rightarrow> nat" where
  "wide_val (d0, d1, d2, d3, d4) =
     unat d0 + 67108864 * unat d1 + 4503599627370496 * unat d2
       + 302231454903657293676544 * unat d3 + 20282409603651670423947251286016 * unat d4"

fun wide_ok :: "wide_limbs \<Rightarrow> bool" where
  "wide_ok (d0, d1, d2, d3, d4) \<longleftrightarrow>
     unat d0 \<le> 200000000000000000 \<and> unat d1 \<le> 200000000000000000 \<and> unat d2 \<le> 200000000000000000 \<and>
     unat d3 \<le> 200000000000000000 \<and> unat d4 \<le> 42784213002354432"

lemma limb_products_bound:
  fixes h0 :: nat
  assumes "h0 \<le> 134217792" "h1 \<le> 134217792" "h2 \<le> 134217792" "h3 \<le> 134217792" "h4 \<le> 100663296"
    and "r0 \<le> 67108863" "r1 \<le> 67108863" "r2 \<le> 67108863" "r3 \<le> 67108863" "r4 \<le> 67108863"
  shows "h0 * r0 + h1 * (r4 * 5) + h2 * (r3 * 5) + h3 * (r2 * 5) + h4 * (r1 * 5) \<le> 200000000000000000"
    and "h0 * r1 + h1 * r0 + h2 * (r4 * 5) + h3 * (r3 * 5) + h4 * (r2 * 5) \<le> 200000000000000000"
    and "h0 * r2 + h1 * r1 + h2 * r0 + h3 * (r4 * 5) + h4 * (r3 * 5) \<le> 200000000000000000"
    and "h0 * r3 + h1 * r2 + h2 * r1 + h3 * r0 + h4 * (r4 * 5) \<le> 200000000000000000"
    and "h0 * r4 + h1 * r3 + h2 * r2 + h3 * r1 + h4 * r0 \<le> 42784213002354432"
proof -
  have p1: "x * y \<le> 9007203415490496" if "x \<le> 134217792" "y \<le> 67108863" for x y :: nat
    using mult_le_mono[OF that] by simp
  have p5: "x * (y * 5) \<le> 45036017077452480" if "x \<le> 134217792" "y \<le> 67108863" for x y :: nat
    using mult_le_mono[of x 134217792 "y * 5" 335544315] that by simp
  have q1: "x * y \<le> 6755399340392448" if "x \<le> 100663296" "y \<le> 67108863" for x y :: nat
    using mult_le_mono[OF that] by simp
  have q5: "x * (y * 5) \<le> 33776996701962240" if "x \<le> 100663296" "y \<le> 67108863" for x y :: nat
    using mult_le_mono[of x 100663296 "y * 5" 335544315] that by simp
  note h = assms(1-5) and r = assms(6-10)
  show "h0 * r0 + h1 * (r4 * 5) + h2 * (r3 * 5) + h3 * (r2 * 5) + h4 * (r1 * 5) \<le> 200000000000000000"
    using p1[OF h(1) r(1)] p5[OF h(2) r(5)] p5[OF h(3) r(4)] p5[OF h(4) r(3)] q5[OF h(5) r(2)] by linarith
  show "h0 * r1 + h1 * r0 + h2 * (r4 * 5) + h3 * (r3 * 5) + h4 * (r2 * 5) \<le> 200000000000000000"
    using p1[OF h(1) r(2)] p1[OF h(2) r(1)] p5[OF h(3) r(5)] p5[OF h(4) r(4)] q5[OF h(5) r(3)] by linarith
  show "h0 * r2 + h1 * r1 + h2 * r0 + h3 * (r4 * 5) + h4 * (r3 * 5) \<le> 200000000000000000"
    using p1[OF h(1) r(3)] p1[OF h(2) r(2)] p1[OF h(3) r(1)] p5[OF h(4) r(5)] q5[OF h(5) r(4)] by linarith
  show "h0 * r3 + h1 * r2 + h2 * r1 + h3 * r0 + h4 * (r4 * 5) \<le> 200000000000000000"
    using p1[OF h(1) r(4)] p1[OF h(2) r(3)] p1[OF h(3) r(2)] p1[OF h(4) r(1)] q5[OF h(5) r(5)] by linarith
  show "h0 * r4 + h1 * r3 + h2 * r2 + h3 * r1 + h4 * r0 \<le> 42784213002354432"
    using p1[OF h(1) r(5)] p1[OF h(2) r(4)] p1[OF h(3) r(3)] p1[OF h(4) r(2)] q1[OF h(5) r(1)] by linarith
qed

lemma poly1305_products_correct:
  assumes r: "limb_tight r" and h: "limb_sum_ok h"
  shows "wide_ok (poly1305_products r h)"
    and "wide_val (poly1305_products r h) mod poly1305_prime = limb_val h * limb_val r mod poly1305_prime"
proof -
  obtain r0 r1 r2 r3 r4 where req: "r = (r0, r1, r2, r3, r4)" by (cases r)
  obtain h0 h1 h2 h3 h4 where heq: "h = (h0, h1, h2, h3, h4)" by (cases h)
  note hb = h[unfolded heq limb_sum_ok.simps] and rb = r[unfolded req limb_tight.simps]
  have up: "unat (ucast x :: u64) = unat x" for x :: u32 by (rule unat_ucast_up) simp
  have "unat (ucast x * 5 :: u64) = unat x * 5" if "unat x \<le> 67108863" for x :: u32
    using that by (simp add: unat_mult_small up)
  then have s5: "unat (ucast r1 * 5 :: u64) = unat r1 * 5" "unat (ucast r2 * 5 :: u64) = unat r2 * 5"
    "unat (ucast r3 * 5 :: u64) = unat r3 * 5" "unat (ucast r4 * 5 :: u64) = unat r4 * 5"
    using rb by blast+
  note B = limb_products_bound[of "unat h0" "unat h1" "unat h2" "unat h3" "unat h4"
      "unat r0" "unat r1" "unat r2" "unat r3" "unat r4"]
  have B': "n < 2 ^ 64" if "n \<le> 200000000000000000 \<or> n \<le> 42784213002354432" for n :: nat
    using that by auto
  have dots: "unat (ucast h0 * ucast r0 + ucast h1 * (ucast r4 * 5) + ucast h2 * (ucast r3 * 5)
      + ucast h3 * (ucast r2 * 5) + ucast h4 * (ucast r1 * 5) :: u64)
      = unat h0 * unat r0 + unat h1 * (unat r4 * 5) + unat h2 * (unat r3 * 5) + unat h3 * (unat r2 * 5) + unat h4 * (unat r1 * 5)"
    "unat (ucast h0 * ucast r1 + ucast h1 * ucast r0 + ucast h2 * (ucast r4 * 5)
      + ucast h3 * (ucast r3 * 5) + ucast h4 * (ucast r2 * 5) :: u64)
      = unat h0 * unat r1 + unat h1 * unat r0 + unat h2 * (unat r4 * 5) + unat h3 * (unat r3 * 5) + unat h4 * (unat r2 * 5)"
    "unat (ucast h0 * ucast r2 + ucast h1 * ucast r1 + ucast h2 * ucast r0
      + ucast h3 * (ucast r4 * 5) + ucast h4 * (ucast r3 * 5) :: u64)
      = unat h0 * unat r2 + unat h1 * unat r1 + unat h2 * unat r0 + unat h3 * (unat r4 * 5) + unat h4 * (unat r3 * 5)"
    "unat (ucast h0 * ucast r3 + ucast h1 * ucast r2 + ucast h2 * ucast r1
      + ucast h3 * ucast r0 + ucast h4 * (ucast r4 * 5) :: u64)
      = unat h0 * unat r3 + unat h1 * unat r2 + unat h2 * unat r1 + unat h3 * unat r0 + unat h4 * (unat r4 * 5)"
    "unat (ucast h0 * ucast r4 + ucast h1 * ucast r3 + ucast h2 * ucast r2
      + ucast h3 * ucast r1 + ucast h4 * ucast r0 :: u64)
      = unat h0 * unat r4 + unat h1 * unat r3 + unat h2 * unat r2 + unat h3 * unat r1 + unat h4 * unat r0"
    by (subst unat_dot5; simp only: up s5; use hb rb in \<open>(intro B' disjI1 B disjI2; blast)?\<close>)+
  show "wide_ok (poly1305_products r h)"
    using B hb rb
    by (simp only: req heq poly1305_products_def Let_def split_conv wide_ok.simps dots simp_thms)
  show "wide_val (poly1305_products r h) mod poly1305_prime = limb_val h * limb_val r mod poly1305_prime"
    unfolding req heq poly1305_products_def Let_def split_conv wide_val.simps dots limb_val.simps
      poly1305_ring
    by (simp only: poly1305_prime_num mod_mult_self2)
qed

lemma carry_chain_sum:
  fixes d0 :: nat
  assumes "C0 * 67108864 + m0 = d0" "C1 * 67108864 + m1 = d1 + C0" "C2 * 67108864 + m2 = d2 + C1"
    and "C3 * 67108864 + m3 = d3 + C2" "C4 * 67108864 + m4 = d4 + C3" "Cg * 67108864 + mg = G"
    and "G = m0 + C4 * 5"
  shows "mg + 67108864 * (m1 + Cg) + 4503599627370496 * m2 + 302231454903657293676544 * m3
       + 20282409603651670423947251286016 * m4 + 1361129467683753853853498429727072845824 * C4
     = d0 + 67108864 * d1 + 4503599627370496 * d2 + 302231454903657293676544 * d3
       + 20282409603651670423947251286016 * d4 + 5 * C4"
proof -
  have "int d1 = int C1 * 67108864 + int m1 - int C0" "int d2 = int C2 * 67108864 + int m2 - int C1"
    "int d3 = int C3 * 67108864 + int m3 - int C2" "int d4 = int C4 * 67108864 + int m4 - int C3"
    "int mg = int m0 + int C4 * 5 - int Cg * 67108864" "int d0 = int C0 * 67108864 + int m0"
    using assms by linarith+
  then show ?thesis by (simp add: algebra_simps flip: of_nat_eq_iff [where 'a = int])
qed

lemma poly1305_reduce_correct:
  assumes "wide_ok d"
  shows "limb_ok (poly1305_reduce d) \<and>
    limb_val (poly1305_reduce d) mod poly1305_prime = wide_val d mod poly1305_prime"
proof -
  obtain d0 d1 d2 d3 d4 where deq: "d = (d0, d1, d2, d3, d4)" by (cases d)
  define C0 where "C0 = unat d0 div 67108864"
  define C1 where "C1 = (unat d1 + C0) div 67108864"
  define C2 where "C2 = (unat d2 + C1) div 67108864"
  define C3 where "C3 = (unat d3 + C2) div 67108864"
  define C4 where "C4 = (unat d4 + C3) div 67108864"
  note Cs = C0_def C1_def C2_def C3_def C4_def and B = assms[unfolded deq wide_ok.simps]
  have Cb: "C0 \<le> 2980232239" "C1 \<le> 2980232284" "C2 \<le> 2980232284" "C3 \<le> 2980232284" "C4 \<le> 637540000"
    unfolding Cs using B by linarith+
  define c0 e1 where "c0 = drop_bit 26 d0" and "e1 = d1 + c0"
  define c1 e2 where "c1 = drop_bit 26 e1" and "e2 = d2 + c1"
  define c2 e3 where "c2 = drop_bit 26 e2" and "e3 = d3 + c2"
  define c3 e4 where "c3 = drop_bit 26 e3" and "e4 = d4 + c3"
  define c4 where "c4 = drop_bit 26 e4"
  define g0 :: u32 where "g0 = (ucast d0 AND 0x3ffffff) + ucast (c4 * 5)"
  define g1 :: u32 where "g1 = (ucast e1 AND 0x3ffffff) + ucast (ucast (drop_bit 26 g0) :: u64)"
  have step: "unat (x + y) = unat x + n" if "unat y = n" "unat x \<le> 200000000000000000" "n \<le> 2980232284"
    for x y :: u64 and n using that by (simp add: unat_add_small)
  have c0: "unat c0 = C0" by (simp only: c0_def carry_shift_26 C0_def)
  have e1: "unat e1 = unat d1 + C0" unfolding e1_def using c0 B Cb by (intro step) auto
  have c1: "unat c1 = C1" by (simp only: c1_def carry_shift_26 e1 C1_def)
  have e2: "unat e2 = unat d2 + C1" unfolding e2_def using c1 B Cb by (intro step) auto
  have c2: "unat c2 = C2" by (simp only: c2_def carry_shift_26 e2 C2_def)
  have e3: "unat e3 = unat d3 + C2" unfolding e3_def using c2 B Cb by (intro step) auto
  have c3: "unat c3 = C3" by (simp only: c3_def carry_shift_26 e3 C3_def)
  have e4: "unat e4 = unat d4 + C3" unfolding e4_def using c3 B Cb by (intro step) auto
  have c4: "unat c4 = C4" by (simp only: c4_def carry_shift_26 e4 C4_def)
  define G where "G = unat d0 mod 67108864 + C4 * 5"
  have "unat (c4 * 5) = C4 * 5" by (subst unat_mult_small) (use Cb in \<open>simp_all add: c4\<close>)
  then have "unat (ucast (c4 * 5) :: u32) = C4 * 5" using Cb by (simp add: unat_ucast_mod)
  then have g0: "unat g0 = G"
    unfolding g0_def G_def by (subst unat_add_small) (use Cb in \<open>simp_all add: carry_limb_u64\<close>)
  have Gb: "G div 67108864 < 64" unfolding G_def using Cb by (simp add: div_less_iff_less_mult)
  have "unat (ucast (ucast (drop_bit 26 g0) :: u64) :: u32) = G div 67108864"
    using Gb by (simp add: unat_ucast_mod carry_shift_26 g0)
  then have g1: "unat g1 = (unat d1 + C0) mod 67108864 + G div 67108864"
    unfolding g1_def by (subst unat_add_small) (use Gb in \<open>simp_all add: carry_limb_u64 e1\<close>)
  have out: "poly1305_reduce d =
      (g0 AND 0x3ffffff, g1, ucast e2 AND 0x3ffffff, ucast e3 AND 0x3ffffff, ucast e4 AND 0x3ffffff)"
    unfolding deq poly1305_reduce_def Let_def split_conv g0_def g1_def c0_def e1_def c1_def e2_def
      c2_def e3_def c3_def e4_def c4_def by (rule refl)
  have "limb_val (poly1305_reduce d) + 1361129467683753853853498429727072845824 * C4 = wide_val d + 5 * C4"
    unfolding out limb_val.simps carry_limb_u64 e2 e3 e4
    unfolding carry_limb_u32 g0 g1 deq wide_val.simps
    by (rule carry_chain_sum[OF div_mult_mod_eq[of "unat d0" 67108864, folded C0_def]
          div_mult_mod_eq[of "unat d1 + C0" 67108864, folded C1_def]
          div_mult_mod_eq[of "unat d2 + C1" 67108864, folded C2_def]
          div_mult_mod_eq[of "unat d3 + C2" 67108864, folded C3_def]
          div_mult_mod_eq[of "unat d4 + C3" 67108864, folded C4_def] div_mult_mod_eq G_def])
  then have "limb_val (poly1305_reduce d) + poly1305_prime * C4 = wide_val d"
    by (simp add: poly1305_prime_def)
  then have "limb_val (poly1305_reduce d) mod poly1305_prime = wide_val d mod poly1305_prime"
    by (metis mod_mult_self2)
  moreover have "limb_ok (poly1305_reduce d)"
    using Gb by (simp add: out carry_limb_u32 carry_limb_u64 g1)
  ultimately show ?thesis by blast
qed

end
