(* ===== verification/Poly1305_Correct.thy ===== *)
theory Poly1305_Correct
  imports Poly1305
begin

text \<open>
  The rest of the argument that \<open>poly1305_mac\<close> (\<open>src/src/crypto.rs\<close>, 476 to 574) computes the polynomial
  reference: the bytes of a block are loaded as the number they write, the block loop follows the polynomial,
  the clamped key is the masked number, the final carries and the conditional subtraction give the least
  residue, and the tag is the sum with the second half of the key.
\<close>

section \<open>Loading a block\<close>

lemma le_nat_le_bytes:
  "8 * n = LENGTH('a::len) \<Longrightarrow> le_nat (le_bytes n (w :: 'a word)) = unat w"
  using unat_of_le[where 'a = 'a, of "le_bytes n w"] of_le_le_bytes[of n w] by simp

lemma le_nat_slice:
  "i \<le> j \<Longrightarrow> le_nat (slice i j bs) = le_nat bs div 256 ^ i mod 256 ^ (j - i)"
proof -
  have "le_nat (take n (drop i bs)) = le_nat bs div 256 ^ i mod 256 ^ n" for n
  proof (induction i arbitrary: bs)
    case 0
    have "le_nat bs = le_nat (take n bs) + 256 ^ length (take n bs) * le_nat (drop n bs)"
      by (metis append_take_drop_id le_nat_append)
    moreover have "le_nat (take n bs) < 256 ^ n"
      by (rule order_less_le_trans[OF le_nat_less]) (simp add: power_increasing)
    moreover have "length (take n bs) = n \<or> drop n bs = []" by auto
    ultimately show ?case by auto
  next
    case (Suc i)
    then show ?case
      by (cases bs) (simp_all add: div_mult2_eq div_add_self2 unat_byte_less)
  qed
  then show ?thesis by (simp add: slice_def)
qed

lemma unat_le32: "i + 4 \<le> length bs \<Longrightarrow> unat (le32 (slice i (i + 4) bs)) = le_nat (slice i (i + 4) bs)"
proof -
  assume "i + 4 \<le> length bs"
  then have "length (slice i (i + 4) bs) = 4" by (simp add: slice_def)
  moreover from this have "[slice i (i + 4) bs ! 0, slice i (i + 4) bs ! 1, slice i (i + 4) bs ! 2,
      slice i (i + 4) bs ! 3] = slice i (i + 4) bs"
    by (intro nth_equalityI) (auto simp: less_Suc_eq numeral_eq_Suc)
  ultimately show ?thesis by (simp add: le32_def unat_of_le)
qed

lemma unat_or4:
  fixes x :: u32
  assumes "unat x < 2 ^ a" "unat x + unat y * 2 ^ a < 2 ^ b"
    and "unat x + unat y * 2 ^ a + unat z * 2 ^ b < 2 ^ c"
    and "unat x + unat y * 2 ^ a + unat z * 2 ^ b + unat w * 2 ^ c < 2 ^ 32" "b \<le> 32" "c \<le> 32"
  shows "unat (x OR push_bit a y OR push_bit b z OR push_bit c w) =
    unat x + unat y * 2 ^ a + unat z * 2 ^ b + unat w * 2 ^ c"
proof -
  have p: "(2::nat) ^ b \<le> 2 ^ 32" "(2::nat) ^ c \<le> 2 ^ 32" using power_increasing[OF assms(5), of "2 :: nat"] power_increasing[OF assms(6), of "2 :: nat"] by simp_all
  have 1: "unat (x OR push_bit a y) = unat x + unat y * 2 ^ a"
    by (rule unat_or_push) (use assms p in simp_all)
  have 2: "unat ((x OR push_bit a y) OR push_bit b z) = unat x + unat y * 2 ^ a + unat z * 2 ^ b"
    by (subst unat_or_push) (use assms p 1 in simp_all)
  have "unat (((x OR push_bit a y) OR push_bit b z) OR push_bit c w)
      = unat x + unat y * 2 ^ a + unat z * 2 ^ b + unat w * 2 ^ c"
    by (subst unat_or_push) (use assms p 2 in simp_all)
  then show ?thesis by (simp only: or.assoc)
qed

fun limb_load_ok :: "limbs \<Rightarrow> bool" where
  "limb_load_ok (h0, h1, h2, h3, h4) \<longleftrightarrow>
     unat h0 < 67108864 \<and> unat h1 < 67108864 \<and> unat h2 < 67108864 \<and> unat h3 < 67108864 \<and> unat h4 < 33554432"

lemma load_sum:
  fixes u0 :: nat
  assumes "q3 * 4 + m3 = u3" "q6 * 16 + m6 = u6" "q9 * 64 + m9 = u9"
  shows "u0 + 256 * (u1 + 256 * (u2 + 256 * (u3 + 256 * (u4 + 256 * (u5 + 256 * (u6 + 256 * (u7 + 256 * (u8
      + 256 * (u9 + 256 * (u10 + 256 * (u11 + 256 * (u12 + 256 * (u13 + 256 * (u14 + 256 * (u15
      + 256 * (u16 + 256 * 0)))))))))))))))) =
    u0 + u1 * 256 + u2 * 65536 + m3 * 16777216
    + 67108864 * (q3 + u4 * 64 + u5 * 16384 + m6 * 4194304)
    + 4503599627370496 * (q6 + u7 * 16 + u8 * 4096 + m9 * 1048576)
    + 302231454903657293676544 * (q9 + u10 * 4 + u11 * 1024 + u12 * 262144)
    + 20282409603651670423947251286016 * (u13 + u14 * 256 + u15 * 65536 + u16 * 16777216)"
  unfolding assms[symmetric] by algebra

lemma poly1305_load_correct:
  assumes "length buf = 17" "unat (buf ! 16) \<le> 1"
  shows "limb_load_ok (poly1305_load buf)" and "limb_val (poly1305_load buf) = le_nat buf"
proof -
  define u where "u = (\<lambda>i. unat (buf ! i))"
  define b where "b = (\<lambda>i. ucast (buf ! i) :: u32)"
  have u: "u i < 256" for i by (simp add: u_def unat_byte_less)
  have b: "unat (b i) = u i" for i by (simp add: b_def u_def unat_ucast_up)
  have u16: "u 16 \<le> 1" using assms(2) by (simp add: u_def)
  have and3: "unat (w AND 3) = unat w mod 4" "unat (w AND 0xf) = unat w mod 16" "unat (w AND 0x3f) = unat w mod 64"
    for w :: u32
    using unat_and_mask[of "3 :: u32" 2 w] unat_and_mask[of "0xf :: u32" 4 w] unat_and_mask[of "0x3f :: u32" 6 w]
    by simp_all
  note [simp] = b and3 unat_drop_bit
  have le: "x div 4 < 64" "x div 16 < 16" "x div 64 < 4" if "x < 256" for x :: nat using that by auto
  have l0: "unat (b 0 OR push_bit 8 (b 1) OR push_bit 16 (b 2) OR push_bit 24 (b 3 AND 3))
      = u 0 + u 1 * 256 + u 2 * 65536 + u 3 mod 4 * 16777216"
    using u[of 0] u[of 1] u[of 2] mod_less_divisor[of 4 "u 3"]
    by (subst unat_or4) (simp_all)
  have l1: "unat (drop_bit 2 (b 3) OR push_bit 6 (b 4) OR push_bit 14 (b 5) OR push_bit 22 (b 6 AND 0xf))
      = u 3 div 4 + u 4 * 64 + u 5 * 16384 + u 6 mod 16 * 4194304"
    using le(1)[OF u[of 3]] u[of 4] u[of 5] mod_less_divisor[of 16 "u 6"]
    by (subst unat_or4) (simp_all)
  have l2: "unat (drop_bit 4 (b 6) OR push_bit 4 (b 7) OR push_bit 12 (b 8) OR push_bit 20 (b 9 AND 0x3f))
      = u 6 div 16 + u 7 * 16 + u 8 * 4096 + u 9 mod 64 * 1048576"
    using le(2)[OF u[of 6]] u[of 7] u[of 8] mod_less_divisor[of 64 "u 9"]
    by (subst unat_or4) (simp_all)
  have l3: "unat (drop_bit 6 (b 9) OR push_bit 2 (b 10) OR push_bit 10 (b 11) OR push_bit 18 (b 12))
      = u 9 div 64 + u 10 * 4 + u 11 * 1024 + u 12 * 262144"
    using le(3)[OF u[of 9]] u[of 10] u[of 11] u[of 12]
    by (subst unat_or4) (simp_all)
  have l4: "unat (b 13 OR push_bit 8 (b 14) OR push_bit 16 (b 15) OR push_bit 24 (b 16))
      = u 13 + u 14 * 256 + u 15 * 65536 + u 16 * 16777216"
    using u[of 13] u[of 14] u[of 15] u16
    by (subst unat_or4) (simp_all)
  note l = l0 l1 l2 l3 l4
  show "limb_load_ok (poly1305_load buf)"
    unfolding poly1305_load_def Let_def b_def[symmetric] limb_load_ok.simps l
    using u[of 0] u[of 1] u[of 2] mod_less_divisor[of 4 "u 3"] le(1)[OF u[of 3]] u[of 4] u[of 5]
      mod_less_divisor[of 16 "u 6"] le(2)[OF u[of 6]] u[of 7] u[of 8] mod_less_divisor[of 64 "u 9"]
      le(3)[OF u[of 9]] u[of 10] u[of 11] u[of 12] u[of 13] u[of 14] u[of 15] u16
    by (intro conjI; linarith)
  have "buf = map (\<lambda>i. buf ! i) [0..<17]"
    by (rule nth_equalityI) (simp_all add: assms(1))
  then have "le_nat buf = le_nat (map (\<lambda>i. buf ! i) [0..<17])" by simp
  also have "[0..<17] = [0,1,2,3,4,5,6,7,8,9,10,11,12,13,14,15,16::nat]" by (simp add: upt_rec)
  also have "le_nat (map (\<lambda>i. buf ! i) [0,1,2,3,4,5,6,7,8,9,10,11,12,13,14,15,16]) =
      limb_val (poly1305_load buf)"
    unfolding poly1305_load_def Let_def b_def[symmetric] limb_val.simps l list.map le_nat.simps u_def[symmetric]
      u_def[THEN fun_cong, symmetric]
    using div_mult_mod_eq[of "u 3" 4] div_mult_mod_eq[of "u 6" 16] div_mult_mod_eq[of "u 9" 64]
    by (intro load_sum) simp_all
  finally show "limb_val (poly1305_load buf) = le_nat buf" by simp
qed

lemma poly1305_add_correct:
  assumes "limb_ok h" "limb_load_ok a"
  shows "limb_sum_ok (poly1305_add h a)" and "limb_val (poly1305_add h a) = limb_val h + limb_val a"
proof -
  obtain h0 h1 h2 h3 h4 where h: "h = (h0, h1, h2, h3, h4)" by (cases h)
  obtain a0 a1 a2 a3 a4 where a: "a = (a0, a1, a2, a3, a4)" by (cases a)
  note b = assms[unfolded h a limb_ok.simps limb_load_ok.simps]
  have add: "unat (x + y) = unat x + unat y" if "unat x < 67108928" "unat y < 67108864" for x y :: u32
    using that by (simp add: unat_add_small)
  have sums: "unat (h0 + a0) = unat h0 + unat a0" "unat (h1 + a1) = unat h1 + unat a1"
    "unat (h2 + a2) = unat h2 + unat a2" "unat (h3 + a3) = unat h3 + unat a3" "unat (h4 + a4) = unat h4 + unat a4"
    using b by (auto intro!: add)
  show "limb_sum_ok (poly1305_add h a)"
    unfolding h a poly1305_add_def split_conv limb_sum_ok.simps sums using b by linarith
  show "limb_val (poly1305_add h a) = limb_val h + limb_val a"
    unfolding h a poly1305_add_def split_conv limb_val.simps sums by simp
qed

lemma poly1305_pad_block_correct:
  assumes "blk \<noteq> []" "length blk \<le> 16"
  shows "length (poly1305_pad_block blk) = 17" "unat (poly1305_pad_block blk ! 16) \<le> 1"
    "le_nat (poly1305_pad_block blk) = le_nat (blk @ [1])"
proof -
  have z: "le_nat (replicate n 0) = 0" for n by (induction n) auto
  have eq: "poly1305_pad_block blk = (blk @ [1]) @ replicate (16 - length blk) 0"
  proof -
    have "replicate (17 - length blk) (0::u8) = 0 # replicate (16 - length blk) 0"
      using assms(2) by (cases "17 - length blk") (auto simp del: replicate.simps simp: replicate_Suc)
    then show ?thesis
      using assms(2) by (simp add: poly1305_pad_block_def overwrite_def list_update_append)
  qed
  then show "length (poly1305_pad_block blk) = 17" "le_nat (poly1305_pad_block blk) = le_nat (blk @ [1])"
    using assms(2) by (simp_all add: z le_nat_append[of "blk @ [1]", simplified append_assoc, simplified] le_nat_append)
  show "unat (poly1305_pad_block blk ! 16) \<le> 1"
    using assms(2) by (auto simp: eq nth_append nth_Cons')
qed

lemma poly1305_poly_mod:
  assumes "x mod poly1305_prime = y mod poly1305_prime"
  shows "poly1305_poly r x msg mod poly1305_prime = poly1305_poly r y msg mod poly1305_prime"
proof -
  have "foldl (\<lambda>a blk. (a + le_nat (blk @ [1])) * r mod poly1305_prime) x bs mod poly1305_prime
      = foldl (\<lambda>a blk. (a + le_nat (blk @ [1])) * r mod poly1305_prime) y bs mod poly1305_prime" for bs
    using assms
  proof (induction bs arbitrary: x y)
    case (Cons c bs)
    then have "(x + le_nat (c @ [1])) * r mod poly1305_prime = (y + le_nat (c @ [1])) * r mod poly1305_prime"
      by (metis mod_add_left_eq mod_mult_left_eq)
    then show ?case by simp
  qed simp
  then show ?thesis by (simp add: poly1305_poly_def)
qed

lemma poly1305_loop_correct:
  assumes "limb_tight r" "limb_ok h"
  shows "limb_ok (poly1305_loop r h msg) \<and>
    limb_val (poly1305_loop r h msg) mod poly1305_prime
      = poly1305_poly (limb_val r) (limb_val h) msg mod poly1305_prime"
  using assms(2)
proof (induction "length msg" arbitrary: msg h rule: less_induct)
  case less
  show ?case
  proof (cases "msg = []")
    case True
    then show ?thesis using less.prems by (simp add: poly1305_loop.simps poly1305_poly_def)
  next
    case False
    define blk where "blk = take 16 msg"
    define h' where "h' = poly1305_mul r (poly1305_add h (poly1305_load (poly1305_pad_block blk)))"
    have blk: "blk \<noteq> []" "length blk \<le> 16" using False by (auto simp: blk_def)
    note pad = poly1305_pad_block_correct[OF blk]
    note load = poly1305_load_correct[OF pad(1,2)]
    note add = poly1305_add_correct[OF less.prems load(1)]
    note mul = poly1305_products_correct[OF assms(1) add(1)]
    have h': "limb_ok h'" "limb_val h' mod poly1305_prime
        = (limb_val h + le_nat (blk @ [1])) * limb_val r mod poly1305_prime"
      using poly1305_reduce_correct[OF mul(1)] mul(2) add(2) load(2) pad(3)
      by (simp_all add: h'_def poly1305_mul_def)
    have step: "poly1305_loop r h msg = poly1305_loop r h' (drop 16 msg)"
      using False by (subst poly1305_loop.simps) (simp add: h'_def blk_def)
    have ih: "limb_ok (poly1305_loop r h' (drop 16 msg))"
      "limb_val (poly1305_loop r h' (drop 16 msg)) mod poly1305_prime
        = poly1305_poly (limb_val r) (limb_val h') (drop 16 msg) mod poly1305_prime"
      using less.hyps[of "drop 16 msg" h'] False h'(1) by auto
    have "poly1305_poly (limb_val r) (limb_val h) msg =
        poly1305_poly (limb_val r) ((limb_val h + le_nat (blk @ [1])) * limb_val r mod poly1305_prime) (drop 16 msg)"
      using False unfolding poly1305_poly_def blk_def by (subst chunks_of_unfold) simp_all
    then have "poly1305_poly (limb_val r) (limb_val h) msg mod poly1305_prime =
        poly1305_poly (limb_val r) (limb_val h') (drop 16 msg) mod poly1305_prime"
      using poly1305_poly_mod[of "(limb_val h + le_nat (blk @ [1])) * limb_val r mod poly1305_prime" "limb_val h'"
          "limb_val r" "drop 16 msg"] h'(2)
      by simp
    then show ?thesis using step ih by simp
  qed
qed

section \<open>The clamped key\<close>

lemma and_shifted_mask:
  fixes X m :: nat
  assumes "m < 2 ^ (32 - s)" "s \<le> 32"
  shows "(X div 2 ^ a mod 2 ^ 32) div 2 ^ s AND m = X div 2 ^ (a + s) AND m"
  unfolding drop_bit_eq_div[symmetric] take_bit_eq_mod[symmetric]
proof (rule bit_eqI)
  fix n
  have "take_bit (32 - s) m = m" using assms by (simp add: take_bit_nat_eq_self)
  then have "bit m n \<Longrightarrow> n < 32 - s"
    using bit_take_bit_iff[of "32 - s" m n] by simp
  then show "bit (drop_bit s (take_bit 32 (drop_bit a X)) AND m) n = bit (drop_bit (a + s) X AND m) n"
    by (auto simp: bit_simps ac_simps)
qed

lemma clamp_limb:
  fixes X M :: nat
  assumes "m = M div 2 ^ k mod 2 ^ 26"
  shows "X div 2 ^ k AND m = (X AND M) div 2 ^ k mod 2 ^ 26"
  unfolding assms drop_bit_eq_div[symmetric] take_bit_eq_mod[symmetric]
  by (rule bit_eqI) (auto simp: bit_simps)

lemma limb_decompose:
  fixes x :: nat
  assumes "x < 2 ^ 130"
  shows "x mod 2 ^ 26 + 67108864 * (x div 2 ^ 26 mod 2 ^ 26) + 4503599627370496 * (x div 2 ^ 52 mod 2 ^ 26)
     + 302231454903657293676544 * (x div 2 ^ 78 mod 2 ^ 26)
     + 20282409603651670423947251286016 * (x div 2 ^ 104 mod 2 ^ 26) = x"
proof -
  have e: "x div 2 ^ 52 = x div 2 ^ 26 div 2 ^ 26" "x div 2 ^ 78 = x div 2 ^ 26 div 2 ^ 26 div 2 ^ 26"
    "x div 2 ^ 104 = x div 2 ^ 26 div 2 ^ 26 div 2 ^ 26 div 2 ^ 26"
    by (simp_all only: div_mult2_eq[symmetric] power_add[symmetric]) simp_all
  have "x div 2 ^ 104 < 2 ^ 26" using assms by (simp add: less_mult_imp_div_less)
  then have top: "x div 2 ^ 26 div 2 ^ 26 div 2 ^ 26 div 2 ^ 26 mod 2 ^ 26
      = x div 2 ^ 26 div 2 ^ 26 div 2 ^ 26 div 2 ^ 26"
    unfolding e by simp
  have sum: "m0 + 67108864 * m1 + 4503599627370496 * m2 + 302231454903657293676544 * m3
      + 20282409603651670423947251286016 * q4 = x"
    if "q1 * 67108864 + m0 = x" "q2 * 67108864 + m1 = q1" "q3 * 67108864 + m2 = q2" "q4 * 67108864 + m3 = q3"
    for m0 m1 m2 m3 q1 q2 q3 q4 :: nat
    unfolding that[symmetric] by algebra
  have d: "y div 2 ^ 26 * 67108864 + y mod 2 ^ 26 = y" for y :: nat
    using div_mult_mod_eq[of y "2 ^ 26"] by simp
  show ?thesis unfolding e top by (rule sum[OF d d d d])
qed

lemma poly1305_r_correct:
  assumes "length key = 32"
  shows "limb_tight (poly1305_r key)" and "limb_val (poly1305_r key) = poly1305_clamp key"
proof -
  define X where "X = le_nat (take 16 key)"
  define M :: nat where "M = 0x0ffffffc0ffffffc0ffffffc0fffffff"
  have sl: "slice i (i + 4) (take 16 key) = slice i (i + 4) key" if "i \<le> 12" for i
    using that by (simp add: slice_def drop_take min_def)
  have le: "unat (le32 (slice i (i + 4) key)) = X div 2 ^ (8 * i) mod 2 ^ 32" if "i \<le> 12" for i
  proof -
    have "unat (le32 (slice i (i + 4) (take 16 key))) = le_nat (slice i (i + 4) (take 16 key))"
      by (rule unat_le32) (use assms that in simp)
    also have "\<dots> = X div 256 ^ i mod 256 ^ 4" by (simp add: le_nat_slice X_def)
    also have "(256::nat) ^ i = 2 ^ (8 * i)" by (simp only: power_mult) simp
    finally show ?thesis by (simp add: sl[OF that])
  qed
  have limb: "unat (drop_bit s (le32 (slice i (i + 4) key)) AND m) = (X AND M) div 2 ^ k mod 2 ^ 26"
    if "i \<le> 12" "unat m < 2 ^ (32 - s)" "s \<le> 32" "8 * i + s = k" "unat m = M div 2 ^ k mod 2 ^ 26"
    for s i k and m :: u32
    using le[OF that(1)] and_shifted_mask[OF that(2,3), of X "8 * i"] clamp_limb[OF that(5), of X] that(4)
    by (simp only: unsigned_and_eq unat_drop_bit)
  have m: "unat (0x3ffffff :: u32) = M div 2 ^ 0 mod 2 ^ 26" "unat (0x3ffff03 :: u32) = M div 2 ^ 26 mod 2 ^ 26"
    "unat (0x3ffc0ff :: u32) = M div 2 ^ 52 mod 2 ^ 26" "unat (0x3f03fff :: u32) = M div 2 ^ 78 mod 2 ^ 26"
    "unat (0x00fffff :: u32) = M div 2 ^ 104 mod 2 ^ 26"
    by (simp_all add: M_def)
  have i: "0 + 4 = (4 :: nat)" "3 + 4 = (7 :: nat)" "6 + 4 = (10 :: nat)" "9 + 4 = (13 :: nat)"
    "12 + 4 = (16 :: nat)" by simp_all
  have l: "unat (drop_bit 0 (le32 (slice 0 (0 + 4) key)) AND 0x3ffffff) = (X AND M) div 2 ^ 0 mod 2 ^ 26"
    by (rule limb[OF _ _ _ _ m(1)]) simp_all
  have r: "unat (le32 (slice 0 4 key) AND 0x3ffffff) = (X AND M) mod 2 ^ 26"
    using l by (simp only: i drop_bit_0 id_apply power_0 div_by_1)
  have r1: "unat (drop_bit 2 (le32 (slice 3 (3 + 4) key)) AND 0x3ffff03) = (X AND M) div 2 ^ 26 mod 2 ^ 26"
    by (rule limb[OF _ _ _ _ m(2)]) simp_all
  have r2: "unat (drop_bit 4 (le32 (slice 6 (6 + 4) key)) AND 0x3ffc0ff) = (X AND M) div 2 ^ 52 mod 2 ^ 26"
    by (rule limb[OF _ _ _ _ m(3)]) simp_all
  have r3: "unat (drop_bit 6 (le32 (slice 9 (9 + 4) key)) AND 0x3f03fff) = (X AND M) div 2 ^ 78 mod 2 ^ 26"
    by (rule limb[OF _ _ _ _ m(4)]) simp_all
  have r4: "unat (drop_bit 8 (le32 (slice 12 (12 + 4) key)) AND 0x00fffff) = (X AND M) div 2 ^ 104 mod 2 ^ 26"
    by (rule limb[OF _ _ _ _ m(5)]) simp_all
  note r = r r1[unfolded i] r2[unfolded i] r3[unfolded i] r4[unfolded i]
  have tight: "x mod 2 ^ 26 \<le> 67108863" for x :: nat
  proof -
    have "x mod 2 ^ 26 < 2 ^ 26" by simp
    then show ?thesis by simp
  qed
  show "limb_tight (poly1305_r key)"
    unfolding poly1305_r_def limb_tight.simps r by (intro conjI tight)
  have "X AND M \<le> X" using AND_upper1[of "int X" "int M"] by (simp add: and_nat_def nat_le_iff)
  moreover have "X < 2 ^ 128" using le_nat_less[of "take 16 key"] assms by (simp add: X_def)
  ultimately have "X AND M < 2 ^ 130" by simp
  then show "limb_val (poly1305_r key) = poly1305_clamp key"
    unfolding poly1305_r_def limb_val.simps r
    by (simp only: limb_decompose) (simp add: poly1305_clamp_def X_def M_def)
qed

section \<open>The final carries\<close>

lemma final_carry_nat:
  fixes h0 :: nat
  assumes "h0 < 67108864" "h1 < 67108928" "h2 < 67108864" "h3 < 67108864" "h4 < 67108864"
    and "q1 * 67108864 + m1 = h1" "q2 * 67108864 + m2 = h2 + q1" "q3 * 67108864 + m3 = h3 + q2"
    and "q4 * 67108864 + m4 = h4 + q3" "q0 * 67108864 + m0 = h0 + q4 * 5"
    and m: "m0 \<le> 67108863" "m1 \<le> 67108863" "m2 \<le> 67108863" "m3 \<le> 67108863" "m4 \<le> 67108863"
  shows "q1 \<le> 1 \<and> q2 \<le> 1 \<and> q3 \<le> 1 \<and> q4 \<le> 1 \<and> q0 \<le> 1"
    and "m1 + q0 \<le> 67108863"
    and "m0 + 67108864 * (m1 + q0) + 4503599627370496 * m2 + 302231454903657293676544 * m3
       + 20282409603651670423947251286016 * m4 + 1361129467683753853853498429727072845819 * q4
     = h0 + 67108864 * h1 + 4503599627370496 * h2 + 302231454903657293676544 * h3
       + 20282409603651670423947251286016 * h4"
proof -
  have q1: "q1 \<le> 1" using assms(2,6) by linarith
  have q2: "q2 \<le> 1" using assms(3,7) q1 by linarith
  have q3: "q3 \<le> 1" using assms(4,8) q2 by linarith
  have q4: "q4 \<le> 1" using assms(5,9) q3 by linarith
  have q0: "q0 \<le> 1" using assms(1,10) q4 by linarith
  show "q1 \<le> 1 \<and> q2 \<le> 1 \<and> q3 \<le> 1 \<and> q4 \<le> 1 \<and> q0 \<le> 1" using q0 q1 q2 q3 q4 by blast
  have "q0 = 0 \<or> q4 \<noteq> 0" using assms(1,10) by (cases "q4 = 0") auto
  moreover have "q4 = 0 \<or> q3 \<noteq> 0" using assms(5,9) by (cases "q3 = 0") auto
  moreover have "q3 = 0 \<or> q2 \<noteq> 0" using assms(4,8) by (cases "q2 = 0") auto
  moreover have "q2 = 0 \<or> q1 \<noteq> 0" using assms(3,7) by (cases "q1 = 0") auto
  ultimately have "q0 = 0 \<or> q1 \<noteq> 0" by blast
  then show "m1 + q0 \<le> 67108863" using assms(2,6) m(2) q0 by linarith
  have "int h1 = int q1 * 67108864 + int m1" "int h2 = int q2 * 67108864 + int m2 - int q1"
    "int h3 = int q3 * 67108864 + int m3 - int q2" "int h4 = int q4 * 67108864 + int m4 - int q3"
    "int h0 = int q0 * 67108864 + int m0 - int q4 * 5"
    using assms(6-10) by linarith+
  then show "m0 + 67108864 * (m1 + q0) + 4503599627370496 * m2 + 302231454903657293676544 * m3
       + 20282409603651670423947251286016 * m4 + 1361129467683753853853498429727072845819 * q4
     = h0 + 67108864 * h1 + 4503599627370496 * h2 + 302231454903657293676544 * h3
       + 20282409603651670423947251286016 * h4"
    by (simp add: algebra_simps flip: of_nat_eq_iff [where 'a = int])
qed

lemma mod_limb_le: "x mod 67108864 \<le> (67108863 :: nat)"
proof -
  have "x mod 67108864 < 67108864" by simp
  then show ?thesis by linarith
qed

lemma unat_add_limb: "unat (x :: u32) \<le> 67108927 \<Longrightarrow> unat y \<le> 67108927 \<Longrightarrow> unat (x + y) = unat x + unat y"
  by (simp add: unat_add_small)

lemma poly1305_carry_correct:
  assumes "limb_ok h"
  shows "limb_tight (poly1305_carry h)"
    and "limb_val (poly1305_carry h) mod poly1305_prime = limb_val h mod poly1305_prime"
proof -
  obtain h0 h1 h2 h3 h4 where heq: "h = (h0, h1, h2, h3, h4)" by (cases h)
  note B = assms[unfolded heq limb_ok.simps]
  define q1 where "q1 = unat h1 div 67108864"
  define q2 where "q2 = (unat h2 + q1) div 67108864"
  define q3 where "q3 = (unat h3 + q2) div 67108864"
  define q4 where "q4 = (unat h4 + q3) div 67108864"
  define q0 where "q0 = (unat h0 + q4 * 5) div 67108864"
  note fc = final_carry_nat[of "unat h0" "unat h1" "unat h2" "unat h3" "unat h4",
      OF _ _ _ _ _ div_mult_mod_eq[of "unat h1" 67108864, folded q1_def]
        div_mult_mod_eq[of "unat h2 + q1" 67108864, folded q2_def]
        div_mult_mod_eq[of "unat h3 + q2" 67108864, folded q3_def]
        div_mult_mod_eq[of "unat h4 + q3" 67108864, folded q4_def]
        div_mult_mod_eq[of "unat h0 + q4 * 5" 67108864, folded q0_def]
        mod_limb_le mod_limb_le mod_limb_le mod_limb_le mod_limb_le]
  have F: "q1 \<le> 1 \<and> q2 \<le> 1 \<and> q3 \<le> 1 \<and> q4 \<le> 1 \<and> q0 \<le> 1" "unat h1 mod 67108864 + q0 \<le> 67108863"
    using fc(1,2) B by blast+
  define c1 e2 where "c1 = drop_bit 26 h1" and "e2 = h2 + c1"
  define c2 e3 where "c2 = drop_bit 26 e2" and "e3 = h3 + c2"
  define c3 e4 where "c3 = drop_bit 26 e3" and "e4 = h4 + c3"
  define c4 e0 where "c4 = drop_bit 26 e4" and "e0 = h0 + c4 * 5"
  have c1: "unat c1 = q1" by (simp only: c1_def carry_shift_26 q1_def)
  have e2: "unat e2 = unat h2 + q1" unfolding e2_def c1[symmetric] by (rule unat_add_limb) (use B F c1 in auto)
  have c2: "unat c2 = q2" by (simp only: c2_def carry_shift_26 e2 q2_def)
  have e3: "unat e3 = unat h3 + q2" unfolding e3_def c2[symmetric] by (rule unat_add_limb) (use B F c2 in auto)
  have c3: "unat c3 = q3" by (simp only: c3_def carry_shift_26 e3 q3_def)
  have e4: "unat e4 = unat h4 + q3" unfolding e4_def c3[symmetric] by (rule unat_add_limb) (use B F c3 in auto)
  have c4: "unat c4 = q4" by (simp only: c4_def carry_shift_26 e4 q4_def)
  have c45: "unat (c4 * 5) = q4 * 5" by (subst unat_mult_small) (use F c4 in simp_all)
  have e0: "unat e0 = unat h0 + q4 * 5" unfolding e0_def c45[symmetric] by (rule unat_add_limb) (use B F c45 in auto)
  have c0: "unat (drop_bit 26 e0) = q0" by (simp only: carry_shift_26 e0 q0_def)
  have o1: "unat ((h1 AND 0x3ffffff) + drop_bit 26 e0) = unat h1 mod 67108864 + q0"
    unfolding c0[symmetric] carry_limb_u32[symmetric]
    by (rule unat_add_limb) (use F c0 mod_limb_le[of "unat h1"] in \<open>auto simp: carry_limb_u32 intro: order_trans\<close>)
  have out: "poly1305_carry h = (e0 AND 0x3ffffff, (h1 AND 0x3ffffff) + drop_bit 26 e0, e2 AND 0x3ffffff,
      e3 AND 0x3ffffff, e4 AND 0x3ffffff)"
    unfolding heq poly1305_carry_def Let_def split_conv c1_def e2_def c2_def e3_def c3_def e4_def c4_def e0_def
    by (rule refl)
  show "limb_tight (poly1305_carry h)"
    unfolding out limb_tight.simps o1 carry_limb_u32 using F mod_limb_le by blast
  have "limb_val (poly1305_carry h) + poly1305_prime * q4 = limb_val h"
    unfolding out unfolding heq limb_val.simps o1 carry_limb_u32 e0 e2 e3 e4 poly1305_prime_num
    by (rule fc(3)) (use B in blast)+
  then show "limb_val (poly1305_carry h) mod poly1305_prime = limb_val h mod poly1305_prime"
    by (metis mod_mult_self2)
qed

section \<open>The reduction to the least residue\<close>

lemma limb_val_less:
  assumes "limb_tight h" shows "limb_val h < 2 ^ 130"
  using assms by (cases h) simp

lemma freeze_nat:
  fixes h0 :: nat
  assumes "q0 * 67108864 + m0 = h0 + 5" "q1 * 67108864 + m1 = h1 + q0" "q2 * 67108864 + m2 = h2 + q1"
    and "q3 * 67108864 + m3 = h3 + q2"
  shows "m0 + 67108864 * m1 + 4503599627370496 * m2 + 302231454903657293676544 * m3
       + 20282409603651670423947251286016 * (h4 + q3)
     = h0 + 67108864 * h1 + 4503599627370496 * h2 + 302231454903657293676544 * h3
       + 20282409603651670423947251286016 * h4 + 5"
proof -
  have "int h0 = int q0 * 67108864 + int m0 - 5" "int h1 = int q1 * 67108864 + int m1 - int q0"
    "int h2 = int q2 * 67108864 + int m2 - int q1" "int h3 = int q3 * 67108864 + int m3 - int q2"
    using assms by linarith+
  then show ?thesis by (simp add: algebra_simps flip: of_nat_eq_iff [where 'a = int])
qed

lemma poly1305_freeze_correct:
  assumes "limb_tight h"
  shows "limb_tight (poly1305_freeze h)"
    and "limb_val (poly1305_freeze h) = limb_val h mod poly1305_prime"
proof -
  obtain h0 h1 h2 h3 h4 where heq: "h = (h0, h1, h2, h3, h4)" by (cases h)
  note B = assms[unfolded heq limb_tight.simps]
  define q0 where "q0 = (unat h0 + 5) div 67108864"
  define q1 where "q1 = (unat h1 + q0) div 67108864"
  define q2 where "q2 = (unat h2 + q1) div 67108864"
  define q3 where "q3 = (unat h3 + q2) div 67108864"
  have q: "q0 \<le> 1" "q1 \<le> 1" "q2 \<le> 1" "q3 \<le> 1"
    unfolding q0_def q1_def q2_def q3_def using B by linarith+
  define g0 where "g0 = h0 + 5"
  define g1 where "g1 = h1 + drop_bit 26 g0"
  define g2 where "g2 = h2 + drop_bit 26 g1"
  define g3 where "g3 = h3 + drop_bit 26 g2"
  define g4 where "g4 = h4 + drop_bit 26 g3"
  have g0: "unat g0 = unat h0 + 5"
    unfolding g0_def using unat_add_limb[of h0 5] B by (simp add: order_trans)
  have g1: "unat g1 = unat h1 + q0"
    unfolding g1_def by (subst unat_add_limb) (use B q in \<open>auto simp: carry_shift_26 g0 q0_def\<close>)
  have g2: "unat g2 = unat h2 + q1"
    unfolding g2_def by (subst unat_add_limb) (use B q in \<open>auto simp: carry_shift_26 g1 q1_def\<close>)
  have g3: "unat g3 = unat h3 + q2"
    unfolding g3_def by (subst unat_add_limb) (use B q in \<open>auto simp: carry_shift_26 g2 q2_def\<close>)
  have g4: "unat g4 = unat h4 + q3"
    unfolding g4_def by (subst unat_add_limb) (use B q in \<open>auto simp: carry_shift_26 g3 q3_def\<close>)
  define mask where "mask = drop_bit 31 (g4 - push_bit 26 1) - 1"
  have out: "poly1305_freeze h = ((h0 AND NOT mask) OR (g0 AND 0x3ffffff AND mask),
      (h1 AND NOT mask) OR (g1 AND 0x3ffffff AND mask), (h2 AND NOT mask) OR (g2 AND 0x3ffffff AND mask),
      (h3 AND NOT mask) OR (g3 AND 0x3ffffff AND mask),
      (h4 AND NOT mask) OR ((g4 - push_bit 26 1) AND mask))"
    unfolding heq poly1305_freeze_def Let_def split_conv g0_def g1_def g2_def g3_def g4_def mask_def
    by (simp only: and.assoc)
  have p26: "push_bit 26 (1 :: u32) = 67108864" by simp
  have sum: "unat g0 mod 67108864 + 67108864 * (unat g1 mod 67108864) + 4503599627370496 * (unat g2 mod 67108864)
      + 302231454903657293676544 * (unat g3 mod 67108864) + 20282409603651670423947251286016 * unat g4
      = limb_val h + 5"
    unfolding heq limb_val.simps g0 g1 g2 g3 g4
    by (rule freeze_nat) (simp_all only: div_mult_mod_eq q0_def q1_def q2_def q3_def)
  have Vlt: "limb_val h < 2 ^ 130" by (rule limb_val_less[OF assms])
  have "limb_tight (poly1305_freeze h) \<and> limb_val (poly1305_freeze h) = limb_val h mod poly1305_prime"
  proof (cases "unat g4 = 67108864")
    case True
    then have "g4 = 67108864" by (simp add: word_unat_eq_iff)
    then have mask: "mask = NOT 0" "g4 - push_bit 26 1 = 0" by (simp_all add: mask_def)
    have eq: "poly1305_freeze h = (g0 AND 0x3ffffff, g1 AND 0x3ffffff, g2 AND 0x3ffffff, g3 AND 0x3ffffff, 0)"
      unfolding out mask by simp
    have "limb_val (poly1305_freeze h) + 2 ^ 130 = limb_val h + 5"
      using sum unfolding True eq limb_val.simps carry_limb_u32 by simp
    then have "limb_val (poly1305_freeze h) + poly1305_prime = limb_val h"
      by (simp add: poly1305_prime_def)
    moreover from this have "limb_val (poly1305_freeze h) < poly1305_prime"
      using Vlt by (simp add: poly1305_prime_def)
    ultimately have "limb_val (poly1305_freeze h) = limb_val h mod poly1305_prime"
      by (metis mod_add_self2 mod_less)
    moreover have "limb_tight (poly1305_freeze h)"
      unfolding eq limb_tight.simps carry_limb_u32 using mod_limb_le by simp
    ultimately show ?thesis by blast
  next
    case False
    then have small: "unat g4 < 67108864" using g4 q B by linarith
    have "unat (g4 - push_bit 26 1) = unat g4 + 4227858432"
      unfolding p26 using small by (simp add: unat_sub_if_size word_size)
    then have "unat (drop_bit 31 (g4 - push_bit 26 1)) = unat (1 :: u32)"
      by (simp only: unat_drop_bit) (use small in simp)
    then have "drop_bit 31 (g4 - push_bit 26 1) = 1" by (simp only: word_unat_eq_iff)
    then have "mask = 0" by (simp add: mask_def)
    then have eq: "poly1305_freeze h = h" unfolding out by (simp add: heq)
    have "20282409603651670423947251286016 * unat g4 \<le> 20282409603651670423947251286016 * 67108863"
      using small by (intro mult_left_mono) auto
    then have "limb_val h + 5 < 2 ^ 130"
      using sum mod_limb_le[of "unat g0"] mod_limb_le[of "unat g1"] mod_limb_le[of "unat g2"]
        mod_limb_le[of "unat g3"]
      by simp
    then show ?thesis using assms eq by (simp add: poly1305_prime_def)
  qed
  then show "limb_tight (poly1305_freeze h)" "limb_val (poly1305_freeze h) = limb_val h mod poly1305_prime"
    by blast+
qed

section \<open>The tag\<close>

lemma repack_nat:
  fixes h0 :: nat
  assumes "q1 * 64 + m1 = h1" "q2 * 4096 + m2 = h2" "q3 * 262144 + m3 = h3" "q4 * 16777216 + m4 = h4"
  shows "h0 + 67108864 * h1 + 4503599627370496 * h2 + 302231454903657293676544 * h3
       + 20282409603651670423947251286016 * h4
     = (h0 + m1 * 67108864) + 4294967296 * (q1 + m2 * 1048576) + 18446744073709551616 * (q2 + m3 * 16384)
       + 79228162514264337593543950336 * (q3 + m4 * 256) + 340282366920938463463374607431768211456 * q4"
  unfolding assms[symmetric] by algebra

lemma add_words_nat:
  fixes A0 :: nat
  assumes "F0 * 4294967296 + o0 = A0 + s0" "F1 * 4294967296 + o1 = F0 + (A1 + s1)"
    and "F2 * 4294967296 + o2 = F1 + (A2 + s2)" "F3 * 4294967296 + o3 = F2 + (A3 + s3)"
    and "o0 \<le> 4294967295" "o1 \<le> 4294967295" "o2 \<le> 4294967295" "o3 \<le> 4294967295"
  shows "o0 + 4294967296 * (o1 + 4294967296 * (o2 + 4294967296 * o3)) =
    (A0 + 4294967296 * A1 + 18446744073709551616 * A2 + 79228162514264337593543950336 * A3
     + (s0 + 4294967296 * (s1 + 4294967296 * (s2 + 4294967296 * s3)))) mod 340282366920938463463374607431768211456"
proof -
  have "int o0 = int A0 + int s0 - int F0 * 4294967296" "int o1 = int F0 + (int A1 + int s1) - int F1 * 4294967296"
    "int o2 = int F1 + (int A2 + int s2) - int F2 * 4294967296" "int o3 = int F2 + (int A3 + int s3) - int F3 * 4294967296"
    using assms(1-4) by linarith+
  then have "(o0 + 4294967296 * (o1 + 4294967296 * (o2 + 4294967296 * o3)))
      + F3 * 340282366920938463463374607431768211456 =
    (A0 + 4294967296 * A1 + 18446744073709551616 * A2 + 79228162514264337593543950336 * A3
     + (s0 + 4294967296 * (s1 + 4294967296 * (s2 + 4294967296 * s3))))"
    by (simp add: algebra_simps flip: of_nat_eq_iff [where 'a = int])
  moreover have "o0 + 4294967296 * (o1 + 4294967296 * (o2 + 4294967296 * o3))
      < 340282366920938463463374607431768211456"
    using assms(5-8) by simp
  ultimately show ?thesis by (metis mod_less mod_mult_self1)
qed

lemma repack_word:
  fixes x :: u64
  assumes "unat x < 2 ^ k" "k \<le> 32" "unat y < 67108864"
  shows "unat ((x OR push_bit k y) AND 0xffffffff) = unat x + (unat y mod 2 ^ (32 - k)) * 2 ^ k"
proof -
  have "unat y * 2 ^ k \<le> 67108864 * 2 ^ 32"
    using assms(2,3) by (intro mult_mono power_increasing) auto
  then have "unat (x OR push_bit k y) = unat x + unat y * 2 ^ k"
    by (intro unat_or_push assms(1)) simp
  moreover have "unat (w AND 0xffffffff) = unat w mod 2 ^ 32" for w :: u64
    by (rule unat_and_mask) simp
  moreover have "(unat x + unat y * 2 ^ k) mod 2 ^ 32 = unat x + (unat y mod 2 ^ (32 - k)) * 2 ^ k"
  proof -
    have p: "(2 :: nat) ^ 32 = 2 ^ (32 - k) * 2 ^ k" using assms(2) by (simp flip: power_add)
    have "unat y mod 2 ^ (32 - k) + 1 \<le> 2 ^ (32 - k)" by (simp add: Suc_leI)
    then have "(unat y mod 2 ^ (32 - k) + 1) * 2 ^ k \<le> 2 ^ 32" unfolding p by (intro mult_right_mono) auto
    then have lt: "unat x + (unat y mod 2 ^ (32 - k)) * 2 ^ k < 2 ^ 32" using assms(1) by (simp add: algebra_simps)
    have "(unat x + unat y * 2 ^ k) mod 2 ^ 32 = (unat x + (unat y * 2 ^ k) mod 2 ^ 32) mod 2 ^ 32"
      by (simp only: mod_add_right_eq)
    also have "(unat y * 2 ^ k) mod 2 ^ 32 = (unat y mod 2 ^ (32 - k)) * 2 ^ k"
      unfolding p by (rule mod_mult_mult2)
    finally show ?thesis using lt by simp
  qed
  ultimately show ?thesis by simp
qed

lemma le_nat_slices:
  "i \<le> j \<Longrightarrow> j \<le> k \<Longrightarrow> k \<le> length bs \<Longrightarrow>
   le_nat (slice i k bs) = le_nat (slice i j bs) + 256 ^ (j - i) * le_nat (slice j k bs)"
proof -
  assume a: "i \<le> j" "j \<le> k" "k \<le> length bs"
  have "slice i k bs = slice i j bs @ slice j k bs"
    using a take_add[of "j - i" "k - j" "drop i bs"] by (simp add: slice_def)
  then show ?thesis using a by (simp add: le_nat_append slice_def min_def)
qed

lemma poly1305_tag_correct:
  assumes "limb_tight h" "length key = 32"
  shows "le_nat (poly1305_tag h key) = (limb_val h + le_nat (slice 16 32 key)) mod 2 ^ 128"
    and "length (poly1305_tag h key) = 16"
proof -
  obtain h0 h1 h2 h3 h4 where heq: "h = (h0, h1, h2, h3, h4)" by (cases h)
  note B = assms(1)[unfolded heq limb_tight.simps]
  have up: "unat (ucast x :: u64) = unat x" for x :: u32 by (rule unat_ucast_up) simp
  define s where "s i = unat (le32 (slice i (i + 4) key))" for i
  have sb: "s i \<le> 4294967295" for i
  proof -
    have "s i < 2 ^ LENGTH(32)" unfolding s_def by (rule unsigned_less)
    then show ?thesis by simp
  qed
  define f0 where "f0 = (((ucast h0 :: u64) OR push_bit 26 (ucast h1)) AND 0xffffffff) + ucast (le32 (slice 16 20 key))"
  define f1 where "f1 = drop_bit 32 f0
    + (((drop_bit 6 (ucast h1 :: u64) OR push_bit 20 (ucast h2)) AND 0xffffffff) + ucast (le32 (slice 20 24 key)))"
  define f2 where "f2 = drop_bit 32 f1
    + (((drop_bit 12 (ucast h2 :: u64) OR push_bit 14 (ucast h3)) AND 0xffffffff) + ucast (le32 (slice 24 28 key)))"
  define f3 where "f3 = drop_bit 32 f2
    + (((drop_bit 18 (ucast h3 :: u64) OR push_bit 8 (ucast h4)) AND 0xffffffff) + ucast (le32 (slice 28 32 key)))"
  have out: "poly1305_tag h key =
      le_bytes 4 (ucast f0 :: u32) @ le_bytes 4 (ucast f1 :: u32) @ le_bytes 4 (ucast f2 :: u32) @ le_bytes 4 (ucast f3 :: u32)"
    unfolding heq poly1305_tag_def Let_def split_conv f0_def f1_def f2_def f3_def by (rule refl)
  then show "length (poly1305_tag h key) = 16" by (simp add: len_simps)
  define A0 where "A0 = unat h0 + unat h1 mod 64 * 67108864"
  define A1 where "A1 = unat h1 div 64 + unat h2 mod 4096 * 1048576"
  define A2 where "A2 = unat h2 div 4096 + unat h3 mod 262144 * 16384"
  define A3 where "A3 = unat h3 div 262144 + unat h4 mod 16777216 * 256"
  have a0: "unat (((ucast h0 :: u64) OR push_bit 26 (ucast h1)) AND 0xffffffff) = A0"
    by (subst repack_word) (use B in \<open>simp_all add: up A0_def\<close>)
  have a1: "unat ((drop_bit 6 (ucast h1 :: u64) OR push_bit 20 (ucast h2)) AND 0xffffffff) = A1"
    by (subst repack_word) (use B in \<open>simp_all add: up A1_def unat_drop_bit div_less_iff_less_mult\<close>)
  have a2: "unat ((drop_bit 12 (ucast h2 :: u64) OR push_bit 14 (ucast h3)) AND 0xffffffff) = A2"
    by (subst repack_word) (use B in \<open>simp_all add: up A2_def unat_drop_bit div_less_iff_less_mult\<close>)
  have a3: "unat ((drop_bit 18 (ucast h3 :: u64) OR push_bit 8 (ucast h4)) AND 0xffffffff) = A3"
    by (subst repack_word) (use B in \<open>simp_all add: up A3_def unat_drop_bit div_less_iff_less_mult\<close>)
  have Ab: "A0 \<le> 4294967295" "A1 \<le> 4294967295" "A2 \<le> 4294967295" "A3 \<le> 4294967295"
    unfolding A0_def A1_def A2_def A3_def using B by linarith+
  have ss: "unat (ucast (le32 (slice 16 20 key)) :: u64) = s 16" "unat (ucast (le32 (slice 20 24 key)) :: u64) = s 20"
    "unat (ucast (le32 (slice 24 28 key)) :: u64) = s 24" "unat (ucast (le32 (slice 28 32 key)) :: u64) = s 28"
    by (simp_all add: up s_def)
  have add2: "unat (x + y) = unat x + unat y" if "unat x \<le> 4294967295" "unat y \<le> 8589934590" for x y :: u64
    using that by (simp add: unat_add_small)
  have d32: "unat (drop_bit 32 w) = unat w div 4294967296" for w :: u64
    by (simp only: unat_drop_bit) simp
  define F0 where "F0 = (A0 + s 16) div 4294967296"
  define F1 where "F1 = (F0 + (A1 + s 20)) div 4294967296"
  define F2 where "F2 = (F1 + (A2 + s 24)) div 4294967296"
  have Fb: "F0 \<le> 2" "F1 \<le> 2" "F2 \<le> 2"
    unfolding F0_def F1_def F2_def using Ab sb[of 16] sb[of 20] sb[of 24] by linarith+
  have f0: "unat f0 = A0 + s 16"
    unfolding f0_def by (subst add2) (use Ab sb[of 16] in \<open>auto simp: a0 ss intro: order_trans\<close>)
  have step: "unat (drop_bit 32 w + (x + y)) = F + (A + S)"
    if "unat w div 4294967296 = F" "F \<le> 2" "unat x = A" "unat y = S" "A \<le> 4294967295" "S \<le> 4294967295"
    for w x y :: u64 and F A S
    using that by (simp add: add2 d32)
  have f1: "unat f1 = F0 + (A1 + s 20)"
    unfolding f1_def by (rule step) (use Ab Fb sb f0 in \<open>simp_all only: a1 ss F0_def\<close>)
  have f2: "unat f2 = F1 + (A2 + s 24)"
    unfolding f2_def by (rule step) (use Ab Fb sb f1 in \<open>simp_all only: a2 ss F1_def\<close>)
  have f3: "unat f3 = F2 + (A3 + s 28)"
    unfolding f3_def by (rule step) (use Ab Fb sb f2 in \<open>simp_all only: a3 ss F2_def\<close>)
  have bytes: "le_nat (le_bytes 4 (ucast w :: u32)) = unat w mod 4294967296" for w :: u64
    by (simp add: le_nat_le_bytes unat_ucast_mod)
  have mle: "x mod 4294967296 \<le> (4294967295 :: nat)" for x
  proof -
    have "x mod 4294967296 < 4294967296" by simp
    then show ?thesis by linarith
  qed
  have S: "le_nat (slice 16 32 key) = s 16 + 4294967296 * (s 20 + 4294967296 * (s 24 + 4294967296 * s 28))"
    using le_nat_slices[of 16 20 32 key] le_nat_slices[of 20 24 32 key] le_nat_slices[of 24 28 32 key]
      unat_le32[of 16 key] unat_le32[of 20 key] unat_le32[of 24 key] unat_le32[of 28 key] assms(2)
    by (simp add: s_def)
  have sum: "le_nat (poly1305_tag h key) =
      (A0 + 4294967296 * A1 + 18446744073709551616 * A2 + 79228162514264337593543950336 * A3
       + (s 16 + 4294967296 * (s 20 + 4294967296 * (s 24 + 4294967296 * s 28)))) mod 340282366920938463463374607431768211456"
    using add_words_nat[OF div_mult_mod_eq[of "A0 + s 16" 4294967296, folded F0_def] div_mult_mod_eq[of "F0 + (A1 + s 20)" 4294967296, folded F1_def]
        div_mult_mod_eq[of "F1 + (A2 + s 24)" 4294967296, folded F2_def] div_mult_mod_eq[of "F2 + (A3 + s 28)" 4294967296] mle mle mle mle]
    by (simp add: out le_nat_append bytes f0 f1 f2 f3 length_le_bytes)
  have "limb_val h = A0 + 4294967296 * A1 + 18446744073709551616 * A2 + 79228162514264337593543950336 * A3
      + 340282366920938463463374607431768211456 * (unat h4 div 16777216)"
    unfolding heq limb_val.simps A0_def A1_def A2_def A3_def
    by (rule repack_nat) (rule div_mult_mod_eq)+
  then have "(limb_val h + le_nat (slice 16 32 key)) mod 340282366920938463463374607431768211456 = le_nat (poly1305_tag h key)"
    unfolding sum S
    by (simp only: add.commute[of _ "340282366920938463463374607431768211456 * (unat h4 div 16777216)"] add.assoc
        mod_mult_self4)
  then show "le_nat (poly1305_tag h key) = (limb_val h + le_nat (slice 16 32 key)) mod 2 ^ 128" by simp
qed

section \<open>The code computes the reference\<close>

lemma poly1305_correct:
  assumes "length key = 32"
  shows "le_nat (poly1305_mac key msg) = poly1305_reference key msg" and "length (poly1305_mac key msg) = 16"
proof -
  define h where "h = poly1305_loop (poly1305_r key) (0, 0, 0, 0, 0) msg"
  note r = poly1305_r_correct[OF assms]
  have "limb_ok (0, 0, 0, 0, 0)" by simp
  note h = poly1305_loop_correct[OF r(1) this, of msg, folded h_def]
  note c = poly1305_carry_correct[OF conjunct1[OF h]]
  note f = poly1305_freeze_correct[OF c(1)]
  note t = poly1305_tag_correct[OF f(1) assms]
  have "poly1305_poly R 0 msg mod poly1305_prime = poly1305_poly R 0 msg" for R
  proof -
    have "foldl (\<lambda>a blk. (a + le_nat (blk @ [1])) * R mod poly1305_prime) a bs < poly1305_prime"
      if "a < poly1305_prime" for a bs
      using that by (induction bs arbitrary: a) (simp_all add: poly1305_prime_num)
    then show ?thesis by (simp add: poly1305_poly_def poly1305_prime_num)
  qed
  then have "limb_val (poly1305_freeze (poly1305_carry h)) = poly1305_poly (poly1305_clamp key) 0 msg"
    using f(2) c(2) conjunct2[OF h] r(2) by simp
  then show "le_nat (poly1305_mac key msg) = poly1305_reference key msg"
    unfolding poly1305_mac_def Let_def poly1305_reference_def h_def[symmetric] t(1) by simp
  show "length (poly1305_mac key msg) = 16"
    unfolding poly1305_mac_def Let_def h_def[symmetric] by (rule t(2))
qed

section \<open>Properties\<close>

text \<open>C16: The 26-bit limb code with its 32-bit accumulators and 64-bit products computes Poly1305: for every key of
  32 bytes and every message the tag is the little-endian number of the message's polynomial at the
  clamped key modulo \<open>2 ^ 130 - 5\<close> plus the second half of the key modulo \<open>2 ^ 128\<close>. No word operation
  wraps where the number would not.\<close>

theorem poly1305_mac_correct:
  assumes "length key = 32"
  shows "le_nat (poly1305_mac key msg) = poly1305_reference key msg \<and> length (poly1305_mac key msg) = 16"
  using poly1305_correct[OF assms] by blast

theorem poly1305_mac_correct_witness:
  "le_nat (poly1305_mac (replicate 32 1) [1, 2, 3]) = poly1305_reference (replicate 32 1) [1, 2, 3]"
  using poly1305_mac_correct[of "replicate 32 1" "[1, 2, 3]"] by (simp only: length_replicate simp_thms)

end
