(* ===== verification/Secretbox.thy ===== *)
theory Secretbox
  imports Poly1305_Correct
begin

text \<open>
  \<open>src/src/crypto.rs\<close>, lines 576 to 619: the authenticated box on XSalsa20 and Poly1305. The keystream's first
  32 bytes key the authenticator, the rest encrypts; opening compares the tags byte by byte into an
  accumulator. The contract of the box is the locale \<open>aead\<close>: sealing and opening are inverse, and nothing
  opens that was not sealed under the same key and nonce. It is what the framing relies on.
\<close>

section \<open>Sealing and opening\<close>

definition secretbox_seal :: "bytes \<Rightarrow> bytes \<Rightarrow> bytes \<Rightarrow> bytes" where
  "secretbox_seal key nonce plaintext =
     (let stream = xsalsa20_keystream key nonce (32 + length plaintext);
          poly_key = take 32 stream;
          ciphertext = map (\<lambda>i. plaintext ! i XOR stream ! (32 + i)) [0..<length plaintext]
      in poly1305_mac poly_key ciphertext @ ciphertext)"

text \<open>\<open>for i in 0..16 { diff |= a[i] ^ b[i] }\<close>\<close>

definition tag_diff :: "nat \<Rightarrow> bytes \<Rightarrow> bytes \<Rightarrow> u8" where
  "tag_diff n a b = foldl (\<lambda>diff i. diff OR (a ! i XOR b ! i)) 0 [0..<n]"

definition secretbox_open :: "bytes \<Rightarrow> bytes \<Rightarrow> bytes \<Rightarrow> bytes option" where
  "secretbox_open key nonce sealed =
     (if length sealed < 16 then None
      else let mac_bytes = take 16 sealed;
               ciphertext = drop 16 sealed;
               stream = xsalsa20_keystream key nonce (32 + length ciphertext);
               computed_mac = poly1305_mac (take 32 stream) ciphertext
           in if tag_diff 16 mac_bytes computed_mac \<noteq> 0 then None
              else Some (map (\<lambda>i. ciphertext ! i XOR stream ! (32 + i)) [0..<length ciphertext]))"

section \<open>The contract\<close>

locale aead =
  fixes seal :: "bytes \<Rightarrow> bytes \<Rightarrow> bytes \<Rightarrow> bytes"
    and unseal :: "bytes \<Rightarrow> bytes \<Rightarrow> bytes \<Rightarrow> bytes option"
    and overhead :: nat
  assumes unseal_seal: "unseal k n (seal k n m) = Some m"
    and seal_unseal: "unseal k n c = Some m \<Longrightarrow> c = seal k n m"
    and length_seal: "length (seal k n m) = length m + overhead"
begin

lemma unseal_iff: "unseal k n c = Some m \<longleftrightarrow> c = seal k n m"
  using unseal_seal seal_unseal by auto

lemma seal_inj: "seal k n m = seal k n m' \<longleftrightarrow> m = m'"
  by (metis option.inject unseal_seal)

lemma unseal_none: "unseal k n c = None \<longleftrightarrow> c \<notin> range (seal k n)"
proof (cases "unseal k n c")
  case None
  then show ?thesis using unseal_seal by auto
next
  case (Some m)
  then show ?thesis by (auto dest: seal_unseal)
qed

lemma unseal_short: "length c < overhead \<Longrightarrow> unseal k n c = None"
  by (auto simp: unseal_none length_seal)

lemma length_unseal: "unseal k n c = Some m \<Longrightarrow> length c = length m + overhead"
  by (simp add: unseal_iff length_seal)

end

section \<open>The box meets the contract\<close>

lemma or_eq_0_iff: "(a :: 'a::len word) OR b = 0 \<longleftrightarrow> a = 0 \<and> b = 0"
  by (auto simp: bit_eq_iff bit_simps)

lemma xor_zero_iff: "(a :: 'a::len word) XOR b = 0 \<longleftrightarrow> a = b"
  by (metis xor.assoc xor.left_neutral xor_self_eq xor.right_neutral)

lemma tag_diff_zero:
  assumes "length a = n" "length b = n"
  shows "tag_diff n a b = 0 \<longleftrightarrow> a = b"
proof -
  have "foldl (\<lambda>diff i. diff OR (a ! i XOR b ! i)) d [0..<m] = 0 \<longleftrightarrow> d = 0 \<and> (\<forall>i<m. a ! i = b ! i)" for d m
    by (induction m) (auto simp: less_Suc_eq or_eq_0_iff xor_zero_iff)
  then show ?thesis using assms by (auto simp: tag_diff_def list_eq_iff_nth_eq)
qed

lemma xor_stream_eq:
  "length stream = 32 + length m \<Longrightarrow>
   map (\<lambda>i. m ! i XOR stream ! (32 + i)) [0..<length m] = xor_bytes m (drop 32 stream)"
  by (rule nth_equalityI) (auto simp: nth_xor_bytes length_xor_bytes)

lemma secretbox_seal_parts:
  "secretbox_seal key nonce m =
     (let c = xor_bytes m (drop 32 (xsalsa20_keystream key nonce (32 + length m)))
      in poly1305_mac (xsalsa20_keystream key nonce 32) c @ c)"
  by (simp add: secretbox_seal_def xor_stream_eq xsalsa20.keystream_prefix Let_def)

lemma length_poly1305_stream_mac: "length (poly1305_mac (xsalsa20_keystream key nonce 32) c) = 16"
  by (rule poly1305_correct) simp

lemma secretbox_open_parts:
  "secretbox_open key nonce s =
     (if length s < 16 \<or> take 16 s \<noteq> poly1305_mac (xsalsa20_keystream key nonce 32) (drop 16 s) then None
      else Some (xor_bytes (drop 16 s) (drop 32 (xsalsa20_keystream key nonce (32 + length (drop 16 s))))))"
proof (cases "length s < 16")
  case False
  then have "tag_diff 16 (take 16 s) (poly1305_mac (xsalsa20_keystream key nonce 32) (drop 16 s)) = 0
      \<longleftrightarrow> take 16 s = poly1305_mac (xsalsa20_keystream key nonce 32) (drop 16 s)"
    by (intro tag_diff_zero length_poly1305_stream_mac) simp
  then show ?thesis
    using False xor_stream_eq[of "xsalsa20_keystream key nonce (32 + length (drop 16 s))" "drop 16 s"]
    by (simp add: secretbox_open_def Let_def xsalsa20.keystream_prefix)
qed (simp add: secretbox_open_def)

interpretation secretbox: aead secretbox_seal secretbox_open 16
proof
  fix k n m c
  let ?ks = "\<lambda>l. drop 32 (xsalsa20_keystream k n (32 + l))"
  show "length (secretbox_seal k n m) = length m + 16"
    by (simp add: secretbox_seal_parts Let_def length_poly1305_stream_mac length_xor_bytes)
  show "secretbox_open k n (secretbox_seal k n m) = Some m"
    by (simp add: secretbox_seal_parts secretbox_open_parts Let_def length_poly1305_stream_mac
        length_xor_bytes xor_bytes_cancel)
  show "c = secretbox_seal k n m" if "secretbox_open k n c = Some m"
  proof -
    from that have c: "take 16 c = poly1305_mac (xsalsa20_keystream k n 32) (drop 16 c)"
      "m = xor_bytes (drop 16 c) (?ks (length (drop 16 c)))"
      by (auto simp: secretbox_open_parts split: if_splits)
    then have "length m = length (drop 16 c)" "xor_bytes m (?ks (length m)) = drop 16 c"
      by (simp_all add: length_xor_bytes xor_bytes_cancel)
    then show ?thesis using c(1) by (simp add: secretbox_seal_parts Let_def) (metis append_take_drop_id)
  qed
qed

lemma secretbox_keystream_reuse:
  assumes "length m = length m'"
  shows "xor_bytes (drop 16 (secretbox_seal k n m)) (drop 16 (secretbox_seal k n m')) = xor_bytes m m'"
  using assms
  by (simp add: secretbox_seal_parts Let_def length_poly1305_stream_mac xor_bytes_common_key)

section \<open>Properties\<close>

text \<open>C14: The box opens exactly what was sealed under the same key and nonce: opening a sealed message gives it
  back, and any other byte string, too short, altered or made under another key or nonce, is refused.
  A sealed message is 16 bytes longer than its plaintext.\<close>

theorem secretbox_exact:
  "(secretbox_open key nonce sealed = Some m \<longleftrightarrow> sealed = secretbox_seal key nonce m) \<and>
   length (secretbox_seal key nonce m) = length m + 16"
  by (simp add: secretbox.unseal_iff secretbox.length_seal)

end
