(* ===== verification/Byte_Stream.thy ===== *)
theory Byte_Stream
  imports Prelude
begin

text \<open>
  A TCP stream as the components see it: the list of bytes still to be read. \<open>Read::read_exact\<close> takes the
  number of bytes asked for, or drains the stream and fails with \<open>UnexpectedEof\<close>. The kinds of
  \<open>std::io::Error\<close> that the source tells apart are the constructors of \<open>io_error\<close>.
\<close>

datatype io_error = UnexpectedEof | InvalidData | ConnectionReset | Other

definition read_exact :: "nat \<Rightarrow> bytes \<Rightarrow> (io_error + bytes) \<times> bytes" where
  "read_exact n s = (if length s < n then (Inl UnexpectedEof, []) else (Inr (take n s), drop n s))"

lemma read_exact_append: "length a = n \<Longrightarrow> read_exact n (a @ b) = (Inr a, b)"
  by (simp add: read_exact_def)

lemma read_exact_eq:
  "read_exact n s = (r, t) \<longleftrightarrow>
     (case r of Inl e \<Rightarrow> e = UnexpectedEof \<and> length s < n \<and> t = [] | Inr a \<Rightarrow> s = a @ t \<and> length a = n)"
  by (cases r) (auto simp: read_exact_def append_eq_conv_conj split: if_splits)

text \<open>
  The contract of a message format on a stream: a message that fits is read back from the front of whatever
  its frame is followed by. The frames of sessions, the STUN messages and the text messages of the
  signalling socket meet it.
\<close>

locale frame_codec =
  fixes frame :: "'m \<Rightarrow> bytes"
    and parse :: "bytes \<Rightarrow> (io_error + 'm) \<times> bytes"
    and fits :: "'m \<Rightarrow> bool"
  assumes parse_frame: "fits m \<Longrightarrow> parse (frame m @ rest) = (Inr m, rest)"
begin

primrec parse_all :: "nat \<Rightarrow> bytes \<Rightarrow> (io_error + 'm list) \<times> bytes" where
  "parse_all 0 s = (Inr [], s)"
| "parse_all (Suc n) s =
     (case parse s of
        (Inl e, s) \<Rightarrow> (Inl e, s)
      | (Inr m, s) \<Rightarrow> (case parse_all n s of (Inl e, s) \<Rightarrow> (Inl e, s) | (Inr ms, s) \<Rightarrow> (Inr (m # ms), s)))"

lemma parse_all_frames:
  "\<forall>m\<in>set ms. fits m \<Longrightarrow> parse_all (length ms) (concat (map frame ms) @ rest) = (Inr ms, rest)"
  by (induction ms) (auto simp: parse_frame)

text \<open>No frame is a proper prefix of another: a stream of frames splits in one way.\<close>

lemma frame_prefix_free:
  "fits m \<Longrightarrow> fits m' \<Longrightarrow> frame m @ s = frame m' @ s' \<longleftrightarrow> m = m' \<and> s = s'"
  by (metis Inr_inject Pair_inject parse_frame)

lemma frames_unique:
  "\<forall>m\<in>set ms. fits m \<Longrightarrow> \<forall>m\<in>set ms'. fits m \<Longrightarrow> length ms = length ms' \<Longrightarrow>
   concat (map frame ms) @ s = concat (map frame ms') @ s' \<Longrightarrow> ms = ms' \<and> s = s'"
  by (metis Inr_inject Pair_inject parse_all_frames)

end

end
