(* ===== verification/Framing.thy ===== *)
theory Framing
  imports Secretbox Byte_Stream
begin

text \<open>
  \<open>src/src/network.rs\<close>: the length-prefixed frames (\<open>encode_frame\<close>, \<open>read_frame\<close>), the counters of a session's
  encryption (\<open>Encrypt\<close>) and the stream that composes them (\<open>FramedStream\<close>). \<open>usize\<close> is 32 bits wide, as on the i686 target, which is what the header
  computation needs; a length is a natural number.
\<close>

section \<open>Frames\<close>

definition encode_header :: "nat \<Rightarrow> bytes" where
  "encode_header n =
     (if n \<le> 0x3F then [word_of_nat (push_bit 2 n)]
      else if n \<le> 0x3FFF then
        (let v = (word_of_nat (push_bit 2 n) :: u16) OR 1 in [ucast v, ucast (drop_bit 8 v)])
      else if n \<le> 0x3FFFFF then
        (let v = (word_of_nat (push_bit 2 n) :: u32) OR 2
         in [ucast v, ucast (drop_bit 8 v), ucast (drop_bit 16 v)])
      else if n \<le> 0x3FFFFFFF then
        (let v = (word_of_nat (push_bit 2 n) :: u32) OR 3
         in [ucast v, ucast (drop_bit 8 v), ucast (drop_bit 16 v), ucast (drop_bit 24 v)])
      else [])"

definition encode_frame :: "bytes \<Rightarrow> bytes \<Rightarrow> bytes" where
  "encode_frame data buf = buf @ encode_header (length data) @ data"

definition MAX_FRAME_LEN :: nat where
  "MAX_FRAME_LEN = 16 * 1024 * 1024"

definition PRE_LOGIN_MAX_FRAME_LEN :: nat where
  "PRE_LOGIN_MAX_FRAME_LEN = 4 * 1024 * 1024"

definition header_len :: "u8 \<Rightarrow> nat" where
  "header_len b = unat ((b AND 3) + 1)"

definition header_value :: "bytes \<Rightarrow> u32" where
  "header_value header =
     (let head_len = length header;
          n = ucast (header ! 0);
          n = (if head_len > 1 then n OR push_bit 8 (ucast (header ! 1)) else n);
          n = (if head_len > 2 then n OR push_bit 16 (ucast (header ! 2)) else n);
          n = (if head_len > 3 then n OR push_bit 24 (ucast (header ! 3)) else n)
      in drop_bit 2 n)"

definition read_frame :: "nat \<Rightarrow> bytes \<Rightarrow> (io_error + bytes) \<times> bytes" where
  "read_frame max_len s =
     (case read_exact 1 s of
        (Inl e, s) \<Rightarrow> (Inl e, s)
      | (Inr first, s) \<Rightarrow>
          (case (if header_len (first ! 0) > 1 then read_exact (header_len (first ! 0) - 1) s else (Inr [], s)) of
             (Inl e, s) \<Rightarrow> (Inl e, s)
           | (Inr more, s) \<Rightarrow>
               (let n = unat (header_value (first @ more))
                in if n > max_len then (Inl InvalidData, s) else read_exact n s)))"

section \<open>Session encryption\<close>

record encrypt =
  key :: bytes
  send_seq :: u64
  recv_seq :: u64

definition Encrypt_new :: "bytes \<Rightarrow> encrypt" where
  "Encrypt_new k = \<lparr>key = k, send_seq = 0, recv_seq = 0\<rparr>"

definition seq_nonce :: "u64 \<Rightarrow> bytes" where
  "seq_nonce seq = overwrite 0 (le_bytes 8 seq) (replicate 24 0)"

definition enc :: "encrypt \<Rightarrow> bytes \<Rightarrow> bytes \<times> encrypt" where
  "enc e data =
     (let e = e\<lparr>send_seq := send_seq e + 1\<rparr>
      in (secretbox_seal (key e) (seq_nonce (send_seq e)) data, e))"

definition dec :: "encrypt \<Rightarrow> bytes \<Rightarrow> (io_error + bytes) \<times> encrypt" where
  "dec e data =
     (let e = e\<lparr>recv_seq := recv_seq e + 1\<rparr>
      in (case secretbox_open (key e) (seq_nonce (recv_seq e)) data of
            None \<Rightarrow> Inl Other
          | Some m \<Rightarrow> Inr m, e))"

section \<open>The framed stream\<close>

record framed_stream =
  inp :: bytes
  out :: bytes
  encryption :: "encrypt option"
  max_frame_len :: nat

definition from_tcp :: "bytes \<Rightarrow> framed_stream" where
  "from_tcp s = \<lparr>inp = s, out = [], encryption = None, max_frame_len = MAX_FRAME_LEN\<rparr>"

definition set_key :: "bytes \<Rightarrow> framed_stream \<Rightarrow> framed_stream" where
  "set_key k s = s\<lparr>encryption := Some (Encrypt_new k)\<rparr>"

definition set_max_frame_len :: "nat \<Rightarrow> framed_stream \<Rightarrow> framed_stream" where
  "set_max_frame_len n s = s\<lparr>max_frame_len := n\<rparr>"

definition send_msg :: "bytes \<Rightarrow> framed_stream \<Rightarrow> framed_stream" where
  "send_msg data s =
     (let (payload, encryption') =
        (case encryption s of
           Some e \<Rightarrow> (let (c, e') = enc e data in (c, Some e'))
         | None \<Rightarrow> (data, None))
      in s\<lparr>encryption := encryption', out := out s @ encode_frame payload []\<rparr>)"

definition recv_msg :: "framed_stream \<Rightarrow> (io_error + bytes) \<times> framed_stream" where
  "recv_msg s =
     (case read_frame (max_frame_len s) (inp s) of
        (Inl e, rest) \<Rightarrow> (Inl e, s\<lparr>inp := rest\<rparr>)
      | (Inr raw, rest) \<Rightarrow>
          (case encryption s of
             Some e \<Rightarrow> (let (r, e') = dec e raw in (r, s\<lparr>inp := rest, encryption := Some e'\<rparr>))
           | None \<Rightarrow> (Inr raw, s\<lparr>inp := rest\<rparr>)))"

text \<open>\<open>try_clone\<close>: the descriptor is shared, the counters are copied.\<close>

definition try_clone :: "framed_stream \<Rightarrow> framed_stream" where
  "try_clone s =
     \<lparr>inp = inp s, out = out s,
      encryption = map_option (\<lambda>e. \<lparr>key = key e, send_seq = send_seq e, recv_seq = recv_seq e\<rparr>) (encryption s),
      max_frame_len = max_frame_len s\<rparr>"

text \<open>Several messages in a row, as a peer's loop sends and receives them; receiving stops at an error.\<close>

definition send_msgs :: "bytes list \<Rightarrow> framed_stream \<Rightarrow> framed_stream" where
  "send_msgs ms s = foldl (\<lambda>s m. send_msg m s) s ms"

primrec recv_msgs :: "nat \<Rightarrow> framed_stream \<Rightarrow> (io_error + bytes list) \<times> framed_stream" where
  "recv_msgs 0 s = (Inr [], s)"
| "recv_msgs (Suc n) s =
     (case recv_msg s of
        (Inl e, s') \<Rightarrow> (Inl e, s')
      | (Inr m, s') \<Rightarrow>
          (case recv_msgs n s' of
             (Inl e, s'') \<Rightarrow> (Inl e, s'')
           | (Inr ms, s'') \<Rightarrow> (Inr (m # ms), s'')))"

section \<open>The header\<close>

lemma byte_cases:
  assumes "0 < length h" "length h \<le> 4"
  obtains a where "h = [a]" | a b where "h = [a, b]" | a b c where "h = [a, b, c]"
    | a b c d where "h = [a, b, c, d]"
proof -
  have "length h = 1 \<or> length h = 2 \<or> length h = 3 \<or> length h = 4" using assms by linarith
  then show ?thesis using that by (auto simp: length_Suc_conv numeral_eq_Suc)
qed

lemma header_value_le_nat:
  assumes "0 < length h" "length h \<le> 4"
  shows "unat (header_value h) = le_nat h div 4"
proof -
  have up: "unat (ucast (x :: u8) :: u32) = unat x" for x by (rule unat_ucast_up) simp
  have d: "unat (drop_bit 2 (w :: u32)) = unat w div 4" for w by (simp only: unat_drop_bit) simp
  have B: "unat (x :: u8) < 256" for x by (rule unat_byte_less)
  have 1: "unat ((ucast (x :: u8) :: u32) OR push_bit 8 (ucast (y :: u8))) = unat x + unat y * 256" for x y
    using B[of x] B[of y] by (subst unat_or_push) (simp_all add: up)
  have 2: "unat ((ucast (x :: u8) :: u32) OR push_bit 8 (ucast (y :: u8)) OR push_bit 16 (ucast (z :: u8)))
      = unat x + unat y * 256 + unat z * 65536" for x y z
    using B[of x] B[of y] B[of z]
    by (subst or.assoc[symmetric], subst unat_or_push) (simp_all add: up 1)
  have 3: "unat ((ucast (x :: u8) :: u32) OR push_bit 8 (ucast (y :: u8)) OR push_bit 16 (ucast (z :: u8))
        OR push_bit 24 (ucast (w :: u8)))
      = unat x + unat y * 256 + unat z * 65536 + unat w * 16777216" for x y z w
    using B[of x] B[of y] B[of z] B[of w] 
    by (subst unat_or4) (simp_all add: up 1 2 or.assoc)
  show ?thesis
    using assms by (rule byte_cases) (simp_all add: header_value_def d up 1 2 3 or.assoc add.assoc del: drop_bit_or)
qed

lemma header_len_mod: "header_len b = unat b mod 4 + 1"
proof -
  have "unat (b AND 3) = unat b mod 2 ^ 2" by (rule unat_and_mask) simp
  moreover have "unat ((b AND 3) + 1) = unat (b AND 3) + unat (1 :: u8)"
    by (rule unat_add_small) (simp add: calculation)
  ultimately show ?thesis by (simp add: header_len_def)
qed

lemma header_word:
  assumes "4 * n + 3 < 2 ^ LENGTH('a::len)" "k < 4" "2 < LENGTH('a)" "unat l = k"
  shows "unat ((word_of_nat (push_bit 2 n) :: 'a word) OR l) = 4 * n + k"
proof -
  have e: "(word_of_nat (push_bit 2 n) :: 'a word) = push_bit 2 (word_of_nat n)"
    by (simp add: push_bit_eq_mult)
  have "unat (l OR push_bit 2 (word_of_nat n :: 'a word)) = unat l + unat (word_of_nat n :: 'a word) * 2 ^ 2"
    using assms by (intro unat_or_push) (simp_all add: unat_of_nat)
  then show ?thesis using assms by (simp add: e or.commute unat_of_nat)
qed

lemma encode_header_le_nat:
  assumes "n \<le> 0x3FFFFFFF"
  shows "0 < length (encode_header n)" "length (encode_header n) \<le> 4"
    and "le_nat (encode_header n) = 4 * n + (length (encode_header n) - 1)"
proof -
  show "0 < length (encode_header n)" "length (encode_header n) \<le> 4"
    using assms by (auto simp: encode_header_def Let_def)
  consider "n \<le> 0x3F" | "\<not> n \<le> 0x3F" "n \<le> 0x3FFF" | "\<not> n \<le> 0x3F" "\<not> n \<le> 0x3FFF" "n \<le> 0x3FFFFF"
    | "\<not> n \<le> 0x3F" "\<not> n \<le> 0x3FFF" "\<not> n \<le> 0x3FFFFF" by blast
  then show "le_nat (encode_header n) = 4 * n + (length (encode_header n) - 1)"
  proof cases
    case 1
    have "unat (word_of_nat (push_bit 2 n) OR 0 :: u8) = 4 * n + 0" by (rule header_word) (use 1 in simp_all)
    then show ?thesis using 1 by (simp add: encode_header_def)
  next
    case 2
    have "unat (word_of_nat (push_bit 2 n) OR 1 :: u16) = 4 * n + 1" by (rule header_word) (use 2 in simp_all)
    from le_nat_bytes(2)[OF this] show ?thesis using 2 by (simp only: encode_header_def Let_def if_False if_True) simp
  next
    case 3
    have "unat (word_of_nat (push_bit 2 n) OR 2 :: u32) = 4 * n + 2" by (rule header_word) (use 3 in simp_all)
    from le_nat_bytes(3)[OF this] show ?thesis using 3 by (simp only: encode_header_def Let_def if_False if_True) simp
  next
    case 4
    have "unat (word_of_nat (push_bit 2 n) OR 3 :: u32) = 4 * n + 3" by (rule header_word) (use assms in simp_all)
    from le_nat_bytes(4)[OF this] show ?thesis
      using 4 assms by (simp only: encode_header_def Let_def if_False if_True) simp
  qed
qed

lemma encode_header_decodes:
  assumes "n \<le> 0x3FFFFFFF"
  shows "header_len (encode_header n ! 0) = length (encode_header n)"
    and "unat (header_value (encode_header n)) = n"
proof -
  note e = encode_header_le_nat[OF assms]
  show "unat (header_value (encode_header n)) = n"
    using e by (simp add: header_value_le_nat)
  obtain b bs where bs: "encode_header n = b # bs" using e(1) by (cases "encode_header n") auto
  have "unat b mod 4 = le_nat (encode_header n) mod 4"
    unfolding bs by (simp add: mod_add_right_eq) presburger
  also have "\<dots> = length (encode_header n) - 1" using e by auto
  finally show "header_len (encode_header n ! 0) = length (encode_header n)"
    using e(1) by (simp add: bs header_len_mod)
qed


section \<open>Frames read back\<close>

text \<open>What a reader does with a header of one to four bytes in front of it.\<close>

lemma read_frame_header:
  assumes "h \<noteq> []" "header_len (h ! 0) = length h"
  shows "read_frame max_len (h @ s) =
    (if unat (header_value h) > max_len then (Inl InvalidData, s) else read_exact (unat (header_value h)) s)"
proof -
  obtain b bs where h: "h = b # bs" using assms(1) by (cases h) auto
  have "read_exact 1 (h @ s) = (Inr [b], bs @ s)" by (simp add: h read_exact_def)
  moreover have "(if header_len ([b] ! 0) > 1 then read_exact (header_len ([b] ! 0) - 1) (bs @ s) else (Inr [], bs @ s))
      = (Inr bs, s)"
    using assms(2) by (simp add: h read_exact_def)
  ultimately show ?thesis by (simp add: read_frame_def h)
qed

lemma read_frame_encode:
  assumes "length data \<le> 0x3FFFFFFF"
  shows "read_frame max_len (encode_frame data [] @ rest) =
    (if length data \<le> max_len then (Inr data, rest) else (Inl InvalidData, data @ rest))"
  using encode_header_decodes[OF assms] encode_header_le_nat(1)[OF assms]
    read_frame_header[of "encode_header (length data)" max_len "data @ rest"]
  by (simp add: encode_frame_def read_exact_append)

lemma read_frame_sound:
  assumes "read_frame max_len s = (Inr data, rest)"
  shows "length data \<le> max_len \<and>
    (\<exists>h. s = h @ data @ rest \<and> length h \<in> {1..4} \<and> header_len (h ! 0) = length h \<and> unat (header_value h) = length data)"
proof -
  from assms obtain first t where f: "read_exact 1 s = (Inr first, t)"
    by (auto simp: read_frame_def split: prod.splits sum.splits)
  then obtain b where b: "first = [b]" "s = b # t" by (auto simp: read_exact_eq length_Suc_conv)
  have hl: "1 \<le> header_len b" "header_len b \<le> 4" by (auto simp: header_len_mod)
  have "\<not> length t < header_len b - 1"
  proof
    assume "length t < header_len b - 1"
    then have "read_frame max_len (b # t) = (Inl UnexpectedEof, [])"
      using hl by (cases "header_len b = 1") (simp_all add: read_frame_def read_exact_def)
    then show False using assms b by simp
  qed
  then obtain more u where m: "t = more @ u" "length more = header_len b - 1"
    by (intro that[of "take (header_len b - 1) t" "drop (header_len b - 1) t"]) auto
  have h: "b # more \<noteq> []" "header_len ((b # more) ! 0) = length (b # more)" using m hl by auto
  have "read_frame max_len ((b # more) @ u) = (Inr data, rest)" using assms b m by simp
  then have "unat (header_value (b # more)) \<le> max_len" "u = data @ rest" "length data = unat (header_value (b # more))"
    unfolding read_frame_header[OF h] by (auto simp: read_exact_eq split: if_splits)
  then show ?thesis using b m h hl by (intro conjI exI[of _ "b # more"]) auto
qed

interpretation net_frame: frame_codec "\<lambda>m. encode_frame m []" "read_frame n" "\<lambda>m. length m \<le> min n 0x3FFFFFFF"
  for n
  by unfold_locales (simp add: read_frame_encode)

section \<open>Sessions\<close>

lemma length_seq_nonce: "length (seq_nonce seq) = 24"
  by (simp add: seq_nonce_def overwrite_def length_le_bytes)

lemma seq_nonce_inj: "seq_nonce i = seq_nonce j \<longleftrightarrow> i = j"
proof -
  have "take 8 (seq_nonce s) = le_bytes 8 s" for s by (simp add: seq_nonce_def overwrite_def length_le_bytes)
  moreover have "of_le (le_bytes 8 s) = s" for s :: u64 by (rule of_le_le_bytes) simp
  ultimately show ?thesis by metis
qed

lemma dec_iff:
  "fst (dec e c) = Inr m \<longleftrightarrow> c = secretbox_seal (key e) (seq_nonce (recv_seq e + 1)) m"
  by (auto simp: dec_def Let_def secretbox.unseal_iff[symmetric] split: option.splits)

lemma dec_seal:
  "dec e (secretbox_seal (key e) (seq_nonce (recv_seq e + 1)) m) = (Inr m, e\<lparr>recv_seq := recv_seq e + 1\<rparr>)"
  by (simp add: dec_def Let_def secretbox.unseal_seal)

text \<open>The payload a stream sends for a message, and the stream after it.\<close>

definition payload :: "framed_stream \<Rightarrow> bytes \<Rightarrow> bytes" where
  "payload s m = (case encryption s of None \<Rightarrow> m
     | Some e \<Rightarrow> secretbox_seal (key e) (seq_nonce (send_seq e + 1)) m)"

lemma length_payload: "length (payload s m) \<le> length m + 16"
  by (auto simp: payload_def secretbox.length_seal split: option.splits)

lemma send_msg_payload:
  "send_msg m s = s\<lparr>out := out s @ encode_frame (payload s m) [],
     encryption := map_option (\<lambda>e. e\<lparr>send_seq := send_seq e + 1\<rparr>) (encryption s)\<rparr>"
  by (auto simp: send_msg_def payload_def enc_def Let_def split: option.splits)

lemma recv_msg_frame:
  assumes "length p \<le> max_frame_len s" "length p \<le> 0x3FFFFFFF" "inp s = encode_frame p [] @ rest"
  shows "recv_msg s = (case encryption s of
      None \<Rightarrow> (Inr p, s\<lparr>inp := rest\<rparr>)
    | Some e \<Rightarrow> (fst (dec e p), s\<lparr>inp := rest, encryption := Some (e\<lparr>recv_seq := recv_seq e + 1\<rparr>)\<rparr>))"
  using assms by (auto simp: recv_msg_def read_frame_encode dec_def Let_def split: option.splits)

text \<open>The sender's and the receiver's ends agree on key and counter.\<close>

fun in_sync :: "framed_stream \<Rightarrow> framed_stream \<Rightarrow> bool" where
  "in_sync a b = (case (encryption a, encryption b) of
     (None, None) \<Rightarrow> True
   | (Some ea, Some eb) \<Rightarrow> key ea = key eb \<and> send_seq ea = recv_seq eb
   | _ \<Rightarrow> False)"

lemma send_recv_step:
  assumes "in_sync a b" "length m + 16 \<le> max_frame_len b" "max_frame_len b \<le> 0x3FFFFFFF"
    and "inp b = encode_frame (payload a m) [] @ rest"
  obtains b' where "recv_msg b = (Inr m, b')" "in_sync (send_msg m a) b'" "inp b' = rest"
    "max_frame_len b' = max_frame_len b"
proof -
  have "length (payload a m) \<le> max_frame_len b" using assms(2) length_payload[of a m] by linarith
  from recv_msg_frame[OF this _ assms(4)] this assms(1,3) show ?thesis
    by (intro that[of "snd (recv_msg b)"])
      (auto simp: send_msg_payload payload_def dec_seal[of _ m] dec_iff split: option.splits)
qed

lemma send_msgs_out: "\<exists>w. out (send_msgs ms s) = out s @ w"
proof (induction ms arbitrary: s)
  case (Cons m ms)
  obtain w where "out (send_msgs ms (send_msg m s)) = out (send_msg m s) @ w" using Cons.IH by blast
  then show ?case by (simp add: send_msgs_def send_msg_payload)
qed (simp add: send_msgs_def)

lemma session_delivers_all:
  assumes "in_sync a b" "\<forall>m\<in>set ms. length m + 16 \<le> max_frame_len b" "max_frame_len b \<le> 0x3FFFFFFF"
    and "out a @ inp b = out (send_msgs ms a) @ rest"
  shows "\<exists>b'. recv_msgs (length ms) b = (Inr ms, b') \<and> in_sync (send_msgs ms a) b' \<and> inp b' = rest"
  using assms
proof (induction ms arbitrary: a b)
  case Nil
  then show ?case by (simp add: send_msgs_def)
next
  case (Cons m ms)
  obtain w where w: "out (send_msgs ms (send_msg m a)) = out (send_msg m a) @ w"
    using send_msgs_out by blast
  have out: "out (send_msgs (m # ms) a) = out a @ encode_frame (payload a m) [] @ w"
    using w by (simp add: send_msgs_def send_msg_payload)
  then have inp: "inp b = encode_frame (payload a m) [] @ w @ rest" using Cons.prems(4) by simp
  obtain b' where b': "recv_msg b = (Inr m, b')" "in_sync (send_msg m a) b'" "inp b' = w @ rest"
    "max_frame_len b' = max_frame_len b"
    using send_recv_step[OF Cons.prems(1) _ Cons.prems(3) inp] Cons.prems(2) by force
  have "out (send_msg m a) @ inp b' = out (send_msgs ms (send_msg m a)) @ rest" using w b'(3) by simp
  then obtain b'' where "recv_msgs (length ms) b' = (Inr ms, b'')" "in_sync (send_msgs ms (send_msg m a)) b''"
    "inp b'' = rest"
    using Cons.IH[OF b'(2)] Cons.prems(2,3) b'(4) by auto
  then show ?case using b'(1) by (simp add: send_msgs_def)
qed


section \<open>Properties\<close>

text \<open>C9: A sender and a receiver in step, with or without a session key, deliver every sequence of messages: what
  the sender's \<open>send_msg\<close> calls wrote is read back by as many \<open>recv_msg\<close> calls as the same messages in the
  same order, the rest of the stream stays unread, and both ends agree on key and counter again. The
  bounds are the receiver's frame limit, less the 16 bytes of the tag, and the format's 30-bit length.\<close>

theorem session_delivery:
  assumes "in_sync a b" "\<forall>m\<in>set ms. length m + 16 \<le> max_frame_len b" "max_frame_len b \<le> 0x3FFFFFFF"
    and "out a @ inp b = out (send_msgs ms a) @ rest"
  shows "\<exists>b'. recv_msgs (length ms) b = (Inr ms, b') \<and> in_sync (send_msgs ms a) b' \<and> inp b' = rest"
  using assms by (rule session_delivers_all)

theorem session_delivery_witness:
  "\<exists>b'. recv_msgs (length [[1 :: u8, 2], []])
       (set_key [7] (from_tcp (out (send_msgs [[1, 2], []] (set_key [7] (from_tcp []))) @ [9])))
     = (Inr [[1, 2], []], b') \<and> in_sync (send_msgs [[1, 2], []] (set_key [7] (from_tcp []))) b' \<and> inp b' = [9]"
  by (rule session_delivery)
    (simp_all add: set_key_def from_tcp_def Encrypt_new_def MAX_FRAME_LEN_def)

text \<open>C10: On an encrypted stream a message is delivered exactly when the next frame is its sealing under the
  session key and the next counter: an altered, forged, reordered or replayed frame is not taken for a
  message. The counter advances whether or not the frame opens.\<close>

theorem session_authenticity:
  assumes "encryption s = Some e"
  shows "(fst (recv_msg s) = Inr m \<longleftrightarrow>
      (\<exists>rest. read_frame (max_frame_len s) (inp s)
         = (Inr (secretbox_seal (key e) (seq_nonce (recv_seq e + 1)) m), rest))) \<and>
    (isl (fst (read_frame (max_frame_len s) (inp s))) \<or>
      encryption (snd (recv_msg s)) = Some (e\<lparr>recv_seq := recv_seq e + 1\<rparr>))"
proof (cases "read_frame (max_frame_len s) (inp s)")
  case (Pair r rest)
  show ?thesis
  proof (cases r)
    case (Inl x)
    then show ?thesis using Pair assms by (simp add: recv_msg_def)
  next
    case (Inr raw)
    have "recv_msg s = (fst (dec e raw), s\<lparr>inp := rest, encryption := Some (e\<lparr>recv_seq := recv_seq e + 1\<rparr>)\<rparr>)"
      using Pair Inr assms by (simp add: recv_msg_def dec_def Let_def)
    then show ?thesis using Pair Inr by (simp add: dec_iff)
  qed
qed

theorem session_authenticity_witness:
  "fst (recv_msg (set_key [1] (from_tcp []))) \<noteq> Inr []"
  using session_authenticity[of "set_key [1] (from_tcp [])" "Encrypt_new [1]" "[]"]
  by (simp add: set_key_def from_tcp_def read_frame_def read_exact_def)

text \<open>C37: Every frame of up to \<open>2 ^ 30 - 1\<close> bytes reads back: the reader returns the data and leaves what
  follows it, or, when the data is over its limit, fails with \<open>InvalidData\<close> and leaves the data unread
  in the stream. The four header widths are covered.\<close>

theorem frame_roundtrip:
  assumes "length data \<le> 0x3FFFFFFF"
  shows "read_frame max_len (encode_frame data [] @ rest) =
    (if length data \<le> max_len then (Inr data, rest) else (Inl InvalidData, data @ rest))"
  using assms by (rule read_frame_encode)

theorem frame_roundtrip_witness:
  "read_frame 2 (encode_frame [1, 2, 3] [] @ [4]) = (Inl InvalidData, [1, 2, 3, 4])"
  using frame_roundtrip[of "[1, 2, 3]" 2 "[4]"] by simp

text \<open>Whatever bytes a peer sends, a frame that is read is no longer than the limit, and it is what stood
  in the stream behind a header of one to four bytes that gives its own width and the frame's length.\<close>

theorem frame_read_sound:
  assumes "read_frame max_len s = (Inr data, rest)"
  shows "length data \<le> max_len \<and>
    (\<exists>h. s = h @ data @ rest \<and> length h \<in> {1..4} \<and> header_len (h ! 0) = length h \<and>
       unat (header_value h) = length data)"
  using assms by (rule read_frame_sound)

theorem frame_read_sound_witness: "length [5 :: u8] \<le> 1"
  using frame_read_sound[of 1 "encode_frame [5] [] @ []" "[5]" "[]"] read_frame_encode[of "[5]" 1 "[]"] by simp

text \<open>Both ends of a session seal with one key and counters that start alike, so the first messages of the two
  directions, and so on for the later ones, are encrypted with the same keystream: the exclusive or of
  the two ciphertexts is that of the two messages.\<close>

theorem directions_share_keystream:
  assumes "encryption a = Some ea" "encryption b = Some eb" "key ea = key eb" "send_seq ea = send_seq eb"
    and "length m = length m'"
  shows "xor_bytes (drop 16 (payload a m)) (drop 16 (payload b m')) = xor_bytes m m'"
  using assms by (simp add: payload_def secretbox_keystream_reuse)

theorem directions_share_keystream_witness:
  "xor_bytes (drop 16 (payload (set_key [3] (from_tcp [])) [1])) (drop 16 (payload (set_key [3] (from_tcp [])) [2])) = [3]"
  using directions_share_keystream[of "set_key [3] (from_tcp [])" "Encrypt_new [3]" "set_key [3] (from_tcp [])"
      "Encrypt_new [3]" "[1]" "[2]"]
  by (simp add: set_key_def from_tcp_def xor_bytes_def)

end
