(* ===== verification/Block_Hash.thy ===== *)
theory Block_Hash
  imports Prelude
begin

text \<open>
  The interface between a block function and the hash built on it. The four hashes of the source
  (SHA-256 and SHA-512 in \<open>src/src/crypto.rs\<close>, MD5 and SHA-1 in \<open>src/src/turn.rs\<close>) all promise the same: the
  digest of a message is the digest of the block function folded over the padded message.
  \<open>md_pad\<close> is that reference padding: the byte 0x80, the fewest zero bytes that make room, and the length field.
  The locale states the contract; its lemmas serve the code that calls a hash without knowing
  which one (HMAC, password hashing, key masks).
\<close>

definition md_pad :: "nat \<Rightarrow> bytes \<Rightarrow> bytes \<Rightarrow> bytes" where
  "md_pad bs lenfield msg =
     msg @ [0x80]
       @ replicate ((bs - (length msg + 1 + length lenfield) mod bs) mod bs) 0
       @ lenfield"

lemma length_md_pad_dvd:
  assumes "0 < bs"
  shows "bs dvd length (md_pad bs lenfield msg)"
proof -
  let ?n = "length msg + 1 + length lenfield"
  have "(?n + (bs - ?n mod bs) mod bs) mod bs = 0"
  proof (cases "?n mod bs = 0")
    case False
    then have "(bs - ?n mod bs) mod bs = bs - ?n mod bs" using assms by simp
    moreover have "?n + (bs - ?n mod bs) = bs * (?n div bs) + bs"
      using mult_div_mod_eq[of bs ?n] mod_less_divisor[OF assms, of ?n] by linarith
    ultimately show ?thesis by simp
  qed simp
  moreover have "length (md_pad bs lenfield msg) = ?n + (bs - ?n mod bs) mod bs"
    by (simp add: md_pad_def)
  ultimately show ?thesis by (simp only: dvd_eq_mod_eq_0)
qed

text \<open>The zero run of a 64-byte block with an 8-byte length field.\<close>

lemma pad_zeros_64:
  assumes "L mod 64 = (n :: nat)"
  shows "(64 - (L + 1 + 8) mod 64) mod 64 = (if n \<le> 55 then 55 - n else 119 - n)"
proof -
  have n: "n < 64" using assms by auto
  have "(L + 1 + 8) mod 64 = (n + 9) mod 64"
    using assms by (metis add.assoc mod_add_left_eq numeral_plus_one one_add_one add.commute
        numeral_Bit1 numeral_plus_numeral semiring_norm(3) numeral_One)
  moreover have "(64 - (n + 9) mod 64) mod 64 = (if n \<le> 55 then 55 - n else 119 - n)"
  proof (cases "n < 55")
    case False
    then have "n = 55 \<or> (n + 9) mod 64 = n - 55" using n by (auto simp: le_mod_geq)
    then show ?thesis using False n by auto
  qed auto
  ultimately show ?thesis by simp
qed

locale md_hash =
  fixes block :: "'s \<Rightarrow> bytes \<Rightarrow> 's"
    and iv :: 's
    and bs :: nat
    and lenfield :: "nat \<Rightarrow> bytes"
    and digest :: "'s \<Rightarrow> bytes"
    and wf :: "'s \<Rightarrow> bool"
    and dlen :: nat
    and hash :: "bytes \<Rightarrow> bytes"
  assumes bs_pos: "0 < bs"
    and wf_iv: "wf iv"
    and wf_block: "wf s \<Longrightarrow> wf (block s b)"
    and length_digest: "wf s \<Longrightarrow> length (digest s) = dlen"
    and hash_padded: "hash m = digest (absorb bs block iv (md_pad bs (lenfield (length m)) m))"
begin

lemma wf_absorb: "wf s \<Longrightarrow> wf (absorb bs block s data)"
  by (rule absorb_invariant) (auto intro: wf_block)

lemma length_hash: "length (hash m) = dlen"
  by (simp add: hash_padded length_digest wf_absorb wf_iv)

text \<open>A prefix of whole blocks can be absorbed once and its state reused.\<close>

lemma hash_midstate:
  assumes "bs dvd length p"
  shows "hash (p @ m) = digest (absorb bs block (absorb bs block iv p)
           (m @ drop (length p + length m) (md_pad bs (lenfield (length p + length m)) (p @ m))))"
  using absorb_append[OF bs_pos assms, of block iv]
  by (simp add: hash_padded md_pad_def)

lemma hash_cong_midstate:
  assumes "bs dvd length p" "length p = length q" "absorb bs block iv p = absorb bs block iv q"
  shows "hash (p @ m) = hash (q @ m)"
  using hash_midstate[OF assms(1), of m] hash_midstate[of q m] assms
  by (simp add: md_pad_def)

end

end
