(* ===== verification/Sha2.thy ===== *)
theory Sha2
  imports Block_Hash
begin

text \<open>
  \<open>src/src/crypto.rs\<close>, SHA-256 (the incremental \<open>Sha256\<close> of the password and key hashing) and SHA-512
  (the one-shot \<open>sha512\<close> of Ed25519). Machine words keep their width; \<open>wrapping_add\<close> is word
  addition. The state keeps the fixed buffer with its stale bytes, as the code does. The lemmas show
  that any split of a message into \<open>update\<close> calls gives the digest of the padded whole, and that both
  hashes meet the contract of \<open>Block_Hash\<close>.
\<close>

section \<open>SHA-256\<close>

record sha256 =
  sha_state :: "u32 list"
  sha_buf :: bytes
  sha_buf_len :: nat
  sha_total_len :: u64

text \<open>The sixty-four constants, a row of the source at a time.\<close>

definition K256 :: "u32 list" where
  "K256 = concat [
    [0x428a2f98, 0x71374491, 0xb5c0fbcf, 0xe9b5dba5, 0x3956c25b, 0x59f111f1, 0x923f82a4],
    [0xab1c5ed5, 0xd807aa98, 0x12835b01, 0x243185be, 0x550c7dc3, 0x72be5d74, 0x80deb1fe],
    [0x9bdc06a7, 0xc19bf174, 0xe49b69c1, 0xefbe4786, 0x0fc19dc6, 0x240ca1cc, 0x2de92c6f],
    [0x4a7484aa, 0x5cb0a9dc, 0x76f988da, 0x983e5152, 0xa831c66d, 0xb00327c8, 0xbf597fc7],
    [0xc6e00bf3, 0xd5a79147, 0x06ca6351, 0x14292967, 0x27b70a85, 0x2e1b2138, 0x4d2c6dfc],
    [0x53380d13, 0x650a7354, 0x766a0abb, 0x81c2c92e, 0x92722c85, 0xa2bfe8a1, 0xa81a664b],
    [0xc24b8b70, 0xc76c51a3, 0xd192e819, 0xd6990624, 0xf40e3585, 0x106aa070, 0x19a4c116],
    [0x1e376c08, 0x2748774c, 0x34b0bcb5, 0x391c0cb3, 0x4ed8aa4a, 0x5b9cca4f, 0x682e6ff3],
    [0x748f82ee, 0x78a5636f, 0x84c87814, 0x8cc70208, 0x90befffa, 0xa4506ceb, 0xbef9a3f7],
    [0xc67178f2]]"

definition sha256_iv :: "u32 list" where
  "sha256_iv = [
    0x6a09e667, 0xbb67ae85, 0x3c6ef372, 0xa54ff53a, 0x510e527f, 0x9b05688c,
    0x1f83d9ab, 0x5be0cd19]"

definition sha256_new :: sha256 where
  "sha256_new =
     \<lparr>sha_state = sha256_iv, sha_buf = replicate 64 0, sha_buf_len = 0, sha_total_len = 0\<rparr>"

definition sha256_schedule_step :: "nat \<Rightarrow> u32 list \<Rightarrow> u32 list" where
  "sha256_schedule_step i w =
     (let s0 = word_rotr 7 (w ! (i - 15)) XOR word_rotr 18 (w ! (i - 15)) XOR drop_bit 3 (w ! (i - 15));
          s1 = word_rotr 17 (w ! (i - 2)) XOR word_rotr 19 (w ! (i - 2)) XOR drop_bit 10 (w ! (i - 2))
      in w[i := w ! (i - 16) + s0 + w ! (i - 7) + s1])"

definition sha256_schedule :: "bytes \<Rightarrow> u32 list" where
  "sha256_schedule block =
     fold sha256_schedule_step [16..<64]
       (map (\<lambda>i. of_be [block ! (i * 4), block ! (i * 4 + 1), block ! (i * 4 + 2), block ! (i * 4 + 3)])
          [0..<16] @ replicate 48 0)"

definition sha256_round ::
    "u32 list \<Rightarrow> nat \<Rightarrow> u32 \<times> u32 \<times> u32 \<times> u32 \<times> u32 \<times> u32 \<times> u32 \<times> u32
      \<Rightarrow> u32 \<times> u32 \<times> u32 \<times> u32 \<times> u32 \<times> u32 \<times> u32 \<times> u32" where
  "sha256_round w i = (\<lambda>(a, b, c, d, e, f, g, h).
     let s1 = word_rotr 6 e XOR word_rotr 11 e XOR word_rotr 25 e;
         ch = (e AND f) XOR (NOT e AND g);
         temp1 = h + s1 + ch + K256 ! i + w ! i;
         s0 = word_rotr 2 a XOR word_rotr 13 a XOR word_rotr 22 a;
         maj = (a AND b) XOR (a AND c) XOR (b AND c);
         temp2 = s0 + maj
     in (temp1 + temp2, a, b, c, d + temp1, e, f, g))"

definition sha256_compress :: "u32 list \<Rightarrow> bytes \<Rightarrow> u32 list" where
  "sha256_compress state block =
     (let w = sha256_schedule block;
          (a, b, c, d, e, f, g, h) =
            fold (sha256_round w) [0..<64]
              (state ! 0, state ! 1, state ! 2, state ! 3, state ! 4, state ! 5, state ! 6, state ! 7)
      in [state ! 0 + a, state ! 1 + b, state ! 2 + c, state ! 3 + d,
          state ! 4 + e, state ! 5 + f, state ! 6 + g, state ! 7 + h])"

text \<open>The block loop and the tail that is kept for the next call.\<close>

definition sha256_feed :: "sha256 \<Rightarrow> bytes \<Rightarrow> sha256" where
  "sha256_feed s data =
     (let s = s\<lparr>sha_state := absorb 64 sha256_compress (sha_state s) data\<rparr>;
          rest = block_rest 64 data
      in if rest \<noteq> [] then
           s\<lparr>sha_buf := overwrite 0 rest (sha_buf s), sha_buf_len := length rest\<rparr>
         else s)"

definition sha256_update :: "sha256 \<Rightarrow> bytes \<Rightarrow> sha256" where
  "sha256_update s data =
     (let s = s\<lparr>sha_total_len := sha_total_len s + of_nat (length data)\<rparr>
      in if 0 < sha_buf_len s then
           let need = 64 - sha_buf_len s
           in if length data < need then
                s\<lparr>sha_buf := overwrite (sha_buf_len s) data (sha_buf s),
                  sha_buf_len := sha_buf_len s + length data\<rparr>
              else
                let block = overwrite (sha_buf_len s) (take need data) (sha_buf s)
                in sha256_feed
                     (s\<lparr>sha_buf := block,
                        sha_state := sha256_compress (sha_state s) block, sha_buf_len := 0\<rparr>)
                     (drop need data)
         else sha256_feed s data)"

definition sha256_digest :: "u32 list \<Rightarrow> bytes" where
  "sha256_digest state = concat (map (be_bytes 4) state)"

definition sha256_finalize :: "sha256 \<Rightarrow> bytes" where
  "sha256_finalize s =
     (let bit_len = sha_total_len s * 8;
          buf = (sha_buf s)[sha_buf_len s := 0x80];
          n = sha_buf_len s + 1;
          (state, buf, n) =
            (if 56 < n then
               (sha256_compress (sha_state s) (overwrite n (replicate (64 - n) 0) buf),
                overwrite n (replicate (64 - n) 0) buf, 0)
             else (sha_state s, buf, n));
          buf = overwrite n (replicate (56 - n) 0) buf;
          buf = overwrite 56 (be_bytes 8 bit_len) buf
      in sha256_digest (sha256_compress state buf))"

definition compute_password_hash :: "bytes \<Rightarrow> bytes \<Rightarrow> bytes \<Rightarrow> bytes" where
  "compute_password_hash password salt challenge =
     (let h1 = sha256_update (sha256_update sha256_new password) salt;
          d1 = sha256_finalize h1;
          h2 = sha256_update (sha256_update sha256_new d1) challenge
      in sha256_finalize h2)"

section \<open>SHA-512\<close>

text \<open>The eighty constants, likewise.\<close>

definition K512 :: "u64 list" where
  "K512 = concat [
    [0x428a2f98d728ae22, 0x7137449123ef65cd, 0xb5c0fbcfec4d3b2f, 0xe9b5dba58189dbbc],
    [0x3956c25bf348b538, 0x59f111f1b605d019, 0x923f82a4af194f9b, 0xab1c5ed5da6d8118],
    [0xd807aa98a3030242, 0x12835b0145706fbe, 0x243185be4ee4b28c, 0x550c7dc3d5ffb4e2],
    [0x72be5d74f27b896f, 0x80deb1fe3b1696b1, 0x9bdc06a725c71235, 0xc19bf174cf692694],
    [0xe49b69c19ef14ad2, 0xefbe4786384f25e3, 0x0fc19dc68b8cd5b5, 0x240ca1cc77ac9c65],
    [0x2de92c6f592b0275, 0x4a7484aa6ea6e483, 0x5cb0a9dcbd41fbd4, 0x76f988da831153b5],
    [0x983e5152ee66dfab, 0xa831c66d2db43210, 0xb00327c898fb213f, 0xbf597fc7beef0ee4],
    [0xc6e00bf33da88fc2, 0xd5a79147930aa725, 0x06ca6351e003826f, 0x142929670a0e6e70],
    [0x27b70a8546d22ffc, 0x2e1b21385c26c926, 0x4d2c6dfc5ac42aed, 0x53380d139d95b3df],
    [0x650a73548baf63de, 0x766a0abb3c77b2a8, 0x81c2c92e47edaee6, 0x92722c851482353b],
    [0xa2bfe8a14cf10364, 0xa81a664bbc423001, 0xc24b8b70d0f89791, 0xc76c51a30654be30],
    [0xd192e819d6ef5218, 0xd69906245565a910, 0xf40e35855771202a, 0x106aa07032bbd1b8],
    [0x19a4c116b8d2d0c8, 0x1e376c085141ab53, 0x2748774cdf8eeb99, 0x34b0bcb5e19b48a8],
    [0x391c0cb3c5c95a63, 0x4ed8aa4ae3418acb, 0x5b9cca4f7763e373, 0x682e6ff3d6b2b8a3],
    [0x748f82ee5defb2fc, 0x78a5636f43172f60, 0x84c87814a1f0ab72, 0x8cc702081a6439ec],
    [0x90befffa23631e28, 0xa4506cebde82bde9, 0xbef9a3f7b2c67915, 0xc67178f2e372532b],
    [0xca273eceea26619c, 0xd186b8c721c0c207, 0xeada7dd6cde0eb1e, 0xf57d4f7fee6ed178],
    [0x06f067aa72176fba, 0x0a637dc5a2c898a6, 0x113f9804bef90dae, 0x1b710b35131c471b],
    [0x28db77f523047d84, 0x32caab7b40c72493, 0x3c9ebe0a15c9bebc, 0x431d67c49c100d4c],
    [0x4cc5d4becb3e42b6, 0x597f299cfc657e2a, 0x5fcb6fab3ad6faec, 0x6c44198c4a475817]]"

definition sha512_iv :: "u64 list" where
  "sha512_iv = [
    0x6a09e667f3bcc908, 0xbb67ae8584caa73b,
    0x3c6ef372fe94f82b, 0xa54ff53a5f1d36f1,
    0x510e527fade682d1, 0x9b05688c2b3e6c1f,
    0x1f83d9abfb41bd6b, 0x5be0cd19137e2179]"

definition sha512_schedule_step :: "nat \<Rightarrow> u64 list \<Rightarrow> u64 list" where
  "sha512_schedule_step i w =
     (let s0 = word_rotr 1 (w ! (i - 15)) XOR word_rotr 8 (w ! (i - 15)) XOR drop_bit 7 (w ! (i - 15));
          s1 = word_rotr 19 (w ! (i - 2)) XOR word_rotr 61 (w ! (i - 2)) XOR drop_bit 6 (w ! (i - 2))
      in w[i := w ! (i - 16) + s0 + w ! (i - 7) + s1])"

definition sha512_schedule :: "bytes \<Rightarrow> u64 list" where
  "sha512_schedule block =
     fold sha512_schedule_step [16..<80]
       (map (\<lambda>i. of_be [block ! (i * 8), block ! (i * 8 + 1), block ! (i * 8 + 2), block ! (i * 8 + 3),
                        block ! (i * 8 + 4), block ! (i * 8 + 5), block ! (i * 8 + 6), block ! (i * 8 + 7)])
          [0..<16] @ replicate 64 0)"

definition sha512_round ::
    "u64 list \<Rightarrow> nat \<Rightarrow> u64 \<times> u64 \<times> u64 \<times> u64 \<times> u64 \<times> u64 \<times> u64 \<times> u64
      \<Rightarrow> u64 \<times> u64 \<times> u64 \<times> u64 \<times> u64 \<times> u64 \<times> u64 \<times> u64" where
  "sha512_round w i = (\<lambda>(a, b, c, d, e, f, g, h).
     let s1 = word_rotr 14 e XOR word_rotr 18 e XOR word_rotr 41 e;
         ch = (e AND f) XOR (NOT e AND g);
         temp1 = h + s1 + ch + K512 ! i + w ! i;
         s0 = word_rotr 28 a XOR word_rotr 34 a XOR word_rotr 39 a;
         maj = (a AND b) XOR (a AND c) XOR (b AND c);
         temp2 = s0 + maj
     in (temp1 + temp2, a, b, c, d + temp1, e, f, g))"

definition sha512_compress :: "u64 list \<Rightarrow> bytes \<Rightarrow> u64 list" where
  "sha512_compress state block =
     (let w = sha512_schedule block;
          (a, b, c, d, e, f, g, h) =
            fold (sha512_round w) [0..<80]
              (state ! 0, state ! 1, state ! 2, state ! 3, state ! 4, state ! 5, state ! 6, state ! 7)
      in [state ! 0 + a, state ! 1 + b, state ! 2 + c, state ! 3 + d,
          state ! 4 + e, state ! 5 + f, state ! 6 + g, state ! 7 + h])"

definition sha512_digest :: "u64 list \<Rightarrow> bytes" where
  "sha512_digest state = concat (map (be_bytes 8) state)"

text \<open>
  \<open>bit_len\<close> is a \<open>u128\<close>. The padded tail is one block when the rest, the 0x80 byte and the 16 length
  bytes fit in 128 bytes, two blocks otherwise.
\<close>

definition sha512 :: "bytes \<Rightarrow> bytes" where
  "sha512 data =
     (let state = absorb 128 sha512_compress sha512_iv data;
          rest = block_rest 128 data;
          bit_len = (of_nat (length data) :: 128 word) * 8;
          buf = overwrite 0 rest (replicate 256 0);
          buf = buf[length rest := 0x80];
          padded_len = (if length rest + 17 \<le> 128 then 128 else 256);
          buf = overwrite (padded_len - 16) (be_bytes 16 bit_len) buf
      in sha512_digest (absorb 128 sha512_compress state (take padded_len buf)))"

section \<open>The digest depends on the message only\<close>

definition sha256_lenfield :: "nat \<Rightarrow> bytes" where
  "sha256_lenfield n = be_bytes 8 (of_nat n * 8 :: u64)"

definition sha256_reference :: "bytes \<Rightarrow> bytes" where
  "sha256_reference m =
     sha256_digest (absorb 64 sha256_compress sha256_iv (md_pad 64 (sha256_lenfield (length m)) m))"

text \<open>What the state records of the message read so far; bytes of the buffer past
  \<open>sha_buf_len\<close> are stale and unconstrained.\<close>

definition sha256_rep :: "sha256 \<Rightarrow> bytes \<Rightarrow> bool" where
  "sha256_rep s m \<longleftrightarrow>
     sha_state s = absorb 64 sha256_compress sha256_iv m \<and>
     sha_buf_len s = length m mod 64 \<and>
     take (sha_buf_len s) (sha_buf s) = block_rest 64 m \<and>
     length (sha_buf s) = 64 \<and>
     sha_total_len s = of_nat (length m)"

lemma sha256_rep_new: "sha256_rep sha256_new []"
  by (simp add: sha256_rep_def sha256_new_def)

lemma absorb_resume:
  "absorb 64 f (absorb 64 f s m) (block_rest 64 m @ d) = absorb 64 f s (m @ d)"
  by (simp add: absorb_block_rest)

lemma sha256_feed_rep:
  assumes "sha_state s = absorb 64 sha256_compress sha256_iv m" "64 dvd length m"
    and "length (sha_buf s) = 64" "sha_buf_len s = 0"
    and "sha_total_len s = of_nat (length (m @ d))"
  shows "sha256_rep (sha256_feed s d) (m @ d)"
proof -
  have st: "absorb 64 sha256_compress (sha_state s) d = absorb 64 sha256_compress sha256_iv (m @ d)"
    using assms by (simp add: absorb_append)
  have rest: "block_rest 64 (m @ d) = block_rest 64 d" using assms by (simp add: block_rest_blocks)
  have len: "length (m @ d) mod 64 = length (block_rest 64 d)"
    using assms(2) by (auto simp: length_block_rest elim!: dvdE)
  have "length (block_rest 64 d) < 64" by (simp add: length_block_rest)
  then show ?thesis
    using assms st rest len
    by (cases "block_rest 64 d = []")
      (simp_all add: sha256_rep_def sha256_feed_def Let_def overwrite_def)
qed

lemma sha256_update_rep:
  assumes "sha256_rep s m"
  shows "sha256_rep (sha256_update s d) (m @ d)"
proof (cases "0 < sha_buf_len s")
  case False
  then have "length m mod 64 = 0" using assms by (simp add: sha256_rep_def)
  then have dvd: "64 dvd length m" by (simp add: dvd_eq_mod_eq_0)
  let ?s = "s\<lparr>sha_total_len := sha_total_len s + of_nat (length d)\<rparr>"
  have "sha256_rep (sha256_feed ?s d) (m @ d)"
    by (rule sha256_feed_rep[OF _ dvd]) (use assms False in \<open>simp_all add: sha256_rep_def\<close>)
  then show ?thesis using False by (simp add: sha256_update_def)
next
  case buf: True
  let ?k = "sha_buf_len s" and ?r = "block_rest 64 m"
  have k: "?k < 64" "?k = length m mod 64" "?k = length ?r" "length (sha_buf s) = 64"
    using assms by (auto simp: sha256_rep_def length_block_rest)
  show ?thesis
  proof (cases "length d < 64 - ?k")
    case True
    then have short: "length (?r @ d) < 64" using k by simp
    have st: "absorb 64 sha256_compress sha256_iv (m @ d) = absorb 64 sha256_compress sha256_iv m"
      using absorb_resume[of sha256_compress sha256_iv m d] short by simp
    have rest: "block_rest 64 (m @ d) = ?r @ d"
      using short block_rest_append[of 64 m d] by simp
    have "length (m @ d) mod 64 = (length m mod 64 + length d) mod 64"
      by (simp add: mod_add_left_eq)
    then have "length (m @ d) mod 64 = length m mod 64 + length d"
      using True k by simp
    then show ?thesis
      using True buf assms k
      by (simp add: sha256_update_def sha256_rep_def Let_def st rest)
  next
    case False
    let ?h = "take (64 - ?k) d" and ?t = "drop (64 - ?k) d"
    let ?b = "overwrite ?k ?h (sha_buf s)"
    have b: "?b = ?r @ ?h"
      using False k assms by (simp add: overwrite_all sha256_rep_def)
    have lenb: "length (?r @ ?h) = 64" using False k by simp
    have st: "sha256_compress (sha_state s) ?b = absorb 64 sha256_compress sha256_iv (m @ ?h)"
    proof -
      have "sha_state s = absorb 64 sha256_compress sha256_iv m"
        using assms by (simp add: sha256_rep_def)
      moreover have "absorb 64 sha256_compress (sha_state s) (?r @ ?h) = sha256_compress (sha_state s) (?r @ ?h)"
        by (rule absorb_one[OF _ lenb]) simp
      ultimately show ?thesis
        unfolding b using absorb_resume[of sha256_compress sha256_iv m ?h] by argo
    qed
    have "(length m mod 64 + (64 - ?k)) mod 64 = 0" using k by simp
    then have dvd: "64 dvd length (m @ ?h)"
      using False by (simp add: dvd_eq_mod_eq_0 mod_add_left_eq)
    have "sha256_rep (sha256_update s d) ((m @ ?h) @ ?t)"
      unfolding sha256_update_def Let_def using buf False
      by (simp del: append_assoc append_take_drop_id,
          intro sha256_feed_rep dvd)
        (use st assms k lenb b in \<open>simp_all add: sha256_rep_def\<close>)
    then show ?thesis by simp
  qed
qed

lemma sha256_finalize_rep:
  assumes "sha256_rep s m"
  shows "sha256_finalize s = sha256_reference m"
proof -
  define n r lf z where "n = sha_buf_len s" and "r = block_rest 64 m"
    and "lf = sha256_lenfield (length m)" and "z = (64 - (length m + 1 + 8) mod 64) mod 64"
  have n: "n < 64" "n = length m mod 64" "n = length r" "length (sha_buf s) = 64"
    "take n (sha_buf s) = r"
    using assms by (auto simp: sha256_rep_def length_block_rest n_def r_def)
  note n' = n(1,3,4,5)
  have lf: "length lf = 8" by (simp add: sha256_lenfield_def lf_def)
  have pad: "md_pad 64 lf m = m @ ([0x80] @ replicate z 0 @ lf)" by (simp add: md_pad_def lf z_def)
  have mark: "(sha_buf s)[n := 0x80] = (r @ [0x80]) @ drop (Suc n) (sha_buf s)"
    using n' by (simp add: upd_conv_take_nth_drop)
  have ref: "sha256_reference m = sha256_digest (absorb 64 sha256_compress (sha_state s)
      (r @ [0x80] @ replicate z 0 @ lf))"
    using assms
    by (simp only: sha256_reference_def lf_def[symmetric] pad sha256_rep_def absorb_resume r_def)
  have total: "be_bytes 8 (sha_total_len s * 8) = lf"
    using assms by (simp add: sha256_rep_def sha256_lenfield_def lf_def)
  show ?thesis
  proof (cases "56 < n + 1")
    case False
    then have z: "z = 55 - n" using pad_zeros_64[OF n(2)[symmetric]] unfolding z_def by simp
    have b: "overwrite 56 lf (overwrite (n + 1) (replicate (56 - (n + 1)) 0) ((sha_buf s)[n := 0x80]))
          = r @ [0x80] @ replicate z 0 @ lf"
      unfolding mark using False n' z by (simp add: overwrite_def lf take_Cons')
    have len: "length (r @ [0x80] @ replicate z 0 @ lf) = 64" using False n' z lf by simp
    have "sha256_finalize s = sha256_digest (sha256_compress (sha_state s) (r @ [0x80] @ replicate z 0 @ lf))"
      using False by (simp add: sha256_finalize_def Let_def total n_def[symmetric] b[simplified])
    then show ?thesis by (simp only: ref absorb_one[OF _ len])
  next
    case True
    then have z: "z = (63 - n) + 56"
      using n(1) pad_zeros_64[OF n(2)[symmetric]] unfolding z_def by simp
    define b1 where "b1 = r @ [0x80] @ replicate (63 - n) (0 :: u8)"
    have b1: "overwrite (n + 1) (replicate (64 - (n + 1)) 0) ((sha_buf s)[n := 0x80]) = b1"
      unfolding mark using True n' by (simp add: overwrite_def b1_def)
    have len1: "length b1 = 64" and len2: "length (replicate 56 0 @ lf) = 64"
      using n' lf by (simp_all add: b1_def)
    then have b2: "overwrite 56 lf (overwrite 0 (replicate 56 0) b1) = replicate 56 0 @ lf"
      using lf by (simp add: overwrite_def)
    have "r @ [0x80] @ replicate z 0 @ lf = b1 @ (replicate 56 0 @ lf)"
      by (simp add: z replicate_add b1_def)
    moreover have "sha256_finalize s =
        sha256_digest (sha256_compress (sha256_compress (sha_state s) b1) (replicate 56 0 @ lf))"
      using True by (simp add: sha256_finalize_def Let_def total n_def[symmetric] b1[simplified] b2)
    ultimately show ?thesis
      by (simp only: ref absorb_block[OF _ len1] absorb_one[OF _ len2])
  qed
qed

lemma sha256_rep_fold: "sha256_rep s m \<Longrightarrow> sha256_rep (foldl sha256_update s parts) (m @ concat parts)"
proof (induction parts arbitrary: s m)
  case (Cons a parts)
  from Cons.IH[OF sha256_update_rep[OF Cons.prems, of a]] show ?case by simp
qed simp

definition sha256_once :: "bytes \<Rightarrow> bytes" where
  "sha256_once m = sha256_finalize (sha256_update sha256_new m)"

lemma sha256_once_reference: "sha256_once m = sha256_reference m"
  using sha256_finalize_rep[OF sha256_update_rep[OF sha256_rep_new]] by (simp add: sha256_once_def)

lemma sha256_parts: "sha256_finalize (foldl sha256_update sha256_new parts) = sha256_once (concat parts)"
  using sha256_finalize_rep[OF sha256_rep_fold[OF sha256_rep_new, of parts]]
  by (simp add: sha256_once_reference)

lemma length_sha256_compress [simp, len_simps]: "length (sha256_compress s b) = 8"
  by (simp add: sha256_compress_def Let_def split: prod.split)

lemma length_concat_be: "length (concat (map (be_bytes n) ws)) = n * length ws"
  by (induction ws) auto

section \<open>SHA-512 pads and folds\<close>

definition sha512_lenfield :: "nat \<Rightarrow> bytes" where
  "sha512_lenfield n = be_bytes 16 (of_nat n * 8 :: 128 word)"

lemma pad_zeros_128:
  assumes "L mod 128 = (n :: nat)"
  shows "(128 - (L + 1 + 16) mod 128) mod 128 = (if n + 17 \<le> 128 then 111 - n else 239 - n)"
proof -
  have n: "n < 128" using assms by auto
  have "(L + 1 + 16) mod 128 = (L mod 128 + 17) mod 128"
    unfolding mod_add_left_eq by (simp add: add.commute)
  then have "(L + 1 + 16) mod 128 = (n + 17) mod 128" using assms by simp
  moreover have "(128 - (n + 17) mod 128) mod 128 = (if n + 17 \<le> 128 then 111 - n else 239 - n)"
  proof (cases "n < 111")
    case False
    then have "n = 111 \<or> (n + 17) mod 128 = n - 111" using n by (auto simp: le_mod_geq)
    then show ?thesis using False n by auto
  qed auto
  ultimately show ?thesis by simp
qed

lemma sha512_padded:
  "sha512 data =
     sha512_digest (absorb 128 sha512_compress sha512_iv
       (md_pad 128 (sha512_lenfield (length data)) data))"
proof -
  define n r lf z where "n = length (block_rest 128 data)" and "r = block_rest 128 data"
    and "lf = sha512_lenfield (length data)" and "z = (128 - (length data + 1 + 16) mod 128) mod 128"
  have n: "n < 128" "length data mod 128 = n" "length r = n"
    by (simp_all add: n_def r_def length_block_rest)
  have lf: "length lf = 16" by (simp add: lf_def sha512_lenfield_def)
  have pad: "md_pad 128 lf data = data @ (r' @ [0x80] @ replicate z 0 @ lf)" if "r' = []" for r'
    using that by (simp add: md_pad_def lf z_def)
  have ref: "absorb 128 sha512_compress sha512_iv (md_pad 128 lf data)
      = absorb 128 sha512_compress (absorb 128 sha512_compress sha512_iv data)
          (r @ [0x80] @ replicate z 0 @ lf)"
    using absorb_block_rest[of 128 sha512_compress sha512_iv data "[0x80] @ replicate z 0 @ lf"]
    by (simp add: pad[of "[]", simplified] r_def)
  have z: "z = (if n + 17 \<le> 128 then 111 - n else 239 - n)"
    unfolding z_def by (rule pad_zeros_128[OF n(2)])
  have mark: "(overwrite 0 r (replicate 256 0))[n := 0x80] = r @ [0x80] @ replicate (255 - n) 0"
  proof -
    have "replicate (256 - n) (0 :: u8) = 0 # replicate (255 - n) 0"
      using n(1) by (cases "256 - n") (auto simp del: replicate.simps simp: replicate_Suc)
    then show ?thesis using n(3) by (simp add: overwrite_def list_update_append)
  qed
  have tail: "take pl (overwrite (pl - 16) lf (r @ [0x80] @ replicate (255 - n) 0))
       = r @ [0x80] @ replicate z 0 @ lf" if "pl = (if n + 17 \<le> 128 then 128 else 256)" for pl
    using n(1,3) lf that by (simp add: z overwrite_def take_Cons')
  show ?thesis
    unfolding sha512_def Let_def lf_def[symmetric] ref
    unfolding r_def[symmetric] n(3) mark
    by (subst tail[symmetric]) (simp_all add: lf_def sha512_lenfield_def)
qed

lemma length_sha512_compress [simp, len_simps]: "length (sha512_compress s b) = 8"
  by (simp add: sha512_compress_def Let_def split: prod.split)

section \<open>Both hashes meet the contract\<close>

interpretation sha256_hash: md_hash sha256_compress sha256_iv 64 sha256_lenfield sha256_digest
  "\<lambda>s. length s = 8" 32 sha256_once
  by unfold_locales
    (simp_all add: sha256_iv_def sha256_digest_def length_concat_be sha256_once_reference sha256_reference_def)

interpretation sha512_hash: md_hash sha512_compress sha512_iv 128 sha512_lenfield sha512_digest
  "\<lambda>s. length s = 8" 64 sha512
  by unfold_locales (simp_all add: sha512_iv_def sha512_digest_def length_concat_be sha512_padded)

lemmas length_sha256 [simp, len_simps] = sha256_hash.length_hash
lemmas length_sha512 [simp, len_simps] = sha512_hash.length_hash

section \<open>Properties\<close>

text \<open>C30: However a message is cut into pieces, feeding the pieces to the streaming SHA-256 and finalizing gives
  the digest of the whole message as the padded-block definition computes it: the 64-byte buffer, the
  running length and the one or two final blocks of \<open>finalize\<close> are right for every length.\<close>

theorem sha256_streaming:
  "sha256_finalize (foldl sha256_update sha256_new parts) = sha256_reference (concat parts)"
  by (simp add: sha256_parts sha256_once_reference)

text \<open>The answer to a password challenge is the SHA-256 of the salted password's SHA-256 followed by the
  challenge, so it depends on the password only through the stored salted digest.\<close>

theorem password_hash_reference:
  "compute_password_hash password salt challenge =
     sha256_reference (sha256_reference (password @ salt) @ challenge)"
proof -
  have two: "sha256_finalize (sha256_update (sha256_update sha256_new a) b) = sha256_reference (a @ b)" for a b
    using sha256_parts[of "[a, b]"] by (simp add: sha256_once_reference)
  then show ?thesis by (simp add: compute_password_hash_def Let_def)
qed

text \<open>The one-shot SHA-512, with its block loop and its hand-written one or two padding blocks, is the fold of
  the compression function over the padded message with the 128-bit length.\<close>

theorem sha512_reference:
  "sha512 data = sha512_digest (absorb 128 sha512_compress sha512_iv (md_pad 128 (sha512_lenfield (length data)) data)) \<and>
   length (sha512 data) = 64"
  by (simp add: sha512_padded[symmetric] sha512_hash.length_hash)

end
