(* ===== verification/Legacy_Hash.thy ===== *)
theory Legacy_Hash
  imports Block_Hash
begin

text \<open>
  \<open>src/src/turn.rs\<close>, lines 14 to 137: MD5 and SHA-1 over a whole message and HMAC-SHA1, which sign the
  TURN requests. The message is padded by the code's push loop and cut into 64-byte chunks. The lemmas show that
  the loop computes the reference padding, that both hashes meet the contract of \<open>Block_Hash\<close>, and that
  HMAC is the two-pass construction over key blocks of 64 bytes.
\<close>

section \<open>The padding loop\<close>

text \<open>\<open>while msg.len() % 64 != 56 { msg.push(0); }\<close>\<close>

function pad_zeros :: "bytes \<Rightarrow> bytes" where
  "pad_zeros msg = (if length msg mod 64 = 56 then msg else pad_zeros (msg @ [0]))"
  by pat_completeness auto
termination
proof (relation "measure (\<lambda>msg. (120 - length msg mod 64) mod 64)")
  fix msg :: bytes assume *: "length msg mod 64 \<noteq> 56"
  define n where "n = length msg mod 64"
  have n: "n < 64" "n \<noteq> 56" using * by (simp_all add: n_def)
  have step: "length (msg @ [0]) mod 64 = (if n = 63 then 0 else n + 1)"
    unfolding n_def by (simp add: mod_Suc)
  have "(120 - (if n = 63 then 0 else n + 1)) mod 64 < (120 - n) mod 64"
    using n by (cases "n < 56") (auto simp: le_mod_geq)
  then show "(msg @ [0], msg) \<in> measure (\<lambda>msg. (120 - length msg mod 64) mod 64)"
    by (simp only: in_measure step n_def[symmetric])
qed simp

declare pad_zeros.simps [simp del]

lemma pad_zeros_eq:
  "pad_zeros msg = msg @ replicate ((120 - length msg mod 64) mod 64) 0"
proof (induction msg rule: pad_zeros.induct)
  case (1 msg)
  define n where "n = length msg mod 64"
  have n: "n < 64" by (simp add: n_def)
  have step: "length (msg @ [0]) mod 64 = (if n = 63 then 0 else n + 1)"
    unfolding n_def by (simp add: mod_Suc)
  show ?case
  proof (cases "n = 56")
    case True
    then show ?thesis by (simp add: pad_zeros.simps[of msg] n_def)
  next
    case False
    then have "(120 - n) mod 64 = Suc ((120 - length (msg @ [0]) mod 64) mod 64)"
      unfolding step using n by (cases "n < 56") (auto simp: le_mod_geq)
    moreover have "pad_zeros msg = pad_zeros (msg @ [0])"
      using False by (simp add: pad_zeros.simps[of msg] n_def)
    ultimately show ?thesis using 1 False by (simp add: n_def)
  qed
qed

lemma pad_zeros_md_pad:
  assumes "length lf = 8"
  shows "pad_zeros (msg @ [0x80]) @ lf = md_pad 64 lf msg"
proof -
  define n where "n = length msg mod 64"
  have n: "n < 64" by (simp add: n_def)
  have "length (msg @ [0x80 :: u8]) mod 64 = (if n = 63 then 0 else n + 1)"
    unfolding n_def by (simp add: mod_Suc)
  then have "(120 - length (msg @ [0x80 :: u8]) mod 64) mod 64 = (if n \<le> 55 then 55 - n else 119 - n)"
    using n by (cases "n < 55") (auto simp: le_mod_geq)
  then show ?thesis
    using pad_zeros_64[of "length msg" n] assms by (simp add: md_pad_def pad_zeros_eq n_def)
qed

section \<open>MD5\<close>

definition md5_S :: "nat list" where
  "md5_S = [
        7, 12, 17, 22, 7, 12, 17, 22, 7, 12, 17, 22, 7, 12, 17, 22,
        5, 9, 14, 20, 5, 9, 14, 20, 5, 9, 14, 20, 5, 9, 14, 20,
        4, 11, 16, 23, 4, 11, 16, 23, 4, 11, 16, 23, 4, 11, 16, 23,
        6, 10, 15, 21, 6, 10, 15, 21, 6, 10, 15, 21, 6, 10, 15, 21]"

definition md5_K :: "u32 list" where
  "md5_K = [
        0xd76aa478, 0xe8c7b756, 0x242070db, 0xc1bdceee,
        0xf57c0faf, 0x4787c62a, 0xa8304613, 0xfd469501,
        0x698098d8, 0x8b44f7af, 0xffff5bb1, 0x895cd7be,
        0x6b901122, 0xfd987193, 0xa679438e, 0x49b40821,
        0xf61e2562, 0xc040b340, 0x265e5a51, 0xe9b6c7aa,
        0xd62f105d, 0x02441453, 0xd8a1e681, 0xe7d3fbc8,
        0x21e1cde6, 0xc33707d6, 0xf4d50d87, 0x455a14ed,
        0xa9e3e905, 0xfcefa3f8, 0x676f02d9, 0x8d2a4c8a,
        0xfffa3942, 0x8771f681, 0x6d9d6122, 0xfde5380c,
        0xa4beea44, 0x4bdecfa9, 0xf6bb4b60, 0xbebfbc70,
        0x289b7ec6, 0xeaa127fa, 0xd4ef3085, 0x04881d05,
        0xd9d4d039, 0xe6db99e5, 0x1fa27cf8, 0xc4ac5665,
        0xf4292244, 0x432aff97, 0xab9423a7, 0xfc93a039,
        0x655b59c3, 0x8f0ccc92, 0xffeff47d, 0x85845dd1,
        0x6fa87e4f, 0xfe2ce6e0, 0xa3014314, 0x4e0811a1,
        0xf7537e82, 0xbd3af235, 0x2ad7d2bb, 0xeb86d391]"

definition md5_round :: "u32 list \<Rightarrow> nat \<Rightarrow> u32 \<times> u32 \<times> u32 \<times> u32 \<Rightarrow> u32 \<times> u32 \<times> u32 \<times> u32" where
  "md5_round m i = (\<lambda>(a, b, c, d).
     let (f, g) =
           (if i \<le> 15 then ((b AND c) OR (NOT b AND d), i)
            else if i \<le> 31 then ((d AND b) OR (NOT d AND c), (5 * i + 1) mod 16)
            else if i \<le> 47 then (b XOR c XOR d, (3 * i + 5) mod 16)
            else (c XOR (b OR NOT d), (7 * i) mod 16))
     in (d, b + word_rotl (md5_S ! i) (a + f + md5_K ! i + m ! g), b, c))"

definition md5_block :: "u32 \<times> u32 \<times> u32 \<times> u32 \<Rightarrow> bytes \<Rightarrow> u32 \<times> u32 \<times> u32 \<times> u32" where
  "md5_block = (\<lambda>(h0, h1, h2, h3) chunk.
     let m = map (\<lambda>i. of_le [chunk ! (4 * i), chunk ! (4 * i + 1), chunk ! (4 * i + 2), chunk ! (4 * i + 3)])
               [0..<16];
         (a, b, c, d) = fold (md5_round m) [0..<64] (h0, h1, h2, h3)
     in (h0 + a, h1 + b, h2 + c, h3 + d))"

definition md5_iv :: "u32 \<times> u32 \<times> u32 \<times> u32" where
  "md5_iv = (0x67452301, 0xefcdab89, 0x98badcfe, 0x10325476)"

definition md5_digest :: "u32 \<times> u32 \<times> u32 \<times> u32 \<Rightarrow> bytes" where
  "md5_digest = (\<lambda>(h0, h1, h2, h3). le_bytes 4 h0 @ le_bytes 4 h1 @ le_bytes 4 h2 @ le_bytes 4 h3)"

definition md5 :: "bytes \<Rightarrow> bytes" where
  "md5 input =
     (let bit_len = (of_nat (length input) :: u64) * 8;
          msg = pad_zeros (input @ [0x80]) @ le_bytes 8 bit_len
      in md5_digest (foldl md5_block md5_iv (chunks_of 64 msg)))"

section \<open>SHA-1\<close>

definition sha1_schedule_step :: "nat \<Rightarrow> u32 list \<Rightarrow> u32 list" where
  "sha1_schedule_step i w =
     w[i := word_rotl 1 (w ! (i - 3) XOR w ! (i - 8) XOR w ! (i - 14) XOR w ! (i - 16))]"

definition sha1_round ::
    "u32 list \<Rightarrow> nat \<Rightarrow> u32 \<times> u32 \<times> u32 \<times> u32 \<times> u32 \<Rightarrow> u32 \<times> u32 \<times> u32 \<times> u32 \<times> u32" where
  "sha1_round w i = (\<lambda>(a, b, c, d, e).
     let (f, k) =
           (if i \<le> 19 then ((b AND c) OR (NOT b AND d), 0x5A827999)
            else if i \<le> 39 then (b XOR c XOR d, 0x6ED9EBA1)
            else if i \<le> 59 then ((b AND c) OR (b AND d) OR (c AND d), 0x8F1BBCDC)
            else (b XOR c XOR d, 0xCA62C1D6));
         temp = word_rotl 5 a + f + e + k + w ! i
     in (temp, a, word_rotl 30 b, c, d))"

definition sha1_block ::
    "u32 \<times> u32 \<times> u32 \<times> u32 \<times> u32 \<Rightarrow> bytes \<Rightarrow> u32 \<times> u32 \<times> u32 \<times> u32 \<times> u32" where
  "sha1_block = (\<lambda>(h0, h1, h2, h3, h4) chunk.
     let w = fold sha1_schedule_step [16..<80]
               (map (\<lambda>i. of_be [chunk ! (4 * i), chunk ! (4 * i + 1), chunk ! (4 * i + 2), chunk ! (4 * i + 3)])
                  [0..<16] @ replicate 64 0);
         (a, b, c, d, e) = fold (sha1_round w) [0..<80] (h0, h1, h2, h3, h4)
     in (h0 + a, h1 + b, h2 + c, h3 + d, h4 + e))"

definition sha1_iv :: "u32 \<times> u32 \<times> u32 \<times> u32 \<times> u32" where
  "sha1_iv = (0x67452301, 0xEFCDAB89, 0x98BADCFE, 0x10325476, 0xC3D2E1F0)"

definition sha1_digest :: "u32 \<times> u32 \<times> u32 \<times> u32 \<times> u32 \<Rightarrow> bytes" where
  "sha1_digest = (\<lambda>(h0, h1, h2, h3, h4).
     be_bytes 4 h0 @ be_bytes 4 h1 @ be_bytes 4 h2 @ be_bytes 4 h3 @ be_bytes 4 h4)"

definition sha1 :: "bytes \<Rightarrow> bytes" where
  "sha1 input =
     (let bit_len = (of_nat (length input) :: u64) * 8;
          msg = pad_zeros (input @ [0x80]) @ be_bytes 8 bit_len
      in sha1_digest (foldl sha1_block sha1_iv (chunks_of 64 msg)))"

section \<open>HMAC-SHA1\<close>

text \<open>\<open>k.resize(64, 0)\<close> truncates or appends zeros.\<close>

definition resize :: "nat \<Rightarrow> bytes \<Rightarrow> bytes" where
  "resize n k = take n k @ replicate (n - length k) 0"

definition hmac_sha1 :: "bytes \<Rightarrow> bytes \<Rightarrow> bytes" where
  "hmac_sha1 key data =
     (let k = resize 64 (if 64 < length key then sha1 key else key);
          ipad = xor_bytes (replicate 64 0x36) k;
          opad = xor_bytes (replicate 64 0x5C) k;
          inner_hash = sha1 (ipad @ data)
      in sha1 (opad @ inner_hash))"

section \<open>Both hashes meet the contract\<close>

definition md5_lenfield :: "nat \<Rightarrow> bytes" where
  "md5_lenfield n = le_bytes 8 (of_nat n * 8 :: u64)"

definition sha1_lenfield :: "nat \<Rightarrow> bytes" where
  "sha1_lenfield n = be_bytes 8 (of_nat n * 8 :: u64)"

lemma md5_padded:
  "md5 m = md5_digest (absorb 64 md5_block md5_iv (md_pad 64 (md5_lenfield (length m)) m))"
  by (simp add: md5_def Let_def pad_zeros_md_pad md5_lenfield_def fold_chunks_absorb length_md_pad_dvd)

lemma sha1_padded:
  "sha1 m = sha1_digest (absorb 64 sha1_block sha1_iv (md_pad 64 (sha1_lenfield (length m)) m))"
  by (simp add: sha1_def Let_def pad_zeros_md_pad sha1_lenfield_def fold_chunks_absorb length_md_pad_dvd)

interpretation md5_hash: md_hash md5_block md5_iv 64 md5_lenfield md5_digest "\<lambda>_. True" 16 md5
  by unfold_locales (simp_all add: md5_digest_def md5_padded split: prod.splits)

interpretation sha1_hash: md_hash sha1_block sha1_iv 64 sha1_lenfield sha1_digest "\<lambda>_. True" 20 sha1
  by unfold_locales (simp_all add: sha1_digest_def sha1_padded split: prod.splits)

lemmas length_md5 [simp, len_simps] = md5_hash.length_hash
lemmas length_sha1 [simp, len_simps] = sha1_hash.length_hash

lemma length_resize [simp, len_simps]: "length (resize n k) = n"
  by (simp add: resize_def)

lemma length_hmac_sha1 [simp, len_simps]: "length (hmac_sha1 key data) = 20"
  by (simp add: hmac_sha1_def Let_def)

section \<open>Properties\<close>

text \<open>MD5, SHA-1 and HMAC-SHA1 of the TURN client: the byte-by-byte zero padding ends, it is the padding of the
  standard, and the HMAC is the nested SHA-1 on the padded key, with a key over 64 bytes replaced by its
  digest.\<close>

theorem turn_hashes_reference:
  "md5 m = md5_digest (absorb 64 md5_block md5_iv (md_pad 64 (md5_lenfield (length m)) m)) \<and>
   sha1 m = sha1_digest (absorb 64 sha1_block sha1_iv (md_pad 64 (sha1_lenfield (length m)) m)) \<and>
   hmac_sha1 k m =
     (let k' = (if 64 < length k then sha1 k @ replicate 44 0 else k @ replicate (64 - length k) 0)
      in sha1 (xor_bytes (replicate 64 0x5c) k' @ sha1 (xor_bytes (replicate 64 0x36) k' @ m)))"
proof -
  have "hmac_sha1 k m =
     (let k' = (if 64 < length k then sha1 k @ replicate 44 0 else k @ replicate (64 - length k) 0)
      in sha1 (xor_bytes (replicate 64 0x5c) k' @ sha1 (xor_bytes (replicate 64 0x36) k' @ m)))"
    by (simp add: hmac_sha1_def resize_def Let_def)
  then show ?thesis using md5_padded sha1_padded by blast
qed

end
