(* ===== verification/Websocket.thy ===== *)
theory Websocket
  imports Byte_Stream Utf8 Word_Nat
begin

text \<open>
  \<open>src/src/websocket.rs\<close>: the frames of the signalling connection. The plain and the TLS client
  (\<open>WsClient\<close>, \<open>WssClient\<close>) have the same text for each operation; the stream under them is a byte list.
  Masks come from the random generator and are arguments. \<open>usize\<close> is 32 bits wide on the i686 target, and
  the release build masks a shift by 32 or more to its low five bits, which the eight-byte length depends on.
\<close>

section \<open>Sending\<close>

type_synonym usize = u32

text \<open>\<open>len >> k\<close> on \<open>usize\<close> in a release build.\<close>

definition usize_shr :: "usize \<Rightarrow> nat \<Rightarrow> usize" where
  "usize_shr w k = drop_bit (k mod 32) w"

definition apply_mask :: "bytes \<Rightarrow> bytes \<Rightarrow> bytes" where
  "apply_mask mk payload = map (\<lambda>i. payload ! i XOR mk ! (i mod 4)) [0..<length payload]"

definition text_header :: "nat \<Rightarrow> bytes" where
  "text_header n =
     (let len = word_of_nat n :: usize in
      if len < 126 then [0x80 OR ucast len]
      else if len \<le> 65535 then [0x80 OR 126, ucast (usize_shr len 8), ucast len]
      else [0x80 OR 127] @ map (\<lambda>i. ucast (usize_shr len (i * 8))) (rev [0..<8]))"

definition send_text :: "bytes \<Rightarrow> rstr \<Rightarrow> bytes" where
  "send_text mk msg =
     (let payload = utf8 msg
      in [0x81] @ text_header (length payload) @ mk @ apply_mask mk payload)"

definition send_pong :: "bytes \<Rightarrow> bytes \<Rightarrow> bytes" where
  "send_pong mk payload = [0x8A, 0x80 OR ucast (word_of_nat (length payload) :: usize)] @ mk @ apply_mask mk payload"

section \<open>Receiving\<close>

definition WS_MAX :: u64 where
  "WS_MAX = 16 * 1024 * 1024"

text \<open>The length: its seven bits, or the two or eight bytes that follow.\<close>

definition read_length :: "u8 \<Rightarrow> bytes \<Rightarrow> (io_error + u64) \<times> bytes" where
  "read_length b s =
     (let len = ucast (b AND 0x7F) :: u64
      in if len = 126 then
           (case read_exact 2 s of (Inl e, s) \<Rightarrow> (Inl e, s) | (Inr ext, s) \<Rightarrow> (Inr (ucast (of_be ext :: u16)), s))
         else if len = 127 then
           (case read_exact 8 s of (Inl e, s) \<Rightarrow> (Inl e, s) | (Inr ext, s) \<Rightarrow> (Inr (of_be ext), s))
         else (Inr len, s))"

definition read_frame_ws :: "bytes \<Rightarrow> (io_error + u8 \<times> bytes) \<times> bytes" where
  "read_frame_ws s =
     (case read_exact 2 s of
        (Inl e, s) \<Rightarrow> (Inl e, s)
      | (Inr header, s) \<Rightarrow>
          let opcode = header ! 0 AND 0x0F;
              masked = (header ! 1 AND 0x80) \<noteq> 0
          in (case read_length (header ! 1) s of
                (Inl e, s) \<Rightarrow> (Inl e, s)
              | (Inr len, s) \<Rightarrow>
                  if len > WS_MAX then (Inl InvalidData, s)
                  else (case (if masked then read_exact 4 s else (Inr [], s)) of
                    (Inl e, s) \<Rightarrow> (Inl e, s)
                  | (Inr mk, s) \<Rightarrow>
                      (case read_exact (unat len) s of
                         (Inl e, s) \<Rightarrow> (Inl e, s)
                       | (Inr payload, s) \<Rightarrow>
                           (Inr (opcode, if masked then apply_mask mk payload else payload), s)))))"

lemma read_frame_ws_shorter: "read_frame_ws s = (Inr r, t) \<Longrightarrow> length t < length s"
  by (auto simp: read_frame_ws_def read_length_def read_exact_def Let_def split: prod.splits sum.splits if_splits)

text \<open>\<open>recv_text\<close>: frames are read until a text or a close frame; a ping is answered. The bytes written are
  collected, each pong with the next of the masks given.\<close>

function recv_text :: "bytes list \<Rightarrow> bytes \<Rightarrow> bytes \<Rightarrow> (io_error + rstr) \<times> bytes \<times> bytes" where
  "recv_text masks s out =
     (case read_frame_ws s of
        (Inl e, s') \<Rightarrow> (Inl e, s', out)
      | (Inr (opcode, payload), s') \<Rightarrow>
          if opcode = 0x1 then
            (case from_utf8 payload of None \<Rightarrow> (Inl InvalidData, s', out) | Some t \<Rightarrow> (Inr t, s', out))
          else if opcode = 0x8 then (Inl ConnectionReset, s', out)
          else if opcode = 0x9 then
            recv_text (tl masks) s' (out @ send_pong (if masks = [] then replicate 4 0 else hd masks) payload)
          else recv_text masks s' out)"
  by pat_completeness auto
termination
  by (relation "measure (\<lambda>(masks, s, out). length s)") (auto dest!: read_frame_ws_shorter[OF sym])

declare recv_text.simps [simp del]

section \<open>The handshake\<close>

text \<open>\<open>contains\<close> and \<open>starts_with\<close> on what has arrived, which is ASCII where they look.\<close>

fun contains :: "bytes \<Rightarrow> bytes \<Rightarrow> bool" where
  "contains needle [] = (needle = [])"
| "contains needle (c # cs) = (take (length needle) (c # cs) = needle \<or> contains needle cs)"

datatype handshake = Upgraded | Refused | Closed | TooLarge | Pending

definition RESP_BUF :: nat where
  "RESP_BUF = 1024"

text \<open>One turn of the loop: what arrived so far, and the bytes of the next read, at most what the buffer still
  holds. Text that is not UTF-8 counts as empty.\<close>

definition handshake_step :: "bytes \<Rightarrow> bytes \<Rightarrow> handshake \<times> bytes" where
  "handshake_step got chunk =
     (if chunk = [] then (Closed, got)
      else
        let got = got @ chunk;
            s = (case from_utf8 got of None \<Rightarrow> [] | Some _ \<Rightarrow> got)
        in if length got \<ge> 4 \<and> contains [13, 10, 13, 10] s
           then (if take 12 s = ascii ''HTTP/1.1 101'' then (Upgraded, got) else (Refused, got))
           else if length got \<ge> RESP_BUF then (TooLarge, got)
           else (Pending, got))"

fun handshake_loop :: "bytes \<Rightarrow> bytes list \<Rightarrow> handshake \<times> bytes" where
  "handshake_loop got [] = (Pending, got)"
| "handshake_loop got (chunk # chunks) =
     (case handshake_step got (take (RESP_BUF - length got) chunk) of
        (Pending, got) \<Rightarrow> handshake_loop got chunks
      | r \<Rightarrow> r)"

section \<open>The frames read back\<close>

lemma apply_mask_twice: "apply_mask mk (apply_mask mk payload) = payload"
  by (auto simp: apply_mask_def xor.assoc intro!: nth_equalityI)

lemma length_apply_mask [simp]: "length (apply_mask mk payload) = length payload"
  by (simp add: apply_mask_def)

lemma unat_usize: "n < 2 ^ 32 \<Longrightarrow> unat (word_of_nat n :: usize) = n"
  by (simp add: unat_of_nat)

lemma unat_or_128: "unat (b :: u8) < 128 \<Longrightarrow> unat (0x80 OR b) = 128 + unat b"
proof -
  assume b: "unat b < 128"
  have "0x80 OR b = b OR push_bit 7 1" by (simp add: or.commute)
  moreover have "unat (b OR push_bit 7 1) = unat b + unat (1 :: u8) * 2 ^ 7" using b by (intro unat_or_push) auto
  ultimately show ?thesis by simp
qed

lemma masked_bits:
  assumes "unat (b :: u8) < 128"
  shows "(0x80 OR b) AND 0x80 \<noteq> 0" "(0x80 OR b) AND 0x7F = b"
proof -
  have n: "\<not> bit b i" if "7 \<le> i" for i
    using bit_word_less[of b i 7] assms that by auto
  have c: "bit (0x80 :: u8) i \<longleftrightarrow> i = 7" "bit (0x7F :: u8) i \<longleftrightarrow> i < 7" if "i < 8" for i
  proof -
    have "(0x80 :: u8) = push_bit 7 1" "(0x7F :: u8) = mask 7" by (simp_all add: mask_eq_exp_minus_1)
    then show "bit (0x80 :: u8) i \<longleftrightarrow> i = 7" "bit (0x7F :: u8) i \<longleftrightarrow> i < 7"
      using that by (simp_all only: bit_push_bit_iff bit_mask_iff bit_1_iff) auto
  qed
  have "bit ((0x80 OR b) AND 0x80) 7" by (simp add: bit_and_iff bit_or_iff c)
  then show "(0x80 OR b) AND 0x80 \<noteq> 0" by auto
  show "(0x80 OR b) AND 0x7F = b"
    by (rule bit_word_eqI) (use c n in \<open>force simp: bit_and_iff bit_or_iff\<close>)
qed

lemma read_length_short:
  assumes "n < 126"
  shows "read_length (0x80 OR ucast (word_of_nat n :: usize)) s = (Inr (word_of_nat n), s)"
proof -
  define b where "b = (ucast (word_of_nat n :: usize) :: u8)"
  have b: "unat b = n" using assms by (simp add: b_def unat_ucast_mod unat_of_nat)
  then have m: "(0x80 OR b) AND 0x7F = b" using assms by (intro masked_bits) simp
  have l: "(ucast b :: u64) = word_of_nat n" using assms by (simp add: word_unat_eq_iff unat_ucast_up b unat_of_nat)
  have "(word_of_nat n :: u64) \<noteq> 126" "(word_of_nat n :: u64) \<noteq> 127"
    using assms by (auto simp: word_unat_eq_iff unat_of_nat)
  then show ?thesis unfolding b_def[symmetric] by (simp add: read_length_def m l)
qed

lemma unat_of_be: "length bs * 8 \<le> LENGTH('a) \<Longrightarrow> unat (of_be bs :: 'a::len word) = le_nat (rev bs)"
  unfolding of_be_def by (rule unat_of_le) simp

lemma read_length_medium:
  assumes "n \<le> 65535"
  shows "read_length (0x80 OR 126) ([ucast (usize_shr (word_of_nat n) 8), ucast (word_of_nat n :: usize)] @ s)
    = (Inr (word_of_nat n), s)"
proof -
  let ?ext = "[ucast (usize_shr (word_of_nat n) 8), ucast (word_of_nat n :: usize)] :: bytes"
  have "unat (of_be ?ext :: u16) = le_nat (rev ?ext)" by (rule unat_of_be) simp
  also have "\<dots> = n mod 65536"
    using le_nat_bytes(2)[of "word_of_nat n :: usize" n] assms by (simp add: usize_shr_def unat_of_nat)
  finally have "unat (of_be ?ext :: u16) = n" using assms by simp
  then have "(ucast (of_be ?ext :: u16) :: u64) = word_of_nat n"
    using assms by (simp add: word_unat_eq_iff unat_ucast_up unat_of_nat)
  moreover have "((0x80 OR 126) AND 0x7F :: u8) = 126" by simp
  ultimately show ?thesis by (simp add: read_length_def read_exact_def)
qed

text \<open>The eight-byte length of a longer message, as the shifts on 32 bits make it.\<close>

lemma read_length_long:
  assumes "n < 2 ^ 32"
  shows "\<exists>len. read_length (0x80 OR 127)
      (map (\<lambda>i. ucast (usize_shr (word_of_nat n) (i * 8))) (rev [0..<8]) @ s) = (Inr len, s) \<and>
    unat len = n + n * 2 ^ 32"
proof -
  let ?w = "word_of_nat n :: usize"
  let ?ext = "map (\<lambda>i. ucast (usize_shr ?w (i * 8))) (rev [0..<8]) :: bytes"
  let ?q = "[ucast ?w, ucast (drop_bit 8 ?w), ucast (drop_bit 16 ?w), ucast (drop_bit 24 ?w)] :: bytes"
  have up: "rev [0..<8] = [7, 6, 5, 4, 3, 2, 1, 0 :: nat]" by (simp add: upt_rec)
  have r: "rev ?ext = ?q @ ?q" unfolding up by (simp add: usize_shr_def)
  have q: "le_nat ?q = n"
    using le_nat_bytes(4)[of ?w n] assms by (simp add: unat_of_nat)
  have "unat (of_be ?ext :: u64) = le_nat (rev ?ext)" by (rule unat_of_be) simp
  also have "\<dots> = n + n * 2 ^ 32" unfolding r le_nat_append q by simp
  finally have u: "unat (of_be ?ext :: u64) = n + n * 2 ^ 32" .
  have "((0x80 OR 127) AND 0x7F :: u8) = 127" by simp
  moreover have "read_exact 8 (?ext @ s) = (Inr ?ext, s)" by (rule read_exact_append) simp
  ultimately have "read_length (0x80 OR 127) (?ext @ s) = (Inr (of_be ?ext), s)"
    by (simp add: read_length_def del: map_map rev_map upt_rec_numeral)
  then show ?thesis using u by blast
qed

lemma text_header_nonempty: "text_header n \<noteq> []"
  by (simp add: text_header_def Let_def)

lemma usize_cmp:
  assumes "n < 2 ^ 32"
  shows "(word_of_nat n :: usize) < 126 \<longleftrightarrow> n < 126" "(word_of_nat n :: usize) \<le> 65535 \<longleftrightarrow> n \<le> 65535"
  using assms by (simp_all add: word_less_nat_alt word_le_nat_alt unat_of_nat)

text \<open>A frame of the client, with its first byte, as its reader takes it apart.\<close>

lemma read_frame_ws_parts:
  assumes "opcode AND 0x0F = op" "b AND 0x80 \<noteq> 0" "read_length b s = (Inr len, mk @ apply_mask mk payload @ rest)"
    and "length mk = 4" "unat len = length payload" "len \<le> WS_MAX"
  shows "read_frame_ws ([opcode, b] @ s) = (Inr (op, payload), rest)"
  using assms by (simp add: read_frame_ws_def read_exact_def[of 2] read_exact_append apply_mask_twice)

lemma read_frame_ws_too_large:
  assumes "b AND 0x80 \<noteq> 0" "read_length b s = (Inr len, t)" "len > WS_MAX"
  shows "read_frame_ws ([opcode, b] @ s) = (Inl InvalidData, t)"
  using assms by (simp add: read_frame_ws_def read_exact_def[of 2])

lemma text_frame_reads:
  assumes "length mk = 4" "length payload \<le> 65535" "opcode AND 0x0F = op"
  shows "read_frame_ws ([opcode] @ text_header (length payload) @ mk @ apply_mask mk payload @ rest) =
    (Inr (op, payload), rest)"
proof -
  let ?n = "length payload"
  let ?w = "word_of_nat ?n :: usize"
  have n: "?n < 2 ^ 32" using assms(2) by simp
  have len: "unat (word_of_nat ?n :: u64) = ?n" "(word_of_nat ?n :: u64) \<le> WS_MAX"
    using assms(2) by (simp_all add: unat_of_nat word_le_nat_alt WS_MAX_def)
  show ?thesis
  proof (cases "?n < 126")
    case True
    have "unat (ucast ?w :: u8) < 128" using True by (simp add: unat_ucast_mod unat_of_nat)
    then show ?thesis
      using True n read_frame_ws_parts[OF assms(3) masked_bits(1) read_length_short[OF True] assms(1) len]
      by (simp add: text_header_def Let_def usize_cmp)
  next
    case False
    then have h: "text_header ?n = [0x80 OR 126] @ [ucast (usize_shr ?w 8), ucast ?w]"
      using assms(2) n by (simp add: text_header_def Let_def usize_cmp)
    show ?thesis
      unfolding h using read_frame_ws_parts[OF assms(3) _ read_length_medium[OF assms(2)] assms(1) len, of rest]
      by (simp only: append_Cons append_Nil append_assoc) simp
  qed
qed

lemma long_text_frame_rejected:
  assumes "65535 < n" "n < 2 ^ 32"
  shows "\<exists>t. read_frame_ws ([0x81] @ text_header n @ s) = (Inl InvalidData, t)"
proof -
  let ?w = "word_of_nat n :: usize"
  have h: "text_header n = [0x80 OR 127] @ map (\<lambda>i. ucast (usize_shr ?w (i * 8))) (rev [0..<8])"
    using assms by (simp add: text_header_def Let_def usize_cmp del: upt_rec_numeral)
  obtain len where len: "read_length (0x80 OR 127) (map (\<lambda>i. ucast (usize_shr ?w (i * 8))) (rev [0..<8]) @ s) = (Inr len, s)"
    "unat len = n + n * 2 ^ 32"
    using read_length_long[OF assms(2)] by blast
  have "len > WS_MAX" using len(2) assms(1) by (simp add: word_less_nat_alt WS_MAX_def)
  then show ?thesis
    unfolding h using read_frame_ws_too_large[OF _ len(1), of "0x81"] by (intro exI[of _ s]) simp
qed

lemma recv_text_sent:
  assumes "length mk = 4" "length (utf8 msg) \<le> 65535" "\<forall>c\<in>set msg. is_scalar c"
  shows "recv_text masks (send_text mk msg @ rest) out = (Inr msg, rest, out)"
proof -
  have "read_frame_ws (send_text mk msg @ rest) = (Inr (1, utf8 msg), rest)"
    using text_frame_reads[OF assms(1,2), of "0x81" 1 rest] by (simp add: send_text_def Let_def)
  then show ?thesis by (subst recv_text.simps) (simp add: from_utf8_utf8[OF assms(3)])
qed

lemma ping_answered:
  assumes "read_frame_ws s = (Inr (0x9, payload), s')"
  shows "recv_text (mk # masks) s out = recv_text masks s' (out @ send_pong mk payload)"
  by (subst recv_text.simps) (simp add: assms)

lemma pong_frame_reads:
  assumes "length mk = 4" "length payload < 126"
  shows "read_frame_ws (send_pong mk payload @ rest) = (Inr (0xA, payload), rest)"
proof -
  have "text_header (length payload) = [0x80 OR ucast (word_of_nat (length payload) :: usize)]"
    using assms(2) by (simp add: text_header_def Let_def usize_cmp)
  then show ?thesis using text_frame_reads[OF assms(1), of payload "0x8A" "0xA" rest] assms(2)
    by (simp add: send_pong_def)
qed

lemma handshake_bound: "length got \<le> RESP_BUF \<Longrightarrow> length (snd (handshake_loop got chunks)) \<le> RESP_BUF"
proof (induction got chunks rule: handshake_loop.induct)
  case (2 got chunk chunks)
  let ?r = "handshake_step got (take (RESP_BUF - length got) chunk)"
  have le: "length (snd ?r) \<le> RESP_BUF"
    using 2(2) by (auto simp: handshake_step_def Let_def split: if_splits)
  obtain st g where r: "?r = (st, g)" by (cases ?r)
  then show ?case using 2 le by (cases st) (auto simp: r)
qed simp

text \<open>Text messages with one mask, no pings between them.\<close>

definition recv_one :: "bytes \<Rightarrow> (io_error + rstr) \<times> bytes" where
  "recv_one s = (case recv_text [] s [] of (r, t, _) \<Rightarrow> (r, t))"

interpretation ws_frame: frame_codec "send_text (replicate 4 k)" recv_one
  "\<lambda>msg. length (utf8 msg) \<le> 65535 \<and> (\<forall>c\<in>set msg. is_scalar c)" for k
  by unfold_locales (simp add: recv_one_def recv_text_sent)

section \<open>Properties\<close>

text \<open>A text message of up to 65535 bytes that a client sends is what a reader of the format receives: the
  header, of either length, the mask and the payload are taken apart again and the rest of the stream is
  left unread.\<close>

theorem websocket_text_roundtrip:
  assumes "length mk = 4" "length (utf8 msg) \<le> 65535" "\<forall>c\<in>set msg. is_scalar c"
  shows "recv_text masks (send_text mk msg @ rest) out = (Inr msg, rest, out)"
  using assms by (rule recv_text_sent)

theorem websocket_text_roundtrip_witness:
  "recv_text [] (send_text [1, 2, 3, 4] [0x68, 0xE9] @ [5]) [] = (Inr [0x68, 0xE9], [5], [])"
  by (rule websocket_text_roundtrip) (simp_all add: utf8_def utf8_char_def is_scalar_def)

text \<open>The eight-byte length of a longer message is wrong on the 32-bit target: the shifts by 32 to 56 fall back to
  those by 0 to 24, so the header announces \<open>n * 2 ^ 32 + n\<close> bytes, and a reader with this client's own
  limit refuses the frame. Every text message of more than 65535 bytes is lost this way.\<close>

theorem websocket_long_text_refused:
  assumes "65535 < length (utf8 msg)" "length (utf8 msg) < 2 ^ 32"
  shows "\<exists>s' out'. recv_text masks (send_text mk msg @ rest) out = (Inl InvalidData, s', out')"
proof -
  from long_text_frame_rejected[OF assms, of "mk @ apply_mask mk (utf8 msg) @ rest"] obtain t
    where "read_frame_ws (send_text mk msg @ rest) = (Inl InvalidData, t)" by (auto simp: send_text_def Let_def)
  then show ?thesis by (subst recv_text.simps) simp
qed

theorem websocket_long_text_refused_witness:
  "\<exists>s' out'. recv_text [] (send_text [0, 0, 0, 0] (replicate 65536 97) @ []) [] = (Inl InvalidData, s', out')"
proof -
  have "utf8 (replicate n 97) = replicate n 97" for n by (induction n) (simp_all add: utf8_def utf8_char_def)
  then show ?thesis by (intro websocket_long_text_refused) simp_all
qed

text \<open>A ping with up to 125 bytes of payload is answered with a pong that reads back with the same payload, and
  reading goes on behind it.\<close>

theorem websocket_ping_pong:
  assumes "length mk = 4" "length payload < 126" "read_frame_ws s = (Inr (0x9, payload), s')"
  shows "recv_text (mk # masks) s out = recv_text masks s' (out @ send_pong mk payload) \<and>
    read_frame_ws (send_pong mk payload @ rest) = (Inr (0xA, payload), rest)"
  using assms ping_answered pong_frame_reads by simp

theorem websocket_ping_pong_witness:
  "recv_text [[1, 2, 3, 4]] [0x89, 1, 7] [] = recv_text [] [] (send_pong [1, 2, 3, 4] [7])"
proof -
  have "read_frame_ws [0x89, 1, 7] = (Inr (0x9, [7]), [])"
    by (simp add: read_frame_ws_def read_exact_def read_length_def WS_MAX_def Let_def)
  then show ?thesis using websocket_ping_pong[of "[1, 2, 3, 4]" "[7]" "[0x89, 1, 7]" "[]" "[]" "[]"] by simp
qed

end
