(* ===== verification/Stun.thy ===== *)
theory Stun
  imports Legacy_Hash Byte_Stream Utf8 Word_Nat
begin

text \<open>
  \<open>src/src/turn.rs\<close>, lines 139 to 338: the STUN messages of the TURN client, that is the packing of method and
  class into a type, XOR-mapped addresses, the builder with its MESSAGE-INTEGRITY attribute and the
  parser. An index out of range panics in the source; here it is the outer \<open>None\<close>, which the parser is
  shown never to give.
\<close>

section \<open>Types\<close>

definition MAGIC :: u32 where "MAGIC = 0x2112A442"

definition ATTR_USERNAME :: u16 where "ATTR_USERNAME = 0x0006"
definition ATTR_MSG_INTEGRITY :: u16 where "ATTR_MSG_INTEGRITY = 0x0008"
definition ATTR_ERROR_CODE :: u16 where "ATTR_ERROR_CODE = 0x0009"
definition ATTR_XOR_PEER_ADDR :: u16 where "ATTR_XOR_PEER_ADDR = 0x0012"
definition ATTR_REALM :: u16 where "ATTR_REALM = 0x0014"
definition ATTR_NONCE :: u16 where "ATTR_NONCE = 0x0015"
definition ATTR_XOR_RELAYED_ADDR :: u16 where "ATTR_XOR_RELAYED_ADDR = 0x0016"
definition ATTR_REQ_TRANSPORT :: u16 where "ATTR_REQ_TRANSPORT = 0x0019"
definition ATTR_XOR_MAPPED_ADDR :: u16 where "ATTR_XOR_MAPPED_ADDR = 0x0020"
definition ATTR_CONNECTION_ID :: u16 where "ATTR_CONNECTION_ID = 0x002A"
definition ATTR_LIFETIME :: u16 where "ATTR_LIFETIME = 0x000D"

definition METHOD_ALLOCATE :: u16 where "METHOD_ALLOCATE = 0x003"
definition METHOD_REFRESH :: u16 where "METHOD_REFRESH = 0x004"
definition METHOD_CREATE_PERM :: u16 where "METHOD_CREATE_PERM = 0x008"
definition METHOD_CONN_BIND :: u16 where "METHOD_CONN_BIND = 0x00B"
definition METHOD_CONN_ATTEMPT :: u16 where "METHOD_CONN_ATTEMPT = 0x00C"

definition CLASS_REQUEST :: u16 where "CLASS_REQUEST = 0"
definition CLASS_INDICATION :: u16 where "CLASS_INDICATION = 1"
definition CLASS_SUCCESS :: u16 where "CLASS_SUCCESS = 2"
definition CLASS_ERROR :: u16 where "CLASS_ERROR = 3"

definition stun_type :: "u16 \<Rightarrow> u16 \<Rightarrow> u16" where
  "stun_type method cls =
     (method AND 0xF) OR push_bit 4 (cls AND 0x1) OR push_bit 1 (method AND 0x70)
     OR push_bit 7 (cls AND 0x2) OR push_bit 2 (method AND 0xF80)"

definition stun_method :: "u16 \<Rightarrow> u16" where
  "stun_method msg_type =
     (msg_type AND 0xF) OR (drop_bit 1 msg_type AND 0x70) OR (drop_bit 2 msg_type AND 0xF80)"

definition stun_class :: "u16 \<Rightarrow> u16" where
  "stun_class msg_type = (drop_bit 4 msg_type AND 0x1) OR (drop_bit 7 msg_type AND 0x2)"

section \<open>Addresses\<close>

datatype socket_addr = V4 u8 u8 u8 u8 u16 | V6 bytes u16

definition encode_xor_addr :: "socket_addr \<Rightarrow> bytes" where
  "encode_xor_addr addr =
     (case addr of
        V4 a b c d port \<Rightarrow>
          let p = port XOR ucast (drop_bit 16 MAGIC);
              ip = of_be [a, b, c, d] XOR MAGIC
          in [0, 1] @ be_bytes 2 p @ be_bytes 4 ip
      | V6 _ _ \<Rightarrow> [])"

definition decode_xor_addr :: "bytes \<Rightarrow> socket_addr option" where
  "decode_xor_addr value =
     (if length value < 8 \<or> value ! 1 \<noteq> 1 then None
      else let port = of_be [value ! 2, value ! 3] XOR ucast (drop_bit 16 MAGIC) :: u16;
               ip = of_be [value ! 4, value ! 5, value ! 6, value ! 7] XOR MAGIC :: u32;
               oc = be_bytes 4 ip
           in Some (V4 (oc ! 0) (oc ! 1) (oc ! 2) (oc ! 3) port))"

section \<open>The builder\<close>

record stun_builder =
  b_type :: u16
  b_tid :: bytes
  b_attrs :: bytes

definition StunBuilder_new :: "bytes \<Rightarrow> u16 \<Rightarrow> u16 \<Rightarrow> stun_builder" where
  "StunBuilder_new tid method cls = \<lparr>b_type = stun_type method cls, b_tid = tid, b_attrs = []\<rparr>"

definition add_attr :: "u16 \<Rightarrow> bytes \<Rightarrow> stun_builder \<Rightarrow> stun_builder" where
  "add_attr attr_type value b =
     b\<lparr>b_attrs := b_attrs b @ be_bytes 2 attr_type @ be_bytes 2 (word_of_nat (length value) :: u16) @ value
        @ replicate ((4 - length value mod 4) mod 4) 0\<rparr>"

definition add_username :: "rstr \<Rightarrow> stun_builder \<Rightarrow> stun_builder" where
  "add_username u = add_attr ATTR_USERNAME (utf8 u)"

definition add_realm :: "rstr \<Rightarrow> stun_builder \<Rightarrow> stun_builder" where
  "add_realm r = add_attr ATTR_REALM (utf8 r)"

definition add_nonce :: "rstr \<Rightarrow> stun_builder \<Rightarrow> stun_builder" where
  "add_nonce n = add_attr ATTR_NONCE (utf8 n)"

definition add_transport_tcp :: "stun_builder \<Rightarrow> stun_builder" where
  "add_transport_tcp = add_attr ATTR_REQ_TRANSPORT [6, 0, 0, 0]"

definition add_connection_id :: "u32 \<Rightarrow> stun_builder \<Rightarrow> stun_builder" where
  "add_connection_id i = add_attr ATTR_CONNECTION_ID (be_bytes 4 i)"

definition add_xor_peer_addr :: "socket_addr \<Rightarrow> stun_builder \<Rightarrow> stun_builder" where
  "add_xor_peer_addr addr = add_attr ATTR_XOR_PEER_ADDR (encode_xor_addr addr)"

definition build :: "bytes option \<Rightarrow> stun_builder \<Rightarrow> bytes" where
  "build key b =
     (let body_len = length (b_attrs b) + (if key = None then 0 else 24);
          msg = be_bytes 2 (b_type b) @ be_bytes 2 (word_of_nat body_len :: u16) @ be_bytes 4 MAGIC
            @ b_tid b @ b_attrs b
      in case key of
           None \<Rightarrow> msg
         | Some k \<Rightarrow> msg @ be_bytes 2 ATTR_MSG_INTEGRITY @ be_bytes 2 (20 :: u16) @ hmac_sha1 k msg)"

section \<open>The parser\<close>

record parsed_stun =
  msg_type :: u16
  tid :: bytes
  attrs :: "(u16 \<times> bytes) list"

definition read_u16 :: "bytes \<Rightarrow> nat \<Rightarrow> u16 option" where
  "read_u16 data pos = (if pos + 1 < length data then Some (of_be [data ! pos, data ! (pos + 1)]) else None)"

function parse_attrs :: "bytes \<Rightarrow> nat \<Rightarrow> nat \<Rightarrow> (u16 \<times> bytes) list option" where
  "parse_attrs data end_pos pos =
     (if pos + 4 \<le> end_pos then
        (case (read_u16 data pos, read_u16 data (pos + 2)) of
           (Some at, Some al) \<Rightarrow>
             (let al = unat al; pos = pos + 4
              in if pos + al > length data then Some []
                 else map_option ((#) (at, take al (drop pos data)))
                        (parse_attrs data end_pos ((pos + al + 3) div 4 * 4)))
         | _ \<Rightarrow> None)
      else Some [])"
  by pat_completeness auto
termination
  by (relation "measure (\<lambda>(data, end_pos, pos). end_pos - pos)") auto

declare parse_attrs.simps [simp del]

definition parse_stun :: "bytes \<Rightarrow> parsed_stun option option" where
  "parse_stun data =
     (if length data < 20 then Some None
      else let msg_len = unat (of_be [data ! 2, data ! 3] :: u16)
           in if (of_be [data ! 4, data ! 5, data ! 6, data ! 7] :: u32) \<noteq> MAGIC then Some None
              else if length data < 20 + msg_len then Some None
              else map_option (\<lambda>as. Some
                     \<lparr>msg_type = of_be [data ! 0, data ! 1], tid = take 12 (drop 8 data), attrs = as\<rparr>)
                     (parse_attrs data (20 + msg_len) 20))"

definition get_attr :: "u16 \<Rightarrow> parsed_stun \<Rightarrow> bytes option" where
  "get_attr t p = map_option snd (List.find (\<lambda>(at, _). at = t) (attrs p))"

definition get_str :: "u16 \<Rightarrow> parsed_stun \<Rightarrow> rstr option" where
  "get_str t p = Option.bind (get_attr t p) from_utf8"

text \<open>The error code and the bytes of the reason.\<close>

definition get_error :: "parsed_stun \<Rightarrow> (u16 \<times> bytes) option" where
  "get_error p = Option.bind (get_attr ATTR_ERROR_CODE p)
     (\<lambda>v. if length v \<ge> 4 then Some (ucast (v ! 2) * 100 + ucast (v ! 3), drop 4 v) else None)"

definition get_xor_addr :: "u16 \<Rightarrow> parsed_stun \<Rightarrow> socket_addr option" where
  "get_xor_addr t p = Option.bind (get_attr t p) decode_xor_addr"

definition get_conn_id :: "parsed_stun \<Rightarrow> u32 option" where
  "get_conn_id p = Option.bind (get_attr ATTR_CONNECTION_ID p)
     (\<lambda>v. if length v \<ge> 4 then Some (of_be [v ! 0, v ! 1, v ! 2, v ! 3]) else None)"

text \<open>One message from a stream. The comparison with 65535 of the source cannot fail on 16 bits.\<close>

definition recv_stun :: "bytes \<Rightarrow> ((io_error + parsed_stun) \<times> bytes) option" where
  "recv_stun s =
     (case read_exact 20 s of
        (Inl e, s) \<Rightarrow> Some (Inl e, s)
      | (Inr header, s) \<Rightarrow>
          (let msg_len = unat (of_be [header ! 2, header ! 3] :: u16)
           in if msg_len > 65535 then Some (Inl InvalidData, s)
              else (case read_exact msg_len s of
                (Inl e, s) \<Rightarrow> Some (Inl e, s)
              | (Inr body, s) \<Rightarrow>
                  map_option (\<lambda>r. (case r of None \<Rightarrow> Inl InvalidData | Some p \<Rightarrow> Inr p, s))
                    (parse_stun (header @ body)))))"

section \<open>The type fields\<close>

lemma u16_bits:
  "(v :: u16) = w \<longleftrightarrow> (bit v 0 = bit w 0 \<and> bit v 1 = bit w 1 \<and> bit v 2 = bit w 2 \<and> bit v 3 = bit w 3 \<and>
     bit v 4 = bit w 4 \<and> bit v 5 = bit w 5 \<and> bit v 6 = bit w 6 \<and> bit v 7 = bit w 7 \<and>
     bit v 8 = bit w 8 \<and> bit v 9 = bit w 9 \<and> bit v 10 = bit w 10 \<and> bit v 11 = bit w 11 \<and>
     bit v 12 = bit w 12 \<and> bit v 13 = bit w 13 \<and> bit v 14 = bit w 14 \<and> bit v 15 = bit w 15)"
  (is "_ \<longleftrightarrow> ?bits")
proof
  assume b: ?bits
  show "v = w"
  proof (rule bit_word_eqI)
    fix n assume "n < LENGTH(16)"
    then have "n \<in> {0, 1, 2, 3, 4, 5, 6, 7, 8, 9, 10, 11, 12, 13, 14, 15}"
      by (simp only: insert_iff empty_iff len_num0 len_num1 len_bit0 len_bit1) presburger
    then show "bit v n = bit w n" using b by (elim insertE) simp_all
  qed
qed simp

lemma stun_method_type:
  assumes "unat m < 4096" shows "stun_method (stun_type m c) = m"
proof -
  have "\<not> bit m i" if "12 \<le> i" for i
    using bit_word_less[of m i 12] assms that by auto
  then show ?thesis
    by (simp add: u16_bits stun_method_def stun_type_def bit_simps bit_double_iff mult.commute[of _ "2 :: u16"])
qed

lemma stun_class_type:
  assumes "unat c < 4" shows "stun_class (stun_type m c) = c"
proof -
  have "\<not> bit c i" if "2 \<le> i" for i
    using bit_word_less[of c i 2] assms that by auto
  then show ?thesis
    by (simp add: u16_bits stun_class_def stun_type_def bit_simps)
qed

section \<open>Addresses read back\<close>

lemma decode_encode_xor_addr: "decode_xor_addr (encode_xor_addr (V4 a b c d port)) = Some (V4 a b c d port)"
proof -
  define p where "p = port XOR ucast (drop_bit 16 MAGIC)"
  define ip :: u32 where "ip = of_be [a, b, c, d] XOR MAGIC"
  obtain p0 p1 where p: "be_bytes 2 p = [p0, p1]" "of_be [p0, p1] = p"
  proof -
    have "of_be (be_bytes 2 p) = p" by (rule of_be_be_bytes) simp
    then show ?thesis using that by (simp only: be_bytes_explicit)
  qed
  obtain i0 i1 i2 i3 where i: "be_bytes 4 ip = [i0, i1, i2, i3]" "of_be [i0, i1, i2, i3] = ip"
  proof -
    have "of_be (be_bytes 4 ip) = ip" by (rule of_be_be_bytes) simp
    then show ?thesis using that by (simp only: be_bytes_explicit)
  qed
  have e: "encode_xor_addr (V4 a b c d port) = [0, 1, p0, p1, i0, i1, i2, i3]"
    unfolding encode_xor_addr_def socket_addr.case Let_def p_def[symmetric] ip_def[symmetric] p(1) i(1) by simp
  have "be_bytes 4 (of_be [a, b, c, d] :: u32) = [a, b, c, d]" by (rule be_bytes_of_be) simp_all
  moreover have "ip XOR MAGIC = of_be [a, b, c, d]" by (simp add: ip_def xor.assoc)
  moreover have "p XOR ucast (drop_bit 16 MAGIC) = port" by (simp add: p_def xor.assoc)
  ultimately show ?thesis
    unfolding e by (simp add: decode_xor_addr_def p(2) i(2) Let_def)
qed

section \<open>The parser stays inside the message\<close>

lemma parse_attrs_total:
  assumes "end_pos \<le> length data"
  shows "parse_attrs data end_pos pos \<noteq> None"
  using assms
proof (induction data end_pos pos rule: parse_attrs.induct)
  case (1 data end_pos pos)
  show ?case
  proof (cases "pos + 4 \<le> end_pos")
    case True
    then obtain at al where r: "read_u16 data pos = Some at" "read_u16 data (pos + 2) = Some al"
      using 1(2) by (auto simp: read_u16_def)
    show ?thesis
      using 1(1)[OF True _ r(1) r(2) refl refl] True 1(2) r
      by (subst parse_attrs.simps) (auto simp: Let_def)
  qed (simp add: parse_attrs.simps)
qed

lemma parse_stun_total: "parse_stun data \<noteq> None"
  using parse_attrs_total[of "20 + unat (of_be [data ! 2, data ! 3] :: u16)" data 20]
  by (auto simp: parse_stun_def Let_def)

lemma recv_stun_total: "recv_stun s \<noteq> None"
proof -
  have "\<exists>z. parse_stun d = Some z" for d using parse_stun_total[of d] by blast
  then show ?thesis by (auto simp: recv_stun_def Let_def split: prod.split sum.split)
qed

lemma recv_stun_shorter: "recv_stun s = Some (Inr p, t) \<Longrightarrow> length t < length s"
  by (auto simp: recv_stun_def Let_def read_exact_def split: prod.splits sum.splits if_splits)

section \<open>What is built is parsed back\<close>

definition attr_bytes :: "u16 \<times> bytes \<Rightarrow> bytes" where
  "attr_bytes = (\<lambda>(t, v). be_bytes 2 t @ be_bytes 2 (word_of_nat (length v) :: u16) @ v
     @ replicate ((4 - length v mod 4) mod 4) 0)"

lemma add_attr_bytes: "b_attrs (add_attr t v b) = b_attrs b @ attr_bytes (t, v)"
  by (simp add: add_attr_def attr_bytes_def)

lemma length_attr_bytes: "length (attr_bytes (t, v)) = 4 + 4 * ((length v + 3) div 4)"
proof -
  have "n + (4 - n mod 4) mod 4 = 4 * ((n + 3) div 4)" for n :: nat
  proof -
    obtain q r where n: "n = 4 * q + r" "r < 4" using mult_div_mod_eq[of 4 n] mod_less_divisor[of 4 n] by (metis zero_less_numeral)
    have "r = 0 \<or> r = 1 \<or> r = 2 \<or> r = 3" using n(2) by linarith
    moreover have "(4 * q + r + 3) div 4 = q + (r + 3) div 4" using div_mult_self4[of 4 q "r + 3"] by (simp add: add.assoc)
    ultimately show ?thesis using n by auto
  qed
  then show ?thesis by (simp add: attr_bytes_def)
qed

lemma read_u16_append:
  "length pre = pos \<Longrightarrow> read_u16 (pre @ be_bytes 2 w @ s) pos = Some (w :: u16)"
proof -
  assume l: "length pre = pos"
  have "of_be (be_bytes 2 w) = w" by (rule of_be_be_bytes) simp
  moreover obtain a b where ab: "be_bytes 2 w = [a, b]"
  proof -
    show ?thesis using that by (simp only: be_bytes_explicit)
  qed
  ultimately show ?thesis using l by (simp add: read_u16_def nth_append)
qed

lemma parse_attrs_built:
  assumes "\<forall>(t, v)\<in>set as. length v < 65536" "length pre = 4 * k"
  shows "parse_attrs (pre @ concat (map attr_bytes as)) (length pre + length (concat (map attr_bytes as))) (length pre) = Some as"
  using assms
proof (induction as arbitrary: pre k)
  case Nil
  then show ?case by (simp add: parse_attrs.simps)
next
  case (Cons a as)
  obtain t v where a: "a = (t, v)" by (cases a)
  define rest where "rest = concat (map attr_bytes as)"
  define z where "z = replicate ((4 - length v mod 4) mod 4) (0 :: u8)"
  have v: "unat (word_of_nat (length v) :: u16) = length v" using Cons.prems(1) by (simp add: a unat_of_nat)
  define data where "data = pre @ attr_bytes (t, v) @ rest"
  have d1: "data = pre @ be_bytes 2 t @ be_bytes 2 (word_of_nat (length v) :: u16) @ v @ z @ rest"
    by (simp add: data_def attr_bytes_def z_def)
  have r1: "read_u16 data (length pre) = Some t" unfolding d1 by (rule read_u16_append) simp
  have r2: "read_u16 data (length pre + 2) = Some (word_of_nat (length v))"
    using read_u16_append[of "pre @ be_bytes 2 t" "length pre + 2" "word_of_nat (length v)" "v @ z @ rest"] d1 by simp
  have tk: "take (length v) (drop (length pre + 4) data) = v" unfolding d1 by simp
  let ?pre' = "pre @ attr_bytes (t, v)"
  have l: "length ?pre' = (length pre + 4 + length v + 3) div 4 * 4"
  proof -
    have "length pre + 4 + length v + 3 = 4 * (k + 1) + (length v + 3)" using Cons.prems(2) by simp
    then have "(length pre + 4 + length v + 3) div 4 = k + 1 + (length v + 3) div 4" by (simp only: div_mult_self4)
    then show ?thesis using Cons.prems(2) by (simp add: length_attr_bytes)
  qed
  have len: "length data = length ?pre' + length rest" by (simp add: data_def)
  have inside: "length pre + 4 + length v \<le> length data" unfolding d1 by simp
  have "parse_attrs (?pre' @ rest) (length ?pre' + length rest) (length ?pre') = Some as"
    unfolding rest_def
  proof (rule Cons.IH)
    show "\<forall>(t, v)\<in>set as. length v < 65536" using Cons.prems(1) by auto
    show "length ?pre' = 4 * ((length pre + 4 + length v + 3) div 4)" using l by simp
  qed
  then have ih: "parse_attrs data (length data) ((length pre + 4 + length v + 3) div 4 * 4) = Some as"
    by (simp only: data_def append_assoc len[unfolded data_def] l)
  have "parse_attrs data (length data) (length pre) = Some ((t, v) # as)"
    using inside ih r1 r2 v tk by (subst parse_attrs.simps) (simp add: Let_def)
  then show ?case unfolding a data_def rest_def by simp
qed

definition integrity_attr :: "bytes option \<Rightarrow> stun_builder \<Rightarrow> (u16 \<times> bytes) list" where
  "integrity_attr key b = (case key of None \<Rightarrow> []
     | Some k \<Rightarrow> [(ATTR_MSG_INTEGRITY, drop (length (build key b) - 20) (build key b))])"

definition stun_head :: "bytes option \<Rightarrow> stun_builder \<Rightarrow> bytes" where
  "stun_head key b = be_bytes 2 (b_type b)
     @ be_bytes 2 (word_of_nat (length (b_attrs b) + (if key = None then 0 else 24)) :: u16) @ be_bytes 4 MAGIC @ b_tid b"

lemma build_parts:
  assumes "length (b_tid b) = 12"
  shows "build key b = stun_head key b @ b_attrs b @ concat (map attr_bytes (integrity_attr key b))"
    "length (stun_head key b) = 20"
    "length (concat (map attr_bytes (integrity_attr key b))) = (if key = None then 0 else 24)"
proof -
  show l: "length (stun_head key b) = 20" using assms by (simp add: stun_head_def)
  show "build key b = stun_head key b @ b_attrs b @ concat (map attr_bytes (integrity_attr key b))"
    "length (concat (map attr_bytes (integrity_attr key b))) = (if key = None then 0 else 24)"
    by (auto simp: build_def stun_head_def integrity_attr_def attr_bytes_def Let_def split: option.splits)
qed

lemma u16_of_nat: "n < 65536 \<Longrightarrow> unat (word_of_nat n :: u16) = n"
  by (simp add: unat_of_nat)

lemma list_prefix_nth:
  "xs = a # b # c # d # e # f # g # h # ys \<Longrightarrow>
   xs ! 0 = a \<and> xs ! 1 = b \<and> xs ! 2 = c \<and> xs ! 3 = d \<and> xs ! 4 = e \<and> xs ! 5 = f \<and> xs ! 6 = g \<and> xs ! 7 = h"
  by simp

lemma stun_header_fields:
  fixes t len :: u16
  assumes "xs = be_bytes 2 t @ be_bytes 2 len @ be_bytes 4 MAGIC @ ti @ rest" "length ti = 12"
  shows "of_be [xs ! 0, xs ! 1] = t" "of_be [xs ! 2, xs ! 3] = len" "of_be [xs ! 4, xs ! 5, xs ! 6, xs ! 7] = MAGIC"
    "take 12 (drop 8 xs) = ti"
proof -
  have w2: "of_be [ucast (drop_bit 8 w), ucast w] = w" for w :: u16
    using of_be_be_bytes[of 2 w] by (simp add: be_bytes_explicit)
  have w4: "of_be [ucast (drop_bit 24 w), ucast (drop_bit 16 w), ucast (drop_bit 8 w), ucast w] = w" for w :: u32
    using of_be_be_bytes[of 4 w] by (simp add: be_bytes_explicit)
  note n = list_prefix_nth[OF assms(1)[unfolded be_bytes_explicit append_Cons append_Nil]]
  show "of_be [xs ! 0, xs ! 1] = t" "of_be [xs ! 2, xs ! 3] = len" "of_be [xs ! 4, xs ! 5, xs ! 6, xs ! 7] = MAGIC"
    by (simp_all only: n w2 w4)
  show "take 12 (drop 8 xs) = ti" using assms by simp
qed

lemma parse_build:
  assumes "length (b_tid b) = 12" "b_attrs b = concat (map attr_bytes as)" "\<forall>(t, v)\<in>set as. length v < 65536"
    and "length (b_attrs b) + (if key = None then 0 else 24) < 65536"
  shows "parse_stun (build key b) = Some (Some \<lparr>msg_type = b_type b, tid = b_tid b, attrs = as @ integrity_attr key b\<rparr>)"
proof -
  note parts = build_parts[OF assms(1), of key]
  let ?data = "build key b" and ?n = "length (b_attrs b) + (if key = None then 0 else 24)"
  have data: "?data = be_bytes 2 (b_type b) @ be_bytes 2 (word_of_nat ?n :: u16) @ be_bytes 4 MAGIC @ b_tid b
      @ (b_attrs b @ concat (map attr_bytes (integrity_attr key b)))"
    using parts(1) by (simp add: stun_head_def)
  note f = stun_header_fields[OF data assms(1)]
  have n: "unat (of_be [?data ! 2, ?data ! 3] :: u16) = ?n" unfolding f by (rule u16_of_nat[OF assms(4)])
  have len: "length ?data = 20 + ?n" using parts by simp
  have all: "\<forall>(t, v)\<in>set (as @ integrity_attr key b). length v < 65536"
    using assms(3) len by (auto simp: integrity_attr_def split: option.splits)
  have e: "?data = stun_head key b @ concat (map attr_bytes (as @ integrity_attr key b))"
    using parts(1) assms(2) by simp
  have "parse_attrs ?data (20 + ?n) 20 = Some (as @ integrity_attr key b)"
    using parse_attrs_built[OF all, of "stun_head key b" 5] parts(2,3) assms(2) unfolding e by simp
  then show ?thesis unfolding parse_stun_def Let_def n f(1) f(3) f(4) by (simp add: len)
qed

lemma recv_stun_build:
  assumes "length (b_tid b) = 12" "b_attrs b = concat (map attr_bytes as)" "\<forall>(t, v)\<in>set as. length v < 65536"
    and "length (b_attrs b) + (if key = None then 0 else 24) < 65536"
  shows "recv_stun (build key b @ rest) =
    Some (Inr \<lparr>msg_type = b_type b, tid = b_tid b, attrs = as @ integrity_attr key b\<rparr>, rest)"
proof -
  note parts = build_parts[OF assms(1), of key]
  let ?n = "length (b_attrs b) + (if key = None then 0 else 24)"
  let ?body = "b_attrs b @ concat (map attr_bytes (integrity_attr key b))"
  have head: "stun_head key b = be_bytes 2 (b_type b) @ be_bytes 2 (word_of_nat ?n :: u16) @ be_bytes 4 MAGIC @ b_tid b @ []"
    by (simp add: stun_head_def)
  have n: "unat (of_be [stun_head key b ! 2, stun_head key b ! 3] :: u16) = ?n"
    unfolding stun_header_fields[OF head assms(1)] by (rule u16_of_nat[OF assms(4)])
  have r1: "read_exact 20 (build key b @ rest) = (Inr (stun_head key b), ?body @ rest)"
    unfolding parts(1) append_assoc by (rule read_exact_append[OF parts(2)])
  have r2: "read_exact ?n (?body @ rest) = (Inr ?body, rest)"
    by (rule read_exact_append) (simp add: parts(3))
  have e: "stun_head key b @ ?body = build key b" using parts(1) by simp
  show ?thesis
    unfolding recv_stun_def r1 prod.case sum.case Let_def n r2 e parse_build[OF assms] using assms(4) by simp
qed

text \<open>A whole message as a frame of the stream.\<close>

definition stun_message :: "parsed_stun \<Rightarrow> bytes" where
  "stun_message p = build None \<lparr>b_type = msg_type p, b_tid = tid p, b_attrs = concat (map attr_bytes (attrs p))\<rparr>"

definition stun_fits :: "parsed_stun \<Rightarrow> bool" where
  "stun_fits p \<longleftrightarrow> length (tid p) = 12 \<and> (\<forall>(t, v)\<in>set (attrs p). length v < 65536) \<and>
     length (concat (map attr_bytes (attrs p))) < 65536"

definition stun_parse :: "bytes \<Rightarrow> (io_error + parsed_stun) \<times> bytes" where
  "stun_parse s = (case recv_stun s of None \<Rightarrow> (Inl Other, s) | Some r \<Rightarrow> r)"

lemma recv_stun_message:
  "stun_fits p \<Longrightarrow> recv_stun (stun_message p @ rest) = Some (Inr p, rest)"
  unfolding stun_message_def stun_fits_def
  by (subst recv_stun_build[where as = "attrs p"]) (simp_all add: integrity_attr_def)

interpretation stun_frame: frame_codec stun_message stun_parse stun_fits
  by unfold_locales (simp add: stun_parse_def recv_stun_message)

section \<open>Properties\<close>

text \<open>The packed message type gives back its method, of twelve bits, and its class, of two, and an IPv4 address
  survives the XOR encoding.\<close>

theorem stun_fields_roundtrip:
  assumes "unat m < 4096" "unat c < 4"
  shows "stun_method (stun_type m c) = m \<and> stun_class (stun_type m c) = c \<and>
    decode_xor_addr (encode_xor_addr (V4 a1 a2 a3 a4 port)) = Some (V4 a1 a2 a3 a4 port)"
  using stun_method_type[OF assms(1)] stun_class_type[OF assms(2)] decode_encode_xor_addr by blast

theorem stun_fields_roundtrip_witness:
  "stun_method (stun_type METHOD_CONN_BIND CLASS_ERROR) = METHOD_CONN_BIND"
  using stun_fields_roundtrip[of METHOD_CONN_BIND CLASS_ERROR] by (simp add: METHOD_CONN_BIND_def CLASS_ERROR_def)

text \<open>A message built from any attributes, whose body fits the 16-bit length, is received as its type, its
  transaction id and those attributes in order; with a key it ends in a MESSAGE-INTEGRITY attribute, the
  HMAC-SHA1 under the key of everything before it with the final length already in the header.\<close>

theorem stun_build_receive:
  assumes "length (b_tid b) = 12" "b_attrs b = concat (map attr_bytes as)" "\<forall>(t, v)\<in>set as. length v < 65536"
    and "length (b_attrs b) + 24 < 65536"
  shows "recv_stun (build None b @ rest) = Some (Inr \<lparr>msg_type = b_type b, tid = b_tid b, attrs = as\<rparr>, rest) \<and>
    recv_stun (build (Some k) b @ rest) =
      Some (Inr \<lparr>msg_type = b_type b, tid = b_tid b,
        attrs = as @ [(ATTR_MSG_INTEGRITY, hmac_sha1 k (take (length (build (Some k) b) - 24) (build (Some k) b)))]\<rparr>, rest)"
proof -
  have "integrity_attr (Some k) b =
      [(ATTR_MSG_INTEGRITY, hmac_sha1 k (take (length (build (Some k) b) - 24) (build (Some k) b)))]"
    by (simp add: integrity_attr_def build_def Let_def)
  moreover have "integrity_attr None b = []" by (simp add: integrity_attr_def)
  ultimately show ?thesis
    using recv_stun_build[OF assms(1-3), of None rest] recv_stun_build[OF assms(1-3), of "Some k" rest] assms(4)
    by simp
qed

theorem stun_build_receive_witness:
  "recv_stun (build None (add_attr ATTR_REALM [1, 2, 3] (StunBuilder_new (replicate 12 7) METHOD_ALLOCATE CLASS_REQUEST)) @ [9]) =
     Some (Inr \<lparr>msg_type = stun_type METHOD_ALLOCATE CLASS_REQUEST, tid = replicate 12 7, attrs = [(ATTR_REALM, [1, 2, 3])]\<rparr>, [9])"
  using stun_build_receive[of "add_attr ATTR_REALM [1, 2, 3] (StunBuilder_new (replicate 12 7) METHOD_ALLOCATE CLASS_REQUEST)"
      "[(ATTR_REALM, [1, 2, 3])]" "[9]" "[]"]
  by (simp add: add_attr_def StunBuilder_new_def attr_bytes_def)

text \<open>Parsing never reads outside the data, whatever a server sends: no input makes the parser or the receiver
  panic.\<close>

theorem stun_parser_safe: "parse_stun data \<noteq> None \<and> recv_stun s \<noteq> None"
  using parse_stun_total recv_stun_total by blast

end
