(* ===== verification/Turn.thy ===== *)
theory Turn
  imports Stun
begin

text \<open>
  \<open>src/src/turn.rs\<close>, lines 408 to 747: the TURN client's transactions on its control connection, the search
  for a server that works, and the thread that keeps the allocation alive. A connection is the bytes the
  server has sent and the messages written to it; transaction ids come from the random generator and are
  arguments. Read timeouts are not modelled: a stream that ends is an \<open>UnexpectedEof\<close>.
\<close>

section \<open>Transactions\<close>

record turn_conn =
  t_in :: bytes
  t_sent :: "bytes list"

datatype turn_error =
    Panicked
  | RecvError io_error
  | NoRelayAddr
  | UnexpectedClass
  | ErrorResponse u16
  | NoRealm
  | NoNonce
  | NoConnectionId
  | StaleNonce rstr
  | TimedOut
  | NoServers
  | AllFailed turn_error

definition turn_send :: "bytes \<Rightarrow> turn_conn \<Rightarrow> turn_conn" where
  "turn_send msg c = c\<lparr>t_sent := t_sent c @ [msg]\<rparr>"

definition turn_recv :: "turn_conn \<Rightarrow> (turn_error + parsed_stun) \<times> turn_conn" where
  "turn_recv c =
     (case recv_stun (t_in c) of
        None \<Rightarrow> (Inl Panicked, c)
      | Some (Inl e, s) \<Rightarrow> (Inl (RecvError e), c\<lparr>t_in := s\<rparr>)
      | Some (Inr p, s) \<Rightarrow> (Inr p, c\<lparr>t_in := s\<rparr>))"

definition p_class :: "parsed_stun \<Rightarrow> u16" where "p_class p = stun_class (msg_type p)"
definition p_method :: "parsed_stun \<Rightarrow> u16" where "p_method p = stun_method (msg_type p)"

definition error_code :: "parsed_stun \<Rightarrow> u16" where
  "error_code p = (case get_error p of None \<Rightarrow> 0 | Some (c, _) \<Rightarrow> c)"

definition stun_key :: "rstr \<Rightarrow> rstr \<Rightarrow> rstr \<Rightarrow> bytes" where
  "stun_key username realm password = md5 (utf8 (username @ [58] @ realm @ [58] @ password))"

definition allocation_lifetime :: "parsed_stun \<Rightarrow> u32" where
  "allocation_lifetime resp =
     (case get_attr ATTR_LIFETIME resp of
        Some v \<Rightarrow> if length v = 4 then of_be [v ! 0, v ! 1, v ! 2, v ! 3] else 600
      | None \<Rightarrow> 600)"

text \<open>The long-term credentials every authenticated request ends with.\<close>

definition add_credentials :: "rstr \<Rightarrow> rstr \<Rightarrow> rstr \<Rightarrow> stun_builder \<Rightarrow> stun_builder" where
  "add_credentials username realm nonce b = add_nonce nonce (add_realm realm (add_username username b))"

definition or_empty :: "rstr option \<Rightarrow> rstr" where
  "or_empty s = (case s of None \<Rightarrow> [] | Some s \<Rightarrow> s)"

definition allocate_request :: "bytes \<Rightarrow> stun_builder" where
  "allocate_request ti = add_transport_tcp (StunBuilder_new ti METHOD_ALLOCATE CLASS_REQUEST)"

definition turn_allocate ::
    "bytes \<Rightarrow> bytes \<Rightarrow> rstr \<Rightarrow> rstr \<Rightarrow> turn_conn \<Rightarrow>
     (turn_error + socket_addr \<times> rstr \<times> rstr \<times> u32) \<times> turn_conn" where
  "turn_allocate tid1 tid2 username password c =
     (let c = turn_send (build None (allocate_request tid1)) c in
      case turn_recv c of
        (Inl e, c) \<Rightarrow> (Inl e, c)
      | (Inr resp, c) \<Rightarrow>
          if p_class resp = CLASS_SUCCESS then
            (case get_xor_addr ATTR_XOR_RELAYED_ADDR resp of
               None \<Rightarrow> (Inl NoRelayAddr, c)
             | Some relay \<Rightarrow>
                 (Inr (relay, or_empty (get_str ATTR_REALM resp), or_empty (get_str ATTR_NONCE resp),
                    allocation_lifetime resp), c))
          else if p_class resp \<noteq> CLASS_ERROR then (Inl UnexpectedClass, c)
          else if error_code resp \<noteq> 401 then (Inl (ErrorResponse (error_code resp)), c)
          else (case get_str ATTR_REALM resp of
              None \<Rightarrow> (Inl NoRealm, c)
            | Some realm \<Rightarrow>
                (case get_str ATTR_NONCE resp of
                   None \<Rightarrow> (Inl NoNonce, c)
                 | Some nonce \<Rightarrow>
                     (let key = stun_key username realm password;
                          req2 = add_credentials username realm nonce (allocate_request tid2);
                          c = turn_send (build (Some key) req2) c in
                      case turn_recv c of
                        (Inl e, c) \<Rightarrow> (Inl e, c)
                      | (Inr resp2, c) \<Rightarrow>
                          if p_class resp2 = CLASS_ERROR then (Inl (ErrorResponse (error_code resp2)), c)
                          else (case get_xor_addr ATTR_XOR_RELAYED_ADDR resp2 of
                              None \<Rightarrow> (Inl NoRelayAddr, c)
                            | Some relay \<Rightarrow> (Inr (relay, realm, nonce, allocation_lifetime resp2), c))))))"

text \<open>Messages of another method are skipped until the answer to the refresh comes.\<close>

function await_refresh :: "turn_conn \<Rightarrow> (turn_error + unit) \<times> turn_conn" where
  "await_refresh c =
     (case turn_recv c of
        (Inl e, c') \<Rightarrow> (Inl e, c')
      | (Inr resp, c') \<Rightarrow>
          if p_method resp \<noteq> METHOD_REFRESH then await_refresh c'
          else if p_class resp = CLASS_SUCCESS then (Inr (), c')
          else (case (if error_code resp = 438 then get_str ATTR_NONCE resp else None) of
              Some fresh \<Rightarrow> (Inl (StaleNonce fresh), c')
            | None \<Rightarrow> (Inl (ErrorResponse (error_code resp)), c')))"
  by pat_completeness auto

lemma turn_recv_shorter: "turn_recv c = (Inr p, c') \<Longrightarrow> length (t_in c') < length (t_in c)"
  by (auto simp: turn_recv_def dest: recv_stun_shorter split: option.splits prod.splits sum.splits)

termination await_refresh
  by (relation "measure (\<lambda>c. length (t_in c))") (auto dest!: turn_recv_shorter[OF sym])

declare await_refresh.simps [simp del]

definition turn_refresh ::
    "bytes \<Rightarrow> u32 \<Rightarrow> rstr \<Rightarrow> rstr \<Rightarrow> rstr \<Rightarrow> rstr \<Rightarrow> turn_conn \<Rightarrow> (turn_error + unit) \<times> turn_conn" where
  "turn_refresh ti lifetime username password realm nonce c =
     (let key = stun_key username realm password;
          req = add_credentials username realm nonce
                  (add_attr ATTR_LIFETIME (be_bytes 4 lifetime) (StunBuilder_new ti METHOD_REFRESH CLASS_REQUEST))
      in await_refresh (turn_send (build (Some key) req) c))"

definition turn_create_permission ::
    "bytes \<Rightarrow> socket_addr \<Rightarrow> rstr \<Rightarrow> rstr \<Rightarrow> rstr \<Rightarrow> rstr \<Rightarrow> turn_conn \<Rightarrow> (turn_error + unit) \<times> turn_conn" where
  "turn_create_permission ti peer_addr username password realm nonce c =
     (let key = stun_key username realm password;
          req = add_credentials username realm nonce
                  (add_xor_peer_addr peer_addr (StunBuilder_new ti METHOD_CREATE_PERM CLASS_REQUEST))
      in case turn_recv (turn_send (build (Some key) req) c) of
           (Inl e, c) \<Rightarrow> (Inl e, c)
         | (Inr resp, c) \<Rightarrow>
             if p_class resp = CLASS_ERROR then (Inl (ErrorResponse (error_code resp)), c) else (Inr (), c))"

text \<open>\<open>wait_connection_attempt\<close>: \<open>turns\<close> is how many turns of the loop start before the deadline.\<close>

fun wait_connection_attempt :: "nat \<Rightarrow> turn_conn \<Rightarrow> (turn_error + u32) \<times> turn_conn" where
  "wait_connection_attempt 0 c = (Inl TimedOut, c)"
| "wait_connection_attempt (Suc turns) c =
     (case turn_recv c of
        (Inl e, c') \<Rightarrow> (Inl e, c')
      | (Inr msg, c') \<Rightarrow>
          if p_method msg = METHOD_CONN_ATTEMPT \<and> p_class msg = CLASS_INDICATION then
            (case get_conn_id msg of None \<Rightarrow> (Inl NoConnectionId, c') | Some i \<Rightarrow> (Inr i, c'))
          else wait_connection_attempt turns c')"

definition turn_connection_bind ::
    "bytes \<Rightarrow> u32 \<Rightarrow> rstr \<Rightarrow> rstr \<Rightarrow> rstr \<Rightarrow> rstr \<Rightarrow> turn_conn \<Rightarrow> (turn_error + unit) \<times> turn_conn" where
  "turn_connection_bind ti conn_id username password realm nonce data_conn =
     (let key = stun_key username realm password;
          req = add_credentials username realm nonce
                  (add_connection_id conn_id (StunBuilder_new ti METHOD_CONN_BIND CLASS_REQUEST))
      in case turn_recv (turn_send (build (Some key) req) data_conn) of
           (Inl e, c) \<Rightarrow> (Inl e, c)
         | (Inr resp, c) \<Rightarrow>
             if p_class resp = CLASS_ERROR then (Inl (ErrorResponse (error_code resp)), c) else (Inr (), c))"

text \<open>The handshake with one server, on a control and a data connection that are open. What the signalling socket
  is sent in between does not depend on them.\<close>

definition try_turn_server ::
    "nat \<Rightarrow> (nat \<Rightarrow> bytes) \<Rightarrow> rstr \<Rightarrow> rstr \<Rightarrow> socket_addr \<Rightarrow> turn_conn \<Rightarrow> turn_conn \<Rightarrow>
     (turn_error + turn_conn \<times> turn_conn \<times> u32 \<times> rstr \<times> rstr)" where
  "try_turn_server turns tids username password peer_addr ctrl data_conn =
     (case turn_allocate (tids 0) (tids 1) username password ctrl of
        (Inl e, ctrl) \<Rightarrow> Inl e
      | (Inr (relay_addr, realm, nonce, lifetime), ctrl) \<Rightarrow>
          (case turn_create_permission (tids 2) peer_addr username password realm nonce ctrl of
             (Inl e, ctrl) \<Rightarrow> Inl e
           | (Inr _, ctrl) \<Rightarrow>
               (case wait_connection_attempt turns ctrl of
                  (Inl e, ctrl) \<Rightarrow> Inl e
                | (Inr conn_id, ctrl) \<Rightarrow>
                    (case turn_connection_bind (tids 3) conn_id username password realm nonce data_conn of
                       (Inl e, data_conn) \<Rightarrow> Inl e
                     | (Inr _, data_conn) \<Rightarrow> Inr (data_conn, ctrl, lifetime, realm, nonce)))))"

text \<open>\<open>connect_via_turn\<close>: the servers in order until one works; the last error otherwise.\<close>

fun connect_loop :: "('s \<Rightarrow> turn_error + 'a) \<Rightarrow> turn_error \<Rightarrow> 's list \<Rightarrow> turn_error + 'a" where
  "connect_loop try last_err [] = Inl (AllFailed last_err)"
| "connect_loop try last_err (server # servers) =
     (case try server of Inr stream \<Rightarrow> Inr stream | Inl e \<Rightarrow> connect_loop try e servers)"

definition connect_via_turn :: "('s \<Rightarrow> turn_error + 'a) \<Rightarrow> 's list \<Rightarrow> turn_error + 'a" where
  "connect_via_turn try servers = (if servers = [] then Inl NoServers else connect_loop try NoServers servers)"

section \<open>Keeping the allocation\<close>

definition refresh_interval :: "u32 \<Rightarrow> nat" where
  "refresh_interval lifetime = max (unat lifetime div 2) 30"

definition refresh_retry :: nat where
  "refresh_retry = 30"

text \<open>
  The thread's state, with the clock in milliseconds. \<open>k_expiry\<close> is when the server drops the allocation, \<open>k_lost\<close> that it has been dropped,
  and \<open>k_failures\<close> counts the failed refreshes since the last one that worked; the code does not keep these three. The allocation was granted
  before the thread starts, when the rest of the handshake was still to come.
\<close>

record keeper =
  k_now :: nat
  k_due :: nat
  k_nonce :: rstr
  k_stopped :: bool
  k_expiry :: nat
  k_failures :: nat
  k_lost :: bool

definition keeper_start :: "u32 \<Rightarrow> rstr \<Rightarrow> nat \<Rightarrow> nat \<Rightarrow> keeper" where
  "keeper_start lifetime nonce granted_at now =
     \<lparr>k_now = now, k_due = now + 1000 * refresh_interval lifetime, k_nonce = nonce, k_stopped = False,
      k_expiry = granted_at + 1000 * unat lifetime, k_failures = 0, k_lost = False\<rparr>"

text \<open>
  What a turn of the loop meets: how long the second of sleep took, the result of the refresh and of the one after a stale nonce and how long
  each took (a read waits up to its timeout, and messages of other methods prolong it), the lifetime the server granted with a success, and
  the flag where it is checked again, after the refresh and at the head of the loop.
\<close>

record keeper_turn =
  kt_slept :: nat
  kt_first :: "turn_error + unit"
  kt_first_took :: nat
  kt_second :: "turn_error + unit"
  kt_second_took :: nat
  kt_granted :: nat
  kt_stop :: bool
  kt_stop_head :: bool

text \<open>The result, the nonce, and when the refresh that gave the result began and was over.\<close>

definition keeper_refresh :: "keeper_turn \<Rightarrow> nat \<Rightarrow> rstr \<Rightarrow> (turn_error + unit) \<times> rstr \<times> nat \<times> nat" where
  "keeper_refresh t now nonce =
     (let over = now + kt_first_took t
      in case kt_first t of
           Inl (StaleNonce fresh) \<Rightarrow> (kt_second t, fresh, over, over + kt_second_took t)
         | _ \<Rightarrow> (kt_first t, nonce, now, over))"

definition keeper_step :: "u32 \<Rightarrow> keeper_turn \<Rightarrow> keeper \<Rightarrow> keeper" where
  "keeper_step lifetime t s =
     (let now = k_now s + kt_slept t
      in if now < k_due s then s\<lparr>k_now := now, k_lost := k_lost s \<or> k_expiry s \<le> now, k_stopped := kt_stop_head t\<rparr>
         else
           let (result, nonce, began, over) = keeper_refresh t now (k_nonce s);
               s = s\<lparr>k_now := over, k_nonce := nonce, k_lost := k_lost s \<or> k_expiry s \<le> over\<rparr>
           in if kt_stop t then s\<lparr>k_stopped := True\<rparr>
              else case result of
                Inr _ \<Rightarrow> s\<lparr>k_due := over + 1000 * refresh_interval lifetime, k_expiry := began + 1000 * kt_granted t, k_failures := 0,
                           k_stopped := kt_stop_head t\<rparr>
              | Inl _ \<Rightarrow> s\<lparr>k_due := over + 1000 * refresh_retry, k_failures := k_failures s + 1, k_stopped := kt_stop_head t\<rparr>)"

text \<open>A turn in time: the sleep takes at most \<open>slack\<close>, the refreshes of the turn at most \<open>wait\<close>, and the server grants what it granted first.\<close>

definition timely :: "u32 \<Rightarrow> nat \<Rightarrow> nat \<Rightarrow> keeper_turn \<Rightarrow> bool" where
  "timely lifetime slack wait t \<longleftrightarrow>
     kt_slept t \<le> slack \<and> kt_first_took t + kt_second_took t \<le> wait \<and> unat lifetime \<le> kt_granted t"

text \<open>The states the loop can reach in such turns, with never more than \<open>n\<close> failures in a row.\<close>

inductive keeper_reaches :: "u32 \<Rightarrow> nat \<Rightarrow> nat \<Rightarrow> nat \<Rightarrow> keeper \<Rightarrow> keeper \<Rightarrow> bool" for lifetime slack wait n s0 where
  start: "keeper_reaches lifetime slack wait n s0 s0"
| step: "keeper_reaches lifetime slack wait n s0 s \<Longrightarrow> \<not> k_stopped s \<Longrightarrow> timely lifetime slack wait t \<Longrightarrow>
    k_failures (keeper_step lifetime t s) \<le> n \<Longrightarrow> keeper_reaches lifetime slack wait n s0 (keeper_step lifetime t s)"

text \<open>The longest time from a grant to the end of the refresh that renews it.\<close>

definition renewal_time :: "u32 \<Rightarrow> nat \<Rightarrow> nat \<Rightarrow> nat \<Rightarrow> nat \<Rightarrow> nat" where
  "renewal_time lifetime handshake slack wait n =
     max handshake wait + 1000 * refresh_interval lifetime + n * (slack + wait + 1000 * refresh_retry) + slack + wait"

lemma refresh_times:
  assumes "keeper_refresh t now nonce = (result, nonce', began, over)" "timely lifetime slack wait t"
  shows "now \<le> began" "began \<le> over" "over \<le> now + wait"
  using assms by (auto simp: keeper_refresh_def timely_def Let_def split: sum.splits turn_error.splits)

definition keeper_inv :: "u32 \<Rightarrow> nat \<Rightarrow> nat \<Rightarrow> nat \<Rightarrow> nat \<Rightarrow> keeper \<Rightarrow> bool" where
  "keeper_inv lifetime handshake slack wait n s \<longleftrightarrow>
     \<not> k_lost s \<and> k_failures s \<le> n \<and>
     (\<not> k_stopped s \<longrightarrow> k_now s < k_due s \<and>
        k_due s + 1000 * unat lifetime \<le>
          k_expiry s + max handshake wait + 1000 * refresh_interval lifetime + k_failures s * (slack + wait + 1000 * refresh_retry))"

lemma keeper_inv_step:
  assumes inv: "keeper_inv lifetime handshake slack wait n s" and go: "\<not> k_stopped s" and t: "timely lifetime slack wait t"
    and few: "k_failures (keeper_step lifetime t s) \<le> n" and room: "renewal_time lifetime handshake slack wait n \<le> 1000 * unat lifetime"
  shows "keeper_inv lifetime handshake slack wait n (keeper_step lifetime t s)"
proof -
  let ?r = "slack + wait + 1000 * refresh_retry" and ?now = "k_now s + kt_slept t"
  have h: "\<not> k_lost s" "k_now s < k_due s" "k_failures s \<le> n" "k_due s + 1000 * unat lifetime \<le>
      k_expiry s + max handshake wait + 1000 * refresh_interval lifetime + k_failures s * ?r"
    using inv go by (auto simp: keeper_inv_def)
  have "k_failures s * ?r \<le> n * ?r" using h(3) by (rule mult_le_mono1)
  then have kept: "k_due s + slack + wait \<le> k_expiry s"
    using h(4) room unfolding renewal_time_def by linarith
  have slept: "?now < k_due s + slack" using h(2) t by (simp add: timely_def)
  have positive: "0 < refresh_interval lifetime" "0 < refresh_retry" by (simp_all add: refresh_interval_def refresh_retry_def)
  show ?thesis
  proof (cases "?now < k_due s")
    case True
    then show ?thesis using h kept by (simp add: keeper_step_def keeper_inv_def)
  next
    case False
    obtain result nonce began over where r: "keeper_refresh t ?now (k_nonce s) = (result, nonce, began, over)"
      using prod_cases4 by blast
    note times = refresh_times[OF r t]
    have over: "over < k_due s + slack + wait" using times(3) slept by linarith
    have granted: "1000 * unat lifetime \<le> 1000 * kt_granted t" using t by (simp add: timely_def)
    show ?thesis
    proof (cases result)
      case (Inl e)
      then have "keeper_step lifetime t s = (let s = s\<lparr>k_now := over, k_nonce := nonce, k_lost := k_lost s \<or> k_expiry s \<le> over\<rparr> in
          if kt_stop t then s\<lparr>k_stopped := True\<rparr>
          else s\<lparr>k_due := over + 1000 * refresh_retry, k_failures := k_failures s + 1, k_stopped := kt_stop_head t\<rparr>)"
        using False r by (simp add: keeper_step_def Let_def)
      then show ?thesis using h over kept few positive by (auto simp: keeper_inv_def Let_def)
    next
      case (Inr u)
      then have "keeper_step lifetime t s = (let s = s\<lparr>k_now := over, k_nonce := nonce, k_lost := k_lost s \<or> k_expiry s \<le> over\<rparr> in
          if kt_stop t then s\<lparr>k_stopped := True\<rparr>
          else s\<lparr>k_due := over + 1000 * refresh_interval lifetime, k_expiry := began + 1000 * kt_granted t, k_failures := 0,
                 k_stopped := kt_stop_head t\<rparr>)"
        using False r by (simp add: keeper_step_def Let_def)
      moreover have "over \<le> began + max handshake wait"
        using Inr r t by (auto simp: keeper_refresh_def timely_def Let_def split: sum.splits turn_error.splits)
      ultimately show ?thesis using h over kept granted positive by (auto simp: keeper_inv_def Let_def)
    qed
  qed
qed

lemma keeper_invariant:
  assumes "keeper_reaches lifetime slack wait n (keeper_start lifetime nonce granted_at now) s" "now \<le> granted_at + handshake"
    and "renewal_time lifetime handshake slack wait n \<le> 1000 * unat lifetime"
  shows "keeper_inv lifetime handshake slack wait n s"
  using assms(1)
proof (induction rule: keeper_reaches.induct)
  case start
  have "0 < refresh_interval lifetime" "now \<le> granted_at + max handshake wait" using assms(2) by (auto simp: refresh_interval_def)
  then show ?case by (simp add: keeper_inv_def keeper_start_def)
next
  case (step s t)
  then show ?case using keeper_inv_step assms(3) by blast
qed

lemma keeper_alive:
  assumes "keeper_inv lifetime handshake slack wait n s" "renewal_time lifetime handshake slack wait n \<le> 1000 * unat lifetime"
    and "\<not> k_stopped s"
  shows "k_now s < k_expiry s"
proof -
  let ?r = "slack + wait + 1000 * refresh_retry"
  have h: "k_now s < k_due s" "k_failures s \<le> n" "k_due s + 1000 * unat lifetime \<le>
      k_expiry s + max handshake wait + 1000 * refresh_interval lifetime + k_failures s * ?r"
    using assms(1,3) by (auto simp: keeper_inv_def)
  have "k_failures s * ?r \<le> n * ?r" using h(2) by (rule mult_le_mono1)
  then show ?thesis using h assms(2) unfolding renewal_time_def by linarith
qed

text \<open>Seconds that pass before the refresh is due.\<close>

definition sleepy_turn :: keeper_turn where
  "sleepy_turn = \<lparr>kt_slept = 1000, kt_first = Inl TimedOut, kt_first_took = 10000, kt_second = Inl TimedOut, kt_second_took = 0,
     kt_granted = 2 ^ 32, kt_stop = False, kt_stop_head = False\<rparr>"

lemma keeper_sleeps:
  assumes "keeper_reaches lifetime 1000 10000 n s0 s" "\<not> k_stopped s" "k_failures s \<le> n" "k_now s + 1000 * Suc k < k_due s"
  shows "keeper_reaches lifetime 1000 10000 n s0
    (s\<lparr>k_now := k_now s + 1000 * Suc k, k_lost := k_lost s \<or> k_expiry s \<le> k_now s + 1000 * Suc k\<rparr>)"
  using assms(4)
proof (induction k)
  have "unat lifetime \<le> 2 ^ 32" using unsigned_less[of lifetime, where 'a = nat] by simp
  then have timely: "timely lifetime 1000 10000 sleepy_turn" by (simp add: timely_def sleepy_turn_def)
  have turn: "keeper_reaches lifetime 1000 10000 n s0 (e\<lparr>k_now := k_now e + 1000, k_lost := k_lost e \<or> k_expiry e \<le> k_now e + 1000\<rparr>)"
    if "keeper_reaches lifetime 1000 10000 n s0 e" "\<not> k_stopped e" "k_failures e \<le> n" "k_now e + 1000 < k_due e" for e
  proof -
    have s: "keeper_step lifetime sleepy_turn e = e\<lparr>k_now := k_now e + 1000, k_lost := k_lost e \<or> k_expiry e \<le> k_now e + 1000\<rparr>"
      using that(2,4) by (cases e) (simp add: keeper_step_def sleepy_turn_def Let_def)
    have "keeper_reaches lifetime 1000 10000 n s0 (keeper_step lifetime sleepy_turn e)"
      using that(1,2,3) timely by (rule_tac keeper_reaches.step) (simp_all add: s)
    then show ?thesis by (simp add: s)
  qed
  { case 0
    then show ?case using turn[OF assms(1,2,3)] by simp
  next
    case (Suc k)
    let ?e = "s\<lparr>k_now := k_now s + 1000 * Suc k, k_lost := k_lost s \<or> k_expiry s \<le> k_now s + 1000 * Suc k\<rparr>"
    have "keeper_reaches lifetime 1000 10000 n s0 ?e" using Suc by simp
    note r = turn[OF this]
    have "?e\<lparr>k_now := k_now ?e + 1000, k_lost := k_lost ?e \<or> k_expiry ?e \<le> k_now ?e + 1000\<rparr> =
        s\<lparr>k_now := k_now s + 1000 * Suc (Suc k), k_lost := k_lost s \<or> k_expiry s \<le> k_now s + 1000 * Suc (Suc k)\<rparr>"
      by (cases s) auto
    then show ?case using r assms(2,3) Suc.prems by simp }
qed

section \<open>Transactions with a server\<close>

lemma turn_recv_message:
  "stun_fits p \<Longrightarrow> t_in c = stun_message p @ rest \<Longrightarrow> turn_recv c = (Inr p, c\<lparr>t_in := rest\<rparr>)"
  by (simp add: turn_recv_def recv_stun_message)

lemma turn_recv_sound: "turn_recv c = (r, c') \<Longrightarrow> r \<noteq> Inl Panicked \<and> t_sent c' = t_sent c"
  using recv_stun_total[of "t_in c"] by (auto simp: turn_recv_def split: option.splits prod.splits sum.splits)

lemma turn_send_simps [simp]: "t_in (turn_send m c) = t_in c" "t_sent (turn_send m c) = t_sent c @ [m]"
  by (simp_all add: turn_send_def)

lemma turn_allocate_challenged:
  assumes "stun_fits r1" "p_class r1 = CLASS_ERROR" "error_code r1 = 401"
    and "get_str ATTR_REALM r1 = Some realm" "get_str ATTR_NONCE r1 = Some nonce"
    and "stun_fits r2" "p_class r2 \<noteq> CLASS_ERROR" "get_xor_addr ATTR_XOR_RELAYED_ADDR r2 = Some relay"
    and "t_in c = stun_message r1 @ stun_message r2 @ rest"
  shows "turn_allocate tid1 tid2 username password c =
    (Inr (relay, realm, nonce, allocation_lifetime r2),
     \<lparr>t_in = rest, t_sent = t_sent c @ [build None (allocate_request tid1),
        build (Some (stun_key username realm password)) (add_credentials username realm nonce (allocate_request tid2))]\<rparr>)"
proof -
  have e: "CLASS_ERROR \<noteq> CLASS_SUCCESS" by (simp add: CLASS_ERROR_def CLASS_SUCCESS_def)
  show ?thesis
    using assms(2-5,7,8) e turn_recv_message[OF assms(1), of "turn_send (build None (allocate_request tid1)) c" "stun_message r2 @ rest"]
      turn_recv_message[OF assms(6)] assms(9)
    by (simp add: turn_allocate_def turn_send_def)
qed

lemma turn_allocate_requests:
  assumes "turn_allocate tid1 tid2 username password c = (r, c')"
  shows "r \<noteq> Inl Panicked \<and>
    (t_sent c' = t_sent c @ [build None (allocate_request tid1)] \<or>
     (\<exists>p realm nonce. fst (turn_recv (turn_send (build None (allocate_request tid1)) c)) = Inr p \<and>
        p_class p = CLASS_ERROR \<and> error_code p = 401 \<and> get_str ATTR_REALM p = Some realm \<and> get_str ATTR_NONCE p = Some nonce \<and>
        t_sent c' = t_sent c @ [build None (allocate_request tid1),
          build (Some (stun_key username realm password)) (add_credentials username realm nonce (allocate_request tid2))]))"
proof -
  let ?c1 = "turn_send (build None (allocate_request tid1)) c"
  obtain x c2 where 1: "turn_recv ?c1 = (x, c2)" by (cases "turn_recv ?c1")
  note s1 = turn_recv_sound[OF 1]
  show ?thesis
  proof (cases "\<exists>p realm nonce. x = Inr p \<and> p_class p \<noteq> CLASS_SUCCESS \<and> p_class p = CLASS_ERROR \<and> error_code p = 401 \<and>
      get_str ATTR_REALM p = Some realm \<and> get_str ATTR_NONCE p = Some nonce")
    case True
    then obtain p realm nonce where p: "x = Inr p" "p_class p \<noteq> CLASS_SUCCESS" "p_class p = CLASS_ERROR"
      "error_code p = 401" "get_str ATTR_REALM p = Some realm" "get_str ATTR_NONCE p = Some nonce" by blast
    let ?m = "build (Some (stun_key username realm password)) (add_credentials username realm nonce (allocate_request tid2))"
    obtain y c3 where 2: "turn_recv (turn_send ?m c2) = (y, c3)" by (cases "turn_recv (turn_send ?m c2)")
    have "turn_allocate tid1 tid2 username password c = (case y of Inl e \<Rightarrow> (Inl e, c3) | Inr resp2 \<Rightarrow>
        if p_class resp2 = CLASS_ERROR then (Inl (ErrorResponse (error_code resp2)), c3)
        else (case get_xor_addr ATTR_XOR_RELAYED_ADDR resp2 of None \<Rightarrow> (Inl NoRelayAddr, c3)
          | Some relay \<Rightarrow> (Inr (relay, realm, nonce, allocation_lifetime resp2), c3)))"
      using p 1 2 by (simp add: turn_allocate_def split: sum.split)
    then have "c' = c3" "r = Inl Panicked \<Longrightarrow> y = Inl Panicked"
      using assms by (auto split: sum.splits if_splits option.splits)
    then show ?thesis using turn_recv_sound[OF 2] s1 p 1 by auto
  next
    case False
    then have "c' = c2 \<and> (r = Inl Panicked \<longrightarrow> x = Inl Panicked)"
      using assms 1 by (auto simp: turn_allocate_def split: sum.splits if_splits option.splits)
    then show ?thesis using s1 by simp
  qed
qed

lemma await_refresh_skips:
  assumes "\<forall>p\<in>set others. stun_fits p \<and> p_method p \<noteq> METHOD_REFRESH" "stun_fits ok" "p_method ok = METHOD_REFRESH"
    and "p_class ok = CLASS_SUCCESS" "t_in c = concat (map stun_message others) @ stun_message ok @ rest"
  shows "await_refresh c = (Inr (), c\<lparr>t_in := rest\<rparr>)"
  using assms(1,5)
proof (induction others arbitrary: c)
  case Nil
  then show ?case
    using assms(3,4) turn_recv_message[OF assms(2), of c rest] by (subst await_refresh.simps) simp
next
  case (Cons p others)
  then have "turn_recv c = (Inr p, c\<lparr>t_in := concat (map stun_message others) @ stun_message ok @ rest\<rparr>)"
    by (intro turn_recv_message) auto
  then show ?case using Cons by (subst await_refresh.simps) simp
qed

lemma connect_loop_first:
  "connect_loop try e servers = Inr c \<longleftrightarrow>
    (\<exists>pre s post. servers = pre @ s # post \<and> try s = Inr c \<and> (\<forall>r\<in>set pre. isl (try r)))"
proof (induction servers arbitrary: e)
  case (Cons s ss)
  show ?case
  proof (cases "try s")
    case (Inl e')
    have "(\<exists>pre r post. s # ss = pre @ r # post \<and> try r = Inr c \<and> (\<forall>r\<in>set pre. isl (try r)))
        \<longleftrightarrow> (\<exists>pre r post. ss = pre @ r # post \<and> try r = Inr c \<and> (\<forall>r\<in>set pre. isl (try r)))" (is "?l \<longleftrightarrow> ?r")
    proof
      assume ?l
      then obtain pre r post where p: "s # ss = pre @ r # post" "try r = Inr c" "\<forall>r\<in>set pre. isl (try r)" by blast
      with Inl obtain pre' where "pre = s # pre'" by (cases pre) auto
      with p show ?r by auto
    next
      assume ?r
      then obtain pre r post where "ss = pre @ r # post" "try r = Inr c" "\<forall>r\<in>set pre. isl (try r)" by blast
      with Inl have "s # ss = (s # pre) @ r # post \<and> try r = Inr c \<and> (\<forall>r\<in>set (s # pre). isl (try r))" by simp
      then show ?l by blast
    qed
    then show ?thesis using Inl Cons by simp
  next
    case (Inr c')
    then have "(\<exists>pre r post. s # ss = pre @ r # post \<and> try r = Inr c \<and> (\<forall>r\<in>set pre. isl (try r))) \<longleftrightarrow> c' = c"
      by (fastforce simp: Cons_eq_append_conv)
    then show ?thesis using Inr by simp
  qed
qed simp

lemma connect_via_turn_first:
  "connect_via_turn try servers = Inr c \<longleftrightarrow>
    (\<exists>pre s post. servers = pre @ s # post \<and> try s = Inr c \<and> (\<forall>r\<in>set pre. isl (try r)))"
  by (auto simp: connect_via_turn_def connect_loop_first)

section \<open>Properties\<close>

text \<open>Against a server that challenges the first request, allocation sends exactly two requests, the second with
  the user name, the server's realm and nonce and a MESSAGE-INTEGRITY under the MD5 of
  \<open>username:realm:password\<close>, and returns the relayed address, realm, nonce and lifetime of the answer.\<close>

theorem turn_allocation_challenged:
  assumes "stun_fits r1" "p_class r1 = CLASS_ERROR" "error_code r1 = 401"
    and "get_str ATTR_REALM r1 = Some realm" "get_str ATTR_NONCE r1 = Some nonce"
    and "stun_fits r2" "p_class r2 \<noteq> CLASS_ERROR" "get_xor_addr ATTR_XOR_RELAYED_ADDR r2 = Some relay"
    and "t_in c = stun_message r1 @ stun_message r2 @ rest"
  shows "turn_allocate tid1 tid2 username password c =
    (Inr (relay, realm, nonce, allocation_lifetime r2),
     \<lparr>t_in = rest, t_sent = t_sent c @ [build None (allocate_request tid1),
        build (Some (stun_key username realm password)) (add_credentials username realm nonce (allocate_request tid2))]\<rparr>)"
  using assms by (rule turn_allocate_challenged)

theorem turn_allocation_challenged_witness:
  "fst (turn_allocate (replicate 12 1) (replicate 12 2) [117] [112]
     \<lparr>t_in = stun_message \<lparr>msg_type = stun_type METHOD_ALLOCATE CLASS_ERROR, tid = replicate 12 1,
          attrs = [(ATTR_ERROR_CODE, [0, 0, 4, 1]), (ATTR_REALM, [114]), (ATTR_NONCE, [110])]\<rparr>
        @ stun_message \<lparr>msg_type = stun_type METHOD_ALLOCATE CLASS_SUCCESS, tid = replicate 12 2,
          attrs = [(ATTR_XOR_RELAYED_ADDR, encode_xor_addr (V4 1 2 3 4 80))]\<rparr> @ [], t_sent = []\<rparr>)
   = Inr (V4 1 2 3 4 80, [114], [110], 600)"
proof -
  let ?r1 = "\<lparr>msg_type = stun_type METHOD_ALLOCATE CLASS_ERROR, tid = replicate 12 1,
          attrs = [(ATTR_ERROR_CODE, [0, 0, 4, 1]), (ATTR_REALM, [114]), (ATTR_NONCE, [110])]\<rparr>"
  let ?r2 = "\<lparr>msg_type = stun_type METHOD_ALLOCATE CLASS_SUCCESS, tid = replicate 12 2,
          attrs = [(ATTR_XOR_RELAYED_ADDR, encode_xor_addr (V4 1 2 3 4 80))]\<rparr>"
  note defs = ATTR_ERROR_CODE_def ATTR_REALM_def ATTR_NONCE_def ATTR_XOR_RELAYED_ADDR_def ATTR_LIFETIME_def
  have l: "length (encode_xor_addr (V4 1 2 3 4 80)) = 8" by (simp add: encode_xor_addr_def Let_def)
  have f: "stun_fits ?r1" "stun_fits ?r2" by (simp_all add: stun_fits_def attr_bytes_def l)
  have c: "p_class ?r1 = CLASS_ERROR" "p_class ?r2 \<noteq> CLASS_ERROR"
    by (simp_all add: p_class_def stun_class_type CLASS_ERROR_def CLASS_SUCCESS_def)
  have u: "from_utf8 [114] = Some [114]" "from_utf8 [110] = Some [110]"
    by (simp_all add: from_utf8.simps utf8_next_def)
  have a: "error_code ?r1 = 401" "get_str ATTR_REALM ?r1 = Some [114]" "get_str ATTR_NONCE ?r1 = Some [110]"
    "get_xor_addr ATTR_XOR_RELAYED_ADDR ?r2 = Some (V4 1 2 3 4 80)" "allocation_lifetime ?r2 = 600"
    by (simp_all add: defs error_code_def get_error_def get_str_def get_attr_def get_xor_addr_def u
        decode_encode_xor_addr allocation_lifetime_def)
  show ?thesis
    using turn_allocation_challenged[OF f(1) c(1) a(1,2,3) f(2) c(2) a(4),
        of "\<lparr>t_in = stun_message ?r1 @ stun_message ?r2 @ [], t_sent = []\<rparr>" "[]" "replicate 12 1" "replicate 12 2" "[117]" "[112]"]
      a(5) by simp
qed

text \<open>Whatever a server answers, allocation does not panic, sends at most two requests, and sends the one with the
  credentials only after an error 401 that names a realm and a nonce.\<close>

theorem turn_allocation_safe:
  assumes "turn_allocate tid1 tid2 username password c = (r, c')"
  shows "r \<noteq> Inl Panicked \<and>
    (t_sent c' = t_sent c @ [build None (allocate_request tid1)] \<or>
     (\<exists>p realm nonce. fst (turn_recv (turn_send (build None (allocate_request tid1)) c)) = Inr p \<and>
        p_class p = CLASS_ERROR \<and> error_code p = 401 \<and> get_str ATTR_REALM p = Some realm \<and> get_str ATTR_NONCE p = Some nonce \<and>
        t_sent c' = t_sent c @ [build None (allocate_request tid1),
          build (Some (stun_key username realm password)) (add_credentials username realm nonce (allocate_request tid2))]))"
  using assms by (rule turn_allocate_requests)

theorem turn_allocation_safe_witness:
  "fst (turn_allocate [] [] [] [] \<lparr>t_in = [], t_sent = []\<rparr>) \<noteq> Inl Panicked"
  using turn_allocation_safe[of "[]" "[]" "[]" "[]" "\<lparr>t_in = [], t_sent = []\<rparr>"]
  by (cases "turn_allocate [] [] [] [] \<lparr>t_in = [], t_sent = []\<rparr>") auto

text \<open>C31: 
  The refresh thread keeps the allocation: when a grant's lifetime leaves room for the time until the refresh that renews it is over, with the
  reads' waits, up to \<open>n\<close> failed refreshes in a row and their retries after 30 seconds, the server has never dropped the allocation, and its
  lifetime has not run out, in any state the loop reaches. The time between refreshes is half the lifetime, and at least 30 seconds.
\<close>

theorem relay_allocation_kept:
  assumes "keeper_reaches lifetime slack wait n (keeper_start lifetime nonce granted_at now) s"
    and "now \<le> granted_at + handshake" "renewal_time lifetime handshake slack wait n \<le> 1000 * unat lifetime"
  shows "\<not> k_lost s \<and> (\<not> k_stopped s \<longrightarrow> k_now s < k_expiry s)"
  using keeper_invariant[OF assms] keeper_alive[OF _ assms(3)] by (simp add: keeper_inv_def)

text \<open>With the usual 600 seconds, refreshes of up to ten seconds and a handshake of up to half a minute, five failures in a row are survived.\<close>

lemma usual_renewal: "renewal_time 600 30000 1000 10000 5 \<le> 1000 * unat (600 :: u32)"
  by (simp add: renewal_time_def refresh_interval_def refresh_retry_def)

lemma first_refresh:
  assumes "k_failures s = 0" "\<not> k_stopped s" "k_now s + 1000 = k_due s" "keeper_reaches lifetime 1000 10000 (Suc n) s0 s"
  shows "keeper_reaches lifetime 1000 10000 (Suc n) s0 (keeper_step lifetime sleepy_turn s)"
    and "keeper_step lifetime sleepy_turn s = s\<lparr>k_now := k_due s + 10000, k_due := k_due s + 40000, k_failures := 1,
      k_lost := k_lost s \<or> k_expiry s \<le> k_due s + 10000\<rparr>"
proof -
  show step: "keeper_step lifetime sleepy_turn s = s\<lparr>k_now := k_due s + 10000, k_due := k_due s + 40000, k_failures := 1,
      k_lost := k_lost s \<or> k_expiry s \<le> k_due s + 10000\<rparr>"
    using assms(1,2,3) by (cases s) (simp add: keeper_step_def sleepy_turn_def keeper_refresh_def refresh_retry_def Let_def)
  have "unat lifetime \<le> 2 ^ 32" using unsigned_less[of lifetime, where 'a = nat] by simp
  then have "timely lifetime 1000 10000 sleepy_turn" by (simp add: timely_def sleepy_turn_def)
  then show "keeper_reaches lifetime 1000 10000 (Suc n) s0 (keeper_step lifetime sleepy_turn s)"
    using assms(2,4) by (rule_tac keeper_reaches.step) (simp_all add: step)
qed

theorem relay_allocation_kept_witness:
  "\<exists>s. keeper_reaches 600 1000 10000 5 (keeper_start 600 [] 0 20000) s \<and> k_failures s = 1 \<and> k_now s = 330000 \<and> \<not> k_lost s"
proof -
  let ?s0 = "keeper_start 600 [] 0 20000"
  let ?s1 = "?s0\<lparr>k_now := k_now ?s0 + 1000 * Suc 298, k_lost := k_lost ?s0 \<or> k_expiry ?s0 \<le> k_now ?s0 + 1000 * Suc 298\<rparr>"
  have i: "refresh_interval 600 = 300" by (simp add: refresh_interval_def)
  have "keeper_reaches 600 1000 10000 5 ?s0 ?s1"
    by (rule keeper_sleeps[OF keeper_reaches.start]) (simp_all add: keeper_start_def i)
  then have r: "keeper_reaches 600 1000 10000 (Suc 4) ?s0 ?s1" by simp
  have f: "k_failures ?s1 = 0" "\<not> k_stopped ?s1" "k_now ?s1 + 1000 = k_due ?s1" by (simp_all add: keeper_start_def i)
  note s2 = first_refresh[OF f r]
  have reach: "keeper_reaches 600 1000 10000 5 ?s0 (keeper_step 600 sleepy_turn ?s1)" using s2(1) by simp
  have "\<not> k_lost (keeper_step 600 sleepy_turn ?s1)"
    using relay_allocation_kept[OF reach _ usual_renewal] by simp
  moreover have "k_failures (keeper_step 600 sleepy_turn ?s1) = 1" "k_now (keeper_step 600 sleepy_turn ?s1) = 330000"
    unfolding s2(2) by (simp_all add: keeper_start_def i)
  ultimately show ?thesis using reach by blast
qed

text \<open>
  Where the room is missing the allocation is lost (a defect, shown): a server that grants 61 seconds drops it after one refresh that times out,
  because the next is tried only 30 seconds later.
\<close>

theorem short_allocation_lost:
  "\<exists>s. keeper_reaches 61 1000 10000 1 (keeper_start 61 [] 0 0) s \<and> \<not> k_stopped s \<and> k_failures s = 1 \<and> k_lost s"
proof -
  let ?s0 = "keeper_start 61 [] 0 0"
  let ?s1 = "?s0\<lparr>k_now := k_now ?s0 + 1000 * Suc 28, k_lost := k_lost ?s0 \<or> k_expiry ?s0 \<le> k_now ?s0 + 1000 * Suc 28\<rparr>"
  have i: "refresh_interval 61 = 30" by (simp add: refresh_interval_def)
  have "keeper_reaches 61 1000 10000 1 ?s0 ?s1"
    by (rule keeper_sleeps[OF keeper_reaches.start]) (simp_all add: keeper_start_def i)
  then have r: "keeper_reaches 61 1000 10000 (Suc 0) ?s0 ?s1" by simp
  have f: "k_failures ?s1 = 0" "\<not> k_stopped ?s1" "k_now ?s1 + 1000 = k_due ?s1" by (simp_all add: keeper_start_def i)
  obtain e where e: "e = keeper_step 61 sleepy_turn ?s1" by blast
  note s2 = first_refresh[OF f r, folded e]
  have f2: "\<not> k_stopped e" "k_failures e = 1" "k_now e = 40000" "k_due e = 70000" "k_expiry e = 61000"
    unfolding s2(2) by (simp_all add: keeper_start_def i)
  have "keeper_reaches 61 1000 10000 (Suc 0) ?s0
      (e\<lparr>k_now := k_now e + 1000 * Suc 28, k_lost := k_lost e \<or> k_expiry e \<le> k_now e + 1000 * Suc 28\<rparr>)"
    by (rule keeper_sleeps[OF s2(1)]) (simp_all add: f2)
  then show ?thesis using f2 by (intro exI conjI) (auto simp: f2)
qed

text \<open>A refresh waits for its own answer: messages of other methods before it are skipped, and the success
  response ends it with the rest of the stream unread. The servers are tried in order and the first that
  works is used.\<close>

theorem turn_refresh_and_fallback:
  assumes "\<forall>p\<in>set others. stun_fits p \<and> p_method p \<noteq> METHOD_REFRESH" "stun_fits ok" "p_method ok = METHOD_REFRESH"
    and "p_class ok = CLASS_SUCCESS" "t_in c = concat (map stun_message others) @ stun_message ok @ rest"
  shows "fst (turn_refresh ti lifetime username password realm nonce c) = Inr () \<and>
    t_in (snd (turn_refresh ti lifetime username password realm nonce c)) = rest \<and>
    (connect_via_turn try servers = Inr conn \<longleftrightarrow>
      (\<exists>pre s post. servers = pre @ s # post \<and> try s = Inr conn \<and> (\<forall>r\<in>set pre. isl (try r))))"
  using await_refresh_skips[OF assms(1-4)] assms(5) connect_via_turn_first[of "try" servers conn]
  by (simp add: turn_refresh_def Let_def)

theorem turn_refresh_and_fallback_witness:
  "fst (turn_refresh [] 600 [] [] [] [] \<lparr>t_in = stun_message \<lparr>msg_type = stun_type METHOD_REFRESH CLASS_SUCCESS,
     tid = replicate 12 0, attrs = []\<rparr> @ [], t_sent = []\<rparr>) = Inr ()"
proof -
  let ?ok = "\<lparr>msg_type = stun_type METHOD_REFRESH CLASS_SUCCESS, tid = replicate 12 0, attrs = []\<rparr>"
  have "stun_fits ?ok" "p_method ?ok = METHOD_REFRESH" "p_class ?ok = CLASS_SUCCESS"
    by (simp_all add: stun_fits_def p_method_def p_class_def stun_method_type stun_class_type METHOD_REFRESH_def CLASS_SUCCESS_def)
  from turn_refresh_and_fallback[OF _ this, of "[]" "\<lparr>t_in = stun_message ?ok @ [], t_sent = []\<rparr>" "[]"
      "[]" 600 "[]" "[]" "[]" "[]" "\<lambda>n. Inr (n :: nat)" "[]" 0]
  show ?thesis by simp
qed

end
