(* ===== verification/Two_Factor.thy ===== *)
theory Two_Factor
  imports Config_Options Sha2 Legacy_Hash
begin

text \<open>
  \<open>src/src/auth_2fa.rs\<close>: base32, the one-time codes, the second factor's secret in \<open>Config2\<close> and its set-up. The HMAC
  is \<open>ring\<close>'s and a parameter \<open>hmac\<close> (20 bytes long); \<open>hmac_sha1\<close> of the TURN client is an instance. The case
  mapping of \<open>to_uppercase\<close> beyond ASCII is a parameter \<open>upper\<close>.
\<close>

section \<open>Base32\<close>

definition base32_alphabet :: rstr where
  "base32_alphabet = str ''ABCDEFGHIJKLMNOPQRSTUVWXYZ234567''"

text \<open>\<open>while bits >= 5\<close>: the digits that the buffer holds in full.\<close>

fun base32_drain :: "u64 \<Rightarrow> nat \<Rightarrow> nat \<times> rstr" where
  "base32_drain buffer bits =
     (if 5 \<le> bits then
        let bits = bits - 5;
            c = base32_alphabet ! unat (drop_bit bits buffer AND 0x1F);
            (bits', cs) = base32_drain buffer bits
        in (bits', c # cs)
      else (bits, []))"

declare base32_drain.simps [simp del]

fun base32_loop :: "u64 \<Rightarrow> nat \<Rightarrow> bytes \<Rightarrow> u64 \<times> nat \<times> rstr" where
  "base32_loop buffer bits [] = (buffer, bits, [])"
| "base32_loop buffer bits (b # bs) =
     (let buffer = push_bit 8 buffer OR ucast b;
          (bits, cs) = base32_drain buffer (bits + 8);
          (buffer, bits, ds) = base32_loop buffer bits bs
      in (buffer, bits, cs @ ds))"

definition base32_encode :: "bytes \<Rightarrow> rstr" where
  "base32_encode data =
     (let (buffer, bits, result) = base32_loop 0 0 data;
          result = (if bits > 0
                    then result @ [base32_alphabet ! unat (push_bit (5 - bits) buffer AND 0x1F)] else result)
      in result @ replicate ((8 - length result mod 8) mod 8) 61)"

definition base32_value :: "rchar \<Rightarrow> u64 option" where
  "base32_value c =
     (if 65 \<le> c \<and> c \<le> 90 then Some (word_of_nat c - 65)
      else if 50 \<le> c \<and> c \<le> 55 then Some (word_of_nat c - 50 + 26)
      else None)"

fun base32_digits :: "u64 \<Rightarrow> nat \<Rightarrow> rstr \<Rightarrow> bytes option" where
  "base32_digits buffer bits [] = Some []"
| "base32_digits buffer bits (c # cs) =
     (case base32_value c of
        None \<Rightarrow> None
      | Some v \<Rightarrow>
          (let buffer = push_bit 5 buffer OR v; bits = bits + 5
           in if 8 \<le> bits
              then map_option (\<lambda>bs. ucast (drop_bit (bits - 8) buffer) # bs) (base32_digits buffer (bits - 8) cs)
              else base32_digits buffer bits cs))"

definition base32_decode :: "(rchar \<Rightarrow> rstr) \<Rightarrow> rstr \<Rightarrow> bytes option" where
  "base32_decode upper s = base32_digits 0 0 (concat (map upper (trim_end_matches (\<lambda>c. c = 61) s)))"

text \<open>What the code relies on of \<open>to_uppercase\<close>.\<close>

definition ascii_upper :: "(rchar \<Rightarrow> rstr) \<Rightarrow> bool" where
  "ascii_upper upper \<longleftrightarrow> (\<forall>c<128. upper c = [if 97 \<le> c \<and> c \<le> 122 then c - 32 else c])"

section \<open>One-time codes\<close>

definition DIGITS :: nat where "DIGITS = 6"
definition PERIOD :: u64 where "PERIOD = 30"

definition generate_totp :: "(bytes \<Rightarrow> bytes \<Rightarrow> bytes) \<Rightarrow> bytes \<Rightarrow> u64 \<Rightarrow> rstr" where
  "generate_totp hmac secret time =
     (let counter = time div PERIOD;
          hash = hmac secret (be_bytes 8 counter);
          offset = unat (last hash AND 0x0F);
          code = push_bit 24 (ucast (hash ! offset) AND 0x7F :: u32)
                 OR push_bit 16 (ucast (hash ! (offset + 1)))
                 OR push_bit 8 (ucast (hash ! (offset + 2)))
                 OR ucast (hash ! (offset + 3));
          digits = show_nat (unat (code mod 10 ^ DIGITS))
      in replicate (DIGITS - length digits) 48 @ digits)"

text \<open>\<open>[0i64, -1, 1]\<close>, in this order.\<close>

definition verify_code :: "(bytes \<Rightarrow> bytes \<Rightarrow> bytes) \<Rightarrow> u64 \<Rightarrow> bytes \<Rightarrow> rstr \<Rightarrow> bool" where
  "verify_code hmac time secret code =
     list_ex (\<lambda>offset. generate_totp hmac secret (time + offset * PERIOD) = code) [0, - 1, 1]"

section \<open>The secret in the configuration\<close>

definition xor_encrypt :: "bytes \<Rightarrow> bytes \<Rightarrow> bytes" where
  "xor_encrypt data key_material =
     (let key = sha256_finalize (sha256_update sha256_new key_material)
      in map (\<lambda>i. data ! i XOR key ! (i mod 32)) [0..<length data])"

definition tfa_key :: bytes where
  "tfa_key = ascii ''hoptodesk-2fa-key''"

text \<open>\<open>Config2::load\<close>, \<open>set_option\<close> and \<open>save\<close>, on the text of the file (empty where there is none): \<open>readable\<close> and \<open>writable\<close>
  say whether the file can be read and opened for writing then. A configuration that could not be read is not saved.\<close>

definition read_config2 :: "bool \<Rightarrow> rstr \<Rightarrow> config2" where
  "read_config2 readable file = load_config2 (if readable then Some file else None)"

definition store_option :: "bool \<Rightarrow> bool \<Rightarrow> rstr \<Rightarrow> rstr \<Rightarrow> rstr \<Rightarrow> rstr" where
  "store_option readable writable k v file =
     (case snd (config2_set_option (read_config2 readable file) k v) of
        Some content \<Rightarrow> if writable then content else file
      | None \<Rightarrow> file)"

definition save_secret :: "bool \<Rightarrow> bool \<Rightarrow> bytes \<Rightarrow> rstr \<Rightarrow> rstr" where
  "save_secret readable writable secret = store_option readable writable (str ''2fa'') (base32_encode (xor_encrypt secret tfa_key))"

definition load_secret :: "(rchar \<Rightarrow> rstr) \<Rightarrow> config2 \<Rightarrow> bytes option" where
  "load_secret upper cfg2 =
     (let encoded = config2_get_option cfg2 (str ''2fa'')
      in if encoded = [] then None
         else case base32_decode upper encoded of
           None \<Rightarrow> None
         | Some encrypted \<Rightarrow>
             (let secret = xor_encrypt encrypted tfa_key
              in if length secret < 10 \<or> length secret > 64 then None else Some secret))"

definition has_valid_2fa :: "(rchar \<Rightarrow> rstr) \<Rightarrow> config2 \<Rightarrow> bool" where
  "has_valid_2fa upper cfg2 \<longleftrightarrow> load_secret upper cfg2 \<noteq> None"

definition disable_2fa :: "bool \<Rightarrow> bool \<Rightarrow> rstr \<Rightarrow> rstr" where
  "disable_2fa readable writable = store_option readable writable (str ''2fa'') []"

text \<open>Set-up: the pending secret and the file of \<open>Config2\<close>. \<open>random\<close> is what the generator gave, if it worked, and \<open>nanos\<close> the
  clock.\<close>

record tfa_state =
  pending :: "bytes option"
  tfa_file :: rstr

definition fresh_secret :: "bytes option \<Rightarrow> nat \<Rightarrow> bytes" where
  "fresh_secret random nanos =
     (case random of
        Some secret \<Rightarrow> secret
      | None \<Rightarrow> map (\<lambda>i. word_of_nat (drop_bit (i * 3) nanos)) [0..<20])"

definition otpauth_url :: "rstr \<Rightarrow> rstr \<Rightarrow> rstr" where
  "otpauth_url name secret =
     str ''otpauth://totp/HopToDesk%20Connection:'' @ name @ str ''?secret='' @ secret
       @ str ''&issuer=HopToDesk%20Connection&digits='' @ show_nat DIGITS @ str ''&period='' @ show_nat (unat PERIOD)
       @ str ''&algorithm=SHA1''"

definition generate2fa :: "rstr \<Rightarrow> bytes option \<Rightarrow> nat \<Rightarrow> tfa_state \<Rightarrow> rstr \<times> tfa_state" where
  "generate2fa name random nanos s =
     (let secret = fresh_secret random nanos
      in (otpauth_url name (base32_encode secret), s\<lparr>pending := Some secret\<rparr>))"

definition verify2fa :: "(bytes \<Rightarrow> bytes \<Rightarrow> bytes) \<Rightarrow> u64 \<Rightarrow> bool \<Rightarrow> bool \<Rightarrow> rstr \<Rightarrow> tfa_state \<Rightarrow> bool \<times> tfa_state" where
  "verify2fa hmac time readable writable code s =
     (case pending s of
        None \<Rightarrow> (False, s)
      | Some secret \<Rightarrow>
          if verify_code hmac time secret code
          then (True, s\<lparr>tfa_file := save_secret readable writable secret (tfa_file s), pending := None\<rparr>)
          else (False, s))"

section \<open>The code as a picture\<close>

text \<open>\<open>generate_qr_data_uri\<close> from the module matrix of the \<open>qrcode\<close> library on: \<open>qr\<close> is the width and the dark modules row
  by row, or nothing when the library failed. The lengths fit \<open>u32\<close>.\<close>

definition qr_scale :: nat where "qr_scale = 4"
definition qr_border :: nat where "qr_border = 4"

definition qr_img :: "nat \<Rightarrow> nat" where
  "qr_img width = (width + qr_border * 2) * qr_scale"

definition qr_row_bytes :: "nat \<Rightarrow> nat" where
  "qr_row_bytes width = ((qr_img width + 31) div 32) * 4"

definition qr_dark :: "nat \<Rightarrow> bool list \<Rightarrow> nat \<Rightarrow> nat \<Rightarrow> bool" where
  "qr_dark width matrix x y =
     (let px = int x - int (qr_border * qr_scale); py = int y - int (qr_border * qr_scale)
      in if px \<ge> 0 \<and> py \<ge> 0 then
           let mx = nat px div qr_scale; my = nat py div qr_scale
           in mx < width \<and> my < width \<and> matrix ! (my * width + mx)
         else False)"

definition qr_row :: "nat \<Rightarrow> bool list \<Rightarrow> nat \<Rightarrow> bytes" where
  "qr_row width matrix y =
     fold (\<lambda>x row. if qr_dark width matrix x y then row
                   else row[x div 8 := row ! (x div 8) OR push_bit (7 - x mod 8) 1])
       [0..<qr_img width] (replicate (qr_row_bytes width) 0)"

definition bmp_header :: "nat \<Rightarrow> bytes" where
  "bmp_header width =
     (let pixel_data_size = qr_row_bytes width * qr_img width;
          file_size = 14 + 40 + 8 + pixel_data_size;
          le4 = (\<lambda>n. le_bytes 4 (word_of_nat n :: u32))
      in ascii ''BM'' @ le4 file_size @ [0, 0, 0, 0] @ le4 62
         @ le4 40 @ le4 (qr_img width) @ le4 (qr_img width) @ le_bytes 2 (1 :: u16) @ le_bytes 2 (1 :: u16)
         @ le4 0 @ le4 pixel_data_size @ le4 2835 @ le4 2835 @ le4 2 @ le4 0
         @ [0x00, 0x00, 0x00, 0x00] @ [0xFF, 0xFF, 0xFF, 0x00])"

definition qr_bmp :: "nat \<Rightarrow> bool list \<Rightarrow> bytes" where
  "qr_bmp width matrix = bmp_header width @ concat (map (qr_row width matrix) (rev [0..<qr_img width]))"

definition generate_qr_data_uri :: "(nat \<times> bool list) option \<Rightarrow> rstr" where
  "generate_qr_data_uri qr =
     (case qr of
        None \<Rightarrow> []
      | Some (width, matrix) \<Rightarrow> str ''data:image/bmp;base64,'' @ map unat (base64_encode (qr_bmp width matrix)))"

section \<open>Base32 reads back\<close>

text \<open>The bits of a word from the top, and of a digit: both loops carry the same stream of bits.\<close>

definition bits_of :: "nat \<Rightarrow> 'a::len word \<Rightarrow> bool list" where
  "bits_of k w = map (bit w) (rev [0..<k])"

definition digit_bits :: "rchar \<Rightarrow> bool list" where
  "digit_bits c = bits_of 5 (the (base32_value c))"

lemma length_bits_of [simp]: "length (bits_of k w) = k"
  by (simp add: bits_of_def)

lemma length_digit_bits [simp]: "length (digit_bits c) = 5"
  by (simp add: digit_bits_def)

lemma bits_of_0 [simp]: "bits_of 0 w = []"
  by (simp add: bits_of_def)

lemma bits_of_Suc: "bits_of (Suc k) w = bit w k # bits_of k w"
  by (simp add: bits_of_def)

lemma bits_of_add: "bits_of (a + b) w = bits_of a (drop_bit b w) @ bits_of b w"
  by (induction a) (simp_all add: bits_of_Suc bit_drop_bit_eq add.commute)

lemma bits_of_eqI: "(\<And>i. i < k \<Longrightarrow> bit w i = bit v i) \<Longrightarrow> bits_of k w = bits_of k v"
  by (simp add: bits_of_def)

lemma bits_of_push_or:
  fixes w :: u64
  assumes "k + n \<le> 64" "\<And>i. n \<le> i \<Longrightarrow> \<not> bit v i"
  shows "bits_of (k + n) (push_bit n w OR v) = bits_of k w @ bits_of n v"
proof -
  have "bits_of k (drop_bit n (push_bit n w OR v)) = bits_of k w"
    using assms by (intro bits_of_eqI) (simp add: bit_simps)
  moreover have "bits_of n (push_bit n w OR v) = bits_of n v"
    by (intro bits_of_eqI) (simp add: bit_simps)
  ultimately show ?thesis by (simp add: bits_of_add)
qed

lemma bits_of_ucast_byte: "bits_of 8 (ucast (b :: u8) :: u64) = bits_of 8 b"
  by (intro bits_of_eqI) (simp add: bit_simps)

lemma bits_of_byte_of: "bits_of 8 (ucast (w :: u64) :: u8) = bits_of 8 w"
  by (intro bits_of_eqI) (simp add: bit_simps)

lemma bits_of_inj: "bits_of 8 a = bits_of 8 (b :: u8) \<Longrightarrow> a = b"
  by (rule bit_word_eqI) (simp add: bits_of_def)

lemma base32_alphabet_list:
  "base32_alphabet = [65,66,67,68,69,70,71,72,73,74,75,76,77,78,79,80,81,82,83,84,85,86,87,88,89,90,50,51,52,53,54,55]"
  by (simp add: base32_alphabet_def str_simps)

lemma base32_alphabet_value: "i < 32 \<Longrightarrow> base32_value (base32_alphabet ! i) = Some (word_of_nat i)"
proof -
  have "\<forall>i\<in>{..<32}. base32_value (base32_alphabet ! i) = Some (word_of_nat i)"
    by (simp add: base32_alphabet_list base32_value_def lessThan_nat_numeral lessThan_Suc)
  then show "i < 32 \<Longrightarrow> ?thesis" by simp
qed

lemma base32_digit:
  "base32_value (base32_alphabet ! unat (w AND 0x1F :: u64)) = Some (w AND 0x1F)"
  "digit_bits (base32_alphabet ! unat (w AND 0x1F :: u64)) = bits_of 5 w"
proof -
  have "unat (w AND 0x1F) < 32" using unat_and_mask[of "0x1F :: u64" 5 w] by simp
  then show v: "base32_value (base32_alphabet ! unat (w AND 0x1F :: u64)) = Some (w AND 0x1F)"
    by (simp add: base32_alphabet_value)
  have "bit (0x1F :: u64) i" if "i < 5" for i
    using that by (auto simp: less_Suc_eq numeral_eq_Suc)
  then show "digit_bits (base32_alphabet ! unat (w AND 0x1F :: u64)) = bits_of 5 w"
    unfolding digit_bits_def v by (auto intro!: bits_of_eqI simp: bit_simps)
qed

definition base32_char :: "rchar \<Rightarrow> bool" where
  "base32_char c \<longleftrightarrow> base32_value c \<noteq> None"

lemma base32_char_digit [simp]: "base32_char (base32_alphabet ! unat (w AND 0x1F :: u64))"
  by (simp add: base32_char_def base32_digit)

lemma append_chain: "a @ b = c @ d \<Longrightarrow> d @ e = f @ g \<Longrightarrow> a @ b @ e = (c @ f) @ g"
  by (metis append.assoc)

lemma base32_drain_bits:
  "base32_drain buffer bits = (bits', cs) \<Longrightarrow>
    bits_of bits buffer = concat (map digit_bits cs) @ bits_of bits' buffer \<and> bits' < 5 \<and> list_all base32_char cs"
proof (induction buffer bits arbitrary: bits' cs rule: base32_drain.induct)
  case (1 buffer bits)
  show ?case
  proof (cases "5 \<le> bits")
    case True
    then obtain k where k: "bits = 5 + k" by (metis le_Suc_ex)
    obtain b cs' where r: "base32_drain buffer k = (b, cs')" by fastforce
    with 1 True k have "bits_of k buffer = concat (map digit_bits cs') @ bits_of b buffer \<and> b < 5 \<and> list_all base32_char cs'"
      by simp
    moreover have "bits' = b" "cs = base32_alphabet ! unat (drop_bit k buffer AND 0x1F) # cs'"
      using 1(2) r by (simp_all add: k base32_drain.simps[of buffer "5 + k"] Let_def)
    ultimately show ?thesis
      by (simp add: k bits_of_add base32_digit)
  next
    case False
    then show ?thesis using 1(2) by (simp add: base32_drain.simps[of buffer bits])
  qed
qed

lemma base32_loop_bits:
  "base32_loop buffer bits data = (buffer', bits', cs) \<Longrightarrow> bits < 5 \<Longrightarrow>
    bits_of bits buffer @ concat (map (bits_of 8) data) = concat (map digit_bits cs) @ bits_of bits' buffer'
    \<and> bits' < 5 \<and> list_all base32_char cs"
proof (induction data arbitrary: buffer bits buffer' bits' cs)
  case (Cons b bs)
  let ?buf = "push_bit 8 buffer OR ucast b"
  obtain k cs1 where d: "base32_drain ?buf (bits + 8) = (k, cs1)" by fastforce
  obtain buf2 k2 cs2 where l: "base32_loop ?buf k bs = (buf2, k2, cs2)" by (metis prod_cases3)
  have "bits_of (bits + 8) ?buf = bits_of bits buffer @ bits_of 8 b"
    using Cons.prems by (subst bits_of_push_or) (auto simp: bits_of_ucast_byte bit_simps dest: bit_imp_le_length)
  with base32_drain_bits[OF d]
  have 1: "bits_of bits buffer @ bits_of 8 b = concat (map digit_bits cs1) @ bits_of k ?buf" "k < 5" "list_all base32_char cs1"
    by simp_all
  from Cons.IH[OF l 1(2)] Cons.prems d l append_chain[OF 1(1), of "concat (map (bits_of 8) bs)"] 1(3) show ?case
    by (auto simp: Let_def)
qed simp

lemma base32_value_small: "base32_value c = Some v \<Longrightarrow> unat v < 32"
proof -
  assume v: "base32_value c = Some v"
  then have "v = word_of_nat (c - 65) \<and> c \<le> 90 \<or> c \<in> {50, 51, 52, 53, 54, 55}"
    using of_nat_diff[of 65 c, where 'a = "64 word"] by (auto simp: base32_value_def split: if_splits)
  with v show "unat v < 32" by (auto simp: unat_of_nat base32_value_def)
qed

lemma base32_digits_bits:
  "list_all base32_char cs \<Longrightarrow> bits < 8 \<Longrightarrow>
    \<exists>bs rest. base32_digits buffer bits cs = Some bs \<and> length rest < 8 \<and>
      bits_of bits buffer @ concat (map digit_bits cs) = concat (map (bits_of 8) bs) @ rest"
proof (induction cs arbitrary: buffer bits)
  case Nil
  then show ?case by (intro exI[of _ "[]"] exI[of _ "bits_of bits buffer"]) simp
next
  case (Cons c cs)
  then obtain v where v: "base32_value c = Some v" by (auto simp: base32_char_def)
  then have small: "\<not> bit v i" if "5 \<le> i" for i
  proof -
    have "unat v < 2 ^ 5" using base32_value_small[OF v] by simp
    with bit_word_less[of v i 5] that show ?thesis by linarith
  qed
  let ?buf = "push_bit 5 buffer OR v"
  have b: "bits_of (bits + 5) ?buf = bits_of bits buffer @ digit_bits c"
    using Cons.prems small by (subst bits_of_push_or) (auto simp: digit_bits_def v)
  show ?case
  proof (cases "8 \<le> bits + 5")
    case True
    then obtain k where k: "bits + 5 = 8 + k" by (metis le_Suc_ex)
    then have "k < 8" using Cons.prems by simp
    from Cons.IH[OF _ this, of ?buf] Cons.prems obtain bs rest where
      ih: "base32_digits ?buf k cs = Some bs" "length rest < 8"
        "bits_of k ?buf @ concat (map digit_bits cs) = concat (map (bits_of 8) bs) @ rest" by auto
    have "bits_of bits buffer @ digit_bits c = bits_of 8 (drop_bit k ?buf) @ bits_of k ?buf"
      using b k by (simp add: bits_of_add)
    from append_chain[OF this ih(3)]
    have "bits_of bits buffer @ concat (map digit_bits (c # cs))
        = concat (map (bits_of 8) ((ucast (drop_bit k ?buf) :: u8) # bs)) @ rest"
      by (simp add: bits_of_byte_of)
    moreover have "base32_digits buffer bits (c # cs) = Some (ucast (drop_bit k ?buf) # bs)"
      using ih(1) v k by (simp add: Let_def)
    ultimately show ?thesis using ih(2) by blast
  next
    case False
    then have "bits + 5 < 8" by simp
    from Cons.IH[OF _ this, of ?buf] Cons.prems b v False show ?thesis by (auto simp: Let_def)
  qed
qed

lemma concat_blocks_inj:
  assumes "concat (map f xs) @ a = concat (map f ys) @ b" "length xs = length ys"
    and "\<And>x. length (f x) = k" "\<And>x y. f x = f y \<Longrightarrow> x = y"
  shows "xs = ys"
  using assms(1,2)
proof (induction xs arbitrary: ys)
  case (Cons x xs)
  then obtain y ys' where "ys = y # ys'" by (cases ys) auto
  with Cons assms(3,4) show ?case by auto
qed simp

lemma length_concat_blocks: "(\<And>x. length (f x) = k) \<Longrightarrow> length (concat (map f xs)) = k * length xs"
  by (induction xs) auto

lemma base32_digits_of_bits:
  assumes "list_all base32_char cs" "concat (map digit_bits cs) = concat (map (bits_of 8) data) @ pad" "length pad < 8"
  shows "base32_digits 0 0 cs = Some data"
proof -
  obtain bs rest where bs: "base32_digits 0 0 cs = Some bs" "length rest < 8"
      "concat (map digit_bits cs) = concat (map (bits_of 8) bs) @ rest"
    using base32_digits_bits[OF assms(1), of 0 0] by auto
  have "length (concat (map (bits_of 8) bs) @ rest) = length (concat (map (bits_of 8) data) @ pad)"
    using bs(3) assms(2) by simp
  then have "8 * length bs + length rest = 8 * length data + length pad"
    by (simp add: length_concat_blocks[of "bits_of 8 :: u8 \<Rightarrow> bool list" 8])
  then have "length bs = length data" using bs(2) assms(3) by linarith
  then have "bs = data"
    using bs(3) assms(2) by (intro concat_blocks_inj[of "bits_of 8" bs rest data pad 8]) (auto dest: bits_of_inj)
  with bs(1) show ?thesis by simp
qed

text \<open>The digits before the padding.\<close>

definition base32_body :: "bytes \<Rightarrow> rstr" where
  "base32_body data =
     (let (buffer, bits, result) = base32_loop 0 0 data
      in if bits > 0 then result @ [base32_alphabet ! unat (push_bit (5 - bits) buffer AND 0x1F)] else result)"

lemma base32_encode_body:
  "base32_encode data = base32_body data @ replicate ((8 - length (base32_body data) mod 8) mod 8) 61"
  by (simp add: base32_encode_def base32_body_def Let_def split: prod.splits)

lemma base32_body_bits:
  "list_all base32_char (base32_body data) \<and>
   (\<exists>pad. concat (map digit_bits (base32_body data)) = concat (map (bits_of 8) data) @ pad \<and> length pad < 8)"
proof -
  obtain buffer bits cs where l: "base32_loop 0 0 data = (buffer, bits, cs)" by (metis prod_cases3)
  from base32_loop_bits[OF l] have b: "concat (map (bits_of 8) data) = concat (map digit_bits cs) @ bits_of bits buffer"
    "bits < 5" "list_all base32_char cs" by auto
  have "bits_of 5 (push_bit (5 - bits) buffer) = bits_of bits buffer @ bits_of (5 - bits) (0 :: u64)"
    using bits_of_push_or[of bits "5 - bits" 0 buffer] b(2) by simp
  then show ?thesis
    using b l by (auto simp: base32_body_def base32_digit)
qed

lemma base32_char_ascii: "base32_char c \<Longrightarrow> c < 128 \<and> c \<noteq> 61 \<and> \<not> (97 \<le> c \<and> c \<le> 122)"
  by (auto simp: base32_char_def base32_value_def split: if_splits)

lemma concat_singles: "(\<forall>c\<in>set cs. f c = [c]) \<Longrightarrow> concat (map f cs) = cs"
  by (induction cs) auto

lemma base32_decode_encode:
  assumes "ascii_upper upper"
  shows "base32_decode upper (base32_encode data) = Some data"
proof -
  have c: "list_all base32_char (base32_body data)" using base32_body_bits by simp
  have "trim_end_matches (\<lambda>c. c = 61) (base32_encode data) = trim_end_matches (\<lambda>c. c = 61) (base32_body data)"
    by (simp add: base32_encode_body trim_end_matches_def dropWhile_append)
  also have "\<dots> = base32_body data"
    using c base32_char_ascii by (intro trim_end_matches_id) (auto simp: list_all_iff)
  finally have "trim_end_matches (\<lambda>c. c = 61) (base32_encode data) = base32_body data" .
  moreover have "concat (map upper (base32_body data)) = base32_body data"
    using c assms base32_char_ascii by (intro concat_singles) (auto simp: list_all_iff ascii_upper_def)
  ultimately show ?thesis
    using base32_body_bits[of data] base32_digits_of_bits by (auto simp: base32_decode_def)
qed

section \<open>The codes\<close>

lemma length_show_nat: "n < 10 ^ k \<Longrightarrow> 0 < k \<Longrightarrow> length (show_nat n) \<le> k"
proof (induction n arbitrary: k rule: show_nat.induct)
  case (1 n)
  show ?case
  proof (cases "n < 10")
    case False
    then obtain j where j: "k = Suc j" "0 < j" using 1(2,3) by (cases k; cases "k - 1") auto
    with 1(2) have "n div 10 < 10 ^ j" by (simp add: less_mult_imp_div_less mult.commute)
    with 1(1)[OF False this j(2)] False j show ?thesis by (simp add: show_nat.simps[of n])
  qed (use 1 in \<open>simp add: show_nat.simps[of n]\<close>)
qed

lemma totp_digits:
  "length (generate_totp hmac secret time) = DIGITS \<and> list_all is_ascii_digit (generate_totp hmac secret time)"
proof -
  have *: "length (replicate (DIGITS - length (show_nat (unat (c mod 10 ^ DIGITS)))) 48 @ show_nat (unat (c mod 10 ^ DIGITS))) = DIGITS
      \<and> list_all is_ascii_digit (replicate (DIGITS - length (show_nat (unat (c mod 10 ^ DIGITS)))) 48 @ show_nat (unat (c mod 10 ^ DIGITS)))"
    for c :: u32
  proof -
    have "unat (c mod 10 ^ DIGITS) < 10 ^ 6"
      using word_mod_less_divisor[of "10 ^ DIGITS" c] by (simp add: DIGITS_def unat_mod_distrib)
    then have "length (show_nat (unat (c mod 10 ^ DIGITS))) \<le> DIGITS" using length_show_nat[of _ 6] by (simp add: DIGITS_def)
    then show ?thesis
      using show_nat_digits[of _ "unat (c mod 10 ^ DIGITS)"] by (auto simp: list_all_iff is_ascii_digit_def)
  qed
  show ?thesis unfolding generate_totp_def Let_def by (rule *)
qed

lemma verify_code_iff:
  "verify_code hmac time secret code \<longleftrightarrow>
     code \<in> {generate_totp hmac secret time, generate_totp hmac secret (time - PERIOD), generate_totp hmac secret (time + PERIOD)}"
  by (auto simp: verify_code_def)

lemma xor_encrypt_twice: "xor_encrypt (xor_encrypt data k) k = data"
  by (rule nth_equalityI) (simp_all add: xor_encrypt_def Let_def xor.assoc)

lemma length_xor_encrypt [simp]: "length (xor_encrypt data k) = length data"
  by (simp add: xor_encrypt_def Let_def)

text \<open>A file that was read and could be written holds the new value, and every other option as before; else it stays as it is.\<close>

lemma read_config2_readable: "\<not> c2_read_failed (read_config2 True file)"
proof -
  have l: "config2_line (b, c) l = Some (b', c') \<Longrightarrow> c2_read_failed c' = c2_read_failed c" for b c l b' c'
    by (auto simp: config2_line_def Let_def split: if_splits option.splits)
  have "fold_lines config2_line (b, c) ls = Some (b', c') \<Longrightarrow> c2_read_failed c' = c2_read_failed c" for b c ls b' c'
  proof (induction ls arbitrary: b c)
    case (Cons x ls)
    then show ?case by (cases "config2_line (b, c) x") (auto dest: l)
  qed simp
  then show ?thesis
    by (auto simp: read_config2_def load_config2_def config2_load_def config2_empty_def split: option.split)
qed

lemma store_option_reads_back:
  assumes "config2_wf (read_config2 True file)" "toml_key k"
  shows "config2_get_option (read_config2 True (store_option True True k v file)) k' =
      (if k' = k then v else config2_get_option (read_config2 True file) k')"
proof -
  define cfg where "cfg = fst (config2_set_option (read_config2 True file) k v)"
  have "\<not> c2_read_failed cfg" using read_config2_readable by (simp add: cfg_def config2_set_option_def Let_def)
  then obtain content where content: "config2_save cfg = Some content" by (simp add: config2_save_def)
  have wf: "config2_wf cfg"
    using assms options_ok_set by (simp add: cfg_def config2_wf_def config2_set_option_def Let_def)
  have "store_option True True k v file = content"
    using content by (simp add: store_option_def cfg_def config2_set_option_def Let_def)
  then have "read_config2 True (store_option True True k v file) = config2_kept cfg"
    using config2_load_save[OF wf content] by (simp add: read_config2_def load_config2_def)
  moreover have "config2_get_option (config2_kept cfg) k' = config2_get_option cfg k'"
    by (simp add: config2_kept_def config2_get_option_def get_sorted_options)
  ultimately show ?thesis unfolding cfg_def using config2_options.get_put[of "read_config2 True file" k v k'] by simp
qed

lemma store_option_lost: "\<not> (readable \<and> writable) \<Longrightarrow> store_option readable writable k v file = file"
  by (auto simp: store_option_def read_config2_def load_config2_def config2_load_def config2_set_option_def config2_save_def Let_def
      split: option.split)

lemma tfa_option_key: "toml_key (str ''2fa'')"
  by (simp add: key_simps)

lemma load_save_secret:
  assumes "ascii_upper upper" "10 \<le> length secret" "length secret \<le> 64" "config2_wf (read_config2 True file)"
  shows "load_secret upper (read_config2 True (save_secret True True secret file)) = Some secret"
proof -
  let ?e = "base32_encode (xor_encrypt secret tfa_key)"
  have "?e \<noteq> []"
  proof
    assume "?e = []"
    then have "Some (xor_encrypt secret tfa_key) = base32_decode upper []"
      using base32_decode_encode[OF assms(1), of "xor_encrypt secret tfa_key"] by simp
    then have "length (xor_encrypt secret tfa_key) = 0" by (simp add: base32_decode_def trim_end_matches_def)
    then show False using assms(2) by simp
  qed
  moreover have "config2_get_option (read_config2 True (save_secret True True secret file)) (str ''2fa'') = ?e"
    using store_option_reads_back[OF assms(4) tfa_option_key] by (simp add: save_secret_def)
  ultimately show ?thesis
    using assms base32_decode_encode[OF assms(1), of "xor_encrypt secret tfa_key"]
    by (simp add: load_secret_def xor_encrypt_twice)
qed

lemma load_secret_disabled:
  "config2_wf (read_config2 True file) \<Longrightarrow> load_secret upper (read_config2 True (disable_2fa True True file)) = None"
  using store_option_reads_back[OF _ tfa_option_key] by (simp add: load_secret_def disable_2fa_def)

section \<open>The pixels\<close>

definition qr_paint :: "(nat \<Rightarrow> bool) \<Rightarrow> nat \<Rightarrow> bytes \<Rightarrow> bytes" where
  "qr_paint d x row = (if d x then row else row[x div 8 := row ! (x div 8) OR push_bit (7 - x mod 8) 1])"

lemma same_bit_place:
  assumes "j div 8 = n div 8" "7 - j mod 8 = 7 - (n :: nat) mod 8"
  shows "j = n"
proof -
  have "j mod 8 < 8" "n mod 8 < 8" by simp_all
  with assms(2) have "j mod 8 = n mod 8" by linarith
  with assms(1) show ?thesis by (metis div_mult_mod_eq)
qed

lemma qr_paint_bit:
  assumes "n div 8 < length row" "j div 8 < length row"
  shows "bit (qr_paint d n row ! (j div 8)) (7 - j mod 8) \<longleftrightarrow> bit (row ! (j div 8)) (7 - j mod 8) \<or> (j = n \<and> \<not> d n)"
proof (cases "j div 8 = n div 8")
  case True
  then show ?thesis using assms same_bit_place[OF True] by (auto simp: qr_paint_def bit_simps)
qed (auto simp: qr_paint_def)

lemma qr_row_fold:
  assumes "n \<le> 8 * r"
  shows "length (fold (qr_paint d) [0..<n] (replicate r 0)) = r
    \<and> (\<forall>j<8 * r. bit (fold (qr_paint d) [0..<n] (replicate r 0) ! (j div 8)) (7 - j mod 8) \<longleftrightarrow> j < n \<and> \<not> d j)"
  using assms
proof (induction n)
  case (Suc n)
  define row where "row = fold (qr_paint d) [0..<n] (replicate r 0)"
  from Suc have l: "length row = r" and ih: "\<forall>j<8 * r. bit (row ! (j div 8)) (7 - j mod 8) \<longleftrightarrow> j < n \<and> \<not> d j"
    by (auto simp: row_def)
  have "fold (qr_paint d) [0..<Suc n] (replicate r 0) = qr_paint d n row" by (simp add: row_def)
  moreover have "length (qr_paint d n row) = r" using l by (simp add: qr_paint_def)
  moreover have "bit (qr_paint d n row ! (j div 8)) (7 - j mod 8) \<longleftrightarrow> j < Suc n \<and> \<not> d j" if "j < 8 * r" for j
    using qr_paint_bit[of n row j d] ih that l Suc.prems
    by (auto simp: less_Suc_eq less_mult_imp_div_less mult.commute)
  ultimately show ?case by simp
qed simp

lemma qr_row_painted: "qr_row width matrix y = fold (qr_paint (\<lambda>x. qr_dark width matrix x y)) [0..<qr_img width] (replicate (qr_row_bytes width) 0)"
  unfolding qr_row_def by (intro fold_cong refl ext) (simp add: qr_paint_def)

lemma qr_row_fits: "qr_img width \<le> 8 * qr_row_bytes width"
  unfolding qr_row_bytes_def by linarith

lemma length_qr_row: "length (qr_row width matrix y) = qr_row_bytes width"
  using qr_row_fold[OF qr_row_fits, of "\<lambda>x. qr_dark width matrix x y"] unfolding qr_row_painted by (rule conjunct1)

lemma qr_row_pixel:
  assumes "x < qr_img width"
  shows "bit (qr_row width matrix y ! (x div 8)) (7 - x mod 8) \<longleftrightarrow> \<not> qr_dark width matrix x y"
proof -
  have "x < 8 * qr_row_bytes width" using assms qr_row_fits[of width] by linarith
  with conjunct2[OF qr_row_fold[OF qr_row_fits, of "\<lambda>x. qr_dark width matrix x y"]] assms
  show ?thesis unfolding qr_row_painted by blast
qed

lemma length_concat_same: "(\<And>x. x \<in> set xs \<Longrightarrow> length (f x) = k) \<Longrightarrow> length (concat (map f xs)) = k * length xs"
  by (induction xs) auto

lemma nth_concat_same:
  "(\<And>x. x \<in> set xs \<Longrightarrow> length (f x) = k) \<Longrightarrow> i < length xs \<Longrightarrow> j < k \<Longrightarrow> concat (map f xs) ! (k * i + j) = f (xs ! i) ! j"
proof (induction xs arbitrary: i)
  case (Cons x xs)
  show ?case
  proof (cases i)
    case 0
    then show ?thesis using Cons.prems by (simp add: nth_append)
  next
    case (Suc i')
    then have "k * i + j = length (f x) + (k * i' + j)" using Cons.prems by simp
    then show ?thesis using Cons Suc by (simp only: list.map concat.simps nth_append_length_plus) simp
  qed
qed simp

lemma length_bmp_header: "length (bmp_header width) = 62"
  by (simp add: bmp_header_def Let_def ascii_def)

lemma qr_bmp_pixel:
  assumes "x < qr_img width" "y < qr_img width"
  shows "bit (qr_bmp width matrix ! (62 + qr_row_bytes width * (qr_img width - 1 - y) + x div 8)) (7 - x mod 8)
    \<longleftrightarrow> \<not> qr_dark width matrix x y"
proof -
  let ?n = "qr_img width" and ?r = "qr_row_bytes width"
  have d: "x div 8 < ?r" using assms(1) qr_row_fits[of width] by (simp add: less_mult_imp_div_less mult.commute)
  have "qr_bmp width matrix ! (62 + (?r * (?n - 1 - y) + x div 8))
      = concat (map (qr_row width matrix) (rev [0..<?n])) ! (?r * (?n - 1 - y) + x div 8)"
    unfolding qr_bmp_def by (subst length_bmp_header[of width, symmetric], rule nth_append_length_plus)
  also have "\<dots> = qr_row width matrix (rev [0..<?n] ! (?n - 1 - y)) ! (x div 8)"
    using assms(2) d by (intro nth_concat_same) (simp_all add: length_qr_row)
  also have "rev [0..<?n] ! (?n - 1 - y) = y"
    using assms(2) by (simp add: rev_nth)
  finally show ?thesis using qr_row_pixel[OF assms(1)] by (simp add: add.assoc)
qed

lemma length_qr_bmp: "length (qr_bmp width matrix) = 62 + qr_row_bytes width * qr_img width"
  by (simp add: qr_bmp_def length_bmp_header length_concat_same[of _ _ "qr_row_bytes width"] length_qr_row)

section \<open>Properties\<close>

text \<open>C27: Setting up the second factor, on the file of the options: the code of the current half minute, or of the one
  before or after, is taken, and no other. It ends the set-up, and where the file can be read and written, the pending secret
  loads back from it, through the mask, base32 and the text of the file, with every other option as it was. Where it cannot, the code
  is taken all the same and the file stays as it is. A wrong code changes nothing. Disabling removes the secret from
  a file that can be read and written, and nothing else. A code is six digits.\<close>

theorem second_factor_setup:
  assumes "ascii_upper upper" "10 \<le> length secret" "length secret \<le> 64" "config2_wf (read_config2 True (tfa_file s))"
    and "generate2fa name (Some secret) nanos s = (url, s1)" "verify2fa hmac time readable writable code s1 = (ok, s2)"
  shows "(ok \<longleftrightarrow> code \<in> {generate_totp hmac secret time, generate_totp hmac secret (time - PERIOD), generate_totp hmac secret (time + PERIOD)}) \<and>
    (if \<not> ok then s2 = s1
     else pending s2 = None \<and> length code = 6 \<and> list_all is_ascii_digit code \<and>
       (if readable \<and> writable
        then load_secret upper (read_config2 True (tfa_file s2)) = Some secret \<and>
          (\<forall>k. k \<noteq> str ''2fa'' \<longrightarrow> config2_get_option (read_config2 True (tfa_file s2)) k = config2_get_option (read_config2 True (tfa_file s)) k)
        else tfa_file s2 = tfa_file s)) \<and>
    (if readable \<and> writable
     then load_secret upper (read_config2 True (disable_2fa readable writable (tfa_file s))) = None \<and>
       (\<forall>k. k \<noteq> str ''2fa'' \<longrightarrow> config2_get_option (read_config2 True (disable_2fa readable writable (tfa_file s))) k =
          config2_get_option (read_config2 True (tfa_file s)) k)
     else disable_2fa readable writable (tfa_file s) = tfa_file s)"
proof -
  have p: "pending s1 = Some secret" "tfa_file s1 = tfa_file s" using assms(5) by (auto simp: generate2fa_def fresh_secret_def)
  have "ok \<longleftrightarrow> verify_code hmac time secret code" using assms(6) p by (auto simp: verify2fa_def split: if_splits)
  moreover have "s2 = (if ok then s1\<lparr>tfa_file := save_secret readable writable secret (tfa_file s), pending := None\<rparr> else s1)"
    using assms(6) p by (auto simp: verify2fa_def split: if_splits)
  moreover have "length code = 6 \<and> list_all is_ascii_digit code" if "verify_code hmac time secret code"
    using that totp_digits by (auto simp: verify_code_iff DIGITS_def)
  moreover note store_option_reads_back[OF assms(4) tfa_option_key] store_option_lost[of readable writable]
  ultimately show ?thesis
    using load_save_secret[OF assms(1-4)] load_secret_disabled[OF assms(4)]
    by (simp add: verify_code_iff save_secret_def disable_2fa_def)
qed

text \<open>A machine with a rendezvous server of its own sets up a secret.\<close>

definition demo_tfa :: tfa_state where
  "demo_tfa = \<lparr>pending = None, tfa_file = store_option True True (str ''relay'') [97] []\<rparr>"

lemma demo_tfa_wf: "config2_wf (read_config2 True (tfa_file demo_tfa))"
proof -
  have empty: "read_config2 True [] = config2_empty"
    by (simp add: read_config2_def load_config2_def config2_load_def config2_empty_def)
  have wf: "config2_wf (fst (config2_set_option config2_empty (str ''relay'') [97]))"
    by (simp add: config2_wf_def config2_set_option_def config2_empty_def Let_def options_set_def options_ok_def key_simps i32_def)
  obtain c where c: "config2_save (fst (config2_set_option config2_empty (str ''relay'') [97])) = Some c"
    by (simp add: config2_save_def config2_set_option_def config2_empty_def Let_def)
  then have "tfa_file demo_tfa = c"
    by (simp add: demo_tfa_def store_option_def empty config2_set_option_def Let_def)
  then have "read_config2 True (tfa_file demo_tfa) = config2_kept (fst (config2_set_option config2_empty (str ''relay'') [97]))"
    using config2_load_save[OF wf c] by (simp add: read_config2_def load_config2_def)
  then show ?thesis using wf by (simp add: config2_wf_def config2_kept_def options_ok_sorted)
qed

theorem second_factor_setup_witness:
  "load_secret (\<lambda>c. [if 97 \<le> c \<and> c \<le> 122 then c - 32 else c]) (read_config2 True (tfa_file (snd
      (verify2fa hmac_sha1 59 True True (generate_totp hmac_sha1 (replicate 20 1) 59) (snd (generate2fa [] (Some (replicate 20 1)) 0 demo_tfa))))))
    = Some (replicate 20 1)"
proof -
  let ?u = "\<lambda>c. [if 97 \<le> c \<and> c \<le> 122 then c - 32 else c]"
  have "ascii_upper ?u" by (simp add: ascii_upper_def)
  from second_factor_setup[OF this _ _ demo_tfa_wf prod.collapse[symmetric] prod.collapse[symmetric], of "replicate 20 1" hmac_sha1 59 True True
      "generate_totp hmac_sha1 (replicate 20 1) 59" "[]" 0]
  show ?thesis by simp
qed

text \<open>The picture of the set-up code is a bitmap of the size its header announces, with rows of whole 32-bit words,
  in which the bit of a pixel, rows counted from below, is clear exactly where the module there is dark.\<close>

theorem qr_picture:
  assumes "x < qr_img width" "y < qr_img width"
  shows "length (qr_bmp width matrix) = 62 + qr_row_bytes width * qr_img width \<and> 4 dvd qr_row_bytes width \<and>
    (bit (qr_bmp width matrix ! (62 + qr_row_bytes width * (qr_img width - 1 - y) + x div 8)) (7 - x mod 8)
      \<longleftrightarrow> \<not> qr_dark width matrix x y)"
  using qr_bmp_pixel[OF assms] length_qr_bmp by (simp add: qr_row_bytes_def)

theorem qr_picture_witness: "length (qr_bmp 1 [True]) = 62 + qr_row_bytes 1 * qr_img 1 \<and> qr_dark 1 [True] 16 16"
  using qr_picture[of 16 1 16 "[True]"] by (simp add: qr_img_def qr_border_def qr_scale_def qr_dark_def)

end
