(* ===== verification/Session_Login.thy ===== *)
theory Session_Login
  imports Two_Factor Framing
begin

text \<open>
  \<open>src/src/server.rs\<close>, \<open>run_session_public\<close> up to the start of the session, \<open>handle_invite_request\<close>, the counting of wrong
  passwords and their rotation, with \<open>crypto_box_open\<close> of \<open>crypto.rs\<close> and \<open>take_switch_sides\<close> of \<open>cm.rs\<close>: who is let in.
  Every receiving loop of the code is a phase; one turn of a loop is one step, and \<open>turn\<close> is what the turn sees
  from outside: the clocks, what was received, whether the connection still takes data, what the
  connection manager's window answered, random bytes, and what other processes wrote to the
  configuration. Messages are taken after protobuf decoding; \<open>Garbage\<close> is what does not decode.
\<close>

section \<open>Messages\<close>

datatype session_union = FileTransfer | PortForward rstr int | ViewCamera | TerminalSession

record login_request =
  lr_my_id :: rstr
  lr_my_name :: rstr
  lr_my_platform :: rstr
  lr_password :: bytes
  lr_union :: "session_union option"

record invite_request =
  ir_from_id :: rstr
  ir_from_name :: rstr
  ir_password :: rstr

datatype peer_msg =
    TestDelay
  | MiscMsg
  | PublicKey bytes bytes
  | LoginRequest login_request
  | SwitchSidesResponse bytes login_request
  | InviteRequest invite_request
  | Auth2fa rstr
  | OtherMsg

datatype recv = TimedOut | Broken | Garbage | Received peer_msg

datatype permission = Keyboard | Clipboard | Audio | File | Restart

datatype srv_msg =
    SignedIdPk rstr bytes "bytes option"
  | InitialPublicKey bytes
  | HashChallenge rstr rstr
  | KeepAlive
  | LoginError rstr
  | PeerInfo bool bool
  | PermissionInfo permission bool
  | InviteResponse bool rstr

datatype cm_event =
    CmInfo rstr rstr rstr rstr
  | CmInvite rstr rstr rstr rstr
  | CmSpawn rstr
  | CmConnected rstr
  | CmCleanup rstr
  | CmEnded rstr

section \<open>State\<close>

record store =
  st_cfg :: config
  st_cfg2 :: config2

record turn =
  t_now :: nat
  t_unix :: nat
  t_recv :: recv
  t_up :: bool
  t_cm :: "bool option"
  t_fresh :: bytes
  t_other :: "store \<Rightarrow> store"

text \<open>What is fixed for the session: the HMAC of \<open>ring\<close>, the case mapping, the Diffie-Hellman function, the ids and keys.\<close>

record env =
  e_hmac :: "bytes \<Rightarrow> bytes \<Rightarrow> bytes"
  e_upper :: "rchar \<Rightarrow> rstr"
  e_dh :: "bytes \<Rightarrow> bytes \<Rightarrow> bytes"
  e_id :: rstr
  e_signing_sk :: bytes
  e_signing_pk :: bytes
  e_eph_sk :: bytes
  e_eph_pk :: bytes

text \<open>\<open>s_attempts\<close> is the process-wide \<open>ATTEMPTS\<close>, \<open>s_switch\<close> the files of \<open>record_switch_sides\<close>, \<open>s_cm_session\<close> the
  \<open>CURRENT_CM_SESSION\<close>.\<close>

record session =
  s_store :: store
  s_sent :: "srv_msg list"
  s_key :: "bytes option"
  s_max_frame :: nat
  s_salt :: rstr
  s_challenge :: rstr
  s_attempts :: "rstr \<times> nat"
  s_switch :: "(bytes \<times> rstr) list"
  s_cm :: "cm_event list"
  s_cm_session :: "rstr option"

datatype session_kind = Desktop | Files | Shell | Tunnel rstr int

datatype phase =
    Greeting
  | AwaitKey
  | AwaitLogin nat nat nat
  | Approval rstr nat nat login_request
  | AwaitCode bytes nat login_request "rstr option"
  | AwaitAnswer rstr nat nat
  | Started session_kind rstr login_request
  | Over bool

text \<open>\<open>Over True\<close> is \<open>Ok(())\<close>, \<open>Over False\<close> an error. Every step ends in a phase and a state.\<close>

type_synonym outcome = "phase \<times> session"

definition say :: "srv_msg \<Rightarrow> session \<Rightarrow> session" where
  "say m s = s\<lparr>s_sent := s_sent s @ [m]\<rparr>"

definition cm :: "cm_event list \<Rightarrow> session \<Rightarrow> session" where
  "cm es s = s\<lparr>s_cm := s_cm s @ es\<rparr>"

text \<open>\<open>stream.send_msg(..)?\<close> and what follows it.\<close>

definition try_say :: "turn \<Rightarrow> srv_msg \<Rightarrow> session \<Rightarrow> (session \<Rightarrow> outcome) \<Rightarrow> outcome" where
  "try_say t m s k = (if t_up t then k (say m s) else (Over False, s))"

section \<open>Key exchange\<close>

definition crypto_box_beforenm :: "(bytes \<Rightarrow> bytes \<Rightarrow> bytes) \<Rightarrow> bytes \<Rightarrow> bytes \<Rightarrow> bytes" where
  "crypto_box_beforenm dh our_sk their_pk = hsalsa20 (dh our_sk their_pk) (replicate 16 0)"

definition crypto_box_seal :: "(bytes \<Rightarrow> bytes \<Rightarrow> bytes) \<Rightarrow> bytes \<Rightarrow> bytes \<Rightarrow> bytes \<Rightarrow> bytes \<Rightarrow> bytes" where
  "crypto_box_seal dh their_pk our_sk nonce plaintext =
     secretbox_seal (crypto_box_beforenm dh our_sk their_pk) nonce plaintext"

definition crypto_box_open :: "(bytes \<Rightarrow> bytes \<Rightarrow> bytes) \<Rightarrow> bytes \<Rightarrow> bytes \<Rightarrow> bytes \<Rightarrow> bytes \<Rightarrow> bytes option" where
  "crypto_box_open dh their_pk our_sk nonce sealed =
     secretbox_open (crypto_box_beforenm dh our_sk their_pk) nonce sealed"

definition try_setup_encryption :: "env \<Rightarrow> bytes \<Rightarrow> bytes \<Rightarrow> session \<Rightarrow> session" where
  "try_setup_encryption e their_pk sealed_key s =
     (if length their_pk = 32 \<and> sealed_key \<noteq> [] then
        (case crypto_box_open (e_dh e) their_pk (e_eph_sk e) (replicate 24 0) sealed_key of
           Some sym_key \<Rightarrow> if length sym_key = 32 then s\<lparr>s_key := Some sym_key\<rparr> else s
         | None \<Rightarrow> s)
      else s)"

section \<open>Passwords\<close>

definition password_hash :: "rstr \<Rightarrow> rstr \<Rightarrow> rstr \<Rightarrow> bytes" where
  "password_hash pw slt challenge = compute_password_hash (utf8 pw) (utf8 slt) (utf8 challenge)"

definition compute_prehashed_check :: "rstr \<Rightarrow> rstr \<Rightarrow> bytes" where
  "compute_prehashed_check pw challenge =
     (let d1 = sha256_finalize (sha256_update sha256_new (utf8 pw))
      in sha256_finalize (sha256_update (sha256_update sha256_new d1) (utf8 challenge)))"

definition answers :: "rstr \<Rightarrow> rstr \<Rightarrow> rstr \<Rightarrow> bytes \<Rightarrow> bool" where
  "answers slt challenge pw given \<longleftrightarrow>
     given = password_hash pw slt challenge \<or> given = compute_prehashed_check pw challenge"

definition login_password_ok :: "rstr \<Rightarrow> rstr \<Rightarrow> config \<Rightarrow> bytes \<Rightarrow> bool" where
  "login_password_ok slt challenge cfg given \<longleftrightarrow>
     length given = 32 \<and>
     (password cfg \<noteq> [] \<and> answers slt challenge (password cfg) given \<or>
      permanent_password cfg \<noteq> [] \<and> answers slt challenge (permanent_password cfg) given)"

text \<open>While the approval window is open the temporary password is not compared with the empty one.\<close>

definition approval_password_ok :: "rstr \<Rightarrow> rstr \<Rightarrow> config \<Rightarrow> bytes \<Rightarrow> bool" where
  "approval_password_ok slt challenge cfg given \<longleftrightarrow>
     answers slt challenge (password cfg) given \<or>
     permanent_password cfg \<noteq> [] \<and> answers slt challenge (permanent_password cfg) given"

definition rotate_password_if_needed :: "bytes \<Rightarrow> store \<Rightarrow> store" where
  "rotate_password_if_needed random st =
     (if config2_get_option (st_cfg2 st) (str ''unattended-access'') \<noteq> str ''Y'' then
        (let cfg = (st_cfg st)\<lparr>password := generate_random_string (take 6 random)\<rparr>
         in if config_save cfg = None then st else st\<lparr>st_cfg := cfg\<rparr>)
      else st)"

definition MAX_CONSECUTIVE_FAILURES :: nat where
  "MAX_CONSECUTIVE_FAILURES = 10"

definition count_temporary_password_attempt :: "bytes \<Rightarrow> rstr \<Rightarrow> bool \<Rightarrow> session \<Rightarrow> session" where
  "count_temporary_password_attempt random current success s =
     (if current = [] then s
      else
        let n = (if fst (s_attempts s) \<noteq> current then 0 else snd (s_attempts s))
        in if success then s\<lparr>s_attempts := (current, 0)\<rparr>
           else if n + 1 < MAX_CONSECUTIVE_FAILURES then s\<lparr>s_attempts := (current, n + 1)\<rparr>
           else s\<lparr>s_attempts := (current, 0), s_store := rotate_password_if_needed random (s_store s)\<rparr>)"

section \<open>Switching sides\<close>

definition parse_u64 :: "rstr \<Rightarrow> nat option" where
  "parse_u64 s =
     (let ds = (if s \<noteq> [] \<and> hd s = 43 then tl s else s)
      in if ds = [] then None
         else case digits_value 0 ds of None \<Rightarrow> None | Some n \<Rightarrow> if n < 2 ^ 64 then Some n else None)"

definition SWITCH_SIDES_VALID_SECS :: nat where
  "SWITCH_SIDES_VALID_SECS = 60"

definition record_switch_sides :: "bytes \<Rightarrow> rstr \<Rightarrow> nat \<Rightarrow> (bytes \<times> rstr) list \<Rightarrow> (bytes \<times> rstr) list" where
  "record_switch_sides uuid peer_id now files = AList.update uuid (peer_id @ [10] @ show_nat now) files"

text \<open>The file is removed when it is read, whatever it says.\<close>

definition take_switch_sides :: "bytes \<Rightarrow> rstr \<Rightarrow> nat \<Rightarrow> (bytes \<times> rstr) list \<Rightarrow> bool \<times> (bytes \<times> rstr) list" where
  "take_switch_sides uuid peer_id now files =
     (if length uuid \<noteq> 16 then (False, files)
      else case map_of files uuid of
        None \<Rightarrow> (False, files)
      | Some data \<Rightarrow>
          (let (recorded_id, recorded_at) = (case split_once 10 data of None \<Rightarrow> ([], []) | Some p \<Rightarrow> p);
               age = (case parse_u64 recorded_at of
                        None \<Rightarrow> None
                      | Some at \<Rightarrow> if at \<le> now then Some (now - at) else None)
           in (recorded_id = peer_id \<and> (case age of None \<Rightarrow> False | Some a \<Rightarrow> a < SWITCH_SIDES_VALID_SECS),
               AList.delete uuid files)))"

section \<open>Letting in\<close>

definition session_kind_of :: "login_request \<Rightarrow> session_kind" where
  "session_kind_of lr =
     (case lr_union lr of
        Some FileTransfer \<Rightarrow> Files
      | Some TerminalSession \<Rightarrow> Shell
      | Some (PortForward host port) \<Rightarrow>
          Tunnel (if host = [] then str ''127.0.0.1'' else host) (if port = 0 then 3389 else port mod 65536)
      | _ \<Rightarrow> Desktop)"

definition denied :: "config2 \<Rightarrow> rstr \<Rightarrow> bool" where
  "denied cfg2 option = (config2_get_option cfg2 option = str ''N'')"

text \<open>Why a kind of session is refused, if it is.\<close>

definition refusal :: "config2 \<Rightarrow> session_kind \<Rightarrow> rstr option" where
  "refusal cfg2 kind =
     (case kind of
        Files \<Rightarrow> if denied cfg2 (str ''enable-file-transfer'')
                 then Some (str ''File transfer is not enabled on the remote machine'') else None
      | Shell \<Rightarrow> if denied cfg2 (str ''enable-terminal'')
                 then Some (str ''Remote terminal is not enabled on the remote machine'') else None
      | Tunnel _ _ \<Rightarrow> if denied cfg2 (str ''enable-tunnel'')
                 then Some (str ''TCP tunneling is not enabled on the remote machine'') else None
      | Desktop \<Rightarrow> None)"

definition permissions :: "config2 \<Rightarrow> (permission \<times> bool) list" where
  "permissions cfg2 =
     [(Keyboard, \<not> denied cfg2 (str ''enable-keyboard'')),
      (Clipboard, \<not> denied cfg2 (str ''enable-clipboard'')),
      (Audio, True),
      (File, \<not> denied cfg2 (str ''enable-file-transfer'')),
      (Restart, \<not> denied cfg2 (str ''enable-remote-restart''))]"

definition send_permissions :: "turn \<Rightarrow> config2 \<Rightarrow> session \<Rightarrow> session" where
  "send_permissions t cfg2 s =
     (if t_up t then s\<lparr>s_sent := s_sent s @ map (\<lambda>(p, b). PermissionInfo p b) (permissions cfg2)\<rparr> else s)"

text \<open>Of \<open>PeerInfo\<close> the model keeps whether the displays are listed and whether terminals are offered. \<open>approval\<close> is the
  window that approved, which is kept for the session.\<close>

definition admit :: "turn \<Rightarrow> login_request \<Rightarrow> rstr option \<Rightarrow> session \<Rightarrow> outcome" where
  "admit t lr approval s =
     (let s = s\<lparr>s_max_frame := MAX_FRAME_LEN\<rparr>;
          kind = session_kind_of lr;
          cfg2 = st_cfg2 (s_store s)
      in case refusal cfg2 kind of
           Some why \<Rightarrow> try_say t (LoginError why) s (\<lambda>s. (Over True, s))
         | None \<Rightarrow>
             try_say t (PeerInfo (kind \<noteq> Files \<and> kind \<noteq> Shell) (\<not> denied cfg2 (str ''enable-terminal''))) s (\<lambda>s.
               let s = (case kind of Tunnel _ _ \<Rightarrow> s | _ \<Rightarrow> send_permissions t cfg2 s);
                   (sid, s) =
                     (case approval of
                        Some existing \<Rightarrow> (existing, s)
                      | None \<Rightarrow>
                          (let new_id = generate_random_string (take 8 (t_fresh t))
                           in (new_id, cm [CmInfo new_id (lr_my_id lr) (lr_my_name lr) (lr_my_platform lr),
                                           CmConnected new_id, CmSpawn new_id] s)))
               in (Started kind sid lr, s\<lparr>s_cm_session := Some sid\<rparr>)))"

definition second_factor :: "env \<Rightarrow> turn \<Rightarrow> login_request \<Rightarrow> rstr option \<Rightarrow> session \<Rightarrow> outcome" where
  "second_factor e t lr approval s =
     (case load_secret (e_upper e) (st_cfg2 (s_store s)) of
        Some secret \<Rightarrow>
          try_say t (LoginError (str ''2FA Required'')) s (\<lambda>s. (AwaitCode secret 0 lr approval, s))
      | None \<Rightarrow> admit t lr approval s)"

section \<open>The phases\<close>

text \<open>A request to be approved: the manager's window is opened with what the viewer says of itself.\<close>

definition ask_user :: "turn \<Rightarrow> nat \<Rightarrow> login_request \<Rightarrow> session \<Rightarrow> outcome" where
  "ask_user t ka lr s =
     (let sid = generate_random_string (take 8 (t_fresh t))
      in (Approval sid (t_now t + 60000) ka lr,
          cm [CmInfo sid (lr_my_id lr) (lr_my_name lr) (lr_my_platform lr), CmSpawn sid] s))"

definition handle_invite_request :: "turn \<Rightarrow> invite_request \<Rightarrow> session \<Rightarrow> outcome" where
  "handle_invite_request t req s =
     (let sid = generate_random_string (take 8 (t_fresh t))
      in (AwaitAnswer sid (t_now t + 60000) (t_now t),
          cm [CmInvite sid (ir_from_id req) (ir_from_name req) (ir_password req),
              CmInfo sid (ir_from_id req) (ir_from_name req) (str ''Invite''), CmSpawn sid] s))"

definition send_challenge :: "turn \<Rightarrow> session \<Rightarrow> outcome" where
  "send_challenge t s =
     (let challenge = generate_random_string (take 6 (t_fresh t))
      in try_say t (HashChallenge (s_salt s) challenge) s (\<lambda>s.
           (AwaitLogin 0 (t_now t + 120000) (t_now t), s\<lparr>s_challenge := challenge\<rparr>)))"

definition greeting_step :: "env \<Rightarrow> turn \<Rightarrow> session \<Rightarrow> outcome" where
  "greeting_step e t s =
     (case t_recv t of
        Received (PublicKey pk sealed) \<Rightarrow> send_challenge t (try_setup_encryption e pk sealed s)
      | Received MiscMsg \<Rightarrow> try_say t (InitialPublicKey (e_signing_pk e)) s (\<lambda>s. (AwaitKey, s))
      | Received _ \<Rightarrow> send_challenge t s
      | _ \<Rightarrow> (Over False, s))"

definition key_step :: "env \<Rightarrow> turn \<Rightarrow> session \<Rightarrow> outcome" where
  "key_step e t s =
     (case t_recv t of
        Received (PublicKey pk sealed) \<Rightarrow> send_challenge t (try_setup_encryption e pk sealed s)
      | Received _ \<Rightarrow> send_challenge t s
      | _ \<Rightarrow> (Over False, s))"

text \<open>The keep-alive of the receiving loops: nothing when the connection is gone.\<close>

definition keepalive :: "turn \<Rightarrow> nat \<Rightarrow> session \<Rightarrow> (nat \<times> session) option" where
  "keepalive t ka s =
     (if t_now t - ka \<ge> 3000 then (if t_up t then Some (t_now t, say KeepAlive s) else None)
      else Some (ka, s))"

definition login_attempt :: "env \<Rightarrow> turn \<Rightarrow> nat \<Rightarrow> nat \<Rightarrow> nat \<Rightarrow> login_request \<Rightarrow> session \<Rightarrow> outcome" where
  "login_attempt e t attempts deadline ka lr s =
     (let cfg = st_cfg (s_store s)
      in if login_password_ok (s_salt s) (s_challenge s) cfg (lr_password lr) then
           second_factor e t lr None (count_temporary_password_attempt (t_fresh t) (password cfg) True s)
         else if lr_password lr = [] then ask_user t ka lr s
         else
           let s = count_temporary_password_attempt (t_fresh t) (password cfg) False s
           in try_say t (LoginError (str ''Wrong Password'')) s (\<lambda>s.
                (if attempts + 1 \<ge> 5 then Over True else AwaitLogin (attempts + 1) deadline ka, s)))"

definition await_login_step :: "env \<Rightarrow> turn \<Rightarrow> nat \<Rightarrow> nat \<Rightarrow> nat \<Rightarrow> session \<Rightarrow> outcome" where
  "await_login_step e t attempts deadline ka s =
     (if t_now t \<ge> deadline then (Over True, s)
      else case keepalive t ka s of
        None \<Rightarrow> (Over True, s)
      | Some (ka, s) \<Rightarrow>
          (case t_recv t of
             Broken \<Rightarrow> (Over False, s)
           | Received (LoginRequest lr) \<Rightarrow> login_attempt e t attempts deadline ka lr s
           | Received (SwitchSidesResponse uuid lr) \<Rightarrow>
               (let (ok, files) = take_switch_sides uuid (lr_my_id lr) (t_unix t) (s_switch s);
                    s = s\<lparr>s_switch := files\<rparr>
                in if ok then second_factor e t lr None s
                   else try_say t (LoginError (str ''Connection failed'')) s (\<lambda>s. (Over True, s)))
           | Received (InviteRequest req) \<Rightarrow> handle_invite_request t req s
           | _ \<Rightarrow> (AwaitLogin attempts deadline ka, s)))"

text \<open>What the manager's window has answered, looked at after each receive.\<close>

definition approval_answer :: "env \<Rightarrow> turn \<Rightarrow> rstr \<Rightarrow> nat \<Rightarrow> nat \<Rightarrow> login_request \<Rightarrow> session \<Rightarrow> outcome" where
  "approval_answer e t sid deadline ka lr s =
     (case t_cm t of
        Some True \<Rightarrow> second_factor e t lr (Some sid) (cm [CmConnected sid] s)
      | Some False \<Rightarrow>
          try_say t (LoginError (str ''Connection rejected'')) (cm [CmCleanup sid, CmEnded sid] s) (\<lambda>s. (Over True, s))
      | None \<Rightarrow> (Approval sid deadline ka lr, s))"

definition approval_step :: "env \<Rightarrow> turn \<Rightarrow> rstr \<Rightarrow> nat \<Rightarrow> nat \<Rightarrow> login_request \<Rightarrow> session \<Rightarrow> outcome" where
  "approval_step e t sid deadline ka lr s =
     (if t_now t \<ge> deadline then
        try_say t (LoginError (str ''Connection rejected (timeout)'')) (cm [CmCleanup sid, CmEnded sid] s) (\<lambda>s. (Over True, s))
      else case keepalive t ka s of
        None \<Rightarrow> (Over True, cm [CmCleanup sid, CmEnded sid] s)
      | Some (ka, s) \<Rightarrow>
          (case t_recv t of
             Broken \<Rightarrow> (Over True, cm [CmCleanup sid, CmEnded sid] s)
           | Received (LoginRequest new_lr) \<Rightarrow>
               if length (lr_password new_lr) = 32 then
                 (let cfg = st_cfg (s_store s);
                      ok = approval_password_ok (s_salt s) (s_challenge s) cfg (lr_password new_lr);
                      s = count_temporary_password_attempt (t_fresh t) (password cfg) ok s
                  in if ok then second_factor e t new_lr (Some sid) (cm [CmConnected sid] s)
                     else approval_answer e t sid deadline ka lr
                            (if t_up t then say (LoginError (str ''Wrong Password'')) s else s))
               else approval_answer e t sid deadline ka lr s
           | _ \<Rightarrow> approval_answer e t sid deadline ka lr s))"

definition code_step :: "env \<Rightarrow> turn \<Rightarrow> bytes \<Rightarrow> nat \<Rightarrow> login_request \<Rightarrow> rstr option \<Rightarrow> session \<Rightarrow> outcome" where
  "code_step e t secret attempts lr approval s =
     (case t_recv t of
        TimedOut \<Rightarrow> (Over True, s)
      | Broken \<Rightarrow> (Over True, s)
      | Received (Auth2fa code) \<Rightarrow>
          if verify_code (e_hmac e) (word_of_nat (t_unix t)) secret code then admit t lr approval s
          else try_say t (LoginError (str ''2FA Required'')) s (\<lambda>s.
                 (if attempts + 1 < 5 then AwaitCode secret (attempts + 1) lr approval else Over True, s))
      | _ \<Rightarrow> (AwaitCode secret attempts lr approval, s))"

definition invite_answer :: "turn \<Rightarrow> rstr \<Rightarrow> bool option \<Rightarrow> session \<Rightarrow> outcome" where
  "invite_answer t sid answer s =
     (let s = cm [CmCleanup sid, CmEnded sid] s;
          accepted = (answer = Some True);
          m = InviteResponse accepted (if accepted then [] else str ''Declined'')
      in (Over True, if t_up t then say m s else s))"

definition invite_step :: "turn \<Rightarrow> rstr \<Rightarrow> nat \<Rightarrow> nat \<Rightarrow> session \<Rightarrow> outcome" where
  "invite_step t sid deadline ka s =
     (if t_now t \<ge> deadline then invite_answer t sid None s
      else case keepalive t ka s of
        None \<Rightarrow> invite_answer t sid None s
      | Some (ka, s) \<Rightarrow>
          (if t_recv t = Broken then invite_answer t sid None s
           else case t_cm t of
             None \<Rightarrow> (AwaitAnswer sid deadline ka, s)
           | answer \<Rightarrow> invite_answer t sid answer s))"

text \<open>One turn of whichever loop the server is in, after what other processes wrote.\<close>

definition session_step :: "env \<Rightarrow> turn \<Rightarrow> outcome \<Rightarrow> outcome" where
  "session_step e t = (\<lambda>(ph, s).
     let s = s\<lparr>s_store := t_other t (s_store s)\<rparr>
     in case ph of
          Greeting \<Rightarrow> greeting_step e t s
        | AwaitKey \<Rightarrow> key_step e t s
        | AwaitLogin attempts deadline ka \<Rightarrow> await_login_step e t attempts deadline ka s
        | Approval sid deadline ka lr \<Rightarrow> approval_step e t sid deadline ka lr s
        | AwaitCode secret attempts lr approval \<Rightarrow> code_step e t secret attempts lr approval s
        | AwaitAnswer sid deadline ka \<Rightarrow> invite_step t sid deadline ka s
        | Started kind sid lr \<Rightarrow> (Started kind sid lr, s)
        | Over ok \<Rightarrow> (Over ok, s))"

definition run_session :: "env \<Rightarrow> turn list \<Rightarrow> outcome \<Rightarrow> outcome" where
  "run_session e turns st = fold (session_step e) turns st"

text \<open>The beginning: the signed (or, without a signing key, unsigned) ephemeral key. \<open>direct_addr\<close> stands for the id.\<close>

definition open_session :: "env \<Rightarrow> rstr option \<Rightarrow> bool \<Rightarrow> session \<Rightarrow> outcome" where
  "open_session e direct_addr up s =
     (let s = s\<lparr>s_max_frame := PRE_LOGIN_MAX_FRAME_LEN, s_salt := salt (st_cfg (s_store s)), s_key := None\<rparr>;
          m = SignedIdPk (case direct_addr of None \<Rightarrow> e_id e | Some a \<Rightarrow> a) (e_eph_pk e)
                (if length (e_signing_sk e) = 64 then Some (e_signing_sk e) else None)
      in if up then (Greeting, say m s) else (Over False, s))"

text \<open>When the session's own loop has returned.\<close>

definition end_session :: "bytes \<Rightarrow> rstr \<Rightarrow> session \<Rightarrow> session" where
  "end_session random sid s =
     (let s = cm [CmCleanup sid, CmEnded sid] (s\<lparr>s_cm_session := None\<rparr>)
      in s\<lparr>s_store := rotate_password_if_needed random (s_store s)\<rparr>)"

section \<open>Who is let in\<close>

text \<open>A turn vouches for a request: its password is right, its switch-sides token is, or the user approved it, in time.\<close>

definition vouched :: "env \<Rightarrow> turn \<Rightarrow> outcome \<Rightarrow> login_request \<Rightarrow> bool" where
  "vouched e t st lr =
     (let s = snd st; cfg = st_cfg (t_other t (s_store s)) in
      case fst st of
        AwaitLogin _ deadline _ \<Rightarrow>
          t_now t < deadline \<and>
          (case t_recv t of
             Received (LoginRequest lr') \<Rightarrow> lr' = lr \<and> login_password_ok (s_salt s) (s_challenge s) cfg (lr_password lr)
           | Received (SwitchSidesResponse uuid lr') \<Rightarrow>
               lr' = lr \<and> fst (take_switch_sides uuid (lr_my_id lr) (t_unix t) (s_switch s))
           | _ \<Rightarrow> False)
      | Approval _ deadline _ lr0 \<Rightarrow>
          t_now t < deadline \<and>
          (t_cm t = Some True \<and> lr = lr0 \<or>
           t_recv t = Received (LoginRequest lr) \<and> length (lr_password lr) = 32 \<and>
           approval_password_ok (s_salt s) (s_challenge s) cfg (lr_password lr))
      | _ \<Rightarrow> False)"

definition code_ok :: "env \<Rightarrow> bytes \<Rightarrow> turn \<Rightarrow> bool" where
  "code_ok e secret t =
     (case t_recv t of
        Received (Auth2fa code) \<Rightarrow> verify_code (e_hmac e) (word_of_nat (t_unix t)) secret code
      | _ \<Rightarrow> False)"

definition seen_cfg2 :: "turn \<Rightarrow> outcome \<Rightarrow> config2" where
  "seen_cfg2 t st = st_cfg2 (t_other t (s_store (snd st)))"

lemma fst_try_say: "fst (try_say t m s k) = (if t_up t then fst (k (say m s)) else Over False)"
  by (simp add: try_say_def)

lemma say_simps [simp]:
  "s_store (say m s) = s_store s" "s_salt (say m s) = s_salt s" "s_challenge (say m s) = s_challenge s"
  "s_switch (say m s) = s_switch s" "s_attempts (say m s) = s_attempts s" "s_max_frame (say m s) = s_max_frame s"
  by (simp_all add: say_def)

lemma cm_simps [simp]:
  "s_store (cm es s) = s_store s" "s_salt (cm es s) = s_salt s" "s_challenge (cm es s) = s_challenge s"
  "s_switch (cm es s) = s_switch s" "s_attempts (cm es s) = s_attempts s" "s_max_frame (cm es s) = s_max_frame s"
  by (simp_all add: cm_def)

lemma rotate_cfg2 [simp]: "st_cfg2 (rotate_password_if_needed r st) = st_cfg2 st"
  by (simp add: rotate_password_if_needed_def Let_def)

lemma count_simps [simp]:
  "st_cfg2 (s_store (count_temporary_password_attempt r c ok s)) = st_cfg2 (s_store s)"
  "s_max_frame (count_temporary_password_attempt r c ok s) = s_max_frame s"
  by (simp_all add: count_temporary_password_attempt_def Let_def)

lemma keepalive_some:
  "keepalive t k s = Some (k', s') \<Longrightarrow> s_store s' = s_store s \<and> s_salt s' = s_salt s \<and> s_challenge s' = s_challenge s \<and>
     s_switch s' = s_switch s \<and> s_attempts s' = s_attempts s \<and> s_max_frame s' = s_max_frame s"
  by (auto simp: keepalive_def split: if_splits)

lemma fst_admit:
  "fst (admit t lr ap s) =
     (if \<not> t_up t then Over False
      else if refusal (st_cfg2 (s_store s)) (session_kind_of lr) = None
      then Started (session_kind_of lr) (case ap of Some sid \<Rightarrow> sid | None \<Rightarrow> generate_random_string (take 8 (t_fresh t))) lr
      else Over True)"
  by (auto simp: admit_def Let_def fst_try_say split: option.splits)

text \<open>What a step into the second factor, or into the session, rests on.\<close>

definition enters :: "env \<Rightarrow> turn \<Rightarrow> config2 \<Rightarrow> phase \<Rightarrow> login_request \<Rightarrow> bool" where
  "enters e t cfg2 ph lr =
     (case ph of
        AwaitCode secret n lr' _ \<Rightarrow> lr' = lr \<and> n = 0 \<and> load_secret (e_upper e) cfg2 = Some secret
      | Started kind _ lr' \<Rightarrow>
          lr' = lr \<and> kind = session_kind_of lr \<and> refusal cfg2 kind = None \<and> load_secret (e_upper e) cfg2 = None
      | Over _ \<Rightarrow> True
      | _ \<Rightarrow> False)"

lemma second_factor_enters: "enters e t (st_cfg2 (s_store s)) (fst (second_factor e t lr ap s)) lr"
  by (auto simp: second_factor_def enters_def fst_try_say fst_admit split: option.splits)

definition waiting :: "phase \<Rightarrow> bool" where
  "waiting ph = (case ph of AwaitCode _ _ _ _ \<Rightarrow> False | Started _ _ _ \<Rightarrow> False | _ \<Rightarrow> True)"

lemma waiting_challenge [simp]: "waiting (fst (send_challenge t s))"
  by (simp add: send_challenge_def Let_def fst_try_say waiting_def)

lemma login_attempt_enters:
  "waiting (fst (login_attempt e t n d k lr s)) \<or>
   login_password_ok (s_salt s) (s_challenge s) (st_cfg (s_store s)) (lr_password lr) \<and>
   enters e t (st_cfg2 (s_store s)) (fst (login_attempt e t n d k lr s)) lr"
  using second_factor_enters[of e t "count_temporary_password_attempt (t_fresh t) (password (st_cfg (s_store s))) True s" lr None]
  by (auto simp: login_attempt_def Let_def ask_user_def fst_try_say waiting_def)

lemma await_login_enters:
  assumes "s' = s\<lparr>s_store := t_other t (s_store s)\<rparr>"
  shows "waiting (fst (await_login_step e t n d k s')) \<or>
    (\<exists>lr. vouched e t (AwaitLogin n d k, s) lr \<and> enters e t (st_cfg2 (s_store s')) (fst (await_login_step e t n d k s')) lr)"
proof (cases "d \<le> t_now t \<or> keepalive t k s' = None")
  case True
  then show ?thesis by (auto simp: await_login_step_def waiting_def)
next
  case False
  then obtain k2 s2 where k: "keepalive t k s' = Some (k2, s2)" by auto
  note ks = keepalive_some[OF k]
  show ?thesis
  proof (cases "t_recv t")
    case (Received m)
    show ?thesis
    proof (cases m)
      case (LoginRequest lr)
      then show ?thesis
        using False k ks Received login_attempt_enters[of e t n d k2 lr s2] assms
        by (auto simp: await_login_step_def vouched_def Let_def not_le)
    next
      case (SwitchSidesResponse uuid lr)
      obtain ok files where tk: "take_switch_sides uuid (lr_my_id lr) (t_unix t) (s_switch s) = (ok, files)" by fastforce
      show ?thesis
        using False k ks Received SwitchSidesResponse assms tk
          second_factor_enters[of e t "s2\<lparr>s_switch := files\<rparr>" lr None]
        by (cases ok) (auto simp: await_login_step_def vouched_def Let_def not_le fst_try_say waiting_def)
    qed (use False k ks Received in \<open>auto simp: await_login_step_def waiting_def handle_invite_request_def Let_def\<close>)
  qed (use False k ks in \<open>auto simp: await_login_step_def waiting_def\<close>)
qed

lemma approval_answer_enters:
  "waiting (fst (approval_answer e t sid d k lr s)) \<or>
   t_cm t = Some True \<and> enters e t (st_cfg2 (s_store s)) (fst (approval_answer e t sid d k lr s)) lr"
  using second_factor_enters[of e t "cm [CmConnected sid] s" lr "Some sid"]
  by (auto simp: approval_answer_def fst_try_say waiting_def split: option.splits bool.splits)

lemma approval_enters:
  assumes "s' = s\<lparr>s_store := t_other t (s_store s)\<rparr>"
  shows "waiting (fst (approval_step e t sid d k lr0 s')) \<or>
    (\<exists>lr. vouched e t (Approval sid d k lr0, s) lr \<and> enters e t (st_cfg2 (s_store s')) (fst (approval_step e t sid d k lr0 s')) lr)"
proof (cases "d \<le> t_now t \<or> keepalive t k s' = None")
  case True
  then show ?thesis by (auto simp: approval_step_def waiting_def fst_try_say)
next
  case False
  then obtain k2 s2 where k: "keepalive t k s' = Some (k2, s2)" by auto
  note ks = keepalive_some[OF k]
  have plain: "waiting (fst (approval_answer e t sid d k2 lr0 s3)) \<or>
      (\<exists>lr. vouched e t (Approval sid d k lr0, s) lr \<and> enters e t (st_cfg2 (s_store s')) (fst (approval_answer e t sid d k2 lr0 s3)) lr)"
    if "st_cfg2 (s_store s3) = st_cfg2 (s_store s')" for s3
    using approval_answer_enters[of e t sid d k2 lr0 s3] that False by (auto simp: vouched_def Let_def not_le)
  show ?thesis
  proof (cases "\<exists>lr. t_recv t = Received (LoginRequest lr) \<and> length (lr_password lr) = 32")
    case True
    then obtain lr where lr: "t_recv t = Received (LoginRequest lr)" "length (lr_password lr) = 32" by blast
    let ?ok = "approval_password_ok (s_salt s2) (s_challenge s2) (st_cfg (s_store s2)) (lr_password lr)"
    let ?s3 = "count_temporary_password_attempt (t_fresh t) (password (st_cfg (s_store s2))) ?ok s2"
    show ?thesis
    proof (cases ?ok)
      case True
      then show ?thesis
        using second_factor_enters[of e t "cm [CmConnected sid] ?s3" lr "Some sid"] False k ks lr assms
        by (auto simp: approval_step_def vouched_def Let_def not_le)
    next
      case no: False
      show ?thesis
        using plain[of "if t_up t then say (LoginError (str ''Wrong Password'')) ?s3 else ?s3"] False k ks lr assms no
        by (simp add: approval_step_def Let_def)
    qed
  next
    case no: False
    show ?thesis
    proof (cases "t_recv t")
      case (Received m)
      then show ?thesis using plain[of s2] False k ks no assms
        by (cases m) (auto simp: approval_step_def Let_def)
    qed (use plain[of s2] False k ks in \<open>auto simp: approval_step_def waiting_def\<close>)
  qed
qed

lemma invite_waiting [simp]: "waiting (fst (invite_step t sid d k s))"
  by (simp add: invite_step_def invite_answer_def waiting_def Let_def split: option.splits)

lemma greeting_waiting [simp]: "waiting (fst (greeting_step e t s))" "waiting (fst (key_step e t s))"
  by (auto simp: greeting_step_def key_step_def fst_try_say split: recv.split peer_msg.split) (simp_all add: waiting_def)

lemma over_waiting: "waiting (Over b)"
  by (simp add: waiting_def)

lemma code_step_cases:
  "fst (code_step e t secret n lr ap s) = AwaitCode secret n lr ap \<or>
   fst (code_step e t secret n lr ap s) = AwaitCode secret (n + 1) lr ap \<and> n + 1 < 5 \<or>
   (\<exists>b. fst (code_step e t secret n lr ap s) = Over b) \<or>
   code_ok e secret t \<and> refusal (st_cfg2 (s_store s)) (session_kind_of lr) = None \<and>
     (\<exists>sid. fst (code_step e t secret n lr ap s) = Started (session_kind_of lr) sid lr)"
  by (auto simp: code_step_def code_ok_def fst_try_say fst_admit split: recv.splits peer_msg.splits)

text \<open>The invariant of a run: whoever is past the password was vouched for, and whoever is in has passed the second factor
  if one was set then.\<close>

definition vouched_in :: "env \<Rightarrow> outcome \<Rightarrow> turn list \<Rightarrow> login_request \<Rightarrow> bytes option \<Rightarrow> turn list \<Rightarrow> bool" where
  "vouched_in e st0 turns lr secret post \<longleftrightarrow>
     (\<exists>pre t. turns = pre @ t # post \<and> vouched e t (run_session e pre st0) lr \<and>
        load_secret (e_upper e) (seen_cfg2 t (run_session e pre st0)) = secret)"

definition offered :: "env \<Rightarrow> outcome \<Rightarrow> turn list \<Rightarrow> session_kind \<Rightarrow> bool" where
  "offered e st0 turns kind \<longleftrightarrow>
     (\<exists>pre t post. turns = pre @ t # post \<and> refusal (seen_cfg2 t (run_session e pre st0)) kind = None)"

definition admission_inv :: "env \<Rightarrow> outcome \<Rightarrow> turn list \<Rightarrow> phase \<Rightarrow> bool" where
  "admission_inv e st0 turns ph =
     (case ph of
        AwaitCode secret n lr _ \<Rightarrow> (\<exists>post. vouched_in e st0 turns lr (Some secret) post)
      | Started kind _ lr \<Rightarrow>
          kind = session_kind_of lr \<and> offered e st0 turns kind \<and>
          (\<exists>secret post. vouched_in e st0 turns lr secret post \<and>
             (case secret of None \<Rightarrow> True | Some k \<Rightarrow> \<exists>u\<in>set post. code_ok e k u))
      | _ \<Rightarrow> True)"

lemma run_session_snoc: "run_session e (turns @ [t]) st = session_step e t (run_session e turns st)"
  by (simp add: run_session_def)

lemma vouched_in_snoc: "vouched_in e st0 turns lr secret post \<Longrightarrow> vouched_in e st0 (turns @ [t]) lr secret (post @ [t])"
  by (auto simp: vouched_in_def)

lemma offered_snoc: "offered e st0 turns kind \<Longrightarrow> offered e st0 (turns @ [t]) kind"
  unfolding offered_def by (metis append.assoc append_Cons)

lemma vouched_in_last:
  "vouched e t (run_session e turns st0) lr \<Longrightarrow>
    vouched_in e st0 (turns @ [t]) lr (load_secret (e_upper e) (seen_cfg2 t (run_session e turns st0))) []"
  by (auto simp: vouched_in_def)

lemma offered_last: "refusal (seen_cfg2 t (run_session e turns st0)) kind = None \<Longrightarrow> offered e st0 (turns @ [t]) kind"
  by (auto simp: offered_def)

lemma waiting_inv: "waiting ph \<Longrightarrow> admission_inv e st0 turns ph"
  by (cases ph) (auto simp: waiting_def admission_inv_def)

lemma enters_inv:
  assumes "vouched e t (run_session e turns st0) lr" "enters e t (seen_cfg2 t (run_session e turns st0)) ph lr"
  shows "admission_inv e st0 (turns @ [t]) ph"
  using assms(2) vouched_in_last[OF assms(1)] offered_last[of t e turns st0]
  by (cases ph) (auto simp: enters_def admission_inv_def intro!: exI[of _ "None :: bytes option"])

lemma admission_step:
  assumes "admission_inv e st0 turns (fst (run_session e turns st0))"
  shows "admission_inv e st0 (turns @ [t]) (fst (run_session e (turns @ [t]) st0))"
proof -
  obtain ph s where st: "run_session e turns st0 = (ph, s)" by fastforce
  define s' where "s' = s\<lparr>s_store := t_other t (s_store s)\<rparr>"
  have c: "seen_cfg2 t (run_session e turns st0) = st_cfg2 (s_store s')" by (simp add: seen_cfg2_def st s'_def)
  have next_st: "run_session e (turns @ [t]) st0 = session_step e t (ph, s)" by (simp add: run_session_snoc st)
  have from_waiting: "admission_inv e st0 (turns @ [t]) ph'"
    if p: "waiting ph' \<or> (\<exists>lr. vouched e t (ph, s) lr \<and> enters e t (st_cfg2 (s_store s')) ph' lr)" for ph'
  proof (cases "waiting ph'")
    case False
    then obtain lr where "vouched e t (run_session e turns st0) lr" "enters e t (seen_cfg2 t (run_session e turns st0)) ph' lr"
      using p unfolding c by (auto simp: st)
    then show ?thesis by (rule enters_inv)
  qed (rule waiting_inv)
  show ?thesis
  proof (cases ph)
    case (AwaitLogin n d k)
    with from_waiting[OF await_login_enters[OF s'_def, of e n d k, folded AwaitLogin]]
    show ?thesis by (simp add: next_st session_step_def Let_def s'_def)
  next
    case (Approval sid d k lr)
    with from_waiting[OF approval_enters[OF s'_def, of e sid d k lr, folded Approval]]
    show ?thesis by (simp add: next_st session_step_def Let_def s'_def)
  next
    case (AwaitCode secret n lr ap)
    then obtain post where v: "vouched_in e st0 (turns @ [t]) lr (Some secret) (post @ [t])"
      using assms vouched_in_snoc by (fastforce simp: st admission_inv_def)
    then have w: "code_ok e secret t \<Longrightarrow>
        \<exists>post. vouched_in e st0 (turns @ [t]) lr (Some secret) post \<and> (\<exists>u\<in>set post. code_ok e secret u)"
      by (intro exI[of _ "post @ [t]"]) simp
    show ?thesis
      using v w code_step_cases[of e t secret n lr ap s'] offered_last[of t e turns st0 "session_kind_of lr"] AwaitCode c
      by (auto simp: next_st session_step_def admission_inv_def Let_def s'_def[symmetric] intro!: exI[of _ "Some secret"])
        blast
  next
    case (Started kind sid lr)
    then obtain secret post where "kind = session_kind_of lr" "offered e st0 turns kind" "vouched_in e st0 turns lr secret post"
        and k: "case secret of None \<Rightarrow> True | Some k \<Rightarrow> \<exists>u\<in>set post. code_ok e k u"
      using assms by (auto simp: st admission_inv_def)
    then have "kind = session_kind_of lr" "offered e st0 (turns @ [t]) kind" "vouched_in e st0 (turns @ [t]) lr secret (post @ [t])"
      by (simp_all add: offered_snoc vouched_in_snoc)
    moreover have "case secret of None \<Rightarrow> True | Some k \<Rightarrow> \<exists>u\<in>set (post @ [t]). code_ok e k u"
      using k by (auto split: option.splits)
    moreover have "fst (run_session e (turns @ [t]) st0) = Started kind sid lr"
      by (simp add: next_st session_step_def Started Let_def)
    ultimately show ?thesis unfolding admission_inv_def by auto
  qed (auto intro!: waiting_inv simp: next_st session_step_def Let_def over_waiting)
qed

lemma admission_run: "waiting (fst st0) \<Longrightarrow> admission_inv e st0 turns (fst (run_session e turns st0))"
proof (induction turns rule: rev_induct)
  case Nil
  then show ?case by (simp add: run_session_def waiting_inv)
qed (simp add: admission_step)

lemma open_waiting: "waiting (fst (open_session e addr up s))"
  by (simp add: open_session_def Let_def waiting_def)

section \<open>Limits\<close>

definition login_limits :: "outcome \<Rightarrow> bool" where
  "login_limits st \<longleftrightarrow>
     snd (s_attempts (snd st)) < MAX_CONSECUTIVE_FAILURES \<and>
     (case fst st of
        AwaitLogin n _ _ \<Rightarrow> n < 5 \<and> s_max_frame (snd st) = PRE_LOGIN_MAX_FRAME_LEN
      | AwaitCode _ n _ _ \<Rightarrow> n < 5 \<and> s_max_frame (snd st) = PRE_LOGIN_MAX_FRAME_LEN
      | Started _ _ _ \<Rightarrow> s_max_frame (snd st) = MAX_FRAME_LEN
      | Over _ \<Rightarrow> True
      | _ \<Rightarrow> s_max_frame (snd st) = PRE_LOGIN_MAX_FRAME_LEN)"

definition base_limits :: "session \<Rightarrow> bool" where
  "base_limits s \<longleftrightarrow> snd (s_attempts s) < MAX_CONSECUTIVE_FAILURES \<and> s_max_frame s = PRE_LOGIN_MAX_FRAME_LEN"

lemma count_limits: "base_limits s \<Longrightarrow> base_limits (count_temporary_password_attempt r c ok s)"
  by (simp add: base_limits_def count_temporary_password_attempt_def Let_def MAX_CONSECUTIVE_FAILURES_def)

lemma base_limits_simps [simp]:
  "base_limits (say m s) = base_limits s" "base_limits (cm es s) = base_limits s"
  "base_limits (s\<lparr>s_switch := f\<rparr>) = base_limits s" "base_limits (s\<lparr>s_store := st\<rparr>) = base_limits s"
  "base_limits (s\<lparr>s_key := k\<rparr>) = base_limits s" "base_limits (s\<lparr>s_challenge := c\<rparr>) = base_limits s"
  by (simp_all add: base_limits_def)

lemma try_say_limits: "base_limits s \<Longrightarrow> (\<And>s. base_limits s \<Longrightarrow> login_limits (k s)) \<Longrightarrow> login_limits (try_say t m s k)"
  by (auto simp: try_say_def login_limits_def base_limits_def)

lemma over_limits: "base_limits s \<Longrightarrow> login_limits (Over b, s)"
  by (simp add: login_limits_def base_limits_def)

lemma admit_limits: "base_limits s \<Longrightarrow> login_limits (admit t lr ap s)"
  by (auto simp: admit_def Let_def try_say_def login_limits_def base_limits_def send_permissions_def cm_def say_def
      split: option.splits session_kind.splits)

lemma second_factor_limits: "base_limits s \<Longrightarrow> login_limits (second_factor e t lr ap s)"
  by (auto simp: second_factor_def admit_limits intro!: try_say_limits split: option.splits)
    (simp add: login_limits_def base_limits_def)

lemma keepalive_limits: "keepalive t k s = Some (k', s') \<Longrightarrow> base_limits s \<Longrightarrow> base_limits s'"
  by (auto simp: keepalive_def split: if_splits)

lemma challenge_limits: "base_limits s \<Longrightarrow> login_limits (send_challenge t s)"
  unfolding send_challenge_def Let_def by (rule try_say_limits) (auto simp: login_limits_def base_limits_def)

lemma setup_limits: "base_limits s \<Longrightarrow> base_limits (try_setup_encryption e pk k s)"
  by (simp add: try_setup_encryption_def split: option.split)

lemma login_attempt_limits:
  assumes "base_limits s" "n < 5"
  shows "login_limits (login_attempt e t n d k lr s)"
  using assms second_factor_limits count_limits
  by (auto simp: login_attempt_def Let_def ask_user_def intro!: try_say_limits)
    (auto simp: login_limits_def base_limits_def cm_def)

lemma await_login_limits:
  assumes "base_limits s" "n < 5"
  shows "login_limits (await_login_step e t n d k s)"
proof (cases "keepalive t k s")
  case (Some p)
  obtain k2 s2 where p: "p = (k2, s2)" by fastforce
  with keepalive_limits Some assms have b: "base_limits s2" by blast
  then have stay: "login_limits (AwaitLogin n d k2, s2)" using assms by (simp add: login_limits_def base_limits_def)
  show ?thesis
    using Some p b stay assms login_attempt_limits[OF b assms(2)] second_factor_limits over_limits
    by (auto simp: await_login_step_def Let_def handle_invite_request_def split: recv.split peer_msg.split prod.split
        intro!: try_say_limits) (auto simp: login_limits_def base_limits_def cm_def)
qed (use assms over_limits in \<open>auto simp: await_login_step_def\<close>)

lemma approval_answer_limits: "base_limits s \<Longrightarrow> login_limits (approval_answer e t sid d k lr s)"
  using second_factor_limits over_limits
  by (auto simp: approval_answer_def intro!: try_say_limits split: option.split bool.split)
    (auto simp: login_limits_def base_limits_def)

lemma approval_limits:
  assumes "base_limits s"
  shows "login_limits (approval_step e t sid d k lr s)"
proof (cases "keepalive t k s")
  case (Some p)
  obtain k2 s2 where p: "p = (k2, s2)" by fastforce
  with keepalive_limits Some assms have b: "base_limits s2" by blast
  show ?thesis
    using Some p b assms approval_answer_limits second_factor_limits over_limits count_limits
    by (auto simp: approval_step_def Let_def split: recv.split peer_msg.split intro!: try_say_limits)
qed (use assms over_limits in \<open>auto simp: approval_step_def intro!: try_say_limits\<close>)

lemma session_step_limits:
  assumes "login_limits st"
  shows "login_limits (session_step e t st)"
proof -
  obtain ph s where st: "st = (ph, s)" by fastforce
  define s' where "s' = s\<lparr>s_store := t_other t (s_store s)\<rparr>"
  have b: "base_limits s'" if "\<not> (\<exists>k sid lr. ph = Started k sid lr)" "\<not> (\<exists>b. ph = Over b)"
    using assms that by (cases ph) (auto simp: st s'_def login_limits_def base_limits_def)
  show ?thesis
  proof (cases ph)
    case Greeting
    then show ?thesis
      using b challenge_limits[of s' t] challenge_limits[OF setup_limits[of s' e]] over_limits
      by (auto simp: st session_step_def Let_def s'_def[symmetric] greeting_step_def split: recv.split peer_msg.split
          intro!: try_say_limits) (auto simp: login_limits_def base_limits_def)
  next
    case AwaitKey
    then show ?thesis
      using b challenge_limits[of s' t] challenge_limits[OF setup_limits[of s' e]] over_limits
      by (auto simp: st session_step_def Let_def s'_def[symmetric] key_step_def split: recv.split peer_msg.split)
  next
    case (AwaitLogin n d k)
    then show ?thesis
      using b assms await_login_limits[of s' n e t d k]
      by (simp add: st session_step_def Let_def s'_def[symmetric] login_limits_def[of "(AwaitLogin n d k, s)"])
  next
    case (Approval sid d k lr)
    then show ?thesis
      using b approval_limits[of s' e t sid d k lr] by (simp add: st session_step_def Let_def s'_def[symmetric])
  next
    case (AwaitCode secret n lr ap)
    have stay: "login_limits (AwaitCode secret m lr ap, s3)" if "m < 5" "base_limits s3" for m s3
      using that by (simp add: login_limits_def base_limits_def)
    have "n < 5" using assms AwaitCode by (simp add: st login_limits_def)
    then show ?thesis
      using AwaitCode b admit_limits[of s' t lr ap] over_limits stay
      by (auto simp: st session_step_def Let_def s'_def[symmetric] code_step_def split: recv.split peer_msg.split
          intro!: try_say_limits)
  next
    case (AwaitAnswer sid d k)
    then show ?thesis
      using b keepalive_limits[of t k s'] over_limits
      by (auto simp: st session_step_def Let_def s'_def[symmetric] invite_step_def invite_answer_def split: option.split)
        (auto simp: login_limits_def base_limits_def)
  next
    case (Started kind sid lr)
    then show ?thesis using assms by (simp add: st session_step_def Let_def login_limits_def)
  next
    case (Over ok)
    then show ?thesis using assms by (simp add: st session_step_def Let_def login_limits_def)
  qed
qed

lemma run_limits: "login_limits st \<Longrightarrow> login_limits (run_session e turns st)"
  by (induction turns rule: rev_induct) (auto simp: run_session_snoc session_step_limits, simp add: run_session_def)

lemma open_limits: "snd (s_attempts s) < MAX_CONSECUTIVE_FAILURES \<Longrightarrow> login_limits (open_session e addr up s)"
  by (simp add: open_session_def Let_def login_limits_def say_def)

text \<open>What is counted is what the peer sends: a login with a password that is there and wrong, while the loop of the login listens, and
  a wrong code while the loop of the second factor does.\<close>

definition wrong_login :: "env \<Rightarrow> turn \<Rightarrow> outcome \<Rightarrow> bool" where
  "wrong_login e t st =
     (let s = (snd st)\<lparr>s_store := t_other t (s_store (snd st))\<rparr> in
      case fst st of
        AwaitLogin _ deadline ka \<Rightarrow>
          t_now t < deadline \<and> keepalive t ka s \<noteq> None \<and>
          (case t_recv t of
             Received (LoginRequest lr) \<Rightarrow>
               lr_password lr \<noteq> [] \<and> \<not> login_password_ok (s_salt s) (s_challenge s) (st_cfg (s_store s)) (lr_password lr)
           | _ \<Rightarrow> False)
      | _ \<Rightarrow> False)"

definition wrong_code :: "env \<Rightarrow> turn \<Rightarrow> outcome \<Rightarrow> bool" where
  "wrong_code e t st =
     (case fst st of
        AwaitCode secret _ _ _ \<Rightarrow>
          (case t_recv t of
             Received (Auth2fa code) \<Rightarrow> \<not> verify_code (e_hmac e) (word_of_nat (t_unix t)) secret code
           | _ \<Rightarrow> False)
      | _ \<Rightarrow> False)"

fun count_turns :: "(turn \<Rightarrow> outcome \<Rightarrow> bool) \<Rightarrow> env \<Rightarrow> turn list \<Rightarrow> outcome \<Rightarrow> nat" where
  "count_turns P e [] st = 0"
| "count_turns P e (t # turns) st = (if P t st then 1 else 0) + count_turns P e turns (session_step e t st)"

text \<open>How many wrong ones a phase has left.\<close>

definition logins_left :: "phase \<Rightarrow> nat" where
  "logins_left ph = (case ph of Greeting \<Rightarrow> 5 | AwaitKey \<Rightarrow> 5 | AwaitLogin n _ _ \<Rightarrow> max 1 (5 - n) | Over _ \<Rightarrow> 0 | _ \<Rightarrow> 1)"

definition codes_left :: "phase \<Rightarrow> nat" where
  "codes_left ph = (case ph of AwaitCode _ n _ _ \<Rightarrow> max 1 (5 - n) | Started _ _ _ \<Rightarrow> 1 | Over _ \<Rightarrow> 0 | _ \<Rightarrow> 5)"

lemma admit_phase: "fst (admit t lr ap s) = Over b \<or> (\<exists>k sid lr'. fst (admit t lr ap s) = Started k sid lr') \<or> fst (admit t lr ap s) = Over (\<not> b)"
  by (cases b; auto simp: admit_def Let_def fst_try_say split: option.split)

lemma admit_left: "logins_left (fst (admit t lr ap s)) \<le> 1" "codes_left (fst (admit t lr ap s)) \<le> 1"
  using admit_phase[of t lr ap s True] by (auto simp: logins_left_def codes_left_def)

lemma second_factor_left: "logins_left (fst (second_factor e t lr ap s)) \<le> 1" "codes_left (fst (second_factor e t lr ap s)) \<le> 5"
  using admit_left[of t lr ap s] by (auto simp: second_factor_def fst_try_say logins_left_def codes_left_def split: option.split)

lemma challenge_left: "logins_left (fst (send_challenge t s)) \<le> 5" "codes_left (fst (send_challenge t s)) \<le> 5"
  by (simp_all add: send_challenge_def Let_def fst_try_say logins_left_def codes_left_def)

lemma approval_answer_left: "logins_left (fst (approval_answer e t sid d k lr s)) \<le> 1" "codes_left (fst (approval_answer e t sid d k lr s)) \<le> 5"
  using second_factor_left[of e t lr "Some sid"]
  by (auto simp: approval_answer_def fst_try_say logins_left_def codes_left_def split: option.split bool.split)

lemma approval_left: "logins_left (fst (approval_step e t sid d k lr s)) \<le> 1" "codes_left (fst (approval_step e t sid d k lr s)) \<le> 5"
  using second_factor_left[of e t] approval_answer_left[of e t sid d]
  by (auto simp: approval_step_def Let_def fst_try_say logins_left_def codes_left_def split: option.split recv.split peer_msg.split)

lemma invite_left: "logins_left (fst (invite_step t sid d k s)) \<le> 1" "codes_left (fst (invite_step t sid d k s)) \<le> 5"
  by (auto simp: invite_step_def invite_answer_def logins_left_def codes_left_def Let_def split: option.split)

lemma login_attempt_left:
  "lr_password lr \<noteq> [] \<Longrightarrow> \<not> login_password_ok (s_salt s) (s_challenge s) (st_cfg (s_store s)) (lr_password lr) \<Longrightarrow>
     Suc (logins_left (fst (login_attempt e t n d k lr s))) \<le> max (Suc 0) (5 - n)"
  "logins_left (fst (login_attempt e t n d k lr s)) \<le> max (Suc 0) (5 - n)"
  "codes_left (fst (login_attempt e t n d k lr s)) \<le> 5"
proof -
  have sf: "logins_left (fst (second_factor e t lr ap s2)) \<le> max (Suc 0) (5 - n)" for ap s2
    using second_factor_left(1)[of e t lr ap s2] by simp
  have simple: "logins_left (Over b) = 0" "logins_left (AwaitLogin m d k) = max (Suc 0) (5 - m)" "logins_left (Approval sid d2 k2 lr2) = Suc 0"
    "codes_left (Over b) = 0" "codes_left (AwaitLogin m d k) = 5" "codes_left (Approval sid d2 k2 lr2) = 5" for b m sid d2 k2 lr2
    by (simp_all add: logins_left_def codes_left_def)
  show "lr_password lr \<noteq> [] \<Longrightarrow> \<not> login_password_ok (s_salt s) (s_challenge s) (st_cfg (s_store s)) (lr_password lr) \<Longrightarrow>
     Suc (logins_left (fst (login_attempt e t n d k lr s))) \<le> max (Suc 0) (5 - n)"
    by (auto simp: login_attempt_def Let_def fst_try_say simple)
  show "logins_left (fst (login_attempt e t n d k lr s)) \<le> max (Suc 0) (5 - n)"
    by (auto simp: login_attempt_def Let_def fst_try_say ask_user_def simple sf)
  show "codes_left (fst (login_attempt e t n d k lr s)) \<le> 5"
    by (auto simp: login_attempt_def Let_def fst_try_say ask_user_def simple second_factor_left)
qed

lemma keepalive_kept: "keepalive t k s = Some (k', s') \<Longrightarrow> s_salt s' = s_salt s \<and> s_challenge s' = s_challenge s \<and> s_store s' = s_store s"
  by (auto simp: keepalive_def split: if_splits)

lemma await_login_left:
  assumes "s' = s\<lparr>s_store := t_other t (s_store s)\<rparr>"
  shows "(if wrong_login e t (AwaitLogin n d k, s) then 1 else 0) + logins_left (fst (await_login_step e t n d k s')) \<le> max 1 (5 - n)"
    "codes_left (fst (await_login_step e t n d k s')) \<le> 5"
proof -
  have sf: "logins_left (fst (second_factor e t lr ap s2)) \<le> max (Suc 0) (5 - n)" for lr ap s2
    using second_factor_left(1)[of e t lr ap s2] by simp
  have simple: "logins_left (Over b) = 0" "logins_left (AwaitLogin n d k2) = max 1 (5 - n)" "logins_left (AwaitAnswer sid d2 k2) = 1"
    "codes_left (Over b) = 0" "codes_left (AwaitLogin n d k2) = 5" "codes_left (AwaitAnswer sid d2 k2) = 5" for b k2 sid d2
    by (simp_all add: logins_left_def codes_left_def)
  show "(if wrong_login e t (AwaitLogin n d k, s) then 1 else 0) + logins_left (fst (await_login_step e t n d k s')) \<le> max 1 (5 - n)"
    by (auto simp: login_attempt_left(1,2) sf wrong_login_def assms[symmetric] await_login_step_def handle_invite_request_def Let_def fst_try_say simple
        dest!: keepalive_kept split: option.splits recv.splits peer_msg.splits prod.splits)
  show "codes_left (fst (await_login_step e t n d k s')) \<le> 5"
    by (auto simp: login_attempt_left(3) second_factor_left(2) await_login_step_def handle_invite_request_def Let_def fst_try_say simple
        split: option.splits recv.splits peer_msg.splits prod.splits)
qed

lemma code_left:
  "(if wrong_code e t (AwaitCode secret n lr ap, s0) then 1 else 0) + codes_left (fst (code_step e t secret n lr ap s)) \<le> max 1 (5 - n)"
  "logins_left (fst (code_step e t secret n lr ap s)) \<le> 1"
proof -
  have simple: "logins_left (Over b) = 0" "logins_left (AwaitCode secret m lr ap) = 1" "codes_left (Over b) = 0"
    "codes_left (AwaitCode secret m lr ap) = max 1 (5 - m)" for b m
    by (simp_all add: logins_left_def codes_left_def)
  have ad: "codes_left (fst (admit t lr ap s)) \<le> max 1 (5 - n)" using admit_left(2)[of t lr ap s] by simp
  show "(if wrong_code e t (AwaitCode secret n lr ap, s0) then 1 else 0) + codes_left (fst (code_step e t secret n lr ap s)) \<le> max 1 (5 - n)"
    using ad by (auto simp: wrong_code_def code_step_def fst_try_say simple split: recv.split peer_msg.split)
  show "logins_left (fst (code_step e t secret n lr ap s)) \<le> 1"
    using admit_left(1)[of t lr ap s] by (auto simp: code_step_def fst_try_say simple split: recv.split peer_msg.split)
qed

lemma step_left:
  "(if wrong_login e t st then 1 else 0) + logins_left (fst (session_step e t st)) \<le> logins_left (fst st)"
  "(if wrong_code e t st then 1 else 0) + codes_left (fst (session_step e t st)) \<le> codes_left (fst st)"
proof -
  obtain ph s where st: "st = (ph, s)" by fastforce
  define s' where "s' = s\<lparr>s_store := t_other t (s_store s)\<rparr>"
  have step: "session_step e t st = session_step e t (ph, s)" by (simp add: st)
  have "(if wrong_login e t (ph, s) then 1 else 0) + logins_left (fst (session_step e t (ph, s))) \<le> logins_left ph \<and>
    (if wrong_code e t (ph, s) then 1 else 0) + codes_left (fst (session_step e t (ph, s))) \<le> codes_left ph"
  proof (cases ph)
    case Greeting
    then show ?thesis
      using challenge_left[of t]
      by (auto simp: session_step_def Let_def s'_def[symmetric] wrong_login_def wrong_code_def greeting_step_def fst_try_say
          logins_left_def[of Greeting] logins_left_def[of "Over _"] logins_left_def[of AwaitKey] codes_left_def[of Greeting]
          codes_left_def[of "Over _"] codes_left_def[of AwaitKey] split: recv.split peer_msg.split)
  next
    case AwaitKey
    then show ?thesis
      using challenge_left[of t]
      by (auto simp: session_step_def Let_def s'_def[symmetric] wrong_login_def wrong_code_def key_step_def
          logins_left_def[of "Over _"] logins_left_def[of AwaitKey] codes_left_def[of "Over _"] codes_left_def[of AwaitKey]
          split: recv.split peer_msg.split)
  next
    case (AwaitLogin n d k)
    then show ?thesis
      using await_login_left[OF s'_def, of e n d k]
      by (simp add: session_step_def Let_def s'_def[symmetric] wrong_code_def logins_left_def[of "AwaitLogin _ _ _"] codes_left_def[of "AwaitLogin _ _ _"])
  next
    case (Approval sid d k lr)
    then show ?thesis
      using approval_left[of e t sid d k lr s']
      by (simp add: session_step_def Let_def s'_def[symmetric] wrong_login_def wrong_code_def logins_left_def[of "Approval _ _ _ _"]
          codes_left_def[of "Approval _ _ _ _"])
  next
    case (AwaitCode secret n lr ap)
    then show ?thesis
      using code_left(1)[of e t secret n lr ap s s'] code_left(2)[of e t secret n lr ap s']
      by (simp add: session_step_def Let_def s'_def[symmetric] wrong_login_def logins_left_def[of "AwaitCode _ _ _ _"]
          codes_left_def[of "AwaitCode _ _ _ _"])
  next
    case (AwaitAnswer sid d k)
    then show ?thesis
      using invite_left[of t sid d k s']
      by (simp add: session_step_def Let_def s'_def[symmetric] wrong_login_def wrong_code_def logins_left_def[of "AwaitAnswer _ _ _"]
          codes_left_def[of "AwaitAnswer _ _ _"])
  qed (simp_all add: session_step_def Let_def wrong_login_def wrong_code_def)
  then show "(if wrong_login e t st then 1 else 0) + logins_left (fst (session_step e t st)) \<le> logins_left (fst st)"
    "(if wrong_code e t st then 1 else 0) + codes_left (fst (session_step e t st)) \<le> codes_left (fst st)"
    by (simp_all add: st)
qed

lemma count_turns_left:
  "count_turns (wrong_login e) e turns st + logins_left (fst (run_session e turns st)) \<le> logins_left (fst st)"
  "count_turns (wrong_code e) e turns st + codes_left (fst (run_session e turns st)) \<le> codes_left (fst st)"
proof (induction turns arbitrary: st)
  case (Cons t turns)
  { case 1 show ?case using Cons.IH(1)[of "session_step e t st"] step_left(1)[of e t st] by (simp add: run_session_def) }
  { case 2 show ?case using Cons.IH(2)[of "session_step e t st"] step_left(2)[of e t st] by (simp add: run_session_def) }
qed (simp_all add: run_session_def)

lemma left_over: "logins_left ph = 0 \<longleftrightarrow> (\<exists>b. ph = Over b)" "codes_left ph = 0 \<longleftrightarrow> (\<exists>b. ph = Over b)"
  by (cases ph; simp add: logins_left_def codes_left_def)+

section \<open>Guesses, tokens and deadlines\<close>

abbreviation fail :: "bytes \<Rightarrow> rstr \<Rightarrow> session \<Rightarrow> session" where
  "fail r current \<equiv> count_temporary_password_attempt r current False"

lemma config_save_iff: "config_save cfg = None \<longleftrightarrow> read_failed cfg"
  by (simp add: config_save_def)

lemma failures_counted:
  assumes "current \<noteq> []" "s_attempts s = (current, 0)" "k < MAX_CONSECUTIVE_FAILURES"
  shows "(fail r current ^^ k) s = s\<lparr>s_attempts := (current, k)\<rparr>"
  using assms(3)
proof (induction k)
  case 0
  then show ?case using assms(2) by (cases s) simp
next
  case (Suc k)
  then show ?case using assms(1) by (simp add: count_temporary_password_attempt_def Let_def)
qed

lemma tenth_failure:
  assumes "current \<noteq> []" "s_attempts s = (current, 0)"
  shows "(fail r current ^^ 10) s = s\<lparr>s_attempts := (current, 0), s_store := rotate_password_if_needed r (s_store s)\<rparr>"
proof -
  have "(10 :: nat) = Suc 9" by simp
  then show ?thesis
    using failures_counted[OF assms, of 9 r] assms(1)
    by (simp only: funpow.simps comp_def MAX_CONSECUTIVE_FAILURES_def)
      (simp add: count_temporary_password_attempt_def Let_def MAX_CONSECUTIVE_FAILURES_def)
qed

lemma rotate_password:
  "\<not> read_failed (st_cfg st) \<Longrightarrow>
    password (st_cfg (rotate_password_if_needed r st)) =
      (if config2_get_option (st_cfg2 st) (str ''unattended-access'') = str ''Y'' then password (st_cfg st)
       else generate_random_string (take 6 r))"
  by (simp add: rotate_password_if_needed_def Let_def config_save_iff)

lemma parse_u64_show: "n < 2 ^ 64 \<Longrightarrow> parse_u64 (show_nat n) = Some n"
  using hd_show_nat[of n] digits_value_show_nat[of n] by (auto simp: parse_u64_def is_ascii_digit_def)

lemma take_recorded:
  assumes "length uuid = 16" "10 \<notin> set i" "now < 2 ^ 64"
  shows "take_switch_sides uuid j later (record_switch_sides uuid i now files) =
    (i = j \<and> now \<le> later \<and> later - now < SWITCH_SIDES_VALID_SECS, AList.delete uuid (record_switch_sides uuid i now files))"
  using assms by (simp add: take_switch_sides_def record_switch_sides_def update_conv' split_once_append parse_u64_show Let_def)

lemma take_again:
  "length uuid = 16 \<Longrightarrow> fst (take_switch_sides uuid j n (snd (take_switch_sides uuid i m files))) = False"
  by (auto simp: take_switch_sides_def Let_def delete_conv' split: option.splits prod.splits)

lemma not_waiting_after_deadline:
  assumes "case ph of AwaitLogin _ d _ \<Rightarrow> d \<le> t_now t | Approval _ d _ _ \<Rightarrow> d \<le> t_now t | AwaitAnswer _ d _ \<Rightarrow> d \<le> t_now t | _ \<Rightarrow> False"
  shows "\<exists>b. fst (session_step e t (ph, s)) = Over b"
  using assms
  by (cases ph) (auto simp: session_step_def Let_def await_login_step_def approval_step_def fst_try_say invite_step_def invite_answer_def)

text \<open>A phase that waits for the peer was entered at some turn, no longer ago than its allowance.\<close>

definition deadline_inv :: "turn list \<Rightarrow> phase \<Rightarrow> bool" where
  "deadline_inv turns ph =
     (case ph of
        AwaitLogin _ d _ \<Rightarrow> \<exists>t\<in>set turns. d = t_now t + 120000
      | Approval _ d _ _ \<Rightarrow> \<exists>t\<in>set turns. d = t_now t + 60000
      | AwaitAnswer _ d _ \<Rightarrow> \<exists>t\<in>set turns. d = t_now t + 60000
      | _ \<Rightarrow> True)"

lemma fst_second_factor:
  "deadline_inv turns (fst (second_factor e t lr ap s))"
  by (auto simp: second_factor_def fst_try_say fst_admit deadline_inv_def split: option.splits)

lemma deadline_step:
  assumes "deadline_inv turns (fst st)"
  shows "deadline_inv (turns @ [t]) (fst (session_step e t st))"
proof -
  obtain ph s where st: "st = (ph, s)" by fastforce
  have challenge: "deadline_inv (turns @ [t]) (fst (send_challenge t s'))" for s'
    by (simp add: send_challenge_def Let_def fst_try_say deadline_inv_def)
  have over: "deadline_inv (turns @ [t]) (Over b)" for b by (simp add: deadline_inv_def)
  have answer: "deadline_inv (turns @ [t]) (fst (approval_answer e t sid d k lr s'))"
    if "\<exists>t\<in>set turns. d = t_now t + 60000" for sid d k lr s'
    using that by (auto simp: approval_answer_def fst_try_say fst_second_factor split: option.split bool.split)
      (auto simp: deadline_inv_def)
  have login: "deadline_inv (turns @ [t]) (fst (login_attempt e t n d k lr s'))"
    if "\<exists>t\<in>set turns. d = t_now t + 120000" for n d k lr s'
    using that by (auto simp: login_attempt_def Let_def fst_try_say fst_second_factor ask_user_def) (auto simp: deadline_inv_def)
  show ?thesis
  proof (cases ph)
    case Greeting
    then show ?thesis
      by (auto simp: st session_step_def Let_def greeting_step_def fst_try_say challenge over split: recv.split peer_msg.split)
        (simp add: deadline_inv_def)
  next
    case AwaitKey
    then show ?thesis
      by (auto simp: st session_step_def Let_def key_step_def challenge over split: recv.split peer_msg.split)
  next
    case (AwaitLogin n d k)
    then have d: "\<exists>t\<in>set turns. d = t_now t + 120000" using assms by (simp add: st deadline_inv_def)
    then have stay: "deadline_inv (turns @ [t]) (AwaitLogin n d k')" for k' by (auto simp: deadline_inv_def)
    have ans: "deadline_inv (turns @ [t]) (AwaitAnswer i (t_now t + 60000) k')" for i k' by (simp add: deadline_inv_def)
    show ?thesis
      using AwaitLogin
      by (auto simp: st session_step_def Let_def await_login_step_def fst_try_say fst_second_factor over stay login[OF d] ans
          handle_invite_request_def split: option.split recv.split peer_msg.split prod.split)
  next
    case (Approval sid d k lr)
    then have d: "\<exists>t\<in>set turns. d = t_now t + 60000" using assms by (simp add: st deadline_inv_def)
    show ?thesis
      using Approval
      by (auto simp: st session_step_def Let_def approval_step_def fst_try_say fst_second_factor over answer[OF d]
          split: option.split recv.split peer_msg.split prod.split)
  next
    case (AwaitCode secret n lr ap)
    then show ?thesis
      using code_step_cases[of e t secret n lr ap "s\<lparr>s_store := t_other t (s_store s)\<rparr>"]
      by (auto simp: st session_step_def Let_def deadline_inv_def)
  next
    case (AwaitAnswer sid d k)
    then have "\<exists>t\<in>set turns. d = t_now t + 60000" using assms by (simp add: st deadline_inv_def)
    then show ?thesis
      using AwaitAnswer
      by (auto simp: st session_step_def Let_def invite_step_def invite_answer_def deadline_inv_def split: option.split prod.split)
  qed (simp_all add: st session_step_def Let_def deadline_inv_def)
qed

lemma deadline_run: "deadline_inv turns (fst (run_session e turns (open_session e addr up s)))"
proof (induction turns rule: rev_induct)
  case Nil
  then show ?case by (simp add: run_session_def open_session_def Let_def deadline_inv_def)
qed (simp add: run_session_snoc deadline_step)


lemma deadline_entered:
  assumes "fst (run_session e turns (open_session e addr up s)) = ph"
  shows "case ph of
      AwaitLogin _ d _ \<Rightarrow> \<exists>t\<in>set turns. d = t_now t + 120000
    | Approval _ d _ _ \<Rightarrow> \<exists>t\<in>set turns. d = t_now t + 60000
    | AwaitAnswer _ d _ \<Rightarrow> \<exists>t\<in>set turns. d = t_now t + 60000
    | _ \<Rightarrow> True"
  using deadline_run[of turns e addr up s] assms by (simp add: deadline_inv_def)

lemma seal_open_box: "dh a B = dh b A \<Longrightarrow> crypto_box_open dh A b n sealed = Some m \<longleftrightarrow> sealed = crypto_box_seal dh B a n m"
  by (simp add: crypto_box_open_def crypto_box_seal_def crypto_box_beforenm_def secretbox.unseal_iff)

lemma setup_key:
  "s_key (try_setup_encryption e pk sealed s) =
    (case crypto_box_open (e_dh e) pk (e_eph_sk e) (replicate 24 0) sealed of
       Some k \<Rightarrow> if length pk = 32 \<and> sealed \<noteq> [] \<and> length k = 32 then Some k else s_key s
     | None \<Rightarrow> s_key s)"
  by (auto simp: try_setup_encryption_def split: option.splits)

text \<open>A small session to evaluate on.\<close>

definition demo_env :: env where
  "demo_env = \<lparr>e_hmac = \<lambda>k m. [], e_upper = \<lambda>c. [c], e_dh = \<lambda>a b. replicate 32 0, e_id = [49], e_signing_sk = [], e_signing_pk = [],
     e_eph_sk = replicate 32 0, e_eph_pk = replicate 32 0\<rparr>"

definition demo_session :: session where
  "demo_session = \<lparr>s_store = \<lparr>st_cfg = config_empty\<lparr>password := [97]\<rparr>, st_cfg2 = config2_empty\<rparr>, s_sent = [], s_key = None, s_max_frame = 0,
     s_salt = [], s_challenge = [], s_attempts = ([], 0), s_switch = [], s_cm = [], s_cm_session = None\<rparr>"

definition demo_request :: login_request where
  "demo_request = \<lparr>lr_my_id = [50], lr_my_name = [], lr_my_platform = [], lr_password = [], lr_union = Some TerminalSession\<rparr>"

definition demo_turn :: "recv \<Rightarrow> bool option \<Rightarrow> turn" where
  "demo_turn r answer = \<lparr>t_now = 0, t_unix = 0, t_recv = r, t_up = True, t_cm = answer, t_fresh = replicate 8 0, t_other = id\<rparr>"

definition demo_turns :: "turn list" where
  "demo_turns = [demo_turn (Received OtherMsg) None, demo_turn (Received (LoginRequest demo_request)) None, demo_turn TimedOut (Some True)]"

lemma demo_refusal: "refusal config2_empty Shell = None"
  by (simp add: refusal_def denied_def config2_get_option_def config2_empty_def options_get_def str_def)

lemma demo_secret: "load_secret u config2_empty = None"
  by (simp add: load_secret_def config2_get_option_def config2_empty_def options_get_def)

lemmas demo_defs = demo_env_def demo_session_def demo_request_def demo_turn_def

lemma demo_waits:
  "\<exists>s. run_session demo_env (take 2 demo_turns) (open_session demo_env None True demo_session) =
     (Approval (generate_random_string (replicate 8 0)) 60000 0 demo_request, s) \<and> st_cfg2 (s_store s) = config2_empty"
  by (simp add: run_session_def demo_turns_def session_step_def open_session_def Let_def greeting_step_def send_challenge_def
      demo_defs await_login_step_def keepalive_def login_attempt_def login_password_ok_def ask_user_def try_say_def)

lemma demo_admitted:
  "fst (run_session demo_env demo_turns (open_session demo_env None True demo_session)) =
     Started Shell (generate_random_string (replicate 8 0)) demo_request"
proof -
  have turns: "demo_turns = take 2 demo_turns @ [demo_turn TimedOut (Some True)]" by (simp add: demo_turns_def)
  obtain s where s: "run_session demo_env (take 2 demo_turns) (open_session demo_env None True demo_session) =
     (Approval (generate_random_string (replicate 8 0)) 60000 0 demo_request, s)" "st_cfg2 (s_store s) = config2_empty"
    using demo_waits by blast
  have "session_kind_of demo_request = Shell" by (simp add: session_kind_of_def demo_request_def)
  then show ?thesis
    by (subst turns)
      (simp add: run_session_snoc s session_step_def Let_def approval_step_def keepalive_def demo_turn_def
        approval_answer_def second_factor_def demo_secret fst_admit demo_refusal)
qed

section \<open>Properties\<close>

text \<open>C4: Whoever gets a session has been vouched for before: by the right password, by a fresh switch-sides token or by the
  user, within the time allowed; if a second factor was set at that moment, a valid code was received after it; the
  session is of the kind the request asks for, and that kind is not forbidden. This holds whatever the peer sends, whatever
  other processes write meanwhile, for every source of randomness.\<close>

theorem session_admission:
  assumes "fst (run_session e turns (open_session e addr up s)) = Started kind sid lr"
  shows "kind = session_kind_of lr \<and> offered e (open_session e addr up s) turns kind \<and>
    (\<exists>secret post. vouched_in e (open_session e addr up s) turns lr secret post \<and>
       (case secret of None \<Rightarrow> True | Some k \<Rightarrow> \<exists>u\<in>set post. code_ok e k u))"
  using admission_run[OF open_waiting, of e e addr up s turns] unfolding assms admission_inv_def phase.case by blast

theorem session_admission_witness:
  "offered demo_env (open_session demo_env None True demo_session) demo_turns Shell"
  using session_admission[OF demo_admitted] by blast

text \<open>C23: Whatever the peer sends, at most five wrong passwords are compared while the server waits for a login, and at most
  five wrong codes, and the fifth ends the connection. Until the session starts, frames are limited to the length before login, and the
  count of failures of the temporary password never reaches ten. (Passwords tried while a request waits for the user's approval are
  not limited by the connection; they count against the temporary password only.)\<close>

theorem login_limits_kept:
  assumes "snd (s_attempts s) < MAX_CONSECUTIVE_FAILURES"
  shows "let st = open_session e addr up s; logins = count_turns (wrong_login e) e turns st; codes = count_turns (wrong_code e) e turns st in
    logins \<le> 5 \<and> codes \<le> 5 \<and> (logins = 5 \<or> codes = 5 \<longrightarrow> (\<exists>b. fst (run_session e turns st) = Over b)) \<and>
    login_limits (run_session e turns st)"
proof -
  let ?st = "open_session e addr up s" and ?ph = "fst (run_session e turns (open_session e addr up s))"
  have "logins_left (fst ?st) \<le> 5" "codes_left (fst ?st) \<le> 5"
    by (simp_all add: open_session_def Let_def logins_left_def codes_left_def)
  then have l: "count_turns (wrong_login e) e turns ?st + logins_left ?ph \<le> 5" and c: "count_turns (wrong_code e) e turns ?st + codes_left ?ph \<le> 5"
    using count_turns_left[of e turns ?st] by linarith+
  have "logins_left ?ph = 0 \<or> codes_left ?ph = 0 \<Longrightarrow> \<exists>b. ?ph = Over b" using left_over by blast
  moreover have "count_turns (wrong_login e) e turns ?st = 5 \<Longrightarrow> logins_left ?ph = 0" using l by simp
  moreover have "count_turns (wrong_code e) e turns ?st = 5 \<Longrightarrow> codes_left ?ph = 0" using c by simp
  ultimately have "count_turns (wrong_login e) e turns ?st = 5 \<or> count_turns (wrong_code e) e turns ?st = 5 \<Longrightarrow> \<exists>b. ?ph = Over b" by metis
  moreover have "count_turns (wrong_login e) e turns ?st \<le> 5" "count_turns (wrong_code e) e turns ?st \<le> 5" using l c by simp_all
  moreover have "login_limits (run_session e turns ?st)" by (intro run_limits open_limits assms)
  ultimately show ?thesis unfolding Let_def by blast
qed

definition wrong_turn :: turn where
  "wrong_turn = demo_turn (Received (LoginRequest (demo_request\<lparr>lr_password := [1]\<rparr>))) None"

definition wrong_turns :: "turn list" where
  "wrong_turns = demo_turn (Received OtherMsg) None # replicate 5 wrong_turn"

lemma demo_wrong_step:
  "wrong_login demo_env wrong_turn (AwaitLogin n 120000 0, s)"
  "\<exists>s'. session_step demo_env wrong_turn (AwaitLogin n 120000 0, s) = (if 5 \<le> n + 1 then Over True else AwaitLogin (n + 1) 120000 0, s')"
  by (simp_all add: wrong_login_def wrong_turn_def demo_turn_def demo_request_def keepalive_def login_password_ok_def session_step_def
      Let_def await_login_step_def login_attempt_def try_say_def)

lemma demo_wrong_steps:
  "n + k \<le> 5 \<Longrightarrow> n < 5 \<Longrightarrow> count_turns (wrong_login demo_env) demo_env (replicate k wrong_turn) (AwaitLogin n 120000 0, s) = k"
proof (induction k arbitrary: n s)
  case (Suc k)
  obtain s' where s': "session_step demo_env wrong_turn (AwaitLogin n 120000 0, s) = (if 5 \<le> n + 1 then Over True else AwaitLogin (n + 1) 120000 0, s')"
    using demo_wrong_step(2) by blast
  show ?case
  proof (cases "n + 1 < 5")
    case False
    then have "k = 0" using Suc.prems by simp
    then show ?thesis by (simp add: demo_wrong_step(1))
  qed (use Suc in \<open>simp add: demo_wrong_step(1) s'\<close>)
qed simp

lemma demo_wrong: "count_turns (wrong_login demo_env) demo_env wrong_turns (open_session demo_env None True demo_session) = 5"
proof -
  obtain s where "session_step demo_env (demo_turn (Received OtherMsg) None) (open_session demo_env None True demo_session) = (AwaitLogin 0 120000 0, s)"
    by (simp add: session_step_def open_session_def greeting_step_def send_challenge_def try_say_def demo_turn_def Let_def)
  moreover have "\<not> wrong_login demo_env (demo_turn (Received OtherMsg) None) (open_session demo_env None True demo_session)"
    by (simp add: wrong_login_def open_session_def Let_def)
  ultimately show ?thesis using demo_wrong_steps[of 0 5 s] by (simp add: wrong_turns_def)
qed

theorem login_limits_kept_witness:
  "\<exists>b. fst (run_session demo_env wrong_turns (open_session demo_env None True demo_session)) = Over b"
proof -
  have "snd (s_attempts demo_session) < MAX_CONSECUTIVE_FAILURES" by (simp add: demo_session_def MAX_CONSECUTIVE_FAILURES_def)
  from login_limits_kept[OF this, of demo_env None True wrong_turns] show ?thesis by (simp add: Let_def demo_wrong)
qed

text \<open>C24: Failed guesses of a temporary password are counted; nine leave it as it is, the tenth in a row replaces it with a new one of six
  characters and starts the count again, unless the machine is set to unattended access; a success, or another
  password, starts the count again.\<close>

theorem guessing_rotates_password:
  assumes "current \<noteq> []" "s_attempts s = (current, 0)" "k < 10" "\<not> read_failed (st_cfg (s_store s))" "length r \<ge> 6"
  shows "(fail r current ^^ k) s = s\<lparr>s_attempts := (current, k)\<rparr> \<and>
    s_attempts ((fail r current ^^ 10) s) = (current, 0) \<and>
    password (st_cfg (s_store ((fail r current ^^ 10) s))) =
      (if config2_get_option (st_cfg2 (s_store s)) (str ''unattended-access'') = str ''Y'' then password (st_cfg (s_store s))
       else generate_random_string (take 6 r)) \<and>
    length (generate_random_string (take 6 r)) = 6 \<and>
    s_attempts (count_temporary_password_attempt r current True ((fail r current ^^ k) s)) = (current, 0) \<and>
    (current' \<noteq> current \<and> current' \<noteq> [] \<longrightarrow> s_attempts (fail r current' ((fail r current ^^ k) s)) = (current', 1))"
  using assms failures_counted[OF assms(1,2), of k r]
  by (simp add: tenth_failure rotate_password MAX_CONSECUTIVE_FAILURES_def generate_random_string_def
      count_temporary_password_attempt_def Let_def)

theorem guessing_rotates_password_witness:
  "password (st_cfg (s_store ((fail (replicate 6 0) [97] ^^ 10) (demo_session\<lparr>s_attempts := ([97], 0)\<rparr>)))) \<noteq> [97]"
proof -
  let ?s = "demo_session\<lparr>s_attempts := ([97], 0)\<rparr>"
  have o: "config2_get_option (st_cfg2 (s_store ?s)) (str ''unattended-access'') \<noteq> str ''Y''"
    by (simp add: demo_session_def config2_get_option_def config2_empty_def options_get_def str_def)
  note * = guessing_rotates_password[of "[97]" ?s 0 "replicate 6 0" "[98]"]
  then have "password (st_cfg (s_store ((fail (replicate 6 0) [97] ^^ 10) ?s))) = generate_random_string (take 6 (replicate 6 0))
      \<and> length (generate_random_string (take 6 (replicate 6 0))) = 6"
    using o by (simp add: demo_session_def config_empty_def)
  then show ?thesis by (metis length_Cons list.size(3) numeral_eq_one_iff One_nat_def semiring_norm(85))
qed

text \<open>C25: A token for switching sides that was recorded for a peer lets in that peer alone, during sixty seconds, and one time.\<close>

theorem switch_sides_once:
  assumes "length uuid = 16" "10 \<notin> set peer" "recorded_at < 2 ^ 64"
    and "take_switch_sides uuid claimed now (record_switch_sides uuid peer recorded_at files) = (ok, files')"
  shows "(ok \<longleftrightarrow> claimed = peer \<and> recorded_at \<le> now \<and> now < recorded_at + 60) \<and>
    \<not> fst (take_switch_sides uuid anyone later files') \<and>
    (\<forall>other. other \<noteq> uuid \<longrightarrow> map_of files' other = map_of files other)"
  using assms take_recorded[OF assms(1-3), of claimed now files]
    take_again[OF assms(1), of anyone later claimed now "record_switch_sides uuid peer recorded_at files"]
  by (auto simp: SWITCH_SIDES_VALID_SECS_def record_switch_sides_def update_conv' delete_conv')

theorem switch_sides_once_witness:
  "fst (take_switch_sides (replicate 16 7) [50] 159 (record_switch_sides (replicate 16 7) [50] 100 []))"
  using switch_sides_once[OF _ _ _ surjective_pairing, of "replicate 16 7" "[50]" 100 "[50]" 159 "[]"] by simp

text \<open>No peer can keep the server waiting: the login ends two minutes after the challenge, the approval and the
  answer to an invitation one minute after they were asked for, whatever is received.\<close>

theorem waiting_ends:
  assumes "run_session e turns (open_session e addr up s) = (ph, s')"
    and "case ph of AwaitLogin _ d _ \<Rightarrow> d \<le> t_now t | Approval _ d _ _ \<Rightarrow> d \<le> t_now t | AwaitAnswer _ d _ \<Rightarrow> d \<le> t_now t | _ \<Rightarrow> False"
  shows "(\<exists>b. fst (run_session e (turns @ [t]) (open_session e addr up s)) = Over b) \<and>
    (case ph of
      AwaitLogin _ d _ \<Rightarrow> \<exists>u\<in>set turns. d = t_now u + 120000
    | Approval _ d _ _ \<Rightarrow> \<exists>u\<in>set turns. d = t_now u + 60000
    | AwaitAnswer _ d _ \<Rightarrow> \<exists>u\<in>set turns. d = t_now u + 60000
    | _ \<Rightarrow> True)"
  using not_waiting_after_deadline[OF assms(2), of e s'] deadline_entered[of e turns addr up s ph] assms(1)
  by (simp add: run_session_snoc)

theorem waiting_ends_witness:
  "\<exists>b. fst (run_session demo_env (take 2 demo_turns @ [demo_turn TimedOut None\<lparr>t_now := 60000\<rparr>])
     (open_session demo_env None True demo_session)) = Over b"
proof -
  obtain s where s: "run_session demo_env (take 2 demo_turns) (open_session demo_env None True demo_session) =
     (Approval (generate_random_string (replicate 8 0)) 60000 0 demo_request, s)"
    using demo_waits by blast
  show ?thesis using waiting_ends[OF s, of "demo_turn TimedOut None\<lparr>t_now := 60000\<rparr>"] by simp
qed

text \<open>C26: When the viewer seals a key of 32 bytes for the server's ephemeral key, and both sides of the Diffie-Hellman function agree, the
  server takes exactly that key; a sealed key is opened only if it was made with the shared secret, and otherwise
  the server goes on with the key it had, none at the start.\<close>

theorem session_key_agreement:
  assumes "e_dh e viewer_sk server_pk = e_dh e (e_eph_sk e) viewer_pk" "length viewer_pk = 32"
  shows "(length k = 32 \<longrightarrow>
      s_key (try_setup_encryption e viewer_pk (crypto_box_seal (e_dh e) server_pk viewer_sk (replicate 24 0) k) s) = Some k) \<and>
    ((\<forall>k. length k = 32 \<longrightarrow> sealed \<noteq> crypto_box_seal (e_dh e) server_pk viewer_sk (replicate 24 0) k) \<longrightarrow>
      s_key (try_setup_encryption e viewer_pk sealed s) = s_key s)"
proof -
  note open_iff = seal_open_box[of "e_dh e", OF assms(1)]
  have opens: "crypto_box_open (e_dh e) viewer_pk (e_eph_sk e) (replicate 24 0) (crypto_box_seal (e_dh e) server_pk viewer_sk (replicate 24 0) k) = Some k"
    by (simp add: open_iff)
  have "crypto_box_seal (e_dh e) server_pk viewer_sk (replicate 24 0) k \<noteq> []" if "length k = 32"
    using secretbox.length_seal that by (metis crypto_box_seal_def add_is_0 list.size(3) zero_neq_numeral)
  moreover have "s_key (try_setup_encryption e viewer_pk sealed s) = s_key s"
    if "\<forall>k. length k = 32 \<longrightarrow> sealed \<noteq> crypto_box_seal (e_dh e) server_pk viewer_sk (replicate 24 0) k"
    using that by (auto simp: setup_key open_iff split: option.split)
  ultimately show ?thesis using assms(2) by (simp add: setup_key opens)
qed

theorem session_key_agreement_witness:
  "s_key (try_setup_encryption demo_env (replicate 32 1)
     (crypto_box_seal (e_dh demo_env) (replicate 32 0) (replicate 32 2) (replicate 24 0) (replicate 32 9)) demo_session) = Some (replicate 32 9)"
  using session_key_agreement[of demo_env "replicate 32 2" "replicate 32 0" "replicate 32 1" "replicate 32 9" demo_session]
  by (simp add: demo_env_def)

end
