(* ===== verification/Terminal.thy ===== *)
theory Terminal
  imports Utf8 "HOL-Library.AList"
begin

text \<open>
  \<open>src/src/terminal_service.rs\<close>: the line editor that the server keeps for a shell behind pipes, the actions of the
  viewer, the forwarding of output and the loop of a terminal session. The shell, its pipes and its three
  threads are outside; what they do to the two queues and to the child between turns is a list of
  \<open>shell_event\<close>s. Times are milliseconds. \<open>HashMap\<close> keeps no order, so the order in which output is
  collected is a parameter of the turn.
\<close>

section \<open>Bytes that need not be UTF-8\<close>

text \<open>How many bytes one replacement character stands for: the longest start of a character, at least one byte.\<close>

definition utf8_bad_len :: "bytes \<Rightarrow> nat" where
  "utf8_bad_len bs =
     (case bs of
        b0 # b1 # r \<Rightarrow>
          (let three = 0xE0 \<le> unat b0 \<and> unat b0 < 0xF0; four = 0xF0 \<le> unat b0 \<and> unat b0 < 0xF5;
               low = (if unat b0 = 0xE0 then 0xA0 else if unat b0 = 0xF0 then 0x90 else 0x80);
               high = (if unat b0 = 0xED then 0xA0 else if unat b0 = 0xF4 then 0x90 else 0xC0)
           in if (three \<or> four) \<and> low \<le> unat b1 \<and> unat b1 < high
              then (if four then (case r of b2 # _ \<Rightarrow> if utf8_cont b2 then 3 else 2 | [] \<Rightarrow> 2) else 2)
              else 1)
      | _ \<Rightarrow> 1)"

lemma utf8_bad_len_pos: "0 < utf8_bad_len bs"
  by (simp add: utf8_bad_len_def Let_def split: list.split)

function from_utf8_lossy :: "bytes \<Rightarrow> rstr" where
  "from_utf8_lossy bs =
     (if bs = [] then []
      else case utf8_next bs of
        Some (c, r) \<Rightarrow> c # from_utf8_lossy r
      | None \<Rightarrow> 0xFFFD # from_utf8_lossy (drop (utf8_bad_len bs) bs))"
  by pat_completeness auto
termination
  by (relation "measure length") (auto dest: utf8_next_shorter simp: utf8_bad_len_pos)

declare from_utf8_lossy.simps [simp del]

lemma from_utf8_lossy_valid: "from_utf8 bs = Some s \<Longrightarrow> from_utf8_lossy bs = s"
proof (induction bs arbitrary: s rule: from_utf8.induct)
  case (1 bs)
  then show ?case
    by (subst from_utf8_lossy.simps) (auto simp: from_utf8.simps[of bs] split: if_splits option.splits prod.splits)
qed

section \<open>The line editor\<close>

datatype esc_state = Normal | Esc | Csi

record editor =
  line_buffer :: rstr
  cursor :: nat
  csi :: rstr
  esc_state :: esc_state

text \<open>The functions take the session and the echo so far and give both. A loop of the code is a recursion on its counter.\<close>

type_synonym 'a echoing = "'a editor_scheme \<times> rstr"

fun line_move_left :: "'a echoing \<Rightarrow> 'a echoing" where
  "line_move_left (s, echo) = (if cursor s > 0 then (s\<lparr>cursor := cursor s - 1\<rparr>, echo @ [8]) else (s, echo))"

fun line_move_right :: "'a echoing \<Rightarrow> 'a echoing" where
  "line_move_right (s, echo) =
     (if cursor s < length (line_buffer s) then (s\<lparr>cursor := cursor s + 1\<rparr>, echo @ [line_buffer s ! cursor s]) else (s, echo))"

function line_move_home :: "'a echoing \<Rightarrow> 'a echoing" where
  "line_move_home (s, echo) =
     (if cursor s > 0 then line_move_home (s\<lparr>cursor := cursor s - 1\<rparr>, echo @ [8]) else (s, echo))"
  by pat_completeness auto
termination by (relation "measure (\<lambda>(s, echo). cursor s)") auto

function line_move_end :: "'a echoing \<Rightarrow> 'a echoing" where
  "line_move_end (s, echo) =
     (if cursor s < length (line_buffer s)
      then line_move_end (s\<lparr>cursor := cursor s + 1\<rparr>, echo @ [line_buffer s ! cursor s]) else (s, echo))"
  by pat_completeness auto
termination by (relation "measure (\<lambda>(s, echo). length (line_buffer s) - cursor s)") auto

declare line_move_home.simps [simp del] line_move_end.simps [simp del]

definition vec_remove :: "nat \<Rightarrow> 'a list \<Rightarrow> 'a list" where
  "vec_remove i xs = take i xs @ drop (i + 1) xs"

definition vec_insert :: "nat \<Rightarrow> 'a \<Rightarrow> 'a list \<Rightarrow> 'a list option" where
  "vec_insert i x xs = (if i \<le> length xs then Some (take i xs @ x # drop i xs) else None)"

fun line_delete_at :: "'a echoing \<Rightarrow> 'a echoing" where
  "line_delete_at (s, echo) =
     (if cursor s < length (line_buffer s) then
        (let buf = vec_remove (cursor s) (line_buffer s);
             tail = drop (cursor s) buf;
             tail_len = length buf - cursor s
         in (s\<lparr>line_buffer := buf\<rparr>, echo @ tail @ [32] @ replicate (tail_len + 1) 8))
      else (s, echo))"

fun line_backspace :: "'a echoing \<Rightarrow> 'a echoing" where
  "line_backspace (s, echo) =
     (if cursor s > 0 then line_delete_at (s\<lparr>cursor := cursor s - 1\<rparr>, echo @ [8]) else (s, echo))"

text \<open>\<open>Vec::insert\<close> panics beyond the end: \<open>None\<close>.\<close>

fun line_insert :: "rchar \<Rightarrow> 'a echoing \<Rightarrow> 'a echoing option" where
  "line_insert ch (s, echo) =
     (case vec_insert (cursor s) ch (line_buffer s) of
        None \<Rightarrow> None
      | Some buf \<Rightarrow>
          (let tail = drop (cursor s) buf; tail_len = length buf - cursor s
           in Some (s\<lparr>line_buffer := buf, cursor := cursor s + 1\<rparr>, echo @ tail @ replicate (tail_len - 1) 8)))"

fun line_clear :: "'a echoing \<Rightarrow> 'a echoing" where
  "line_clear (s, echo) =
     (let (s, echo) = line_move_end (s, echo); n = length (line_buffer s)
      in (s\<lparr>line_buffer := [], cursor := 0\<rparr>, echo @ concat (replicate n [8, 32, 8])))"

definition apply_csi :: "rchar \<Rightarrow> 'a echoing \<Rightarrow> 'a echoing" where
  "apply_csi final_byte p =
     (let (s, echo) =
        (if final_byte = 68 then line_move_left p
         else if final_byte = 67 then line_move_right p
         else if final_byte = 72 then line_move_home p
         else if final_byte = 70 then line_move_end p
         else if final_byte = 126 then
           (let code = csi (fst p)
            in if code = str ''1'' \<or> code = str ''7'' then line_move_home p
               else if code = str ''4'' \<or> code = str ''8'' then line_move_end p
               else if code = str ''3'' then line_delete_at p else p)
         else p)
      in (s\<lparr>csi := []\<rparr>, echo))"

text \<open>What one \<open>Data\<close> action gathers over its characters.\<close>

record 'a feed =
  f_edit :: "'a echoing"
  f_lines :: "bytes list"
  f_ctrl_c :: bool

definition set_edit :: "('a editor_scheme \<Rightarrow> 'a editor_scheme) \<Rightarrow> 'a feed \<Rightarrow> 'a feed" where
  "set_edit g f = f\<lparr>f_edit := (g (fst (f_edit f)), snd (f_edit f))\<rparr>"

definition data_char :: "rchar \<Rightarrow> 'a feed \<Rightarrow> 'a feed option" where
  "data_char ch f =
     (let s = fst (f_edit f) in
      case esc_state s of
        Esc \<Rightarrow>
          if ch = 91 then Some (set_edit (\<lambda>s. s\<lparr>csi := [], esc_state := Csi\<rparr>) f)
          else Some (set_edit (\<lambda>s. s\<lparr>esc_state := Normal\<rparr>) f)
      | Csi \<Rightarrow>
          if 0x40 \<le> ch \<and> ch \<le> 0x7E
          then Some (set_edit (\<lambda>s. s\<lparr>esc_state := Normal\<rparr>) (f\<lparr>f_edit := apply_csi ch (f_edit f)\<rparr>))
          else Some (set_edit (\<lambda>s. s\<lparr>csi := csi s @ [ch]\<rparr>) f)
      | Normal \<Rightarrow>
          if ch = 27 then Some (set_edit (\<lambda>s. s\<lparr>esc_state := Esc\<rparr>) f)
          else if ch = 13 \<or> ch = 10 then
            Some (f\<lparr>f_edit := (s\<lparr>line_buffer := [], cursor := 0\<rparr>, snd (f_edit f) @ [13, 10]),
                    f_lines := f_lines f @ [utf8 (line_buffer s) @ [13, 10]]\<rparr>)
          else if ch = 127 \<or> ch = 8 then Some (f\<lparr>f_edit := line_backspace (f_edit f)\<rparr>)
          else if ch = 21 then Some (f\<lparr>f_edit := line_clear (f_edit f)\<rparr>)
          else if ch = 3 then Some (set_edit (\<lambda>s. s\<lparr>line_buffer := [], cursor := 0\<rparr>) (f\<lparr>f_ctrl_c := True\<rparr>))
          else if ch = 9 then Some f
          else if ch \<ge> 32 then map_option (\<lambda>p. f\<lparr>f_edit := p\<rparr>) (line_insert ch (f_edit f))
          else Some f)"

fun data_chars :: "rstr \<Rightarrow> 'a feed \<Rightarrow> 'a feed option" where
  "data_chars [] f = Some f"
| "data_chars (ch # chs) f = (case data_char ch f of None \<Rightarrow> None | Some f \<Rightarrow> data_chars chs f)"

section \<open>What the editor is for\<close>

text \<open>The keys that a viewer's characters spell, and a line with a cursor in it as the text before and behind the cursor.\<close>

datatype key = Type rchar | Left | Right | Home | End | Delete | Backspace | Kill | Return | Interrupt

definition csi_key :: "rstr \<Rightarrow> rchar \<Rightarrow> key option" where
  "csi_key code final =
     map_of [((68, []), Left), ((67, []), Right), ((72, []), Home), ((70, []), End), ((126, [49]), Home), ((126, [55]), Home),
             ((126, [52]), End), ((126, [56]), End), ((126, [51]), Delete)]
       (final, if final = 126 then code else [])"

definition decode_char :: "rchar \<Rightarrow> esc_state \<times> rstr \<Rightarrow> (esc_state \<times> rstr) \<times> key option" where
  "decode_char ch = (\<lambda>(st, code).
     case st of
       Esc \<Rightarrow> (if ch = 91 then (Csi, []) else (Normal, code), None)
     | Csi \<Rightarrow> if 0x40 \<le> ch \<and> ch \<le> 0x7E then ((Normal, []), csi_key code ch) else ((Csi, code @ [ch]), None)
     | Normal \<Rightarrow>
         if ch = 27 then ((Esc, code), None)
         else ((Normal, code),
           if ch = 13 \<or> ch = 10 then Some Return else if ch = 127 \<or> ch = 8 then Some Backspace
           else if ch = 21 then Some Kill else if ch = 3 then Some Interrupt
           else if ch < 32 then None else Some (Type ch)))"

fun press :: "key \<Rightarrow> rstr \<times> rstr \<Rightarrow> rstr \<times> rstr" where
  "press (Type c) (l, r) = (l @ [c], r)"
| "press Left (l, r) = (if l = [] then (l, r) else (butlast l, last l # r))"
| "press Right (l, r) = (case r of [] \<Rightarrow> (l, r) | c # cs \<Rightarrow> (l @ [c], cs))"
| "press Home (l, r) = ([], l @ r)"
| "press End (l, r) = (l @ r, [])"
| "press Delete (l, r) = (l, tl r)"
| "press Backspace (l, r) = (butlast l, r)"
| "press _ (l, r) = ([], [])"

text \<open>The whole input: the decoder's state, the line, the lines entered and whether an interrupt was asked for.\<close>

type_synonym typed = "(esc_state \<times> rstr) \<times> (rstr \<times> rstr) \<times> bytes list \<times> bool"

definition type_char :: "rchar \<Rightarrow> typed \<Rightarrow> typed" where
  "type_char ch = (\<lambda>(st, lr, entered, ctrl_c).
     let (st', k) = decode_char ch st
     in case k of
          None \<Rightarrow> (st', lr, entered, ctrl_c)
        | Some k \<Rightarrow> (st', press k lr, entered @ (if k = Return then [utf8 (fst lr @ snd lr) @ [13, 10]] else []),
                     ctrl_c \<or> k = Interrupt))"

text \<open>A row of the viewer's screen with its column, every character one column wide.\<close>

type_synonym screen = "rstr \<times> nat"

definition screen_char :: "rchar \<Rightarrow> screen \<Rightarrow> screen" where
  "screen_char ch = (\<lambda>(row, col).
     if ch = 8 then (row, col - 1) else if ch = 13 then (row, 0) else if ch = 10 then ([], col)
     else (take col (row @ replicate (col - length row) 32) @ ch # drop (col + 1) row, col + 1))"

definition displays :: "rstr \<Rightarrow> rstr \<times> rstr \<Rightarrow> screen \<Rightarrow> bool" where
  "displays prompt = (\<lambda>(l, r) sc. \<exists>k. sc = (prompt @ l @ r @ replicate k 32, length prompt + length l))"

section \<open>The echo keeps the screen\<close>

abbreviation printable :: "rstr \<Rightarrow> bool" where
  "printable w \<equiv> \<forall>c\<in>set w. 32 \<le> c"

lemma screen_print:
  "printable w \<Longrightarrow> fold screen_char w (a @ b, length a) = (a @ w @ drop (length w) b, length a + length w)"
proof (induction w arbitrary: a b)
  case (Cons c w)
  then have "screen_char c (a @ b, length a) = ((a @ [c]) @ drop 1 b, length (a @ [c]))"
    by (auto simp: screen_char_def)
  then show ?case using Cons.IH[of "a @ [c]" "drop 1 b"] Cons.prems by simp
qed simp

lemma screen_back: "fold screen_char (replicate n 8) (row, col) = (row, col - n)"
  by (induction n arbitrary: col) (auto simp: screen_char_def)

lemma screen_erase:
  "length a = n \<Longrightarrow> fold screen_char (concat (replicate n [8, 32, 8])) (p @ a @ b, length p + n) = (p @ replicate n 32 @ b, length p)"
proof (induction n arbitrary: a b)
  case (Suc n)
  then obtain a' x where a: "a = a' @ [x]" "length a' = n" by (metis length_Suc_conv_rev)
  have "fold screen_char [8, 32, 8] (p @ a @ b, length p + Suc n) = (p @ a' @ 32 # b, length p + n)"
    using a by (simp add: screen_char_def)
  moreover have "replicate n 32 @ 32 # b = 32 # replicate n (32 :: nat) @ b" by (simp flip: replicate_append_same)
  ultimately show ?case using Suc.IH[OF a(2), of "32 # b"] by simp
qed simp

text \<open>\<open>tracks\<close>: the session holds the line; while \<open>on\<close>, the screen on which the echo is shown does, too.\<close>

definition tracks :: "bool \<Rightarrow> screen \<Rightarrow> rstr \<Rightarrow> rstr \<times> rstr \<Rightarrow> 'a echoing \<Rightarrow> bool" where
  "tracks on sc prompt = (\<lambda>(l, r) (s, echo).
     line_buffer s = l @ r \<and> cursor s = length l \<and> printable (l @ r) \<and> (on \<longrightarrow> displays prompt (l, r) (fold screen_char echo sc)))"

definition keeps :: "'a echoing \<Rightarrow> 'a echoing \<Rightarrow> bool" where
  "keeps p q \<longleftrightarrow> (\<exists>b c. fst q = (fst p)\<lparr>line_buffer := b, cursor := c\<rparr>)"

lemma keeps_refl: "keeps p p"
  unfolding keeps_def by (intro exI[of _ "line_buffer (fst p)"] exI[of _ "cursor (fst p)"]) simp

lemma keeps_trans: "keeps p q \<Longrightarrow> keeps q r \<Longrightarrow> keeps p r"
  by (fastforce simp: keeps_def)

lemma keeps_upd: "fst q = (fst p)\<lparr>line_buffer := b, cursor := c\<rparr> \<Longrightarrow> keeps p q"
  by (auto simp: keeps_def)

lemma keeps_cursor: "keeps (s, e) (s\<lparr>cursor := c\<rparr>, e')"
  unfolding keeps_def by (intro exI[of _ "line_buffer s"] exI[of _ c]) simp

lemma keeps_cursor_trans: "keeps (s\<lparr>cursor := c\<rparr>, e') q \<Longrightarrow> keeps (s, e) q"
  by (rule keeps_trans[OF keeps_cursor])

lemma keeps_buffer: "keeps (s, e) (s\<lparr>line_buffer := b\<rparr>, e')"
  unfolding keeps_def by (intro exI[of _ b] exI[of _ "cursor s"]) simp

lemma tracks_left:
  assumes "tracks on sc prompt (l, r) (s, echo)" "l \<noteq> []"
  shows "tracks on sc prompt (butlast l, last l # r) (s\<lparr>cursor := cursor s - 1\<rparr>, echo @ [8])"
proof -
  obtain l' x where "l = l' @ [x]" using assms(2) by (metis rev_exhaust)
  then show ?thesis using assms(1) by (auto simp: tracks_def displays_def screen_char_def)
qed

lemma tracks_right:
  assumes "tracks on sc prompt (l, c # r) (s, echo)"
  shows "tracks on sc prompt (l @ [c], r) (s\<lparr>cursor := cursor s + 1\<rparr>, echo @ [c])"
proof -
  have c: "printable [c]" using assms by (simp add: tracks_def)
  show ?thesis
  proof (cases on)
    case True
    then obtain k where "fold screen_char echo sc = (prompt @ l @ c # r @ replicate k 32, length prompt + length l)"
      using assms by (auto simp: tracks_def displays_def)
    then have "fold screen_char (echo @ [c]) sc = ((prompt @ l) @ [c] @ r @ replicate k 32, length (prompt @ l) + 1)"
      using screen_print[OF c, of "prompt @ l" "c # r @ replicate k 32"] by simp
    then show ?thesis using assms True by (auto simp: tracks_def displays_def)
  qed (use assms in \<open>auto simp: tracks_def\<close>)
qed

lemma home_tracks:
  "tracks on sc prompt (l, r) p \<Longrightarrow> tracks on sc prompt ([], l @ r) (line_move_home p) \<and> keeps p (line_move_home p)"
proof (induction l arbitrary: r p rule: rev_induct)
  case Nil
  then show ?case by (cases p) (simp add: line_move_home.simps tracks_def keeps_refl)
next
  case (snoc x l)
  obtain s echo where p: "p = (s, echo)" by fastforce
  note t = tracks_left[OF snoc.prems[unfolded p]]
  have "cursor s > 0" using snoc.prems p by (simp add: tracks_def)
  then have "line_move_home p = line_move_home (s\<lparr>cursor := cursor s - 1\<rparr>, echo @ [8])"
    by (simp add: p line_move_home.simps[of s echo])
  then show ?case
    using snoc.IH[of "x # r" "(s\<lparr>cursor := cursor s - 1\<rparr>, echo @ [8])"] t by (auto simp: p intro: keeps_cursor_trans[of "cursor s - 1"])
qed

lemma end_tracks:
  "tracks on sc prompt (l, r) p \<Longrightarrow> tracks on sc prompt (l @ r, []) (line_move_end p) \<and> keeps p (line_move_end p)"
proof (induction r arbitrary: l p)
  case Nil
  then show ?case by (cases p) (simp add: line_move_end.simps tracks_def keeps_refl)
next
  case (Cons x r)
  obtain s echo where p: "p = (s, echo)" by fastforce
  note t = tracks_right[OF Cons.prems[unfolded p]]
  have "cursor s < length (line_buffer s)" "line_buffer s ! cursor s = x" using Cons.prems p by (simp_all add: tracks_def)
  then have "line_move_end p = line_move_end (s\<lparr>cursor := cursor s + 1\<rparr>, echo @ [x])"
    by (simp add: p line_move_end.simps[of s echo])
  then show ?case
    using Cons.IH[of "l @ [x]" "(s\<lparr>cursor := cursor s + 1\<rparr>, echo @ [x])"] t by (auto simp: p intro: keeps_cursor_trans[of "cursor s + 1"])
qed

lemma delete_tracks:
  assumes "tracks on sc prompt (l, r) p"
  shows "tracks on sc prompt (l, tl r) (line_delete_at p) \<and> keeps p (line_delete_at p)"
proof (cases r)
  case Nil
  then show ?thesis using assms by (cases p) (simp add: tracks_def keeps_refl)
next
  case (Cons x r')
  obtain s echo where p: "p = (s, echo)" by fastforce
  have buf: "vec_remove (cursor s) (line_buffer s) = l @ r'" using assms Cons by (simp add: p tracks_def vec_remove_def)
  have out: "line_delete_at p = (s\<lparr>line_buffer := l @ r'\<rparr>, echo @ r' @ [32] @ replicate (length r' + 1) 8)"
    using assms Cons buf by (auto simp: p tracks_def Let_def)
  have "displays prompt (l, r') (fold screen_char (echo @ r' @ [32] @ replicate (length r' + 1) 8) sc)" if active: on
  proof -
    have pr: "printable (r' @ [32])" using assms Cons by (auto simp: p tracks_def)
    obtain k where k: "fold screen_char echo sc = ((prompt @ l) @ x # r' @ replicate k 32, length (prompt @ l))"
      using assms active Cons by (auto simp: p tracks_def displays_def)
    have "fold screen_char ((r' @ [32]) @ replicate (length r' + 1) 8) (fold screen_char echo sc) =
        ((prompt @ l) @ (r' @ [32]) @ replicate k 32, length (prompt @ l))"
      using screen_print[OF pr, of "prompt @ l" "x # r' @ replicate k 32"] by (simp only: fold_append comp_def k screen_back) simp
    then show ?thesis by (auto simp: displays_def intro!: exI[of _ "Suc k"])
  qed
  then show ?thesis using assms Cons unfolding out by (auto simp: p tracks_def keeps_buffer)
qed

lemma left_tracks:
  assumes "tracks on sc prompt (l, r) p"
  shows "tracks on sc prompt (press Left (l, r)) (line_move_left p) \<and> keeps p (line_move_left p)"
  using assms tracks_left[of on sc prompt l r "fst p" "snd p"]
  by (cases p) (auto simp: keeps_cursor keeps_refl tracks_def)

lemma right_tracks:
  assumes "tracks on sc prompt (l, r) p"
  shows "tracks on sc prompt (press Right (l, r)) (line_move_right p) \<and> keeps p (line_move_right p)"
proof (cases r)
  case (Cons c r')
  then show ?thesis
    using assms tracks_right[of on sc prompt l c r' "fst p" "snd p"] by (cases p) (auto simp: keeps_cursor tracks_def)
qed (use assms in \<open>cases p; auto simp: keeps_refl tracks_def\<close>)

lemma backspace_tracks:
  assumes "tracks on sc prompt (l, r) p"
  shows "tracks on sc prompt (butlast l, r) (line_backspace p) \<and> keeps p (line_backspace p)"
proof (cases "l = []")
  case True
  then show ?thesis using assms by (cases p) (auto simp: tracks_def keeps_refl)
next
  case False
  obtain s echo where p: "p = (s, echo)" by fastforce
  note t = delete_tracks[OF tracks_left[OF assms[unfolded p] False]]
  have "cursor s > 0" using assms False by (simp add: p tracks_def)
  then show ?thesis using t by (auto simp: p simp del: line_delete_at.simps intro: keeps_cursor_trans[of "cursor s - 1"])
qed

lemma insert_tracks:
  assumes "tracks on sc prompt (l, r) p" "32 \<le> c"
  shows "\<exists>q. line_insert c p = Some q \<and> tracks on sc prompt (l @ [c], r) q \<and> keeps p q"
proof -
  obtain s echo where p: "p = (s, echo)" by fastforce
  have buf: "vec_insert (cursor s) c (line_buffer s) = Some (l @ c # r)" using assms by (simp add: p tracks_def vec_insert_def)
  have q: "line_insert c p = Some (s\<lparr>line_buffer := l @ c # r, cursor := cursor s + 1\<rparr>, echo @ (c # r) @ replicate (length r) 8)"
    using assms buf by (auto simp: p tracks_def Let_def)
  have "displays prompt (l @ [c], r) (fold screen_char (echo @ (c # r) @ replicate (length r) 8) sc)" if active: on
  proof -
    have pr: "printable (c # r)" using assms by (auto simp: p tracks_def)
    obtain k where k: "fold screen_char echo sc = ((prompt @ l) @ r @ replicate k 32, length (prompt @ l))"
      using assms active by (auto simp: p tracks_def displays_def)
    have "fold screen_char ((c # r) @ replicate (length r) 8) (fold screen_char echo sc) =
        ((prompt @ l) @ (c # r) @ replicate (k - 1) 32, length (prompt @ l) + 1)"
      using screen_print[OF pr, of "prompt @ l" "r @ replicate k 32"] by (simp only: fold_append comp_def k screen_back) simp
    then show ?thesis by (auto simp: displays_def)
  qed
  then show ?thesis using assms unfolding q by (auto simp: p tracks_def keeps_def)
qed

lemma clear_tracks:
  assumes "tracks on sc prompt (l, r) p"
  shows "tracks on sc prompt ([], []) (line_clear p) \<and> keeps p (line_clear p)"
proof -
  obtain s echo where q: "line_move_end p = (s, echo)" by fastforce
  note t = end_tracks[OF assms, unfolded q]
  have out: "line_clear p = (s\<lparr>line_buffer := [], cursor := 0\<rparr>, echo @ concat (replicate (length (l @ r)) [8, 32, 8]))"
    using t q by (cases p) (simp add: tracks_def)
  have "displays prompt ([], []) (fold screen_char (echo @ concat (replicate (length (l @ r)) [8, 32, 8])) sc)" if active: on
  proof -
    obtain k where "fold screen_char echo sc = (prompt @ (l @ r) @ replicate k 32, length prompt + length (l @ r))"
      using t active by (auto simp: tracks_def displays_def)
    then show ?thesis
      using screen_erase[of "l @ r" "length (l @ r)" prompt "replicate k 32"]
      by (auto simp: displays_def replicate_add[symmetric])
  qed
  moreover have "keeps (s, echo) (line_clear p)" unfolding out by (rule keeps_upd) simp
  ultimately show ?thesis using t keeps_trans[of p "(s, echo)" "line_clear p"] by (auto simp: out tracks_def)
qed

section \<open>The editor implements the keys\<close>

lemma keeps_fields:
  "keeps p q \<Longrightarrow> csi (fst q) = csi (fst p) \<and> esc_state (fst q) = esc_state (fst p) \<and> editor.more (fst q) = editor.more (fst p)"
  by (auto simp: keeps_def)

lemma tracks_fields:
  "fst q = (fst p)\<lparr>esc_state := e, csi := c\<rparr> \<Longrightarrow> snd q = snd p \<Longrightarrow> tracks on sc prompt lr q = tracks on sc prompt lr p"
  by (cases p; cases q; cases lr) (simp add: tracks_def)

lemma tracks_set [simp]:
  "tracks on sc prompt lr (s\<lparr>csi := c\<rparr>, echo) = tracks on sc prompt lr (s, echo)"
  "tracks on sc prompt lr (s\<lparr>esc_state := e\<rparr>, echo) = tracks on sc prompt lr (s, echo)"
  by (cases lr; simp add: tracks_def)+

definition key_edit :: "key \<Rightarrow> 'a echoing \<Rightarrow> 'a echoing" where
  "key_edit k = (case k of Left \<Rightarrow> line_move_left | Right \<Rightarrow> line_move_right | Home \<Rightarrow> line_move_home | End \<Rightarrow> line_move_end
     | Delete \<Rightarrow> line_delete_at | _ \<Rightarrow> id)"

lemma key_edit_tracks:
  assumes "tracks on sc prompt lr p" "k \<in> {Left, Right, Home, End, Delete}"
  shows "tracks on sc prompt (press k lr) (key_edit k p) \<and> keeps p (key_edit k p)"
proof -
  obtain l r where lr: "lr = (l, r)" by fastforce
  note t = assms(1)[unfolded lr]
  show ?thesis
    using assms(2) left_tracks[OF t] right_tracks[OF t] home_tracks[OF t] end_tracks[OF t] delete_tracks[OF t]
    by (auto simp: lr key_edit_def simp del: press.simps(2,3))
qed

lemma apply_csi_key:
  "apply_csi ch p = (let q = (case csi_key (csi (fst p)) ch of Some k \<Rightarrow> key_edit k p | None \<Rightarrow> p) in ((fst q)\<lparr>csi := []\<rparr>, snd q))"
  by (simp add: apply_csi_def csi_key_def key_edit_def str_def Let_def case_prod_beta)

lemma csi_keys: "csi_key code ch = Some k \<Longrightarrow> k \<in> {Left, Right, Home, End, Delete}"
  by (auto simp: csi_key_def split: if_splits)

lemma apply_csi_tracks:
  assumes "tracks on sc prompt lr p"
  shows "tracks on sc prompt (case csi_key (csi (fst p)) ch of Some k \<Rightarrow> press k lr | None \<Rightarrow> lr) (apply_csi ch p) \<and>
    csi (fst (apply_csi ch p)) = [] \<and> esc_state (fst (apply_csi ch p)) = esc_state (fst p) \<and>
    editor.more (fst (apply_csi ch p)) = editor.more (fst p)"
proof (cases "csi_key (csi (fst p)) ch")
  case None
  then show ?thesis using assms by (cases p) (simp add: apply_csi_key)
next
  case (Some k)
  note key_edit_tracks[OF assms csi_keys[OF Some]]
  then show ?thesis using Some keeps_fields[of p "key_edit k p"] by (cases "key_edit k p") (simp add: apply_csi_key)
qed

definition feed_tracks :: "bool \<Rightarrow> screen \<Rightarrow> rstr \<Rightarrow> typed \<Rightarrow> 'a feed \<Rightarrow> bool" where
  "feed_tracks on sc prompt = (\<lambda>(st, lr, entered, ctrl_c) f.
     tracks on sc prompt lr (f_edit f) \<and> (esc_state (fst (f_edit f)), csi (fst (f_edit f))) = st \<and>
     f_lines f = entered \<and> f_ctrl_c f = ctrl_c)"

definition char_key :: "rchar \<Rightarrow> typed \<Rightarrow> key option" where
  "char_key ch ty = snd (decode_char ch (fst ty))"

abbreviation entered :: "typed \<Rightarrow> bytes list" where
  "entered ty \<equiv> fst (snd (snd ty))"

abbreviation more_of :: "'a feed \<Rightarrow> 'a" where
  "more_of f \<equiv> editor.more (fst (f_edit f))"

lemma fresh_line:
  assumes "tracks on sc prompt lr (s, echo)"
  shows "tracks on sc [] ([], []) (s\<lparr>line_buffer := [], cursor := 0\<rparr>, echo @ [13, 10])"
  by (auto simp: tracks_def displays_def screen_char_def split: prod.split)

lemma data_char_tracks:
  assumes "feed_tracks on sc prompt ty f"
  shows "\<exists>f'. data_char ch f = Some f' \<and> more_of f' = more_of f \<and>
    feed_tracks (on \<and> char_key ch ty \<noteq> Some Interrupt) sc (if char_key ch ty = Some Return then [] else prompt) (type_char ch ty) f'"
proof -
  obtain s echo where e: "f_edit f = (s, echo)" by fastforce
  obtain l r where t: "tracks on sc prompt (l, r) (s, echo)" and ty: "ty = ((esc_state s, csi s), (l, r), f_lines f, f_ctrl_c f)"
    using assms by (auto simp: feed_tracks_def e)
  note [simp] = data_char_def type_char_def decode_char_def char_key_def e ty set_edit_def feed_tracks_def
  show ?thesis
  proof (cases "esc_state s")
    case Esc
    then show ?thesis using t by simp
  next
    case Csi
    then show ?thesis
      using t apply_csi_tracks[OF t, of ch] csi_keys[of "csi s" ch]
      by (cases "apply_csi ch (s, echo)") (auto split: option.splits)
  next
    case Normal
    have b: "line_buffer s = l @ r" using t by (simp add: tracks_def)
    consider "ch = 13 \<or> ch = 10" | "ch = 127 \<or> ch = 8" | "ch = 21" | "ch = 3" | "ch \<ge> 32" "ch \<noteq> 127"
      | "ch = 27 \<or> ch = 9 \<or> ch < 32" "ch \<notin> {13, 10, 8, 21, 3}" by force
    then show ?thesis
    proof cases
      case 1
      then show ?thesis using Normal fresh_line[OF t] by (auto simp: b)
    next
      case 2
      then show ?thesis
        using Normal backspace_tracks[OF t] keeps_fields[of "(s, echo)" "line_backspace (s, echo)"]
        by (auto simp del: line_backspace.simps)
    next
      case 3
      then show ?thesis
        using Normal clear_tracks[OF t] keeps_fields[of "(s, echo)" "line_clear (s, echo)"]
        by (auto simp del: line_clear.simps)
    next
      case 4
      have "tracks False sc prompt ([], []) (s\<lparr>line_buffer := [], cursor := 0\<rparr>, echo)" by (simp add: tracks_def)
      then show ?thesis using Normal 4 by auto
    next
      case 5
      obtain q where "line_insert ch (s, echo) = Some q" "tracks on sc prompt (l @ [ch], r) q" "keeps (s, echo) q"
        using insert_tracks[OF t 5(1)] by blast
      then show ?thesis using Normal 5 keeps_fields[of "(s, echo)" q] by (auto simp del: line_insert.simps)
    next
      case 6
      then show ?thesis using Normal t by auto
    qed
  qed
qed

text \<open>Over a whole message: nothing panics, the lines and the line are those of the keys, and as long as no interrupt
  is typed, the screen shows the line, behind the prompt or on a fresh row.\<close>

fun interrupted :: "rstr \<Rightarrow> typed \<Rightarrow> bool" where
  "interrupted [] ty = False"
| "interrupted (ch # chs) ty = (char_key ch ty = Some Interrupt \<or> interrupted chs (type_char ch ty))"

fun returned :: "rstr \<Rightarrow> typed \<Rightarrow> bool" where
  "returned [] ty = False"
| "returned (ch # chs) ty = (char_key ch ty = Some Return \<or> returned chs (type_char ch ty))"

lemma data_chars_tracks:
  assumes "feed_tracks on sc prompt ty f"
  shows "\<exists>f'. data_chars chs f = Some f' \<and> more_of f' = more_of f \<and>
    feed_tracks (on \<and> \<not> interrupted chs ty) sc (if returned chs ty then [] else prompt) (fold type_char chs ty) f'"
  using assms
proof (induction chs arbitrary: ty f on prompt)
  case (Cons ch chs)
  obtain f1 where f1: "data_char ch f = Some f1" "more_of f1 = more_of f"
    "feed_tracks (on \<and> char_key ch ty \<noteq> Some Interrupt) sc (if char_key ch ty = Some Return then [] else prompt) (type_char ch ty) f1"
    using data_char_tracks[OF Cons.prems] by blast
  then show ?case using Cons.IH[OF f1(3)] by (auto split: if_splits)
qed simp

lemma data_chars_append: "data_chars (a @ b) f = (case data_chars a f of None \<Rightarrow> None | Some f \<Rightarrow> data_chars b f)"
  by (induction a arbitrary: f) (auto split: option.split)

section \<open>Sessions\<close>

text \<open>What is left of a session: the child and its writer as long as they are there, and what the two channels hold.\<close>

record shell =
  pid :: u32
  running :: bool
  writing :: bool
  input_queue :: "bytes list"
  output_queue :: "bytes list"
  closed_sent :: bool

type_synonym terminal = "shell editor_scheme"

datatype terminal_action =
    OpenTerminal int
  | DataTerminal int bytes
  | ResizeTerminal int
  | CloseTerminal int
  | NoAction

datatype terminal_response =
    Opened int bool rstr u32
  | Output int bytes
  | Closed int int
  | TerminalError int rstr
  | TestDelayMsg
  | CloseReasonMsg

definition CHANNEL_BUFFER_SIZE :: nat where
  "CHANNEL_BUFFER_SIZE = 256"

text \<open>\<open>try_send\<close> on a channel whose receiver lives.\<close>

definition try_send :: "'a \<Rightarrow> 'a list \<Rightarrow> 'a list option" where
  "try_send x q = (if length q < CHANNEL_BUFFER_SIZE then Some (q @ [x]) else None)"

text \<open>The loop's own variables and what it has done: the responses sent, the processes killed or interrupted.\<close>

record service =
  sessions :: "(int \<times> terminal) list"
  sent :: "terminal_response list"
  killed :: "u32 list"
  interrupts :: "u32 list"
  last_keepalive :: nat
  last_cm_check :: nat

text \<open>\<open>Inl\<close> is a failed send, which ends the service.\<close>

definition send_response :: "bool \<Rightarrow> terminal_response \<Rightarrow> service \<Rightarrow> service + service" where
  "send_response up m sv = (if up then Inr (sv\<lparr>sent := sent sv @ [m]\<rparr>) else Inl sv)"

definition try_response :: "bool \<Rightarrow> terminal_response \<Rightarrow> service \<Rightarrow> service" where
  "try_response up m sv = (case send_response up m sv of Inl sv \<Rightarrow> sv | Inr sv \<Rightarrow> sv)"

definition shutdown :: "terminal \<Rightarrow> service \<Rightarrow> service" where
  "shutdown s sv = sv\<lparr>killed := killed sv @ [pid (editor.more s)]\<rparr>"

definition remove_session :: "int \<Rightarrow> service \<Rightarrow> service" where
  "remove_session i sv =
     (case map_of (sessions sv) i of
        None \<Rightarrow> sv
      | Some s \<Rightarrow> shutdown s (sv\<lparr>sessions := AList.delete i (sessions sv)\<rparr>))"

definition spawn_terminal :: "u32 \<Rightarrow> terminal" where
  "spawn_terminal p =
     \<lparr>line_buffer = [], cursor = 0, csi = [], esc_state = Normal, \<dots> =
      \<lparr>pid = p, running = True, writing = True, input_queue = [], output_queue = [], closed_sent = False\<rparr>\<rparr>"

fun send_lines :: "bytes list \<Rightarrow> terminal \<Rightarrow> terminal" where
  "send_lines [] s = s"
| "send_lines (l # ls) s =
     (case if writing (editor.more s) then try_send l (input_queue (editor.more s)) else None of
        None \<Rightarrow> s
      | Some q \<Rightarrow> send_lines ls (editor.more_update (input_queue_update (\<lambda>_. q)) s))"

definition send_echo :: "rstr \<Rightarrow> terminal \<Rightarrow> terminal" where
  "send_echo echo s =
     (if echo = [] then s
      else case try_send (utf8 echo) (output_queue (editor.more s)) of
        None \<Rightarrow> s
      | Some q \<Rightarrow> editor.more_update (output_queue_update (\<lambda>_. q)) s)"

text \<open>\<open>None\<close> is a panic, which aborts the process.\<close>

definition handle_data :: "bool \<Rightarrow> int \<Rightarrow> bytes \<Rightarrow> service \<Rightarrow> (service + service) option" where
  "handle_data up i raw sv =
     (case map_of (sessions sv) i of
        None \<Rightarrow> Some (send_response up (TerminalError i (str ''Terminal not open'')) sv)
      | Some s \<Rightarrow>
          (case data_chars (from_utf8_lossy raw) \<lparr>f_edit = (s, []), f_lines = [], f_ctrl_c = False\<rparr> of
             None \<Rightarrow> None
           | Some f \<Rightarrow>
               (let (s, echo) = f_edit f;
                    s = send_lines (f_lines f) (send_echo echo s);
                    sv = sv\<lparr>sessions := AList.update i s (sessions sv)\<rparr>
                in Some (Inr (if f_ctrl_c f then sv\<lparr>interrupts := interrupts sv @ [pid (editor.more s)]\<rparr> else sv)))))"

definition handle_action :: "bool \<Rightarrow> rstr + u32 \<Rightarrow> terminal_action \<Rightarrow> service \<Rightarrow> (service + service) option" where
  "handle_action up spawned action sv =
     (case action of
        OpenTerminal i \<Rightarrow>
          (let sv = remove_session i sv
           in case spawned of
                Inr p \<Rightarrow> Some (send_response up (Opened i True (str ''Terminal opened'') p)
                           (sv\<lparr>sessions := AList.update i (spawn_terminal p) (sessions sv)\<rparr>))
              | Inl e \<Rightarrow> Some (send_response up (Opened i False (str ''Failed to spawn shell: '' @ e) 0) sv))
      | DataTerminal i raw \<Rightarrow> handle_data up i raw sv
      | CloseTerminal i \<Rightarrow>
          Some (if map_of (sessions sv) i = None then Inr sv else send_response up (Closed i 0) (remove_session i sv))
      | _ \<Rightarrow> Some (Inr sv))"

text \<open>One session of \<open>pump_outputs\<close>: everything in the channel is drained; the child is looked at once. The session
  keeps a sender of its own, so the channel is never disconnected. \<open>None\<close> is the panic of \<open>unwrap\<close> on a session that is gone.\<close>

definition reap :: "bool \<Rightarrow> int \<Rightarrow> shell \<Rightarrow> service \<Rightarrow> service" where
  "reap up i x sv =
     (if running x then sv
      else remove_session i (if closed_sent x then sv else try_response up (Closed i 0) sv))"

definition pump_one :: "bool \<Rightarrow> int \<Rightarrow> service \<Rightarrow> (service + service) option" where
  "pump_one up i sv =
     (case map_of (sessions sv) i of
        None \<Rightarrow> None
      | Some s \<Rightarrow>
          Some (let combined = concat (output_queue (editor.more s));
               s = editor.more_update (output_queue_update (\<lambda>_. [])) s;
               sv = sv\<lparr>sessions := AList.update i s (sessions sv)\<rparr>
           in case if combined = [] then Inr sv else send_response up (Output i combined) sv of
                Inl sv \<Rightarrow> Inl sv
              | Inr sv \<Rightarrow> Inr (reap up i (editor.more s) sv)))"

fun pump_outputs :: "bool \<Rightarrow> int list \<Rightarrow> service \<Rightarrow> (service + service) option" where
  "pump_outputs up [] sv = Some (Inr sv)"
| "pump_outputs up (i # is) sv =
     (case pump_one up i sv of None \<Rightarrow> None | Some (Inl sv) \<Rightarrow> Some (Inl sv) | Some (Inr sv) \<Rightarrow> pump_outputs up is sv)"

section \<open>The loop\<close>

datatype shell_event = Wrote int bytes | TookInput int | WriterEnded int | ChildEnded int

definition upd_session :: "int \<Rightarrow> (shell \<Rightarrow> shell) \<Rightarrow> service \<Rightarrow> service" where
  "upd_session i g sv =
     (case map_of (sessions sv) i of
        None \<Rightarrow> sv
      | Some s \<Rightarrow> sv\<lparr>sessions := AList.update i (editor.more_update g s) (sessions sv)\<rparr>)"

text \<open>The reading threads wait while the channel is full.\<close>

definition shell_event :: "shell_event \<Rightarrow> service \<Rightarrow> service" where
  "shell_event ev =
     (case ev of
        Wrote i b \<Rightarrow> upd_session i (\<lambda>x. case try_send b (output_queue x) of None \<Rightarrow> x | Some q \<Rightarrow> x\<lparr>output_queue := q\<rparr>)
      | TookInput i \<Rightarrow> upd_session i (\<lambda>x. x\<lparr>input_queue := tl (input_queue x)\<rparr>)
      | WriterEnded i \<Rightarrow> upd_session i (\<lambda>x. x\<lparr>writing := False\<rparr>)
      | ChildEnded i \<Rightarrow> upd_session i (\<lambda>x. x\<lparr>running := False\<rparr>))"

datatype terminal_recv = NothingYet | Disconnected | Undecodable | Action terminal_action | CloseReason | Irrelevant

record terminal_turn =
  tt_events :: "shell_event list"
  tt_stop :: bool
  tt_now :: nat
  tt_disconnect :: bool
  tt_up :: bool
  tt_recv :: terminal_recv
  tt_spawned :: "rstr + u32"
  tt_order :: "int list \<Rightarrow> int list"

datatype service_state = Serving service | Ended service | Broken service | Panicked

text \<open>Whichever way the loop is left, the sessions are dropped, and a dropped session is shut down.\<close>

definition drop_sessions :: "service \<Rightarrow> service" where
  "drop_sessions sv = fold remove_session (map fst (sessions sv)) sv"

text \<open>The keys of the table come in some order of their own.\<close>

definition key_order :: "terminal_turn \<Rightarrow> service \<Rightarrow> int list" where
  "key_order t sv =
     (let keys = map fst (sessions sv); ks = tt_order t keys in if distinct ks \<and> set ks = set keys then ks else keys)"

definition after_action :: "terminal_turn \<Rightarrow> service \<Rightarrow> service_state" where
  "after_action t sv =
     (case pump_outputs (tt_up t) (key_order t sv) sv of
        None \<Rightarrow> Panicked
      | Some (Inl sv) \<Rightarrow> Broken (drop_sessions sv)
      | Some (Inr sv) \<Rightarrow> Serving sv)"

definition terminal_recv_step :: "terminal_turn \<Rightarrow> service \<Rightarrow> service_state" where
  "terminal_recv_step t sv =
     (case tt_recv t of
        Disconnected \<Rightarrow> Ended (drop_sessions sv)
      | CloseReason \<Rightarrow> Ended (drop_sessions sv)
      | Action a \<Rightarrow>
          (case handle_action (tt_up t) (tt_spawned t) a sv of
             None \<Rightarrow> Panicked
           | Some (Inl sv) \<Rightarrow> Broken (drop_sessions sv)
           | Some (Inr sv) \<Rightarrow> after_action t sv)
      | _ \<Rightarrow> after_action t sv)"

definition terminal_turn_step :: "terminal_turn \<Rightarrow> service \<Rightarrow> service_state" where
  "terminal_turn_step t sv =
     (if tt_stop t then Ended (drop_sessions sv)
      else
        let check = tt_now t - last_cm_check sv \<ge> 500;
            sv = (if check then sv\<lparr>last_cm_check := tt_now t\<rparr> else sv)
        in if check \<and> tt_disconnect t then Ended (drop_sessions (try_response (tt_up t) CloseReasonMsg sv))
           else if tt_now t - last_keepalive sv \<ge> 3000 then
             (case send_response (tt_up t) TestDelayMsg (sv\<lparr>last_keepalive := tt_now t\<rparr>) of
                Inl sv \<Rightarrow> Broken (drop_sessions sv)
              | Inr sv \<Rightarrow> terminal_recv_step t sv)
           else terminal_recv_step t sv)"

definition terminal_step :: "terminal_turn \<Rightarrow> service_state \<Rightarrow> service_state" where
  "terminal_step t st =
     (case st of Serving sv \<Rightarrow> terminal_turn_step t (fold shell_event (tt_events t) sv) | _ \<Rightarrow> st)"

definition run_terminal_loop :: "terminal_turn list \<Rightarrow> nat \<Rightarrow> service_state" where
  "run_terminal_loop turns now =
     fold terminal_step turns
       (Serving \<lparr>sessions = [], sent = [], killed = [], interrupts = [], last_keepalive = now, last_cm_check = now\<rparr>)"

section \<open>The service keeps its sessions\<close>

text \<open>Whether a terminal is open after the responses so far, and that output and closing are announced for open terminals alone.\<close>

definition opens :: "int \<Rightarrow> terminal_response \<Rightarrow> bool \<Rightarrow> bool" where
  "opens i m b = (case m of Opened j ok _ _ \<Rightarrow> if j = i then ok else b | Closed j _ \<Rightarrow> if j = i then False else b | _ \<Rightarrow> b)"

definition open_in :: "terminal_response list \<Rightarrow> int \<Rightarrow> bool" where
  "open_in ms i = fold (opens i) ms False"

definition announced :: "terminal_response list \<Rightarrow> bool" where
  "announced ms \<longleftrightarrow>
     (\<forall>pre m post. ms = pre @ m # post \<longrightarrow> (case m of Output i _ \<Rightarrow> open_in pre i | Closed i _ \<Rightarrow> open_in pre i | _ \<Rightarrow> True))"

lemma open_in_snoc: "open_in (ms @ [m]) i = opens i m (open_in ms i)"
  by (simp add: open_in_def)

lemma announced_Nil: "announced []"
  by (simp add: announced_def)

lemma announced_snoc:
  "announced (ms @ [m]) \<longleftrightarrow> announced ms \<and> (case m of Output i _ \<Rightarrow> open_in ms i | Closed i _ \<Rightarrow> open_in ms i | _ \<Rightarrow> True)"
proof
  assume a: "announced (ms @ [m])"
  have "announced ms"
    unfolding announced_def
  proof (intro allI impI)
    fix pre m' post assume "ms = pre @ m' # post"
    then have "ms @ [m] = pre @ m' # post @ [m]" by simp
    then show "case m' of Output i _ \<Rightarrow> open_in pre i | Closed i _ \<Rightarrow> open_in pre i | _ \<Rightarrow> True"
      using a unfolding announced_def by blast
  qed
  moreover have "ms @ [m] = ms @ m # []" by simp
  then have "case m of Output i _ \<Rightarrow> open_in ms i | Closed i _ \<Rightarrow> open_in ms i | _ \<Rightarrow> True"
    using a unfolding announced_def by blast
  ultimately show "announced ms \<and> (case m of Output i _ \<Rightarrow> open_in ms i | Closed i _ \<Rightarrow> open_in ms i | _ \<Rightarrow> True)" ..
next
  assume a: "announced ms \<and> (case m of Output i _ \<Rightarrow> open_in ms i | Closed i _ \<Rightarrow> open_in ms i | _ \<Rightarrow> True)"
  show "announced (ms @ [m])"
    unfolding announced_def
  proof (intro allI impI)
    fix pre m' post assume "ms @ [m] = pre @ m' # post"
    then consider "post = []" "pre = ms" "m' = m" | post' where "ms = pre @ m' # post'"
      by (cases post rule: rev_cases) auto
    then show "case m' of Output i _ \<Rightarrow> open_in pre i | Closed i _ \<Rightarrow> open_in pre i | _ \<Rightarrow> True"
      using a unfolding announced_def by cases blast+
  qed
qed

definition editable :: "terminal \<Rightarrow> bool" where
  "editable s \<longleftrightarrow> cursor s \<le> length (line_buffer s) \<and> printable (line_buffer s)"

definition session_ok :: "terminal_response list \<Rightarrow> int \<Rightarrow> terminal \<Rightarrow> bool" where
  "session_ok ms i s \<longleftrightarrow>
     editable s \<and> open_in ms i \<and> \<not> closed_sent (editor.more s) \<and>
     length (output_queue (editor.more s)) \<le> CHANNEL_BUFFER_SIZE \<and> length (input_queue (editor.more s)) \<le> CHANNEL_BUFFER_SIZE"

definition held :: "(int \<times> terminal) list \<Rightarrow> u32 set" where
  "held ss = {p. \<exists>i s. map_of ss i = Some s \<and> pid (editor.more s) = p}"

definition opened_pids :: "terminal_response list \<Rightarrow> u32 set" where
  "opened_pids ms = {p. \<exists>i txt. Opened i True txt p \<in> set ms}"

definition all_ok :: "terminal_response list \<Rightarrow> (int \<times> terminal) list \<Rightarrow> bool" where
  "all_ok ms ss \<longleftrightarrow> (\<forall>i s. map_of ss i = Some s \<longrightarrow> session_ok ms i s)"

definition service_ok :: "service \<Rightarrow> bool" where
  "service_ok sv \<longleftrightarrow>
     distinct (map fst (sessions sv)) \<and> announced (sent sv) \<and> all_ok (sent sv) (sessions sv) \<and>
     opened_pids (sent sv) \<subseteq> set (killed sv) \<union> held (sessions sv)"

lemma held_update:
  "map_of ss i = Some s \<Longrightarrow> pid (editor.more s') = pid (editor.more s) \<Longrightarrow> held (AList.update i s' ss) = held ss"
  unfolding held_def update_conv' fun_upd_def by (rule Collect_cong) (smt (verit) option.inject)

lemma held_delete: "map_of ss i = Some s \<Longrightarrow> held ss \<subseteq> insert (pid (editor.more s)) (held (AList.delete i ss))"
  unfolding held_def delete_conv' fun_upd_def by (auto split: if_splits) (metis option.inject)

lemma held_new: "map_of ss i = None \<Longrightarrow> held (AList.update i s ss) = insert (pid (editor.more s)) (held ss)"
  unfolding held_def update_conv' fun_upd_def by (auto split: if_splits) (metis option.distinct(1))

lemma opened_pids_snoc [simp]:
  "opened_pids (ms @ [m]) = (case m of Opened _ True _ p \<Rightarrow> insert p (opened_pids ms) | _ \<Rightarrow> opened_pids ms)"
  by (cases m) (auto simp: opened_pids_def split: bool.split)

lemma all_ok_update: "all_ok ms ss \<Longrightarrow> session_ok ms i s \<Longrightarrow> all_ok ms (AList.update i s ss)"
  by (simp add: all_ok_def update_conv')

lemma all_ok_delete: "all_ok ms ss \<Longrightarrow> all_ok ms (AList.delete i ss)"
  by (simp add: all_ok_def delete_conv')

lemma session_ok_snoc: "session_ok ms i s \<Longrightarrow> opens i m True \<Longrightarrow> session_ok (ms @ [m]) i s"
  by (simp add: session_ok_def open_in_snoc)

lemma all_ok_snoc:
  assumes "all_ok ms ss" "\<And>i. map_of ss i \<noteq> None \<Longrightarrow> opens i m True"
  shows "all_ok (ms @ [m]) ss"
  unfolding all_ok_def
proof (intro allI impI)
  fix i s assume "map_of ss i = Some s"
  then show "session_ok (ms @ [m]) i s" using assms by (intro session_ok_snoc) (auto simp: all_ok_def)
qed

lemma service_ok_update:
  assumes "service_ok sv" "map_of (sessions sv) i = Some s" "session_ok (sent sv) i s'" "pid (editor.more s') = pid (editor.more s)"
  shows "service_ok (sv\<lparr>sessions := AList.update i s' (sessions sv)\<rparr>)"
  using assms(1,3) by (simp add: service_ok_def held_update[OF assms(2,4)] distinct_update all_ok_update)

lemma service_ok_remove:
  assumes "service_ok sv"
  shows "service_ok (remove_session i sv)"
proof (cases "map_of (sessions sv) i")
  case (Some s)
  have r: "remove_session i sv = sv\<lparr>sessions := AList.delete i (sessions sv), killed := killed sv @ [pid (editor.more s)]\<rparr>"
    by (simp add: remove_session_def Some shutdown_def)
  have "opened_pids (sent sv) \<subseteq> set (killed sv) \<union> insert (pid (editor.more s)) (held (AList.delete i (sessions sv)))"
    using assms held_delete[OF Some] unfolding service_ok_def by blast
  then show ?thesis using assms unfolding r by (simp add: service_ok_def distinct_delete all_ok_delete)
qed (use assms in \<open>simp add: remove_session_def\<close>)

lemma remove_simps [simp]:
  "map_of (sessions (remove_session i sv)) i = None" "sent (remove_session i sv) = sent sv"
  by (auto simp: remove_session_def shutdown_def delete_conv' split: option.split)

lemma service_ok_cong [simp]:
  "service_ok (sv\<lparr>last_cm_check := c\<rparr>) = service_ok sv" "service_ok (sv\<lparr>last_keepalive := c\<rparr>) = service_ok sv"
  "service_ok (sv\<lparr>interrupts := c1\<rparr>) = service_ok sv"
  by (simp_all add: service_ok_def)

text \<open>A message that neither opens nor closes, a closing and an opening one.\<close>

lemma service_ok_say:
  assumes "service_ok sv" "case m of Opened _ _ _ _ \<Rightarrow> False | Closed _ _ \<Rightarrow> False | Output i _ \<Rightarrow> open_in (sent sv) i | _ \<Rightarrow> True"
  shows "service_ok (sv\<lparr>sent := sent sv @ [m]\<rparr>)"
proof -
  have "all_ok (sent sv @ [m]) (sessions sv)"
    using assms by (intro all_ok_snoc) (auto simp: service_ok_def opens_def split: terminal_response.splits)
  then show ?thesis using assms by (cases m) (simp_all add: service_ok_def announced_snoc)
qed

lemma service_ok_closed:
  assumes "service_ok sv" "map_of (sessions sv) i = None" "open_in (sent sv) i"
  shows "service_ok (sv\<lparr>sent := sent sv @ [Closed i c]\<rparr>)"
proof -
  have "all_ok (sent sv @ [Closed i c]) (sessions sv)"
    using assms by (intro all_ok_snoc) (auto simp: service_ok_def opens_def)
  then show ?thesis using assms by (simp add: service_ok_def announced_snoc)
qed

lemma all_ok_opened: "all_ok ms ss \<Longrightarrow> map_of ss i = None \<Longrightarrow> all_ok (ms @ [Opened i b txt p]) ss"
  by (rule all_ok_snoc) (auto simp: opens_def)

lemma service_ok_opened:
  assumes "service_ok sv" "map_of (sessions sv) i = None"
  shows "service_ok (sv\<lparr>sessions := AList.update i (spawn_terminal p) (sessions sv), sent := sent sv @ [Opened i True txt p]\<rparr>)"
    and "service_ok (sv\<lparr>sent := sent sv @ [Opened i False txt q]\<rparr>)"
proof -
  have n: "session_ok (sent sv @ [Opened i True txt p]) i (spawn_terminal p)"
    by (simp add: session_ok_def spawn_terminal_def editable_def open_in_snoc opens_def CHANNEL_BUFFER_SIZE_def)
  have "pid (editor.more (spawn_terminal p)) = p" by (simp add: spawn_terminal_def)
  then show "service_ok (sv\<lparr>sessions := AList.update i (spawn_terminal p) (sessions sv), sent := sent sv @ [Opened i True txt p]\<rparr>)"
    using assms all_ok_update[OF all_ok_opened n] held_new[OF assms(2), of "spawn_terminal p"]
    by (auto simp: service_ok_def distinct_update announced_snoc)
  show "service_ok (sv\<lparr>sent := sent sv @ [Opened i False txt q]\<rparr>)"
    using assms all_ok_opened by (simp add: service_ok_def announced_snoc)
qed

text \<open>A service about to stop: what it has announced is right, and every shell it has opened is killed or still held.\<close>

definition accounted :: "service \<Rightarrow> bool" where
  "accounted sv \<longleftrightarrow> announced (sent sv) \<and> opened_pids (sent sv) \<subseteq> set (killed sv) \<union> held (sessions sv)"

lemma service_ok_accounted: "service_ok sv \<Longrightarrow> accounted sv"
  by (simp add: service_ok_def accounted_def)

lemma accounted_remove: "accounted sv \<Longrightarrow> accounted (remove_session i sv)"
proof (cases "map_of (sessions sv) i")
  case (Some s)
  assume a: "accounted sv"
  have "opened_pids (sent sv) \<subseteq> set (killed sv) \<union> insert (pid (editor.more s)) (held (AList.delete i (sessions sv)))"
    using a held_delete[OF Some] unfolding accounted_def by blast
  then show ?thesis using a by (simp add: accounted_def remove_session_def Some shutdown_def)
qed (simp add: remove_session_def)

lemma map_of_remove: "map_of (sessions (remove_session i sv)) j = (if j = i then None else map_of (sessions sv) j)"
  by (auto simp: remove_session_def shutdown_def delete_conv' split: option.split)

lemma map_of_drop:
  "map_of (sessions (fold remove_session is sv)) j = (if j \<in> set is then None else map_of (sessions sv) j)"
  by (induction "is" arbitrary: sv) (simp_all add: map_of_remove)

lemma drop_sessions_gone: "sessions (drop_sessions sv) = []"
proof -
  have "map_of (sessions (drop_sessions sv)) j = None" for j
    by (simp add: drop_sessions_def map_of_drop map_of_eq_None_iff)
  then have "map_of (sessions (drop_sessions sv)) = Map.empty" by (rule ext)
  then show ?thesis by simp
qed

lemma accounted_fold: "accounted sv \<Longrightarrow> accounted (fold remove_session is sv)"
  by (induction "is" arbitrary: sv) (simp_all add: accounted_remove)

definition state_ok :: "service_state \<Rightarrow> bool" where
  "state_ok st =
     (let done = (\<lambda>sv. sessions sv = [] \<and> announced (sent sv) \<and> opened_pids (sent sv) \<subseteq> set (killed sv)) in
      case st of Serving sv \<Rightarrow> service_ok sv | Ended sv \<Rightarrow> done sv | Broken sv \<Rightarrow> done sv | Panicked \<Rightarrow> False)"

lemma dropped_ok: "accounted sv \<Longrightarrow> state_ok (Ended (drop_sessions sv)) \<and> state_ok (Broken (drop_sessions sv))"
proof -
  assume "accounted sv"
  then have "accounted (drop_sessions sv)" by (simp add: drop_sessions_def accounted_fold)
  moreover have e: "sessions (drop_sessions sv) = []"
    by (rule drop_sessions_gone)
  moreover have "held [] = {}" by (simp add: held_def)
  ultimately show ?thesis by (simp add: accounted_def state_ok_def Let_def)
qed

lemma length_try_send: "try_send x q = Some q' \<Longrightarrow> length q' \<le> CHANNEL_BUFFER_SIZE"
  by (auto simp: try_send_def split: if_splits)

lemma send_lines_ok:
  "session_ok ms i s \<Longrightarrow> session_ok ms i (send_lines ls s) \<and> pid (editor.more (send_lines ls s)) = pid (editor.more s)"
proof (induction ls arbitrary: s)
  case (Cons l ls)
  show ?case
  proof (cases "if writing (editor.more s) then try_send l (input_queue (editor.more s)) else None")
    case (Some q)
    then have "length q \<le> CHANNEL_BUFFER_SIZE" using length_try_send by (auto split: if_splits)
    then show ?thesis
      using Cons.IH[of "editor.more_update (input_queue_update (\<lambda>_. q)) s"] Cons.prems Some
      by (simp add: session_ok_def editable_def)
  qed (use Cons.prems in auto)
qed simp

lemma send_echo_ok:
  "session_ok ms i s \<Longrightarrow> session_ok ms i (send_echo e s) \<and> pid (editor.more (send_echo e s)) = pid (editor.more s)"
  using length_try_send by (auto simp: send_echo_def session_ok_def editable_def split: option.split)

lemma editable_tracks: "editable s \<longleftrightarrow> tracks False sc prompt (take (cursor s) (line_buffer s), drop (cursor s) (line_buffer s)) (s, e)"
  by (auto simp: editable_def tracks_def dest: in_set_takeD in_set_dropD)
    (metis append_take_drop_id in_set_conv_decomp Un_iff set_append)+

lemma tracks_editable: "tracks on sc prompt lr (s, e) \<Longrightarrow> editable s"
  by (cases lr) (simp add: tracks_def editable_def)

lemma data_chars_ok:
  assumes "editable s"
  shows "\<exists>f. data_chars chs \<lparr>f_edit = (s, []), f_lines = [], f_ctrl_c = False\<rparr> = Some f \<and> editable (fst (f_edit f)) \<and> more_of f = editor.more s"
proof -
  let ?f = "\<lparr>f_edit = (s, []), f_lines = [], f_ctrl_c = False\<rparr>"
  let ?ty = "((esc_state s, csi s), (take (cursor s) (line_buffer s), drop (cursor s) (line_buffer s)), [], False)"
  have "feed_tracks False ([], 0) [] ?ty ?f"
    using assms editable_tracks[of s "([], 0)" "[]" "[]"] by (simp add: feed_tracks_def)
  from data_chars_tracks[OF this, of chs] obtain f on p ty where
    "data_chars chs ?f = Some f" "more_of f = more_of ?f" "feed_tracks on ([], 0) p ty f" by blast
  then show ?thesis
    using tracks_editable[of on "([], 0)" p _ "fst (f_edit f)" "snd (f_edit f)"] by (auto simp: feed_tracks_def)
qed

lemma handle_data_ok:
  assumes "service_ok sv"
  shows "\<exists>r. handle_data up i raw sv = Some r \<and> (case r of Inl sv \<Rightarrow> accounted sv | Inr sv \<Rightarrow> service_ok sv)"
proof (cases "map_of (sessions sv) i")
  case None
  then show ?thesis
    using assms service_ok_say[OF assms, of "TerminalError i (str ''Terminal not open'')"]
    by (simp add: handle_data_def send_response_def service_ok_accounted)
next
  case (Some s)
  then have s: "session_ok (sent sv) i s" using assms by (simp add: service_ok_def all_ok_def)
  then obtain f where f: "data_chars (from_utf8_lossy raw) \<lparr>f_edit = (s, []), f_lines = [], f_ctrl_c = False\<rparr> = Some f"
      "editable (fst (f_edit f))" "more_of f = editor.more s"
    using data_chars_ok unfolding session_ok_def by blast
  have f1: "session_ok (sent sv) i (fst (f_edit f))" using s f by (simp add: session_ok_def)
  note g = service_ok_update[OF assms Some]
  show ?thesis
    using g send_lines_ok send_echo_ok[OF f1] f Some
    by (cases "f_edit f") (fastforce simp: handle_data_def Let_def)
qed

lemma handle_action_ok:
  assumes "service_ok sv"
  shows "\<exists>r. handle_action up sp a sv = Some r \<and> (case r of Inl sv \<Rightarrow> accounted sv | Inr sv \<Rightarrow> service_ok sv)"
proof (cases a)
  case (OpenTerminal i)
  let ?sv = "remove_session i sv"
  note o = service_ok_opened[OF service_ok_remove[OF assms, of i], of i]
  have a: "accounted ?sv" using assms by (simp add: accounted_remove service_ok_accounted)
  then have "accounted (?sv\<lparr>sessions := AList.update i (spawn_terminal p) (sessions ?sv)\<rparr>)" for p
    using held_new[of "sessions ?sv" i "spawn_terminal p"] by (auto simp: accounted_def)
  then show ?thesis
    using OpenTerminal o a by (cases sp) (simp_all add: handle_action_def send_response_def Let_def)
next
  case (DataTerminal i raw)
  then show ?thesis using handle_data_ok[OF assms] by (simp add: handle_action_def)
next
  case (CloseTerminal i)
  show ?thesis
  proof (cases "map_of (sessions sv) i")
    case (Some s)
    then have "open_in (sent sv) i" using assms by (simp add: service_ok_def all_ok_def session_ok_def)
    then show ?thesis
      using CloseTerminal Some service_ok_closed[OF service_ok_remove[OF assms, of i], of i 0] accounted_remove[OF service_ok_accounted[OF assms]]
      by (simp add: handle_action_def send_response_def)
  qed (use CloseTerminal assms in \<open>simp add: handle_action_def\<close>)
qed (use assms in \<open>simp_all add: handle_action_def\<close>)

lemma reap_ok: "service_ok sv \<Longrightarrow> map_of (sessions sv) i \<noteq> None \<Longrightarrow> service_ok (reap up i x sv)"
proof -
  assume ok: "service_ok sv" and i: "map_of (sessions sv) i \<noteq> None"
  then have o: "open_in (sent sv) i" by (auto simp: service_ok_def all_ok_def session_ok_def)
  have swap: "remove_session i (sv\<lparr>sent := ms\<rparr>) = (remove_session i sv)\<lparr>sent := ms\<rparr>" for ms
    by (simp add: remove_session_def shutdown_def split: option.split)
  show ?thesis
    using service_ok_remove[OF ok, of i] service_ok_closed[OF service_ok_remove[OF ok, of i], of i 0] ok o
    by (simp add: reap_def try_response_def send_response_def swap)
qed

lemma reap_keeps: "j \<noteq> i \<Longrightarrow> map_of (sessions (reap up i x sv)) j = map_of (sessions sv) j"
  by (auto simp: reap_def remove_session_def shutdown_def try_response_def send_response_def delete_conv' split: option.split)

lemma pump_one_ok:
  assumes "service_ok sv" "map_of (sessions sv) i \<noteq> None"
  obtains (broken) sv' where "pump_one up i sv = Some (Inl sv')" "accounted sv'"
  | (pumped) sv' where "pump_one up i sv = Some (Inr sv')" "service_ok sv'" "\<And>j. j \<noteq> i \<Longrightarrow> map_of (sessions sv') j = map_of (sessions sv) j"
proof -
  obtain s where Some: "map_of (sessions sv) i = Some s" using assms(2) by blast
  define s' where "s' = editor.more_update (output_queue_update (\<lambda>_. [])) s"
  define sv' where "sv' = sv\<lparr>sessions := AList.update i s' (sessions sv)\<rparr>"
  obtain b where b: "b = concat (output_queue (editor.more s))" by blast
  let ?say = "sv'\<lparr>sent := sent sv' @ [Output i b]\<rparr>"
  have s: "session_ok (sent sv) i s" using assms Some by (simp add: service_ok_def all_ok_def)
  then have ok: "service_ok sv'"
    using service_ok_update[OF assms(1) Some, of s'] by (simp add: s'_def sv'_def session_ok_def editable_def)
  have i: "map_of (sessions sv') i \<noteq> None" "sent sv' = sent sv" by (simp_all add: sv'_def update_conv')
  have say: "service_ok ?say" using s service_ok_say[OF ok, of "Output i b"] i by (simp add: session_ok_def)
  have one: "pump_one up i sv = Some (case if b = [] then Inr sv' else send_response up (Output i b) sv' of
      Inl sv \<Rightarrow> Inl sv | Inr sv \<Rightarrow> Inr (reap up i (editor.more s') sv))"
    by (simp add: pump_one_def Some Let_def s'_def[symmetric] sv'_def[symmetric] b[symmetric] del: concat_eq_Nil_conv)
  have others: "map_of (sessions sv') j = map_of (sessions sv) j" if "j \<noteq> i" for j using that by (simp add: sv'_def update_conv')
  show thesis
  proof (cases "b \<noteq> [] \<and> \<not> up")
    case True
    then show thesis using broken[of sv'] one ok by (simp add: send_response_def service_ok_accounted)
  next
    case False
    then have "pump_one up i sv = Some (Inr (reap up i (editor.more s') (if b = [] then sv' else ?say)))"
      using one by (auto simp: send_response_def)
    then show thesis
      using pumped reap_ok[OF ok i(1)] reap_ok[OF say] i reap_keeps others by (auto split: if_splits)
  qed
qed

lemma pump_outputs_ok:
  assumes "service_ok sv" "distinct is" "\<forall>i\<in>set is. map_of (sessions sv) i \<noteq> None"
  shows "\<exists>r. pump_outputs up is sv = Some r \<and> (case r of Inl sv \<Rightarrow> accounted sv | Inr sv \<Rightarrow> service_ok sv)"
  using assms
proof (induction "is" arbitrary: sv)
  case (Cons i "is")
  have "map_of (sessions sv) i \<noteq> None" using Cons.prems(3) by simp
  with Cons.prems(1) show ?case
  proof (rule pump_one_ok[where up = up])
    fix sv' assume p: "pump_one up i sv = Some (Inr sv')" "service_ok sv'" "\<And>j. j \<noteq> i \<Longrightarrow> map_of (sessions sv') j = map_of (sessions sv) j"
    have "map_of (sessions sv') j \<noteq> None" if "j \<in> set is" for j
    proof -
      have "j \<noteq> i" using that Cons.prems(2) by auto
      then show ?thesis using p(3) that Cons.prems(3) by simp
    qed
    then show ?thesis using p(1) Cons.IH[OF p(2)] Cons.prems(2) by simp
  qed simp
qed simp

lemma shell_event_ok: "service_ok sv \<Longrightarrow> service_ok (shell_event ev sv)"
proof -
  assume ok: "service_ok sv"
  have upd: "service_ok (upd_session i g sv)"
    if "\<And>x. pid (g x) = pid x \<and> closed_sent (g x) = closed_sent x"
      "\<And>x. length (output_queue x) \<le> CHANNEL_BUFFER_SIZE \<Longrightarrow> length (output_queue (g x)) \<le> CHANNEL_BUFFER_SIZE"
      "\<And>x. length (input_queue (g x)) \<le> length (input_queue x)" for g i
  proof (cases "map_of (sessions sv) i")
    case (Some s)
    then have s: "session_ok (sent sv) i s" using ok by (simp add: service_ok_def all_ok_def)
    have "session_ok (sent sv) i (editor.more_update g s)"
      using s that(1,2) le_trans[OF that(3)] by (simp add: session_ok_def editable_def)
    then show ?thesis using service_ok_update[OF ok Some] that(1) by (simp add: upd_session_def Some)
  qed (use ok in \<open>simp add: upd_session_def\<close>)
  show ?thesis
    by (cases ev) (auto simp: shell_event_def dest: length_try_send intro!: upd split: option.splits)
qed

lemma shell_events_ok: "service_ok sv \<Longrightarrow> service_ok (fold shell_event evs sv)"
  by (induction evs arbitrary: sv) (simp_all add: shell_event_ok)

lemma after_action_ok:
  assumes "service_ok sv"
  shows "state_ok (after_action t sv)"
proof -
  let ?keys = "map fst (sessions sv)"
  have "distinct ?keys" using assms by (simp add: service_ok_def)
  then have "distinct (key_order t sv)" "set (key_order t sv) = set ?keys" by (simp_all add: key_order_def Let_def)
  moreover have "map_of (sessions sv) i \<noteq> None" if "i \<in> set ?keys" for i using that by (auto simp: map_of_eq_None_iff)
  ultimately obtain r where "pump_outputs (tt_up t) (key_order t sv) sv = Some r" "case r of Inl sv \<Rightarrow> accounted sv | Inr sv \<Rightarrow> service_ok sv"
    using pump_outputs_ok[OF assms] by blast
  then show ?thesis using dropped_ok by (cases r) (auto simp: after_action_def state_ok_def)
qed

lemma terminal_recv_ok:
  assumes "service_ok sv"
  shows "state_ok (terminal_recv_step t sv)"
proof (cases "tt_recv t")
  case (Action a)
  obtain r where r: "handle_action (tt_up t) (tt_spawned t) a sv = Some r" "case r of Inl sv \<Rightarrow> accounted sv | Inr sv \<Rightarrow> service_ok sv"
    using handle_action_ok[OF assms] by blast
  then show ?thesis using Action dropped_ok after_action_ok by (cases r) (auto simp: terminal_recv_step_def)
qed (use assms dropped_ok service_ok_accounted after_action_ok in \<open>auto simp: terminal_recv_step_def\<close>)

lemma terminal_step_ok:
  assumes "state_ok st"
  shows "state_ok (terminal_step t st)"
proof (cases st)
  case (Serving sv)
  define sv1 where "sv1 = fold shell_event (tt_events t) sv"
  have ok: "service_ok sv1" using assms Serving by (simp add: sv1_def state_ok_def shell_events_ok)
  note drop = dropped_ok[THEN conjunct1] dropped_ok[THEN conjunct2]
  have say: "service_ok sv \<Longrightarrow> service_ok (sv\<lparr>sent := sent sv @ [m]\<rparr>)" if "m = TestDelayMsg \<or> m = CloseReasonMsg" for sv m
    using that service_ok_say[of sv m] by auto
  show ?thesis
    using ok say[of TestDelayMsg "sv1\<lparr>last_cm_check := tt_now t, last_keepalive := tt_now t\<rparr>"]
      say[of TestDelayMsg "sv1\<lparr>last_keepalive := tt_now t\<rparr>"] say[of CloseReasonMsg "sv1\<lparr>last_cm_check := tt_now t\<rparr>"]
    by (auto simp: terminal_step_def Serving sv1_def[symmetric] terminal_turn_step_def Let_def try_response_def send_response_def
        intro!: drop terminal_recv_ok service_ok_accounted)
qed (use assms in \<open>simp_all add: terminal_step_def\<close>)

lemma run_terminal_ok: "state_ok (run_terminal_loop turns now)"
proof -
  have "state_ok (fold terminal_step turns st)" if "state_ok st" for st
    using that by (induction turns arbitrary: st) (simp_all add: terminal_step_ok)
  then show ?thesis
    by (simp add: run_terminal_loop_def state_ok_def service_ok_def all_ok_def held_def opened_pids_def announced_Nil)
qed

section \<open>Properties\<close>

text \<open>C13: The line editor does what its keys say, for whatever characters a viewer sends: nothing panics, the lines it
  passes on and the line it holds are those of the keys, and on a screen that shows the line its echo keeps the
  cursor and every character in place, until an interrupt is typed.\<close>

theorem line_editor_refines:
  assumes "feed_tracks on sc prompt ty f"
  shows "\<exists>f'. data_chars chs f = Some f' \<and>
    feed_tracks (on \<and> \<not> interrupted chs ty) sc (if returned chs ty then [] else prompt) (fold type_char chs ty) f'"
  using data_chars_tracks[OF assms] by blast

theorem line_editor_refines_witness:
  "\<exists>f'. data_chars [97, 98, 27, 91, 68, 8, 99] \<lparr>f_edit = (spawn_terminal 1, []), f_lines = [], f_ctrl_c = False\<rparr> = Some f' \<and>
    (\<exists>k. fold screen_char (snd (f_edit f')) ([62], 1) = ([62, 99, 98] @ replicate k 32, 2))"
proof -
  have "feed_tracks True ([62], 1) [62] ((Normal, []), ([], []), [], False) \<lparr>f_edit = (spawn_terminal 1, []), f_lines = [], f_ctrl_c = False\<rparr>"
    by (simp add: feed_tracks_def tracks_def spawn_terminal_def displays_def)
  from line_editor_refines[OF this, of "[97, 98, 27, 91, 68, 8, 99]"] show ?thesis
    by (fastforce simp: feed_tracks_def tracks_def displays_def type_char_def decode_char_def char_key_def csi_key_def)
qed

text \<open>C17: However viewer, shells and clock interleave, the terminal service never panics; output and closing are announced
  for open terminals alone, every session can be edited and its channels are within their bounds; and when the loop ends
  no session is left and every shell that was announced has been killed.\<close>

theorem terminal_service_invariant:
  "case run_terminal_loop turns now of
     Serving sv \<Rightarrow> announced (sent sv) \<and> opened_pids (sent sv) \<subseteq> set (killed sv) \<union> held (sessions sv) \<and> all_ok (sent sv) (sessions sv)
   | Ended sv \<Rightarrow> sessions sv = [] \<and> announced (sent sv) \<and> opened_pids (sent sv) \<subseteq> set (killed sv)
   | Broken sv \<Rightarrow> sessions sv = [] \<and> announced (sent sv) \<and> opened_pids (sent sv) \<subseteq> set (killed sv)
   | Panicked \<Rightarrow> False"
  using run_terminal_ok[of turns now] by (auto simp: state_ok_def Let_def service_ok_def split: service_state.splits)

end
