(* ===== verification/File_Transfer.thy ===== *)
theory File_Transfer
  imports Utf8 "HOL-Library.Multiset" "HOL-Library.List_Lexorder" "HOL-Library.Product_Lexorder"
begin

text \<open>
  \<open>src/src/file_transfer.rs\<close>: directory listings, blocks of files, the names that are safe to write below a folder and the raw
  zstd frame. A folder is a tree with the entries in the order the system gives them; the lower-case mapping of
  names is a parameter. A disk maps paths to contents; \<open>io_fault\<close> says where the system fails.
\<close>

section \<open>Directory listings\<close>

datatype file_type = Dir | DirLink | DirDrive | File | FileLink

record file_entry =
  fe_type :: file_type
  fe_name :: rstr
  fe_is_hidden :: bool
  fe_size :: nat
  fe_modified_time :: nat

datatype tree =
    Leaf nat nat
  | Folder nat "(rstr \<times> bool \<times> tree) list"
  | Locked nat

definition dir_entry :: "rstr \<Rightarrow> bool \<Rightarrow> tree \<Rightarrow> file_entry" where
  "dir_entry name hidden t =
     (case t of
        Leaf bytes modified \<Rightarrow>
          \<lparr>fe_type = File, fe_name = name, fe_is_hidden = hidden, fe_size = bytes, fe_modified_time = modified\<rparr>
      | Folder modified _ \<Rightarrow> \<lparr>fe_type = Dir, fe_name = name, fe_is_hidden = hidden, fe_size = 0, fe_modified_time = modified\<rparr>
      | Locked modified \<Rightarrow> \<lparr>fe_type = Dir, fe_name = name, fe_is_hidden = hidden, fe_size = 0, fe_modified_time = modified\<rparr>)"

text \<open>Folders first, then by lower-case name; \<open>sort_by\<close> is stable.\<close>

definition dir_key :: "(rstr \<Rightarrow> rstr) \<Rightarrow> file_entry \<Rightarrow> bool \<times> rstr" where
  "dir_key lower e = (fe_type e \<noteq> Dir, lower (fe_name e))"

definition dir_entries :: "(rstr \<Rightarrow> rstr) \<Rightarrow> bool \<Rightarrow> (rstr \<times> bool \<times> tree) list \<Rightarrow> (file_entry \<times> tree) list" where
  "dir_entries lower include_hidden ns =
     sort_key (dir_key lower \<circ> fst)
       (map (\<lambda>(name, hidden, t). (dir_entry name hidden t, t)) (filter (\<lambda>(name, hidden, t). include_hidden \<or> \<not> hidden) ns))"

text \<open>\<open>None\<close> where \<open>read_dir\<close> fails. A file given as the folder has no entries.\<close>

definition read_dir_to_proto :: "(rstr \<Rightarrow> rstr) \<Rightarrow> bool \<Rightarrow> tree \<Rightarrow> file_entry list option" where
  "read_dir_to_proto lower include_hidden t =
     (case t of Leaf _ _ \<Rightarrow> Some [] | Locked _ \<Rightarrow> None | Folder _ ns \<Rightarrow> Some (map fst (dir_entries lower include_hidden ns)))"

text \<open>\<open>prefix.join(name)\<close> for a name that is neither absolute nor has a drive.\<close>

definition rel_join :: "rstr \<Rightarrow> rstr \<Rightarrow> rstr" where
  "rel_join prefix name =
     (if prefix = [] then name else if last prefix = 92 \<or> last prefix = 47 then prefix @ name else prefix @ [92] @ name)"

definition slashes :: "rstr \<Rightarrow> rstr" where
  "slashes s = map (\<lambda>c. if c = 92 then 47 else c) s"

definition empty_dir_marker :: "rstr \<Rightarrow> file_entry" where
  "empty_dir_marker prefix =
     \<lparr>fe_type = Dir, fe_name = slashes prefix @ [47], fe_is_hidden = False, fe_size = 0, fe_modified_time = 0\<rparr>"

definition entry_files :: "rstr \<Rightarrow> file_entry \<Rightarrow> file_entry list option \<Rightarrow> file_entry list option" where
  "entry_files prefix e below =
     (let path = rel_join prefix (fe_name e)
      in if fe_type e = File then Some [e\<lparr>fe_name := path\<rparr>]
         else if fe_type e = Dir then map_option (\<lambda>fs. if fs = [] then [empty_dir_marker path] else fs) below
         else Some [])"

lemma dir_entries_subtree:
  assumes "(e, t) \<in> set (dir_entries lower ih ns)"
  shows "\<exists>name hidden. (name, hidden, t) \<in> set ns \<and> e = dir_entry name hidden t \<and> (ih \<or> \<not> hidden)"
  using assms by (auto simp: dir_entries_def)

lemma subtree_size: "(name, hidden, t) \<in> set ns \<Longrightarrow> size t < size (Folder m ns)"
  by (induction ns) auto

lemma sum_list_map_mset: "mset xs = mset ys \<Longrightarrow> sum_list (map f xs) = (sum_list (map f ys) :: nat)"
  by (metis mset_map sum_mset_sum_list)

text \<open>The inner loop goes over the entries; a folder without anything to list below it is listed itself.\<close>

function (sequential) read_dir_recursive_inner :: "(rstr \<Rightarrow> rstr) \<Rightarrow> bool \<Rightarrow> rstr \<Rightarrow> tree \<Rightarrow> file_entry list option"
and read_entries :: "(rstr \<Rightarrow> rstr) \<Rightarrow> bool \<Rightarrow> rstr \<Rightarrow> (file_entry \<times> tree) list \<Rightarrow> file_entry list option" where
  "read_dir_recursive_inner lower ih prefix (Folder m ns) = read_entries lower ih prefix (dir_entries lower ih ns)"
| "read_dir_recursive_inner lower ih prefix (Leaf _ _) = Some []"
| "read_dir_recursive_inner lower ih prefix (Locked _) = None"
| "read_entries lower ih prefix [] = Some []"
| "read_entries lower ih prefix ((e, t) # es) =
     (case entry_files prefix e (if fe_type e = Dir then read_dir_recursive_inner lower ih (rel_join prefix (fe_name e)) t else Some []) of
        None \<Rightarrow> None
      | Some fs \<Rightarrow> (case read_entries lower ih prefix es of None \<Rightarrow> None | Some rest \<Rightarrow> Some (fs @ rest)))"
  by pat_completeness auto
termination
proof (relation "measure (\<lambda>x. case x of Inl (lower, ih, p, t) \<Rightarrow> 2 * size t
    | Inr (lower, ih, p, es) \<Rightarrow> Suc (sum_list (map (\<lambda>x. 2 * size (snd x) + 1) es)))", goal_cases)
  case (2 lower ih prefix m ns)
  have "mset (map snd (dir_entries lower ih ns)) = mset (map (snd \<circ> snd) (filter (\<lambda>(name, hidden, t). ih \<or> \<not> hidden) ns))"
    by (simp add: dir_entries_def comp_def case_prod_beta multiset.map_comp)
  then have "sum_list (map (\<lambda>t. 2 * size t + 1) (map snd (dir_entries lower ih ns)))
      = sum_list (map (\<lambda>t. 2 * size t + 1) (map (snd \<circ> snd) (filter (\<lambda>(name, hidden, t). ih \<or> \<not> hidden) ns)))"
    by (rule sum_list_map_mset)
  moreover have "sum_list (map (\<lambda>t. 2 * size t + 1) (map (snd \<circ> snd) (filter (\<lambda>(name, hidden, t). ih \<or> \<not> hidden) ns)))
      < 2 * size (Folder m ns) - 1"
    by (induction ns) auto
  ultimately have "sum_list (map (\<lambda>x. 2 * size (snd x) + 1) (dir_entries lower ih ns)) < 2 * size (Folder m ns) - 1"
    by (simp add: comp_def case_prod_beta)
  then show ?case by simp
qed auto

definition get_recursive_files :: "(rstr \<Rightarrow> rstr) \<Rightarrow> bool \<Rightarrow> tree option \<Rightarrow> file_entry list option" where
  "get_recursive_files lower ih found =
     (case found of
        None \<Rightarrow> None
      | Some (Leaf len modified) \<Rightarrow>
          Some [\<lparr>fe_type = File, fe_name = [], fe_is_hidden = False, fe_size = len, fe_modified_time = modified\<rparr>]
      | Some t \<Rightarrow> read_dir_recursive_inner lower ih [] t)"

section \<open>Blocks\<close>

definition BLOCK_SIZE :: nat where
  "BLOCK_SIZE = 128 * 1024"

type_synonym disk = "rstr \<rightharpoonup> bytes"

datatype io_fault = NoFault | OpenFails | TransferFails nat

text \<open>A read of a file gives the whole block unless the file ends before: \<open>File::read\<close> may give less, but \<open>ReadFile\<close> does not on a disk file.\<close>

definition read_file_block :: "io_fault \<Rightarrow> disk \<Rightarrow> rstr \<Rightarrow> nat \<Rightarrow> bytes option" where
  "read_file_block fault d path offset =
     (if fault \<noteq> NoFault then None
      else case d path of None \<Rightarrow> None | Some content \<Rightarrow> Some (take BLOCK_SIZE (drop offset content)))"

function read_blocks_from :: "bytes \<Rightarrow> bytes list" where
  "read_blocks_from content =
     (let buf = take BLOCK_SIZE content
      in if buf = [] then [] else buf # read_blocks_from (drop BLOCK_SIZE content))"
  by pat_completeness auto
termination by (relation "measure length") (auto simp: BLOCK_SIZE_def)

declare read_blocks_from.simps [simp del]

definition read_file_blocks :: "io_fault \<Rightarrow> disk \<Rightarrow> rstr \<Rightarrow> bytes list option" where
  "read_file_blocks fault d path = (if fault \<noteq> NoFault then None else map_option read_blocks_from (d path))"

text \<open>Writing at an offset: what lies before it is kept, or zero where there was nothing. A block at the start truncates; an empty
  block does nothing at all. A failing write may have put some of the bytes.\<close>

definition put_at :: "nat \<Rightarrow> bytes \<Rightarrow> bytes \<Rightarrow> bytes" where
  "put_at offset data old =
     (if data = [] then old
      else take offset (old @ replicate (offset - length old) 0) @ data @ drop (offset + length data) old)"

definition write_file_block :: "io_fault \<Rightarrow> rstr \<Rightarrow> bytes \<Rightarrow> nat \<Rightarrow> disk \<Rightarrow> bool \<times> disk" where
  "write_file_block fault path data offset d =
     (if data = [] then (True, d)
      else
        let old = (if offset = 0 then [] else case d path of None \<Rightarrow> [] | Some c \<Rightarrow> c)
        in case fault of
             OpenFails \<Rightarrow> (False, d)
           | TransferFails n \<Rightarrow> (False, d(path \<mapsto> put_at offset (take n data) old))
           | NoFault \<Rightarrow> (True, d(path \<mapsto> put_at offset data old)))"

text \<open>The decoder of \<open>ruzstd\<close> is a parameter: \<open>None\<close> is its error. What is too long counts as nothing.\<close>

definition MAX_DECOMPRESSED_SIZE :: nat where
  "MAX_DECOMPRESSED_SIZE = 16 * 1024 * 1024"

definition zstd_decompress :: "(bytes \<Rightarrow> bytes option) \<Rightarrow> bytes \<Rightarrow> bytes" where
  "zstd_decompress decode data =
     (case decode data of None \<Rightarrow> [] | Some out \<Rightarrow> if length out \<le> MAX_DECOMPRESSED_SIZE then out else [])"

section \<open>Safe names\<close>

definition is_sep :: "rchar \<Rightarrow> bool" where
  "is_sep c \<longleftrightarrow> c = 47 \<or> c = 92"

definition is_ascii_alphabetic :: "u8 \<Rightarrow> bool" where
  "is_ascii_alphabetic b \<longleftrightarrow> 65 \<le> unat b \<and> unat b \<le> 90 \<or> 97 \<le> unat b \<and> unat b \<le> 122"

text \<open>\<open>split(['/', '\\'])\<close>.\<close>

fun split_seps :: "rstr \<Rightarrow> rstr list" where
  "split_seps [] = [[]]"
| "split_seps (c # s) = (if is_sep c then [] # split_seps s else (c # hd (split_seps s)) # tl (split_seps s))"

definition has_drive :: "rstr \<Rightarrow> bool" where
  "has_drive name = (let b = utf8 name in length b \<ge> 2 \<and> is_ascii_alphabetic (b ! 0) \<and> b ! 1 = 58)"

definition is_safe_name :: "rstr \<Rightarrow> bool" where
  "is_safe_name name \<longleftrightarrow>
     0 \<notin> set name \<and> \<not> (name \<noteq> [] \<and> is_sep (hd name)) \<and> \<not> has_drive name \<and> [46, 46] \<notin> set (split_seps name)"

definition download_names_safe :: "file_entry list \<Rightarrow> bool" where
  "download_names_safe entries \<longleftrightarrow>
     length entries = 1 \<and> fe_name (hd entries) = [] \<or> list_all (\<lambda>e. fe_name e \<noteq> [] \<and> is_safe_name (fe_name e)) entries"

definition is_safe_listing_entry :: "file_entry \<Rightarrow> bool" where
  "is_safe_listing_entry e \<longleftrightarrow>
     (let is_drive = fe_type e = DirDrive \<and> length (utf8 (fe_name e)) = 2 \<and> has_drive (fe_name e)
      in fe_name e \<noteq> [] \<and> (is_drive \<or> is_safe_name (fe_name e)))"

section \<open>The raw zstd frame\<close>

definition MAX_RAW_BLOCK :: nat where
  "MAX_RAW_BLOCK = 128 * 1024"

definition zstd_block_header :: "nat \<Rightarrow> bool \<Rightarrow> bytes" where
  "zstd_block_header chunk_len final =
     take 3 (le_bytes 4 (push_bit 3 (word_of_nat chunk_len :: u32) OR (if final then 1 else 0)))"

function zstd_raw_blocks :: "bytes \<Rightarrow> bytes" where
  "zstd_raw_blocks data =
     (if data = [] then []
      else
        let chunk_len = min MAX_RAW_BLOCK (length data)
        in zstd_block_header chunk_len (chunk_len \<ge> length data) @ take chunk_len data @ zstd_raw_blocks (drop chunk_len data))"
  by pat_completeness auto
termination by (relation "measure length") (auto simp: MAX_RAW_BLOCK_def)

declare zstd_raw_blocks.simps [simp del]

definition zstd_wrap_raw :: "bytes \<Rightarrow> bytes" where
  "zstd_wrap_raw data =
     [0x28, 0xB5, 0x2F, 0xFD, 0xA0] @ le_bytes 4 (word_of_nat (length data) :: u32) @
     (if data = [] then take 3 (le_bytes 4 (1 :: u32)) else zstd_raw_blocks data)"

section \<open>Frames of raw blocks are read back\<close>

text \<open>What a decoder makes of a frame with raw blocks alone: block headers of 24 bits hold the size, the type and the mark of
  the last block; the content size of the frame header has to agree.\<close>

function read_raw_blocks :: "bytes \<Rightarrow> bytes option" where
  "read_raw_blocks bs =
     (let h = le_nat (take 3 bs); n = h div 8; rest = drop 3 bs
      in if length bs < 3 \<or> h div 2 mod 4 \<noteq> 0 \<or> length rest < n then None
         else if odd h then (if length rest = n then Some rest else None)
         else map_option ((@) (take n rest)) (read_raw_blocks (drop n rest)))"
  by pat_completeness auto
termination by (relation "measure length") auto

declare read_raw_blocks.simps [simp del]

definition read_raw_frame :: "bytes \<Rightarrow> bytes option" where
  "read_raw_frame bs =
     (if take 5 bs \<noteq> [0x28, 0xB5, 0x2F, 0xFD, 0xA0] \<or> length bs < 9 then None
      else case read_raw_blocks (drop 9 bs) of
        None \<Rightarrow> None
      | Some d \<Rightarrow> if length d = le_nat (take 4 (drop 5 bs)) then Some d else None)"

lemma le_nat_bytes_u32: "le_nat (le_bytes 4 (w :: u32)) = unat w"
  using unat_of_le[of "le_bytes 4 w", where 'a = 32] by (simp add: of_le_le_bytes)

lemma le_nat_low:
  assumes "unat (w :: u32) < 2 ^ 24"
  shows "le_nat (take 3 (le_bytes 4 w)) = unat w"
proof -
  have "le_nat (take 3 (le_bytes 4 w)) + 256 ^ 3 * le_nat (drop 3 (le_bytes 4 w)) = unat w"
    using le_nat_append[of "take 3 (le_bytes 4 w)" "drop 3 (le_bytes 4 w)"] by (simp add: le_nat_bytes_u32)
  moreover from this have "le_nat (drop 3 (le_bytes 4 w)) = 0" using assms by (cases "le_nat (drop 3 (le_bytes 4 w))") auto
  ultimately show ?thesis by simp
qed

lemma block_header_value:
  assumes "n \<le> MAX_RAW_BLOCK"
  shows "le_nat (zstd_block_header n final) = 8 * n + (if final then 1 else 0)" "length (zstd_block_header n final) = 3"
proof -
  define w :: u32 where "w = push_bit 3 (word_of_nat n)"
  have n: "n < 2 ^ 20" using assms by (simp add: MAX_RAW_BLOCK_def)
  then have w: "unat w = 8 * n"
    by (simp add: w_def push_bit_eq_mult unat_word_ariths unat_of_nat)
  have "w AND 1 = 0" by (rule bit_word_eqI) (auto simp: w_def bit_simps)
  then have or: "w OR 1 = w + 1" by (simp add: disjunctive_add_eq_or)
  have "unat (w + 1) = 8 * n + 1" using n w by (simp add: unat_word_ariths)
  then have v: "unat (w OR (if final then 1 else 0)) = 8 * n + (if final then 1 else 0)" using w or by simp
  moreover have "8 * n + (if final then 1 else 0) < 2 ^ 24" using n by simp
  ultimately show "le_nat (zstd_block_header n final) = 8 * n + (if final then 1 else 0)"
    unfolding zstd_block_header_def w_def[symmetric] by (subst le_nat_low) simp_all
  show "length (zstd_block_header n final) = 3" by (simp add: zstd_block_header_def)
qed

lemma read_zstd_raw_blocks: "data \<noteq> [] \<Longrightarrow> read_raw_blocks (zstd_raw_blocks data) = Some data"
proof (induction data rule: zstd_raw_blocks.induct)
  case (1 data)
  define n where "n = min MAX_RAW_BLOCK (length data)"
  let ?h = "zstd_block_header n (n \<ge> length data)"
  have pos: "0 < n" "n \<le> MAX_RAW_BLOCK" "n \<le> length data" using 1(2) by (simp_all add: n_def MAX_RAW_BLOCK_def)
  have out: "zstd_raw_blocks data = ?h @ take n data @ zstd_raw_blocks (drop n data)"
    using 1(2) by (subst zstd_raw_blocks.simps) (simp add: n_def Let_def)
  note h = block_header_value[OF pos(2), of "n \<ge> length data"]
  show ?case
  proof (cases "n \<ge> length data")
    case True
    then have "zstd_raw_blocks (drop n data) = []" by (simp add: zstd_raw_blocks.simps)
    then show ?thesis using h True pos by (subst read_raw_blocks.simps) (simp add: out Let_def)
  next
    case False
    then have "read_raw_blocks (zstd_raw_blocks (drop n data)) = Some (drop n data)"
      using 1 by (simp add: n_def Let_def)
    then show ?thesis using h False pos by (subst read_raw_blocks.simps) (simp add: out Let_def)
  qed
qed

lemma read_zstd_wrap_raw:
  assumes "length data < 2 ^ 32"
  shows "read_raw_frame (zstd_wrap_raw data) = Some data"
proof -
  have len: "le_nat (le_bytes 4 (word_of_nat (length data) :: u32)) = length data"
    using assms by (simp add: le_nat_bytes_u32 unat_of_nat)
  have "le_nat (take 3 (le_bytes 4 (1 :: u32))) = 1" by (subst le_nat_low) simp_all
  then have "read_raw_blocks (take 3 (le_bytes 4 (1 :: u32))) = Some []" by (subst read_raw_blocks.simps) simp
  then show ?thesis
    using read_zstd_raw_blocks[of data] len by (cases "data = []") (simp_all add: read_raw_frame_def zstd_wrap_raw_def)
qed

section \<open>Safe names stay below\<close>

text \<open>Following the parts of a relative name from a place in the file tree.\<close>

fun follow :: "rstr list \<Rightarrow> rstr list \<Rightarrow> rstr list" where
  "follow at [] = at"
| "follow at (c # cs) = follow (if c = [] \<or> c = [46] then at else if c = [46, 46] then butlast at else at @ [c]) cs"

lemma follow_below: "[46, 46] \<notin> set cs \<Longrightarrow> \<exists>more. follow at cs = at @ more"
proof (induction cs arbitrary: at)
  case (Cons c cs)
  then show ?case
    using Cons.IH[of at] Cons.IH[of "at @ [c]"] by auto
qed simp

lemma split_seps_nonempty [simp]: "split_seps s \<noteq> []"
  by (induction s) auto

lemma split_seps_append: "is_sep c \<Longrightarrow> split_seps (a @ c # b) = split_seps a @ split_seps b"
  by (induction a) (auto simp: Let_def)

lemma split_seps_none: "\<forall>c\<in>set s. \<not> is_sep c \<Longrightarrow> split_seps s = [s]"
  by (induction s) auto

section \<open>Blocks put a file together\<close>

lemma read_blocks_concat: "concat (read_blocks_from content) = content"
proof (induction content rule: read_blocks_from.induct)
  case (1 content)
  then show ?case by (subst read_blocks_from.simps) (auto simp: Let_def BLOCK_SIZE_def)
qed

lemma put_at_end: "put_at (length old) data old = old @ data"
  by (simp add: put_at_def)

lemma put_at_start: "put_at 0 data [] = data"
  by (simp add: put_at_def)

text \<open>Blocks written one after the other from the start: the file holds them, unless all were empty.\<close>

fun write_blocks :: "rstr \<Rightarrow> bytes list \<Rightarrow> nat \<times> disk \<Rightarrow> nat \<times> disk" where
  "write_blocks path [] st = st"
| "write_blocks path (b # bs) (offset, d) = write_blocks path bs (offset + length b, snd (write_file_block NoFault path b offset d))"

lemma write_blocks_more:
  assumes "d path = Some c" "c \<noteq> []"
  shows "write_blocks path bs (length c, d) = (length c + length (concat bs), d(path \<mapsto> c @ concat bs))"
  using assms
proof (induction bs arbitrary: c d)
  case Nil
  then show ?case by (simp add: fun_upd_idem)
next
  case (Cons b bs)
  have "snd (write_file_block NoFault path b (length c) d) = d(path \<mapsto> c @ b)"
    using Cons.prems by (cases "b = []") (simp_all add: write_file_block_def put_at_end fun_upd_idem)
  then show ?case using Cons.IH[of "d(path \<mapsto> c @ b)" "c @ b"] Cons.prems by (simp add: fun_upd_def cong: if_cong)
qed

lemma write_blocks_start:
  "write_blocks path bs (0, d) = (length (concat bs), if concat bs = [] then d else d(path \<mapsto> concat bs))"
proof (induction bs arbitrary: d)
  case (Cons b bs)
  show ?case
  proof (cases "b = []")
    case True
    then show ?thesis using Cons.IH[of d] by (simp add: write_file_block_def)
  next
    case False
    then have "snd (write_file_block NoFault path b 0 d) = d(path \<mapsto> b)" by (simp add: write_file_block_def put_at_start)
    then show ?thesis using write_blocks_more[of "d(path \<mapsto> b)" path b bs] False by (simp add: fun_upd_def cong: if_cong)
  qed
qed simp

section \<open>What a listing holds\<close>

text \<open>The names a Windows folder can have, and the names of a path of them.\<close>

definition file_name_ok :: "rstr \<Rightarrow> bool" where
  "file_name_ok n \<longleftrightarrow>
     n \<noteq> [] \<and> n \<noteq> [46, 46] \<and> (\<forall>c\<in>set n. is_scalar c \<and> \<not> is_sep c \<and> c \<noteq> 0 \<and> c \<noteq> 58)"

inductive tree_ok :: "tree \<Rightarrow> bool" where
  leaf: "tree_ok (Leaf len m)"
| locked: "tree_ok (Locked m)"
| folder: "(\<And>name hidden t. (name, hidden, t) \<in> set ns \<Longrightarrow> file_name_ok name \<and> tree_ok t) \<Longrightarrow> tree_ok (Folder m ns)"

inductive_simps tree_ok_Folder: "tree_ok (Folder m ns)"

definition rel_ok :: "rstr \<Rightarrow> bool" where
  "rel_ok p \<longleftrightarrow>
     p \<noteq> [] \<and> \<not> is_sep (hd p) \<and> \<not> is_sep (last p) \<and> (\<forall>c\<in>set p. is_scalar c \<and> c \<noteq> 0 \<and> c \<noteq> 58) \<and> [46, 46] \<notin> set (split_seps p)"

lemma rel_ok_join: "p = [] \<or> rel_ok p \<Longrightarrow> file_name_ok n \<Longrightarrow> rel_ok (rel_join p n)"
  by (auto simp: rel_ok_def file_name_ok_def rel_join_def split_seps_none split_seps_append is_sep_def is_scalar_def)

lemma utf8_high: "is_scalar c \<Longrightarrow> 128 \<le> c \<Longrightarrow> b \<in> set (utf8_char c) \<Longrightarrow> 128 \<le> unat b"
proof -
  assume c: "is_scalar c" "128 \<le> c" and b: "b \<in> set (utf8_char c)"
  have top: "c < 0x110000" using c(1) by (auto simp: is_scalar_def)
  have m: "n mod 64 < 64" for n :: nat by simp
  obtain x where x: "b = word_of_nat x" "x \<in> set
     (if c < 0x80 then [c]
      else if c < 0x800 then [0xC0 + c div 64, 0x80 + c mod 64]
      else if c < 0x10000 then [0xE0 + c div 4096, 0x80 + c div 64 mod 64, 0x80 + c mod 64]
      else [0xF0 + c div 262144, 0x80 + c div 4096 mod 64, 0x80 + c div 64 mod 64, 0x80 + c mod 64])"
    using b unfolding utf8_char_def set_map by blast
  then have "128 \<le> x \<and> x < 256"
    using c(2) top m[of c] m[of "c div 64"] m[of "c div 4096"] by (auto split: if_splits)
  then show ?thesis by (simp add: x(1) unat_of_nat)
qed

lemma no_drive: "\<forall>c\<in>set p. is_scalar c \<and> c \<noteq> 58 \<Longrightarrow> \<not> has_drive p"
proof
  assume p: "\<forall>c\<in>set p. is_scalar c \<and> c \<noteq> 58" and "has_drive p"
  then have "58 \<in> set (utf8 p)" by (auto simp: has_drive_def Let_def) (metis Suc_le_eq nth_mem numeral_2_eq_2)
  then obtain c where c: "c \<in> set p" "58 \<in> set (utf8_char c)" by (auto simp: utf8_def)
  show False
  proof (cases "c < 128")
    case True
    then have "(58 :: u8) = word_of_nat c" using c(2) by (simp add: utf8_char_def)
    then have "unat (58 :: u8) = unat (word_of_nat c :: u8)" by simp
    then show False using True p c(1) by (simp add: unat_of_nat)
  next
    case False
    then show False using utf8_high[of c 58] p c by simp
  qed
qed

lemma rel_ok_safe: "rel_ok p \<Longrightarrow> p \<noteq> [] \<and> is_safe_name p"
  using no_drive[of p] by (auto simp: rel_ok_def is_safe_name_def)

lemma split_seps_slashes: "split_seps (slashes s) = split_seps s"
  by (induction s) (auto simp: slashes_def is_sep_def)

lemma marker_safe:
  assumes "rel_ok p"
  shows "fe_name (empty_dir_marker p) \<noteq> [] \<and> is_safe_name (fe_name (empty_dir_marker p))"
proof -
  have p: "p \<noteq> []" "\<not> is_sep (hd p)" "\<forall>c\<in>set p. is_scalar c \<and> c \<noteq> 0 \<and> c \<noteq> 58"
    using assms by (simp_all add: rel_ok_def)
  have "is_scalar 47" by (simp add: is_scalar_def)
  then have "\<forall>c\<in>set (slashes p @ [47]). is_scalar c \<and> c \<noteq> 58"
    using p(3) by (auto simp: slashes_def)
  then have "\<not> has_drive (slashes p @ [47])" by (rule no_drive)
  moreover have "\<not> is_sep (hd (slashes p))" "slashes p \<noteq> []"
    using p(1,2) by (simp_all add: slashes_def is_sep_def hd_map)
  moreover have "split_seps (slashes p @ [47]) = split_seps p @ [[]]"
    using split_seps_append[of 47 "slashes p" "[]"] by (simp add: is_sep_def split_seps_slashes)
  moreover have "0 \<notin> set (slashes p)" using p(3) by (auto simp: slashes_def)
  ultimately show ?thesis using assms by (simp add: empty_dir_marker_def is_safe_name_def rel_ok_def)
qed

lemma dir_entry_fields [simp]: "fe_name (dir_entry n h t) = n" "fe_type (dir_entry n h t) = (case t of Leaf _ _ \<Rightarrow> File | _ \<Rightarrow> Dir)"
  by (simp_all add: dir_entry_def split: tree.split)

lemma listing_names:
  "tree_ok t \<Longrightarrow> prefix = [] \<or> rel_ok prefix \<Longrightarrow> read_dir_recursive_inner lower ih prefix t = Some fs \<Longrightarrow>
     \<forall>e\<in>set fs. fe_name e \<noteq> [] \<and> is_safe_name (fe_name e)"
  "\<forall>(e, t)\<in>set es. file_name_ok (fe_name e) \<and> tree_ok t \<Longrightarrow> prefix = [] \<or> rel_ok prefix \<Longrightarrow> read_entries lower ih prefix es = Some fs \<Longrightarrow>
     \<forall>e\<in>set fs. fe_name e \<noteq> [] \<and> is_safe_name (fe_name e)"
proof (induction lower ih prefix t and lower ih prefix es arbitrary: fs and fs rule: read_dir_recursive_inner_read_entries.induct)
  case (1 lower ih prefix m ns)
  have "\<forall>(e, t)\<in>set (dir_entries lower ih ns). file_name_ok (fe_name e) \<and> tree_ok t"
    using 1(2) dir_entries_subtree[of _ _ lower ih ns] by (fastforce simp: tree_ok_Folder)
  then show ?case using 1 by simp
next
  case (5 lower ih prefix e t es)
  have n: "file_name_ok (fe_name e)" "tree_ok t" using 5(3) by auto
  note child = rel_ok_join[OF 5(4) n(1)]
  note safe = rel_ok_safe[OF child] marker_safe[OF child]
  let ?below = "if fe_type e = Dir then read_dir_recursive_inner lower ih (rel_join prefix (fe_name e)) t else Some []"
  from 5(5) obtain fs1 rest where fs: "fs = fs1 @ rest" "read_entries lower ih prefix es = Some rest"
      and one: "entry_files prefix e ?below = Some fs1"
    by (simp split: option.splits) blast
  have "\<forall>x\<in>set rest. fe_name x \<noteq> [] \<and> is_safe_name (fe_name x)" using 5(2)[OF one _ 5(4) fs(2)] 5(3) by simp
  moreover have "\<forall>x\<in>set fs1. fe_name x \<noteq> [] \<and> is_safe_name (fe_name x)"
    using one safe 5(1)[OF _ n(2) disjI2[OF child]] by (auto simp: entry_files_def Let_def split: if_splits)
  ultimately show ?case by (auto simp: fs)
qed auto

text \<open>The files that can be seen below a folder, in the system's order, with their paths.\<close>

function leaves :: "bool \<Rightarrow> rstr \<Rightarrow> tree \<Rightarrow> (rstr \<times> nat) list" where
  "leaves ih prefix (Folder m ns) =
     concat (map (\<lambda>(name, hidden, t).
       if ih \<or> \<not> hidden then
         (case t of Leaf len _ \<Rightarrow> [(rel_join prefix name, len)] | _ \<Rightarrow> leaves ih (rel_join prefix name) t)
       else []) ns)"
| "leaves ih prefix (Leaf _ _) = []"
| "leaves ih prefix (Locked _) = []"
  by pat_completeness auto
termination
  by (relation "measure (\<lambda>(_, _, t). size t)") (auto dest: subtree_size)

definition files_in :: "file_entry list \<Rightarrow> (rstr \<times> nat) list" where
  "files_in es = map (\<lambda>e. (fe_name e, fe_size e)) (filter (\<lambda>e. fe_type e = File) es)"

definition leaves_of :: "bool \<Rightarrow> rstr \<Rightarrow> rstr \<Rightarrow> tree \<Rightarrow> (rstr \<times> nat) list" where
  "leaves_of ih prefix name t = (case t of Leaf len _ \<Rightarrow> [(rel_join prefix name, len)] | _ \<Rightarrow> leaves ih (rel_join prefix name) t)"

lemma leaves_Folder:
  "leaves ih prefix (Folder m ns) =
     concat (map (\<lambda>(name, hidden, t). leaves_of ih prefix name t) (filter (\<lambda>(name, hidden, t). ih \<or> \<not> hidden) ns))"
  by (induction ns) (auto simp: leaves_of_def)

lemma mset_concat_map: "mset xs = mset ys \<Longrightarrow> mset (concat (map f xs)) = mset (concat (map f ys))"
  by (metis mset_concat mset_map sum_mset_sum_list map_map)

lemma listing_files:
  "read_dir_recursive_inner lower ih prefix t = Some fs \<Longrightarrow> mset (files_in fs) = mset (leaves ih prefix t)"
  "\<forall>(e, t)\<in>set es. \<exists>n h. e = dir_entry n h t \<Longrightarrow> read_entries lower ih prefix es = Some fs \<Longrightarrow>
     mset (files_in fs) = mset (concat (map (\<lambda>(e, t). leaves_of ih prefix (fe_name e) t) es))"
proof (induction lower ih prefix t and lower ih prefix es arbitrary: fs and fs rule: read_dir_recursive_inner_read_entries.induct)
  case (1 lower ih prefix m ns)
  have "\<forall>(e, t)\<in>set (dir_entries lower ih ns). \<exists>n h. e = dir_entry n h t"
    using dir_entries_subtree[of _ _ lower ih ns] by blast
  then have "mset (files_in fs) = mset (concat (map (\<lambda>(e, t). leaves_of ih prefix (fe_name e) t) (dir_entries lower ih ns)))"
    using 1 by simp
  also have "\<dots> = mset (concat (map (\<lambda>(e, t). leaves_of ih prefix (fe_name e) t)
      (map (\<lambda>(name, hidden, t). (dir_entry name hidden t, t)) (filter (\<lambda>(name, hidden, t). ih \<or> \<not> hidden) ns))))"
    by (rule mset_concat_map) (simp add: dir_entries_def)
  also have "\<dots> = mset (leaves ih prefix (Folder m ns))"
    unfolding leaves_Folder by (intro arg_cong[of _ _ mset] arg_cong[of _ _ concat]) (auto simp: comp_def)
  finally show ?case .
next
  case (5 lower ih prefix e t es)
  let ?below = "if fe_type e = Dir then read_dir_recursive_inner lower ih (rel_join prefix (fe_name e)) t else Some []"
  from 5(4) obtain fs1 rest where fs: "fs = fs1 @ rest" "read_entries lower ih prefix es = Some rest"
      and one: "entry_files prefix e ?below = Some fs1"
    by (simp split: option.splits) blast
  obtain n h where e: "e = dir_entry n h t" using 5(3) by auto
  have "mset (files_in fs1) = mset (leaves_of ih prefix (fe_name e) t)"
  proof (cases t)
    case (Leaf len m)
    then show ?thesis using one by (auto simp: e entry_files_def Let_def leaves_of_def files_in_def dir_entry_def)
  next
    case (Folder m ns)
    then obtain gs where g: "read_dir_recursive_inner lower ih (rel_join prefix n) t = Some gs"
        "fs1 = (if gs = [] then [empty_dir_marker (rel_join prefix n)] else gs)"
      using one by (auto simp: e entry_files_def Let_def)
    then have "files_in fs1 = files_in gs" by (simp add: files_in_def empty_dir_marker_def)
    then show ?thesis using 5(1)[of gs] g Folder by (simp add: e leaves_of_def)
  next
    case (Locked m)
    then show ?thesis using one by (simp add: e entry_files_def)
  qed
  moreover have "mset (files_in rest) = mset (concat (map (\<lambda>(e, t). leaves_of ih prefix (fe_name e) t) es))"
    using 5(2)[OF one _ fs(2)] 5(3) by simp
  ultimately show ?case by (simp add: fs files_in_def)
qed (auto simp: files_in_def)

section \<open>Properties\<close>

text \<open>C34: A recursive listing holds every visible file below the folder with its path and size, each as often as it is there;
  its names are ones a viewer accepts: below the folder, whatever the viewer's folder is.\<close>

theorem recursive_listing_correct:
  assumes "get_recursive_files lower ih (Some (Folder m ns)) = Some fs" "tree_ok (Folder m ns)"
  shows "mset (files_in fs) = mset (leaves ih [] (Folder m ns)) \<and> download_names_safe fs \<and>
    (\<forall>e\<in>set fs. \<forall>at. \<exists>more. follow at (split_seps (fe_name e)) = at @ more)"
proof -
  have inner: "read_dir_recursive_inner lower ih [] (Folder m ns) = Some fs"
    using assms(1) by (simp add: get_recursive_files_def)
  then have "\<forall>e\<in>set fs. fe_name e \<noteq> [] \<and> is_safe_name (fe_name e)" using listing_names(1) assms(2) by blast
  then show ?thesis
    using listing_files(1)[OF inner] follow_below
    by (auto simp: download_names_safe_def list_all_iff is_safe_name_def simp del: leaves.simps)
qed

theorem recursive_listing_correct_witness:
  "\<exists>fs. get_recursive_files id False (Some (Folder 0 [([98], False, Leaf 7 4), ([97], False, Folder 2 [([99], True, Leaf 9 3)])])) = Some fs \<and>
    map fe_name fs = [[97, 47], [98]] \<and> download_names_safe fs"
proof -
  let ?t = "Folder 0 [([98], False, Leaf 7 4), ([97], False, Folder 2 [([99], True, Leaf 9 3)])]"
  have d2: "dir_entries id False [([99], True, Leaf 9 3)] = []" by (simp add: dir_entries_def)
  have d: "dir_entries id False [([98], False, Leaf 7 4), ([97], False, Folder 2 [([99], True, Leaf 9 3)])] =
      [(dir_entry [97] False (Folder 2 [([99], True, Leaf 9 3)]), Folder 2 [([99], True, Leaf 9 3)]), (dir_entry [98] False (Leaf 7 4), Leaf 7 4)]"
    by (simp add: dir_entries_def dir_key_def)
  have "get_recursive_files id False (Some ?t) = Some [empty_dir_marker [97], (dir_entry [98] False (Leaf 7 4))\<lparr>fe_name := [98]\<rparr>]"
    unfolding get_recursive_files_def option.case tree.case read_dir_recursive_inner.simps d
    by (simp add: d2 entry_files_def Let_def rel_join_def)
  moreover have "tree_ok ?t"
    by (auto simp: tree_ok_Folder file_name_ok_def is_scalar_def is_sep_def intro: tree_ok.intros)
  ultimately show ?thesis
    using recursive_listing_correct[of id False 0 "[([98], False, Leaf 7 4), ([97], False, Folder 2 [([99], True, Leaf 9 3)])]"]
    by (simp add: empty_dir_marker_def slashes_def)
qed

definition visible :: "bool \<Rightarrow> (rstr \<times> bool \<times> tree) list \<Rightarrow> (rstr \<times> bool \<times> tree) list" where
  "visible include_hidden ns = filter (\<lambda>(name, hidden, t). include_hidden \<or> \<not> hidden) ns"

text \<open>A directory listing is ordered, folders first and then by lower-case name, holds every visible entry, and keeps the
  system's order where the names differ in case alone.\<close>

theorem directory_listing_sorted:
  "read_dir_to_proto lower ih (Folder m ns) = Some (map fst (dir_entries lower ih ns)) \<and>
   sorted (map (dir_key lower) (map fst (dir_entries lower ih ns))) \<and>
   mset (map fst (dir_entries lower ih ns)) = mset (map (\<lambda>(name, hidden, t). dir_entry name hidden t) (visible ih ns)) \<and>
   filter (\<lambda>x. dir_key lower (fst x) = k) (dir_entries lower ih ns) =
     filter (\<lambda>x. dir_key lower (fst x) = k)
       (map (\<lambda>(name, hidden, t). (dir_entry name hidden t, t)) (visible ih ns))"
  unfolding visible_def
proof (intro conjI)
  show "sorted (map (dir_key lower) (map fst (dir_entries lower ih ns)))"
    using sorted_sort_key[of "dir_key lower \<circ> fst"] by (simp add: dir_entries_def)
  show "filter (\<lambda>x. dir_key lower (fst x) = k) (dir_entries lower ih ns) =
     filter (\<lambda>x. dir_key lower (fst x) = k)
       (map (\<lambda>(name, hidden, t). (dir_entry name hidden t, t)) (filter (\<lambda>(name, hidden, t). ih \<or> \<not> hidden) ns))"
    using sort_key_stable[of "dir_key lower \<circ> fst" k] by (simp add: dir_entries_def)
  have "mset (map fst (dir_entries lower ih ns)) = mset (map fst (map (\<lambda>(name, hidden, t). (dir_entry name hidden t, t))
      (filter (\<lambda>(name, hidden, t). ih \<or> \<not> hidden) ns)))"
    unfolding mset_map by (simp add: dir_entries_def)
  also have "map fst (map (\<lambda>(name, hidden, t). (dir_entry name hidden t, t)) (filter (\<lambda>(name, hidden, t). ih \<or> \<not> hidden) ns)) =
      map (\<lambda>(name, hidden, t). dir_entry name hidden t) (filter (\<lambda>(name, hidden, t). ih \<or> \<not> hidden) ns)"
    by auto
  finally show "mset (map fst (dir_entries lower ih ns)) =
      mset (map (\<lambda>(name, hidden, t). dir_entry name hidden t) (filter (\<lambda>(name, hidden, t). ih \<or> \<not> hidden) ns))" .
qed (simp add: read_dir_to_proto_def)

text \<open>The frame that wraps pixels for a zstd decoder is one: magic number, content size, raw blocks of at most 128 KiB with the
  last one marked; reading it gives the data back.\<close>

theorem zstd_frame_reads_back:
  assumes "length data < 2 ^ 32"
  shows "read_raw_frame (zstd_wrap_raw data) = Some data"
  by (rule read_zstd_wrap_raw[OF assms])

theorem zstd_frame_reads_back_witness: "read_raw_frame (zstd_wrap_raw (replicate 200000 7)) = Some (replicate 200000 7)"
  by (rule zstd_frame_reads_back) simp

end
