(* ===== verification/File_Server.thy ===== *)
theory File_Server
  imports File_Transfer "HOL-Library.AList"
begin

text \<open>
  The file transfer of the server in \<open>src/src/server.rs\<close>: \<open>handle_file_action\<close>, \<open>handle_file_response_server\<close>,
  \<open>send_pending_blocks\<close> and the loop around them. Files are a disk; folders, the rules of paths, faults and
  the iteration order of the hash maps come from \<open>fs_world\<close>. Ids and file numbers are 32-bit words, and the keys of the job
  tables are computed as the code does, wrapping. Modification times and logging are left out.
\<close>

section \<open>Messages and state\<close>

type_synonym i32 = "32 word"

datatype confirm_choice = Skip bool | OffsetBlk u32 | NoChoice

datatype file_action =
    ReadDir rstr bool
  | Receive i32 rstr "file_entry list"
  | Send i32 rstr i32 bool
  | SendConfirm i32 i32 confirm_choice
  | Create rstr
  | RemoveDir rstr bool
  | RemoveFile rstr
  | Cancel i32
  | Rename rstr rstr
  | OtherAction

datatype file_response =
    RBlock i32 i32 bytes bool u32
  | RDigest i32 i32 nat bool
  | RDone i32 i32
  | RError i32 i32 rstr
  | RDir i32 rstr "file_entry list"
  | OtherResponse

datatype fs_msg = Response file_response | Confirm i32 i32 u32 | KeepAliveMsg | SessionClose

record send_job =
  sj_path :: rstr
  sj_file_size :: nat
  sj_offset :: nat
  sj_done :: bool
  sj_confirmed :: bool
  sj_id :: i32
  sj_file_num :: i32
  sj_blk_id :: u32

record write_job =
  wj_path :: rstr
  wj_offset :: nat
  wj_id :: i32
  wj_file_num :: i32
  wj_done :: bool

datatype dir_call = CreateDirs rstr | RemoveDirs rstr bool

record fs_world =
  w_up :: bool
  w_join :: "rstr \<Rightarrow> rstr \<Rightarrow> rstr"
  w_parent :: "rstr \<Rightarrow> rstr option"
  w_tree :: "rstr \<Rightarrow> tree option"
  w_lower :: "rstr \<Rightarrow> rstr"
  w_drives :: "file_entry list"
  w_home :: rstr
  w_below :: "rstr \<Rightarrow> rstr \<Rightarrow> bool"
  w_refuses :: "rstr \<Rightarrow> bool"
  w_read_fault :: "rstr \<Rightarrow> io_fault"
  w_write_fault :: "rstr \<Rightarrow> io_fault"
  w_error :: rstr
  w_zstd :: "bytes \<Rightarrow> bytes option"
  w_order :: "i32 list \<Rightarrow> i32 list"

record fs_server =
  fs_disk :: disk
  fs_send :: "(i32 \<times> send_job) list"
  fs_write :: "(i32 \<times> write_job) list"
  fs_hidden :: bool
  fs_sent :: "fs_msg list"
  fs_dirs :: "dir_call list"
  fs_timeouts :: nat
  fs_dir_sent :: bool
  fs_keepalive :: nat
  fs_cm_check :: nat

text \<open>\<open>Inl\<close> is an early return with an error: a message that could not be sent.\<close>

type_synonym fs_result = "fs_server + fs_server"

definition and_then :: "fs_result \<Rightarrow> (fs_server \<Rightarrow> fs_result) \<Rightarrow> fs_result" where
  "and_then r f = (case r of Inl s \<Rightarrow> Inl s | Inr s \<Rightarrow> f s)"

definition fs_say :: "fs_world \<Rightarrow> fs_msg \<Rightarrow> fs_server \<Rightarrow> fs_result" where
  "fs_say w m s = (if w_up w then Inr (s\<lparr>fs_sent := fs_sent s @ [m]\<rparr>) else Inl s)"

definition reply :: "fs_world \<Rightarrow> file_response \<Rightarrow> fs_server \<Rightarrow> fs_result" where
  "reply w r = fs_say w (Response r)"

definition transfer_key :: "i32 \<Rightarrow> i32 \<Rightarrow> i32" where
  "transfer_key i file_num = i * 1000 + file_num"

section \<open>Actions of the viewer\<close>

definition get_drives :: "fs_world \<Rightarrow> i32 \<Rightarrow> file_response" where
  "get_drives w i = RDir i [47] (w_drives w)"

definition list_dir :: "fs_world \<Rightarrow> bool \<Rightarrow> rstr \<Rightarrow> file_entry list option" where
  "list_dir w hidden path =
     (case w_tree w path of None \<Rightarrow> None | Some t \<Rightarrow> read_dir_to_proto (w_lower w) hidden t)"

definition read_dir_action :: "fs_world \<Rightarrow> rstr \<Rightarrow> bool \<Rightarrow> fs_server \<Rightarrow> fs_result" where
  "read_dir_action w path hidden s =
     (let s = s\<lparr>fs_hidden := hidden\<rparr>
      in reply w (if path = [] then get_drives w 0
                  else RDir 0 path (case list_dir w hidden path of None \<Rightarrow> [] | Some es \<Rightarrow> es)) s)"

definition new_write_job :: "i32 \<Rightarrow> i32 \<Rightarrow> rstr \<Rightarrow> write_job" where
  "new_write_job i file_num path = \<lparr>wj_path = path, wj_offset = 0, wj_id = i, wj_file_num = file_num, wj_done = False\<rparr>"

definition put_write_job :: "i32 \<Rightarrow> i32 \<Rightarrow> rstr \<Rightarrow> fs_server \<Rightarrow> fs_server" where
  "put_write_job i file_num path s =
     s\<lparr>fs_write := AList.update (transfer_key i file_num) (new_write_job i file_num path) (fs_write s)\<rparr>"

fun receive_files :: "fs_world \<Rightarrow> i32 \<Rightarrow> rstr \<Rightarrow> nat \<Rightarrow> file_entry list \<Rightarrow> fs_server \<Rightarrow> fs_server" where
  "receive_files w i dest n [] s = s"
| "receive_files w i dest n (fe # fes) s =
     receive_files w i dest (n + 1) fes
       (let path = w_join w dest (fe_name fe)
        in if fe_name fe \<noteq> [] \<and> last (fe_name fe) = 47 then s\<lparr>fs_dirs := fs_dirs s @ [CreateDirs path]\<rparr>
           else put_write_job i (word_of_nat n) path s)"

text \<open>The parent of the destination is made where it is missing.\<close>

definition receive_action :: "fs_world \<Rightarrow> i32 \<Rightarrow> rstr \<Rightarrow> file_entry list \<Rightarrow> fs_server \<Rightarrow> fs_server" where
  "receive_action w i dest files s =
     (let s = (case w_parent w dest of
                 None \<Rightarrow> s
               | Some parent \<Rightarrow>
                   if w_tree w parent = None \<and> fs_disk s parent = None then s\<lparr>fs_dirs := fs_dirs s @ [CreateDirs parent]\<rparr> else s);
          is_single_file = length files \<le> 1 \<and> (files = [] \<or> fe_name (hd files) = [])
      in if is_single_file then put_write_job i 0 dest s else receive_files w i dest 0 files s)"

definition new_send_job :: "i32 \<Rightarrow> i32 \<Rightarrow> rstr \<Rightarrow> nat \<Rightarrow> send_job" where
  "new_send_job i file_num path len =
     \<lparr>sj_path = path, sj_file_size = len, sj_offset = 0, sj_done = False, sj_confirmed = False, sj_id = i,
       sj_file_num = file_num, sj_blk_id = 0\<rparr>"

definition offer_file :: "fs_world \<Rightarrow> i32 \<Rightarrow> i32 \<Rightarrow> rstr \<Rightarrow> nat \<Rightarrow> fs_server \<Rightarrow> fs_result" where
  "offer_file w i file_num path len s =
     and_then (reply w (RDigest i file_num len False) s) (\<lambda>s.
       Inr (s\<lparr>fs_send := AList.update (transfer_key i file_num) (new_send_job i file_num path len) (fs_send s)\<rparr>))"

fun offer_files :: "fs_world \<Rightarrow> i32 \<Rightarrow> rstr \<Rightarrow> nat \<Rightarrow> file_entry list \<Rightarrow> fs_server \<Rightarrow> fs_result" where
  "offer_files w i dir n [] s = Inr s"
| "offer_files w i dir n (fe # fes) s =
     and_then
       (let path = w_join w dir (fe_name fe)
        in case fs_disk s path of
             None \<Rightarrow> Inr s
           | Some content \<Rightarrow> offer_file w i (word_of_nat n) path (length content) s)
       (offer_files w i dir (n + 1) fes)"

definition is_dir :: "fs_world \<Rightarrow> rstr \<Rightarrow> bool" where
  "is_dir w path = (case w_tree w path of None \<Rightarrow> False | Some (Leaf _ _) \<Rightarrow> False | _ \<Rightarrow> True)"

definition send_action :: "fs_world \<Rightarrow> i32 \<Rightarrow> rstr \<Rightarrow> i32 \<Rightarrow> bool \<Rightarrow> fs_server \<Rightarrow> fs_result" where
  "send_action w i path file_num hidden s =
     (case fs_disk s path of
        Some content \<Rightarrow>
          and_then
            (reply w (RDir i path
               [\<lparr>fe_type = File, fe_name = [], fe_is_hidden = False, fe_size = length content, fe_modified_time = 0\<rparr>]) s)
            (offer_file w i file_num path (length content))
      | None \<Rightarrow>
          if is_dir w path then
            (let files = (case get_recursive_files (w_lower w) hidden (w_tree w path) of None \<Rightarrow> [] | Some fs \<Rightarrow> fs)
             in and_then (reply w (RDir i path files) s) (offer_files w i path 0 files))
          else reply w (RError i file_num (str ''Not exists'')) s)"

definition confirm_action :: "fs_world \<Rightarrow> i32 \<Rightarrow> i32 \<Rightarrow> confirm_choice \<Rightarrow> fs_server \<Rightarrow> fs_result" where
  "confirm_action w i file_num choice s =
     (let k = transfer_key i file_num in
      case map_of (fs_send s) k of
        None \<Rightarrow> Inr s
      | Some job \<Rightarrow>
          (let job = job\<lparr>sj_confirmed := True\<rparr>;
               put = (\<lambda>job. s\<lparr>fs_send := AList.update k job (fs_send s)\<rparr>)
           in case choice of
                Skip True \<Rightarrow> reply w (RDone (sj_id job) (sj_file_num job)) (put (job\<lparr>sj_done := True\<rparr>))
              | OffsetBlk b \<Rightarrow> Inr (put (job\<lparr>sj_offset := unat b * 128 * 1024, sj_blk_id := b\<rparr>))
              | _ \<Rightarrow> Inr (put job)))"

definition send_parent_refresh :: "fs_world \<Rightarrow> rstr \<Rightarrow> fs_server \<Rightarrow> fs_result" where
  "send_parent_refresh w path s =
     (let parent = (case w_parent w path of None \<Rightarrow> [] | Some p \<Rightarrow> p)
      in if parent = [] then reply w (get_drives w 0) s
         else case list_dir w (fs_hidden s) parent of
           None \<Rightarrow> Inr s
         | Some es \<Rightarrow> reply w (RDir 0 parent es) s)"

definition remove_dir_action :: "fs_world \<Rightarrow> rstr \<Rightarrow> bool \<Rightarrow> fs_server \<Rightarrow> fs_result" where
  "remove_dir_action w path recursive s =
     (if w_refuses w path then Inr s
      else send_parent_refresh w path
        (s\<lparr>fs_dirs := fs_dirs s @ [RemoveDirs path recursive],
           fs_disk := (\<lambda>p. if recursive \<and> w_below w path p then None else fs_disk s p)\<rparr>))"

definition remove_file_action :: "fs_world \<Rightarrow> rstr \<Rightarrow> fs_server \<Rightarrow> fs_result" where
  "remove_file_action w path s =
     (if fs_disk s path = None \<or> w_refuses w path then Inr s
      else send_parent_refresh w path (s\<lparr>fs_disk := (fs_disk s)(path := None)\<rparr>))"

text \<open>What is at a path and below it moves to another; \<open>strip_base\<close> gives the rest of a path that is the base or lies below it.\<close>

definition strip_base :: "rstr \<Rightarrow> rstr \<Rightarrow> rstr option" where
  "strip_base base p =
     (let rest = drop (length base) p
      in if take (length base) p = base \<and> (rest = [] \<or> is_sep (hd rest)) then Some rest else None)"

definition move_files :: "rstr \<Rightarrow> rstr \<Rightarrow> disk \<Rightarrow> disk" where
  "move_files src dest d =
     (\<lambda>p. case strip_base dest p of
        Some rest \<Rightarrow> d (src @ rest)
      | None \<Rightarrow> if strip_base src p \<noteq> None then None else d p)"

definition rename_action :: "fs_world \<Rightarrow> rstr \<Rightarrow> rstr \<Rightarrow> fs_server \<Rightarrow> fs_server" where
  "rename_action w path new_name s =
     (case w_parent w path of
        None \<Rightarrow> s
      | Some parent \<Rightarrow>
          if fs_disk s path = None \<and> w_tree w path = None \<or> w_refuses w path then s
          else s\<lparr>fs_disk := move_files path (w_join w parent new_name) (fs_disk s)\<rparr>)"

definition handle_file_action :: "fs_world \<Rightarrow> file_action \<Rightarrow> fs_server \<Rightarrow> fs_result" where
  "handle_file_action w a s =
     (case a of
        ReadDir path hidden \<Rightarrow> read_dir_action w path hidden s
      | Receive i dest files \<Rightarrow> Inr (receive_action w i dest files s)
      | Send i path file_num hidden \<Rightarrow> send_action w i path file_num hidden s
      | SendConfirm i file_num choice \<Rightarrow> confirm_action w i file_num choice s
      | Create path \<Rightarrow> Inr (s\<lparr>fs_dirs := fs_dirs s @ [CreateDirs path]\<rparr>)
      | RemoveDir path recursive \<Rightarrow> remove_dir_action w path recursive s
      | RemoveFile path \<Rightarrow> remove_file_action w path s
      | Cancel i \<Rightarrow> Inr (s\<lparr>fs_send := filter (\<lambda>(k, job). sj_id job \<noteq> i) (fs_send s)\<rparr>)
      | Rename path new_name \<Rightarrow> Inr (rename_action w path new_name s)
      | OtherAction \<Rightarrow> Inr s)"

section \<open>What the viewer uploads\<close>

definition send_upload_overwrite_decision :: "fs_world \<Rightarrow> i32 \<Rightarrow> i32 \<Rightarrow> rstr \<Rightarrow> nat \<Rightarrow> fs_server \<Rightarrow> fs_result" where
  "send_upload_overwrite_decision w i file_num path len s =
     (if fs_disk s path \<noteq> None then reply w (RDigest i file_num len True) s else fs_say w (Confirm i file_num 0) s)"

definition upload_block :: "fs_world \<Rightarrow> i32 \<Rightarrow> i32 \<Rightarrow> bytes \<Rightarrow> bool \<Rightarrow> fs_server \<Rightarrow> fs_result" where
  "upload_block w i file_num data compressed s =
     (let k = transfer_key i file_num in
      case map_of (fs_write s) k of
        None \<Rightarrow> Inr s
      | Some job \<Rightarrow>
          if wj_done job then Inr s
          else
            let decoded = (if compressed then zstd_decompress (w_zstd w) data else data);
                (ok, d) = write_file_block (w_write_fault w (wj_path job)) (wj_path job) decoded (wj_offset job) (fs_disk s);
                s = s\<lparr>fs_disk := d\<rparr>;
                put = (\<lambda>job. s\<lparr>fs_write := AList.update k job (fs_write s)\<rparr>)
            in if ok then Inr (put (job\<lparr>wj_offset := wj_offset job + length decoded\<rparr>))
               else reply w (RError i file_num (w_error w)) (put (job\<lparr>wj_done := True\<rparr>)))"

definition upload_done :: "fs_world \<Rightarrow> i32 \<Rightarrow> i32 \<Rightarrow> fs_server \<Rightarrow> fs_result" where
  "upload_done w i file_num s =
     (let k = transfer_key i file_num;
          open_job = (\<lambda>k. case map_of (fs_write s) k of None \<Rightarrow> False | Some j \<Rightarrow> wj_id j = i \<and> \<not> wj_done j);
          resolved = (if map_of (fs_write s) k \<noteq> None then Some k else find open_job (w_order w (map fst (fs_write s))))
      in case resolved of
           None \<Rightarrow> Inr s
         | Some k \<Rightarrow>
             (case map_of (fs_write s) k of
                None \<Rightarrow> Inr s
              | Some job \<Rightarrow>
                  reply w (RDone (wj_id job) (wj_file_num job))
                    (s\<lparr>fs_write := AList.update k (job\<lparr>wj_done := True\<rparr>) (fs_write s)\<rparr>)))"

definition handle_file_response_server :: "fs_world \<Rightarrow> file_response \<Rightarrow> fs_server \<Rightarrow> fs_result" where
  "handle_file_response_server w r s =
     (case r of
        RBlock i file_num data compressed blk_id \<Rightarrow> upload_block w i file_num data compressed s
      | RDigest i file_num len is_upload \<Rightarrow>
          (case map_of (fs_write s) (transfer_key i file_num) of
             None \<Rightarrow> Inr s
           | Some job \<Rightarrow> send_upload_overwrite_decision w i file_num (wj_path job) len s)
      | RDone i file_num \<Rightarrow> upload_done w i file_num s
      | _ \<Rightarrow> Inr s)"

section \<open>What the viewer downloads\<close>

text \<open>One job in one round: at most one message, and the job after it.\<close>

definition pending_job :: "fs_world \<Rightarrow> disk \<Rightarrow> send_job \<Rightarrow> file_response option \<times> send_job" where
  "pending_job w d job =
     (if sj_done job \<or> \<not> sj_confirmed job then (None, job)
      else if sj_offset job \<ge> sj_file_size job then (Some (RDone (sj_id job) (sj_file_num job)), job\<lparr>sj_done := True\<rparr>)
      else case read_file_block (w_read_fault w (sj_path job)) d (sj_path job) (sj_offset job) of
        Some data \<Rightarrow>
          (Some (RBlock (sj_id job) (sj_file_num job) data False (sj_blk_id job)),
           job\<lparr>sj_offset := sj_offset job + length data, sj_blk_id := sj_blk_id job + 1\<rparr>)
      | None \<Rightarrow> (Some (RError (sj_id job) (sj_file_num job) (w_error w)), job\<lparr>sj_done := True\<rparr>))"

fun pending_keys :: "fs_world \<Rightarrow> i32 list \<Rightarrow> fs_server \<Rightarrow> fs_result" where
  "pending_keys w [] s = Inr s"
| "pending_keys w (k # ks) s =
     (case map_of (fs_send s) k of
        None \<Rightarrow> pending_keys w ks s
      | Some job \<Rightarrow>
          (let (out, job) = pending_job w (fs_disk s) job;
               put = (\<lambda>s. s\<lparr>fs_send := AList.update k job (fs_send s)\<rparr>)
           in case out of
                None \<Rightarrow> pending_keys w ks s
              | Some r \<Rightarrow> and_then (reply w r s) (\<lambda>s. pending_keys w ks (put s))))"

definition send_pending_blocks :: "fs_world \<Rightarrow> fs_server \<Rightarrow> fs_result" where
  "send_pending_blocks w s =
     and_then (pending_keys w (w_order w (map fst (fs_send s))) s) (\<lambda>s.
       Inr (s\<lparr>fs_send := filter (\<lambda>(k, job). \<not> sj_done job) (fs_send s)\<rparr>))"

section \<open>The loop\<close>

datatype fs_recv = FsTimedOut | FsBroken | FsUndecodable | FsAction file_action | FsResponse file_response | FsCloseReason | FsOther

record fs_turn =
  ft_world :: fs_world
  ft_now :: nat
  ft_stop :: bool
  ft_disconnect :: bool
  ft_recv :: fs_recv
  ft_others :: "disk \<Rightarrow> disk"

datatype fs_state = FsRunning fs_server | FsEnded fs_server | FsFailed fs_server

definition fs_continue :: "fs_world \<Rightarrow> fs_result \<Rightarrow> fs_state" where
  "fs_continue w r = (case and_then r (send_pending_blocks w) of Inl s \<Rightarrow> FsFailed s | Inr s \<Rightarrow> FsRunning s)"

text \<open>\<open>let _ = stream.send_msg(..)\<close>.\<close>

definition fs_try_say :: "fs_world \<Rightarrow> fs_msg \<Rightarrow> fs_server \<Rightarrow> fs_server" where
  "fs_try_say w m s = (case fs_say w m s of Inl s \<Rightarrow> s | Inr s \<Rightarrow> s)"

definition initial_dir :: "fs_world \<Rightarrow> file_response" where
  "initial_dir w =
     (if w_home w \<noteq> [] \<and> is_dir w (w_home w) then
        (case list_dir w False (w_home w) of None \<Rightarrow> get_drives w 0 | Some es \<Rightarrow> RDir 0 (w_home w) es)
      else get_drives w 0)"

definition fs_timeout :: "fs_world \<Rightarrow> fs_server \<Rightarrow> fs_server" where
  "fs_timeout w s =
     (let s = s\<lparr>fs_timeouts := fs_timeouts s + 1\<rparr>
      in if \<not> fs_dir_sent s \<and> fs_timeouts s \<ge> 5
         then fs_try_say w (Response (initial_dir w)) (s\<lparr>fs_dir_sent := True\<rparr>) else s)"

definition fs_receive :: "fs_world \<Rightarrow> fs_recv \<Rightarrow> fs_server \<Rightarrow> fs_state" where
  "fs_receive w r s =
     (case r of
        FsTimedOut \<Rightarrow> fs_continue w (Inr (fs_timeout w s))
      | FsBroken \<Rightarrow> FsEnded s
      | FsCloseReason \<Rightarrow> FsEnded s
      | FsAction a \<Rightarrow> fs_continue w (handle_file_action w a s)
      | FsResponse x \<Rightarrow> fs_continue w (handle_file_response_server w x s)
      | _ \<Rightarrow> fs_continue w (Inr s))"

definition fs_step :: "fs_turn \<Rightarrow> fs_state \<Rightarrow> fs_state" where
  "fs_step t st =
     (case st of
        FsRunning s \<Rightarrow>
          (let w = ft_world t; s = s\<lparr>fs_disk := ft_others t (fs_disk s)\<rparr> in
           if ft_stop t then FsEnded s
           else
             let check = ft_now t - fs_cm_check s \<ge> 500;
                 s = (if check then s\<lparr>fs_cm_check := ft_now t\<rparr> else s)
             in if check \<and> ft_disconnect t then FsEnded (fs_try_say w SessionClose s)
                else if ft_now t - fs_keepalive s \<ge> 3000 then
                  (case fs_say w KeepAliveMsg (s\<lparr>fs_keepalive := ft_now t\<rparr>) of
                     Inl s \<Rightarrow> FsEnded s
                   | Inr s \<Rightarrow> fs_receive w (ft_recv t) s)
                else fs_receive w (ft_recv t) s)
      | _ \<Rightarrow> st)"

definition run_file_transfer_loop :: "fs_turn list \<Rightarrow> fs_server \<Rightarrow> fs_state" where
  "run_file_transfer_loop turns s = fold fs_step turns (FsRunning s)"

section \<open>One round over all jobs\<close>

definition keys_ok :: "fs_server \<Rightarrow> bool" where
  "keys_ok s \<longleftrightarrow>
     distinct (map fst (fs_send s)) \<and> distinct (map fst (fs_write s)) \<and>
     (\<forall>k j. map_of (fs_send s) k = Some j \<longrightarrow> k = transfer_key (sj_id j) (sj_file_num j)) \<and>
     (\<forall>k j. map_of (fs_write s) k = Some j \<longrightarrow> k = transfer_key (wj_id j) (wj_file_num j))"

text \<open>The messages about one file.\<close>

definition about :: "i32 \<Rightarrow> i32 \<Rightarrow> fs_msg \<Rightarrow> bool" where
  "about i f m =
     (case m of
        Response (RBlock i' f' _ _ _) \<Rightarrow> i' = i \<and> f' = f
      | Response (RDone i' f') \<Rightarrow> i' = i \<and> f' = f
      | Response (RError i' f' _) \<Rightarrow> i' = i \<and> f' = f
      | _ \<Rightarrow> False)"

definition job_msgs :: "fs_world \<Rightarrow> disk \<Rightarrow> send_job \<Rightarrow> fs_msg list" where
  "job_msgs w d j = (case fst (pending_job w d j) of None \<Rightarrow> [] | Some r \<Rightarrow> [Response r])"

definition keeps_order :: "fs_world \<Rightarrow> bool" where
  "keeps_order w \<longleftrightarrow> (\<forall>ks. distinct ks \<longrightarrow> distinct (w_order w ks) \<and> set (w_order w ks) = set ks)"

lemma pending_job_ids [simp]:
  "sj_id (snd (pending_job w d j)) = sj_id j" "sj_file_num (snd (pending_job w d j)) = sj_file_num j"
  "sj_path (snd (pending_job w d j)) = sj_path j" "sj_file_size (snd (pending_job w d j)) = sj_file_size j"
  by (simp_all add: pending_job_def split: option.split)

lemma pending_job_none: "fst (pending_job w d j) = None \<Longrightarrow> snd (pending_job w d j) = j"
  by (auto simp: pending_job_def split: option.splits if_splits)

lemma job_msgs_about: "filter (about i f) (job_msgs w d j) = (if sj_id j = i \<and> sj_file_num j = f then job_msgs w d j else [])"
  by (auto simp: job_msgs_def about_def pending_job_def split: option.split)

definition table_msgs :: "fs_world \<Rightarrow> fs_server \<Rightarrow> i32 \<Rightarrow> fs_msg list" where
  "table_msgs w s k = (case map_of (fs_send s) k of None \<Rightarrow> [] | Some j \<Rightarrow> job_msgs w (fs_disk s) j)"

definition table_step :: "fs_world \<Rightarrow> fs_server \<Rightarrow> i32 \<Rightarrow> send_job option" where
  "table_step w s k = map_option (\<lambda>j. snd (pending_job w (fs_disk s) j)) (map_of (fs_send s) k)"

lemma pending_keys_run:
  assumes "w_up w" "distinct ks"
  shows "\<exists>s'. pending_keys w ks s = Inr s' \<and> fs_disk s' = fs_disk s \<and> fs_write s' = fs_write s \<and>
    (\<forall>k. map_of (fs_send s') k = (if k \<in> set ks then table_step w s k else map_of (fs_send s) k)) \<and>
    (distinct (map fst (fs_send s)) \<longrightarrow> distinct (map fst (fs_send s'))) \<and>
    fs_sent s' = fs_sent s @ concat (map (table_msgs w s) ks)"
  using assms(2)
proof (induction ks arbitrary: s)
  case (Cons k ks)
  then have k: "k \<notin> set ks" by simp
  show ?case
  proof (cases "map_of (fs_send s) k")
    case None
    then show ?thesis using Cons.IH[of s] Cons.prems by (auto simp: table_step_def table_msgs_def)
  next
    case (Some j)
    obtain out j' where p: "pending_job w (fs_disk s) j = (out, j')" by fastforce
    show ?thesis
    proof (cases out)
      case None
      then have "j' = j" using pending_job_none[of w "fs_disk s" j] p by simp
      then show ?thesis
        using Cons.IH[of s] Cons.prems Some p None by (auto simp: job_msgs_def table_step_def table_msgs_def)
    next
      case r: (Some r)
      define s1 where "s1 = s\<lparr>fs_sent := fs_sent s @ [Response r], fs_send := AList.update k j' (fs_send s)\<rparr>"
      have step: "pending_keys w (k # ks) s = pending_keys w ks s1"
        using Some p r assms(1) by (simp add: and_then_def reply_def fs_say_def s1_def)
      have other: "map_of (fs_send s1) k' = map_of (fs_send s) k'" if "k' \<noteq> k" for k'
        using that by (simp add: s1_def update_conv')
      have disk: "fs_disk s1 = fs_disk s" and fields: "fs_write s1 = fs_write s" "fs_sent s1 = fs_sent s @ [Response r]"
        by (simp_all add: s1_def)
      have ne: "k' \<noteq> k" if "k' \<in> set ks" for k' using that k by blast
      have same: "map (table_msgs w s1) ks = map (table_msgs w s) ks" "\<And>k'. k' \<in> set ks \<Longrightarrow> table_step w s1 k' = table_step w s k'"
        unfolding table_msgs_def table_step_def disk using other[OF ne] by simp_all
      have here: "table_step w s k = Some j'" "table_msgs w s k = [Response r]" "map_of (fs_send s1) k = Some j'"
        using Some p r by (simp_all add: table_step_def table_msgs_def job_msgs_def s1_def update_conv')
      have d: "distinct (map fst (fs_send s)) \<longrightarrow> distinct (map fst (fs_send s1))" by (simp add: s1_def distinct_update)
      obtain s' where s': "pending_keys w ks s1 = Inr s'" "fs_disk s' = fs_disk s" "fs_write s' = fs_write s"
          "distinct (map fst (fs_send s1)) \<longrightarrow> distinct (map fst (fs_send s'))"
          "fs_sent s' = fs_sent s @ Response r # concat (map (table_msgs w s) ks)"
          and m: "\<And>k'. map_of (fs_send s') k' = (if k' \<in> set ks then table_step w s1 k' else map_of (fs_send s1) k')"
        using Cons.IH[of s1, unfolded same(1) disk] Cons.prems by (auto simp: fields)
      have "map_of (fs_send s') k' = (if k' \<in> set (k # ks) then table_step w s k' else map_of (fs_send s) k')" for k'
        using m[of k'] k same(2)[of k'] here other[of k'] by (cases "k' = k") auto
      then show ?thesis unfolding step using s' d here(2) by simp
    qed
  qed
qed simp

lemma map_of_filter_value:
  "distinct (map fst xs) \<Longrightarrow>
    map_of (filter (\<lambda>(k, j). P j) xs) k = (case map_of xs k of None \<Rightarrow> None | Some j \<Rightarrow> if P j then Some j else None)"
proof (induction xs)
  case (Cons x xs)
  then have "fst x = k \<Longrightarrow> map_of xs k = None" by (auto simp: map_of_eq_None_iff)
  then show ?case using Cons by (cases x) auto
qed simp

lemma distinct_filter_fst: "distinct (map fst xs) \<Longrightarrow> distinct (map fst (filter P xs))"
  by (induction xs) auto

lemma filter_concat_one:
  assumes "distinct ks" "\<And>k'. k' \<in> set ks \<Longrightarrow> k' \<noteq> k \<Longrightarrow> filter P (g k') = []"
  shows "filter P (concat (map g ks)) = (if k \<in> set ks then filter P (g k) else [])"
  using assms by (induction ks) auto

text \<open>What a round does to the jobs of the table and says about each.\<close>

lemma round_table:
  assumes "w_up w" "keeps_order w" "keys_ok s"
  shows "\<exists>s' ms. send_pending_blocks w s = Inr s' \<and> fs_disk s' = fs_disk s \<and> fs_write s' = fs_write s \<and> keys_ok s' \<and>
    fs_sent s' = fs_sent s @ ms \<and> (\<forall>i f. filter (about i f) ms = filter (about i f) (table_msgs w s (transfer_key i f))) \<and>
    (\<forall>k. map_of (fs_send s') k = (case table_step w s k of None \<Rightarrow> None | Some j \<Rightarrow> if sj_done j then None else Some j))"
proof -
  define ks where "ks = w_order w (map fst (fs_send s))"
  have d: "distinct (map fst (fs_send s))" and own: "\<And>k j. map_of (fs_send s) k = Some j \<Longrightarrow> k = transfer_key (sj_id j) (sj_file_num j)"
    using assms(3) by (auto simp: keys_ok_def)
  then have ks: "distinct ks" "\<And>k. k \<notin> set ks \<Longrightarrow> map_of (fs_send s) k = None"
    using assms(2) by (auto simp: ks_def keeps_order_def map_of_eq_None_iff)
  from pending_keys_run[OF assms(1) ks(1), of s] obtain s1 where s1: "pending_keys w ks s = Inr s1" "fs_disk s1 = fs_disk s" "fs_write s1 = fs_write s"
      "distinct (map fst (fs_send s1))" "fs_sent s1 = fs_sent s @ concat (map (table_msgs w s) ks)"
      and m1: "\<And>k. map_of (fs_send s1) k = (if k \<in> set ks then table_step w s k else map_of (fs_send s) k)"
    using d by blast
  have t: "map_of (fs_send s1) k = table_step w s k" for k using m1[of k] ks(2)[of k] by (simp add: table_step_def)
  define s' where "s' = s1\<lparr>fs_send := filter (\<lambda>(k, job). \<not> sj_done job) (fs_send s1)\<rparr>"
  have m': "map_of (fs_send s') k = (case table_step w s k of None \<Rightarrow> None | Some j \<Rightarrow> if sj_done j then None else Some j)" for k
    using map_of_filter_value[OF s1(4), of "\<lambda>j. \<not> sj_done j" k] by (simp add: s'_def t split: option.split)
  have "k = transfer_key (sj_id j') (sj_file_num j')" if k: "map_of (fs_send s') k = Some j'" for k j'
    using k own[of k] by (auto simp: m' table_step_def split: option.splits if_splits)
  then have ok: "keys_ok s'" using assms(3) s1(3,4) by (simp add: keys_ok_def s'_def distinct_filter_fst)
  have none: "filter (about i f) (table_msgs w s k) = []" if "k \<noteq> transfer_key i f" for k i f
    using that own[of k] by (auto simp: table_msgs_def job_msgs_about split: option.split)
  have "filter (about i f) (concat (map (table_msgs w s) ks)) = filter (about i f) (table_msgs w s (transfer_key i f))" for i f
    using filter_concat_one[where k = "transfer_key i f" and P = "about i f" and g = "table_msgs w s", OF ks(1) none] ks(2)[of "transfer_key i f"] by (auto simp: table_msgs_def)
  moreover have "send_pending_blocks w s = Inr s'" using s1(1) by (simp add: send_pending_blocks_def and_then_def ks_def s'_def)
  ultimately show ?thesis using ok m' s1 by (auto simp: s'_def)
qed

section \<open>A download over its rounds\<close>

fun rounds :: "fs_world list \<Rightarrow> fs_server \<Rightarrow> fs_result" where
  "rounds [] s = Inr s"
| "rounds (w # ws) s = and_then (send_pending_blocks w s) (rounds ws)"

fun numbered :: "i32 \<Rightarrow> i32 \<Rightarrow> u32 \<Rightarrow> bytes list \<Rightarrow> fs_msg list" where
  "numbered i f n [] = []"
| "numbered i f n (b # bs) = Response (RBlock i f b False n) # numbered i f (n + 1) bs"

definition fs_world_ok :: "rstr \<Rightarrow> fs_world \<Rightarrow> bool" where
  "fs_world_ok path w \<longleftrightarrow> w_up w \<and> keeps_order w \<and> w_read_fault w path = NoFault"

definition job_at :: "i32 \<Rightarrow> i32 \<Rightarrow> rstr \<Rightarrow> nat \<Rightarrow> nat \<Rightarrow> u32 \<Rightarrow> send_job" where
  "job_at i f path len offset n =
     \<lparr>sj_path = path, sj_file_size = len, sj_offset = offset, sj_done = False, sj_confirmed = True, sj_id = i, sj_file_num = f, sj_blk_id = n\<rparr>"

definition rounds_end :: "fs_world list \<Rightarrow> fs_server \<Rightarrow> i32 \<Rightarrow> i32 \<Rightarrow> fs_msg list \<Rightarrow> send_job option \<Rightarrow> bool" where
  "rounds_end ws s i f ms j \<longleftrightarrow>
     (\<exists>s' new. rounds ws s = Inr s' \<and> fs_disk s' = fs_disk s \<and> fs_sent s' = fs_sent s @ new \<and> filter (about i f) new = ms \<and>
        map_of (fs_send s') (transfer_key i f) = j \<and> keys_ok s')"

lemma rounds_end_Nil: "keys_ok s \<Longrightarrow> rounds_end [] s i f [] (map_of (fs_send s) (transfer_key i f))"
  by (simp add: rounds_end_def)

lemma rounds_end_Cons:
  assumes "w_up w" "keeps_order w" "keys_ok s"
    and "\<And>s1. keys_ok s1 \<Longrightarrow> fs_disk s1 = fs_disk s \<Longrightarrow>
      map_of (fs_send s1) (transfer_key i f) =
        (case table_step w s (transfer_key i f) of None \<Rightarrow> None | Some j \<Rightarrow> if sj_done j then None else Some j) \<Longrightarrow>
      rounds_end ws s1 i f ms j"
  shows "rounds_end (w # ws) s i f (filter (about i f) (table_msgs w s (transfer_key i f)) @ ms) j"
proof -
  obtain s1 new where s1: "send_pending_blocks w s = Inr s1" "fs_disk s1 = fs_disk s" "keys_ok s1" "fs_sent s1 = fs_sent s @ new"
      "filter (about i f) new = filter (about i f) (table_msgs w s (transfer_key i f))"
      "map_of (fs_send s1) (transfer_key i f) = (case table_step w s (transfer_key i f) of None \<Rightarrow> None | Some j \<Rightarrow> if sj_done j then None else Some j)"
    using round_table[OF assms(1-3)] by metis
  show ?thesis using assms(4)[OF s1(3,2,6)] s1 by (auto simp: rounds_end_def and_then_def)
qed

lemma rounds_gone:
  assumes "\<forall>w\<in>set ws. w_up w \<and> keeps_order w" "keys_ok s" "map_of (fs_send s) (transfer_key i f) = None"
  shows "rounds_end ws s i f [] None"
  using assms
proof (induction ws arbitrary: s)
  case Nil
  then show ?case using rounds_end_Nil[of s i f] by simp
next
  case (Cons w ws)
  have e: "table_msgs w s (transfer_key i f) = []" "table_step w s (transfer_key i f) = None"
    using Cons.prems(3) by (simp_all add: table_msgs_def table_step_def)
  show ?case
    using rounds_end_Cons[of w s i f ws "[]" None] Cons.IH Cons.prems by (simp add: e)
qed

lemma read_blocks_from_step:
  "content \<noteq> [] \<Longrightarrow> read_blocks_from content = take BLOCK_SIZE content # read_blocks_from (drop BLOCK_SIZE content)"
  by (subst read_blocks_from.simps) (auto simp: Let_def BLOCK_SIZE_def)

lemma read_blocks_from_Nil: "read_blocks_from [] = []"
  by (simp add: read_blocks_from.simps)

text \<open>A confirmed job over its rounds: a block in each, then the end, then nothing.\<close>

definition download_msgs :: "i32 \<Rightarrow> i32 \<Rightarrow> u32 \<Rightarrow> bytes list \<Rightarrow> fs_msg list" where
  "download_msgs i f n bs = numbered i f n bs @ [Response (RDone i f)]"

lemma rounds_download:
  assumes "\<forall>w\<in>set ws. fs_world_ok path w" "keys_ok s" "fs_disk s path = Some content" "offset \<le> length content"
    and "map_of (fs_send s) (transfer_key i f) = Some (job_at i f path (length content) offset n)"
  shows "\<exists>j. rounds_end ws s i f (take (length ws) (download_msgs i f n (read_blocks_from (drop offset content)))) j \<and>
    (length (read_blocks_from (drop offset content)) < length ws \<longrightarrow> j = None)"
  using assms
proof (induction ws arbitrary: s offset n)
  case Nil
  then show ?case using rounds_end_Nil[of s i f] by auto
next
  case (Cons w ws)
  then have w: "w_up w" "keeps_order w" "w_read_fault w path = NoFault" by (auto simp: fs_world_ok_def)
  let ?k = "transfer_key i f" and ?j = "job_at i f path (length content) offset n"
  note rc = rounds_end_Cons[OF w(1,2) Cons.prems(2), of i f]
  show ?case
  proof (cases "offset = length content")
    case True
    then have e: "table_msgs w s ?k = [Response (RDone i f)]" "table_step w s ?k = Some (?j\<lparr>sj_done := True\<rparr>)"
      using Cons.prems(5) by (simp_all add: table_msgs_def table_step_def job_msgs_def pending_job_def job_at_def)
    have "rounds_end ws s1 i f [] None" if "keys_ok s1" "map_of (fs_send s1) ?k = None" for s1
      using rounds_gone[OF _ that] Cons.prems(1) by (auto simp: fs_world_ok_def)
    then have "rounds_end (w # ws) s i f [Response (RDone i f)] None"
      using rc[of ws "[]" None] by (simp add: e about_def)
    then show ?thesis using True by (auto simp: download_msgs_def read_blocks_from_Nil intro!: exI[of _ None])
  next
    case False
    then have lt: "offset < length content" using Cons.prems(4) by simp
    define data where "data = take BLOCK_SIZE (drop offset content)"
    have pj: "pending_job w (fs_disk s) ?j = (Some (RBlock i f data False n), job_at i f path (length content) (offset + length data) (n + 1))"
      using lt w(3) Cons.prems(3) by (simp add: pending_job_def job_at_def read_file_block_def data_def)
    then have e: "table_msgs w s ?k = [Response (RBlock i f data False n)]"
        "table_step w s ?k = Some (job_at i f path (length content) (offset + length data) (n + 1))"
      using Cons.prems(5) by (simp_all add: table_msgs_def table_step_def job_msgs_def)
    have nd: "\<not> sj_done (job_at i f path (length content) (offset + length data) (n + 1))" by (simp add: job_at_def)
    have rest: "drop (offset + length data) content = drop BLOCK_SIZE (drop offset content)"
      by (cases "BLOCK_SIZE \<le> length (drop offset content)") (simp_all add: data_def min_def add.commute)
    have blocks: "read_blocks_from (drop offset content) = data # read_blocks_from (drop (offset + length data) content)"
      using lt read_blocks_from_step[of "drop offset content"] by (simp add: data_def[symmetric] rest)
    have le: "offset + length data \<le> length content" using lt by (auto simp: data_def min_def)
    let ?ms = "take (length ws) (download_msgs i f (n + 1) (read_blocks_from (drop (offset + length data) content)))"
    let ?P = "\<lambda>j. length (read_blocks_from (drop (offset + length data) content)) < length ws \<longrightarrow> j = None"
    obtain s1 new where s1: "send_pending_blocks w s = Inr s1" "fs_disk s1 = fs_disk s" "keys_ok s1" "fs_sent s1 = fs_sent s @ new"
        "filter (about i f) new = filter (about i f) (table_msgs w s ?k)"
        "map_of (fs_send s1) ?k = (case table_step w s ?k of None \<Rightarrow> None | Some j \<Rightarrow> if sj_done j then None else Some j)"
      using round_table[OF w(1,2) Cons.prems(2)] by metis
    have "map_of (fs_send s1) ?k = Some (job_at i f path (length content) (offset + length data) (n + 1))"
      using s1(6) nd by (simp add: e)
    from Cons.IH[OF _ s1(3) _ le this] obtain j where "rounds_end ws s1 i f ?ms j" "?P j"
      using Cons.prems(1,3) s1(2) by auto
    then have "rounds_end (w # ws) s i f (Response (RBlock i f data False n) # ?ms) j"
      using s1(1,2,4,5) by (auto simp: rounds_end_def and_then_def e about_def)
    then show ?thesis using \<open>?P j\<close> by (auto simp: blocks download_msgs_def)
  qed
qed

section \<open>A file that shrinks\<close>

text \<open>When the file has become shorter than announced, every round sends an empty block and the job stays.\<close>

lemma rounds_stuck:
  assumes "\<forall>w\<in>set ws. fs_world_ok path w" "keys_ok s" "fs_disk s path = Some content" "length content \<le> offset" "offset < len"
    and "map_of (fs_send s) (transfer_key i f) = Some (job_at i f path len offset n)"
  shows "rounds_end ws s i f (numbered i f n (replicate (length ws) [])) (Some (job_at i f path len offset (n + word_of_nat (length ws))))"
  using assms
proof (induction ws arbitrary: s n)
  case Nil
  then show ?case using rounds_end_Nil[of s i f] by simp
next
  case (Cons w ws)
  then have w: "w_up w" "keeps_order w" "w_read_fault w path = NoFault" by (auto simp: fs_world_ok_def)
  let ?k = "transfer_key i f"
  have "pending_job w (fs_disk s) (job_at i f path len offset n) = (Some (RBlock i f [] False n), job_at i f path len offset (n + 1))"
    using Cons.prems w(3) by (simp add: pending_job_def job_at_def read_file_block_def)
  then have e: "table_msgs w s ?k = [Response (RBlock i f [] False n)]" "table_step w s ?k = Some (job_at i f path len offset (n + 1))"
    using Cons.prems(6) by (simp_all add: table_msgs_def table_step_def job_msgs_def)
  have nd: "\<not> sj_done (job_at i f path len offset (n + 1))" by (simp add: job_at_def)
  have "rounds_end (w # ws) s i f (filter (about i f) (table_msgs w s ?k) @ numbered i f (n + 1) (replicate (length ws) []))
      (Some (job_at i f path len offset (n + 1 + word_of_nat (length ws))))"
  proof (rule rounds_end_Cons[OF w(1,2) Cons.prems(2)])
    fix s1 assume "keys_ok s1" "fs_disk s1 = fs_disk s"
      "map_of (fs_send s1) ?k = (case table_step w s ?k of None \<Rightarrow> None | Some j \<Rightarrow> if sj_done j then None else Some j)"
    then show "rounds_end ws s1 i f (numbered i f (n + 1) (replicate (length ws) []))
        (Some (job_at i f path len offset (n + 1 + word_of_nat (length ws))))"
      using Cons.IH[of s1 "n + 1"] Cons.prems by (simp add: e nd)
  qed
  then show ?case by (simp add: e about_def add.assoc)
qed

section \<open>An upload over its blocks\<close>

fun upload_blocks :: "fs_world list \<Rightarrow> i32 \<Rightarrow> i32 \<Rightarrow> bytes list \<Rightarrow> fs_server \<Rightarrow> fs_result" where
  "upload_blocks (w # ws) i f (b # bs) s = and_then (upload_block w i f b False s) (upload_blocks ws i f bs)"
| "upload_blocks _ i f _ s = Inr s"

lemma upload_block_ok:
  assumes "map_of (fs_write s) (transfer_key i f) = Some j" "\<not> wj_done j" "w_write_fault w (wj_path j) = NoFault"
  shows "upload_block w i f b False s = Inr (s\<lparr>fs_disk := snd (write_file_block NoFault (wj_path j) b (wj_offset j) (fs_disk s)),
     fs_write := AList.update (transfer_key i f) (j\<lparr>wj_offset := wj_offset j + length b\<rparr>) (fs_write s)\<rparr>)"
proof -
  obtain ok d where w: "write_file_block NoFault (wj_path j) b (wj_offset j) (fs_disk s) = (ok, d)" by fastforce
  moreover have ok using w by (simp add: write_file_block_def Let_def split: if_splits)
  ultimately show ?thesis using assms by (simp add: upload_block_def)
qed

lemma same_offset: "\<exists>n. j = j\<lparr>wj_offset := n\<rparr>"
  by (rule exI[of _ "wj_offset j"]) simp

lemma upload_blocks_run:
  assumes "map_of (fs_write s) (transfer_key i f) = Some j" "\<not> wj_done j" "\<forall>w\<in>set ws. w_write_fault w (wj_path j) = NoFault" "length ws = length bs"
  shows "\<exists>s'. upload_blocks ws i f bs s = Inr s' \<and> (wj_offset (the (map_of (fs_write s') (transfer_key i f))), fs_disk s') =
      write_blocks (wj_path j) bs (wj_offset j, fs_disk s) \<and>
    (\<exists>n. map_of (fs_write s') (transfer_key i f) = Some (j\<lparr>wj_offset := n\<rparr>)) \<and>
    (\<forall>k. k \<noteq> transfer_key i f \<longrightarrow> map_of (fs_write s') k = map_of (fs_write s) k) \<and> fs_sent s' = fs_sent s"
  using assms
proof (induction ws i f bs s arbitrary: j rule: upload_blocks.induct)
  case (1 w ws i f b bs s)
  let ?j = "j\<lparr>wj_offset := wj_offset j + length b\<rparr>"
  define s1 where "s1 = s\<lparr>fs_disk := snd (write_file_block NoFault (wj_path j) b (wj_offset j) (fs_disk s)),
     fs_write := AList.update (transfer_key i f) ?j (fs_write s)\<rparr>"
  have u: "upload_block w i f b False s = Inr s1" using upload_block_ok[OF 1(2,3)] 1(4) by (simp add: s1_def)
  have m: "map_of (fs_write s1) k = (if k = transfer_key i f then Some ?j else map_of (fs_write s) k)" for k
    by (simp add: s1_def update_conv')
  have "fs_sent s1 = fs_sent s" "fs_disk s1 = snd (write_file_block NoFault (wj_path j) b (wj_offset j) (fs_disk s))" by (simp_all add: s1_def)
  then show ?case using 1(1)[of s1 ?j] 1(3-5) m u by (auto simp: and_then_def)
qed (auto simp: same_offset)

section \<open>The tables\<close>

definition result_keys_ok :: "fs_result \<Rightarrow> bool" where
  "result_keys_ok r = (case r of Inl s \<Rightarrow> keys_ok s | Inr s \<Rightarrow> keys_ok s)"

lemma and_then_keys: "result_keys_ok r \<Longrightarrow> (\<And>s. keys_ok s \<Longrightarrow> result_keys_ok (f s)) \<Longrightarrow> result_keys_ok (and_then r f)"
  by (cases r) (simp_all add: and_then_def result_keys_ok_def)

lemma keys_ok_fields [simp]:
  "keys_ok (s\<lparr>fs_sent := a\<rparr>) = keys_ok s" "keys_ok (s\<lparr>fs_dirs := b\<rparr>) = keys_ok s" "keys_ok (s\<lparr>fs_hidden := c\<rparr>) = keys_ok s"
  "keys_ok (s\<lparr>fs_disk := d\<rparr>) = keys_ok s" "keys_ok (s\<lparr>fs_timeouts := n\<rparr>) = keys_ok s" "keys_ok (s\<lparr>fs_dir_sent := c\<rparr>) = keys_ok s"
  "keys_ok (s\<lparr>fs_keepalive := n\<rparr>) = keys_ok s" "keys_ok (s\<lparr>fs_cm_check := n\<rparr>) = keys_ok s"
  by (simp_all add: keys_ok_def)

lemma say_keys: "keys_ok s \<Longrightarrow> result_keys_ok (fs_say w m s)" "keys_ok s \<Longrightarrow> result_keys_ok (reply w r s)"
  by (simp_all add: fs_say_def reply_def result_keys_ok_def)

lemma update_send_keys:
  "keys_ok s \<Longrightarrow> keys_ok (s\<lparr>fs_send := AList.update (transfer_key (sj_id j) (sj_file_num j)) j (fs_send s)\<rparr>)"
  by (simp add: keys_ok_def update_conv' distinct_update)

lemma update_write_keys:
  "keys_ok s \<Longrightarrow> keys_ok (s\<lparr>fs_write := AList.update (transfer_key (wj_id j) (wj_file_num j)) j (fs_write s)\<rparr>)"
  by (simp add: keys_ok_def update_conv' distinct_update)

lemma keep_send_keys:
  "keys_ok s \<Longrightarrow> map_of (fs_send s) k = Some j \<Longrightarrow> sj_id j' = sj_id j \<Longrightarrow> sj_file_num j' = sj_file_num j \<Longrightarrow>
     keys_ok (s\<lparr>fs_send := AList.update k j' (fs_send s)\<rparr>)"
  using update_send_keys[of s j'] by (simp add: keys_ok_def)

lemma keep_write_keys:
  "keys_ok s \<Longrightarrow> map_of (fs_write s) k = Some j \<Longrightarrow> wj_id j' = wj_id j \<Longrightarrow> wj_file_num j' = wj_file_num j \<Longrightarrow>
     keys_ok (s\<lparr>fs_write := AList.update k j' (fs_write s)\<rparr>)"
  using update_write_keys[of s j'] by (simp add: keys_ok_def)

lemma put_write_keys: "keys_ok s \<Longrightarrow> keys_ok (put_write_job i f path s)"
  using update_write_keys[of s "new_write_job i f path"] by (simp add: put_write_job_def new_write_job_def)

lemma receive_files_keys: "keys_ok s \<Longrightarrow> keys_ok (receive_files w i dest n fes s)"
  by (induction w i dest n fes s rule: receive_files.induct) (simp_all add: Let_def put_write_keys)

lemma offer_file_keys: "keys_ok s \<Longrightarrow> result_keys_ok (offer_file w i f path len s)"
proof -
  assume k: "keys_ok s"
  have "keys_ok (s\<lparr>fs_send := AList.update (transfer_key i f) (new_send_job i f path len) (fs_send s)\<rparr>)" if "keys_ok s" for s
    using update_send_keys[OF that, of "new_send_job i f path len"] by (simp add: new_send_job_def)
  then show ?thesis unfolding offer_file_def by (intro and_then_keys say_keys k) (simp add: result_keys_ok_def)
qed

lemma offer_files_keys: "keys_ok s \<Longrightarrow> result_keys_ok (offer_files w i dir n fes s)"
proof (induction w i dir n fes s rule: offer_files.induct)
  case (2 w i dir n fe fes s)
  then show ?case
    using offer_file_keys[OF 2(2)] unfolding offer_files.simps
    by (intro and_then_keys) (auto simp: result_keys_ok_def Let_def split: option.split)
qed (simp add: result_keys_ok_def)

lemma refresh_keys: "keys_ok s \<Longrightarrow> result_keys_ok (send_parent_refresh w path s)"
  by (auto simp: send_parent_refresh_def Let_def say_keys split: option.split) (simp add: result_keys_ok_def)

lemma filter_send_keys: "keys_ok s \<Longrightarrow> keys_ok (s\<lparr>fs_send := filter (\<lambda>(k, j). P j) (fs_send s)\<rparr>)"
  by (auto simp: keys_ok_def distinct_filter_fst map_of_filter_value split: option.splits if_splits)

lemma confirm_keys: "keys_ok s \<Longrightarrow> result_keys_ok (confirm_action w i f choice s)"
proof (cases "map_of (fs_send s) (transfer_key i f)")
  case (Some j)
  assume k: "keys_ok s"
  note keep = keep_send_keys[OF k Some]
  show ?thesis
    using keep[of "j\<lparr>sj_confirmed := True\<rparr>"] keep[of "j\<lparr>sj_confirmed := True, sj_done := True\<rparr>"]
      keep[of "j\<lparr>sj_confirmed := True, sj_offset := unat b * 128 * 1024, sj_blk_id := b\<rparr>" for b]
    by (cases choice) (auto simp: confirm_action_def Some Let_def say_keys result_keys_ok_def[of "Inr s" for s] split: bool.split)
qed (simp add: confirm_action_def result_keys_ok_def)

lemma action_keys: "keys_ok s \<Longrightarrow> result_keys_ok (handle_file_action w a s)"
proof (cases a)
  case (Receive i dest files)
  assume k: "keys_ok s"
  then show ?thesis
    using Receive by (auto simp: handle_file_action_def receive_action_def Let_def result_keys_ok_def put_write_keys receive_files_keys
        split: option.split)
next
  case (Send i path f hidden)
  assume k: "keys_ok s"
  then show ?thesis
    using Send
    by (auto simp: handle_file_action_def send_action_def Let_def say_keys split: option.split
        intro!: and_then_keys say_keys offer_file_keys offer_files_keys)
next
  case (Cancel i)
  assume "keys_ok s"
  from filter_send_keys[OF this, of "\<lambda>job. sj_id job \<noteq> i"] show ?thesis
    using Cancel by (simp add: handle_file_action_def result_keys_ok_def)
qed (auto simp: handle_file_action_def read_dir_action_def remove_dir_action_def remove_file_action_def rename_action_def Let_def
    confirm_keys refresh_keys say_keys result_keys_ok_def[of "Inr s" for s] split: option.split)

lemma upload_block_keys: "keys_ok s \<Longrightarrow> result_keys_ok (upload_block w i f b c s)"
proof (cases "map_of (fs_write s) (transfer_key i f)")
  case (Some j)
  assume k: "keys_ok s"
  have keep: "keys_ok (s\<lparr>fs_disk := d, fs_write := AList.update (transfer_key i f) j' (fs_write s)\<rparr>)"
    if "wj_id j' = wj_id j" "wj_file_num j' = wj_file_num j" for j' d
    using keep_write_keys[of "s\<lparr>fs_disk := d\<rparr>" _ j j'] k Some that by simp
  show ?thesis
    using k keep by (auto simp: upload_block_def Some Let_def say_keys result_keys_ok_def[of "Inr s" for s] split: prod.split)
qed (simp add: upload_block_def result_keys_ok_def)

lemma upload_done_keys: "keys_ok s \<Longrightarrow> result_keys_ok (upload_done w i f s)"
proof -
  assume k: "keys_ok s"
  have keep: "keys_ok (s\<lparr>fs_write := AList.update k (j\<lparr>wj_done := True\<rparr>) (fs_write s)\<rparr>)" if "map_of (fs_write s) k = Some j" for k j
    using keep_write_keys[OF k that, of "j\<lparr>wj_done := True\<rparr>"] by simp
  have one: "result_keys_ok (case map_of (fs_write s) k' of None \<Rightarrow> Inr s
       | Some job \<Rightarrow> reply w (RDone (wj_id job) (wj_file_num job)) (s\<lparr>fs_write := AList.update k' (job\<lparr>wj_done := True\<rparr>) (fs_write s)\<rparr>))" for k'
    using keep k by (simp add: say_keys result_keys_ok_def[of "Inr s"] split: option.split)
  then show ?thesis using k by (simp add: upload_done_def Let_def result_keys_ok_def[of "Inr s"] split: option.split)
qed

lemma response_keys: "keys_ok s \<Longrightarrow> result_keys_ok (handle_file_response_server w r s)"
  by (auto simp: handle_file_response_server_def send_upload_overwrite_decision_def upload_block_keys upload_done_keys say_keys
      result_keys_ok_def[of "Inr s" for s] split: file_response.split option.split)

lemma pending_keys_keys: "keys_ok s \<Longrightarrow> result_keys_ok (pending_keys w ks s)"
proof (induction w ks s rule: pending_keys.induct)
  case (2 w k ks s)
  show ?case
  proof (cases "map_of (fs_send s) k")
    case None
    then show ?thesis using 2 by simp
  next
    case (Some j)
    obtain out j' where p: "pending_job w (fs_disk s) j = (out, j')" by fastforce
    then have ids: "sj_id j' = sj_id j" "sj_file_num j' = sj_file_num j"
      using pending_job_ids[of w "fs_disk s" j] by (simp_all del: pending_job_ids)
    show ?thesis
    proof (cases out)
      case None
      then show ?thesis using 2 Some p by simp
    next
      case r: (Some r)
      show ?thesis
      proof (cases "w_up w")
        case True
        have "keys_ok (s\<lparr>fs_sent := fs_sent s @ [Response r], fs_send := AList.update k j' (fs_send s)\<rparr>)"
          using keep_send_keys[of "s\<lparr>fs_sent := fs_sent s @ [Response r]\<rparr>" k j j'] 2(4) Some ids by simp
        then show ?thesis
          using 2(3)[OF Some refl p[symmetric] refl r, of "s\<lparr>fs_sent := fs_sent s @ [Response r]\<rparr>"] Some p r True by (simp add: reply_def fs_say_def and_then_def)
      qed (use 2(4) Some p r in \<open>simp add: reply_def fs_say_def and_then_def result_keys_ok_def\<close>)
    qed
  qed
qed (simp add: result_keys_ok_def)

lemma send_pending_keys: "keys_ok s \<Longrightarrow> result_keys_ok (send_pending_blocks w s)"
  unfolding send_pending_blocks_def
  by (intro and_then_keys pending_keys_keys) (use filter_send_keys[of _ "\<lambda>j. \<not> sj_done j"] in \<open>simp_all add: result_keys_ok_def\<close>)

definition state_keys_ok :: "fs_state \<Rightarrow> bool" where
  "state_keys_ok st = (case st of FsRunning s \<Rightarrow> keys_ok s | FsEnded s \<Rightarrow> keys_ok s | FsFailed s \<Rightarrow> keys_ok s)"

lemma continue_keys: "result_keys_ok r \<Longrightarrow> state_keys_ok (fs_continue w r)"
  using and_then_keys[where r = r and f = "send_pending_blocks w", OF _ send_pending_keys]
  by (auto simp: fs_continue_def state_keys_ok_def result_keys_ok_def split: sum.splits)

lemma try_say_keys: "keys_ok s \<Longrightarrow> keys_ok (fs_try_say w m s)"
  by (simp add: fs_try_say_def fs_say_def)

lemma receive_keys: "keys_ok s \<Longrightarrow> state_keys_ok (fs_receive w r s)"
proof (cases r)
  case FsTimedOut
  assume "keys_ok s"
  then have "keys_ok (fs_timeout w s)" by (simp add: fs_timeout_def Let_def try_say_keys)
  then show ?thesis using FsTimedOut by (simp add: fs_receive_def continue_keys result_keys_ok_def)
qed (simp_all add: fs_receive_def continue_keys action_keys response_keys result_keys_ok_def[of "Inr s"] state_keys_ok_def[of "FsEnded s"])

lemma fs_step_keys: "state_keys_ok st \<Longrightarrow> state_keys_ok (fs_step t st)"
proof (cases st)
  case (FsRunning s)
  assume "state_keys_ok st"
  then have k: "keys_ok (s\<lparr>fs_disk := d\<rparr>)" for d using FsRunning by (simp add: state_keys_ok_def)
  have ended: "keys_ok s' \<Longrightarrow> state_keys_ok (FsEnded s')" for s' by (simp add: state_keys_ok_def)
  show ?thesis
    using k by (auto simp: fs_step_def FsRunning Let_def fs_say_def intro!: ended receive_keys try_say_keys)
qed (simp_all add: fs_step_def)

section \<open>Properties\<close>

text \<open>C28: A confirmed download sends the rest of its file: whatever other jobs run and in whatever order the table is gone through,
  the messages about it are the blocks of the file from the confirmed place on, numbered in sequence, one in each round,
  then the end of the transfer, then nothing, and its job is gone after the end.\<close>

theorem download_exact:
  assumes "\<forall>w\<in>set ws. fs_world_ok path w" "keys_ok s" "fs_disk s path = Some content" "offset \<le> length content"
    and "map_of (fs_send s) (transfer_key i f) = Some (job_at i f path (length content) offset n)"
  shows "\<exists>s' new. rounds ws s = Inr s' \<and> fs_sent s' = fs_sent s @ new \<and> fs_disk s' = fs_disk s \<and>
    filter (about i f) new = take (length ws) (numbered i f n (read_blocks_from (drop offset content)) @ [Response (RDone i f)]) \<and>
    concat (read_blocks_from (drop offset content)) = drop offset content \<and>
    (length (read_blocks_from (drop offset content)) < length ws \<longrightarrow> map_of (fs_send s') (transfer_key i f) = None)"
  using rounds_download[OF assms] read_blocks_concat by (fastforce simp: rounds_end_def download_msgs_def)

definition demo_world :: fs_world where
  "demo_world = \<lparr>w_up = True, w_join = rel_join, w_parent = (\<lambda>p. None), w_tree = (\<lambda>p. None), w_lower = id, w_drives = [], w_home = [],
     w_below = (\<lambda>p q. False), w_refuses = (\<lambda>p. False), w_read_fault = (\<lambda>p. NoFault), w_write_fault = (\<lambda>p. NoFault), w_error = [],
     w_zstd = (\<lambda>b. None), w_order = id\<rparr>"

definition demo_server :: "disk \<Rightarrow> (i32 \<times> send_job) list \<Rightarrow> (i32 \<times> write_job) list \<Rightarrow> fs_server" where
  "demo_server d sj wj = \<lparr>fs_disk = d, fs_send = sj, fs_write = wj, fs_hidden = False, fs_sent = [], fs_dirs = [], fs_timeouts = 0,
     fs_dir_sent = False, fs_keepalive = 0, fs_cm_check = 0\<rparr>"

lemma demo_world_ok: "fs_world_ok p demo_world"
  by (simp add: fs_world_ok_def demo_world_def keeps_order_def)

theorem download_exact_witness:
  "\<exists>s'. rounds [demo_world, demo_world, demo_world]
     (demo_server [[97] \<mapsto> [1, 2, 3]] [(transfer_key 4 5, job_at 4 5 [97] 3 0 0)] []) = Inr s' \<and>
   filter (about 4 5) (fs_sent s') = [Response (RBlock 4 5 [1, 2, 3] False 0), Response (RDone 4 5)]"
proof -
  define c :: bytes where "c = [1, 2, 3]"
  let ?s = "demo_server [[97] \<mapsto> c] [(transfer_key 4 5, job_at 4 5 [97] 3 0 0)] []"
  have c: "read_blocks_from c = [c]" "length c = 3" by (simp_all add: c_def read_blocks_from.simps BLOCK_SIZE_def)
  have "keys_ok ?s" by (simp add: keys_ok_def demo_server_def job_at_def)
  then obtain s' where "rounds [demo_world, demo_world, demo_world] ?s = Inr s'"
      "filter (about 4 5) (fs_sent s') = [Response (RBlock 4 5 c False 0), Response (RDone 4 5)]"
    using download_exact[of "[demo_world, demo_world, demo_world]" "[97]" ?s c 0 4 5 0] demo_world_ok c
    by (auto simp: demo_server_def simp del: rounds.simps)
  then show ?thesis unfolding c_def by blast
qed

text \<open>An upload puts its blocks together: the file is what they make up, whatever stood there before, nothing else on the disk
  or in the table changes and nothing is answered; only when the blocks are empty the old file stays as it was.\<close>

theorem upload_exact:
  assumes "map_of (fs_write s) (transfer_key i f) = Some j" "\<not> wj_done j" "wj_offset j = 0"
    and "\<forall>w\<in>set ws. w_write_fault w (wj_path j) = NoFault" "length ws = length bs"
  shows "\<exists>s'. upload_blocks ws i f bs s = Inr s' \<and>
    fs_disk s' = (if concat bs = [] then fs_disk s else (fs_disk s)(wj_path j \<mapsto> concat bs)) \<and>
    map_of (fs_write s') (transfer_key i f) = Some (j\<lparr>wj_offset := length (concat bs)\<rparr>) \<and>
    (\<forall>k. k \<noteq> transfer_key i f \<longrightarrow> map_of (fs_write s') k = map_of (fs_write s) k) \<and> fs_sent s' = fs_sent s"
  using upload_blocks_run[OF assms(1,2,4,5)] by (auto simp: assms(3) write_blocks_start)

theorem upload_exact_witness:
  "\<exists>s'. upload_blocks [demo_world, demo_world] 4 5 [[1, 2], [3]] (demo_server [[97] \<mapsto> [9, 9, 9, 9]] [] [(transfer_key 4 5, new_write_job 4 5 [97])]) = Inr s' \<and>
    fs_disk s' [97] = Some [1, 2, 3]"
  using upload_exact[of "demo_server [[97] \<mapsto> [9, 9, 9, 9]] [] [(transfer_key 4 5, new_write_job 4 5 [97])]" 4 5 "new_write_job 4 5 [97]"
      "[demo_world, demo_world]" "[[1, 2], [3]]"]
  by (auto simp: demo_server_def new_write_job_def demo_world_def)

text \<open>Whatever the viewer sends and in whatever order, the tables hold each job under the key of its own id and file number.\<close>

theorem job_tables_invariant:
  assumes "keys_ok s"
  shows "state_keys_ok (run_file_transfer_loop turns s)"
proof -
  have "state_keys_ok (fold fs_step turns st)" if "state_keys_ok st" for st
    using that by (induction turns arbitrary: st) (simp_all add: fs_step_keys)
  then show ?thesis using assms by (simp add: run_file_transfer_loop_def state_keys_ok_def)
qed

theorem job_tables_invariant_witness: "state_keys_ok (run_file_transfer_loop [] (demo_server Map.empty [] []))"
  by (rule job_tables_invariant) (simp add: keys_ok_def demo_server_def)

text \<open>The keys do not tell all jobs apart: file 1000 of job 1 and file 0 of job 2 share one, so that the upload of the one
  goes to the place of the other. A download whose file has become shorter than announced sends an empty block in every round and never
  ends.\<close>

theorem transfer_defects:
  "transfer_key 1 1000 = transfer_key 2 0 \<and>
   (\<exists>s'. upload_block demo_world 1 1000 [7] False (demo_server Map.empty [] [(transfer_key 2 0, new_write_job 2 0 [98])]) = Inr s' \<and>
      fs_disk s' [98] = Some [7]) \<and>
   (\<forall>k. \<exists>s'. rounds (replicate k demo_world) (demo_server [[97] \<mapsto> [1]] [(transfer_key 4 5, job_at 4 5 [97] 9 1 0)] []) = Inr s' \<and>
      filter (about 4 5) (fs_sent s') = numbered 4 5 0 (replicate k []) \<and> map_of (fs_send s') (transfer_key 4 5) \<noteq> None)"
proof (intro conjI allI)
  show k: "transfer_key 1 1000 = transfer_key 2 0" by (simp add: transfer_key_def)
  show "\<exists>s'. upload_block demo_world 1 1000 [7] False (demo_server Map.empty [] [(transfer_key 2 0, new_write_job 2 0 [98])]) = Inr s' \<and>
      fs_disk s' [98] = Some [7]"
    by (subst upload_block_ok[of _ _ _ "new_write_job 2 0 [98]"])
      (simp_all add: k demo_server_def new_write_job_def demo_world_def write_file_block_def put_at_def)
  fix n
  have "rounds_end (replicate n demo_world) (demo_server [[97] \<mapsto> [1]] [(transfer_key 4 5, job_at 4 5 [97] 9 1 0)] []) 4 5
      (numbered 4 5 0 (replicate (length (replicate n demo_world)) []))
      (Some (job_at 4 5 [97] 9 1 (0 + word_of_nat (length (replicate n demo_world)))))"
    by (rule rounds_stuck[of _ "[97]" _ "[1]"]) (simp_all add: demo_world_ok demo_server_def keys_ok_def job_at_def)
  then show "\<exists>s'. rounds (replicate n demo_world) (demo_server [[97] \<mapsto> [1]] [(transfer_key 4 5, job_at 4 5 [97] 9 1 0)] []) = Inr s' \<and>
      filter (about 4 5) (fs_sent s') = numbered 4 5 0 (replicate n []) \<and> map_of (fs_send s') (transfer_key 4 5) \<noteq> None"
    by (auto simp: rounds_end_def demo_server_def)
qed

end
