(* ===== verification/File_Viewer.thy ===== *)
theory File_Viewer
  imports File_Server
begin

text \<open>
  The viewer's side of a file transfer in \<open>src/src/remote.rs\<close>: what \<open>process_file_responses\<close> does with the server's answers, the
  start of a download or an upload in \<open>poll_ft_flags\<close> and the messages of the upload thread. Calls into the page are a list;
  the files that the upload thread reads are taken as they stand when it starts. Words are 32 bits wide, as the
  release target is.
\<close>

section \<open>State\<close>

record view_job =
  vj_dest :: rstr
  vj_files :: "rstr list"
  vj_offsets :: "nat list"
  vj_file_num :: i32
  vj_done_count :: nat

datatype ui_call =
    JobError i32 rstr i32
  | FolderFiles i32 rstr "file_entry list"
  | JobProgress i32 i32 i32
  | JobDone i32 i32
  | OverrideFileConfirm i32 i32 bool

record viewer =
  v_disk :: disk
  v_jobs :: "(i32 \<times> view_job) list"
  v_actions :: "file_action list"
  v_ui :: "ui_call list"
  v_dirs :: "rstr list"

definition call_ui :: "ui_call \<Rightarrow> viewer \<Rightarrow> viewer" where
  "call_ui c v = v\<lparr>v_ui := v_ui v @ [c]\<rparr>"

definition send_file_action :: "file_action \<Rightarrow> viewer \<Rightarrow> viewer" where
  "send_file_action a v = v\<lparr>v_actions := v_actions v @ [a]\<rparr>"

text \<open>More offsets than this do not fit into a vector of 64-bit numbers: the process aborts.\<close>

definition MAX_OFFSETS :: nat where
  "MAX_OFFSETS = 2 ^ 28 - 1"

section \<open>Answers of the server\<close>

fun dir_paths :: "fs_world \<Rightarrow> rstr \<Rightarrow> file_entry list \<Rightarrow> rstr list \<times> rstr list" where
  "dir_paths w base [] = ([], [])"
| "dir_paths w base (e # es) =
     (let (paths, dirs) = dir_paths w base es in
      if fe_type e = File then ((if fe_name e = [] then base else w_join w base (fe_name e)) # paths, dirs)
      else if fe_name e \<noteq> [] \<and> last (fe_name e) = 47 then ([] # paths, w_join w base (fe_name e) # dirs)
      else ([] # paths, dirs))"

definition on_dir :: "fs_world \<Rightarrow> i32 \<Rightarrow> rstr \<Rightarrow> file_entry list \<Rightarrow> viewer \<Rightarrow> viewer" where
  "on_dir w i path entries v =
     (case map_of (v_jobs v) i of
        Some job \<Rightarrow>
          if \<not> download_names_safe entries then
            call_ui (JobError i (str ''Unsafe file name'') 0)
              (send_file_action (Cancel i) (v\<lparr>v_jobs := AList.delete i (v_jobs v)\<rparr>))
          else
            let (paths, dirs) = dir_paths w (vj_dest job) entries;
                job = job\<lparr>vj_files := paths, vj_offsets := replicate (length entries) 0\<rparr>
            in call_ui (FolderFiles i path entries)
                 (v\<lparr>v_dirs := v_dirs v @ dirs, v_jobs := AList.update i job (v_jobs v)\<rparr>)
      | None \<Rightarrow> call_ui (FolderFiles i path (filter is_safe_listing_entry entries)) v)"

definition job_path :: "view_job \<Rightarrow> nat \<Rightarrow> rstr" where
  "job_path job fnum = (if fnum < length (vj_files job) \<and> vj_files job ! fnum \<noteq> [] then vj_files job ! fnum else vj_dest job)"

definition extend_offsets :: "nat \<Rightarrow> nat list \<Rightarrow> nat list" where
  "extend_offsets fnum offsets = offsets @ replicate (Suc fnum - length offsets) 0"

definition on_block :: "fs_world \<Rightarrow> i32 \<Rightarrow> i32 \<Rightarrow> bytes \<Rightarrow> bool \<Rightarrow> viewer \<Rightarrow> viewer option" where
  "on_block w i file_num data compressed v =
     (case map_of (v_jobs v) i of
        None \<Rightarrow> Some v
      | Some job \<Rightarrow>
          (let fnum = unat file_num; path = job_path job fnum in
           if fnum \<ge> MAX_OFFSETS then None
           else
             let offsets = extend_offsets fnum (vj_offsets job);
                 decoded = (if compressed then zstd_decompress (w_zstd w) data else data);
                 (ok, d) = write_file_block (w_write_fault w path) path decoded (offsets ! fnum) (v_disk v);
                 new_offsets = (if ok then offsets[fnum := offsets ! fnum + length decoded] else offsets);
                 job = job\<lparr>vj_file_num := file_num, vj_offsets := new_offsets\<rparr>;
                 v = v\<lparr>v_disk := d, v_jobs := AList.update i job (v_jobs v)\<rparr>
             in Some (if ok then call_ui (JobProgress i file_num (word_of_nat (sum_list new_offsets))) v else v)))"

definition on_done :: "i32 \<Rightarrow> i32 \<Rightarrow> viewer \<Rightarrow> viewer" where
  "on_done i file_num v =
     (case map_of (v_jobs v) i of
        None \<Rightarrow> call_ui (JobDone i file_num) v
      | Some job \<Rightarrow>
          (let n = vj_done_count job + 1
           in if vj_files job = [] \<or> n \<ge> length (vj_files job)
              then call_ui (JobDone i file_num) (v\<lparr>v_jobs := AList.delete i (v_jobs v)\<rparr>)
              else v\<lparr>v_jobs := AList.update i (job\<lparr>vj_done_count := n\<rparr>) (v_jobs v)\<rparr>))"

definition on_digest :: "fs_world \<Rightarrow> i32 \<Rightarrow> i32 \<Rightarrow> bool \<Rightarrow> viewer \<Rightarrow> viewer" where
  "on_digest w i file_num is_upload v =
     (let local_path = map_option (\<lambda>job. job_path job (unat file_num)) (map_of (v_jobs v) i);
          absent = (case local_path of None \<Rightarrow> False | Some p \<Rightarrow> v_disk v p = None \<and> w_tree w p = None)
      in if \<not> is_upload \<and> absent then send_file_action (SendConfirm i file_num (OffsetBlk 0)) v
         else call_ui (OverrideFileConfirm i file_num is_upload) v)"

definition process_response :: "fs_world \<Rightarrow> file_response \<Rightarrow> viewer \<Rightarrow> viewer option" where
  "process_response w r v =
     (case r of
        RDir i path entries \<Rightarrow> Some (on_dir w i path entries v)
      | RBlock i file_num data compressed blk_id \<Rightarrow> on_block w i file_num data compressed v
      | RDone i file_num \<Rightarrow> Some (on_done i file_num v)
      | RError i file_num e \<Rightarrow> Some (call_ui (JobError i e file_num) v)
      | RDigest i file_num len is_upload \<Rightarrow> Some (on_digest w i file_num is_upload v)
      | OtherResponse \<Rightarrow> Some v)"

fun process_file_responses :: "fs_world \<Rightarrow> file_response list \<Rightarrow> viewer \<Rightarrow> viewer option" where
  "process_file_responses w [] v = Some v"
| "process_file_responses w (r # rs) v =
     (case process_response w r v of None \<Rightarrow> None | Some v \<Rightarrow> process_file_responses w rs v)"

section \<open>Starting a transfer\<close>

definition start_download :: "i32 \<Rightarrow> rstr \<Rightarrow> rstr \<Rightarrow> i32 \<Rightarrow> bool \<Rightarrow> viewer \<Rightarrow> viewer" where
  "start_download i path dest file_num hidden v =
     send_file_action (Send i path file_num hidden)
       (v\<lparr>v_jobs := AList.update i
           \<lparr>vj_dest = dest, vj_files = [], vj_offsets = [], vj_file_num = 0, vj_done_count = 0\<rparr> (v_jobs v)\<rparr>)"

text \<open>The entries that are announced to the server; a single file goes without its name.\<close>

definition upload_entries :: "bool \<Rightarrow> file_entry list \<Rightarrow> file_entry list" where
  "upload_entries path_is_file files =
     (let es = map (\<lambda>f. f\<lparr>fe_name := slashes (fe_name f)\<rparr>) (filter (\<lambda>f. fe_type f = File \<or> fe_type f = Dir) files)
      in if length es = 1 \<and> fe_name (hd es) \<noteq> [] \<and> path_is_file then [(hd es)\<lparr>fe_name := []\<rparr>] else es)"

function upload_file :: "fs_world \<Rightarrow> disk \<Rightarrow> i32 \<Rightarrow> i32 \<Rightarrow> rstr \<Rightarrow> nat \<Rightarrow> u32 \<Rightarrow> file_response list" where
  "upload_file w d i file_num path offset blk_id =
     (case read_file_block (w_read_fault w path) d path offset of
        None \<Rightarrow> []
      | Some data \<Rightarrow>
          if data = [] then []
          else RBlock i file_num data False blk_id # upload_file w d i file_num path (offset + length data) (blk_id + 1))"
  by pat_completeness auto
termination
proof (relation "measure (\<lambda>(w, d, i, f, path, offset, b). length (case d path of None \<Rightarrow> [] | Some c \<Rightarrow> c) - offset)", goal_cases)
  case (2 w d i f path offset b data)
  then obtain c where "d path = Some c" "data = take BLOCK_SIZE (drop offset c)"
    by (auto simp: read_file_block_def split: if_splits option.splits)
  then show ?case using 2(2) by auto
qed simp

declare upload_file.simps [simp del]

fun upload_files :: "fs_world \<Rightarrow> disk \<Rightarrow> i32 \<Rightarrow> rstr \<Rightarrow> nat \<Rightarrow> file_entry list \<Rightarrow> file_response list" where
  "upload_files w d i source n [] = []"
| "upload_files w d i source n (fe # fes) =
     (if fe_name fe \<noteq> [] \<and> last (fe_name fe) = 47 then []
      else upload_file w d i (word_of_nat n) (if fe_name fe = [] then source else w_join w source (fe_name fe)) 0 0) @
     upload_files w d i source (n + 1) fes"

text \<open>What an upload sends: the announcement, and then the thread's messages.\<close>

definition start_upload :: "fs_world \<Rightarrow> i32 \<Rightarrow> rstr \<Rightarrow> rstr \<Rightarrow> bool \<Rightarrow> viewer \<Rightarrow> viewer \<times> file_response list" where
  "start_upload w i path dest hidden v =
     (let found = (case v_disk v path of Some c \<Rightarrow> Some (Leaf (length c) 0) | None \<Rightarrow> w_tree w path);
          files = (case get_recursive_files (w_lower w) hidden found of None \<Rightarrow> [] | Some fs \<Rightarrow> fs);
          es = upload_entries (v_disk v path \<noteq> None) files
      in if files = [] then (v, [])
         else (call_ui (FolderFiles i path es) (send_file_action (Receive i dest es) v),
               upload_files w (v_disk v) i path 0 es @ [RDone i (word_of_nat (length es - 1))]))"

definition cancel_job :: "i32 \<Rightarrow> viewer \<Rightarrow> viewer" where
  "cancel_job i = send_file_action (Cancel i)"

section \<open>Blocks of one job\<close>

text \<open>What a sequence of answers holds for one file.\<close>

definition block_data :: "nat \<Rightarrow> file_response \<Rightarrow> bytes" where
  "block_data k r = (case r of RBlock _ f b _ _ \<Rightarrow> if unat f = k then b else [] | _ \<Rightarrow> [])"

definition received :: "nat \<Rightarrow> file_response list \<Rightarrow> bytes" where
  "received k rs = concat (map (block_data k) rs)"

definition job_block :: "i32 \<Rightarrow> nat \<Rightarrow> file_response \<Rightarrow> bool" where
  "job_block i n r = (case r of RBlock i' f _ compressed _ \<Rightarrow> i' = i \<and> unat f < n \<and> \<not> compressed | _ \<Rightarrow> False)"

lemma received_simps [simp]: "received k [] = []" "received k (r # rs) = block_data k r @ received k rs"
  by (simp_all add: received_def)

lemma write_next:
  "g = [] \<or> d p = Some g \<Longrightarrow> write_file_block NoFault p b (length g) d = (True, if b = [] then d else d(p \<mapsto> g @ b))"
  by (cases "g = []") (auto simp: write_file_block_def put_at_start put_at_end)

lemma on_block_step:
  assumes "map_of (v_jobs v) i = Some job" "vj_files job = fs" "unat f < length fs" "fs ! unat f \<noteq> []" "length fs \<le> MAX_OFFSETS"
    and "length (vj_offsets job) = length fs" "vj_offsets job ! unat f = length g" "g = [] \<or> v_disk v (fs ! unat f) = Some g"
    and "w_write_fault w (fs ! unat f) = NoFault"
  shows "\<exists>v' job'. on_block w i f b False v = Some v' \<and> map_of (v_jobs v') i = Some job' \<and> vj_files job' = fs \<and>
    vj_offsets job' = (vj_offsets job)[unat f := length g + length b] \<and> vj_done_count job' = vj_done_count job \<and>
    v_disk v' = (if b = [] then v_disk v else (v_disk v)(fs ! unat f \<mapsto> g @ b))"
proof -
  have "extend_offsets (unat f) (vj_offsets job) = vj_offsets job" using assms(3,6) by (simp add: extend_offsets_def)
  moreover have "job_path job (unat f) = fs ! unat f" using assms(2-4) by (simp add: job_path_def)
  ultimately show ?thesis
    using assms write_next[where d = "v_disk v" and p = "fs ! unat f" and g = g, OF assms(8), of b]
    by (simp add: on_block_def Let_def call_ui_def update_conv')
qed

lemma blocks_run:
  assumes "map_of (v_jobs v) i = Some job" "vj_files job = fs" "distinct fs" "[] \<notin> set fs" "length fs \<le> MAX_OFFSETS"
    and "length (vj_offsets job) = length fs" "\<And>k. k < length fs \<Longrightarrow> vj_offsets job ! k = length (g k)"
    and "\<And>k. k < length fs \<Longrightarrow> g k = [] \<or> v_disk v (fs ! k) = Some (g k)"
    and "\<forall>p\<in>set fs. w_write_fault w p = NoFault" "\<forall>r\<in>set rs. job_block i (length fs) r"
  shows "\<exists>v' job'. process_file_responses w rs v = Some v' \<and> map_of (v_jobs v') i = Some job' \<and> vj_files job' = fs \<and>
    vj_done_count job' = vj_done_count job \<and>
    (\<forall>k<length fs. v_disk v' (fs ! k) = (if received k rs = [] then v_disk v (fs ! k) else Some (g k @ received k rs))) \<and>
    (\<forall>p. p \<notin> set fs \<longrightarrow> v_disk v' p = v_disk v p)"
  using assms
proof (induction rs arbitrary: v job g)
  case (Cons r rs)
  obtain f b n where r: "r = RBlock i f b False n" "unat f < length fs"
    using Cons.prems(10) by (cases r) (auto simp: job_block_def)
  have nz: "fs ! unat f \<noteq> []" using Cons.prems(4) r(2) nth_mem by fastforce
  have nf: "w_write_fault w (fs ! unat f) = NoFault" using Cons.prems(9) r(2) by simp
  obtain v1 job1 where v1: "on_block w i f b False v = Some v1" "map_of (v_jobs v1) i = Some job1" "vj_files job1 = fs"
      "vj_offsets job1 = (vj_offsets job)[unat f := length (g (unat f)) + length b]" "vj_done_count job1 = vj_done_count job"
      "v_disk v1 = (if b = [] then v_disk v else (v_disk v)(fs ! unat f \<mapsto> g (unat f) @ b))"
    using on_block_step[OF Cons.prems(1,2) r(2) nz Cons.prems(5,6) Cons.prems(7)[OF r(2)] Cons.prems(8)[OF r(2)] nf] by blast
  define g1 where "g1 = g(unat f := g (unat f) @ b)"
  have other: "fs ! k = fs ! unat f \<longleftrightarrow> k = unat f" if "k < length fs" for k
    using that r(2) Cons.prems(3) nth_eq_iff_index_eq by blast
  have off: "vj_offsets job1 ! k = length (g1 k)" if "k < length fs" for k
    using that Cons.prems(6) Cons.prems(7)[OF that] by (simp add: v1(4) g1_def nth_list_update)
  have dk: "g1 k = [] \<or> v_disk v1 (fs ! k) = Some (g1 k)" if "k < length fs" for k
    using that Cons.prems(8)[OF that] other[OF that] by (auto simp: v1(6) g1_def)
  obtain v2 job2 where v2: "process_file_responses w rs v1 = Some v2" "map_of (v_jobs v2) i = Some job2" "vj_files job2 = fs"
      "vj_done_count job2 = vj_done_count job1"
      "\<forall>k<length fs. v_disk v2 (fs ! k) = (if received k rs = [] then v_disk v1 (fs ! k) else Some (g1 k @ received k rs))"
      "\<forall>p. p \<notin> set fs \<longrightarrow> v_disk v2 p = v_disk v1 p"
    using Cons.IH[OF v1(2,3) Cons.prems(3-5) _ off dk Cons.prems(9)] Cons.prems(6,10) v1(4) by auto
  have "v_disk v2 (fs ! k) = (if received k (r # rs) = [] then v_disk v (fs ! k) else Some (g k @ received k (r # rs)))" if "k < length fs" for k
    using v2(5) that other[OF that] by (auto simp: v1(6) r(1) block_data_def g1_def)
  moreover have "v_disk v2 p = v_disk v p" if "p \<notin> set fs" for p
    using v2(6) that r(2) nth_mem by (auto simp: v1(6))
  ultimately show ?case using v1 v2 by (simp add: r(1) process_response_def)
qed simp

section \<open>Where a viewer writes\<close>

text \<open>
  The places that belong to a job: its destination, and what lies below it. A name that begins with neither a separator nor a drive is put
  behind the destination, and following its parts from the destination, wherever that is, never climbs out of it.
\<close>

definition relative :: "rstr \<Rightarrow> bool" where
  "relative q \<longleftrightarrow> q \<noteq> [] \<and> \<not> is_sep (hd q) \<and> \<not> has_drive q"

definition belongs :: "rstr \<Rightarrow> rstr \<Rightarrow> bool" where
  "belongs dest p \<longleftrightarrow>
     p = dest \<or> (\<exists>q. relative q \<and> p = rel_join dest q \<and> (\<forall>at. \<exists>more. follow at (split_seps q) = at @ more))"

text \<open>\<open>Path::join\<close>, as it is documented, of a folder that is neither a drive alone nor a verbatim path.\<close>

definition joins :: "fs_world \<Rightarrow> rstr \<Rightarrow> bool" where
  "joins w dest \<longleftrightarrow> (\<forall>q. relative q \<longrightarrow> w_join w dest q = rel_join dest q)"

lemma safe_belongs:
  assumes "joins w dest" "name \<noteq> []" "is_safe_name name"
  shows "belongs dest (w_join w dest name)"
proof -
  have "relative name" "[46, 46] \<notin> set (split_seps name)" using assms(2,3) by (simp_all add: is_safe_name_def relative_def)
  then show ?thesis using assms(1) follow_below by (auto simp: belongs_def joins_def)
qed

definition jobs_safe :: "viewer \<Rightarrow> bool" where
  "jobs_safe v \<longleftrightarrow>
     (\<forall>i job. map_of (v_jobs v) i = Some job \<longrightarrow> (\<forall>p\<in>set (vj_files job). p = [] \<or> belongs (vj_dest job) p))"

definition dests :: "viewer \<Rightarrow> rstr set" where
  "dests v = {dest. \<exists>i. map_option vj_dest (map_of (v_jobs v) i) = Some dest}"

definition touched :: "rstr set \<Rightarrow> viewer \<Rightarrow> viewer \<Rightarrow> bool" where
  "touched ds v v' \<longleftrightarrow>
     (\<forall>p. v_disk v' p \<noteq> v_disk v p \<longrightarrow> (\<exists>dest\<in>ds. belongs dest p)) \<and>
     (\<forall>p\<in>set (v_dirs v'). p \<in> set (v_dirs v) \<or> (\<exists>dest\<in>ds. belongs dest p))"

lemma touched_refl: "v_disk v' = v_disk v \<Longrightarrow> v_dirs v' = v_dirs v \<Longrightarrow> touched ds v v'"
  by (simp add: touched_def)

lemma touched_trans: "touched ds v v' \<Longrightarrow> touched ds' v' v'' \<Longrightarrow> ds' \<subseteq> ds \<Longrightarrow> touched ds v v''"
proof -
  assume a: "touched ds v v'" "touched ds' v' v''" "ds' \<subseteq> ds"
  have "\<exists>dest\<in>ds. belongs dest p" if "v_disk v'' p \<noteq> v_disk v p" for p
  proof (cases "v_disk v' p = v_disk v p")
    case True
    then have "\<exists>dest\<in>ds'. belongs dest p" using a(2) that unfolding touched_def by simp
    then show ?thesis using a(3) by blast
  qed (use a(1) in \<open>simp add: touched_def\<close>)
  moreover have "p \<in> set (v_dirs v) \<or> (\<exists>dest\<in>ds. belongs dest p)" if "p \<in> set (v_dirs v'')" for p
    using a that unfolding touched_def by blast
  ultimately show ?thesis by (simp add: touched_def)
qed

lemma dir_paths_safe:
  assumes "list_all (\<lambda>e. fe_name e = [] \<or> is_safe_name (fe_name e)) es" "dir_paths w base es = (paths, dirs)" "joins w base"
  shows "(\<forall>p\<in>set paths. p = [] \<or> belongs base p) \<and> (\<forall>p\<in>set dirs. belongs base p)"
  using assms(1,2)
proof (induction es arbitrary: paths dirs)
  case (Cons e es)
  obtain ps ds where d: "dir_paths w base es = (ps, ds)" by fastforce
  have all: "(\<forall>p\<in>set ps. p = [] \<or> belongs base p) \<and> (\<forall>p\<in>set ds. belongs base p)"
    using Cons.IH[OF _ d] Cons.prems(1) by simp
  have name: "belongs base (w_join w base (fe_name e))" if "fe_name e \<noteq> []"
    using Cons.prems(1) that safe_belongs[OF assms(3)] by simp
  have "belongs base base" by (simp add: belongs_def)
  then show ?case using Cons.prems(2) d all name by (auto split: if_splits)
qed simp

lemma names_safe_all: "download_names_safe es \<Longrightarrow> list_all (\<lambda>e. fe_name e = [] \<or> is_safe_name (fe_name e)) es"
  by (cases es) (auto simp: download_names_safe_def list_all_iff)

lemma job_path_belongs:
  "jobs_safe v \<Longrightarrow> map_of (v_jobs v) i = Some job \<Longrightarrow> belongs (vj_dest job) (job_path job k)"
proof (cases "k < length (vj_files job) \<and> vj_files job ! k \<noteq> []")
  case True
  then have "vj_files job ! k \<in> set (vj_files job)" by simp
  moreover assume "jobs_safe v" "map_of (v_jobs v) i = Some job"
  ultimately have "vj_files job ! k = [] \<or> belongs (vj_dest job) (vj_files job ! k)" unfolding jobs_safe_def by blast
  then show "belongs (vj_dest job) (job_path job k)" using True by (simp add: job_path_def)
qed (auto simp: job_path_def belongs_def)

lemma dests_update: "map_of (v_jobs v) i = Some job \<Longrightarrow> vj_dest job' = vj_dest job \<Longrightarrow>
    dests (v\<lparr>v_jobs := AList.update i job' (v_jobs v)\<rparr>) = dests v" (is "_ \<Longrightarrow> _ \<Longrightarrow> ?thesis")
proof -
  assume "map_of (v_jobs v) i = Some job" "vj_dest job' = vj_dest job"
  then have "map_option vj_dest (map_of (AList.update i job' (v_jobs v)) k) = map_option vj_dest (map_of (v_jobs v) k)" for k
    by (simp add: update_conv')
  then show ?thesis by (simp add: dests_def)
qed

lemma jobs_safe_update: "jobs_safe v \<Longrightarrow> (\<forall>p\<in>set (vj_files job'). p = [] \<or> belongs (vj_dest job') p) \<Longrightarrow>
    jobs_safe (v\<lparr>v_jobs := AList.update i job' (v_jobs v)\<rparr>)"
  by (simp add: jobs_safe_def update_conv')

lemma viewer_fields [simp]:
  "jobs_safe (call_ui c v) = jobs_safe v" "dests (call_ui c v) = dests v" "v_disk (call_ui c v) = v_disk v" "v_dirs (call_ui c v) = v_dirs v"
  "v_jobs (call_ui c v) = v_jobs v"
  "jobs_safe (send_file_action a v) = jobs_safe v" "dests (send_file_action a v) = dests v" "v_disk (send_file_action a v) = v_disk v"
  "v_dirs (send_file_action a v) = v_dirs v" "v_jobs (send_file_action a v) = v_jobs v"
  "jobs_safe (v\<lparr>v_disk := d\<rparr>) = jobs_safe v" "dests (v\<lparr>v_disk := d\<rparr>) = dests v" "jobs_safe (v\<lparr>v_dirs := q\<rparr>) = jobs_safe v"
  "dests (v\<lparr>v_dirs := q\<rparr>) = dests v"
  by (simp_all add: call_ui_def send_file_action_def jobs_safe_def dests_def)

definition stays :: "viewer \<Rightarrow> viewer \<Rightarrow> bool" where
  "stays v v' \<longleftrightarrow> jobs_safe v' \<and> dests v' \<subseteq> dests v \<and> touched (dests v) v v'"

lemma stays_delete: "jobs_safe v \<Longrightarrow> stays v (v\<lparr>v_jobs := AList.delete i (v_jobs v)\<rparr>)"
  by (auto simp: stays_def jobs_safe_def dests_def touched_refl delete_conv' split: if_splits)

lemma stays_call: "stays v v' \<Longrightarrow> stays v (call_ui c v')" "stays v v' \<Longrightarrow> stays v (send_file_action a v')"
  by (simp_all add: stays_def touched_def)

lemma stays_refl: "jobs_safe v \<Longrightarrow> stays v v"
  by (simp add: stays_def touched_refl)

lemma on_dir_stays:
  assumes "jobs_safe v" "\<forall>dest\<in>dests v. joins w dest"
  shows "stays v (on_dir w i path es v)"
proof (cases "map_of (v_jobs v) i")
  case (Some job)
  show ?thesis
  proof (cases "download_names_safe es")
    case True
    obtain paths dirs where d: "dir_paths w (vj_dest job) es = (paths, dirs)" by fastforce
    have "joins w (vj_dest job)" using assms(2) Some by (auto simp: dests_def)
    note safe = dir_paths_safe[OF names_safe_all[OF True] d this]
    let ?job = "job\<lparr>vj_files := paths, vj_offsets := replicate (length es) 0\<rparr>"
    let ?v = "v\<lparr>v_dirs := v_dirs v @ dirs\<rparr>"
    have dest: "vj_dest job \<in> dests v" using Some by (auto simp: dests_def)
    have "jobs_safe (?v\<lparr>v_jobs := AList.update i ?job (v_jobs ?v)\<rparr>)"
      using jobs_safe_update[of ?v ?job i] assms(1) safe by simp
    moreover have "dests (?v\<lparr>v_jobs := AList.update i ?job (v_jobs ?v)\<rparr>) = dests v"
      using dests_update[of ?v i job ?job] Some by simp
    ultimately have "stays v (?v\<lparr>v_jobs := AList.update i ?job (v_jobs ?v)\<rparr>)"
      using safe dest by (auto simp: stays_def touched_def)
    then show ?thesis using True Some d stays_call by (simp add: on_dir_def)
  next
    case False
    then show ?thesis using Some stays_call stays_delete[OF assms(1)] by (simp add: on_dir_def)
  qed
qed (use stays_call stays_refl[OF assms(1)] in \<open>simp add: on_dir_def\<close>)

lemma write_touches: "p \<noteq> path \<Longrightarrow> snd (write_file_block fault path data offset d) p = d p"
  by (simp add: write_file_block_def Let_def split: io_fault.split)

lemma on_block_stays:
  assumes "jobs_safe v" "on_block w i f data compressed v = Some v'"
  shows "stays v v'"
proof (cases "map_of (v_jobs v) i")
  case None
  then show ?thesis using assms stays_refl by (simp add: on_block_def)
next
  case (Some job)
  let ?path = "job_path job (unat f)"
  obtain ok d where w: "write_file_block (w_write_fault w ?path) ?path (if compressed then zstd_decompress (w_zstd w) data else data)
      (extend_offsets (unat f) (vj_offsets job) ! unat f) (v_disk v) = (ok, d)" by fastforce
  have dest: "vj_dest job \<in> dests v" using Some by (auto simp: dests_def)
  note b = job_path_belongs[OF assms(1) Some, of "unat f"]
  have d: "d p = v_disk v p" if "p \<noteq> ?path" for p
    using write_touches[OF that] w by (metis snd_conv)
  have upd: "stays v (v\<lparr>v_disk := d, v_jobs := AList.update i (job\<lparr>vj_file_num := f, vj_offsets := os\<rparr>) (v_jobs v)\<rparr>)" for os
  proof -
    let ?job = "job\<lparr>vj_file_num := f, vj_offsets := os\<rparr>" and ?v = "v\<lparr>v_disk := d\<rparr>"
    have "\<forall>p\<in>set (vj_files job). p = [] \<or> belongs (vj_dest job) p" using assms(1) Some unfolding jobs_safe_def by blast
    then have "jobs_safe (?v\<lparr>v_jobs := AList.update i ?job (v_jobs ?v)\<rparr>)" using jobs_safe_update[of ?v ?job i] assms(1) by simp
    moreover have "dests (?v\<lparr>v_jobs := AList.update i ?job (v_jobs ?v)\<rparr>) = dests v" using dests_update[of ?v i job ?job] Some by simp
    moreover have "\<exists>dest\<in>dests v. belongs dest p" if "d p \<noteq> v_disk v p" for p using d[of p] that b dest by blast
    ultimately show ?thesis by (simp add: stays_def touched_def)
  qed
  then show ?thesis
    using assms(2) w Some stays_call(1)[OF upd] by (auto simp: on_block_def Let_def split: if_splits)
qed

lemma process_response_stays:
  assumes "jobs_safe v" "process_response w r v = Some v'" "\<forall>dest\<in>dests v. joins w dest"
  shows "stays v v'"
proof (cases r)
  case (RDone i f)
  have upd: "stays v (v\<lparr>v_jobs := AList.update i (job\<lparr>vj_done_count := n\<rparr>) (v_jobs v)\<rparr>)" if "map_of (v_jobs v) i = Some job" for job n
    using dests_update[OF that, of "job\<lparr>vj_done_count := n\<rparr>"] jobs_safe_update[OF assms(1), of "job\<lparr>vj_done_count := n\<rparr>" i] that assms(1)
    by (auto simp: stays_def touched_def jobs_safe_def)
  then show ?thesis
    using RDone assms(2) stays_call stays_refl[OF assms(1)] stays_delete[OF assms(1)]
    by (auto simp: process_response_def on_done_def Let_def split: option.splits if_splits)
next
  case (RBlock i f b c n)
  then show ?thesis using assms(2) on_block_stays[OF assms(1)] by (simp add: process_response_def)
next
  case (RDir i path es)
  then show ?thesis using assms on_dir_stays[OF assms(1,3)] by (auto simp: process_response_def)
qed (use assms(2) stays_call stays_refl[OF assms(1)] in \<open>auto simp: process_response_def on_digest_def Let_def split: if_splits\<close>)

lemma process_stays:
  "jobs_safe v \<Longrightarrow> process_file_responses w rs v = Some v' \<Longrightarrow> \<forall>dest\<in>dests v. joins w dest \<Longrightarrow> stays v v'"
proof (induction w rs v rule: process_file_responses.induct)
  case (2 w r rs v)
  then obtain v1 where v1: "process_response w r v = Some v1" "process_file_responses w rs v1 = Some v'"
    by (auto split: option.splits)
  note s1 = process_response_stays[OF 2(2) v1(1) 2(4)]
  then have "\<forall>dest\<in>dests v1. joins w dest" using 2(4) by (auto simp: stays_def)
  then have s2: "stays v1 v'" using 2(1)[OF v1(1)] v1(2) s1 by (simp add: stays_def)
  show ?case using s1 s2 touched_trans[of "dests v" v v1 "dests v1" v'] by (auto simp: stays_def)
qed (simp add: stays_refl)

section \<open>Both ends\<close>

fun numbered_blocks :: "i32 \<Rightarrow> i32 \<Rightarrow> u32 \<Rightarrow> bytes list \<Rightarrow> file_response list" where
  "numbered_blocks i f n [] = []"
| "numbered_blocks i f n (b # bs) = RBlock i f b False n # numbered_blocks i f (n + 1) bs"

lemma numbered_response: "numbered i f n bs = map Response (numbered_blocks i f n bs)"
  by (induction bs arbitrary: n) simp_all

lemma length_numbered: "length (numbered i f n bs) = length bs"
  by (induction bs arbitrary: n) simp_all

lemma received_numbered: "received (unat f) (numbered_blocks i f n bs) = concat bs"
  by (induction bs arbitrary: n) (simp_all add: block_data_def)

lemma numbered_job_block: "unat f < m \<Longrightarrow> r \<in> set (numbered_blocks i f n bs) \<Longrightarrow> job_block i m r"
  by (induction bs arbitrary: n) (auto simp: job_block_def)

lemma process_append:
  "process_file_responses w (as @ bs) v =
     (case process_file_responses w as v of None \<Rightarrow> None | Some v \<Rightarrow> process_file_responses w bs v)"
  by (induction as arbitrary: v) (auto split: option.split)

lemma upload_file_blocks:
  assumes "w_read_fault w path = NoFault" "d path = Some content" "offset \<le> length content"
  shows "upload_file w d i f path offset n = numbered_blocks i f n (read_blocks_from (drop offset content))"
  using assms(3)
proof (induction "length content - offset" arbitrary: offset n rule: less_induct)
  case less
  define data where "data = take BLOCK_SIZE (drop offset content)"
  have rd: "read_file_block (w_read_fault w path) d path offset = Some data"
    using assms(1,2) by (simp add: read_file_block_def data_def)
  show ?case
  proof (cases "offset = length content")
    case True
    then show ?thesis using rd by (subst upload_file.simps) (simp add: data_def read_blocks_from_Nil)
  next
    case False
    then have ne: "drop offset content \<noteq> []" using less.prems by simp
    then have nd: "data \<noteq> []" by (simp add: data_def BLOCK_SIZE_def)
    have rest: "drop (offset + length data) content = drop BLOCK_SIZE (drop offset content)"
      by (cases "BLOCK_SIZE \<le> length (drop offset content)") (simp_all add: data_def min_def add.commute)
    have le: "offset + length data \<le> length content" using False less.prems by (auto simp: data_def min_def)
    have "upload_file w d i f path (offset + length data) (n + 1) =
        numbered_blocks i f (n + 1) (read_blocks_from (drop (offset + length data) content))"
      using less.hyps[OF _ le] nd False less.prems by (simp add: diff_less_mono2)
    then show ?thesis
      using rd nd read_blocks_from_step[OF ne] by (subst upload_file.simps) (simp add: data_def[symmetric] rest)
  qed
qed

text \<open>The server taking a sequence of messages.\<close>

fun serve_responses :: "fs_world \<Rightarrow> file_response list \<Rightarrow> fs_server \<Rightarrow> fs_result" where
  "serve_responses w [] s = Inr s"
| "serve_responses w (r # rs) s = and_then (handle_file_response_server w r s) (serve_responses w rs)"

lemma serve_numbered: "serve_responses w (numbered_blocks i f n bs) s = upload_blocks (replicate (length bs) w) i f bs s"
proof (induction bs arbitrary: n s)
  case (Cons b bs)
  then have "serve_responses w (numbered_blocks i f (n + 1) bs) = upload_blocks (replicate (length bs) w) i f bs" by blast
  then show ?case by (simp add: handle_file_response_server_def)
qed simp

definition is_response :: "fs_msg \<Rightarrow> bool" where
  "is_response m = (case m of Response _ \<Rightarrow> True | _ \<Rightarrow> False)"

definition response_of :: "fs_msg \<Rightarrow> file_response" where
  "response_of m = (case m of Response r \<Rightarrow> r | _ \<Rightarrow> OtherResponse)"

definition single_job :: "rstr \<Rightarrow> view_job" where
  "single_job dest = \<lparr>vj_dest = dest, vj_files = [dest], vj_offsets = [0], vj_file_num = 0, vj_done_count = 0\<rparr>"

lemma download_received:
  assumes "map_of (v_jobs v) i = Some (single_job dest)" "dest \<noteq> []" "w_write_fault w dest = NoFault"
  shows "\<exists>v'. process_file_responses w (numbered_blocks i 0 n bs @ [RDone i 0]) v = Some v' \<and>
    v_disk v' = (if concat bs = [] then v_disk v else (v_disk v)(dest \<mapsto> concat bs)) \<and> map_of (v_jobs v') i = None"
proof -
  have "\<forall>r\<in>set (numbered_blocks i 0 n bs). job_block i (length [dest]) r" using numbered_job_block[of 0 1 _ i n bs] by auto
  then obtain v1 job1 where v1: "process_file_responses w (numbered_blocks i 0 n bs) v = Some v1" "map_of (v_jobs v1) i = Some job1"
      "vj_files job1 = [dest]" "vj_done_count job1 = 0"
      "v_disk v1 dest = (if concat bs = [] then v_disk v dest else Some (concat bs))" "\<forall>p. p \<noteq> dest \<longrightarrow> v_disk v1 p = v_disk v p"
    using blocks_run[OF assms(1), of "[dest]" "\<lambda>k. []" w "numbered_blocks i 0 n bs"] assms(2,3) received_numbered[of 0 i n bs]
    by (auto simp: single_job_def MAX_OFFSETS_def)
  have "v_disk v1 = (if concat bs = [] then v_disk v else (v_disk v)(dest \<mapsto> concat bs))"
  proof
    fix p
    show "v_disk v1 p = (if concat bs = [] then v_disk v else (v_disk v)(dest \<mapsto> concat bs)) p"
      using v1(5,6) by (cases "p = dest") auto
  qed
  then show ?thesis
    using v1 by (simp add: process_append process_response_def on_done_def delete_conv')
qed

section \<open>Properties\<close>

text \<open>C12: A file travels from the server's disk to the viewer's: the messages about it that the rounds of the server send, taken by the viewer
  that waits for them, put the same bytes at the destination, touch nothing else and close the job.\<close>

theorem download_travels:
  assumes "\<forall>w\<in>set ws. fs_world_ok path w" "keys_ok s" "fs_disk s path = Some content" "content \<noteq> []"
    and "map_of (fs_send s) (transfer_key i 0) = Some (job_at i 0 path (length content) 0 0)"
    and "length (read_blocks_from content) < length ws"
    and "map_of (v_jobs v) i = Some (single_job dest)" "dest \<noteq> []" "w_write_fault w dest = NoFault"
  shows "\<exists>s' new v'. rounds ws s = Inr s' \<and> fs_sent s' = fs_sent s @ new \<and>
    process_file_responses w (map response_of (filter (about i 0) new)) v = Some v' \<and>
    v_disk v' = (v_disk v)(dest \<mapsto> content) \<and> map_of (v_jobs v') i = None"
proof -
  obtain s' new where s': "rounds ws s = Inr s'" "fs_sent s' = fs_sent s @ new"
      "filter (about i 0) new = take (length ws) (numbered i 0 0 (read_blocks_from content) @ [Response (RDone i 0)])"
    using rounds_download[OF assms(1-3), of 0 i 0 0] assms(5) by (auto simp: rounds_end_def download_msgs_def)
  have "map response_of (filter (about i 0) new) = numbered_blocks i 0 0 (read_blocks_from content) @ [RDone i 0]"
    using s'(3) assms(6) length_numbered[of i 0 0 "read_blocks_from content"] by (simp add: numbered_response response_of_def comp_def)
  then show ?thesis
    using s' download_received[OF assms(7-9), of 0 "read_blocks_from content"] assms(4) by (auto simp: read_blocks_concat)
qed

theorem download_travels_witness:
  "\<exists>s' new v'. rounds [demo_world, demo_world, demo_world]
      (demo_server [[97] \<mapsto> [1, 2, 3]] [(transfer_key 4 0, job_at 4 0 [97] 3 0 0)] []) = Inr s' \<and> fs_sent s' = new \<and>
    process_file_responses demo_world (map response_of (filter (about 4 0) new))
      \<lparr>v_disk = Map.empty, v_jobs = [(4, single_job [98])], v_actions = [], v_ui = [], v_dirs = []\<rparr> = Some v' \<and>
    v_disk v' [98] = Some [1, 2, 3]"
proof -
  define c :: bytes where "c = [1, 2, 3]"
  let ?s = "demo_server [[97] \<mapsto> c] [(transfer_key 4 0, job_at 4 0 [97] 3 0 0)] []"
  let ?v = "\<lparr>v_disk = Map.empty, v_jobs = [(4, single_job [98])], v_actions = [], v_ui = [], v_dirs = []\<rparr>"
  have c: "read_blocks_from c = [c]" "length c = 3" "c \<noteq> []" by (simp_all add: c_def read_blocks_from.simps BLOCK_SIZE_def)
  have "keys_ok ?s" by (simp add: keys_ok_def demo_server_def job_at_def)
  then have "\<exists>s' new v'. rounds [demo_world, demo_world, demo_world] ?s = Inr s' \<and> fs_sent s' = fs_sent ?s @ new \<and>
      process_file_responses demo_world (map response_of (filter (about 4 0) new)) ?v = Some v' \<and>
      v_disk v' = (v_disk ?v)([98] \<mapsto> c) \<and> map_of (v_jobs v') 4 = None"
    using demo_world_ok c by (intro download_travels[where path = "[97]"]) (simp_all add: demo_server_def, simp_all add: demo_world_def)
  then show ?thesis by (auto simp: c_def demo_server_def simp del: rounds.simps)
qed

text \<open>C29: A file travels from the viewer's disk to the server's: the thread's messages for it, taken by the server, put the same bytes at the
  destination and touch nothing else.\<close>

theorem upload_travels:
  assumes "w_read_fault w path = NoFault" "d path = Some content" "content \<noteq> []"
    and "map_of (fs_write s) (transfer_key i f) = Some (new_write_job i f dest)" "w_write_fault w' dest = NoFault"
  shows "\<exists>s'. serve_responses w' (upload_file w d i f path 0 0) s = Inr s' \<and> fs_disk s' = (fs_disk s)(dest \<mapsto> content) \<and>
    fs_sent s' = fs_sent s"
proof -
  let ?bs = "read_blocks_from content"
  have run: "serve_responses w' (upload_file w d i f path 0 0) s = upload_blocks (replicate (length ?bs) w') i f ?bs s"
    using upload_file_blocks[of w path d content 0] assms(1,2) by (simp add: serve_numbered)
  have "\<not> wj_done (new_write_job i f dest)" "\<forall>u\<in>set (replicate (length ?bs) w'). w_write_fault u (wj_path (new_write_job i f dest)) = NoFault"
    using assms(5) by (simp_all add: new_write_job_def)
  from upload_blocks_run[OF assms(4) this, of ?bs] show ?thesis
    unfolding run using assms(3) by (auto simp: new_write_job_def write_blocks_start read_blocks_concat)
qed

theorem upload_travels_witness:
  "\<exists>s'. serve_responses demo_world (upload_file demo_world [[97] \<mapsto> [1, 2, 3]] 4 5 [97] 0 0)
     (demo_server Map.empty [] [(transfer_key 4 5, new_write_job 4 5 [98])]) = Inr s' \<and> fs_disk s' [98] = Some [1, 2, 3]"
  using upload_travels[of demo_world "[97]" "[[97] \<mapsto> [1, 2, 3]]" "[1, 2, 3]"
      "demo_server Map.empty [] [(transfer_key 4 5, new_write_job 4 5 [98])]" 4 5 "[98]" demo_world]
  by (auto simp: demo_world_def demo_server_def)

text \<open>C11: Whatever a server answers, the viewer writes only to the destinations of its jobs and to places below them, files and folders
  alike: no name leads out of the folder it is joined to, by its parts, a drive or a leading separator; and no answer gives the viewer
  another destination. This stays so when the user starts other downloads.\<close>

theorem viewer_writes_stay:
  assumes "jobs_safe v" "process_file_responses w rs v = Some v'" "\<forall>dest\<in>dests v. joins w dest"
  shows "jobs_safe v' \<and> dests v' \<subseteq> dests v \<and> jobs_safe (start_download i path dest n hidden v') \<and>
    (\<forall>p. v_disk v' p \<noteq> v_disk v p \<longrightarrow> (\<exists>dest\<in>dests v. belongs dest p)) \<and>
    (\<forall>p\<in>set (v_dirs v'). p \<in> set (v_dirs v) \<or> (\<exists>dest\<in>dests v. belongs dest p))"
  using process_stays[OF assms] by (simp add: stays_def touched_def start_download_def jobs_safe_update)

text \<open>A folder that is fetched with two files, one of them in a folder below, and a listing that would climb out.\<close>

definition demo_entry :: "rstr \<Rightarrow> file_entry" where
  "demo_entry name = \<lparr>fe_type = File, fe_name = name, fe_is_hidden = False, fe_size = 1, fe_modified_time = 0\<rparr>"

definition demo_viewer :: viewer where
  "demo_viewer = \<lparr>v_disk = Map.empty, v_jobs = [(4, single_job [98])], v_actions = [], v_ui = [], v_dirs = []\<rparr>"

lemma climbs_out: "\<not> belongs [98] [98, 92, 46, 46, 92, 120]"
proof
  assume "belongs [98] [98, 92, 46, 46, 92, 120]"
  then obtain q where q: "[98, 92, 46, 46, 92, 120] = rel_join [98] q" "\<forall>at. \<exists>more. follow at (split_seps q) = at @ more"
    by (auto simp: belongs_def)
  then have "q = [46, 46, 92, 120]" by (simp add: rel_join_def)
  then have "split_seps q = [[46, 46], [120]]" by (simp add: is_sep_def)
  moreover obtain more where "follow [[98]] (split_seps q) = [[98]] @ more" using q(2) by blast
  ultimately show False by simp
qed

theorem viewer_writes_stay_witness:
  "\<exists>v'. process_file_responses demo_world [RDir 4 [97] [demo_entry [120], demo_entry [121, 47, 122]], RBlock 4 1 [7] False 0,
      RDir 4 [97] [demo_entry [120], demo_entry [46, 46, 92, 120]], RBlock 4 1 [8] False 1] demo_viewer = Some v' \<and>
    v_disk v' [98, 92, 121, 47, 122] = Some [7] \<and> v_disk v' [98, 92, 46, 46, 92, 120] = None"
proof -
  let ?rs = "[RDir 4 [97] [demo_entry [120], demo_entry [121, 47, 122]], RBlock 4 1 [7] False 0,
      RDir 4 [97] [demo_entry [120], demo_entry [46, 46, 92, 120]], RBlock 4 1 [8] False 1]"
  have names: "download_names_safe [demo_entry [120], demo_entry [121, 47, 122]]" "\<not> download_names_safe [demo_entry [120], demo_entry [46, 46, 92, 120]]"
    by (simp_all add: download_names_safe_def is_safe_name_def is_sep_def demo_entry_def has_drive_def utf8_def utf8_char_def Let_def)
  have paths: "dir_paths demo_world [98] [demo_entry [120], demo_entry [121, 47, 122]] = ([[98, 92, 120], [98, 92, 121, 47, 122]], [])"
    by (simp add: demo_entry_def demo_world_def rel_join_def)
  let ?job = "\<lparr>vj_dest = [98], vj_files = [[98, 92, 120], [98, 92, 121, 47, 122]], vj_offsets = [0, 0], vj_file_num = 0, vj_done_count = 0\<rparr>"
  let ?v1 = "demo_viewer\<lparr>v_jobs := [(4, ?job)], v_ui := [FolderFiles 4 [97] [demo_entry [120], demo_entry [121, 47, 122]]]\<rparr>"
  have v1: "on_dir demo_world 4 [97] [demo_entry [120], demo_entry [121, 47, 122]] demo_viewer = ?v1"
    using names(1) paths by (simp add: on_dir_def demo_viewer_def single_job_def call_ui_def)
  let ?fs = "[[98, 92, 120], [98, 92, 121, 47, 122]] :: rstr list"
  have job: "map_of (v_jobs ?v1) 4 = Some ?job" "vj_files ?job = ?fs" "unat (1 :: i32) < length ?fs" "?fs ! unat (1 :: i32) \<noteq> []"
    "length ?fs \<le> MAX_OFFSETS" "length (vj_offsets ?job) = length ?fs" "vj_offsets ?job ! unat (1 :: i32) = length ([] :: bytes)"
    by (simp_all add: MAX_OFFSETS_def)
  have "w_write_fault demo_world (?fs ! unat (1 :: i32)) = NoFault" by (simp add: demo_world_def)
  from on_block_step[OF job disjI1[OF refl] this, of "[7]"]
  obtain v2 where v2': "on_block demo_world 4 1 [7] False ?v1 = Some v2" "map_of (v_jobs v2) 4 \<noteq> None"
      "v_disk v2 = (v_disk ?v1)(?fs ! unat (1 :: i32) \<mapsto> [] @ [7])"
    by auto
  have "v_disk ?v1 = Map.empty" "?fs ! unat (1 :: i32) = [98, 92, 121, 47, 122]" by (simp_all add: demo_viewer_def)
  then have v2: "on_block demo_world 4 1 [7] False ?v1 = Some v2" "v_disk v2 = [[98, 92, 121, 47, 122] \<mapsto> [7]]" "map_of (v_jobs v2) 4 \<noteq> None"
    using v2' by simp_all
  obtain v3 where v3: "on_dir demo_world 4 [97] [demo_entry [120], demo_entry [46, 46, 92, 120]] v2 = v3" "v_disk v3 = v_disk v2"
      "map_of (v_jobs v3) 4 = None"
    using names(2) v2(3) by (auto simp: on_dir_def call_ui_def send_file_action_def delete_conv')
  have v': "process_file_responses demo_world ?rs demo_viewer = Some v3"
    using v1 v2(1) v3 by (simp add: process_response_def) (simp add: on_block_def)
  have d: "dests demo_viewer = {[98]}" by (auto simp: dests_def single_job_def demo_viewer_def)
  have safe: "jobs_safe demo_viewer" "\<forall>dest\<in>dests demo_viewer. joins demo_world dest"
    by (auto simp: jobs_safe_def single_job_def belongs_def demo_viewer_def joins_def demo_world_def)
  have "v_disk v3 p \<noteq> v_disk demo_viewer p \<Longrightarrow> belongs [98] p" for p
    using viewer_writes_stay[OF safe(1) v' safe(2)] unfolding d by simp
  then have "v_disk v3 [98, 92, 46, 46, 92, 120] = v_disk demo_viewer [98, 92, 46, 46, 92, 120]" using climbs_out by metis
  then show ?thesis using v' v2(2) v3(2) by (simp add: demo_viewer_def)
qed

text \<open>A server can stop a viewer: a block with a negative file number for a job that exists aborts the process.\<close>

theorem negative_file_number_aborts:
  assumes "map_of (v_jobs v) i \<noteq> None" "- 1024 \<le> n" "n < 0"
  shows "process_file_responses w (RBlock i (word_of_int n) data compressed k # rs) v = None"
proof -
  have "(n + 2 ^ 32) mod 2 ^ 32 = n + 2 ^ 32" using assms(2,3) by (intro mod_pos_pos_trivial) simp_all
  moreover have "(n + 2 ^ 32) mod 2 ^ 32 = n mod 2 ^ 32" by (rule mod_add_self2)
  moreover have "uint (word_of_int n :: i32) = n mod 2 ^ 32" by (simp add: uint_word_of_int)
  ultimately have "uint (word_of_int n :: i32) = n + 2 ^ 32" by simp
  then have "unat (word_of_int n :: i32) \<ge> MAX_OFFSETS"
    using assms(2) by (simp add: MAX_OFFSETS_def le_nat_iff flip: nat_uint_eq)
  then show ?thesis using assms(1) by (auto simp: process_response_def on_block_def Let_def)
qed

theorem negative_file_number_aborts_witness:
  "process_file_responses demo_world [RBlock 4 (- 1) [7] False 0]
     \<lparr>v_disk = Map.empty, v_jobs = [(4, single_job [98])], v_actions = [], v_ui = [], v_dirs = []\<rparr> = None"
  using negative_file_number_aborts[of "\<lparr>v_disk = Map.empty, v_jobs = [(4, single_job [98])], v_actions = [], v_ui = [], v_dirs = []\<rparr>" 4 "- 1"
      demo_world "[7]" False 0 "[]"] by simp

end
