(* ===== verification/Script_Gc.thy ===== *)
theory Script_Gc
  imports Rust_Str "HOL-Library.AList"
begin

text \<open>
  The collector of the page scripts, \<open>wireui-xp/src/script/gc.rs\<close>. Values are shared by reference counts, so what has to be
  collected is what keeps itself alive; \<open>collect\<close> marks from the roots and empties every tracked cell that was not
  marked. The heap maps addresses to cells; as an address holds one kind of cell, the five mark sets of the
  code are one set here. Recursion runs on fuel, its depth; \<open>None\<close> is the end of the fuel.
\<close>

section \<open>Heap and registry\<close>

type_synonym addr = nat

datatype sv = Other | Array addr | Object addr | Class addr | Function addr

datatype cell =
    ArrayCell "sv list"
  | ObjectCell "addr option" "(rstr \<times> sv) list"
  | ClassCell "addr option" "(rstr \<times> sv) list" "(rstr \<times> sv) list" "addr option"
  | FuncCell addr "sv option"
  | EnvCell "(rstr \<times> sv) list" "addr option"

type_synonym heap = "addr \<rightharpoonup> cell"

record registry =
  objects :: "addr list"
  arrays :: "addr list"
  funcs :: "addr list"
  envs :: "addr list"
  allocs_since_gc :: nat

definition track_object :: "addr \<Rightarrow> registry \<Rightarrow> registry" where
  "track_object a r = r\<lparr>objects := objects r @ [a], allocs_since_gc := allocs_since_gc r + 1\<rparr>"

definition track_array :: "addr \<Rightarrow> registry \<Rightarrow> registry" where
  "track_array a r = r\<lparr>arrays := arrays r @ [a], allocs_since_gc := allocs_since_gc r + 1\<rparr>"

definition track_func :: "addr \<Rightarrow> registry \<Rightarrow> registry" where
  "track_func a r = r\<lparr>funcs := funcs r @ [a], allocs_since_gc := allocs_since_gc r + 1\<rparr>"

definition track_env :: "addr \<Rightarrow> registry \<Rightarrow> registry" where
  "track_env a r = r\<lparr>envs := envs r @ [a], allocs_since_gc := allocs_since_gc r + 1\<rparr>"

record gc_stats =
  objects_swept :: nat
  arrays_swept :: nat
  funcs_swept :: nat
  envs_swept :: nat
  tracked_after :: nat

section \<open>Scopes\<close>

text \<open>\<open>Env\<close>: a scope has its variables and the scope around it. The address of a new cell is the allocator's choice.\<close>

definition env_new :: "addr \<Rightarrow> addr option \<Rightarrow> heap \<times> registry \<Rightarrow> heap \<times> registry" where
  "env_new a parent st = ((fst st)(a \<mapsto> EnvCell [] parent), track_env a (snd st))"

definition env_define :: "addr \<Rightarrow> rstr \<Rightarrow> sv \<Rightarrow> heap \<Rightarrow> heap" where
  "env_define e name v h =
     (case h e of Some (EnvCell vars parent) \<Rightarrow> h(e \<mapsto> EnvCell (AList.update name v vars) parent) | _ \<Rightarrow> h)"

fun env_lookup :: "nat \<Rightarrow> heap \<Rightarrow> addr \<Rightarrow> rstr \<Rightarrow> sv option option" where
  "env_lookup 0 h e name = None"
| "env_lookup (Suc k) h e name =
     (case h e of
        Some (EnvCell vars parent) \<Rightarrow>
          (case map_of vars name of
             Some v \<Rightarrow> Some (Some v)
           | None \<Rightarrow> (case parent of Some p \<Rightarrow> env_lookup k h p name | None \<Rightarrow> Some None))
      | _ \<Rightarrow> None)"

fun env_assign :: "nat \<Rightarrow> heap \<Rightarrow> addr \<Rightarrow> rstr \<Rightarrow> sv \<Rightarrow> (bool \<times> heap) option" where
  "env_assign 0 h e name v = None"
| "env_assign (Suc k) h e name v =
     (case h e of
        Some (EnvCell vars parent) \<Rightarrow>
          (if map_of vars name \<noteq> None then Some (True, h(e \<mapsto> EnvCell (AList.update name v vars) parent))
           else (case parent of Some p \<Rightarrow> env_assign k h p name v | None \<Rightarrow> Some (False, h)))
      | _ \<Rightarrow> None)"

section \<open>Marking\<close>

definition sv_ref :: "sv \<Rightarrow> addr list" where
  "sv_ref v = (case v of Other \<Rightarrow> [] | Array a \<Rightarrow> [a] | Object a \<Rightarrow> [a] | Class a \<Rightarrow> [a] | Function a \<Rightarrow> [a])"

definition refs :: "sv list \<Rightarrow> addr list" where
  "refs vs = concat (map sv_ref vs)"

definition opt_ref :: "addr option \<Rightarrow> addr list" where
  "opt_ref p = (case p of None \<Rightarrow> [] | Some a \<Rightarrow> [a])"

text \<open>What \<open>mark_sv\<close>, \<open>mark_env\<close> and \<open>mark_class\<close> go on to, in their order: the arguments of \<open>ClassCell\<close> are base, methods,
  class properties and class environment, those of \<open>FuncCell\<close> the environment and the captured \<open>this\<close>.\<close>

definition children :: "cell \<Rightarrow> addr list" where
  "children c =
     (case c of
        ArrayCell items \<Rightarrow> refs items
      | ObjectCell cls props \<Rightarrow> refs (map snd props) @ opt_ref cls
      | ClassCell base methods props env \<Rightarrow> refs (map snd methods) @ refs (map snd props) @ opt_ref env @ opt_ref base
      | FuncCell env this_capture \<Rightarrow> (case this_capture of None \<Rightarrow> [] | Some t \<Rightarrow> sv_ref t) @ [env]
      | EnvCell vars parent \<Rightarrow> refs (map snd vars) @ opt_ref parent)"

definition succs :: "heap \<Rightarrow> addr \<Rightarrow> addr list" where
  "succs h a = (case h a of None \<Rightarrow> [] | Some c \<Rightarrow> children c)"

fun mark :: "nat \<Rightarrow> heap \<Rightarrow> addr \<Rightarrow> addr set \<Rightarrow> addr set option"
and mark_all :: "nat \<Rightarrow> heap \<Rightarrow> addr list \<Rightarrow> addr set \<Rightarrow> addr set option" where
  "mark 0 h a m = None"
| "mark (Suc k) h a m = (if a \<in> m then Some m else mark_all k h (succs h a) (insert a m))"
| "mark_all k h [] m = Some m"
| "mark_all k h (a # as) m = (case mark k h a m of None \<Rightarrow> None | Some m \<Rightarrow> mark_all k h as m)"

section \<open>Collecting\<close>

definition swept :: "heap \<Rightarrow> addr set \<Rightarrow> addr list \<Rightarrow> addr list" where
  "swept h m as = filter (\<lambda>a. h a \<noteq> None \<and> a \<notin> m) as"

definition retained :: "heap \<Rightarrow> addr set \<Rightarrow> addr list \<Rightarrow> addr list" where
  "retained h m as = filter (\<lambda>a. h a \<noteq> None \<and> a \<in> m) as"

definition clear_cell :: "cell \<Rightarrow> cell" where
  "clear_cell c =
     (case c of
        ObjectCell cls props \<Rightarrow> ObjectCell None []
      | ArrayCell items \<Rightarrow> ArrayCell []
      | EnvCell vars parent \<Rightarrow> EnvCell [] parent
      | _ \<Rightarrow> c)"

definition clear_all :: "addr list \<Rightarrow> heap \<Rightarrow> heap" where
  "clear_all as h = fold (\<lambda>a h. h(a := map_option clear_cell (h a))) as h"

definition collect :: "nat \<Rightarrow> sv list \<Rightarrow> addr list \<Rightarrow> heap \<Rightarrow> registry \<Rightarrow> (gc_stats \<times> heap \<times> registry) option" where
  "collect fuel roots root_envs h reg =
     (case mark_all fuel h (refs roots @ root_envs) {} of
        None \<Rightarrow> None
      | Some m \<Rightarrow>
          (let reg' = \<lparr>objects = retained h m (objects reg), arrays = retained h m (arrays reg), funcs = retained h m (funcs reg),
                       envs = retained h m (envs reg), allocs_since_gc = 0\<rparr>;
               clear_objects = swept h m (objects reg); clear_arrays = swept h m (arrays reg); clear_envs = swept h m (envs reg);
               stats = \<lparr>objects_swept = length clear_objects, arrays_swept = length clear_arrays,
                        funcs_swept = length (swept h m (funcs reg)), envs_swept = length clear_envs,
                        tracked_after = length (objects reg') + length (arrays reg') + length (funcs reg') + length (envs reg')\<rparr>
           in Some (stats, clear_all clear_envs (clear_all clear_arrays (clear_all clear_objects h)), reg')))"

text \<open>\<open>Interp::gc\<close> runs only between evaluations (\<open>assert_eq!(self.depth, 0)\<close>); an event that waits holds three values.\<close>

record pending_event =
  pe_func :: sv
  pe_this :: sv
  pe_target :: sv

record interp =
  global :: addr
  self_object :: sv
  view_object :: sv
  depth :: nat
  pending_events :: "pending_event list"

datatype gc_error = MidEval

definition gc_roots :: "interp \<Rightarrow> sv list \<Rightarrow> sv list" where
  "gc_roots i extra_roots =
     [self_object i, view_object i] @ extra_roots @ concat (map (\<lambda>pe. [pe_func pe, pe_this pe, pe_target pe]) (pending_events i))"

definition gc :: "nat \<Rightarrow> interp \<Rightarrow> sv list \<Rightarrow> heap \<times> registry \<Rightarrow> (gc_error + gc_stats \<times> heap \<times> registry) option" where
  "gc fuel i extra_roots st =
     (if depth i \<noteq> 0 then Some (Inl MidEval)
      else map_option Inr (collect fuel (gc_roots i extra_roots) [global i] (fst st) (snd st)))"

section \<open>Marking is reachability\<close>

definition edge :: "heap \<Rightarrow> addr \<Rightarrow> addr \<Rightarrow> bool" where
  "edge h a b \<longleftrightarrow> b \<in> set (succs h a)"

inductive reach :: "heap \<Rightarrow> addr set \<Rightarrow> addr \<Rightarrow> bool" for h :: heap and rs :: "addr set" where
  root: "a \<in> rs \<Longrightarrow> reach h rs a"
| follow: "reach h rs a \<Longrightarrow> edge h a b \<Longrightarrow> reach h rs b"

lemma reach_mono: "reach h rs a \<Longrightarrow> (\<And>r. r \<in> rs \<Longrightarrow> reach h rs' r) \<Longrightarrow> reach h rs' a"
  by (induction rule: reach.induct) (auto intro: reach.follow)

lemma reach_empty: "\<not> reach h {} a"
proof
  assume "reach h {} a"
  then show False by (induction rule: reach.induct) auto
qed

text \<open>What is newly marked is reached and has its successors marked.\<close>

definition explored :: "heap \<Rightarrow> addr set \<Rightarrow> addr set \<Rightarrow> addr set \<Rightarrow> bool" where
  "explored h rs m m' \<longleftrightarrow>
     m \<subseteq> m' \<and> rs \<subseteq> m' \<and> (\<forall>a\<in>m' - m. reach h rs a \<and> set (succs h a) \<subseteq> m')"

lemma explored_mark:
  "mark k h a m = Some m' \<Longrightarrow> explored h {a} m m'"
  "mark_all k h as m = Some m' \<Longrightarrow> explored h (set as) m m'"
proof (induction k h a m and k h as m arbitrary: m' and m' rule: mark_mark_all.induct)
  case (2 k h a m)
  show ?case
  proof (cases "a \<in> m")
    case True
    then show ?thesis using 2(2) by (auto simp: explored_def)
  next
    case False
    then have e: "explored h (set (succs h a)) (insert a m) m'" using 2 by simp
    have "reach h {a} b" if "reach h (set (succs h a)) b" for b
    proof (rule reach_mono[OF that])
      fix r assume "r \<in> set (succs h a)"
      then have "edge h a r" by (simp add: edge_def)
      then show "reach h {a} r" by (intro reach.follow[OF reach.root]) simp_all
    qed
    moreover have "reach h {a} a" by (rule reach.root) simp
    ultimately show ?thesis using e False by (auto simp: explored_def)
  qed
next
  case (4 k h a as m)
  then obtain m1 where m1: "mark k h a m = Some m1" "mark_all k h as m1 = Some m'" by (auto split: option.splits)
  have e1: "explored h {a} m m1" and e2: "explored h (set as) m1 m'" using 4 m1 by auto
  have mono: "reach h (set (a # as)) b" if "reach h {a} b \<or> reach h (set as) b" for b
    using that by (auto elim!: reach_mono intro: reach.root)
  show ?case
    unfolding explored_def
  proof (intro conjI ballI)
    show "m \<subseteq> m'" "set (a # as) \<subseteq> m'" using e1 e2 by (auto simp: explored_def)
    fix b assume b: "b \<in> m' - m"
    show "reach h (set (a # as)) b" "set (succs h b) \<subseteq> m'"
      using b e1 e2 mono[of b] unfolding explored_def by (cases "b \<in> m1"; blast)+
  qed
qed (auto simp: explored_def reach_empty)

lemma marks_are_reachable:
  assumes "mark_all k h as {} = Some m"
  shows "m = {a. reach h (set as) a}"
proof
  have e: "explored h (set as) {} m" using explored_mark(2)[OF assms] .
  then show "m \<subseteq> {a. reach h (set as) a}" by (auto simp: explored_def)
  have "a \<in> m" if "reach h (set as) a" for a
    using that by (induction rule: reach.induct) (use e in \<open>auto simp: explored_def edge_def\<close>)
  then show "{a. reach h (set as) a} \<subseteq> m" by blast
qed

text \<open>The depth never exceeds the number of cells.\<close>

lemma mark_enough:
  "finite U \<Longrightarrow> (\<And>a. a \<in> U \<Longrightarrow> set (succs h a) \<subseteq> U) \<Longrightarrow> m \<subseteq> U \<Longrightarrow> a \<in> U \<Longrightarrow> card (U - m) < k \<Longrightarrow>
     \<exists>m'. mark k h a m = Some m' \<and> m \<subseteq> m' \<and> m' \<subseteq> U"
  "finite U \<Longrightarrow> (\<And>a. a \<in> U \<Longrightarrow> set (succs h a) \<subseteq> U) \<Longrightarrow> m \<subseteq> U \<Longrightarrow> set as \<subseteq> U \<Longrightarrow> card (U - m) < k \<Longrightarrow>
     \<exists>m'. mark_all k h as m = Some m' \<and> m \<subseteq> m' \<and> m' \<subseteq> U"
proof (induction k h a m and k h as m rule: mark_mark_all.induct)
  case (2 k h a m)
  show ?case
  proof (cases "a \<in> m")
    case False
    then have "card (U - insert a m) < card (U - m)" using 2(2,5) by (intro psubset_card_mono) auto
    then have "card (U - insert a m) < k" using 2(6) by simp
    then show ?thesis using 2(1)[OF False 2(2,3)] 2(3)[OF 2(5)] 2(4,5) False by auto
  qed (use 2 in auto)
next
  case (4 k h a as m)
  then obtain m1 where m1: "mark k h a m = Some m1" "m \<subseteq> m1" "m1 \<subseteq> U" by auto
  then have "card (U - m1) \<le> card (U - m)" using 4(3) by (intro card_mono) auto
  then have "card (U - m1) < k" using 4(7) by simp
  then obtain m' where "mark_all k h as m1 = Some m'" "m1 \<subseteq> m'" "m' \<subseteq> U"
    using 4(2)[OF m1(1) 4(3,4) m1(3)] 4(6) by auto
  then show ?case using m1 by auto
qed auto

section \<open>What a collection leaves\<close>

definition live_cells :: "heap \<Rightarrow> sv list \<Rightarrow> addr list \<Rightarrow> addr set" where
  "live_cells h roots root_envs = {a. reach h (set (refs roots @ root_envs)) a}"

text \<open>Counted references do not dangle.\<close>

definition no_dangling :: "heap \<Rightarrow> addr list \<Rightarrow> bool" where
  "no_dangling h rs \<longleftrightarrow> finite (dom h) \<and> set rs \<subseteq> dom h \<and> (\<forall>a\<in>dom h. set (succs h a) \<subseteq> dom h)"

definition cleared :: "registry \<Rightarrow> addr set" where
  "cleared reg = set (objects reg) \<union> set (arrays reg) \<union> set (envs reg)"

lemma clear_cell_idem [simp]: "clear_cell (clear_cell c) = clear_cell c"
  by (simp add: clear_cell_def split: cell.splits)

lemma clear_all_app: "clear_all as h a = (if a \<in> set as then map_option clear_cell (h a) else h a)"
proof -
  have "fold (\<lambda>a h. h(a := map_option clear_cell (h a))) as h a = (if a \<in> set as then map_option clear_cell (h a) else h a)" for h
    by (induction as arbitrary: h) (auto simp: option.map_comp comp_def)
  then show ?thesis by (simp add: clear_all_def)
qed

lemma clear_all_swept:
  "clear_all (swept h m es) (clear_all (swept h m as) (clear_all (swept h m os) h)) a =
     (if a \<in> m \<or> a \<notin> set os \<union> set as \<union> set es then h a else map_option clear_cell (h a))"
  by (auto simp: clear_all_app swept_def option.map_comp comp_def)

lemma collect_result:
  assumes "collect fuel roots root_envs h reg = Some (stats, h', reg')"
  shows "h' = (\<lambda>a. if a \<in> live_cells h roots root_envs \<or> a \<notin> cleared reg then h a else map_option clear_cell (h a))"
    and "reg' = (let keep = filter (\<lambda>a. h a \<noteq> None \<and> a \<in> live_cells h roots root_envs)
                 in \<lparr>objects = keep (objects reg), arrays = keep (arrays reg), funcs = keep (funcs reg), envs = keep (envs reg),
                     allocs_since_gc = 0\<rparr>)"
    and "tracked_after stats = length (objects reg') + length (arrays reg') + length (funcs reg') + length (envs reg')"
proof -
  obtain m where m: "mark_all fuel h (refs roots @ root_envs) {} = Some m"
    and r: "h' = clear_all (swept h m (envs reg)) (clear_all (swept h m (arrays reg)) (clear_all (swept h m (objects reg)) h))"
      "reg' = \<lparr>objects = retained h m (objects reg), arrays = retained h m (arrays reg), funcs = retained h m (funcs reg),
               envs = retained h m (envs reg), allocs_since_gc = 0\<rparr>"
      "tracked_after stats = length (objects reg') + length (arrays reg') + length (funcs reg') + length (envs reg')"
    using assms unfolding collect_def Let_def by (auto split: option.splits)
  have live: "live_cells h roots root_envs = m" using marks_are_reachable[OF m] by (simp add: live_cells_def)
  show "h' = (\<lambda>a. if a \<in> live_cells h roots root_envs \<or> a \<notin> cleared reg then h a else map_option clear_cell (h a))"
    unfolding r(1) live cleared_def by (rule ext) (simp only: clear_all_swept)
  show "reg' = (let keep = filter (\<lambda>a. h a \<noteq> None \<and> a \<in> live_cells h roots root_envs)
                 in \<lparr>objects = keep (objects reg), arrays = keep (arrays reg), funcs = keep (funcs reg), envs = keep (envs reg),
                     allocs_since_gc = 0\<rparr>)"
    unfolding r(2) live retained_def Let_def ..
qed (use assms in \<open>auto simp: collect_def Let_def split: option.splits\<close>)

lemma collect_enough:
  assumes "no_dangling h (refs roots @ root_envs)" "card (dom h) < fuel"
  shows "\<exists>stats h' reg'. collect fuel roots root_envs h reg = Some (stats, h', reg')"
proof -
  have "\<exists>m'. mark_all fuel h (refs roots @ root_envs) {} = Some m' \<and> {} \<subseteq> m' \<and> m' \<subseteq> dom h"
    using assms by (intro mark_enough(2)) (auto simp: no_dangling_def)
  then show ?thesis by (auto simp: collect_def Let_def)
qed

lemma reach_cong:
  assumes "\<And>a. reach h rs a \<Longrightarrow> h' a = h a"
  shows "reach h' rs a \<longleftrightarrow> reach h rs a"
proof
  have edges: "edge h' b c = edge h b c" if "reach h rs b" for b c
    using assms[OF that] by (simp add: edge_def succs_def)
  show "reach h' rs a" if "reach h rs a"
    using that by (induction rule: reach.induct) (auto intro: reach.intros simp: edges)
  show "reach h rs a" if "reach h' rs a"
    using that by (induction rule: reach.induct) (auto intro: reach.intros simp: edges)
qed

text \<open>C32: 
  A collection reaches its end within as many nested calls as there are cells. It marks exactly what can be reached from the roots: every
  reachable cell is as before, every unreachable object, array and scope of the registry is emptied, nothing else
  is touched; the registry keeps exactly the reachable entries that live, the counter restarts, and what is reachable
  stays the same, so that a second collection has nothing to do.
\<close>
theorem gc_exact:
  assumes "no_dangling h (refs roots @ root_envs)" "card (dom h) < fuel"
  shows "\<exists>stats h' reg'. collect fuel roots root_envs h reg = Some (stats, h', reg') \<and>
           h' = (\<lambda>a. if a \<in> live_cells h roots root_envs \<or> a \<notin> cleared reg then h a else map_option clear_cell (h a)) \<and>
           set (objects reg') = {a \<in> set (objects reg). h a \<noteq> None \<and> a \<in> live_cells h roots root_envs} \<and>
           set (arrays reg') = {a \<in> set (arrays reg). h a \<noteq> None \<and> a \<in> live_cells h roots root_envs} \<and>
           set (funcs reg') = {a \<in> set (funcs reg). h a \<noteq> None \<and> a \<in> live_cells h roots root_envs} \<and>
           set (envs reg') = {a \<in> set (envs reg). h a \<noteq> None \<and> a \<in> live_cells h roots root_envs} \<and>
           allocs_since_gc reg' = 0 \<and>
           tracked_after stats = length (objects reg') + length (arrays reg') + length (funcs reg') + length (envs reg') \<and>
           live_cells h' roots root_envs = live_cells h roots root_envs"
proof -
  obtain stats h' reg' where c: "collect fuel roots root_envs h reg = Some (stats, h', reg')" using collect_enough[OF assms] by blast
  note r = collect_result[OF c]
  have "live_cells h' roots root_envs = live_cells h roots root_envs"
    unfolding live_cells_def by (intro Collect_cong reach_cong) (simp add: r(1) live_cells_def)
  then show ?thesis using c r(1,3) by (intro exI[of _ stats] exI[of _ h'] exI[of _ reg']) (simp add: r(2) Let_def)
qed

text \<open>A page scope 0 with one object, and an object and an array that hold each other.\<close>

definition sample_heap :: heap where
  "sample_heap = [0 \<mapsto> EnvCell [([], Object 1)] None, 1 \<mapsto> ObjectCell None [],
                  2 \<mapsto> ObjectCell None [([], Array 3)], 3 \<mapsto> ArrayCell [Object 2]]"

definition sample_registry :: registry where
  "sample_registry = \<lparr>objects = [1, 2], arrays = [3], funcs = [], envs = [0], allocs_since_gc = 4\<rparr>"

lemmas sample_simps = sample_heap_def sample_registry_def succs_def children_def refs_def opt_ref_def sv_ref_def

lemma sample_closed: "no_dangling sample_heap (refs [] @ [0])"
  by (simp add: no_dangling_def sample_simps)

lemma sample_small: "card (dom sample_heap) < 5"
  by (simp add: sample_heap_def)

theorem gc_exact_witness:
  "\<exists>stats h' reg'. collect 5 [] [0] sample_heap sample_registry = Some (stats, h', reg') \<and> allocs_since_gc reg' = 0"
  using gc_exact[OF sample_closed sample_small, of sample_registry] by blast

section \<open>No cycle keeps itself\<close>

text \<open>A scope's parent, and a function's scope and captured \<open>this\<close>, exist before it and never change.\<close>

definition made_after :: "(addr \<Rightarrow> nat) \<Rightarrow> heap \<Rightarrow> bool" where
  "made_after age h \<longleftrightarrow>
     (\<forall>a\<in>dom h. case h a of
        Some (EnvCell vars parent) \<Rightarrow> (\<forall>p\<in>set (opt_ref parent). age p < age a)
      | Some (FuncCell env this_capture) \<Rightarrow> (\<forall>p\<in>set (succs h a). age p < age a)
      | _ \<Rightarrow> True)"

definition is_class :: "heap \<Rightarrow> addr \<Rightarrow> bool" where
  "is_class h a = (case h a of Some (ClassCell _ _ _ _) \<Rightarrow> True | _ \<Rightarrow> False)"

definition is_swept_kind :: "heap \<Rightarrow> addr \<Rightarrow> bool" where
  "is_swept_kind h a = (case h a of Some (ObjectCell _ _) \<Rightarrow> True | Some (ArrayCell _) \<Rightarrow> True | Some (EnvCell _ _) \<Rightarrow> True | _ \<Rightarrow> False)"

text \<open>Every object, array and scope was registered when it was made, and only collections take it out.\<close>

definition garbage_tracked :: "heap \<Rightarrow> addr set \<Rightarrow> registry \<Rightarrow> bool" where
  "garbage_tracked h live reg \<longleftrightarrow> (\<forall>a\<in>dom h. is_swept_kind h a \<and> a \<notin> live \<longrightarrow> a \<in> cleared reg)"

definition garbage_edge :: "heap \<Rightarrow> addr set \<Rightarrow> addr \<Rightarrow> addr \<Rightarrow> bool" where
  "garbage_edge h live a b \<longleftrightarrow> edge h a b \<and> a \<notin> live \<and> \<not> is_class h a"

lemma garbage_edge_older:
  assumes "collect fuel roots root_envs h reg = Some (stats, h', reg')" "made_after age h"
    "garbage_tracked h (live_cells h roots root_envs) reg"
    "garbage_edge h' (live_cells h roots root_envs) a b"
  shows "age b < age a"
proof -
  have dead: "a \<notin> live_cells h roots root_envs" and e: "b \<in> set (succs h' a)" and nc: "\<not> is_class h' a"
    using assms(4) by (auto simp: garbage_edge_def edge_def)
  have h': "h' a = (if a \<notin> cleared reg then h a else map_option clear_cell (h a))"
    using collect_result(1)[OF assms(1)] dead by simp
  have a: "a \<in> dom h" using e h' by (cases "h a") (auto simp: succs_def split: if_splits)
  have age: "case h a of Some (EnvCell vars parent) \<Rightarrow> (\<forall>p\<in>set (opt_ref parent). age p < age a)
      | Some (FuncCell env this_capture) \<Rightarrow> (\<forall>p\<in>set (succs h a). age p < age a) | _ \<Rightarrow> True"
    using assms(2) a by (simp add: made_after_def)
  have tr: "is_swept_kind h a \<Longrightarrow> a \<in> cleared reg" using assms(3) a dead by (simp add: garbage_tracked_def)
  obtain c where c: "h a = Some c" using a by auto
  show ?thesis
  proof (cases c)
    case (EnvCell vars parent)
    then have "h' a = Some (EnvCell [] parent)" using h' tr c by (simp add: is_swept_kind_def clear_cell_def)
    then show ?thesis using e age c EnvCell by (simp add: succs_def children_def refs_def)
  next
    case (FuncCell env this_capture)
    then have "h' a = h a" using h' c by (simp add: clear_cell_def)
    then show ?thesis using e age c FuncCell by (simp add: succs_def)
  next
    case (ClassCell base methods props env)
    then have "h' a = h a" using h' c by (simp add: clear_cell_def)
    then show ?thesis using nc c ClassCell by (simp add: is_class_def)
  qed (use h' tr c e in \<open>auto simp: is_swept_kind_def clear_cell_def succs_def children_def refs_def opt_ref_def\<close>)
qed

text \<open>C33: 
  After a collection no cycle of references is left among the unreachable cells unless it goes through a class: the cells
  are then freed by their counts. (Classes are not in the registry: a class that holds itself in a static property stays.)
\<close>
theorem gc_breaks_cycles:
  assumes "collect fuel roots root_envs h reg = Some (stats, h', reg')" "made_after age h"
    "garbage_tracked h (live_cells h roots root_envs) reg"
  shows "\<not> (garbage_edge h' (live_cells h roots root_envs))\<^sup>+\<^sup>+ a a"
proof
  have "age y < age x" if "(garbage_edge h' (live_cells h roots root_envs))\<^sup>+\<^sup>+ x y" for x y
    using that by (induction rule: tranclp_induct) (use garbage_edge_older[OF assms] in \<open>auto intro: less_trans\<close>)
  then show False if "(garbage_edge h' (live_cells h roots root_envs))\<^sup>+\<^sup>+ a a" using that by blast
qed

lemma sample_tracked: "garbage_tracked sample_heap live sample_registry"
  by (simp add: garbage_tracked_def cleared_def sample_heap_def sample_registry_def)

lemma sample_made_after: "made_after id sample_heap"
  by (simp add: made_after_def sample_simps)

theorem gc_breaks_cycles_witness:
  "\<exists>h'. (\<exists>stats reg'. collect 5 [] [0] sample_heap sample_registry = Some (stats, h', reg')) \<and>
        \<not> (garbage_edge h' (live_cells sample_heap [] [0]))\<^sup>+\<^sup>+ 2 2 \<and>
        (garbage_edge sample_heap {0, 1})\<^sup>+\<^sup>+ 2 2"
proof -
  obtain stats h' reg' where c: "collect 5 [] [0] sample_heap sample_registry = Some (stats, h', reg')"
    using collect_enough[OF sample_closed sample_small] by blast
  have "garbage_edge sample_heap {0, 1} 2 3" "garbage_edge sample_heap {0, 1} 3 2"
    by (simp_all add: garbage_edge_def edge_def is_class_def sample_simps)
  then have "(garbage_edge sample_heap {0, 1})\<^sup>+\<^sup>+ 2 2" by (blast intro: tranclp.intros)
  then show ?thesis using gc_breaks_cycles[OF c sample_made_after sample_tracked] c by blast
qed

section \<open>Scopes: lookup and assignment\<close>

lemma env_assign_cell:
  "env_assign k h e x v = Some (ok, h') \<Longrightarrow>
     (ok \<and> (\<exists>e1 vars p. h e1 = Some (EnvCell vars p) \<and> map_of vars x \<noteq> None \<and> h' = h(e1 \<mapsto> EnvCell (AList.update x v vars) p))) \<or>
     (\<not> ok \<and> h' = h)"
  by (induction k h e x v rule: env_assign.induct) (auto split: option.splits cell.splits if_splits)

lemma env_lookup_other:
  assumes "h e1 = Some (EnvCell vars p)" "y \<noteq> x"
  shows "env_lookup k (h(e1 \<mapsto> EnvCell (AList.update x v vars) p)) e y = env_lookup k h e y"
  using assms by (induction k arbitrary: e) (auto simp: update_conv' split: option.splits cell.splits)

lemma env_assign_lookup:
  "env_assign k h e x v = Some (ok, h') \<Longrightarrow>
     (ok \<longrightarrow> env_lookup k h' e x = Some (Some v) \<and> (\<exists>w. env_lookup k h e x = Some (Some w))) \<and>
     (\<not> ok \<longrightarrow> env_lookup k h e x = Some None)"
proof (induction k h e x v rule: env_assign.induct)
  case (2 k h e x v)
  then obtain vars parent where e: "h e = Some (EnvCell vars parent)" by (auto split: option.splits cell.splits)
  show ?case
  proof (cases "map_of vars x")
    case None
    show ?thesis
    proof (cases parent)
      case (Some p)
      then have a: "env_assign k h p x v = Some (ok, h')" using 2(2) e None by simp
      have "h' e = h e" using env_assign_cell[OF a] e None by auto
      then show ?thesis using 2(1)[OF e refl _ Some a] a e None Some by simp
    qed (use 2 e None in auto)
  qed (use 2 e in \<open>auto simp: update_conv'\<close>)
qed auto

lemma env_define_lookup:
  assumes "h e = Some (EnvCell vars p)"
  shows "env_lookup (Suc k) (env_define e x v h) e x = Some (Some v)"
    and "y \<noteq> x \<Longrightarrow> env_lookup k (env_define e x v h) e' y = env_lookup k h e' y"
  using assms by (simp_all add: env_define_def update_conv' env_lookup_other)

text \<open>
  Scoping: an assignment succeeds when a scope of the chain has the name, and every such lookup from that scope then yields the
  value; one that does not find the name changes nothing. No other name is affected in any scope. A definition binds the name in its
  own scope and hides the outer one.
\<close>
theorem scopes_assign:
  assumes "env_assign k h e x v = Some (ok, h')"
  shows "ok = (\<exists>w. env_lookup k h e x = Some (Some w)) \<and>
         env_lookup k h' e x = Some (if ok then Some v else None) \<and>
         (if ok then \<forall>y j e'. y = x \<or> env_lookup j h' e' y = env_lookup j h e' y else h' = h) \<and>
         env_lookup (Suc j) (env_define e x w h) e x = Some (Some w) \<and>
         (\<forall>y j e'. y = x \<or> env_lookup j (env_define e x w h) e' y = env_lookup j h e' y)"
proof -
  obtain vars p where e: "h e = Some (EnvCell vars p)"
    using assms by (cases k) (auto split: option.splits cell.splits)
  have "ok = (\<exists>w. env_lookup k h e x = Some (Some w)) \<and> env_lookup k h' e x = Some (if ok then Some v else None)"
    using env_assign_lookup[OF assms] env_assign_cell[OF assms] by (cases ok) auto
  moreover have "if ok then \<forall>y j e'. y = x \<or> env_lookup j h' e' y = env_lookup j h e' y else h' = h"
    using env_assign_cell[OF assms] by (auto simp: env_lookup_other)
  ultimately show ?thesis
    using env_define_lookup(1)[of h e vars p, OF e] env_define_lookup(2)[of h e vars p, OF e] by blast
qed

lemma sample_assign: "env_assign 1 sample_heap 0 [] Other = Some (True, sample_heap(0 \<mapsto> EnvCell [([], Other)] None))"
  by (simp add: sample_heap_def)

theorem scopes_assign_witness:
  "env_lookup 1 (sample_heap(0 \<mapsto> EnvCell [([], Other)] None)) 0 [] = Some (Some Other)"
  using scopes_assign[OF sample_assign] by simp

end
