(* ===== verification/Viewer_Session.thy ===== *)
theory Viewer_Session
  imports Session_Login
begin

text \<open>
  The viewer's side of a connection up to the session itself: \<open>client_handshake\<close>, \<open>run_client_inner\<close> until the peer has
  let the viewer in, and \<open>send_invite_on_stream\<close> of \<open>src/src/client.rs\<close>, with the keys pinned per peer. As on the server's
  side every place where the code receives is a phase and one received message is one step; \<open>vturn\<close> is
  what the step sees from outside. Messages are taken after protobuf decoding; the signature check and the decoding
  of the signed record are parameters.
\<close>

section \<open>Addresses\<close>

text \<open>\<open>str::parse::<IpAddr>\<close> of the Rust library: its number, group and separator readers.\<close>

definition is_digit_in :: "nat \<Rightarrow> rchar \<Rightarrow> bool" where
  "is_digit_in radix c \<longleftrightarrow> (case hex_value c of None \<Rightarrow> False | Some d \<Rightarrow> d < radix)"

definition read_number :: "nat \<Rightarrow> nat \<Rightarrow> nat \<Rightarrow> bool \<Rightarrow> rstr \<Rightarrow> (nat \<times> rstr) option" where
  "read_number radix max_digits bound allow_zero_prefix s =
     (let ds = takeWhile (is_digit_in radix) s;
          n = foldl (\<lambda>acc c. radix * acc + the (hex_value c)) 0 ds
      in if ds = [] \<or> length ds > max_digits \<or> n \<ge> bound \<or> \<not> allow_zero_prefix \<and> hd ds = 48 \<and> length ds > 1 then None
         else Some (n, drop (length ds) s))"

definition read_separator :: "rchar \<Rightarrow> nat \<Rightarrow> (rstr \<Rightarrow> 'a option) \<Rightarrow> rstr \<Rightarrow> 'a option" where
  "read_separator sep i p s =
     (if i = 0 then p s else case s of [] \<Rightarrow> None | c # r \<Rightarrow> if c = sep then p r else None)"

fun read_parts :: "nat \<Rightarrow> nat \<Rightarrow> rstr \<Rightarrow> (nat list \<times> rstr) option" where
  "read_parts 0 i s = Some ([], s)"
| "read_parts (Suc k) i s =
     (case read_separator 46 i (read_number 10 3 256 False) s of
        None \<Rightarrow> None
      | Some (n, r) \<Rightarrow> (case read_parts k (Suc i) r of None \<Rightarrow> None | Some (ns, r) \<Rightarrow> Some (n # ns, r)))"

definition read_ipv4 :: "rstr \<Rightarrow> (nat list \<times> rstr) option" where
  "read_ipv4 s = read_parts 4 0 s"

text \<open>Up to \<open>k\<close> groups, the last two of which may be written as an IPv4 address.\<close>

fun read_groups :: "nat \<Rightarrow> nat \<Rightarrow> rstr \<Rightarrow> nat list \<times> bool \<times> rstr" where
  "read_groups 0 i s = ([], False, s)"
| "read_groups (Suc k) i s =
     (case (if k > 0 then read_separator 58 i read_ipv4 s else None) of
        Some (v4, r) \<Rightarrow> ([256 * v4 ! 0 + v4 ! 1, 256 * v4 ! 2 + v4 ! 3], True, r)
      | None \<Rightarrow>
          (case read_separator 58 i (read_number 16 4 65536 True) s of
             None \<Rightarrow> ([], False, s)
           | Some (g, r) \<Rightarrow> (let (gs, v4, r) = read_groups k (Suc i) r in (g # gs, v4, r))))"

definition read_ipv6 :: "rstr \<Rightarrow> (nat list \<times> rstr) option" where
  "read_ipv6 s =
     (let (head, v4, r) = read_groups 8 0 s
      in if length head = 8 then Some (head, r)
         else if v4 then None
         else if \<not> starts_with (str ''::'') r then None
         else (let (tail, _, r) = read_groups (8 - (length head + 1)) 0 (drop 2 r)
               in Some (head @ replicate (8 - length head - length tail) 0 @ tail, r)))"

datatype ip_addr = V4 "nat list" | V6 "nat list"

definition parse_ip :: "rstr \<Rightarrow> ip_addr option" where
  "parse_ip s =
     (case (case read_ipv4 s of
              Some (v4, r) \<Rightarrow> Some (V4 v4, r)
            | None \<Rightarrow> map_option (\<lambda>(v6, r). (V6 v6, r)) (read_ipv6 s)) of
        Some (ip, []) \<Rightarrow> Some ip
      | _ \<Rightarrow> None)"

definition signed_id_matches_target :: "rstr \<Rightarrow> rstr \<Rightarrow> bool" where
  "signed_id_matches_target i target =
     (if i = target then True
      else
        let host = (if starts_with (str ''['') target
                    then takeWhile (\<lambda>c. c \<noteq> 93) (trim_start_matches (\<lambda>c. c = 91) target)
                    else takeWhile (\<lambda>c. c \<noteq> 58) target)
        in case (parse_ip i, parse_ip host) of (Some a, Some b) \<Rightarrow> a = b | _ \<Rightarrow> False)"

section \<open>Messages and state\<close>

record display_meta =
  d_width :: "32 word"
  d_height :: "32 word"
  d_x :: "32 word"
  d_y :: "32 word"
  d_name :: rstr

record peer_info =
  pi_username :: rstr
  pi_hostname :: rstr
  pi_platform :: rstr
  pi_displays :: "display_meta list"

datatype vmsg =
    VHash rstr rstr
  | VSignedId bytes
  | VKeyResponse bytes
  | VTestDelay bool
  | VLoginError rstr
  | VLoginPeer peer_info
  | VLoginNothing
  | VInviteResponse bool
  | VCloseReason rstr
  | VPermission permission bool
  | VMisc
  | VOther

datatype vrecv = VTimedOut | VBroken | VGarbage | VGot vmsg

text \<open>\<open>ClientState\<close> without the frames, queues and recorder of the running session.\<close>

record client_state =
  cs_status :: rstr
  cs_error :: rstr
  cs_peer_name :: rstr
  cs_peer_platform :: rstr
  cs_displays :: "display_meta list"
  cs_frame_width :: "32 word"
  cs_frame_height :: "32 word"
  cs_file_transfer_mode :: bool
  cs_tcp_connected :: bool
  cs_keyboard_enabled :: bool
  cs_file_enabled :: bool
  cs_clipboard_enabled :: bool

definition client_state_default :: client_state where
  "client_state_default =
     \<lparr>cs_status = str ''connecting'', cs_error = [], cs_peer_name = [], cs_peer_platform = [], cs_displays = [],
      cs_frame_width = 0, cs_frame_height = 0, cs_file_transfer_mode = False, cs_tcp_connected = False,
      cs_keyboard_enabled = True, cs_file_enabled = True, cs_clipboard_enabled = True\<rparr>"

text \<open>What does not change during a connection. \<open>ve_invite\<close> is the name and password of \<open>send_invite_on_stream\<close>, \<open>None\<close> for a
  session; \<open>ve_enc_key\<close> the key of the stored passwords, \<open>ve_tr\<close> the translation of texts.\<close>

record venv =
  ve_verify :: "bytes \<Rightarrow> bytes \<Rightarrow> bytes option"
  ve_parse_id_pk :: "bytes \<Rightarrow> (rstr \<times> bytes) option"
  ve_dh :: "bytes \<Rightarrow> bytes \<Rightarrow> bytes"
  ve_enc_key :: rstr
  ve_my_id :: rstr
  ve_my_name :: rstr
  ve_target :: rstr
  ve_password :: rstr
  ve_signal_pk :: "bytes option"
  ve_file_transfer :: bool
  ve_remember :: bool
  ve_invite :: "(rstr \<times> rstr) option"
  ve_tr :: "rstr \<Rightarrow> rstr"

text \<open>One step's view of the outside: the clock when it begins and when it ends (a receive blocks, and so does the question to the
  user), the message, whether sending works and the text of a failure, the random
  keys, the user's answer to the question about an insecure connection, and whether a file can be written.\<close>

record vturn =
  vt_now :: nat
  vt_done :: nat
  vt_recv :: vrecv
  vt_up :: bool
  vt_err :: rstr
  vt_sk :: bytes
  vt_pk :: bytes
  vt_sym_key :: bytes
  vt_confirm :: bool
  vt_disk :: bool

text \<open>\<open>vw_files\<close> holds what \<open>read_config_file\<close> gives for each peer: \<open>None\<close> when the file cannot be read, the empty text when
  there is none. \<open>vw_consented\<close> is \<open>INSECURE_CONSENTED\<close>, \<open>vw_switch\<close> is \<open>SWITCH_UUID\<close>.\<close>

record viewer =
  vw_files :: "rstr \<Rightarrow> rstr option"
  vw_local :: local_config
  vw_consented :: "rstr list"
  vw_switch :: "rstr option"
  vw_client :: client_state
  vw_sent :: "peer_msg list"
  vw_key :: "bytes option"

datatype vphase =
    VHello
  | VKeyReply bytes
  | VAwaitHash bool
  | VAwaitLogin nat
  | VAwaitAccept nat
  | VAwaitInvite nat
  | VConnected
  | VAnswered bool
  | VOver "rstr option"
  | VPanic

text \<open>\<open>VOver None\<close> is \<open>Ok(())\<close>, \<open>VOver (Some e)\<close> an error with its text, \<open>VAnswered\<close> the result of an invitation.\<close>

type_synonym voutcome = "vphase \<times> viewer"

definition vsend :: "vturn \<Rightarrow> peer_msg \<Rightarrow> viewer \<Rightarrow> (viewer \<Rightarrow> voutcome) \<Rightarrow> voutcome" where
  "vsend t m v k = (if vt_up t then k (v\<lparr>vw_sent := vw_sent v @ [m]\<rparr>) else (VOver (Some (vt_err t)), v))"

definition on_client :: "(client_state \<Rightarrow> client_state) \<Rightarrow> viewer \<Rightarrow> viewer" where
  "on_client f v = v\<lparr>vw_client := f (vw_client v)\<rparr>"

definition set_status :: "rstr \<Rightarrow> viewer \<Rightarrow> viewer" where
  "set_status st = on_client (\<lambda>c. c\<lparr>cs_status := st\<rparr>)"

definition set_error :: "rstr \<Rightarrow> rstr \<Rightarrow> viewer \<Rightarrow> viewer" where
  "set_error st err = on_client (\<lambda>c. c\<lparr>cs_status := st, cs_error := err\<rparr>)"

section \<open>Peer files\<close>

definition load_peer :: "venv \<Rightarrow> viewer \<Rightarrow> peer_config" where
  "load_peer e v = (case peer_load (ve_enc_key e) (vw_files v (ve_target e)) of Some c \<Rightarrow> c | None \<Rightarrow> peer_empty)"

definition save_peer :: "venv \<Rightarrow> vturn \<Rightarrow> peer_config \<Rightarrow> viewer \<Rightarrow> viewer" where
  "save_peer e t cfg v =
     (case peer_save (ve_enc_key e) cfg of
        Some content \<Rightarrow> if vt_disk t then v\<lparr>vw_files := (vw_files v)(ve_target e := Some content)\<rparr> else v
      | None \<Rightarrow> v)"

definition PEER_PUBLIC_KEY_OPTION :: rstr where
  "PEER_PUBLIC_KEY_OPTION = str ''public_key''"

definition decode_peer_sign_pk :: "rstr \<Rightarrow> bytes option" where
  "decode_peer_sign_pk encoded =
     (case base64_decode (utf8 encoded) of None \<Rightarrow> None | Some pk \<Rightarrow> if length pk \<noteq> 32 then None else Some pk)"

definition load_pinned_peer_sign_pk :: "venv \<Rightarrow> viewer \<Rightarrow> bytes option" where
  "load_pinned_peer_sign_pk e v = decode_peer_sign_pk (peer_get_option (load_peer e v) PEER_PUBLIC_KEY_OPTION)"

definition pin_peer_sign_pk :: "venv \<Rightarrow> vturn \<Rightarrow> bytes \<Rightarrow> viewer \<Rightarrow> viewer" where
  "pin_peer_sign_pk e t sign_pk v =
     save_peer e t (peer_set_option (load_peer e v) PEER_PUBLIC_KEY_OPTION (map unat (base64_encode sign_pk))) v"

definition insecure_already_consented :: "venv \<Rightarrow> viewer \<Rightarrow> bool" where
  "insecure_already_consented e v =
     (if peer_get_option (load_peer e v) (str ''allow-insecure'') = str ''Y'' then True
      else ve_target e \<in> set (vw_consented v))"

definition prompt_insecure_consent :: "venv \<Rightarrow> vturn \<Rightarrow> viewer \<Rightarrow> bool \<times> viewer" where
  "prompt_insecure_consent e t v =
     (if insecure_already_consented e v then (True, v)
      else
        let v = set_status (str ''login'') v
        in if vt_confirm t then (True, v\<lparr>vw_consented := List.insert (ve_target e) (vw_consented v)\<rparr>) else (False, v))"

section \<open>The handshake\<close>

datatype verify_failure = Signature | Identity

definition verified_session_pk :: "venv \<Rightarrow> bytes \<Rightarrow> bytes \<Rightarrow> verify_failure + bytes" where
  "verified_session_pk e signed_id sign_pk =
     (case ve_verify e signed_id sign_pk of
        None \<Rightarrow> Inl Signature
      | Some body \<Rightarrow>
          (case ve_parse_id_pk e body of
             None \<Rightarrow> Inl Signature
           | Some (i, pk) \<Rightarrow>
               if \<not> signed_id_matches_target i (ve_target e) then Inl Identity
               else if length pk \<noteq> 32 then Inl Signature
               else Inr pk))"

definition identity_error :: "venv \<Rightarrow> vphase" where
  "identity_error e = VOver (Some (ve_tr e (str ''The remote device could not prove its identity. The connection was stopped.'')))"

text \<open>A session key is made up, sealed for the verified key and used from then on.\<close>

definition send_session_key :: "venv \<Rightarrow> vturn \<Rightarrow> bytes \<Rightarrow> viewer \<Rightarrow> voutcome" where
  "send_session_key e t server_pk v =
     vsend t (PublicKey (vt_pk t) (crypto_box_seal (ve_dh e) server_pk (vt_sk t) (replicate 24 0) (vt_sym_key t))) v
       (\<lambda>v. (VAwaitHash True, v\<lparr>vw_key := Some (vt_sym_key t)\<rparr>))"

definition send_no_key :: "vturn \<Rightarrow> viewer \<Rightarrow> voutcome" where
  "send_no_key t v = vsend t (PublicKey [] []) v (\<lambda>v. (VAwaitHash False, v))"

definition on_signed_id :: "venv \<Rightarrow> vturn \<Rightarrow> bytes \<Rightarrow> viewer \<Rightarrow> voutcome" where
  "on_signed_id e t signed_id v =
     (case load_pinned_peer_sign_pk e v of
        Some pinned \<Rightarrow>
          (case verified_session_pk e signed_id pinned of
             Inr session_pk \<Rightarrow> send_session_key e t session_pk v
           | Inl _ \<Rightarrow> (identity_error e, v))
      | None \<Rightarrow>
          (case ve_signal_pk e of
             Some relayed \<Rightarrow>
               (case verified_session_pk e signed_id relayed of
                  Inr session_pk \<Rightarrow> send_session_key e t session_pk (pin_peer_sign_pk e t relayed v)
                | Inl _ \<Rightarrow> (identity_error e, v))
           | None \<Rightarrow> vsend t MiscMsg v (\<lambda>v. (VKeyReply signed_id, v))))"

definition on_key_reply :: "venv \<Rightarrow> vturn \<Rightarrow> bytes \<Rightarrow> vmsg \<Rightarrow> viewer \<Rightarrow> voutcome" where
  "on_key_reply e t signed_id m v =
     (case m of
        VKeyResponse supplied \<Rightarrow>
          if length supplied = 32 then
            (case verified_session_pk e signed_id supplied of
               Inr session_pk \<Rightarrow> send_session_key e t session_pk v
             | Inl Identity \<Rightarrow> send_no_key t v
             | Inl Signature \<Rightarrow> (identity_error e, v))
          else send_no_key t v
      | _ \<Rightarrow> send_no_key t v)"

section \<open>Logging in\<close>

text \<open>The uuid of \<open>--switch_uuid\<close>: slicing two bytes at a time panics (\<open>None\<close>) past the end or inside a character.\<close>

definition switch_uuid_bytes :: "rstr \<Rightarrow> bytes option" where
  "switch_uuid_bytes s =
     (let b = utf8 (filter (\<lambda>c. c \<noteq> 45) s); cs = chunks_of 2 b
      in if odd (length b) \<or> list_ex (\<lambda>c. utf8_cont (hd c)) cs then None else Some (List.map_filter hex_byte cs))"

definition login_request_of :: "venv \<Rightarrow> bytes \<Rightarrow> session_union option \<Rightarrow> login_request" where
  "login_request_of e pw u =
     \<lparr>lr_my_id = ve_my_id e, lr_my_name = ve_my_name e, lr_my_platform = str ''Windows'', lr_password = pw, lr_union = u\<rparr>"

definition send_login :: "venv \<Rightarrow> vturn \<Rightarrow> rstr \<Rightarrow> rstr \<Rightarrow> viewer \<Rightarrow> voutcome" where
  "send_login e t slt challenge v =
     (case vw_switch v of
        Some uuid \<Rightarrow>
          (let v = v\<lparr>vw_switch := None\<rparr>
           in case switch_uuid_bytes uuid of
                None \<Rightarrow> (VPanic, v)
              | Some b \<Rightarrow> vsend t (SwitchSidesResponse b (login_request_of e [] None)) v
                           (\<lambda>v. (VAwaitLogin (vt_done t + 30000), v)))
      | None \<Rightarrow>
          (let pw = (if ve_password e = [] then [] else password_hash (ve_password e) slt challenge);
               lr = login_request_of e pw (if ve_file_transfer e then Some FileTransfer else None);
               v = (if ve_file_transfer e then on_client (\<lambda>c. c\<lparr>cs_file_transfer_mode := True\<rparr>) v else v)
           in vsend t (LoginRequest lr) v (\<lambda>v. (VAwaitLogin (vt_done t + 30000), v))))"

text \<open>What follows the handshake: an invitation goes only over an encrypted connection, a login only over one or with the
  user's consent.\<close>

definition on_hash :: "venv \<Rightarrow> vturn \<Rightarrow> rstr \<Rightarrow> rstr \<Rightarrow> bool \<Rightarrow> viewer \<Rightarrow> voutcome" where
  "on_hash e t slt challenge secured v =
     (case ve_invite e of
        Some (from_name, pw) \<Rightarrow>
          if \<not> secured then (VOver (Some (str ''Peer identity could not be verified, invitation not sent'')), v)
          else vsend t (InviteRequest \<lparr>ir_from_id = ve_my_id e, ir_from_name = from_name, ir_password = pw\<rparr>) v
                 (\<lambda>v. (VAwaitInvite (vt_done t + 120000), v))
      | None \<Rightarrow>
          (let (proceed, v) = (if secured then (True, v) else prompt_insecure_consent e t v)
           in if proceed then send_login e t slt challenge v
              else (VOver (Some (str ''Insecure connection cancelled'')), v)))"

definition apply_permission_info :: "permission \<Rightarrow> bool \<Rightarrow> viewer \<Rightarrow> viewer" where
  "apply_permission_info p enabled =
     on_client (\<lambda>c. case p of
        Keyboard \<Rightarrow> c\<lparr>cs_keyboard_enabled := enabled\<rparr>
      | File \<Rightarrow> c\<lparr>cs_file_enabled := enabled\<rparr>
      | Clipboard \<Rightarrow> c\<lparr>cs_clipboard_enabled := enabled\<rparr>
      | _ \<Rightarrow> c)"

definition remember_password :: "venv \<Rightarrow> vturn \<Rightarrow> viewer \<Rightarrow> viewer" where
  "remember_password e t v =
     (if ve_password e = [] then v
      else save_peer e t (peer_set_option (load_peer e v) (str ''password'') (if ve_remember e then ve_password e else [])) v)"

definition connected :: "venv \<Rightarrow> vturn \<Rightarrow> peer_info \<Rightarrow> viewer \<Rightarrow> voutcome" where
  "connected e t pi v =
     (let v = remember_password e t v;
          v = v\<lparr>vw_local := update_recent_peer (vw_local v) (ve_target e) (pi_username pi) (pi_hostname pi) (pi_platform pi)\<rparr>;
          v = on_client (\<lambda>c.
                let c = c\<lparr>cs_status := str ''connected'', cs_peer_name := pi_hostname pi, cs_peer_platform := pi_platform pi,
                          cs_displays := pi_displays pi\<rparr>
                in case pi_displays pi of [] \<Rightarrow> c | d # _ \<Rightarrow> c\<lparr>cs_frame_width := d_width d, cs_frame_height := d_height d\<rparr>) v
      in (VConnected, v))"

section \<open>The phases\<close>

definition hello_step :: "venv \<Rightarrow> vturn \<Rightarrow> viewer \<Rightarrow> voutcome" where
  "hello_step e t v =
     (case vt_recv t of
        VGot (VHash slt challenge) \<Rightarrow> on_hash e t slt challenge False v
      | VGot (VSignedId signed_id) \<Rightarrow> on_signed_id e t signed_id v
      | VGot _ \<Rightarrow> (VOver (Some (str ''Expected Hash or SignedId'')), v)
      | _ \<Rightarrow> (VOver (Some (vt_err t)), v))"

definition key_reply_step :: "venv \<Rightarrow> vturn \<Rightarrow> bytes \<Rightarrow> viewer \<Rightarrow> voutcome" where
  "key_reply_step e t signed_id v =
     (case vt_recv t of
        VGot m \<Rightarrow> on_key_reply e t signed_id m v
      | _ \<Rightarrow> (VOver (Some (vt_err t)), v))"

definition await_hash_step :: "venv \<Rightarrow> vturn \<Rightarrow> bool \<Rightarrow> viewer \<Rightarrow> voutcome" where
  "await_hash_step e t secured v =
     (case vt_recv t of
        VGot (VHash slt challenge) \<Rightarrow> on_hash e t slt challenge secured v
      | VGot _ \<Rightarrow> (VOver (Some (str ''Expected Hash after SignedId'')), v)
      | _ \<Rightarrow> (VOver (Some (vt_err t)), v))"

definition vlogin_step :: "venv \<Rightarrow> vturn \<Rightarrow> nat \<Rightarrow> viewer \<Rightarrow> voutcome" where
  "vlogin_step e t deadline v =
     (if vt_now t \<ge> deadline then (VOver (Some (str ''Login response timeout'')), v)
      else case vt_recv t of
        VGot (VLoginError err) \<Rightarrow>
          if err = str ''No Password Access''
          then (VAwaitAccept (vt_done t + 60000), set_error (str ''waiting'') (str ''Waiting for remote acceptance...'') v)
          else (VOver None, set_error (str ''error'') err v)
      | VGot (VLoginPeer pi) \<Rightarrow> connected e t pi v
      | VGot VLoginNothing \<Rightarrow> (VOver (Some (str ''Empty LoginResponse'')), v)
      | VGot (VTestDelay from_client) \<Rightarrow>
          if from_client then (VAwaitLogin deadline, v) else vsend t TestDelay v (\<lambda>v. (VAwaitLogin deadline, v))
      | VGot (VCloseReason reason) \<Rightarrow> (VOver (Some reason), v)
      | VGot (VPermission p enabled) \<Rightarrow> (VAwaitLogin deadline, apply_permission_info p enabled v)
      | VGot _ \<Rightarrow> (VAwaitLogin deadline, v)
      | _ \<Rightarrow> (VOver (Some (vt_err t)), v))"

definition accept_step :: "venv \<Rightarrow> vturn \<Rightarrow> nat \<Rightarrow> viewer \<Rightarrow> voutcome" where
  "accept_step e t deadline v =
     (if vt_now t \<ge> deadline then (VOver None, set_error (str ''error'') (str ''Remote side did not respond'') v)
      else case vt_recv t of
        VGot (VLoginPeer pi) \<Rightarrow> connected e t pi v
      | VGot (VLoginError err) \<Rightarrow> (VOver None, set_error (str ''error'') err v)
      | VGot (VCloseReason reason) \<Rightarrow> (VOver None, set_error (str ''error'') reason v)
      | VGot (VPermission p enabled) \<Rightarrow> (VAwaitAccept deadline, apply_permission_info p enabled v)
      | VGot (VTestDelay from_client) \<Rightarrow>
          (VAwaitAccept deadline, if \<not> from_client \<and> vt_up t then v\<lparr>vw_sent := vw_sent v @ [TestDelay]\<rparr> else v)
      | VGot _ \<Rightarrow> (VAwaitAccept deadline, v)
      | VGarbage \<Rightarrow> (VOver (Some (vt_err t)), v)
      | _ \<Rightarrow> (VOver None, set_error (str ''error'') (str ''Connection error: '' @ vt_err t) v))"

definition invite_wait_step :: "venv \<Rightarrow> vturn \<Rightarrow> nat \<Rightarrow> viewer \<Rightarrow> voutcome" where
  "invite_wait_step e t deadline v =
     (if vt_now t \<ge> deadline then (VOver (Some (str ''No answer to the invitation'')), v)
      else case vt_recv t of
        VTimedOut \<Rightarrow> (VAwaitInvite deadline, v)
      | VGot (VInviteResponse accepted) \<Rightarrow> (VAnswered accepted, v)
      | VGot (VTestDelay from_client) \<Rightarrow>
          if from_client then (VAwaitInvite deadline, v) else vsend t TestDelay v (\<lambda>v. (VAwaitInvite deadline, v))
      | VGot (VCloseReason reason) \<Rightarrow> (VOver (Some reason), v)
      | VGot _ \<Rightarrow> (VAwaitInvite deadline, v)
      | _ \<Rightarrow> (VOver (Some (vt_err t)), v))"

definition viewer_step :: "venv \<Rightarrow> vturn \<Rightarrow> voutcome \<Rightarrow> voutcome" where
  "viewer_step e t = (\<lambda>(ph, v).
     case ph of
       VHello \<Rightarrow> hello_step e t v
     | VKeyReply signed_id \<Rightarrow> key_reply_step e t signed_id v
     | VAwaitHash secured \<Rightarrow> await_hash_step e t secured v
     | VAwaitLogin deadline \<Rightarrow> vlogin_step e t deadline v
     | VAwaitAccept deadline \<Rightarrow> accept_step e t deadline v
     | VAwaitInvite deadline \<Rightarrow> invite_wait_step e t deadline v
     | _ \<Rightarrow> (ph, v))"

definition run_viewer :: "venv \<Rightarrow> vturn list \<Rightarrow> voutcome \<Rightarrow> voutcome" where
  "run_viewer e turns st = fold (viewer_step e) turns st"

text \<open>The beginning of \<open>run_client_inner\<close> (an invitation has no \<open>ClientState\<close>), and what its callers make of the result.\<close>

definition open_viewer :: "venv \<Rightarrow> viewer \<Rightarrow> voutcome" where
  "open_viewer e v =
     (VHello, (if ve_invite e = None then on_client (\<lambda>c. c\<lparr>cs_status := str ''login'', cs_tcp_connected := True\<rparr>) v else v)
              \<lparr>vw_sent := [], vw_key := None\<rparr>)"

definition run_client_on_stream :: "rstr option \<Rightarrow> viewer \<Rightarrow> viewer" where
  "run_client_on_stream result v =
     (let v = (case result of Some err \<Rightarrow> set_error (str ''error'') err v | None \<Rightarrow> v)
      in if cs_status (vw_client v) \<noteq> str ''error'' then set_status (str ''closed'') v else v)"

section \<open>Runs\<close>

lemma run_viewer_snoc: "run_viewer e (turns @ [t]) st = viewer_step e t (run_viewer e turns st)"
  by (simp add: run_viewer_def)

lemma run_viewer_append: "run_viewer e (us @ vs) st = run_viewer e vs (run_viewer e us st)"
  by (simp add: run_viewer_def)

lemma on_client_simps [simp]:
  "vw_files (on_client f v) = vw_files v" "vw_consented (on_client f v) = vw_consented v" "vw_sent (on_client f v) = vw_sent v"
  "vw_key (on_client f v) = vw_key v" "vw_switch (on_client f v) = vw_switch v" "vw_local (on_client f v) = vw_local v"
  "vw_client (on_client f v) = f (vw_client v)"
  by (simp_all add: on_client_def)

lemma status_simps [simp]:
  "vw_files (set_status st v) = vw_files v" "vw_consented (set_status st v) = vw_consented v" "vw_sent (set_status st v) = vw_sent v"
  "vw_key (set_status st v) = vw_key v" "vw_files (set_error st er v) = vw_files v" "vw_consented (set_error st er v) = vw_consented v"
  "vw_sent (set_error st er v) = vw_sent v" "vw_key (set_error st er v) = vw_key v"
  by (simp_all add: set_status_def set_error_def)

lemma permission_simps [simp]:
  "vw_files (apply_permission_info p b v) = vw_files v" "vw_sent (apply_permission_info p b v) = vw_sent v"
  "vw_key (apply_permission_info p b v) = vw_key v"
  by (simp_all add: apply_permission_info_def)

lemma save_peer_simps [simp]:
  "vw_sent (save_peer e t c v) = vw_sent v" "vw_key (save_peer e t c v) = vw_key v"
  "vw_consented (save_peer e t c v) = vw_consented v" "vw_switch (save_peer e t c v) = vw_switch v"
  "vw_client (save_peer e t c v) = vw_client v"
  by (simp_all add: save_peer_def split: option.split)

lemma pin_simps [simp]:
  "vw_sent (pin_peer_sign_pk e t pk v) = vw_sent v" "vw_key (pin_peer_sign_pk e t pk v) = vw_key v"
  by (simp_all add: pin_peer_sign_pk_def)

text \<open>Past the handshake only answers to delay probes are sent, and the key stays.\<close>

definition late :: "vphase \<Rightarrow> bool" where
  "late ph = (case ph of VHello \<Rightarrow> False | VKeyReply _ \<Rightarrow> False | VAwaitHash _ \<Rightarrow> False | _ \<Rightarrow> True)"

definition probes_only :: "voutcome \<Rightarrow> viewer \<Rightarrow> bool" where
  "probes_only st v \<longleftrightarrow> late (fst st) \<and> vw_key (snd st) = vw_key v \<and>
     (vw_sent (snd st) = vw_sent v \<or> vw_sent (snd st) = vw_sent v @ [TestDelay])"

lemma connected_probes: "probes_only (connected e t pi v) v"
  by (simp add: probes_only_def connected_def remember_password_def late_def Let_def)

lemma probes_plain:
  "late ph \<Longrightarrow> vw_key v' = vw_key v \<Longrightarrow> vw_sent v' = vw_sent v \<Longrightarrow> probes_only (ph, v') v"
  "late ph \<Longrightarrow> probes_only (vsend t TestDelay v (\<lambda>v. (ph, v))) v"
  by (auto simp: probes_only_def vsend_def late_def)

lemma late_probes:
  "probes_only (vlogin_step e t d v) v" "probes_only (accept_step e t d v) v" "probes_only (invite_wait_step e t d v) v"
proof -
  have l: "late (VOver r)" "late (VAwaitLogin d)" "late (VAwaitAccept d)" "late (VAwaitInvite d)" "late (VAnswered b)" for r d b
    by (simp_all add: late_def)
  show "probes_only (vlogin_step e t d v) v"
    unfolding vlogin_step_def by (auto simp: l connected_probes intro!: probes_plain split: vrecv.split vmsg.split)
  have "probes_only (VAwaitAccept d, if b \<and> vt_up t then v\<lparr>vw_sent := vw_sent v @ [TestDelay]\<rparr> else v) v" for b
    by (simp add: probes_only_def late_def)
  then show "probes_only (accept_step e t d v) v"
    unfolding accept_step_def by (auto simp: l connected_probes intro!: probes_plain simp del: if_split split: vrecv.split vmsg.split)
  show "probes_only (invite_wait_step e t d v) v"
    unfolding invite_wait_step_def by (auto simp: l intro!: probes_plain split: vrecv.split vmsg.split)
qed

lemma late_step: "late ph \<Longrightarrow> probes_only (viewer_step e t (ph, v)) v"
  by (cases ph) (auto simp: viewer_step_def late_probes probes_plain late_def)

section \<open>Who the viewer talks to\<close>

text \<open>The key that has to have signed: the pinned one, without one the key that came with the address, and only without
  both the one the peer names itself.\<close>

definition trusted_key :: "venv \<Rightarrow> viewer \<Rightarrow> bytes \<Rightarrow> bool" where
  "trusted_key e v0 sign_pk =
     (case load_pinned_peer_sign_pk e v0 of
        Some pinned \<Rightarrow> sign_pk = pinned
      | None \<Rightarrow> (case ve_signal_pk e of Some relayed \<Rightarrow> sign_pk = relayed | None \<Rightarrow> length sign_pk = 32))"

definition keyed_by :: "venv \<Rightarrow> viewer \<Rightarrow> bytes \<Rightarrow> viewer \<Rightarrow> bool" where
  "keyed_by e v0 k v \<longleftrightarrow>
     (\<exists>signed_id sign_pk session_pk our_sk our_pk.
        trusted_key e v0 sign_pk \<and> verified_session_pk e signed_id sign_pk = Inr session_pk \<and>
        PublicKey our_pk (crypto_box_seal (ve_dh e) session_pk our_sk (replicate 24 0) k) \<in> set (vw_sent v))"

definition credential :: "peer_msg \<Rightarrow> bool" where
  "credential m = (case m of LoginRequest _ \<Rightarrow> True | SwitchSidesResponse _ _ \<Rightarrow> True | InviteRequest _ \<Rightarrow> True | _ \<Rightarrow> False)"

definition invitation :: "peer_msg \<Rightarrow> bool" where
  "invitation m = (case m of InviteRequest _ \<Rightarrow> True | _ \<Rightarrow> False)"

definition consent :: "venv \<Rightarrow> viewer \<Rightarrow> vturn list \<Rightarrow> bool" where
  "consent e v0 turns \<longleftrightarrow> insecure_already_consented e v0 \<or> (\<exists>t\<in>set turns. vt_confirm t)"

definition greeted_plainly :: "vturn list \<Rightarrow> bool" where
  "greeted_plainly turns = (case turns of [] \<Rightarrow> False | t # _ \<Rightarrow> (case vt_recv t of VGot (VHash _ _) \<Rightarrow> True | _ \<Rightarrow> False))"

text \<open>What may have been sent without encryption.\<close>

definition plain_ok :: "venv \<Rightarrow> viewer \<Rightarrow> vturn list \<Rightarrow> viewer \<Rightarrow> bool" where
  "plain_ok e v0 turns v \<longleftrightarrow>
     \<not> list_ex invitation (vw_sent v) \<and>
     (list_ex credential (vw_sent v) \<longrightarrow> consent e v0 turns) \<and>
     (load_pinned_peer_sign_pk e v0 \<noteq> None \<and> vw_sent v \<noteq> [] \<longrightarrow> greeted_plainly turns)"

definition secured_ok :: "venv \<Rightarrow> viewer \<Rightarrow> vturn list \<Rightarrow> viewer \<Rightarrow> bool" where
  "secured_ok e v0 turns v = (case vw_key v of Some k \<Rightarrow> keyed_by e v0 k v | None \<Rightarrow> plain_ok e v0 turns v)"

definition untouched :: "viewer \<Rightarrow> viewer \<Rightarrow> bool" where
  "untouched v0 v \<longleftrightarrow> vw_files v = vw_files v0 \<and> vw_consented v = vw_consented v0"

definition viewer_inv :: "venv \<Rightarrow> viewer \<Rightarrow> vturn list \<Rightarrow> voutcome \<Rightarrow> bool" where
  "viewer_inv e v0 turns = (\<lambda>(ph, v). secured_ok e v0 turns v \<and>
     (case ph of
        VHello \<Rightarrow> turns = [] \<and> vw_sent v = [] \<and> vw_key v = None \<and> untouched v0 v
      | VKeyReply _ \<Rightarrow> vw_key v = None \<and> untouched v0 v \<and> load_pinned_peer_sign_pk e v0 = None \<and> ve_signal_pk e = None \<and>
          \<not> list_ex credential (vw_sent v)
      | VAwaitHash secured \<Rightarrow> (secured \<longleftrightarrow> vw_key v \<noteq> None) \<and> \<not> list_ex credential (vw_sent v) \<and>
          (\<not> secured \<longrightarrow> untouched v0 v \<and> load_pinned_peer_sign_pk e v0 = None)
      | VAwaitLogin _ \<Rightarrow> vw_sent v \<noteq> []
      | VAwaitAccept _ \<Rightarrow> vw_sent v \<noteq> []
      | VAwaitInvite _ \<Rightarrow> vw_sent v \<noteq> []
      | _ \<Rightarrow> True))"

lemma load_peer_untouched: "untouched v0 v \<Longrightarrow> load_peer e v = load_peer e v0"
  by (simp add: untouched_def load_peer_def)

lemma pinned_untouched: "untouched v0 v \<Longrightarrow> load_pinned_peer_sign_pk e v = load_pinned_peer_sign_pk e v0"
  by (simp add: load_pinned_peer_sign_pk_def load_peer_untouched)

lemma consented_untouched: "untouched v0 v \<Longrightarrow> insecure_already_consented e v = insecure_already_consented e v0"
  by (simp add: insecure_already_consented_def load_peer_untouched) (simp add: untouched_def)

lemma invitation_credential: "invitation m \<Longrightarrow> credential m"
  by (auto simp: invitation_def credential_def split: peer_msg.splits)

lemma no_credentials: "\<not> list_ex credential ms \<Longrightarrow> \<not> list_ex invitation ms"
  using invitation_credential by (auto simp: list_ex_iff)

lemma keyed_more: "keyed_by e v0 k v \<Longrightarrow> set (vw_sent v) \<subseteq> set (vw_sent v') \<Longrightarrow> keyed_by e v0 k v'"
  unfolding keyed_by_def by blast

lemma keyed_intro:
  "trusted_key e v0 sign_pk \<Longrightarrow> verified_session_pk e signed_id sign_pk = Inr session_pk \<Longrightarrow>
   PublicKey our_pk (crypto_box_seal (ve_dh e) session_pk our_sk (replicate 24 0) k) \<in> set (vw_sent v) \<Longrightarrow> keyed_by e v0 k v"
  unfolding keyed_by_def by blast

lemma longer_consent: "consent e v0 turns \<Longrightarrow> consent e v0 (turns @ [t])"
  by (auto simp: consent_def)

lemma longer_greeting: "greeted_plainly turns \<Longrightarrow> greeted_plainly (turns @ [t])"
  by (auto simp: greeted_plainly_def split: list.splits)

text \<open>An extension of what was sent by messages that need no consent, or have it.\<close>

lemma secured_extend:
  assumes "secured_ok e v0 turns v" "vw_key v' = vw_key v" "vw_sent v' = vw_sent v @ ms"
    and "vw_key v = None \<Longrightarrow> \<not> list_ex invitation ms"
    and "vw_key v = None \<Longrightarrow> list_ex credential ms \<Longrightarrow> consent e v0 (turns @ [t])"
    and "vw_key v = None \<Longrightarrow> vw_sent v = [] \<Longrightarrow> ms \<noteq> [] \<Longrightarrow> load_pinned_peer_sign_pk e v0 = None \<or> greeted_plainly (turns @ [t])"
  shows "secured_ok e v0 (turns @ [t]) v'"
proof (cases "vw_key v")
  case (Some k)
  then have "keyed_by e v0 k v" using assms(1) by (simp add: secured_ok_def)
  then have "keyed_by e v0 k v'" by (rule keyed_more) (simp add: assms(3))
  then show ?thesis using Some assms(2) by (simp add: secured_ok_def)
next
  case None
  then have "plain_ok e v0 turns v" using assms(1) by (simp add: secured_ok_def)
  then have "plain_ok e v0 (turns @ [t]) v'"
    using assms(3-6) None longer_consent[of e v0 turns t] longer_greeting[of turns t] unfolding plain_ok_def by auto
  then show ?thesis using None assms(2) by (simp add: secured_ok_def)
qed

lemma secured_probes:
  assumes "secured_ok e v0 turns v" "probes_only st v" "vw_sent v \<noteq> []"
  shows "secured_ok e v0 (turns @ [t]) (snd st)"
proof -
  obtain ms where ms: "ms = [] \<or> ms = [TestDelay]" "vw_sent (snd st) = vw_sent v @ ms"
    using assms(2) by (auto simp: probes_only_def)
  have "vw_key (snd st) = vw_key v" using assms(2) by (simp add: probes_only_def)
  then show ?thesis
    using ms assms(3) by (intro secured_extend[OF assms(1)]) (auto simp: credential_def invitation_def)
qed

lemma secured_over: "secured_ok e v0 turns v \<Longrightarrow> vw_key v' = vw_key v \<Longrightarrow> vw_sent v' = vw_sent v \<Longrightarrow> secured_ok e v0 (turns @ [t]) v'"
  by (rule secured_extend[of _ _ _ _ _ "[]"]) simp_all

text \<open>The steps of the handshake.\<close>

lemma inv_late: "late ph \<Longrightarrow> vw_sent v \<noteq> [] \<or> (case ph of VOver _ \<Rightarrow> True | VPanic \<Rightarrow> True | _ \<Rightarrow> False) \<Longrightarrow>
    viewer_inv e v0 turns (ph, v) = secured_ok e v0 turns v"
  by (cases ph) (simp_all add: viewer_inv_def late_def)

lemma vsend_inv:
  assumes "secured_ok e v0 (turns @ [t]) v"
    and "viewer_inv e v0 (turns @ [t]) (k (v\<lparr>vw_sent := vw_sent v @ [m]\<rparr>))"
  shows "viewer_inv e v0 (turns @ [t]) (vsend t m v k)"
  using assms by (simp add: vsend_def inv_late late_def)

lemma send_login_inv:
  assumes s: "secured_ok e v0 turns v"
    and c: "vw_key v = None \<Longrightarrow> consent e v0 (turns @ [t])"
    and g: "vw_key v = None \<Longrightarrow> load_pinned_peer_sign_pk e v0 = None \<or> greeted_plainly (turns @ [t])"
  shows "viewer_inv e v0 (turns @ [t]) (send_login e t slt challenge v)"
proof -
  have over: "secured_ok e v0 (turns @ [t]) v'" if "vw_key v' = vw_key v" "vw_sent v' = vw_sent v" for v'
    using secured_over[OF s that] .
  have more: "secured_ok e v0 (turns @ [t]) v'" if "vw_key v' = vw_key v" "vw_sent v' = vw_sent v @ [m]" "\<not> invitation m" for v' m
    using that c g by (intro secured_extend[OF s that(1,2)]) auto
  have ni: "\<not> invitation (LoginRequest lr)" "\<not> invitation (SwitchSidesResponse b lr)" for lr b
    by (simp_all add: invitation_def)
  show ?thesis
    unfolding send_login_def Let_def
    by (auto intro!: vsend_inv simp: inv_late late_def over split: option.split) (auto intro: more[OF _ _ ni(1)] more[OF _ _ ni(2)])
qed

lemma on_hash_inv:
  assumes s: "secured_ok e v0 turns v" and b: "secured \<longleftrightarrow> vw_key v \<noteq> None"
    and u: "\<not> secured \<Longrightarrow> untouched v0 v"
    and g: "\<not> secured \<Longrightarrow> load_pinned_peer_sign_pk e v0 = None \<or> greeted_plainly (turns @ [t])"
  shows "viewer_inv e v0 (turns @ [t]) (on_hash e t slt challenge secured v)"
proof (cases "ve_invite e")
  case (Some inv)
  obtain from_name pw where inv: "inv = (from_name, pw)" by (cases inv)
  show ?thesis
  proof (cases secured)
    case True
    then have "secured_ok e v0 (turns @ [t]) v'" if "vw_key v' = vw_key v" "vw_sent v' = vw_sent v @ ms" for v' ms
      using b by (intro secured_extend[OF s that]) auto
    from this[of v "[]"] this[of _ "[_]"] show ?thesis
      using Some inv True by (auto simp: on_hash_def inv_late late_def intro!: vsend_inv)
  qed (use Some inv in \<open>simp add: on_hash_def inv_late late_def secured_over[OF s]\<close>)
next
  case None
  show ?thesis
  proof (cases secured)
    case True
    then show ?thesis using None b send_login_inv[OF s, of t slt challenge] by (auto simp: on_hash_def)
  next
    case False
    obtain ok v' where p: "prompt_insecure_consent e t v = (ok, v')" by fastforce
    have v': "vw_key v' = vw_key v" "vw_sent v' = vw_sent v"
      using p by (auto simp: prompt_insecure_consent_def Let_def split: if_splits)
    have cons: "ok \<Longrightarrow> consent e v0 (turns @ [t])"
      using p consented_untouched[OF u[OF False]] by (auto simp: prompt_insecure_consent_def consent_def Let_def split: if_splits)
    have s': "secured_ok e v0 turns v'" using s v' by (cases "vw_key v") (simp_all add: secured_ok_def keyed_by_def plain_ok_def)
    show ?thesis
      using None False p cons g v' by (auto simp: on_hash_def inv_late late_def secured_over[OF s v'] intro!: send_login_inv[OF s'])
  qed
qed

lemma verified_inv:
  assumes "verified_session_pk e signed_id sign_pk = Inr session_pk" "trusted_key e v0 sign_pk"
    and "secured_ok e v0 turns v0'" "vw_key v = vw_key v0'" "vw_sent v = vw_sent v0'" "\<not> list_ex credential (vw_sent v0')"
  shows "viewer_inv e v0 (turns @ [t]) (send_session_key e t session_pk v)"
proof -
  have "secured_ok e v0 (turns @ [t]) v" using assms by (intro secured_over[OF assms(3)])
  moreover have "viewer_inv e v0 (turns @ [t]) (VAwaitHash True, v\<lparr>vw_sent := vw_sent v @ [PublicKey (vt_pk t)
      (crypto_box_seal (ve_dh e) session_pk (vt_sk t) (replicate 24 0) (vt_sym_key t))], vw_key := Some (vt_sym_key t)\<rparr>)"
    using assms(5,6) by (auto simp: viewer_inv_def secured_ok_def credential_def intro!: keyed_intro[OF assms(2,1)])
  ultimately show ?thesis unfolding send_session_key_def by (intro vsend_inv) simp_all
qed

lemma no_key_inv:
  assumes "secured_ok e v0 turns v" "vw_key v = None" "untouched v0 v" "load_pinned_peer_sign_pk e v0 = None" "\<not> list_ex credential (vw_sent v)"
  shows "viewer_inv e v0 (turns @ [t]) (send_no_key t v)"
proof -
  have "secured_ok e v0 (turns @ [t]) (v\<lparr>vw_sent := vw_sent v @ [PublicKey [] []]\<rparr>)"
    using assms(4) by (intro secured_extend[OF assms(1)]) (auto simp: credential_def invitation_def)
  then have "viewer_inv e v0 (turns @ [t]) (VAwaitHash False, v\<lparr>vw_sent := vw_sent v @ [PublicKey [] []]\<rparr>)"
    using assms by (simp add: viewer_inv_def credential_def untouched_def)
  then show ?thesis using assms(1) unfolding send_no_key_def by (intro vsend_inv) (simp_all add: secured_over)
qed

lemma over_inv: "secured_ok e v0 turns v \<Longrightarrow> viewer_inv e v0 (turns @ [t]) (VOver r, v)"
  by (simp add: inv_late late_def secured_over)

lemma identity_inv: "secured_ok e v0 turns v \<Longrightarrow> viewer_inv e v0 (turns @ [t]) (identity_error e, v)"
  by (simp add: identity_error_def over_inv)

lemma hello_inv:
  assumes "viewer_inv e v0 turns (VHello, v)"
  shows "viewer_inv e v0 (turns @ [t]) (hello_step e t v)"
proof -
  have i: "turns = []" "vw_sent v = []" "vw_key v = None" "untouched v0 v" "secured_ok e v0 turns v"
    using assms by (auto simp: viewer_inv_def)
  note pin = pinned_untouched[OF i(4)]
  show ?thesis
  proof (cases "vt_recv t")
    case (VGot m)
    show ?thesis
    proof (cases m)
      case (VHash slt challenge)
      then have "greeted_plainly (turns @ [t])" using VGot i(1) by (simp add: greeted_plainly_def)
      then show ?thesis using VGot VHash i on_hash_inv[OF i(5), of False t slt challenge] by (simp add: hello_step_def)
    next
      case (VSignedId signed_id)
      have "viewer_inv e v0 (turns @ [t]) (on_signed_id e t signed_id v)"
      proof (cases "load_pinned_peer_sign_pk e v0")
        case (Some pinned)
        then show ?thesis
          using verified_inv[OF _ _ i(5), of signed_id pinned] identity_inv[OF i(5)] i(2) pin
          by (auto simp: on_signed_id_def trusted_key_def split: sum.split)
      next
        case no_pin: None
        show ?thesis
        proof (cases "ve_signal_pk e")
          case (Some relayed)
          then show ?thesis
            using no_pin verified_inv[OF _ _ i(5), of signed_id relayed] identity_inv[OF i(5)] i(2) pin
            by (auto simp: on_signed_id_def trusted_key_def split: sum.split)
        next
          case None
          have "secured_ok e v0 (turns @ [t]) (v\<lparr>vw_sent := vw_sent v @ [MiscMsg]\<rparr>)"
            using no_pin by (intro secured_extend[OF i(5)]) (auto simp: credential_def invitation_def)
          then have "viewer_inv e v0 (turns @ [t]) (VKeyReply signed_id, v\<lparr>vw_sent := vw_sent v @ [MiscMsg]\<rparr>)"
            using i None no_pin by (simp add: viewer_inv_def credential_def untouched_def)
          then show ?thesis
            using None no_pin pin by (auto simp: on_signed_id_def intro!: vsend_inv secured_over[OF i(5)])
        qed
      qed
      then show ?thesis using VGot VSignedId by (simp add: hello_step_def)
    qed (simp_all add: VGot hello_step_def over_inv[OF i(5)])
  qed (simp_all add: hello_step_def over_inv[OF i(5)])
qed

lemma key_reply_inv:
  assumes "viewer_inv e v0 turns (VKeyReply signed_id, v)"
  shows "viewer_inv e v0 (turns @ [t]) (key_reply_step e t signed_id v)"
proof -
  have i: "vw_key v = None" "untouched v0 v" "load_pinned_peer_sign_pk e v0 = None" "ve_signal_pk e = None"
    "\<not> list_ex credential (vw_sent v)" "secured_ok e v0 turns v"
    using assms by (simp_all add: viewer_inv_def)
  note no_key = no_key_inv[OF i(6,1,2,3,5), of t]
  have "viewer_inv e v0 (turns @ [t]) (on_key_reply e t signed_id (VKeyResponse supplied) v)" for supplied
    using no_key identity_inv[OF i(6)] verified_inv[OF _ _ i(6), of signed_id supplied] i(3-5)
    by (auto simp: on_key_reply_def trusted_key_def split: sum.split verify_failure.split)
  then have "viewer_inv e v0 (turns @ [t]) (on_key_reply e t signed_id m v)" for m
    using no_key by (cases m) (auto simp: on_key_reply_def)
  then show ?thesis by (simp add: key_reply_step_def over_inv[OF i(6)] split: vrecv.split)
qed

lemma await_hash_inv:
  assumes "viewer_inv e v0 turns (VAwaitHash secured, v)"
  shows "viewer_inv e v0 (turns @ [t]) (await_hash_step e t secured v)"
proof -
  have i: "secured \<longleftrightarrow> vw_key v \<noteq> None" "\<not> secured \<Longrightarrow> untouched v0 v" "\<not> secured \<Longrightarrow> load_pinned_peer_sign_pk e v0 = None"
    "secured_ok e v0 turns v"
    using assms by (auto simp: viewer_inv_def)
  show ?thesis
    using i(1-3) over_inv[OF i(4)] on_hash_inv[OF i(4), of secured t]
    by (auto simp: await_hash_step_def split: vrecv.split vmsg.split)
qed

lemma step_inv:
  assumes "viewer_inv e v0 turns st"
  shows "viewer_inv e v0 (turns @ [t]) (viewer_step e t st)"
proof -
  obtain ph v where st: "st = (ph, v)" by (cases st)
  show ?thesis
  proof (cases "late ph")
    case True
    have s: "secured_ok e v0 turns v" using assms by (simp add: st viewer_inv_def)
    note p = late_step[OF True, of e t v]
    show ?thesis
    proof (cases "vw_sent v = []")
      case True
      then have "viewer_step e t st = st" using assms \<open>late ph\<close> by (cases ph) (auto simp: st viewer_inv_def viewer_step_def late_def)
      moreover have "secured_ok e v0 (turns @ [t]) v" using s by (rule secured_over) simp_all
      ultimately show ?thesis using assms \<open>late ph\<close> unfolding st viewer_inv_def by (cases ph) (auto simp: late_def)
    next
      case False
      then have "secured_ok e v0 (turns @ [t]) (snd (viewer_step e t (ph, v)))" using s p by (intro secured_probes)
      moreover have "vw_sent (snd (viewer_step e t (ph, v))) \<noteq> []" "late (fst (viewer_step e t (ph, v)))"
        using p False by (auto simp: probes_only_def)
      ultimately show ?thesis using inv_late[of "fst (viewer_step e t (ph, v))" "snd (viewer_step e t (ph, v))"] by (simp add: st)
    qed
  next
    case False
    then show ?thesis
      using assms hello_inv key_reply_inv await_hash_inv by (cases ph) (auto simp: st late_def viewer_step_def)
  qed
qed

lemma open_inv: "viewer_inv e v0 [] (open_viewer e v0)"
  by (simp add: open_viewer_def viewer_inv_def secured_ok_def plain_ok_def untouched_def)

lemma run_inv: "viewer_inv e v0 turns (run_viewer e turns (open_viewer e v0))"
proof (induction turns rule: rev_induct)
  case Nil
  then show ?case using open_inv by (simp add: run_viewer_def)
next
  case (snoc t turns)
  then show ?case by (simp add: run_viewer_snoc step_inv)
qed

section \<open>Waiting\<close>

definition ended :: "vphase \<Rightarrow> bool" where
  "ended ph = (case ph of VConnected \<Rightarrow> True | VAnswered _ \<Rightarrow> True | VOver _ \<Rightarrow> True | VPanic \<Rightarrow> True | _ \<Rightarrow> False)"

lemma ended_simps [simp]: "ended VConnected" "ended (VAnswered b)" "ended (VOver r)" "ended VPanic" "ended (identity_error e)"
  by (simp_all add: ended_def identity_error_def)


















section \<open>Pinned keys\<close>

definition peer_file_ok :: "venv \<Rightarrow> viewer \<Rightarrow> bool" where
  "peer_file_ok e v \<longleftrightarrow> peer_wf (load_peer e v) \<and> \<not> pc_read_failed (load_peer e v)"

lemma load_saved_peer:
  assumes "peer_wf cfg" "\<not> pc_read_failed cfg" "vt_disk t"
  shows "load_peer e (save_peer e t cfg v) = cfg"
proof -
  obtain content where c: "peer_save (ve_enc_key e) cfg = Some content" using assms(2) by (simp add: peer_save_def)
  have "peer_kept cfg = cfg" using assms(2) by (simp add: peer_kept_def)
  then show ?thesis using peer_load_save[OF assms(1) c] c assms(3) by (simp add: load_peer_def save_peer_def)
qed

lemma password_value:
  assumes "distinct (map fst opts)" "(k, x) \<in> set (options_set opts l w)"
  shows "k = l \<and> x = w \<or> (k, x) \<in> set opts"
proof -
  have "map_of (options_set opts l w) k = Some x" using assms distinct_options_set by (metis map_of_eq_Some_iff)
  then show ?thesis
    by (auto simp: options_set_def update_conv' delete_conv' split: if_splits dest: map_of_SomeD)
qed

lemma peer_wf_set:
  assumes "peer_wf cfg" "toml_key k" "k \<noteq> str ''alias''" "k = str ''password'' \<Longrightarrow> list_all is_scalar x"
  shows "peer_wf (peer_set_option cfg k x)"
proof -
  have opts: "options_ok (pc_options cfg)" "str ''alias'' \<notin> fst ` set (pc_options cfg)"
    "\<And>y. (str ''password'', y) \<in> set (pc_options cfg) \<Longrightarrow> list_all is_scalar y"
    using assms(1) by (simp_all add: peer_wf_def)
  have "options_ok (options_set (pc_options cfg) k x)" using opts(1) assms(2) by (rule options_ok_set)
  moreover have "str ''alias'' \<notin> fst ` set (options_set (pc_options cfg) k x)"
    using keys_options_set[of "pc_options cfg" k x] opts(2) assms(3) by blast
  moreover have "list_all is_scalar y" if "(str ''password'', y) \<in> set (options_set (pc_options cfg) k x)" for y
    using password_value[OF _ that] opts(1,3) assms(4) unfolding options_ok_def by blast
  ultimately show ?thesis by (simp add: peer_wf_def peer_set_option_def)
qed

lemma set_option_read_failed [simp]: "pc_read_failed (peer_set_option cfg k x) = pc_read_failed cfg"
  by (simp add: peer_set_option_def)

lemma peer_keys: "toml_key PEER_PUBLIC_KEY_OPTION" "toml_key (str ''password'')"
  "PEER_PUBLIC_KEY_OPTION \<noteq> str ''alias''" "PEER_PUBLIC_KEY_OPTION \<noteq> str ''password''"
  by (simp_all add: PEER_PUBLIC_KEY_OPTION_def key_simps)

lemma stored_option:
  assumes "peer_file_ok e v" "vt_disk t" "toml_key k" "k \<noteq> str ''alias''" "k = str ''password'' \<Longrightarrow> list_all is_scalar x"
  shows "load_peer e (save_peer e t (peer_set_option (load_peer e v) k x) v) = peer_set_option (load_peer e v) k x"
    and "peer_file_ok e (save_peer e t (peer_set_option (load_peer e v) k x) v)"
proof -
  have wf: "peer_wf (peer_set_option (load_peer e v) k x)"
    using assms by (intro peer_wf_set) (auto simp: peer_file_ok_def)
  show l: "load_peer e (save_peer e t (peer_set_option (load_peer e v) k x) v) = peer_set_option (load_peer e v) k x"
    using assms(1,2) by (intro load_saved_peer[OF wf]) (simp_all add: peer_file_ok_def)
  show "peer_file_ok e (save_peer e t (peer_set_option (load_peer e v) k x) v)"
    using wf assms(1) by (simp add: peer_file_ok_def l)
qed

definition pinned_ok :: "venv \<Rightarrow> bytes \<Rightarrow> viewer \<Rightarrow> bool" where
  "pinned_ok e r v \<longleftrightarrow> peer_file_ok e v \<and> load_pinned_peer_sign_pk e v = Some r"

lemma pin_pinned:
  assumes "peer_file_ok e v" "vt_disk t" "length r = 32"
  shows "pinned_ok e r (pin_peer_sign_pk e t r v)"
proof -
  note st = stored_option[OF assms(1,2) peer_keys(1,3), of "map unat (base64_encode r)"]
  show ?thesis
    using st(2) peer_keys(4) assms(3) unfolding pinned_ok_def pin_peer_sign_pk_def load_pinned_peer_sign_pk_def
    by (simp add: st(1) peer_options.get_put decode_peer_sign_pk_def utf8_base64 base64_decode_encode)
qed

lemma save_without_disk: "\<not> vt_disk t \<Longrightarrow> save_peer e t cfg v = v"
  by (simp add: save_peer_def split: option.split)

lemma remember_pinned:
  assumes "pinned_ok e r v" "list_all is_scalar (ve_password e)"
  shows "pinned_ok e r (remember_password e t v)"
proof (cases "ve_password e = [] \<or> \<not> vt_disk t")
  case False
  have ok: "peer_file_ok e v" using assms(1) by (simp add: pinned_ok_def)
  from False have "vt_disk t" by simp
  note st = stored_option[OF ok this peer_keys(2), of "if ve_remember e then ve_password e else []"]
  show ?thesis
    using st assms peer_keys(4) False unfolding pinned_ok_def remember_password_def load_pinned_peer_sign_pk_def
    by (simp add: peer_options.get_put)
qed (use assms in \<open>auto simp: remember_password_def save_without_disk\<close>)

lemma pinned_cong: "vw_files v' = vw_files v \<Longrightarrow> pinned_ok e r v' = pinned_ok e r v"
  by (simp add: pinned_ok_def peer_file_ok_def load_pinned_peer_sign_pk_def load_peer_def)

lemma pinned_updates: "pinned_ok e r (v\<lparr>vw_sent := ms, vw_key := k\<rparr>) = pinned_ok e r v"
  by (rule pinned_cong) simp

text \<open>Past the handshake the files change only with the remembered password.\<close>

definition files_kept :: "venv \<Rightarrow> vturn \<Rightarrow> viewer \<Rightarrow> voutcome \<Rightarrow> bool" where
  "files_kept e t v st \<longleftrightarrow> vw_files (snd st) = vw_files v \<or> vw_files (snd st) = vw_files (remember_password e t v)"

lemma vsend_files: "(\<And>m v'. vw_files v' = vw_files v \<Longrightarrow> vw_files (snd (k v')) = vw_files v) \<Longrightarrow> vw_files (snd (vsend t m v k)) = vw_files v"
  by (simp add: vsend_def)

lemma files_step: "late ph \<Longrightarrow> files_kept e t v (viewer_step e t (ph, v))"
proof -
  have c: "files_kept e t v (connected e t pi v)" for pi by (simp add: files_kept_def connected_def Let_def)
  have k: "vw_files (snd st) = vw_files v \<Longrightarrow> files_kept e t v st" for st by (simp add: files_kept_def)
  have "files_kept e t v (vlogin_step e t d v)" for d
    unfolding vlogin_step_def by (auto simp: c k vsend_files split: vrecv.split vmsg.split)
  moreover have "files_kept e t v (accept_step e t d v)" for d
    unfolding accept_step_def by (auto simp: c k split: vrecv.split vmsg.split)
  moreover have "files_kept e t v (invite_wait_step e t d v)" for d
    unfolding invite_wait_step_def by (auto simp: k vsend_files split: vrecv.split vmsg.split)
  ultimately show "late ph \<Longrightarrow> ?thesis"
    by (cases ph) (simp_all add: late_def viewer_step_def k)
qed

lemma send_login_files: "vw_files (snd (send_login e t slt challenge v)) = vw_files v \<and> vw_key (snd (send_login e t slt challenge v)) = vw_key v"
  by (simp add: send_login_def Let_def vsend_def split: option.split)

lemma on_hash_files: "vw_files (snd (on_hash e t slt challenge b v)) = vw_files v \<and> vw_key (snd (on_hash e t slt challenge b v)) = vw_key v"
  using send_login_files[of e t slt challenge]
  by (auto simp: on_hash_def vsend_def prompt_insecure_consent_def Let_def split: option.split)

lemma pinned_step:
  assumes "viewer_inv e v0 turns (ph, v)" "ve_signal_pk e = Some r" "load_pinned_peer_sign_pk e v0 = None" "length r = 32"
    and "vt_disk t" "list_all is_scalar (ve_password e)" "peer_file_ok e v0"
    and "vw_key v \<noteq> None \<Longrightarrow> pinned_ok e r v" "vw_key (snd (viewer_step e t (ph, v))) \<noteq> None"
  shows "pinned_ok e r (snd (viewer_step e t (ph, v)))"
proof (cases "late ph")
  case True
  then have "vw_key v \<noteq> None" using assms(9) late_step[OF True, of e t v] by (simp add: probes_only_def)
  then have "pinned_ok e r v" using assms(8) by blast
  then show ?thesis
    using files_step[OF True, of e t v] remember_pinned[OF _ assms(6), of r v t] pinned_cong unfolding files_kept_def by blast
next
  case False
  then show ?thesis
  proof (cases ph)
    case VHello
    then have u: "untouched v0 v" "vw_key v = None" using assms(1) by (auto simp: viewer_inv_def)
    have np: "load_pinned_peer_sign_pk e v = None" using pinned_untouched[OF u(1)] assms(3) by simp
    have ok: "peer_file_ok e v" using assms(7) load_peer_untouched[OF u(1)] by (simp add: peer_file_ok_def)
    have pin: "pinned_ok e r (pin_peer_sign_pk e t r v)" by (rule pin_pinned[OF ok assms(5,4)])
    have "vw_key (snd (on_signed_id e t sid v)) \<noteq> None \<Longrightarrow> pinned_ok e r (snd (on_signed_id e t sid v))" for sid
      using np assms(2) pin u(2)
      by (auto simp: on_signed_id_def send_session_key_def vsend_def identity_error_def pinned_updates split: sum.split)
    then show ?thesis
      using assms(9) u(2) on_hash_files by (auto simp: VHello viewer_step_def hello_step_def split: vrecv.splits vmsg.splits)
  next
    case (VKeyReply s)
    then show ?thesis using assms(1,2) by (simp add: viewer_inv_def)
  next
    case (VAwaitHash b)
    have "vw_files (snd (await_hash_step e t b v)) = vw_files v" "vw_key (snd (await_hash_step e t b v)) = vw_key v"
      using on_hash_files by (auto simp: await_hash_step_def split: vrecv.split vmsg.split)
    then show ?thesis using assms(8,9) pinned_cong[of "snd (await_hash_step e t b v)" v] by (simp add: VAwaitHash viewer_step_def)
  qed (auto simp: late_def)
qed

lemma run_pinned:
  assumes "ve_signal_pk e = Some r" "load_pinned_peer_sign_pk e v0 = None" "length r = 32" "list_all is_scalar (ve_password e)"
    "peer_file_ok e v0" "list_all vt_disk turns"
  shows "vw_key (snd (run_viewer e turns (open_viewer e v0))) \<noteq> None \<Longrightarrow> pinned_ok e r (snd (run_viewer e turns (open_viewer e v0)))"
  using assms(6)
proof (induction turns rule: rev_induct)
  case Nil
  then show ?case by (simp add: run_viewer_def open_viewer_def)
next
  case (snoc t turns)
  obtain ph v where st: "run_viewer e turns (open_viewer e v0) = (ph, v)" by fastforce
  have inv: "viewer_inv e v0 turns (ph, v)" using run_inv[of e v0 turns] st by simp
  show ?case
    using snoc pinned_step[OF inv assms(1-3) _ assms(4,5), of t] by (simp add: run_viewer_snoc st)
qed

text \<open>Later connections of the same viewer, to this peer and to others. A connection to a peer whose key is pinned keeps it, and
  one to another peer does not touch its file.\<close>

lemma pinned_target:
  "ve_target e' = ve_target e \<Longrightarrow> ve_enc_key e' = ve_enc_key e \<Longrightarrow> pinned_ok e' r v = pinned_ok e r v"
  "ve_target e' = ve_target e \<Longrightarrow> ve_enc_key e' = ve_enc_key e \<Longrightarrow> load_pinned_peer_sign_pk e' v = load_pinned_peer_sign_pk e v"
  by (simp_all add: pinned_ok_def peer_file_ok_def load_pinned_peer_sign_pk_def load_peer_def)

lemma on_signed_id_files: "load_pinned_peer_sign_pk e v \<noteq> None \<Longrightarrow> vw_files (snd (on_signed_id e t sid v)) = vw_files v"
  by (auto simp: on_signed_id_def send_session_key_def vsend_def split: sum.split)

lemma key_reply_files: "vw_files (snd (on_key_reply e t sid m v)) = vw_files v"
  by (simp add: on_key_reply_def send_session_key_def send_no_key_def vsend_def split: vmsg.split sum.split verify_failure.split)

lemma early_files:
  assumes "\<not> late ph" "load_pinned_peer_sign_pk e v \<noteq> None"
  shows "vw_files (snd (viewer_step e t (ph, v))) = vw_files v"
  using assms on_signed_id_files[OF assms(2)] key_reply_files on_hash_files
  by (cases ph) (auto simp: late_def viewer_step_def hello_step_def key_reply_step_def await_hash_step_def split: vrecv.split vmsg.split)

lemma pinned_kept:
  assumes "pinned_ok e r v" "list_all is_scalar (ve_password e)"
  shows "pinned_ok e r (snd (run_viewer e turns (open_viewer e v)))"
proof (induction turns rule: rev_induct)
  case Nil
  have "vw_files (snd (open_viewer e v)) = vw_files v" by (simp add: open_viewer_def)
  then have "pinned_ok e r (snd (open_viewer e v))" using assms(1) pinned_cong by blast
  then show ?case by (simp add: run_viewer_def)
next
  case (snoc t turns)
  obtain ph u where st: "run_viewer e turns (open_viewer e v) = (ph, u)" by fastforce
  have p: "pinned_ok e r u" using snoc st by simp
  show ?case
  proof (cases "late ph")
    case True
    have "pinned_ok e r (snd (viewer_step e t (ph, u)))"
      using files_step[OF True, of e t u] remember_pinned[OF p assms(2), of t] p pinned_cong unfolding files_kept_def by blast
    then show ?thesis by (simp add: run_viewer_snoc st)
  next
    case False
    have "load_pinned_peer_sign_pk e u \<noteq> None" using p by (simp add: pinned_ok_def)
    then have "vw_files (snd (viewer_step e t (ph, u))) = vw_files u" by (rule early_files[OF False])
    then show ?thesis using p pinned_cong unfolding run_viewer_snoc st by blast
  qed
qed

lemma save_other: "ve_target e' \<noteq> i \<Longrightarrow> vw_files (save_peer e' t cfg v) i = vw_files v i"
  by (simp add: save_peer_def split: option.split)

lemma other_step:
  assumes "ve_target e' \<noteq> i"
  shows "vw_files (snd (viewer_step e' t (ph, v))) i = vw_files v i"
proof (cases "late ph")
  case True
  then show ?thesis
    using files_step[OF True, of e' t v] save_other[OF assms] by (auto simp: files_kept_def remember_password_def)
next
  case False
  have "vw_files (snd (on_signed_id e' t sid v)) i = vw_files v i" for sid
    using save_other[OF assms]
    by (auto simp: on_signed_id_def send_session_key_def vsend_def pin_peer_sign_pk_def split: sum.split option.split)
  then show ?thesis
    using False key_reply_files on_hash_files
    by (cases ph) (auto simp: late_def viewer_step_def hello_step_def key_reply_step_def await_hash_step_def split: vrecv.split vmsg.split)
qed

lemma other_kept:
  assumes "ve_target e' \<noteq> i"
  shows "vw_files (snd (run_viewer e' turns (open_viewer e' v))) i = vw_files v i"
proof (induction turns rule: rev_induct)
  case Nil
  then show ?case by (simp add: run_viewer_def open_viewer_def)
next
  case (snoc t turns)
  then show ?case using other_step[OF assms] by (metis run_viewer_snoc prod.collapse)
qed

definition connect_again :: "venv \<times> vturn list \<Rightarrow> viewer \<Rightarrow> viewer" where
  "connect_again = (\<lambda>(e, turns) v. snd (run_viewer e turns (open_viewer e v)))"

definition same_machine :: "venv \<Rightarrow> venv \<Rightarrow> bool" where
  "same_machine e e' \<longleftrightarrow> ve_enc_key e' = ve_enc_key e \<and> list_all is_scalar (ve_password e')"

lemma pinned_again:
  assumes "pinned_ok e r v" "same_machine e (fst c)"
  shows "pinned_ok e r (connect_again c v)"
proof -
  obtain e' turns where c: "c = (e', turns)" by fastforce
  show ?thesis
  proof (cases "ve_target e' = ve_target e")
    case True
    then have "pinned_ok e' r (connect_again c v)"
      using pinned_kept[of e' r v turns] assms pinned_target[OF True] by (simp add: c connect_again_def same_machine_def)
    then show ?thesis using pinned_target[OF True] assms(2) by (simp add: c same_machine_def)
  next
    case False
    then have "load_peer e (connect_again c v) = load_peer e v"
      using other_kept[OF False] by (simp add: load_peer_def c connect_again_def)
    then show ?thesis using assms(1) by (simp add: pinned_ok_def peer_file_ok_def load_pinned_peer_sign_pk_def)
  qed
qed

lemma pinned_ever_after:
  "pinned_ok e r v \<Longrightarrow> list_all (same_machine e \<circ> fst) later \<Longrightarrow> pinned_ok e r (fold connect_again later v)"
  by (induction later arbitrary: v) (simp_all add: pinned_again)

text \<open>A viewer to try it on: the signed record is the id and the key, the peer is \<open>1\<close>.\<close>

definition demo_viewer_env :: venv where
  "demo_viewer_env = \<lparr>ve_verify = \<lambda>b pk. Some b, ve_parse_id_pk = \<lambda>b. Some (map unat (take (length b - 32) b), drop (length b - 32) b),
     ve_dh = \<lambda>a b. replicate 32 0, ve_enc_key = [], ve_my_id = [50], ve_my_name = [], ve_target = [49], ve_password = [97],
     ve_signal_pk = Some (replicate 32 1), ve_file_transfer = True, ve_remember = True, ve_invite = None, ve_tr = id\<rparr>"

definition demo_viewer :: viewer where
  "demo_viewer = \<lparr>vw_files = \<lambda>i. Some [], vw_local = local_empty, vw_consented = [], vw_switch = None, vw_client = client_state_default,
     vw_sent = [], vw_key = None\<rparr>"

definition demo_vturn :: "vrecv \<Rightarrow> vturn" where
  "demo_vturn r = \<lparr>vt_now = 0, vt_done = 0, vt_recv = r, vt_up = True, vt_err = [], vt_sk = replicate 32 2, vt_pk = replicate 32 3,
     vt_sym_key = replicate 32 9, vt_confirm = False, vt_disk = True\<rparr>"

lemma demo_no_pin: "load_pinned_peer_sign_pk demo_viewer_env demo_viewer = None"
  by (simp add: load_pinned_peer_sign_pk_def load_peer_def demo_viewer_def peer_load_def peer_get_option_def
      peer_empty_def options_get_def decode_peer_sign_pk_def utf8_def)

definition demo_signed :: bytes where
  "demo_signed = [49] @ replicate 32 4"

definition demo_first :: voutcome where
  "demo_first = run_viewer demo_viewer_env [demo_vturn (VGot (VSignedId demo_signed))] (open_viewer demo_viewer_env demo_viewer)"

lemma demo_verified: "verified_session_pk demo_viewer_env demo_signed pk = Inr (replicate 32 4)"
  by (simp add: verified_session_pk_def demo_viewer_env_def demo_signed_def signed_id_matches_target_def)

lemma demo_pinned_or_not:
  "load_pinned_peer_sign_pk demo_viewer_env v = None \<or> load_pinned_peer_sign_pk demo_viewer_env v = Some pk \<Longrightarrow>
   vw_key (snd (run_viewer demo_viewer_env [demo_vturn (VGot (VSignedId demo_signed))] (open_viewer demo_viewer_env v))) = Some (replicate 32 9)"
proof -
  assume a: "load_pinned_peer_sign_pk demo_viewer_env v = None \<or> load_pinned_peer_sign_pk demo_viewer_env v = Some pk"
  have "load_pinned_peer_sign_pk demo_viewer_env (snd (open_viewer demo_viewer_env v)) = load_pinned_peer_sign_pk demo_viewer_env v"
    by (rule pinned_untouched) (simp add: untouched_def open_viewer_def)
  moreover obtain v1 where v1: "open_viewer demo_viewer_env v = (VHello, v1)" by (simp add: open_viewer_def)
  moreover have "ve_signal_pk demo_viewer_env = Some (replicate 32 1)" by (simp add: demo_viewer_env_def)
  ultimately show ?thesis
    using a by (auto simp: run_viewer_def viewer_step_def hello_step_def demo_vturn_def on_signed_id_def demo_verified send_session_key_def vsend_def)
qed

section \<open>Properties\<close>

text \<open>C2: 
  Whatever a peer sends, the viewer encrypts under a key only after it sealed that key for a session key that was signed for this
  peer by the key it has to trust: the pinned key where there is one, else the key that came with the address, and only
  without both the one the peer names. Without encryption no invitation leaves, a login leaves only with the
  user's consent, and where a key is pinned nothing at all leaves unless the peer greets with a bare challenge.
\<close>

theorem viewer_identity:
  assumes "run_viewer e turns (open_viewer e v0) = (ph, v)"
  shows "case vw_key v of
      Some k \<Rightarrow> keyed_by e v0 k v
    | None \<Rightarrow> \<not> list_ex invitation (vw_sent v) \<and> (list_ex credential (vw_sent v) \<longrightarrow> consent e v0 turns) \<and>
        (load_pinned_peer_sign_pk e v0 \<noteq> None \<and> vw_sent v \<noteq> [] \<longrightarrow> greeted_plainly turns)"
  using run_inv[of e v0 turns] assms by (simp add: viewer_inv_def secured_ok_def plain_ok_def split: option.splits)

theorem viewer_identity_witness:
  "case vw_key (snd demo_first) of
      Some k \<Rightarrow> keyed_by demo_viewer_env demo_viewer k (snd demo_first)
    | None \<Rightarrow> \<not> list_ex invitation (vw_sent (snd demo_first))"
  using viewer_identity[of demo_viewer_env "[demo_vturn (VGot (VSignedId demo_signed))]" demo_viewer "fst demo_first" "snd demo_first"]
  by (simp add: demo_first_def split: option.splits)

text \<open>C3: 
  Trust on first use: once a connection was encrypted with the key that came with the address, that key is pinned in the peer's
  file. However many connections follow, to this peer or to others, with whatever messages, keys coming with the address, passwords to
  remember and failing writes, it stays pinned, and each of those to this peer that is encrypted is encrypted only for a
  session key signed by it.
\<close>

theorem first_key_sticks:
  assumes "run_viewer e turns (open_viewer e v0) = (ph, v)" "vw_key v \<noteq> None"
    and "load_pinned_peer_sign_pk e v0 = None" "ve_signal_pk e = Some r" "length r = 32"
    and "peer_file_ok e v0" "list_all is_scalar (ve_password e)" "list_all vt_disk turns"
    and "list_all (same_machine e \<circ> fst) later"
    and "ve_target e' = ve_target e" "ve_enc_key e' = ve_enc_key e"
    and "run_viewer e' turns' (open_viewer e' (fold connect_again later v)) = (ph', v')" "vw_key v' = Some k"
  shows "load_pinned_peer_sign_pk e (fold connect_again later v) = Some r \<and>
    (\<exists>signed_id session_pk our_sk our_pk. verified_session_pk e' signed_id r = Inr session_pk \<and>
       PublicKey our_pk (crypto_box_seal (ve_dh e') session_pk our_sk (replicate 24 0) k) \<in> set (vw_sent v'))"
proof -
  have "pinned_ok e r v" using run_pinned[OF assms(4,3,5,7,6,8)] assms(1,2) by simp
  then have pin: "load_pinned_peer_sign_pk e (fold connect_again later v) = Some r"
    using pinned_ever_after[OF _ assms(9)] by (simp add: pinned_ok_def)
  then have "load_pinned_peer_sign_pk e' (fold connect_again later v) = Some r"
    using assms(10,11) by (simp add: load_pinned_peer_sign_pk_def load_peer_def)
  moreover have "keyed_by e' (fold connect_again later v) k v'"
    using run_inv[of e' "fold connect_again later v" turns'] assms(12,13) by (simp add: viewer_inv_def secured_ok_def)
  ultimately show ?thesis using pin by (auto simp: keyed_by_def trusted_key_def)
qed

text \<open>The second connection comes with another key, the third is the one looked at.\<close>

definition demo_other_key :: "venv \<times> vturn list" where
  "demo_other_key = (demo_viewer_env\<lparr>ve_signal_pk := Some (replicate 32 7)\<rparr>, [demo_vturn (VGot (VSignedId demo_signed))])"

theorem first_key_sticks_witness:
  "load_pinned_peer_sign_pk demo_viewer_env (fold connect_again [demo_other_key] (snd demo_first)) = Some (replicate 32 1)"
proof -
  let ?turns = "[demo_vturn (VGot (VSignedId demo_signed))]"
  have ok: "peer_file_ok demo_viewer_env demo_viewer"
    by (simp add: peer_file_ok_def load_peer_def demo_viewer_def peer_load_def peer_wf_def options_ok_def peer_empty_def)
  have k1: "vw_key (snd demo_first) = Some (replicate 32 9)"
    unfolding demo_first_def by (rule demo_pinned_or_not) (simp add: demo_no_pin)
  have env: "ve_signal_pk demo_viewer_env = Some (replicate 32 1)" "list_all is_scalar (ve_password demo_viewer_env)"
    "list_all vt_disk ?turns" "list_all (same_machine demo_viewer_env \<circ> fst) [demo_other_key]"
    by (simp_all add: demo_viewer_env_def demo_vturn_def is_scalar_def same_machine_def demo_other_key_def)
  have "pinned_ok demo_viewer_env (replicate 32 1) (snd demo_first)"
    using run_pinned[OF env(1) demo_no_pin _ env(2) ok env(3)] k1 unfolding demo_first_def by simp
  then have "pinned_ok demo_viewer_env (replicate 32 1) (fold connect_again [demo_other_key] (snd demo_first))"
    by (rule pinned_ever_after) (rule env(4))
  then have k2: "vw_key (snd (run_viewer demo_viewer_env ?turns (open_viewer demo_viewer_env (fold connect_again [demo_other_key] (snd demo_first))))) =
      Some (replicate 32 9)"
    unfolding pinned_ok_def by (intro demo_pinned_or_not disjI2) simp
  have run: "run_viewer demo_viewer_env ?turns (open_viewer demo_viewer_env demo_viewer) = (fst demo_first, snd demo_first)"
    by (simp add: demo_first_def)
  have len: "length (replicate 32 1 :: bytes) = 32" and key: "vw_key (snd demo_first) \<noteq> None" using k1 by simp_all
  show ?thesis
    using first_key_sticks[OF run key demo_no_pin env(1) len ok env(2,3,4) refl refl prod.collapse[symmetric] k2] by blast
qed





end
