(* ===== verification/Viewer_Server.thy ===== *)
theory Viewer_Server
  imports Viewer_Session
begin

text \<open>
  The viewer of \<open>src/src/client.rs\<close> and the server of \<open>src/src/server.rs\<close> talking to each other: what one side sends is what
  the other receives. Signing, the signed record's encoding and the peer information are parameters of the wire.
\<close>

section \<open>The wire\<close>

record wire =
  w_sign :: "bytes \<Rightarrow> bytes \<Rightarrow> bytes"
  w_id_pk :: "rstr \<Rightarrow> bytes \<Rightarrow> bytes"
  w_info :: peer_info

definition to_viewer :: "wire \<Rightarrow> srv_msg \<Rightarrow> vmsg" where
  "to_viewer w m =
     (case m of
        SignedIdPk i pk sk \<Rightarrow> VSignedId (case sk of Some sk \<Rightarrow> w_sign w (w_id_pk w i pk) sk | None \<Rightarrow> w_id_pk w i pk)
      | InitialPublicKey pk \<Rightarrow> VKeyResponse pk
      | HashChallenge slt challenge \<Rightarrow> VHash slt challenge
      | KeepAlive \<Rightarrow> VTestDelay False
      | LoginError err \<Rightarrow> VLoginError err
      | PeerInfo _ _ \<Rightarrow> VLoginPeer (w_info w)
      | PermissionInfo p b \<Rightarrow> VPermission p b
      | InviteResponse accepted _ \<Rightarrow> VInviteResponse accepted)"

definition viewer_hears :: "wire \<Rightarrow> venv \<Rightarrow> vturn \<Rightarrow> srv_msg list \<Rightarrow> voutcome \<Rightarrow> voutcome" where
  "viewer_hears w e t ms st = run_viewer e (map (\<lambda>m. t\<lparr>vt_recv := VGot (to_viewer w m)\<rparr>) ms) st"

definition server_hears :: "env \<Rightarrow> turn \<Rightarrow> peer_msg list \<Rightarrow> outcome \<Rightarrow> outcome" where
  "server_hears e t ms st = run_session e (map (\<lambda>m. t\<lparr>t_recv := Received m\<rparr>) ms) st"

text \<open>One exchange: the viewer hears what the server has sent since the last, then the server what the viewer has.\<close>

definition exchange :: "wire \<Rightarrow> venv \<Rightarrow> env \<Rightarrow> vturn \<times> turn \<Rightarrow> (voutcome \<times> nat) \<times> (outcome \<times> nat) \<Rightarrow> (voutcome \<times> nat) \<times> (outcome \<times> nat)" where
  "exchange w ve se = (\<lambda>(vt, t) ((vst, heard_v), (sst, heard_s)).
     let vst' = viewer_hears w ve vt (drop heard_v (s_sent (snd sst))) vst;
         sst' = server_hears se t (drop heard_s (vw_sent (snd vst'))) sst
     in ((vst', length (s_sent (snd sst))), (sst', length (vw_sent (snd vst')))))"

definition connection :: "wire \<Rightarrow> venv \<Rightarrow> env \<Rightarrow> (vturn \<times> turn) list \<Rightarrow> viewer \<Rightarrow> session \<Rightarrow> voutcome \<times> outcome" where
  "connection w ve se ts v s =
     (let ((vst, _), (sst, _)) =
            fold (exchange w ve se) ts ((open_viewer ve v, 0), (open_session se None True (s\<lparr>s_sent := []\<rparr>), 0))
      in (vst, sst))"

section \<open>Honest parties\<close>

text \<open>The viewer trusts the server's signing key and asks for the server's id; the signature verifies, and the Diffie-Hellman
  function agrees on both sides.\<close>

definition acquainted :: "wire \<Rightarrow> venv \<Rightarrow> env \<Rightarrow> viewer \<Rightarrow> vturn \<Rightarrow> bool" where
  "acquainted w ve se v vt \<longleftrightarrow>
     (let body = w_id_pk w (e_id se) (e_eph_pk se)
      in ve_verify ve (w_sign w body (e_signing_sk se)) (e_signing_pk se) = Some body \<and>
         ve_parse_id_pk ve body = Some (e_id se, e_eph_pk se) \<and>
         ve_target ve = e_id se \<and> length (e_signing_sk se) = 64 \<and> length (e_eph_pk se) = 32 \<and>
         (case load_pinned_peer_sign_pk ve v of
            Some pinned \<Rightarrow> pinned = e_signing_pk se
          | None \<Rightarrow> ve_signal_pk ve = Some (e_signing_pk se)) \<and>
         e_dh se = ve_dh ve \<and> ve_dh ve (vt_sk vt) (e_eph_pk se) = ve_dh ve (e_eph_sk se) (vt_pk vt) \<and>
         length (vt_pk vt) = 32 \<and> length (vt_sym_key vt) = 32)"

definition knows_password :: "venv \<Rightarrow> session \<Rightarrow> bool" where
  "knows_password ve s \<longleftrightarrow>
     ve_password ve \<noteq> [] \<and>
     (ve_password ve = password (st_cfg (s_store s)) \<or> ve_password ve = permanent_password (st_cfg (s_store s)))"

text \<open>No second factor is set and the kind of session is allowed.\<close>

definition open_door :: "venv \<Rightarrow> env \<Rightarrow> session \<Rightarrow> bool" where
  "open_door ve se s \<longleftrightarrow>
     load_secret (e_upper se) (st_cfg2 (s_store s)) = None \<and>
     refusal (st_cfg2 (s_store s)) (if ve_file_transfer ve then Files else Desktop) = None"

text \<open>A connection that works, with nobody else writing the configuration, and answers within three seconds.\<close>

definition prompt_turns :: "(vturn \<times> turn) list \<Rightarrow> bool" where
  "prompt_turns ts \<longleftrightarrow>
     list_all (\<lambda>(vt, t). vt_up vt \<and> t_up t \<and> t_other t = id \<and>
        list_all (\<lambda>(vt', t'). t_now t' < t_now t + 3000 \<and> vt_now vt' < vt_done vt + 30000) ts) ts"

lemma agreed_key:
  assumes "e_dh e viewer_sk server_pk = e_dh e (e_eph_sk e) viewer_pk" "length viewer_pk = 32" "length k = 32"
  shows "try_setup_encryption e viewer_pk (crypto_box_seal (e_dh e) server_pk viewer_sk (replicate 24 0) k) s = s\<lparr>s_key := Some k\<rparr>"
proof -
  have "crypto_box_seal (e_dh e) server_pk viewer_sk (replicate 24 0) k \<noteq> []"
    using secretbox.length_seal assms(3) by (metis crypto_box_seal_def add_is_0 list.size(3) zero_neq_numeral)
  moreover have "crypto_box_open (e_dh e) viewer_pk (e_eph_sk e) (replicate 24 0)
      (crypto_box_seal (e_dh e) server_pk viewer_sk (replicate 24 0) k) = Some k"
    by (simp add: seal_open_box[of "e_dh e", OF assms(1)])
  ultimately show ?thesis using assms(2,3) by (simp add: try_setup_encryption_def)
qed

lemma length_password_hash: "length (password_hash pw slt challenge) = 32"
proof -
  have "length (sha256_finalize (sha256_update (sha256_update sha256_new a) b)) = 32" for a b
    using sha256_parts[of "[a, b]"] by simp
  then show ?thesis by (simp add: password_hash_def compute_password_hash_def Let_def)
qed

lemma viewer_hears_simps [simp]:
  "viewer_hears w e t [] st = st"
  "viewer_hears w e t (m # ms) st = viewer_hears w e t ms (viewer_step e (t\<lparr>vt_recv := VGot (to_viewer w m)\<rparr>) st)"
  by (simp_all add: viewer_hears_def run_viewer_def)

lemma server_hears_simps [simp]:
  "server_hears e t [] st = st"
  "server_hears e t (m # ms) st = server_hears e t ms (session_step e (t\<lparr>t_recv := Received m\<rparr>) st)"
  by (simp_all add: server_hears_def run_session_def)

lemma connected_stays: "viewer_hears w e t ms (VConnected, v) = (VConnected, v)"
  by (induction ms) (simp_all add: viewer_step_def)

definition key_message :: "venv \<Rightarrow> env \<Rightarrow> vturn \<Rightarrow> peer_msg" where
  "key_message ve se vt =
     PublicKey (vt_pk vt) (crypto_box_seal (ve_dh ve) (e_eph_pk se) (vt_sk vt) (replicate 24 0) (vt_sym_key vt))"

text \<open>The three exchanges, side by side.\<close>

lemma viewer_greeted:
  assumes "acquainted w ve se v vt" "vt_up vt" "ve_invite ve = None" "vw_switch v = None"
  shows "\<exists>v1. viewer_hears w ve vt [SignedIdPk (e_id se) (e_eph_pk se) (Some (e_signing_sk se))] (open_viewer ve v) = (VAwaitHash True, v1) \<and>
    vw_sent v1 = [key_message ve se vt] \<and> vw_key v1 = Some (vt_sym_key vt) \<and> vw_switch v1 = None"
proof -
  let ?signed = "w_sign w (w_id_pk w (e_id se) (e_eph_pk se)) (e_signing_sk se)"
  define v0 where "v0 = snd (open_viewer ve v)"
  have v0: "open_viewer ve v = (VHello, v0)" "vw_sent v0 = []" "vw_switch v0 = None" "untouched v v0"
    using assms(4) by (simp_all add: v0_def open_viewer_def untouched_def)
  have ok: "verified_session_pk ve ?signed (e_signing_pk se) = Inr (e_eph_pk se)"
    using assms(1) by (simp add: acquainted_def verified_session_pk_def signed_id_matches_target_def Let_def)
  have sw: "vw_switch (pin_peer_sign_pk ve t pk v0) = None" for t pk using v0(3) by (simp add: pin_peer_sign_pk_def)
  have "\<exists>v1. on_signed_id ve (vt\<lparr>vt_recv := r\<rparr>) ?signed v0 = (VAwaitHash True, v1) \<and>
      vw_sent v1 = [key_message ve se vt] \<and> vw_key v1 = Some (vt_sym_key vt) \<and> vw_switch v1 = None" for r
  proof (cases "load_pinned_peer_sign_pk ve v")
    case None
    then show ?thesis
      using assms(1,2) ok v0 pinned_untouched[OF v0(4)] sw
      by (simp add: on_signed_id_def acquainted_def Let_def send_session_key_def vsend_def key_message_def)
  next
    case (Some pinned)
    then show ?thesis
      using assms(1,2) ok v0 pinned_untouched[OF v0(4)]
      by (simp add: on_signed_id_def acquainted_def Let_def send_session_key_def vsend_def key_message_def)
  qed
  then show ?thesis by (simp add: v0(1) viewer_step_def hello_step_def to_viewer_def)
qed

lemma server_greeted:
  assumes "acquainted w ve se v vt" "t_up t" "t_other t = id" "s_store s0 = s_store s" "s_salt s0 = salt (st_cfg (s_store s))"
  shows "\<exists>s1 challenge. server_hears se t [key_message ve se vt] (Greeting, s0) = (AwaitLogin 0 (t_now t + 120000) (t_now t), s1) \<and>
    s_sent s1 = s_sent s0 @ [HashChallenge (salt (st_cfg (s_store s))) challenge] \<and> s_key s1 = Some (vt_sym_key vt) \<and>
    s_store s1 = s_store s \<and> s_salt s1 = salt (st_cfg (s_store s)) \<and> s_challenge s1 = challenge"
proof -
  have k: "try_setup_encryption se (vt_pk vt) (crypto_box_seal (ve_dh ve) (e_eph_pk se) (vt_sk vt) (replicate 24 0) (vt_sym_key vt)) s' =
      s'\<lparr>s_key := Some (vt_sym_key vt)\<rparr>" for s'
    using assms(1) agreed_key[of se "vt_sk vt" "e_eph_pk se" "vt_pk vt" "vt_sym_key vt" s'] by (simp add: acquainted_def Let_def)
  show ?thesis
    using assms(2-5)
    by (simp add: session_step_def greeting_step_def key_message_def k send_challenge_def Let_def try_say_def say_def)
qed

lemma viewer_challenged:
  assumes "vt_up vt" "ve_invite ve = None" "vw_switch v1 = None"
  shows "\<exists>v2. viewer_hears w ve vt [HashChallenge slt challenge] (VAwaitHash True, v1) = (VAwaitLogin (vt_done vt + 30000), v2) \<and>
    vw_sent v2 = vw_sent v1 @ [LoginRequest (login_request_of ve
      (if ve_password ve = [] then [] else password_hash (ve_password ve) slt challenge) (if ve_file_transfer ve then Some FileTransfer else None))] \<and>
    vw_key v2 = vw_key v1"
  using assms by (simp add: viewer_step_def await_hash_step_def to_viewer_def on_hash_def send_login_def Let_def vsend_def)

lemma server_asked:
  assumes "knows_password ve s" "open_door ve se s" "t_up t" "t_other t = id" "t_now t < ka + 3000"
    and "s_store s1 = s_store s" "s_salt s1 = slt" "s_challenge s1 = challenge"
    and "lr = login_request_of ve (password_hash (ve_password ve) slt challenge) (if ve_file_transfer ve then Some FileTransfer else None)"
  shows "\<exists>s2 sid shown terminals perms. server_hears se t [LoginRequest lr] (AwaitLogin 0 (ka + 120000) ka, s1) =
      (Started (if ve_file_transfer ve then Files else Desktop) sid lr, s2) \<and>
    s_sent s2 = s_sent s1 @ PeerInfo shown terminals # perms \<and> s_key s2 = s_key s1"
proof -
  let ?kind = "if ve_file_transfer ve then Files else Desktop"
  have kind: "session_kind_of lr = ?kind" by (simp add: assms(9) session_kind_of_def login_request_of_def)
  have ok: "login_password_ok slt challenge (st_cfg (s_store s)) (lr_password lr)"
    using assms(1) by (auto simp: login_password_ok_def knows_password_def answers_def assms(9) login_request_of_def length_password_hash)
  define s' where "s' = count_temporary_password_attempt (t_fresh t) (password (st_cfg (s_store s))) True s1"
  have s': "st_cfg2 (s_store s') = st_cfg2 (s_store s)" "s_sent s' = s_sent s1" "s_key s' = s_key s1"
    using assms(6) by (simp_all add: s'_def count_temporary_password_attempt_def Let_def)
  have door: "load_secret (e_upper se) (st_cfg2 (s_store s)) = None" "refusal (st_cfg2 (s_store s)) ?kind = None"
    using assms(2) by (simp_all add: open_door_def)
  have soon: "\<not> 3000 \<le> t_now t - ka" using assms(5) by arith
  have "session_step se (t\<lparr>t_recv := Received (LoginRequest lr)\<rparr>) (AwaitLogin 0 (ka + 120000) ka, s1) = admit (t\<lparr>t_recv := Received (LoginRequest lr)\<rparr>) lr None s'"
    using assms(4-8) ok door(1) s'(1) soon
    by (simp add: session_step_def await_login_step_def keepalive_def login_attempt_def Let_def second_factor_def s'_def)
  moreover have "\<exists>s2 sid shown terminals perms. admit (t\<lparr>t_recv := Received (LoginRequest lr)\<rparr>) lr None s' = (Started ?kind sid lr, s2) \<and>
      s_sent s2 = s_sent s1 @ PeerInfo shown terminals # perms \<and> s_key s2 = s_key s1"
    using assms(3) door(2) s' kind by (auto simp: admit_def Let_def try_say_def say_def cm_def send_permissions_def split: if_splits)
  ultimately show ?thesis by simp
qed

lemma viewer_admitted:
  assumes "vt_now vt < deadline"
  shows "\<exists>v3. viewer_hears w ve vt (PeerInfo shown terminals # perms) (VAwaitLogin deadline, v2) = (VConnected, v3) \<and>
    vw_key v3 = vw_key v2 \<and> vw_sent v3 = vw_sent v2 \<and> cs_status (vw_client v3) = str ''connected''"
  using assms connected_stays
  by (simp add: viewer_step_def vlogin_step_def to_viewer_def connected_def Let_def remember_password_def split: list.split)

text \<open>C1: 
  A viewer that trusts the server's signing key and knows its password connects in three exchanges: both sides end with the
  viewer's fresh key, the viewer is connected, and the server has started a session of the kind the viewer asked for. This needs
  that the signature verifies, that the two sides of the Diffie-Hellman function agree, that no second factor is set and
  the kind of session is allowed, that the connection works, that nobody changes the server's configuration meanwhile, and answers within three seconds.
\<close>

theorem honest_login:
  assumes "acquainted w ve se v vt1" "knows_password ve s" "open_door ve se s" "prompt_turns [(vt1, t1), (vt2, t2), (vt3, t3)]"
    and "ve_invite ve = None" "vw_switch v = None"
  shows "case connection w ve se [(vt1, t1), (vt2, t2), (vt3, t3)] v s of ((vphase, v'), (phase, s')) \<Rightarrow>
    vphase = VConnected \<and> cs_status (vw_client v') = str ''connected'' \<and>
    (\<exists>sid lr. phase = Started (if ve_file_transfer ve then Files else Desktop) sid lr \<and> lr_my_id lr = ve_my_id ve) \<and>
    vw_key v' = Some (vt_sym_key vt1) \<and> s_key s' = Some (vt_sym_key vt1)"
proof -
  have ups: "vt_up vt1" "vt_up vt2" "t_up t1" "t_up t2" "t_other t1 = id" "t_other t2 = id"
    and times: "t_now t2 < t_now t1 + 3000" "vt_now vt3 < vt_done vt2 + 30000"
    using assms(4) by (simp_all add: prompt_turns_def)
  let ?hello = "[SignedIdPk (e_id se) (e_eph_pk se) (Some (e_signing_sk se))]"
  define s0 where "s0 = snd (open_session se None True (s\<lparr>s_sent := []\<rparr>))"
  have s0: "open_session se None True (s\<lparr>s_sent := []\<rparr>) = (Greeting, s0)" "s_sent s0 = ?hello" "s_store s0 = s_store s"
    "s_salt s0 = salt (st_cfg (s_store s))"
    using assms(1) by (simp_all add: s0_def open_session_def say_def Let_def acquainted_def)
  obtain v1 where v1: "viewer_hears w ve vt1 ?hello (open_viewer ve v) = (VAwaitHash True, v1)" "vw_sent v1 = [key_message ve se vt1]"
    "vw_key v1 = Some (vt_sym_key vt1)" "vw_switch v1 = None"
    using viewer_greeted[OF assms(1) ups(1) assms(5,6)] by blast
  obtain s1 challenge where s1: "server_hears se t1 [key_message ve se vt1] (Greeting, s0) = (AwaitLogin 0 (t_now t1 + 120000) (t_now t1), s1)"
    "s_sent s1 = ?hello @ [HashChallenge (salt (st_cfg (s_store s))) challenge]" "s_key s1 = Some (vt_sym_key vt1)"
    "s_store s1 = s_store s" "s_salt s1 = salt (st_cfg (s_store s))" "s_challenge s1 = challenge"
    using server_greeted[OF assms(1) ups(3,5) s0(3,4)] unfolding s0(2) by blast
  define lr where "lr = login_request_of ve (password_hash (ve_password ve) (salt (st_cfg (s_store s))) challenge)
      (if ve_file_transfer ve then Some FileTransfer else None)"
  obtain v2 where v2: "viewer_hears w ve vt2 [HashChallenge (salt (st_cfg (s_store s))) challenge] (VAwaitHash True, v1) =
      (VAwaitLogin (vt_done vt2 + 30000), v2)" "vw_sent v2 = [key_message ve se vt1, LoginRequest lr]" "vw_key v2 = Some (vt_sym_key vt1)"
    using viewer_challenged[OF ups(2) assms(5) v1(4), of w "salt (st_cfg (s_store s))" challenge] assms(2) v1(2,3)
    by (auto simp: lr_def knows_password_def)
  obtain s2 sid shown terminals perms where s2: "server_hears se t2 [LoginRequest lr] (AwaitLogin 0 (t_now t1 + 120000) (t_now t1), s1) =
      (Started (if ve_file_transfer ve then Files else Desktop) sid lr, s2)"
    "s_sent s2 = s_sent s1 @ PeerInfo shown terminals # perms" "s_key s2 = s_key s1"
    using server_asked[OF assms(2,3) ups(4,6) times(1) s1(4-6) lr_def] by blast
  obtain v3 where v3: "viewer_hears w ve vt3 (PeerInfo shown terminals # perms) (VAwaitLogin (vt_done vt2 + 30000), v2) = (VConnected, v3)"
    "vw_key v3 = vw_key v2" "vw_sent v3 = vw_sent v2" "cs_status (vw_client v3) = str ''connected''"
    using viewer_admitted[OF times(2)] by blast
  have e1: "exchange w ve se (vt1, t1) ((open_viewer ve v, 0), (open_session se None True (s\<lparr>s_sent := []\<rparr>), 0)) =
      (((VAwaitHash True, v1), 1), ((AwaitLogin 0 (t_now t1 + 120000) (t_now t1), s1), 1))"
    using v1(1) s1(1) by (simp add: exchange_def Let_def s0 v1(2) del: viewer_hears_simps(2) server_hears_simps(2))
  have e2: "exchange w ve se (vt2, t2) (((VAwaitHash True, v1), 1), ((AwaitLogin 0 (t_now t1 + 120000) (t_now t1), s1), 1)) =
      (((VAwaitLogin (vt_done vt2 + 30000), v2), 2), ((Started (if ve_file_transfer ve then Files else Desktop) sid lr, s2), 2))"
    using v2(1) s2(1) by (simp add: exchange_def Let_def s1(2) v2(2) del: viewer_hears_simps(2) server_hears_simps(2))
  have e3: "exchange w ve se (vt3, t3) (((VAwaitLogin (vt_done vt2 + 30000), v2), 2), ((Started k sid lr, s2), 2)) =
      (((VConnected, v3), length (s_sent s2)), ((Started k sid lr, s2), 2))" for k
    using v3(1) by (simp add: exchange_def Let_def s1(2) s2(2) v3(3) v2(2) del: viewer_hears_simps(2) server_hears_simps(2))
  have "connection w ve se [(vt1, t1), (vt2, t2), (vt3, t3)] v s =
      ((VConnected, v3), (Started (if ve_file_transfer ve then Files else Desktop) sid lr, s2))"
    unfolding connection_def by (simp only: fold.simps comp_apply id_apply e1 e2 e3 Let_def prod.case)
  moreover have "lr_my_id lr = ve_my_id ve" by (simp add: lr_def login_request_of_def)
  ultimately show ?thesis using v3(2,4) v2(3) s2(3) s1(3) by auto
qed

text \<open>A viewer and a server to try it on: signing keeps the body, both sides share one secret.\<close>

definition demo_wire :: wire where
  "demo_wire = \<lparr>w_sign = \<lambda>body sk. body, w_id_pk = \<lambda>i pk. map word_of_nat i @ pk,
     w_info = \<lparr>pi_username = [], pi_hostname = [], pi_platform = [], pi_displays = []\<rparr>\<rparr>"

definition demo_server :: env where
  "demo_server = demo_env\<lparr>e_signing_sk := replicate 64 1, e_signing_pk := replicate 32 1\<rparr>"

lemma demo_acquainted: "acquainted demo_wire demo_viewer_env demo_server demo_viewer (demo_vturn VTimedOut)"
  by (simp add: acquainted_def demo_no_pin) (simp add: demo_wire_def demo_viewer_env_def demo_server_def demo_env_def demo_vturn_def)

lemma demo_open_door: "open_door demo_viewer_env demo_server demo_session"
  by (simp add: open_door_def demo_session_def demo_secret demo_viewer_env_def)
    (simp add: refusal_def denied_def config2_get_option_def config2_empty_def options_get_def str_def)

theorem honest_login_witness:
  "let ((vphase, v), (phase, s)) = connection demo_wire demo_viewer_env demo_server
      (replicate 3 (demo_vturn VTimedOut, demo_turn TimedOut None)) demo_viewer demo_session
   in vphase = VConnected \<and> vw_key v = Some (replicate 32 9) \<and> s_key s = Some (replicate 32 9)"
proof -
  have "knows_password demo_viewer_env demo_session"
    by (simp add: knows_password_def demo_viewer_env_def demo_session_def)
  moreover have "prompt_turns (replicate 3 (demo_vturn VTimedOut, demo_turn TimedOut None))"
    by (simp add: prompt_turns_def demo_vturn_def demo_turn_def list_all_iff)
  ultimately show ?thesis
    using honest_login[OF demo_acquainted _ demo_open_door, of "demo_turn TimedOut None" "demo_vturn VTimedOut" "demo_turn TimedOut None"
        "demo_vturn VTimedOut" "demo_turn TimedOut None"]
    by (simp add: numeral_3_eq_3 demo_viewer_env_def demo_viewer_def demo_vturn_def split: prod.splits)
qed

end
