(* ===== verification/Signalling.thy ===== *)
theory Signalling
  imports Viewer_Session Config_Options "HOL-Library.Sublist"
begin

text \<open>
  \<open>src/src/signal.rs\<close>: the address of the signalling server with its cache in \<open>Config2\<close>, the loop that keeps the server's connection
  alive and answers connect requests, and the viewer's side, \<open>send_connect_request\<close>. JSON is read and written by a
  library: \<open>json\<close> is its value type, and the reader of a text and the writer of an answer are parameters. HTTP, listeners and relays are
  what a step sees from outside.
\<close>

section \<open>The API and its cache\<close>

datatype json = JNull | JBool bool | JNum rstr | JStr rstr | JArr "json list" | JObj "(rstr \<times> json) list"

definition json_get :: "rstr \<Rightarrow> json \<Rightarrow> json option" where
  "json_get k j = (case j of JObj fs \<Rightarrow> map_of fs k | _ \<Rightarrow> None)"

definition as_str :: "json \<Rightarrow> rstr option" where
  "as_str j = (case j of JStr s \<Rightarrow> Some s | _ \<Rightarrow> None)"

definition API_URL :: rstr where
  "API_URL = str ''https://api.hoptodesk.com/''"

definition API_CACHE_MAX_AGE_SECS :: nat where
  "API_CACHE_MAX_AGE_SECS = 6 * 3600"

definition custom_server :: "rstr option \<Rightarrow> rstr" where
  "custom_server file = config2_get_option (load_config2 file) (str ''custom-rendezvous-server'')"

definition get_api_url :: "rstr option \<Rightarrow> rstr" where
  "get_api_url file = (let custom = custom_server file in if custom \<noteq> [] then custom else API_URL)"

definition api_get :: "(rstr \<Rightarrow> rstr + rstr) \<Rightarrow> rstr option \<Rightarrow> rstr + rstr" where
  "api_get http_get file =
     (let custom = custom_server file
      in if custom \<noteq> [] then http_get custom
         else case http_get API_URL of
           Inr body \<Rightarrow> if body \<noteq> [] then Inr body else Inl (str ''HTTPS returned empty response'')
         | Inl e \<Rightarrow> Inl e)"

definition load_api_cache :: "rstr option \<Rightarrow> (rstr \<times> nat) option" where
  "load_api_cache file =
     (let cfg = load_config2 file; b64 = config2_get_option cfg (str ''api-cache'')
      in if b64 = [] then None
         else case base64_decode (utf8 b64) of
           None \<Rightarrow> None
         | Some b \<Rightarrow>
             (case from_utf8 b of
                None \<Rightarrow> None
              | Some body \<Rightarrow>
                  Some (body, case parse_u64 (config2_get_option cfg (str ''api-cache-time'')) of None \<Rightarrow> 0 | Some n \<Rightarrow> n)))"

definition store_api_cache :: "bool \<Rightarrow> rstr \<Rightarrow> nat \<Rightarrow> rstr option \<Rightarrow> rstr option" where
  "store_api_cache disk body now file =
     (let cfg = load_config2 file;
          cfg = fst (config2_set_option cfg (str ''api-cache'') (map unat (base64_encode (utf8 body))));
          file = save_config2 disk cfg file;
          cfg = fst (config2_set_option cfg (str ''api-cache-time'') (show_nat now));
          file = save_config2 disk cfg file
      in save_config2 disk cfg file)"

definition api_body_is_valid :: "(rstr \<Rightarrow> json option) \<Rightarrow> rstr \<Rightarrow> bool" where
  "api_body_is_valid parse body =
     (case Option.bind (parse body) (\<lambda>j. Option.bind (json_get (str ''rendezvous'') j)
             (\<lambda>r. Option.bind (json_get (str ''host'') r) as_str)) of
        Some h \<Rightarrow> h \<noteq> []
      | None \<Rightarrow> False)"

text \<open>What a call sees: the answers of the network, the time, and whether the file can be written.\<close>

record api_world =
  aw_http :: "rstr \<Rightarrow> rstr + rstr"
  aw_now :: nat
  aw_disk :: bool

definition api_get_cached :: "(rstr \<Rightarrow> json option) \<Rightarrow> api_world \<Rightarrow> bool \<Rightarrow> rstr option \<Rightarrow> (rstr + rstr) \<times> rstr option" where
  "api_get_cached parse w force_refresh file =
     (if custom_server file \<noteq> [] then (api_get (aw_http w) file, file)
      else
        let cached = load_api_cache file
        in case (case cached of
                   Some (body, time) \<Rightarrow>
                     if \<not> force_refresh \<and> time > 0 \<and> time \<le> aw_now w \<and> aw_now w - time < API_CACHE_MAX_AGE_SECS
                     then Some body else None
                 | None \<Rightarrow> None) of
             Some body \<Rightarrow> (Inr body, file)
           | None \<Rightarrow>
               (let fetched = api_get (aw_http w) file;
                    old = (case cached of Some (body, _) \<Rightarrow> Inr body | None \<Rightarrow> fetched)
                in case fetched of
                     Inr body \<Rightarrow>
                       if api_body_is_valid parse body then (Inr body, store_api_cache (aw_disk w) body (aw_now w) file)
                       else (old, file)
                   | Inl _ \<Rightarrow> (old, file)))"

definition parse_u16 :: "rstr \<Rightarrow> nat option" where
  "parse_u16 s = (case parse_u64 s of Some n \<Rightarrow> if n < 65536 then Some n else None | None \<Rightarrow> None)"

text \<open>\<open>force\<close> is \<open>FORCE_API_REFRESH\<close>, which the call takes.\<close>

definition discover_signal_server ::
  "(rstr \<Rightarrow> json option) \<Rightarrow> api_world \<Rightarrow> bool \<Rightarrow> rstr option \<Rightarrow> (rstr + rstr \<times> nat) \<times> rstr option" where
  "discover_signal_server parse w force file =
     (let (result, file) = api_get_cached parse w force file;
          none = Inl (str ''API returned no valid rendezvous server'')
      in (case result of
            Inl e \<Rightarrow> Inl (str ''API call failed: '' @ e)
          | Inr body \<Rightarrow>
              (case Option.bind (parse body) (json_get (str ''rendezvous'')) of
                 Some (JObj fs) \<Rightarrow>
                   (let field = (\<lambda>k dflt. case Option.bind (map_of fs k) as_str of Some s \<Rightarrow> s | None \<Rightarrow> dflt);
                        host = field (str ''host'') [];
                        port = field (str ''port'') (str ''21118'')
                    in if host \<noteq> [] then Inr (host, case parse_u16 port of Some p \<Rightarrow> p | None \<Rightarrow> 21118) else none)
               | _ \<Rightarrow> none), file))"

section \<open>The server's loop\<close>

record signal_message =
  sm_protocol :: rstr
  sm_endpoint :: rstr
  sm_sender_id :: rstr
  sm_data :: rstr
  sm_addr :: rstr
  sm_public_addr :: rstr
  sm_pk :: rstr
  sm_lan_ipv4 :: rstr
  sm_nat_type :: int

definition HEALTHCHECK :: rstr where
  "HEALTHCHECK = [123, 34] @ str ''protocol'' @ [34, 58, 34] @ str ''one-to-self'' @ [34, 44, 34] @ str ''data'' @ [34, 58, 34] @
     str ''healthcheck'' @ [34, 125]"

definition HEALTHCHECK_TIMEOUT :: nat where
  "HEALTHCHECK_TIMEOUT = 90"

definition SERVER_TIMEOUT :: nat where
  "SERVER_TIMEOUT = 30"

datatype ws_recv = Text rstr | Nothing | Lost rstr

datatype ws_out = Health | Listening signal_message

datatype task = AcceptFrom rstr | RelaySession rstr rstr

text \<open>The id, the public signing key, the readers of messages, and the writer of an answer.\<close>

record senv =
  se_pk :: bytes
  se_parse :: "rstr \<Rightarrow> signal_message option"
  se_json :: "signal_message \<Rightarrow> rstr"

text \<open>One turn: the time after receiving and at the checks, the text, whether the service takes over, \<open>Config2\<close>, the addresses of the new
  listener, the public address if it is found (with the listener's port), whether the relay answers and the connection takes data.\<close>

record sturn =
  sn_received :: nat
  sn_now :: nat
  sn_recv :: ws_recv
  sn_yield :: bool
  sn_config2 :: "rstr option"
  sn_listener :: "(rstr \<times> rstr) option"
  sn_public :: "rstr option"
  sn_relay_up :: bool
  sn_send :: "rstr option"

record signal_state =
  ss_status :: rstr
  ss_error :: rstr
  ss_ws_host :: rstr
  ss_ws_port :: nat
  ss_incoming :: "rstr option"

definition signal_state_default :: signal_state where
  "signal_state_default = \<lparr>ss_status = str ''offline'', ss_error = [], ss_ws_host = [], ss_ws_port = 0, ss_incoming = None\<rparr>"

record signalling =
  sg_state :: signal_state
  sg_sent :: "ws_out list"
  sg_tasks :: "task list"

datatype sphase =
    Online nat "nat option"
  | AwaitReady nat "nat option" rstr
  | Closed rstr
  | Aborted

text \<open>\<open>&s[..n.min(len)]\<close>: a panic when the end falls inside a character.\<close>

definition slice_ok :: "nat \<Rightarrow> rstr \<Rightarrow> bool" where
  "slice_ok n s \<longleftrightarrow> length (utf8 s) \<le> n \<or> \<not> utf8_cont (utf8 s ! n)"

definition listening_reply :: "senv \<Rightarrow> rstr \<Rightarrow> rstr \<Rightarrow> rstr \<Rightarrow> rstr \<Rightarrow> signal_message" where
  "listening_reply e sender addr public lan =
     \<lparr>sm_protocol = str ''one-to-one'', sm_endpoint = sender, sm_sender_id = [], sm_data = [], sm_addr = addr, sm_public_addr = public,
      sm_pk = map unat (base64_encode (se_pk e)), sm_lan_ipv4 = lan, sm_nat_type = 0\<rparr>"

text \<open>The result says whether the program goes on. A failed send only ends the handler.\<close>

definition handle_connect_request :: "senv \<Rightarrow> sturn \<Rightarrow> rstr \<Rightarrow> signalling \<Rightarrow> bool \<times> signalling" where
  "handle_connect_request e t sender g =
     (if config2_get_option (load_config2 (sn_config2 t)) (str ''stop-service'') = str ''Y'' then (True, g)
      else
        let g = g\<lparr>sg_state := (sg_state g)\<lparr>ss_incoming := Some sender\<rparr>\<rparr>
        in case sn_listener t of
             None \<Rightarrow> (True, g)
           | Some (addr, lan) \<Rightarrow>
               (let public = (case sn_public t of Some a \<Rightarrow> a | None \<Rightarrow> addr);
                    reply = listening_reply e sender addr public lan
                in if \<not> slice_ok 300 (se_json e reply) then (False, g)
                   else if sn_send t \<noteq> None then (True, g)
                   else (True, g\<lparr>sg_sent := sg_sent g @ [Listening reply], sg_tasks := sg_tasks g @ [AcceptFrom sender]\<rparr>)))"

text \<open>When the session of \<open>accept_connection\<close> is over, its thread clears the incoming session, whosever it is.\<close>

definition accept_done :: "signalling \<Rightarrow> signalling" where
  "accept_done g = g\<lparr>sg_state := (sg_state g)\<lparr>ss_incoming := None\<rparr>\<rparr>"

definition close_sessions :: "rstr \<Rightarrow> signalling \<Rightarrow> signalling" where
  "close_sessions sender g =
     (if ss_incoming (sg_state g) = Some sender then g\<lparr>sg_state := (sg_state g)\<lparr>ss_incoming := None\<rparr>\<rparr> else g)"

definition handle_signal_message :: "senv \<Rightarrow> sturn \<Rightarrow> nat \<Rightarrow> signal_message \<Rightarrow> signalling \<Rightarrow> sphase \<times> signalling" where
  "handle_signal_message e t seen m g =
     (let online = Online seen None in
      if sm_protocol m \<noteq> str ''one-to-one'' then (online, g)
      else if sm_sender_id m \<noteq> [] \<and> sm_addr m = [] \<and> sm_pk m = [] then
        (let (ok, g) = handle_connect_request e t (sm_sender_id m) g in (if ok then online else Aborted, g))
      else if sm_addr m \<noteq> [] \<and> sm_sender_id m \<noteq> [] \<and> sm_data m = str ''closesessions'' then
        (online, close_sessions (sm_sender_id m) g)
      else if sm_addr m \<noteq> [] \<and> sm_sender_id m = [] \<and> sm_pk m = [] then
        (if rfind_split 58 (sm_addr m) = None \<or> \<not> sn_relay_up t then (online, g)
         else (AwaitReady seen None (sm_endpoint m), g))
      else (online, g))"

definition is_relay_ready :: "signal_message \<Rightarrow> bool" where
  "is_relay_ready m \<longleftrightarrow> sm_protocol m = str ''one-to-one'' \<and> sm_addr m = [] \<and> sm_pk m = [] \<and> sm_sender_id m = []"

text \<open>A text in the online loop and one while a relay gets ready (\<open>handle_relay_connection\<close>).\<close>

definition str_contains :: "rstr \<Rightarrow> rstr \<Rightarrow> bool" where
  "str_contains needle s = list_ex (\<lambda>i. take (length needle) (drop i s) = needle) [0..<length s + 1]"

definition on_text :: "senv \<Rightarrow> sturn \<Rightarrow> rstr \<Rightarrow> signalling \<Rightarrow> sphase \<times> signalling" where
  "on_text e t msg g =
     (let seen = sn_received t in
      if msg = HEALTHCHECK then (Online seen None, g)
      else if str_contains (str ''username is taken'') msg then (Closed (str ''username_taken''), g)
      else if str_contains (str ''You are removed'') msg then (Closed (str ''removed''), g)
      else case se_parse e msg of
        Some m \<Rightarrow> handle_signal_message e t seen m g
      | None \<Rightarrow> (Online seen None, g))"

definition await_ready_step :: "senv \<Rightarrow> sturn \<Rightarrow> nat \<Rightarrow> nat option \<Rightarrow> rstr \<Rightarrow> signalling \<Rightarrow> sphase \<times> signalling" where
  "await_ready_step e t seen hc peer g =
     (case sn_recv t of
        Text msg \<Rightarrow>
          (case se_parse e msg of
             Some m \<Rightarrow>
               if is_relay_ready m then (Online seen hc, g\<lparr>sg_tasks := sg_tasks g @ [RelaySession peer (sm_endpoint m)]\<rparr>)
               else (AwaitReady seen hc peer, g)
           | None \<Rightarrow> (AwaitReady seen hc peer, g))
      | _ \<Rightarrow> (Online seen hc, g))"

text \<open>The checks at the end of a turn; seconds are whole.\<close>

definition secs_since :: "nat \<Rightarrow> nat \<Rightarrow> nat" where
  "secs_since now t = (now - t) div 1000"

definition health_step :: "sturn \<Rightarrow> sphase \<times> signalling \<Rightarrow> sphase \<times> signalling" where
  "health_step t = (\<lambda>(ph, g).
     case ph of
       Online seen hc \<Rightarrow>
         if (case hc of Some at \<Rightarrow> secs_since (sn_now t) at > SERVER_TIMEOUT | None \<Rightarrow> False)
         then (Closed (str ''Server unresponsive (healthcheck timeout)''), g)
         else if secs_since (sn_now t) seen > HEALTHCHECK_TIMEOUT \<and> hc = None then
           (case sn_send t of
              Some err \<Rightarrow> (Closed (str ''Healthcheck send failed: '' @ err), g)
            | None \<Rightarrow> (Online seen (Some (sn_now t)), g\<lparr>sg_sent := sg_sent g @ [Health]\<rparr>))
         else (Online seen hc, g)
     | _ \<Rightarrow> (ph, g))"

definition signal_step :: "senv \<Rightarrow> sturn \<Rightarrow> sphase \<times> signalling \<Rightarrow> sphase \<times> signalling" where
  "signal_step e t = (\<lambda>(ph, g).
     case ph of
       Online seen hc \<Rightarrow>
         health_step t
           (case sn_recv t of
              Text msg \<Rightarrow> on_text e t msg g
            | Nothing \<Rightarrow> if sn_yield t then (Closed (str ''service installed, handing the connection to it''), g) else (Online seen hc, g)
            | Lost err \<Rightarrow> (Closed (str ''WebSocket recv error: '' @ err), g))
     | AwaitReady seen hc peer \<Rightarrow> health_step t (await_ready_step e t seen hc peer g)
     | _ \<Rightarrow> (ph, g))"

definition run_signal :: "senv \<Rightarrow> sturn list \<Rightarrow> sphase \<times> signalling \<Rightarrow> sphase \<times> signalling" where
  "run_signal e turns st = fold (signal_step e) turns st"

text \<open>The start of \<open>run_signal_once\<close>: \<open>server\<close> is what was discovered, \<open>connect\<close> the result of opening the connection. The second
  component is \<open>FORCE_API_REFRESH\<close>. \<open>run_signal_loop_ex\<close> sets the state before and after.\<close>

definition signal_open :: "rstr + rstr \<times> nat \<Rightarrow> rstr option \<Rightarrow> nat \<Rightarrow> signalling \<Rightarrow> bool \<times> sphase \<times> signalling" where
  "signal_open server connect now g =
     (let g = g\<lparr>sg_state := (sg_state g)\<lparr>ss_status := str ''connecting'', ss_error := []\<rparr>\<rparr>
      in case server of
           Inl err \<Rightarrow> (False, Closed err, g)
         | Inr (host, port) \<Rightarrow>
             (case connect of
                Some err \<Rightarrow> (True, Closed (str ''WebSocket connect failed: '' @ err), g)
              | None \<Rightarrow> (False, Online now None,
                  g\<lparr>sg_state := (sg_state g)\<lparr>ss_status := str ''online'', ss_ws_host := host, ss_ws_port := port, ss_error := []\<rparr>\<rparr>)))"

definition signal_close :: "rstr \<Rightarrow> signalling \<Rightarrow> signalling" where
  "signal_close err g = g\<lparr>sg_state := (sg_state g)\<lparr>ss_status := str ''offline'', ss_error := err\<rparr>\<rparr>"

definition CONNECT_TIMEOUT_MS :: nat where
  "CONNECT_TIMEOUT_MS = 18000"

text \<open>The pause before the next attempt, in milliseconds.\<close>

definition pause_after :: "nat \<Rightarrow> nat" where
  "pause_after elapsed = (if elapsed < CONNECT_TIMEOUT_MS then CONNECT_TIMEOUT_MS - elapsed else 0) + 1000"

section \<open>The viewer's request\<close>

record peer_listening =
  pl_addr :: rstr
  pl_public_addr :: rstr
  pl_pk :: rstr
  pl_nat_type :: int
  pl_lan_ipv4 :: rstr

text \<open>In milliseconds.\<close>

definition RENDEZVOUS_TIMEOUT :: nat where
  "RENDEZVOUS_TIMEOUT = 12000"

text \<open>A turn of the inner loop: the clock when it begins and when it ends (a receive blocks, and so does the pause before a request is
  sent again), the text and whether sending works. The phase counts the requests sent.\<close>

record rturn =
  rt_now :: nat
  rt_done :: nat
  rt_recv :: ws_recv
  rt_send :: "rstr option"

datatype rphase = Asking nat nat | Asked "rstr + peer_listening"

definition peer_listening_of :: "signal_message \<Rightarrow> peer_listening" where
  "peer_listening_of m =
     \<lparr>pl_addr = sm_addr m, pl_public_addr = sm_public_addr m, pl_pk = sm_pk m, pl_nat_type = sm_nat_type m, pl_lan_ipv4 = sm_lan_ipv4 m\<rparr>"

definition send_request :: "rturn \<Rightarrow> nat \<Rightarrow> rphase" where
  "send_request t sent =
     (case rt_send t of
        Some err \<Rightarrow> Asked (Inl (str ''Send ConnectRequest failed: '' @ err))
      | None \<Rightarrow> Asking (sent + 1) (rt_done t + RENDEZVOUS_TIMEOUT))"

text \<open>The end of an attempt: after the third the request has timed out, otherwise it is sent again, a second later.\<close>

definition next_attempt :: "rturn \<Rightarrow> rstr \<Rightarrow> nat \<Rightarrow> rphase" where
  "next_attempt t target sent =
     (if sent \<ge> 3 then Asked (Inl (str ''Timeout waiting for '' @ target @ str '' to respond''))
      else send_request t sent)"

definition request_step :: "(rstr \<Rightarrow> signal_message option) \<Rightarrow> rstr \<Rightarrow> rturn \<Rightarrow> rphase \<Rightarrow> rphase" where
  "request_step parse target t ph =
     (case ph of
        Asked r \<Rightarrow> ph
      | Asking sent deadline \<Rightarrow>
          if rt_now t \<ge> deadline then next_attempt t target sent
          else (case rt_recv t of
            Text msg \<Rightarrow>
              (case (case parse msg of Some m \<Rightarrow> if sm_addr m \<noteq> [] then Some m else None | None \<Rightarrow> None) of
                 Some m \<Rightarrow> Asked (Inr (peer_listening_of m))
               | None \<Rightarrow>
                   if str_contains (str ''Could not find'') msg \<or> str_contains (str ''Not found'') msg then
                     (if sent < 3 then next_attempt t target sent
                      else Asked (Inl (str ''Peer '' @ target @ str '' is offline'')))
                   else ph)
          | Nothing \<Rightarrow> ph
          | Lost err \<Rightarrow> Asked (Inl (str ''WS recv error: '' @ err))))"


section \<open>The cache\<close>

definition config2_file_ok :: "rstr option \<Rightarrow> bool" where
  "config2_file_ok file \<longleftrightarrow> config2_wf (load_config2 file) \<and> \<not> c2_read_failed (load_config2 file)"

lemma options_get_sorted: "options_get (sorted_options opts) k = options_get opts k"
proof (cases "k \<in> fst ` set opts")
  case True
  then show ?thesis
    unfolding sorted_options_def options_get_def by (simp add: map_of_map_keys map_of_map_restrict comp_def)
next
  case False
  then have "map_of opts k = None" by (simp add: map_of_eq_None_iff)
  then show ?thesis
    using False unfolding sorted_options_def options_get_def by (simp add: map_of_map_restrict)
qed

lemma get_kept [simp]: "config2_get_option (config2_kept cfg) k = config2_get_option cfg k"
  by (simp add: config2_get_option_def config2_kept_def options_get_sorted)

lemma load_saved:
  assumes "config2_wf cfg" "\<not> c2_read_failed cfg"
  shows "load_config2 (save_config2 True cfg file) = config2_kept cfg"
proof -
  obtain c where c: "config2_save cfg = Some c" using assms(2) by (simp add: config2_save_def)
  then show ?thesis using config2_load_save[OF assms(1) c] by (simp add: save_config2_def load_config2_def)
qed

lemma set_option_wf:
  "config2_wf cfg \<Longrightarrow> toml_key k \<Longrightarrow> config2_wf (fst (config2_set_option cfg k v))"
  "c2_read_failed (fst (config2_set_option cfg k v)) = c2_read_failed cfg"
  by (simp_all add: config2_set_option_def config2_wf_def options_ok_set Let_def)

lemma cache_keys [simp]: "toml_key (str ''api-cache'')" "toml_key (str ''api-cache-time'')"
  by (simp_all add: key_simps)

lemma base64_nonempty: "data \<noteq> [] \<Longrightarrow> base64_encode data \<noteq> []"
proof
  assume "data \<noteq> []" "base64_encode data = []"
  then have "4 * ((length data + 2) div 3) = 0" using length_base64_encode[of data] by simp
  then show False using \<open>data \<noteq> []\<close> by (cases data) auto
qed

lemma utf8_nonempty: "s \<noteq> [] \<Longrightarrow> utf8 s \<noteq> []"
  by (cases s) (simp_all add: utf8_def utf8_char_nonempty)

lemma stored_cache:
  assumes ok: "config2_file_ok file" and body: "list_all is_scalar body" "body \<noteq> []" and now: "now < 2 ^ 64"
    and f: "file' = store_api_cache True body now file"
  shows "config2_file_ok file'" and "load_api_cache file' = Some (body, now)"
    and "k \<noteq> str ''api-cache'' \<Longrightarrow> k \<noteq> str ''api-cache-time'' \<Longrightarrow>
      config2_get_option (load_config2 file') k = config2_get_option (load_config2 file) k"
proof -
  define c1 where "c1 = fst (config2_set_option (load_config2 file) (str ''api-cache'') (map unat (base64_encode (utf8 body))))"
  define c2 where "c2 = fst (config2_set_option c1 (str ''api-cache-time'') (show_nat now))"
  have wf: "config2_wf c2" "\<not> c2_read_failed c2"
    using ok by (simp_all add: c1_def c2_def config2_file_ok_def set_option_wf)
  have l: "load_config2 file' = config2_kept c2"
    using load_saved[OF wf] by (simp add: f store_api_cache_def Let_def c1_def c2_def)
  have opts: "config2_get_option c2 k = (if k = str ''api-cache-time'' then show_nat now
      else if k = str ''api-cache'' then map unat (base64_encode (utf8 body)) else config2_get_option (load_config2 file) k)" for k
    by (simp add: c1_def c2_def config2_options.get_put)
  show "config2_file_ok file'"
    using wf config2_file.kept_wf[OF wf(1)] by (simp add: config2_file_ok_def l) (simp add: config2_kept_def)
  have "from_utf8 (utf8 body) = Some body" using body(1) by (intro from_utf8_utf8) (simp add: list_all_iff)
  then show "load_api_cache file' = Some (body, now)"
    using base64_nonempty[OF utf8_nonempty[OF body(2)]] now
    by (simp add: load_api_cache_def l opts Let_def utf8_base64 base64_decode_encode parse_u64_show)
  show "k \<noteq> str ''api-cache'' \<Longrightarrow> k \<noteq> str ''api-cache-time'' \<Longrightarrow>
      config2_get_option (load_config2 file') k = config2_get_option (load_config2 file) k"
    by (simp add: l opts)
qed

section \<open>Answers and sessions\<close>

definition replies :: "ws_out list \<Rightarrow> rstr list" where
  "replies outs = List.map_filter (\<lambda>w. case w of Listening r \<Rightarrow> Some (sm_endpoint r) | Health \<Rightarrow> None) outs"

definition accepts :: "task list \<Rightarrow> rstr list" where
  "accepts tasks = List.map_filter (\<lambda>k. case k of AcceptFrom p \<Rightarrow> Some p | RelaySession _ _ \<Rightarrow> None) tasks"

definition is_connect_request :: "signal_message \<Rightarrow> bool" where
  "is_connect_request m \<longleftrightarrow> sm_protocol m = str ''one-to-one'' \<and> sm_sender_id m \<noteq> [] \<and> sm_addr m = [] \<and> sm_pk m = []"

definition connect_request :: "senv \<Rightarrow> sturn \<Rightarrow> rstr option" where
  "connect_request e t =
     (case sn_recv t of
        Text msg \<Rightarrow> (case se_parse e msg of Some m \<Rightarrow> if is_connect_request m then Some (sm_sender_id m) else None | None \<Rightarrow> None)
      | _ \<Rightarrow> None)"

definition carries_key :: "senv \<Rightarrow> ws_out \<Rightarrow> bool" where
  "carries_key e w = (case w of Listening r \<Rightarrow> decode_peer_sign_pk (sm_pk r) = Some (se_pk e) | Health \<Rightarrow> True)"

text \<open>What one turn adds: nothing, a health check, a relay session, or an answer with its session.\<close>

definition adds :: "senv \<Rightarrow> sturn \<Rightarrow> signalling \<Rightarrow> signalling \<Rightarrow> bool" where
  "adds e t g g' \<longleftrightarrow>
     (\<exists>outs tasks. sg_sent g' = sg_sent g @ outs \<and> sg_tasks g' = sg_tasks g @ tasks \<and> replies outs = accepts tasks \<and>
        subseq (replies outs) (case connect_request e t of Some p \<Rightarrow> [p] | None \<Rightarrow> []) \<and>
        (length (se_pk e) = 32 \<longrightarrow> list_all (carries_key e) outs))"

lemma filter_simps [simp]:
  "replies [] = []" "replies (Health # os) = replies os" "replies (Listening r # os) = sm_endpoint r # replies os"
  "accepts [] = []" "accepts (AcceptFrom p # ks) = p # accepts ks" "accepts (RelaySession a b # ks) = accepts ks"
  "replies (os @ os') = replies os @ replies os'" "accepts (ks @ ks') = accepts ks @ accepts ks'"
  by (simp_all add: replies_def accepts_def List.map_filter_simps) (simp_all add: List.map_filter_def)

lemma adds_none: "sg_sent g' = sg_sent g \<Longrightarrow> sg_tasks g' = sg_tasks g \<Longrightarrow> adds e t g g'"
  unfolding adds_def by (intro exI[of _ "[]"]) simp

lemma adds_relay: "sg_sent g' = sg_sent g \<Longrightarrow> sg_tasks g' = sg_tasks g @ [RelaySession a b] \<Longrightarrow> adds e t g g'"
  unfolding adds_def by (intro exI[of _ "[]"] exI[of _ "[RelaySession a b]"]) simp

lemma adds_health:
  assumes "adds e t g g'" shows "adds e t g (g'\<lparr>sg_sent := sg_sent g' @ [Health]\<rparr>)"
proof -
  obtain outs tasks where a: "sg_sent g' = sg_sent g @ outs" "sg_tasks g' = sg_tasks g @ tasks" "replies outs = accepts tasks"
    "subseq (replies outs) (case connect_request e t of Some p \<Rightarrow> [p] | None \<Rightarrow> [])"
    "length (se_pk e) = 32 \<longrightarrow> list_all (carries_key e) outs"
    using assms unfolding adds_def by blast
  then show ?thesis unfolding adds_def
    by (intro exI[of _ "outs @ [Health]"] exI[of _ tasks]) (simp add: carries_key_def)
qed

lemma reply_key: "length (se_pk e) = 32 \<Longrightarrow> carries_key e (Listening (listening_reply e p a b c))"
  by (simp add: carries_key_def listening_reply_def decode_peer_sign_pk_def utf8_base64 base64_decode_encode)

lemma adds_connect:
  assumes "connect_request e t = Some sender"
  shows "adds e t g (snd (handle_connect_request e t sender g))"
proof -
  have ep: "sm_endpoint (listening_reply e sender a b c) = sender" for a b c by (simp add: listening_reply_def)
  have "adds e t g (g\<lparr>sg_state := x, sg_sent := sg_sent g @ [Listening (listening_reply e sender a b c)], sg_tasks := sg_tasks g @ [AcceptFrom sender]\<rparr>)"
    for x a b c
    unfolding adds_def
    by (intro exI[of _ "[Listening (listening_reply e sender a b c)]"] exI[of _ "[AcceptFrom sender]"])
      (simp add: assms ep reply_key)
  then show ?thesis by (auto simp: handle_connect_request_def Let_def adds_none split: option.split)
qed

lemma adds_message:
  assumes "sn_recv t = Text msg" "se_parse e msg = Some m"
  shows "adds e t g (snd (handle_signal_message e t seen m g))"
proof (cases "is_connect_request m")
  case True
  then have "connect_request e t = Some (sm_sender_id m)" using assms by (simp add: connect_request_def)
  then have "adds e t g (snd (handle_connect_request e t (sm_sender_id m) g))" by (rule adds_connect)
  then show ?thesis using True
    by (cases "handle_connect_request e t (sm_sender_id m) g") (simp add: handle_signal_message_def is_connect_request_def)
next
  case False
  then show ?thesis
    by (auto simp: handle_signal_message_def is_connect_request_def close_sessions_def Let_def intro: adds_none)
qed

lemma adds_health_step: "adds e t g (snd st) \<Longrightarrow> adds e t g (snd (health_step t st))"
  by (cases st) (auto simp: health_step_def adds_health split: sphase.split option.split)

lemma adds_step: "adds e t (snd st) (snd (signal_step e t st))"
proof -
  obtain ph g where st: "st = (ph, g)" by (cases st)
  have msgs: "adds e t g (snd (on_text e t msg g))" if "sn_recv t = Text msg" for msg
    using adds_message[OF that] by (auto simp: on_text_def Let_def intro: adds_none split: option.split)
  show ?thesis
  proof (cases ph)
    case (Online seen hc)
    then show ?thesis
      using msgs by (auto simp: st signal_step_def adds_none intro!: adds_health_step split: ws_recv.split)
  next
    case (AwaitReady seen hc peer)
    have "adds e t g (snd (await_ready_step e t seen hc peer g))"
      by (auto simp: await_ready_step_def intro: adds_none adds_relay split: ws_recv.split option.split)
    then show ?thesis by (simp add: st AwaitReady signal_step_def adds_health_step)
  qed (simp_all add: st signal_step_def adds_none)
qed

lemma run_signal_snoc: "run_signal e (turns @ [t]) st = signal_step e t (run_signal e turns st)"
  by (simp add: run_signal_def)

definition asked :: "senv \<Rightarrow> sturn list \<Rightarrow> rstr list" where
  "asked e turns = List.map_filter (connect_request e) turns"

lemma asked_snoc: "asked e (turns @ [t]) = asked e turns @ (case connect_request e t of Some p \<Rightarrow> [p] | None \<Rightarrow> [])"
  by (simp add: asked_def List.map_filter_def split: option.split)

definition answered :: "senv \<Rightarrow> sturn list \<Rightarrow> signalling \<Rightarrow> signalling \<Rightarrow> bool" where
  "answered e turns g0 g \<longleftrightarrow>
     (\<exists>outs tasks. sg_sent g = sg_sent g0 @ outs \<and> sg_tasks g = sg_tasks g0 @ tasks \<and> replies outs = accepts tasks \<and>
        subseq (replies outs) (asked e turns) \<and> (length (se_pk e) = 32 \<longrightarrow> list_all (carries_key e) outs))"

lemma answered_step:
  assumes "answered e turns g0 g" "adds e t g g'"
  shows "answered e (turns @ [t]) g0 g'"
proof -
  obtain outs tasks where a: "sg_sent g = sg_sent g0 @ outs" "sg_tasks g = sg_tasks g0 @ tasks" "replies outs = accepts tasks"
    "subseq (replies outs) (asked e turns)" "length (se_pk e) = 32 \<longrightarrow> list_all (carries_key e) outs"
    using assms(1) unfolding answered_def by blast
  obtain outs' tasks' where b: "sg_sent g' = sg_sent g @ outs'" "sg_tasks g' = sg_tasks g @ tasks'" "replies outs' = accepts tasks'"
    "subseq (replies outs') (case connect_request e t of Some p \<Rightarrow> [p] | None \<Rightarrow> [])"
    "length (se_pk e) = 32 \<longrightarrow> list_all (carries_key e) outs'"
    using assms(2) unfolding adds_def by blast
  show ?thesis unfolding answered_def
    using a b by (intro exI[of _ "outs @ outs'"] exI[of _ "tasks @ tasks'"]) (auto simp: asked_snoc intro: list_emb_append_mono)
qed

lemma run_answered: "answered e turns (snd st) (snd (run_signal e turns st))"
proof (induction turns rule: rev_induct)
  case Nil
  then show ?case by (simp add: run_signal_def answered_def asked_def List.map_filter_simps)
next
  case (snoc t turns)
  then show ?case unfolding run_signal_snoc by (rule answered_step) (rule adds_step)
qed

section \<open>Silence\<close>

fun gaps :: "nat \<Rightarrow> nat \<Rightarrow> sturn list \<Rightarrow> bool" where
  "gaps d now [] = True"
| "gaps d now (t # ts) = (now \<le> sn_now t \<and> sn_now t \<le> now + d \<and> gaps d (sn_now t) ts)"

definition silent :: "sturn \<Rightarrow> bool" where
  "silent t \<longleftrightarrow> sn_recv t = Nothing \<and> \<not> sn_yield t \<and> sn_send t = None"

fun last_time :: "nat \<Rightarrow> sturn list \<Rightarrow> nat" where
  "last_time now [] = now"
| "last_time now (t # ts) = last_time (sn_now t) ts"

lemma run_signal_Cons: "run_signal e (t # ts) st = run_signal e ts (signal_step e t st)"
  by (simp add: run_signal_def)

lemma closed_stays: "run_signal e ts (Closed err, g) = (Closed err, g)"
  by (induction ts) (simp_all add: run_signal_def signal_step_def)

lemma last_time_mono: "gaps d now ts \<Longrightarrow> now \<le> last_time now ts"
  by (induction ts arbitrary: now) (auto intro: order_trans)

lemma silent_step:
  "silent t \<Longrightarrow> signal_step e t (Online seen hc, g) = health_step t (Online seen hc, g)"
  by (simp add: signal_step_def silent_def)

text \<open>With a health check out: the server has thirty seconds, in whole seconds one less than thirty-one.\<close>

lemma unanswered:
  assumes "list_all silent ts" "gaps d now ts" "now < at + 31000"
  shows "(\<exists>err. run_signal e ts (Online seen (Some at), g) = (Closed err, g)) \<or>
    run_signal e ts (Online seen (Some at), g) = (Online seen (Some at), g) \<and> last_time now ts < at + 31000"
  using assms
proof (induction ts arbitrary: now)
  case (Cons t ts)
  show ?case
  proof (cases "secs_since (sn_now t) at > SERVER_TIMEOUT")
    case True
    then have "signal_step e t (Online seen (Some at), g) = (Closed (str ''Server unresponsive (healthcheck timeout)''), g)"
      using Cons.prems(1) by (simp add: silent_step health_step_def)
    then show ?thesis by (simp add: run_signal_Cons closed_stays)
  next
    case False
    then have "(sn_now t - at) div 1000 \<le> 30" by (simp add: secs_since_def SERVER_TIMEOUT_def)
    then have "sn_now t < at + 31000" by linarith
    moreover have "signal_step e t (Online seen (Some at), g) = (Online seen (Some at), g)"
      using Cons.prems(1) False by (simp add: silent_step health_step_def)
    ultimately show ?thesis using Cons.IH[of "sn_now t"] Cons.prems by (simp add: run_signal_Cons)
  qed
qed (simp add: run_signal_def)

lemma silence:
  assumes "list_all silent ts" "gaps d now ts" "now < seen + 91000"
  shows "(\<exists>err. run_signal e ts (Online seen None, g) = (Closed err, g\<lparr>sg_sent := sg_sent g @ [Health]\<rparr>)) \<or>
    (\<exists>at. run_signal e ts (Online seen None, g) = (Online seen (Some at), g\<lparr>sg_sent := sg_sent g @ [Health]\<rparr>) \<and>
       last_time now ts < at + 31000 \<and> at < seen + 91000 + d) \<or>
    run_signal e ts (Online seen None, g) = (Online seen None, g) \<and> last_time now ts < seen + 91000"
  using assms
proof (induction ts arbitrary: now)
  case (Cons t ts)
  show ?case
  proof (cases "secs_since (sn_now t) seen > HEALTHCHECK_TIMEOUT")
    case True
    then have "signal_step e t (Online seen None, g) = (Online seen (Some (sn_now t)), g\<lparr>sg_sent := sg_sent g @ [Health]\<rparr>)"
      using Cons.prems(1) by (simp add: silent_step health_step_def) (simp add: silent_def)
    moreover have "sn_now t < seen + 91000 + d" using Cons.prems(2,3) by simp
    ultimately show ?thesis
      using unanswered[of ts d "sn_now t" "sn_now t" e seen "g\<lparr>sg_sent := sg_sent g @ [Health]\<rparr>"] Cons.prems(1,2)
      by (auto simp: run_signal_Cons)
  next
    case False
    then have "(sn_now t - seen) div 1000 \<le> 90" by (simp add: secs_since_def HEALTHCHECK_TIMEOUT_def)
    then have "sn_now t < seen + 91000" by linarith
    moreover have "signal_step e t (Online seen None, g) = (Online seen None, g)"
      using Cons.prems(1) False by (simp add: silent_step health_step_def)
    ultimately show ?thesis using Cons.IH[of "sn_now t"] Cons.prems by (simp add: run_signal_Cons)
  qed
qed (simp add: run_signal_def)

section \<open>The request\<close>








section \<open>Properties\<close>

text \<open>C20: 
  The cache of the server list: a valid answer fetched now is written to \<open>Config2\<close> without touching other options; for six hours calls return it
  without asking the network, and when the network fails later it is still what a call falls back on.
\<close>

theorem api_cache_serves:
  assumes "config2_file_ok file" "custom_server file = []" "api_get (aw_http w) file = Inr body" "api_body_is_valid parse body"
    and "aw_disk w" "list_all is_scalar body" "0 < aw_now w" "aw_now w < 2 ^ 64"
    and "api_get_cached parse w True file = (r, file')"
  shows "r = Inr body \<and> config2_file_ok file' \<and>
    (\<forall>k. k = str ''api-cache'' \<or> k = str ''api-cache-time'' \<or>
       config2_get_option (load_config2 file') k = config2_get_option (load_config2 file) k) \<and>
    (\<forall>w'. aw_now w \<le> aw_now w' \<and> aw_now w' < aw_now w + 21600 \<longrightarrow> api_get_cached parse w' False file' = (Inr body, file')) \<and>
    (\<forall>w' force. \<not> isl (api_get (aw_http w') file') \<or> api_get_cached parse w' force file' = (Inr body, file'))"
proof -
  have ne: "body \<noteq> []" using assms(2,3) by (auto simp: api_get_def split: sum.splits if_splits)
  have f: "r = Inr body" "file' = store_api_cache True body (aw_now w) file"
    using assms(2-5,9) by (auto simp: api_get_cached_def Let_def split: option.splits prod.splits)
  note st = stored_cache[OF assms(1,6) ne assms(8) f(2)]
  have custom: "custom_server file' = []" using assms(2) st(3) by (simp add: custom_server_def)
  have "api_get_cached parse w' False file' = (Inr body, file')" if "aw_now w \<le> aw_now w' \<and> aw_now w' < aw_now w + 21600" for w'
    using that assms(7) by (auto simp: api_get_cached_def custom st(2) API_CACHE_MAX_AGE_SECS_def)
  moreover have "\<not> isl (api_get (aw_http w') file') \<or> api_get_cached parse w' force file' = (Inr body, file')" for w' force
    by (cases "api_get (aw_http w') file'") (simp_all add: api_get_cached_def custom st(2))
  ultimately show ?thesis using f(1) st(1,3) by blast
qed

text \<open>A network that answers with a text, and a reader that finds a host in everything.\<close>

definition demo_json :: "rstr \<Rightarrow> json option" where
  "demo_json body = Some (JObj [(str ''rendezvous'', JObj [(str ''host'', JStr [104])])])"

definition demo_world :: api_world where
  "demo_world = \<lparr>aw_http = \<lambda>url. Inr [120], aw_now = 1000, aw_disk = True\<rparr>"

theorem api_cache_serves_witness:
  "fst (api_get_cached demo_json (demo_world\<lparr>aw_http := \<lambda>url. Inl []\<rparr>) False (snd (api_get_cached demo_json demo_world True (Some [])))) = Inr [120]"
proof -
  have ok: "config2_file_ok (Some [])" "custom_server (Some []) = []"
    by (simp_all add: config2_file_ok_def custom_server_def load_config2_def config2_load_def config2_wf_def options_ok_def i32_def
        config2_empty_def config2_get_option_def options_get_def)
  have get: "api_get (aw_http demo_world) (Some []) = Inr [120]" by (simp add: api_get_def ok demo_world_def)
  have valid: "api_body_is_valid demo_json [120]" by (simp add: api_body_is_valid_def demo_json_def json_get_def as_str_def)
  have w: "aw_disk demo_world" "list_all is_scalar [120]" "0 < aw_now demo_world" "aw_now demo_world < 2 ^ 64"
    by (simp_all add: demo_world_def is_scalar_def)
  obtain r file' where r: "api_get_cached demo_json demo_world True (Some []) = (r, file')" by fastforce
  have "api_get_cached demo_json (demo_world\<lparr>aw_http := \<lambda>url. Inl []\<rparr>) False file' = (Inr [120], file')"
    using api_cache_serves[OF ok get valid w r] by (simp add: demo_world_def)
  then show ?thesis by (simp add: r)
qed

text \<open>C19: 
  A server that falls silent is noticed: after ninety seconds without a message one health check is sent, and thirty seconds
  later the connection is given up (whole seconds, so at most 91 and 31), plus the time between two turns. Never more than one check is out.
\<close>

theorem silence_detected:
  assumes "list_all silent ts" "gaps d seen ts"
  shows "(\<exists>err. run_signal e ts (Online seen None, g) = (Closed err, g\<lparr>sg_sent := sg_sent g @ [Health]\<rparr>)) \<or>
    (\<exists>hc g'. run_signal e ts (Online seen None, g) = (Online seen hc, g') \<and> (g' = g \<or> g' = g\<lparr>sg_sent := sg_sent g @ [Health]\<rparr>) \<and>
       last_time seen ts < seen + 122000 + d)"
  using silence[OF assms, of seen e g] by force

definition demo_request_msg :: signal_message where
  "demo_request_msg = \<lparr>sm_protocol = str ''one-to-one'', sm_endpoint = [49], sm_sender_id = [50], sm_data = [], sm_addr = [], sm_public_addr = [],
     sm_pk = [], sm_lan_ipv4 = [], sm_nat_type = 0\<rparr>"

definition demo_senv :: senv where
  "demo_senv = \<lparr>se_pk = replicate 32 7, se_parse = \<lambda>msg. Some demo_request_msg, se_json = \<lambda>m. []\<rparr>"

definition demo_signalling :: signalling where
  "demo_signalling = \<lparr>sg_state = signal_state_default, sg_sent = [], sg_tasks = []\<rparr>"

definition demo_sturn :: "nat \<Rightarrow> sturn" where
  "demo_sturn now = \<lparr>sn_received = now, sn_now = now, sn_recv = Nothing, sn_yield = False, sn_config2 = Some [], sn_listener = Some ([49], [50]),
     sn_public = None, sn_relay_up = False, sn_send = None\<rparr>"

theorem silence_detected_witness:
  "\<exists>err g'. run_signal demo_senv [demo_sturn 91000, demo_sturn 182000, demo_sturn 273000] (Online 0 None, demo_signalling) = (Closed err, g')"
  using silence_detected[of "[demo_sturn 91000, demo_sturn 182000, demo_sturn 273000]" 91000 0 demo_senv demo_signalling]
  by (auto simp: demo_sturn_def silent_def)

text \<open>C21: 
  Each connect request is answered at most once, in order, and each answer goes with the acceptance of that peer's connection;
  every answer carries this machine's public signing key. Nothing else makes the server answer or accept.
\<close>

theorem requests_answered:
  assumes "run_signal e turns (Online now None, g0) = (ph, g)" "sg_sent g0 = []" "sg_tasks g0 = []" "length (se_pk e) = 32"
  shows "replies (sg_sent g) = accepts (sg_tasks g) \<and> subseq (replies (sg_sent g)) (asked e turns) \<and> list_all (carries_key e) (sg_sent g)"
  using run_answered[of e turns "(Online now None, g0)"] assms by (auto simp: answered_def)

theorem requests_answered_witness:
  "subseq (replies (sg_sent (snd (run_signal demo_senv [(demo_sturn 0)\<lparr>sn_recv := Text []\<rparr>] (Online 0 None, demo_signalling))))) [[50]]"
proof -
  have "asked demo_senv [(demo_sturn 0)\<lparr>sn_recv := Text []\<rparr>] = [[50]]"
    by (simp add: asked_def List.map_filter_simps connect_request_def demo_senv_def is_connect_request_def demo_request_msg_def)
  moreover have "sg_sent demo_signalling = []" "sg_tasks demo_signalling = []" "length (se_pk demo_senv) = 32"
    by (simp_all add: demo_signalling_def demo_senv_def)
  ultimately show ?thesis using requests_answered[OF prod.collapse[symmetric]] by metis
qed

text \<open>C18: 
  Rendezvous: a viewer's request that reaches a server which takes connections brings back the server's address and its public
  signing key, exactly as the viewer's handshake needs it, when the reader of messages reads what the writer wrote.
\<close>

theorem rendezvous_brings_key:
  assumes "se_parse e request = Some m" "is_connect_request m" "request \<noteq> HEALTHCHECK"
    and "\<not> str_contains (str ''username is taken'') request" "\<not> str_contains (str ''You are removed'') request"
    and "config2_get_option (load_config2 (sn_config2 t)) (str ''stop-service'') \<noteq> str ''Y''"
    and "sn_listener t = Some (addr, lan)" "addr \<noteq> []" "sn_send t = None" "length (se_pk e) = 32"
    and "reply = listening_reply e (sm_sender_id m) addr (case sn_public t of Some a \<Rightarrow> a | None \<Rightarrow> addr) lan"
    and "slice_ok 300 (se_json e reply)" "parse (se_json e reply) = Some reply" "rt_now u < deadline"
  shows "sg_sent (snd (on_text e t request g)) = sg_sent g @ [Listening reply] \<and>
    sg_tasks (snd (on_text e t request g)) = sg_tasks g @ [AcceptFrom (sm_sender_id m)] \<and>
    (\<exists>pl. request_step parse target (u\<lparr>rt_recv := Text (se_json e reply)\<rparr>) (Asking sent deadline) = Asked (Inr pl) \<and>
       pl_addr pl = addr \<and> decode_peer_sign_pk (pl_pk pl) = Some (se_pk e))"
proof -
  have addr: "sm_addr reply = addr" and key: "decode_peer_sign_pk (sm_pk reply) = Some (se_pk e)"
    using reply_key[OF assms(10)] by (simp_all add: assms(11) listening_reply_def carries_key_def)
  have "handle_connect_request e t (sm_sender_id m) g =
      (True, g\<lparr>sg_state := (sg_state g)\<lparr>ss_incoming := Some (sm_sender_id m)\<rparr>, sg_sent := sg_sent g @ [Listening reply],
               sg_tasks := sg_tasks g @ [AcceptFrom (sm_sender_id m)]\<rparr>)"
    using assms(6,7,9,12) by (simp add: handle_connect_request_def assms(11) Let_def)
  then have "on_text e t request g = (Online (sn_received t) None, g\<lparr>sg_state := (sg_state g)\<lparr>ss_incoming := Some (sm_sender_id m)\<rparr>,
      sg_sent := sg_sent g @ [Listening reply], sg_tasks := sg_tasks g @ [AcceptFrom (sm_sender_id m)]\<rparr>)"
    using assms(1-5) by (simp add: on_text_def handle_signal_message_def is_connect_request_def)
  moreover have "request_step parse target (u\<lparr>rt_recv := Text (se_json e reply)\<rparr>) (Asking sent deadline) = Asked (Inr (peer_listening_of reply))"
    using assms(8,13,14) addr by (simp add: request_step_def)
  ultimately show ?thesis using addr key by (simp add: peer_listening_of_def)
qed

theorem rendezvous_brings_key_witness:
  "\<exists>pl. request_step (\<lambda>msg. Some (listening_reply demo_senv [50] [49] [49] [50])) []
      (\<lparr>rt_now = 0, rt_done = 0, rt_recv = Text [], rt_send = None\<rparr>) (Asking 1 12000) = Asked (Inr pl) \<and>
     decode_peer_sign_pk (pl_pk pl) = Some (replicate 32 7)"
proof -
  let ?t = "(demo_sturn 0)\<lparr>sn_recv := Text []\<rparr>"
  have m: "se_parse demo_senv [] = Some demo_request_msg" "is_connect_request demo_request_msg" "([] :: rstr) \<noteq> HEALTHCHECK"
    by (simp_all add: demo_senv_def is_connect_request_def demo_request_msg_def HEALTHCHECK_def)
  have no: "\<not> str_contains (str ''username is taken'') []" "\<not> str_contains (str ''You are removed'') []"
    by (simp_all add: str_contains_def)
  have on: "config2_get_option (load_config2 (sn_config2 ?t)) (str ''stop-service'') \<noteq> str ''Y''"
    by (simp add: demo_sturn_def load_config2_def config2_load_def config2_empty_def config2_get_option_def options_get_def str_def)
  have l: "sn_listener ?t = Some ([49], [50])" "([49] :: rstr) \<noteq> []" "sn_send ?t = None" "length (se_pk demo_senv) = 32"
    by (simp_all add: demo_sturn_def demo_senv_def)
  have r: "listening_reply demo_senv [50] [49] [49] [50] = listening_reply demo_senv (sm_sender_id demo_request_msg) [49]
      (case sn_public ?t of Some a \<Rightarrow> a | None \<Rightarrow> [49]) [50]" "slice_ok 300 (se_json demo_senv (listening_reply demo_senv [50] [49] [49] [50]))"
    by (simp_all add: demo_sturn_def demo_request_msg_def slice_ok_def demo_senv_def utf8_def)
  have pk: "se_pk demo_senv = replicate 32 7" "se_json demo_senv m = []" for m by (simp_all add: demo_senv_def)
  show ?thesis
    using rendezvous_brings_key[OF m no on l r, of "\<lambda>msg. Some (listening_reply demo_senv [50] [49] [49] [50])"
        "\<lparr>rt_now = 0, rt_done = 0, rt_recv = Text [], rt_send = None\<rparr>" 12000 demo_signalling "[]" 1]
    by (auto simp: pk)
qed

text \<open>A defect: the log slices the answer at byte 300. A connect request whose sender's id puts a character across that byte ends the
  program.\<close>

theorem long_id_aborts:
  assumes "connect_request e t = Some sender" "sn_recv t = Text request" "request \<noteq> HEALTHCHECK"
    and "\<not> str_contains (str ''username is taken'') request" "\<not> str_contains (str ''You are removed'') request"
    and "config2_get_option (load_config2 (sn_config2 t)) (str ''stop-service'') \<noteq> str ''Y''"
    and "sn_listener t = Some (addr, lan)"
    and "\<not> slice_ok 300 (se_json e (listening_reply e sender addr (case sn_public t of Some a \<Rightarrow> a | None \<Rightarrow> addr) lan))"
  shows "fst (signal_step e t (Online seen hc, g)) = Aborted"
proof -
  obtain m where m: "se_parse e request = Some m" "is_connect_request m" "sender = sm_sender_id m"
    using assms(1,2) by (auto simp: connect_request_def split: option.splits if_splits)
  have "fst (handle_connect_request e t sender g) = False"
    using assms(6-8) by (simp add: handle_connect_request_def Let_def)
  then have "fst (on_text e t request g) = Aborted"
    using assms(3-5) m by (cases "handle_connect_request e t sender g") (simp add: on_text_def handle_signal_message_def is_connect_request_def)
  then show ?thesis
    using assms(2) by (cases "on_text e t request g") (simp add: signal_step_def health_step_def)
qed

theorem long_id_aborts_witness:
  "fst (signal_step (demo_senv\<lparr>se_json := \<lambda>m. replicate 299 97 @ [0x20AC]\<rparr>) ((demo_sturn 0)\<lparr>sn_recv := Text []\<rparr>) (Online 0 None, demo_signalling)) = Aborted"
proof -
  let ?e = "demo_senv\<lparr>se_json := \<lambda>m. replicate 299 97 @ [0x20AC]\<rparr>" and ?t = "(demo_sturn 0)\<lparr>sn_recv := Text []\<rparr>"
  have "utf8 (replicate n 97 @ s) = replicate n 97 @ utf8 s" for n s
    by (induction n) (simp_all add: utf8_def utf8_char_def)
  then have u: "utf8 (replicate 299 97 @ [0x20AC]) = replicate 299 97 @ utf8_char 0x20AC" by (simp add: utf8_def)
  have bad: "\<not> slice_ok 300 (se_json ?e m)" for m
    by (simp add: slice_ok_def u nth_append) (simp add: utf8_char_def utf8_cont_def)
  have c: "connect_request ?e ?t = Some [50]"
    by (simp add: connect_request_def demo_senv_def is_connect_request_def demo_request_msg_def)
  have h: "sn_recv ?t = Text []" "([] :: rstr) \<noteq> HEALTHCHECK" "sn_listener ?t = Some ([49], [50])"
    by (simp_all add: HEALTHCHECK_def demo_sturn_def)
  have no: "\<not> str_contains (str ''username is taken'') []" "\<not> str_contains (str ''You are removed'') []"
    by (simp_all add: str_contains_def)
  have on: "config2_get_option (load_config2 (sn_config2 ?t)) (str ''stop-service'') \<noteq> str ''Y''"
    by (simp add: demo_sturn_def load_config2_def config2_load_def config2_empty_def config2_get_option_def options_get_def str_def)
  show ?thesis by (rule long_id_aborts[OF c h(1,2) no on h(3) bad])
qed




end
