(* ===== verification/Clip_Files.thy ===== *)
theory Clip_Files
  imports File_Transfer
begin

text \<open>
  \<open>src/src/clipboard_file.rs\<close>: copying files through the clipboard. One side announces the files on its clipboard and serves
  their list and contents in pieces; the other fetches them into a new folder below the temporary one and puts them on its
  own clipboard. The statics of the file and the files, folders and clipboard of the machine are one record; a step's environment holds
  the clock, the temporary folder, what fails on the disk and how much one read returns.
\<close>

section \<open>UTF-16\<close>

type_synonym i32 = "32 word"

definition utf16_char :: "rchar \<Rightarrow> u16 list" where
  "utf16_char c =
     (if c < 0x10000 then [of_nat c] else [of_nat (0xD800 + (c - 0x10000) div 1024), of_nat (0xDC00 + (c - 0x10000) mod 1024)])"

definition encode_utf16 :: "rstr \<Rightarrow> u16 list" where
  "encode_utf16 s = concat (map utf16_char s)"

definition high_surrogate :: "u16 \<Rightarrow> bool" where
  "high_surrogate u \<longleftrightarrow> 0xD800 \<le> unat u \<and> unat u < 0xDC00"

definition low_surrogate :: "u16 \<Rightarrow> bool" where
  "low_surrogate u \<longleftrightarrow> 0xDC00 \<le> unat u \<and> unat u < 0xE000"

text \<open>\<open>String::from_utf16_lossy\<close>: a surrogate without its partner becomes the replacement character.\<close>

fun from_utf16_lossy :: "u16 list \<Rightarrow> rstr" where
  "from_utf16_lossy [] = []"
| "from_utf16_lossy [u] = [if high_surrogate u \<or> low_surrogate u then 0xFFFD else unat u]"
| "from_utf16_lossy (u # v # us) =
     (if high_surrogate u then
        if low_surrogate v then (0x10000 + (unat u - 0xD800) * 1024 + (unat v - 0xDC00)) # from_utf16_lossy us
        else 0xFFFD # from_utf16_lossy (v # us)
      else (if low_surrogate u then 0xFFFD else unat u) # from_utf16_lossy (v # us))"

section \<open>Data\<close>

definition FILEDESCRIPTOR_FORMAT_ID :: i32 where "FILEDESCRIPTOR_FORMAT_ID = 49334"
definition FILEDESCRIPTORW_FORMAT_NAME :: rstr where "FILEDESCRIPTORW_FORMAT_NAME = str ''FileGroupDescriptorW''"
definition FILECONTENTS_FORMAT_ID :: i32 where "FILECONTENTS_FORMAT_ID = 49267"
definition FILECONTENTS_FORMAT_NAME :: rstr where "FILECONTENTS_FORMAT_NAME = str ''FileContents''"
definition FILECONTENTS_SIZE :: i32 where "FILECONTENTS_SIZE = 1"
definition FILECONTENTS_RANGE :: i32 where "FILECONTENTS_RANGE = 2"
definition MAX_FILECONTENTS_RANGE :: u64 where "MAX_FILECONTENTS_RANGE = 16 * 1024 * 1024"
definition MAX_SERVED_RANGE :: u64 where "MAX_SERVED_RANGE = 256 * 1024"
definition FD_STRUCT_SIZE :: nat where "FD_STRUCT_SIZE = 592"
definition FD_FLAGS :: u32 where "FD_FLAGS = 0x04 OR 0x40 OR 0x4000"
definition FILE_ATTRIBUTE_NORMAL :: u32 where "FILE_ATTRIBUTE_NORMAL = 0x80"
definition FILE_ATTRIBUTE_DIRECTORY :: u32 where "FILE_ATTRIBUTE_DIRECTORY = 0x10"

record clip_file =
  cf_path :: rstr
  cf_rel_name :: rstr
  cf_size :: u64
  cf_is_dir :: bool

record recv_file =
  rf_name :: rstr
  rf_size :: u64
  rf_is_dir :: bool

record recv_state =
  rs_files :: "recv_file list"
  rs_current_index :: nat
  rs_current_offset :: u64
  rs_temp_dir :: rstr
  rs_waiting_size :: bool

record contents_request =
  cr_stream_id :: i32
  cr_list_index :: i32
  cr_dw_flags :: i32
  cr_n_position_low :: i32
  cr_n_position_high :: i32
  cr_cb_requested :: i32

datatype cliprdr =
    FormatList "(i32 \<times> rstr) list"
  | FormatListResponse i32
  | FormatDataRequest i32
  | FormatDataResponse i32 bytes
  | FileContentsRequest contents_request
  | FileContentsResponse i32 i32 bytes
  | OtherCliprdr

record clip =
  clip_files :: "clip_file list"
  clip_last_paths :: "rstr list"
  clip_recv :: "recv_state option"
  clip_served_requests :: u64
  clip_served_bytes :: u64
  clip_dropping :: bool
  clip_forget_text :: bool
  clip_disk :: disk
  clip_dirs :: "rstr list"
  clip_board :: "rstr list option"

record clip_env =
  ce_millis :: nat
  ce_temp :: rstr
  ce_fault :: "rstr \<Rightarrow> io_fault"
  ce_read :: nat
  ce_clipboard_ok :: bool
  ce_lower :: "rstr \<Rightarrow> rstr"
  ce_tree :: "rstr \<Rightarrow> tree option"

section \<open>The file list\<close>

text \<open>\<open>Path::file_name\<close> of a path as the shell gives it; empty where there is none.\<close>

definition path_file_name :: "rstr \<Rightarrow> rstr" where
  "path_file_name path =
     (let t = trim_end_matches is_sep path; n = last (split_seps t)
      in if n = [46, 46] \<or> has_drive t \<and> length t = 2 then [] else n)"

definition clip_entry :: "rstr \<Rightarrow> rstr \<Rightarrow> tree \<Rightarrow> clip_file" where
  "clip_entry path rel t =
     (case t of
        Leaf len _ \<Rightarrow> \<lparr>cf_path = path, cf_rel_name = rel, cf_size = of_nat len, cf_is_dir = False\<rparr>
      | _ \<Rightarrow> \<lparr>cf_path = path, cf_rel_name = rel, cf_size = 0, cf_is_dir = True\<rparr>)"

function (sequential) enumerate_dir_recursive :: "rstr \<Rightarrow> rstr \<Rightarrow> tree \<Rightarrow> clip_file list"
and enumerate_dir_entries :: "rstr \<Rightarrow> rstr \<Rightarrow> (rstr \<times> bool \<times> tree) list \<Rightarrow> clip_file list" where
  "enumerate_dir_recursive dir rel (Folder m ns) = enumerate_dir_entries dir rel ns"
| "enumerate_dir_recursive dir rel (Leaf _ _) = []"
| "enumerate_dir_recursive dir rel (Locked _) = []"
| "enumerate_dir_entries dir rel [] = []"
| "enumerate_dir_entries dir rel ((name, hidden, t) # ns) =
     clip_entry (rel_join dir name) (rel @ [92] @ name) t
       # enumerate_dir_recursive (rel_join dir name) (rel @ [92] @ name) t @ enumerate_dir_entries dir rel ns"
  by pat_completeness auto
termination
  by (relation "measure (\<lambda>x. case x of Inl (_, _, t) \<Rightarrow> size t | Inr (_, _, ns) \<Rightarrow> size_list (\<lambda>x. size (snd (snd x))) ns)")
    (auto simp: size_list_conv_sum_list size_prod_simp comp_def intro!: le_imp_less_Suc sum_list_mono)

definition enumerate_files :: "(rstr \<Rightarrow> tree option) \<Rightarrow> rstr list \<Rightarrow> clip_file list" where
  "enumerate_files metadata paths =
     concat (map (\<lambda>path.
       case metadata path of
         None \<Rightarrow> []
       | Some t \<Rightarrow>
           let name = path_file_name path
           in if name = [] then [] else clip_entry path name t # enumerate_dir_recursive path name t) paths)"

text \<open>One descriptor of 592 bytes: flags, attributes at 36, the size at 64 and 68, the name at 72 with its terminating zeros.\<close>

definition fd_name :: "rstr \<Rightarrow> bytes" where
  "fd_name name = concat (map (le_bytes 2) (take 259 (encode_utf16 name)))"

definition fd_struct :: "clip_file \<Rightarrow> bytes" where
  "fd_struct f =
     (let attrs = (if cf_is_dir f then FILE_ATTRIBUTE_DIRECTORY else FILE_ATTRIBUTE_NORMAL);
          b0 = replicate FD_STRUCT_SIZE 0;
          b1 = overwrite 0 (le_bytes 4 FD_FLAGS) b0;
          b2 = overwrite 36 (le_bytes 4 attrs) b1;
          b3 = overwrite 64 (le_bytes 4 (ucast (drop_bit 32 (cf_size f)) :: u32)) b2;
          b4 = overwrite 68 (le_bytes 4 (ucast (cf_size f) :: u32)) b3
      in overwrite 72 (fd_name (cf_rel_name f)) b4)"

definition build_file_group_descriptor :: "clip_file list \<Rightarrow> bytes" where
  "build_file_group_descriptor files = le_bytes 4 (of_nat (length files) :: u32) @ concat (map fd_struct files)"

definition u32_at :: "nat \<Rightarrow> bytes \<Rightarrow> u32" where
  "u32_at i data = of_le (take 4 (drop i data))"

text \<open>The name: at most 260 units, to the first zero.\<close>

fun read_units :: "nat \<Rightarrow> bytes \<Rightarrow> u16 list" where
  "read_units (Suc n) (a # b # rest) = (let ch = of_le [a, b] in if ch = 0 then [] else ch # read_units n rest)"
| "read_units _ _ = []"

definition parse_fd :: "bytes \<Rightarrow> nat \<Rightarrow> recv_file" where
  "parse_fd data offset =
     \<lparr>rf_name = from_utf16_lossy (read_units 260 (drop (offset + 72) data)),
      rf_size = push_bit 32 (ucast (u32_at (offset + 64) data)) OR ucast (u32_at (offset + 68) data),
      rf_is_dir = (u32_at (offset + 36) data AND FILE_ATTRIBUTE_DIRECTORY \<noteq> 0)\<rparr>"

function parse_fds :: "bytes \<Rightarrow> nat \<Rightarrow> nat \<Rightarrow> recv_file list" where
  "parse_fds data i n =
     (let offset = 4 + i * FD_STRUCT_SIZE
      in if i \<ge> n \<or> offset + FD_STRUCT_SIZE > length data then [] else parse_fd data offset # parse_fds data (i + 1) n)"
  by pat_completeness auto
termination by (relation "measure (\<lambda>(_, i, n). n - i)") auto

declare parse_fds.simps [simp del]

definition parse_file_group_descriptor :: "bytes \<Rightarrow> recv_file list" where
  "parse_file_group_descriptor data = (if length data < 4 then [] else parse_fds data 0 (unat (u32_at 0 data)))"

section \<open>Safe names\<close>

definition to_ascii_uppercase :: "rstr \<Rightarrow> rstr" where
  "to_ascii_uppercase s = map (\<lambda>c. if 97 \<le> c \<and> c \<le> 122 then c - 32 else c) s"

definition is_safe_clip_component :: "rstr \<Rightarrow> bool" where
  "is_safe_clip_component part =
     (if part = [] \<or> hd part = 32 \<or> last part = 32 \<or> last part = 46 then False
      else if list_ex (\<lambda>c. c < 32 \<or> c \<in> {60, 62, 58, 34, 124, 63, 42}) part then False
      else
        let upper = to_ascii_uppercase part; base = hd (split_on 46 upper)
        in if upper \<in> {str ''CONIN$'', str ''CONOUT$'', str ''CLOCK$''}
              \<or> base \<in> {str ''CON'', str ''PRN'', str ''AUX'', str ''NUL''}
           then False
           else \<not> ((take 3 base = str ''COM'' \<or> take 3 base = str ''LPT'') \<and> length base = 4
                   \<and> (49 \<le> base ! 3 \<and> base ! 3 \<le> 57 \<or> base ! 3 \<in> {0xB9, 0xB2, 0xB3})))"

definition is_safe_clip_name :: "rstr \<Rightarrow> bool" where
  "is_safe_clip_name name \<longleftrightarrow>
     length (encode_utf16 name) < 260 \<and> \<not> starts_with [47] name \<and> \<not> starts_with [92] name
     \<and> list_all is_safe_clip_component (split_seps name)"

section \<open>The disk\<close>

definition parent_dir :: "rstr \<Rightarrow> rstr" where
  "parent_dir path = rev (tl (dropWhile (\<lambda>c. \<not> is_sep c) (rev path)))"

text \<open>\<open>create_dir_all\<close>: the folder and everything above it. Its failure is ignored everywhere.\<close>

definition dirs_above :: "rstr \<Rightarrow> rstr list" where
  "dirs_above path = map (\<lambda>i. take i path) (filter (\<lambda>i. is_sep (path ! i)) [0..<length path])"

definition create_dir_all :: "clip_env \<Rightarrow> rstr \<Rightarrow> clip \<Rightarrow> clip" where
  "create_dir_all e path c =
     (if ce_fault e path = NoFault then c\<lparr>clip_dirs := path # dirs_above path @ clip_dirs c\<rparr> else c)"

text \<open>\<open>fs::write\<close> needs the folder; appending needs the file. A write that fails may have put a part.\<close>

definition fs_write :: "clip_env \<Rightarrow> rstr \<Rightarrow> bytes \<Rightarrow> clip \<Rightarrow> bool \<times> clip" where
  "fs_write e path data c =
     (if parent_dir path \<notin> set (clip_dirs c) \<or> path \<in> set (clip_dirs c) then (False, c)
      else case ce_fault e path of
        NoFault \<Rightarrow> (True, c\<lparr>clip_disk := (clip_disk c)(path \<mapsto> data)\<rparr>)
      | OpenFails \<Rightarrow> (False, c)
      | TransferFails n \<Rightarrow> (False, c\<lparr>clip_disk := (clip_disk c)(path \<mapsto> take n data)\<rparr>))"

definition fs_append :: "clip_env \<Rightarrow> rstr \<Rightarrow> bytes \<Rightarrow> clip \<Rightarrow> bool \<times> clip" where
  "fs_append e path data c =
     (case clip_disk c path of
        None \<Rightarrow> (False, c)
      | Some old \<Rightarrow>
          (case ce_fault e path of
             NoFault \<Rightarrow> (True, c\<lparr>clip_disk := (clip_disk c)(path \<mapsto> old @ data)\<rparr>)
           | OpenFails \<Rightarrow> (False, c)
           | TransferFails n \<Rightarrow> (False, c\<lparr>clip_disk := (clip_disk c)(path \<mapsto> old @ take n data)\<rparr>)))"

definition set_clipboard_files :: "clip_env \<Rightarrow> rstr list \<Rightarrow> clip \<Rightarrow> bool \<times> clip" where
  "set_clipboard_files e paths c = (if ce_clipboard_ok e then (True, c\<lparr>clip_board := Some paths\<rparr>) else (False, c))"

section \<open>Announcing and serving\<close>

definition format_list_message :: cliprdr where
  "format_list_message =
     FormatList [(FILEDESCRIPTOR_FORMAT_ID, FILEDESCRIPTORW_FORMAT_NAME), (FILECONTENTS_FORMAT_ID, FILECONTENTS_FORMAT_NAME)]"

definition temp_root :: "clip_env \<Rightarrow> rstr" where
  "temp_root e = trim_end_matches (\<lambda>c. c = 92) (ce_temp e)"

definition CLIP_FOLDER :: rstr where
  "CLIP_FOLDER = [92] @ str ''hoptodesk_clip_''"

definition is_received_download :: "clip_env \<Rightarrow> rstr \<Rightarrow> bool" where
  "is_received_download e path =
     (let temp = ce_lower e (temp_root e); p = ce_lower e path
      in starts_with temp p \<and> starts_with CLIP_FOLDER (drop (length temp) p))"

definition check_clipboard_files_change :: "clip_env \<Rightarrow> clip \<Rightarrow> cliprdr option \<times> clip" where
  "check_clipboard_files_change e c =
     (if clip_dropping c then (None, c)
      else case clip_board c of
        None \<Rightarrow> (None, c)
      | Some paths \<Rightarrow>
          if paths = [] \<or> list_all (is_received_download e) paths then (None, c)
          else if clip_last_paths c = paths then (None, c)
          else
            let c' = c\<lparr>clip_last_paths := paths\<rparr>; files = enumerate_files (ce_tree e) paths
            in if files = [] then (None, c') else (Some format_list_message, c'\<lparr>clip_files := files\<rparr>))"

definition announce_dropped_files :: "clip_env \<Rightarrow> rstr list \<Rightarrow> clip \<Rightarrow> cliprdr option \<times> clip" where
  "announce_dropped_files e paths c =
     (let files = enumerate_files (ce_tree e) paths
      in if files = [] then (None, c)
         else let (ok, c') = set_clipboard_files e paths c
              in if \<not> ok then (None, c')
                 else (Some format_list_message,
                       c'\<lparr>clip_last_paths := paths, clip_files := files, clip_served_requests := 0, clip_served_bytes := 0,
                          clip_forget_text := True\<rparr>))"

definition begin_drop :: "clip \<Rightarrow> bool \<times> clip" where
  "begin_drop c = (\<not> clip_dropping c, c\<lparr>clip_dropping := True\<rparr>)"

definition end_drop :: "clip \<Rightarrow> clip" where
  "end_drop c = c\<lparr>clip_dropping := False\<rparr>"

definition take_forget_last_text :: "clip \<Rightarrow> bool \<times> clip" where
  "take_forget_last_text c = (clip_forget_text c, c\<lparr>clip_forget_text := False\<rparr>)"

definition served :: "clip \<Rightarrow> u64 \<times> u64" where
  "served c = (clip_served_requests c, clip_served_bytes c)"

definition clip_total_bytes :: "clip \<Rightarrow> u64" where
  "clip_total_bytes c = sum_list (map cf_size (filter (\<lambda>f. \<not> cf_is_dir f) (clip_files c)))"

definition handle_format_data_request_host :: "i32 \<Rightarrow> clip \<Rightarrow> cliprdr list \<times> clip" where
  "handle_format_data_request_host requested_format_id c =
     (if requested_format_id = FILEDESCRIPTOR_FORMAT_ID \<and> clip_files c \<noteq> []
      then [FormatDataResponse 1 (build_file_group_descriptor (clip_files c))] else [FormatDataResponse 2 []],
      c\<lparr>clip_served_requests := clip_served_requests c + 1\<rparr>)"

text \<open>One read at a position; seeking past the range of the system's signed offsets fails.\<close>

definition read_file_chunk :: "clip_env \<Rightarrow> clip \<Rightarrow> rstr \<Rightarrow> u64 \<Rightarrow> nat \<Rightarrow> bytes option" where
  "read_file_chunk e c path position n =
     (if ce_fault e path \<noteq> NoFault \<or> unat position \<ge> 2 ^ 63 then None
      else map_option (\<lambda>content. take (min n (ce_read e)) (drop (unat position) content)) (clip_disk c path))"

definition request_position :: "contents_request \<Rightarrow> u64" where
  "request_position req = push_bit 32 (scast (cr_n_position_high req)) OR (scast (cr_n_position_low req) AND 0xFFFFFFFF)"

definition saturating_sub :: "u64 \<Rightarrow> u64 \<Rightarrow> u64" where
  "saturating_sub a b = (if a \<le> b then 0 else a - b)"

definition handle_file_contents_request :: "clip_env \<Rightarrow> contents_request \<Rightarrow> clip \<Rightarrow> cliprdr list \<times> clip" where
  "handle_file_contents_request e req c0 =
     (let c = c0\<lparr>clip_served_requests := clip_served_requests c0 + 1\<rparr>;
          index = unat (cr_list_index req);
          answer = (\<lambda>flags data. [FileContentsResponse flags (cr_stream_id req) data])
      in if index \<ge> length (clip_files c) then (answer 2 [], c)
         else
           let file = clip_files c ! index
           in if cr_dw_flags req = FILECONTENTS_SIZE then
                (answer 1 (le_bytes 4 (ucast (cf_size file) :: u32) @ le_bytes 4 (ucast (drop_bit 32 (cf_size file)) :: u32)), c)
              else if cr_dw_flags req = FILECONTENTS_RANGE then
                let position = request_position req;
                    requested = min (min (ucast (cr_cb_requested req)) (saturating_sub (cf_size file) position)) MAX_SERVED_RANGE
                in if cf_is_dir file then (answer 1 [], c)
                   else if requested > MAX_FILECONTENTS_RANGE then (answer 2 [], c)
                   else case read_file_chunk e c (cf_path file) position (unat requested) of
                     None \<Rightarrow> (answer 2 [], c)
                   | Some data \<Rightarrow>
                       if data = [] \<and> requested > 0 then (answer 2 [], c)
                       else (answer 1 data, c\<lparr>clip_served_bytes := clip_served_bytes c + of_nat (length data)\<rparr>)
              else (answer 2 [], c))"

section \<open>Fetching\<close>

definition make_file_contents_request_full :: "i32 \<Rightarrow> i32 \<Rightarrow> i32 \<Rightarrow> i32 \<Rightarrow> i32 \<Rightarrow> cliprdr" where
  "make_file_contents_request_full list_index dw_flags n_position_low n_position_high cb_requested =
     FileContentsRequest \<lparr>cr_stream_id = list_index, cr_list_index = list_index, cr_dw_flags = dw_flags,
       cr_n_position_low = n_position_low, cr_n_position_high = n_position_high, cr_cb_requested = cb_requested\<rparr>"

definition make_file_contents_request :: "i32 \<Rightarrow> i32 \<Rightarrow> u64 \<Rightarrow> i32 \<Rightarrow> cliprdr" where
  "make_file_contents_request list_index dw_flags position cb_requested =
     make_file_contents_request_full list_index dw_flags (ucast position) (ucast (drop_bit 32 position)) cb_requested"

definition handle_incoming_format_list :: "(i32 \<times> rstr) list \<Rightarrow> cliprdr list" where
  "handle_incoming_format_list formats =
     (case find (\<lambda>(i, name). name = FILEDESCRIPTORW_FORMAT_NAME \<or> i = FILEDESCRIPTOR_FORMAT_ID) formats of
        None \<Rightarrow> [FormatListResponse 1]
      | Some (i, _) \<Rightarrow> [FormatListResponse 1, FormatDataRequest i])"

definition backslashes :: "rstr \<Rightarrow> rstr" where
  "backslashes s = map (\<lambda>c. if c = 47 then 92 else c) s"

definition recv_path :: "rstr \<Rightarrow> recv_file \<Rightarrow> rstr" where
  "recv_path temp_dir f = temp_dir @ [92] @ backslashes (rf_name f)"

definition finalize_received_files :: "clip_env \<Rightarrow> recv_state \<Rightarrow> clip \<Rightarrow> clip" where
  "finalize_received_files e st c =
     (let top_level_paths = map (\<lambda>f. rs_temp_dir st @ [92] @ rf_name f) (filter (\<lambda>f. 92 \<notin> set (rf_name f)) (rs_files st))
      in if top_level_paths = [] then c else snd (set_clipboard_files e top_level_paths (c\<lparr>clip_last_paths := top_level_paths\<rparr>)))"

definition clip_temp_dir :: "clip_env \<Rightarrow> rstr" where
  "clip_temp_dir e = temp_root e @ CLIP_FOLDER @ show_nat (ce_millis e)"

definition next_file :: "recv_file list \<Rightarrow> nat \<Rightarrow> nat option" where
  "next_file files start = find (\<lambda>i. \<not> rf_is_dir (files ! i)) [start..<length files]"

definition request_size :: "nat \<Rightarrow> cliprdr" where
  "request_size idx = make_file_contents_request (of_nat idx) FILECONTENTS_SIZE 0 8"

definition handle_format_data_response :: "clip_env \<Rightarrow> i32 \<Rightarrow> bytes \<Rightarrow> clip \<Rightarrow> cliprdr list \<times> clip" where
  "handle_format_data_response e flags data c =
     (if flags \<noteq> 1 \<or> data = [] then ([], c)
      else
        let entries = parse_file_group_descriptor data
        in if entries = [] \<or> \<not> list_all (\<lambda>f. is_safe_clip_name (rf_name f)) entries then ([], c)
           else
             let temp_dir = clip_temp_dir e;
                 c' = fold (\<lambda>f. create_dir_all e (recv_path temp_dir f)) (filter rf_is_dir entries) (create_dir_all e temp_dir c);
                 first = next_file entries 0;
                 state = \<lparr>rs_files = entries, rs_current_index = (case first of Some i \<Rightarrow> i | None \<Rightarrow> 0), rs_current_offset = 0,
                          rs_temp_dir = temp_dir, rs_waiting_size = True\<rparr>
             in case first of
                  Some idx \<Rightarrow> ([request_size idx], c'\<lparr>clip_recv := Some state\<rparr>)
                | None \<Rightarrow> ([], (finalize_received_files e state c')\<lparr>clip_recv := None\<rparr>))"

text \<open>The state stays in place when the last file is done.\<close>

definition advance_to_next_file :: "clip_env \<Rightarrow> recv_state \<Rightarrow> clip \<Rightarrow> cliprdr list \<times> clip" where
  "advance_to_next_file e state c =
     (case next_file (rs_files state) (rs_current_index state + 1) of
        Some idx \<Rightarrow>
          ([request_size idx],
           c\<lparr>clip_recv := Some (state\<lparr>rs_current_index := idx, rs_current_offset := 0, rs_waiting_size := True\<rparr>)\<rparr>)
      | None \<Rightarrow> ([], finalize_received_files e state (c\<lparr>clip_recv := Some state\<rparr>)))"

definition MAX_FETCHED_RANGE :: u64 where
  "MAX_FETCHED_RANGE = 4 * 1024 * 1024"

definition size_received :: "clip_env \<Rightarrow> recv_state \<Rightarrow> bytes \<Rightarrow> clip \<Rightarrow> cliprdr list \<times> clip" where
  "size_received e state0 data c =
     (let idx = rs_current_index state0; file0 = rs_files state0 ! idx;
          size = (if 8 \<le> length data then push_bit 32 (ucast (u32_at 4 data)) OR ucast (u32_at 0 data) else rf_size file0);
          file = file0\<lparr>rf_size := size\<rparr>;
          state = state0\<lparr>rs_files := (rs_files state0)[idx := file], rs_waiting_size := False, rs_current_offset := 0\<rparr>
      in if size = 0 \<or> rf_is_dir file then
           advance_to_next_file e state (if rf_is_dir file then c else snd (fs_write e (recv_path (rs_temp_dir state) file) [] c))
         else
           ([make_file_contents_request (of_nat idx) FILECONTENTS_RANGE 0 (ucast (min size MAX_FETCHED_RANGE))],
            c\<lparr>clip_recv := Some state\<rparr>))"

definition range_received :: "clip_env \<Rightarrow> recv_state \<Rightarrow> bytes \<Rightarrow> clip \<Rightarrow> cliprdr list \<times> clip" where
  "range_received e state0 data c =
     (let idx = rs_current_index state0; file = rs_files state0 ! idx;
          file_path = recv_path (rs_temp_dir state0) file;
          c1 = create_dir_all e (parent_dir file_path) c;
          (ok, c2) = (if rs_current_offset state0 = 0 then fs_write e file_path data c1 else fs_append e file_path data c1)
      in if \<not> ok then advance_to_next_file e state0 c2
         else
           let offset = rs_current_offset state0 + of_nat (length data); state = state0\<lparr>rs_current_offset := offset\<rparr>
           in if offset \<ge> rf_size file then advance_to_next_file e state c2
              else
                ([make_file_contents_request_full (of_nat idx) FILECONTENTS_RANGE (ucast offset) (ucast (drop_bit 32 offset))
                    (ucast (min (rf_size file - offset) MAX_FETCHED_RANGE))],
                 c2\<lparr>clip_recv := Some state\<rparr>))"

definition handle_file_contents_response :: "clip_env \<Rightarrow> i32 \<Rightarrow> bytes \<Rightarrow> clip \<Rightarrow> cliprdr list \<times> clip" where
  "handle_file_contents_response e flags data c =
     (case clip_recv c of
        None \<Rightarrow> ([], c)
      | Some state \<Rightarrow>
          if flags \<noteq> 1 then advance_to_next_file e state c
          else if rs_current_index state \<ge> length (rs_files state) then ([], finalize_received_files e state (c\<lparr>clip_recv := None\<rparr>))
          else if rs_waiting_size state then size_received e state data c
          else range_received e state data c)"

section \<open>Both ends\<close>

definition handle_cliprdr_host :: "clip_env \<Rightarrow> cliprdr \<Rightarrow> clip \<Rightarrow> cliprdr list \<times> clip" where
  "handle_cliprdr_host e msg c =
     (case msg of
        FormatListResponse _ \<Rightarrow> ([], c)
      | FormatDataRequest i \<Rightarrow> handle_format_data_request_host i c
      | FileContentsRequest req \<Rightarrow> handle_file_contents_request e req c
      | FormatList formats \<Rightarrow> (handle_incoming_format_list formats, c)
      | FormatDataResponse flags data \<Rightarrow> handle_format_data_response e flags data c
      | FileContentsResponse flags stream data \<Rightarrow> handle_file_contents_response e flags data c
      | OtherCliprdr \<Rightarrow> ([], c))"

definition handle_cliprdr_client :: "clip_env \<Rightarrow> cliprdr \<Rightarrow> clip \<Rightarrow> cliprdr list \<times> clip" where
  "handle_cliprdr_client e msg c =
     (case msg of
        FormatList _ \<Rightarrow> ([FormatListResponse 1], c)
      | FormatListResponse _ \<Rightarrow> ([], c)
      | FormatDataRequest i \<Rightarrow> handle_format_data_request_host i c
      | FormatDataResponse flags data \<Rightarrow> handle_format_data_response e flags data c
      | FileContentsRequest req \<Rightarrow> handle_file_contents_request e req c
      | FileContentsResponse flags stream data \<Rightarrow> handle_file_contents_response e flags data c
      | OtherCliprdr \<Rightarrow> ([], c))"

definition clip_reset :: "clip \<Rightarrow> clip" where
  "clip_reset c = c\<lparr>clip_files := [], clip_last_paths := [], clip_recv := None\<rparr>"

section \<open>The file list survives\<close>

lemma lossy_plain: "\<not> high_surrogate u \<Longrightarrow> \<not> low_surrogate u \<Longrightarrow> from_utf16_lossy (u # us) = unat u # from_utf16_lossy us"
  by (cases us) auto

lemma surrogate_values:
  assumes "is_scalar c" "\<not> c < 0x10000"
  shows "unat (of_nat (0xD800 + (c - 0x10000) div 1024) :: u16) = 0xD800 + (c - 0x10000) div 1024"
    "unat (of_nat (0xDC00 + (c - 0x10000) mod 1024) :: u16) = 0xDC00 + (c - 0x10000) mod 1024"
    "(c - 0x10000) div 1024 < 1024" "(c - 0x10000) mod 1024 < 1024"
proof -
  have "c < 0x110000" using assms(1) by (auto simp: is_scalar_def)
  then show d: "(c - 0x10000) div 1024 < 1024" and m: "(c - 0x10000) mod 1024 < 1024" using assms(2) by auto
  show "unat (of_nat (0xD800 + (c - 0x10000) div 1024) :: u16) = 0xD800 + (c - 0x10000) div 1024" using d by (simp add: unat_of_nat del: of_nat_add)
  show "unat (of_nat (0xDC00 + (c - 0x10000) mod 1024) :: u16) = 0xDC00 + (c - 0x10000) mod 1024" using m by (simp add: unat_of_nat del: of_nat_add)
qed

lemma lossy_char:
  assumes "is_scalar c"
  shows "from_utf16_lossy (utf16_char c @ us) = c # from_utf16_lossy us"
proof (cases "c < 0x10000")
  case True
  then have "unat (of_nat c :: u16) = c" by (simp add: unat_of_nat)
  then show ?thesis
    using True assms lossy_plain[of "of_nat c"] by (auto simp: utf16_char_def high_surrogate_def low_surrogate_def is_scalar_def)
next
  case False
  let ?d = "c - 0x10000"
  note v = surrogate_values[OF assms False]
  have "0x10000 + ?d div 1024 * 1024 + ?d mod 1024 = c" using False by (simp add: div_mult_mod_eq)
  then show ?thesis
    using False v by (simp add: utf16_char_def high_surrogate_def low_surrogate_def del: of_nat_add)
qed

lemma lossy_encode: "list_all is_scalar s \<Longrightarrow> from_utf16_lossy (encode_utf16 s) = s"
  by (induction s) (simp_all add: encode_utf16_def lossy_char)

lemma encode_nonzero:
  assumes "list_all is_scalar s" "0 \<notin> set s"
  shows "0 \<notin> set (encode_utf16 s)"
proof -
  have "unat u \<noteq> 0" if c: "c \<in> set s" and u: "u \<in> set (utf16_char c)" for c u
  proof -
    have s: "is_scalar c" "c \<noteq> 0" using assms c by (auto simp: list_all_iff intro!: gr0I)
    show ?thesis
    proof (cases "c < 0x10000")
      case True
      then show ?thesis using u s by (auto simp: utf16_char_def unat_of_nat)
    next
      case False
      then show ?thesis using u surrogate_values(1,2)[OF s(1) False] by (auto simp: utf16_char_def simp del: of_nat_add)
    qed
  qed
  then show ?thesis by (fastforce simp: encode_utf16_def)
qed

lemma read_units_written:
  assumes "0 \<notin> set us" "length us < n"
  shows "read_units n (concat (map (le_bytes 2) us) @ 0 # 0 # rest) = us"
  using assms
proof (induction us arbitrary: n)
  case Nil
  then show ?case by (cases n) simp_all
next
  case (Cons u us)
  then obtain m where n: "n = Suc m" by (cases n) auto
  have u: "of_le (le_bytes 2 u) = u" by (rule of_le_le_bytes) simp
  obtain a b where ab: "le_bytes 2 u = [a, b]" by (simp add: numeral_eq_Suc)
  then show ?case using Cons n u by (auto simp: Let_def)
qed

definition recv_of :: "clip_file \<Rightarrow> recv_file" where
  "recv_of f = \<lparr>rf_name = cf_rel_name f, rf_size = cf_size f, rf_is_dir = cf_is_dir f\<rparr>"

definition clip_name_ok :: "rstr \<Rightarrow> bool" where
  "clip_name_ok name \<longleftrightarrow> list_all is_scalar name \<and> 0 \<notin> set name \<and> length (encode_utf16 name) \<le> 259"

lemma length_fd_name: "length (fd_name name) = 2 * min 259 (length (encode_utf16 name))"
  by (simp add: fd_name_def length_concat comp_def sum_list_triv)

lemma overwrite_mid: "length pre = i \<Longrightarrow> length mid = length src \<Longrightarrow> overwrite i src (pre @ mid @ post) = pre @ src @ post"
  by (simp add: overwrite_def)

lemma overwrite_fields:
  assumes "length w1 = 4" "length w2 = 4" "length w3 = 4" "length w4 = 4" "length u1 = 4" "length u2 = 4" "length u3 = 4" "length u4 = 4"
    and "length g1 = 32" "length g2 = 24" "length u5 = length w5"
  shows "overwrite 72 w5 (overwrite 68 w4 (overwrite 64 w3 (overwrite 36 w2 (overwrite 0 w1 (u1 @ g1 @ u2 @ g2 @ u3 @ u4 @ u5 @ post)))))
    = w1 @ g1 @ w2 @ g2 @ w3 @ w4 @ w5 @ post"
proof -
  have "overwrite 0 w1 (u1 @ g1 @ u2 @ g2 @ u3 @ u4 @ u5 @ post) = w1 @ g1 @ u2 @ g2 @ u3 @ u4 @ u5 @ post"
    using overwrite_mid[of "[]" 0 u1 w1] assms by simp
  moreover have "overwrite 36 w2 (w1 @ g1 @ u2 @ g2 @ u3 @ u4 @ u5 @ post) = w1 @ g1 @ w2 @ g2 @ u3 @ u4 @ u5 @ post"
    using overwrite_mid[of "w1 @ g1" 36 u2 w2] assms by simp
  moreover have "overwrite 64 w3 (w1 @ g1 @ w2 @ g2 @ u3 @ u4 @ u5 @ post) = w1 @ g1 @ w2 @ g2 @ w3 @ u4 @ u5 @ post"
    using overwrite_mid[of "w1 @ g1 @ w2 @ g2" 64 u3 w3] assms by simp
  moreover have "overwrite 68 w4 (w1 @ g1 @ w2 @ g2 @ w3 @ u4 @ u5 @ post) = w1 @ g1 @ w2 @ g2 @ w3 @ w4 @ u5 @ post"
    using overwrite_mid[of "w1 @ g1 @ w2 @ g2 @ w3" 68 u4 w4] assms by simp
  moreover have "overwrite 72 w5 (w1 @ g1 @ w2 @ g2 @ w3 @ w4 @ u5 @ post) = w1 @ g1 @ w2 @ g2 @ w3 @ w4 @ w5 @ post"
    using overwrite_mid[of "w1 @ g1 @ w2 @ g2 @ w3 @ w4" 72 u5 w5] assms by simp
  ultimately show ?thesis by simp
qed

lemma fd_struct_layout:
  "fd_struct f =
     le_bytes 4 FD_FLAGS @ replicate 32 0 @ le_bytes 4 (if cf_is_dir f then FILE_ATTRIBUTE_DIRECTORY else FILE_ATTRIBUTE_NORMAL)
     @ replicate 24 0 @ le_bytes 4 (ucast (drop_bit 32 (cf_size f)) :: u32) @ le_bytes 4 (ucast (cf_size f) :: u32)
     @ fd_name (cf_rel_name f) @ replicate (520 - length (fd_name (cf_rel_name f))) 0"
proof -
  have "length (fd_name (cf_rel_name f)) \<le> 520" by (simp add: length_fd_name)
  then have "replicate FD_STRUCT_SIZE (0 :: u8) = replicate 4 0 @ replicate 32 0 @ replicate 4 0 @ replicate 24 0 @ replicate 4 0 @ replicate 4 0
      @ replicate (length (fd_name (cf_rel_name f))) 0 @ replicate (520 - length (fd_name (cf_rel_name f))) 0"
    by (simp add: FD_STRUCT_SIZE_def replicate_add[symmetric])
  then show ?thesis unfolding fd_struct_def Let_def by (simp only:) (rule overwrite_fields; simp only: length_le_bytes length_replicate)
qed

lemma length_fd_struct: "length (fd_struct f) = 592"
  using length_fd_name[of "cf_rel_name f"] by (simp add: fd_struct_layout)

lemma u32_at_written: "length pre = i \<Longrightarrow> u32_at i (pre @ le_bytes 4 w @ rest) = w"
  by (simp add: u32_at_def of_le_le_bytes)

lemma size_halves: "push_bit 32 (ucast (ucast (drop_bit 32 w) :: u32)) OR ucast (ucast w :: u32) = (w :: u64)"
  by (rule bit_word_eqI) (auto simp: bit_simps)

lemma parse_fd_written:
  assumes "clip_name_ok (cf_rel_name f)" "length pre = offset"
  shows "parse_fd (pre @ fd_struct f @ rest) offset = recv_of f"
proof -
  let ?name = "encode_utf16 (cf_rel_name f)"
  have name: "length ?name \<le> 259" "0 \<notin> set ?name" "from_utf16_lossy ?name = cf_rel_name f"
    using assms(1) encode_nonzero lossy_encode by (auto simp: clip_name_ok_def)
  define pad where "pad = replicate (520 - length (fd_name (cf_rel_name f)) - 2) (0 :: u8) @ rest"
  have "520 - length (fd_name (cf_rel_name f)) = Suc (Suc (520 - length (fd_name (cf_rel_name f)) - 2))"
    using name(1) by (simp add: length_fd_name)
  then have pad: "replicate (520 - length (fd_name (cf_rel_name f))) 0 @ rest = 0 # 0 # pad"
    unfolding pad_def by (metis append_Cons replicate_Suc)
  define attrs :: u32 where "attrs = (if cf_is_dir f then FILE_ATTRIBUTE_DIRECTORY else FILE_ATTRIBUTE_NORMAL)"
  have all: "pre @ fd_struct f @ rest = pre @ le_bytes 4 FD_FLAGS @ replicate 32 0 @ le_bytes 4 attrs @ replicate 24 0
      @ le_bytes 4 (ucast (drop_bit 32 (cf_size f)) :: u32) @ le_bytes 4 (ucast (cf_size f) :: u32) @ fd_name (cf_rel_name f) @ 0 # 0 # pad"
    by (simp only: fd_struct_layout append_assoc pad attrs_def)
  have "u32_at (offset + 36) (pre @ fd_struct f @ rest) = attrs"
    using u32_at_written[of "pre @ le_bytes 4 FD_FLAGS @ replicate 32 0"] assms(2) by (simp add: all)
  moreover have "u32_at (offset + 64) (pre @ fd_struct f @ rest) = ucast (drop_bit 32 (cf_size f))"
    using u32_at_written[of "pre @ le_bytes 4 FD_FLAGS @ replicate 32 0 @ le_bytes 4 attrs @ replicate 24 0"] assms(2) by (simp add: all)
  moreover have "u32_at (offset + 68) (pre @ fd_struct f @ rest) = ucast (cf_size f)"
    using u32_at_written[of "pre @ le_bytes 4 FD_FLAGS @ replicate 32 0 @ le_bytes 4 attrs @ replicate 24 0
        @ le_bytes 4 (ucast (drop_bit 32 (cf_size f)) :: u32)"] assms(2) by (simp add: all)
  moreover have "drop (offset + 72) (pre @ fd_struct f @ rest) = concat (map (le_bytes 2) ?name) @ 0 # 0 # pad"
    using assms(2) name(1) by (simp add: all fd_name_def)
  moreover have "read_units 260 (concat (map (le_bytes 2) ?name) @ 0 # 0 # pad) = ?name"
    by (rule read_units_written) (use name in auto)
  moreover have "attrs AND FILE_ATTRIBUTE_DIRECTORY \<noteq> 0 \<longleftrightarrow> cf_is_dir f"
    by (simp add: attrs_def FILE_ATTRIBUTE_DIRECTORY_def FILE_ATTRIBUTE_NORMAL_def)
  ultimately show ?thesis by (simp add: parse_fd_def recv_of_def name(3) size_halves)
qed

lemma parse_fds_written:
  assumes "\<forall>f\<in>set fs. clip_name_ok (cf_rel_name f)" "length pre = 4 + i * 592" "length fs + i = n"
  shows "parse_fds (pre @ concat (map fd_struct fs)) i n = map recv_of fs"
  using assms
proof (induction fs arbitrary: pre i)
  case Nil
  then show ?case by (simp add: parse_fds.simps Let_def)
next
  case (Cons f fs)
  have "parse_fds ((pre @ fd_struct f) @ concat (map fd_struct fs)) (i + 1) n = map recv_of fs"
    using Cons.prems by (intro Cons.IH) (auto simp: length_fd_struct)
  moreover have "parse_fd (pre @ fd_struct f @ concat (map fd_struct fs)) (4 + i * 592) = recv_of f"
    using Cons.prems by (intro parse_fd_written) auto
  ultimately show ?case
    using Cons.prems by (subst parse_fds.simps) (simp add: Let_def FD_STRUCT_SIZE_def length_fd_struct)
qed

lemma parse_built_descriptor:
  assumes "\<forall>f\<in>set fs. clip_name_ok (cf_rel_name f)" "length fs < 2 ^ 32"
  shows "parse_file_group_descriptor (build_file_group_descriptor fs) = map recv_of fs"
proof -
  let ?n = "of_nat (length fs) :: u32"
  have "u32_at 0 (build_file_group_descriptor fs) = ?n"
    using u32_at_written[of "[]" 0 ?n] by (simp add: build_file_group_descriptor_def)
  moreover have "unat ?n = length fs" using assms(2) by (simp add: unat_of_nat)
  moreover have "parse_fds (le_bytes 4 ?n @ concat (map fd_struct fs)) 0 (length fs) = map recv_of fs"
    using assms(1) by (intro parse_fds_written) auto
  ultimately show ?thesis
    by (simp add: parse_file_group_descriptor_def build_file_group_descriptor_def)
qed

section \<open>Where fetched files go\<close>

definition handle_cliprdr :: "bool \<Rightarrow> clip_env \<Rightarrow> cliprdr \<Rightarrow> clip \<Rightarrow> cliprdr list \<times> clip" where
  "handle_cliprdr host = (if host then handle_cliprdr_host else handle_cliprdr_client)"

definition cliprdr_run :: "bool \<Rightarrow> (clip_env \<times> cliprdr) list \<Rightarrow> clip \<Rightarrow> clip" where
  "cliprdr_run host = fold (\<lambda>(e, msg) c. snd (handle_cliprdr host e msg c))"

text \<open>A path that leads to a place in the new folder: following its parts goes down only, and no part names a drive or a stream.\<close>

definition lands_inside :: "rstr \<Rightarrow> rstr \<Rightarrow> bool" where
  "lands_inside folder path \<longleftrightarrow>
     (\<exists>q. path = folder @ [92] @ q \<and> q \<noteq> [] \<and> 58 \<notin> set q \<and> (\<forall>at. follow at (split_seps q) = at @ split_seps q))"

lemma split_seps_backslashes: "split_seps (backslashes s) = split_seps s"
  by (induction s) (auto simp: backslashes_def is_sep_def)

lemma follow_plain: "list_all (\<lambda>c. c \<noteq> [] \<and> c \<noteq> [46] \<and> c \<noteq> [46, 46]) cs \<Longrightarrow> follow at cs = at @ cs"
  by (induction cs arbitrary: at) auto

lemma safe_component:
  assumes "is_safe_clip_component c"
  shows "c \<noteq> [] \<and> c \<noteq> [46] \<and> c \<noteq> [46, 46] \<and> 58 \<notin> set c \<and> 0 \<notin> set c"
proof -
  have ends: "\<not> (c = [] \<or> hd c = 32 \<or> last c = 32 \<or> last c = 46)"
    using assms unfolding is_safe_clip_component_def by argo
  have "\<not> list_ex (\<lambda>c. c < 32 \<or> c \<in> {60, 62, 58, 34, 124, 63, 42}) c"
    using assms unfolding is_safe_clip_component_def by argo
  then have plain: "\<forall>x\<in>set c. \<not> (x < 32 \<or> x \<in> {60, 62, 58, 34, 124, 63, 42})" unfolding list_ex_iff by blast
  have "58 \<notin> set c" using plain by blast
  moreover have "0 \<notin> set c" using plain by (metis zero_less_numeral)
  ultimately show ?thesis using ends by auto
qed

lemma set_split_seps: "c \<in> set s \<Longrightarrow> \<not> is_sep c \<Longrightarrow> \<exists>part\<in>set (split_seps s). c \<in> set part"
proof (induction s)
  case (Cons d s)
  have s: "split_seps s = hd (split_seps s) # tl (split_seps s)" by (metis list.collapse split_seps_nonempty)
  show ?case
  proof (cases "c = d")
    case True
    then show ?thesis using Cons.prems by auto
  next
    case False
    then obtain part where part: "part \<in> set (split_seps s)" "c \<in> set part" using Cons by auto
    show ?thesis
    proof (cases "part = hd (split_seps s)")
      case True
      then show ?thesis using part by auto
    next
      case False
      then have "part \<in> set (tl (split_seps s))" using part(1) s by (metis set_ConsD)
      then show ?thesis using part by auto
    qed
  qed
qed simp

lemma safe_name_inside:
  assumes "is_safe_clip_name name"
  shows "lands_inside folder (folder @ [92] @ backslashes name)" "lands_inside folder (folder @ [92] @ name)"
proof -
  have parts: "list_all (\<lambda>c. c \<noteq> [] \<and> c \<noteq> [46] \<and> c \<noteq> [46, 46] \<and> 58 \<notin> set c) (split_seps name)"
    using assms safe_component by (auto simp: is_safe_clip_name_def list_all_iff)
  then have down: "follow at (split_seps name) = at @ split_seps name" for at
    by (intro follow_plain) (auto simp: list_all_iff)
  have colon: "58 \<notin> set name"
    using set_split_seps[of 58 name] parts by (auto simp: list_all_iff is_sep_def)
  have "name \<noteq> []" using parts by auto
  moreover have "58 \<notin> set (backslashes name)" "backslashes name \<noteq> []" using colon \<open>name \<noteq> []\<close> by (auto simp: backslashes_def)
  ultimately show "lands_inside folder (folder @ [92] @ backslashes name)" "lands_inside folder (folder @ [92] @ name)"
    using down colon by (auto simp: lands_inside_def split_seps_backslashes)
qed

definition fetched_inside :: "rstr set \<Rightarrow> clip \<Rightarrow> clip \<Rightarrow> bool" where
  "fetched_inside folders c0 c \<longleftrightarrow>
     (\<forall>p. clip_disk c p \<noteq> clip_disk c0 p \<longrightarrow> (\<exists>folder\<in>folders. lands_inside folder p)) \<and>
     (\<forall>p\<in>set (clip_dirs c) - set (clip_dirs c0).
        \<exists>folder\<in>folders. p = folder \<or> p \<in> set (dirs_above folder) \<or> (\<exists>q. lands_inside folder q \<and> (p = q \<or> p \<in> set (dirs_above q)))) \<and>
     (clip_board c \<noteq> clip_board c0 \<longrightarrow> (\<exists>paths. clip_board c = Some paths \<and> (\<forall>p\<in>set paths. \<exists>folder\<in>folders. lands_inside folder p)))"

definition fetch_ok :: "rstr set \<Rightarrow> recv_state \<Rightarrow> bool" where
  "fetch_ok folders st \<longleftrightarrow> rs_temp_dir st \<in> folders \<and> list_all (\<lambda>f. is_safe_clip_name (rf_name f)) (rs_files st)"

definition fetch_inv :: "rstr set \<Rightarrow> clip \<Rightarrow> clip \<Rightarrow> bool" where
  "fetch_inv folders c0 c \<longleftrightarrow> fetched_inside folders c0 c \<and> (case clip_recv c of None \<Rightarrow> True | Some st \<Rightarrow> fetch_ok folders st)"

lemma fetched_inside_same:
  "fetched_inside folders c0 c \<Longrightarrow> clip_disk c' = clip_disk c \<Longrightarrow> clip_dirs c' = clip_dirs c \<Longrightarrow> clip_board c' = clip_board c \<Longrightarrow>
   fetched_inside folders c0 c'"
  by (simp add: fetched_inside_def)

lemma fetched_inside_mono: "fetched_inside F c0 c \<Longrightarrow> F \<subseteq> G \<Longrightarrow> fetched_inside G c0 c"
  unfolding fetched_inside_def by (meson subsetD)

lemma create_dir_fields [simp]:
  "clip_disk (create_dir_all e p c) = clip_disk c" "clip_board (create_dir_all e p c) = clip_board c"
  "clip_recv (create_dir_all e p c) = clip_recv c" "clip_files (create_dir_all e p c) = clip_files c"
  by (simp_all add: create_dir_all_def)

lemma dirs_above_parent:
  assumes "x \<in> set (dirs_above (parent_dir q)) \<or> x = parent_dir q" "\<exists>c\<in>set q. is_sep c"
  shows "x \<in> set (dirs_above q)"
proof -
  obtain u s v where q: "q = u @ s # v" and s: "is_sep s" and v: "\<forall>c\<in>set v. \<not> is_sep c"
    using split_list_last_prop[of q is_sep] assms(2) by blast
  have "dropWhile (\<lambda>c. \<not> is_sep c) (rev v @ s # rev u) = s # rev u" using s v by (subst dropWhile_append2) auto
  then have p: "parent_dir q = u" by (simp add: parent_dir_def q)
  have "take (length u) q = u" "length u < length q" "q ! length u = s" by (simp_all add: q nth_append)
  then show ?thesis
  proof (cases "x = u")
    case True
    then show ?thesis using s q by (auto simp: dirs_above_def intro!: image_eqI[of _ _ "length u"])
  next
    case False
    then obtain j where j: "j < length u" "is_sep (u ! j)" "x = take j u" using assms(1) p by (auto simp: dirs_above_def)
    then have "take j q = x" "q ! j = u ! j" "j < length q" by (simp_all add: q nth_append)
    then show ?thesis using j(2) by (auto simp: dirs_above_def intro!: image_eqI[of _ _ j])
  qed
qed

lemma create_dir_inside:
  assumes "fetched_inside F c0 c" "folder \<in> F"
    and "p = folder \<or> (\<exists>q. lands_inside folder q \<and> (p = q \<or> p = parent_dir q))"
  shows "fetched_inside F c0 (create_dir_all e p c)"
proof -
  have "\<exists>folder\<in>F. x = folder \<or> x \<in> set (dirs_above folder) \<or> (\<exists>q. lands_inside folder q \<and> (x = q \<or> x \<in> set (dirs_above q)))"
    if "x = p \<or> x \<in> set (dirs_above p)" for x
  proof -
    consider "p = folder" | q where "lands_inside folder q" "p = q" | q where "lands_inside folder q" "p = parent_dir q"
      using assms(3) by blast
    then show ?thesis
    proof cases
      case 3
      then have "\<exists>c\<in>set q. is_sep c" by (auto simp: lands_inside_def is_sep_def)
      then have "x \<in> set (dirs_above q)" using dirs_above_parent that 3 by blast
      then show ?thesis using 3 assms(2) by blast
    qed (use that assms(2) in blast)+
  qed
  then show ?thesis using assms(1) by (auto simp: fetched_inside_def create_dir_all_def)
qed

lemma write_inside:
  assumes "fetched_inside F c0 c" "folder \<in> F" "lands_inside folder p"
  shows "fetched_inside F c0 (snd (fs_write e p data c))" "fetched_inside F c0 (snd (fs_append e p data c))"
  using assms by (auto simp: fetched_inside_def fs_write_def fs_append_def split: io_fault.split option.split)

lemma write_fields [simp]:
  "clip_recv (snd (fs_write e p data c)) = clip_recv c" "clip_recv (snd (fs_append e p data c)) = clip_recv c"
  by (auto simp: fs_write_def fs_append_def split: io_fault.split option.split)

lemma finalize_inside:
  assumes "fetched_inside F c0 c" "fetch_ok F st"
  shows "fetched_inside F c0 (finalize_received_files e st c)"
proof -
  let ?paths = "map (\<lambda>f. rs_temp_dir st @ [92] @ rf_name f) (filter (\<lambda>f. 92 \<notin> set (rf_name f)) (rs_files st))"
  have "\<forall>p\<in>set ?paths. \<exists>folder\<in>F. lands_inside folder p"
  proof
    fix p assume "p \<in> set ?paths"
    then obtain f where "f \<in> set (rs_files st)" "p = rs_temp_dir st @ [92] @ rf_name f" by auto
    then have "lands_inside (rs_temp_dir st) p" using assms(2) safe_name_inside(2) by (simp add: fetch_ok_def list_all_iff)
    then show "\<exists>folder\<in>F. lands_inside folder p" using assms(2) by (auto simp: fetch_ok_def)
  qed
  then show ?thesis
    using assms(1) by (simp add: finalize_received_files_def set_clipboard_files_def Let_def fetched_inside_def)
qed

lemma finalize_fields [simp]: "clip_recv (finalize_received_files e st c) = clip_recv c"
  by (simp add: finalize_received_files_def set_clipboard_files_def Let_def)

lemma advance_inside:
  assumes "fetched_inside F c0 c" "fetch_ok F st"
  shows "fetch_inv F c0 (snd (advance_to_next_file e st c))"
  using assms finalize_inside[of F c0 "c\<lparr>clip_recv := Some st\<rparr>" st e]
  by (auto simp: advance_to_next_file_def fetch_inv_def fetch_ok_def fetched_inside_same[OF assms(1)] split: option.split)

lemma format_data_inv:
  assumes "fetch_inv F c0 c" "clip_temp_dir e \<in> F"
  shows "fetch_inv F c0 (snd (handle_format_data_response e flags data c))"
proof (cases "flags \<noteq> 1 \<or> data = [] \<or> parse_file_group_descriptor data = []
    \<or> \<not> list_all (\<lambda>f. is_safe_clip_name (rf_name f)) (parse_file_group_descriptor data)")
  case True
  then show ?thesis using assms(1) by (auto simp: handle_format_data_response_def Let_def)
next
  case False
  let ?fs = "parse_file_group_descriptor data" and ?t = "clip_temp_dir e"
  have safe: "\<forall>f\<in>set ?fs. is_safe_clip_name (rf_name f)" using False by (simp add: list_all_iff)
  let ?c = "fold (\<lambda>f. create_dir_all e (recv_path ?t f)) (filter rf_is_dir ?fs) (create_dir_all e ?t c)"
  have start: "fetched_inside F c0 (create_dir_all e ?t c)"
    using assms by (intro create_dir_inside[of F c0 c ?t]) (auto simp: fetch_inv_def)
  have "fetched_inside F c0 (fold (\<lambda>f. create_dir_all e (recv_path ?t f)) gs d)" if "set gs \<subseteq> set ?fs" "fetched_inside F c0 d" for gs d
    using that
  proof (induction gs arbitrary: d)
    case (Cons g gs)
    have "lands_inside ?t (recv_path ?t g)" using Cons.prems(1) safe safe_name_inside(1) by (simp add: recv_path_def)
    then have "fetched_inside F c0 (create_dir_all e (recv_path ?t g) d)"
      using Cons.prems(2) assms(2) by (intro create_dir_inside) auto
    then show ?case using Cons by simp
  qed simp
  then have dirs: "fetched_inside F c0 ?c" using start by (metis (no_types, lifting) filter_is_subset)
  define st where "st = \<lparr>rs_files = ?fs, rs_current_index = (case next_file ?fs 0 of Some i \<Rightarrow> i | None \<Rightarrow> 0), rs_current_offset = 0,
      rs_temp_dir = ?t, rs_waiting_size = True\<rparr>"
  have st: "fetch_ok F st" using safe assms(2) by (simp add: fetch_ok_def st_def list_all_iff)
  have "snd (handle_format_data_response e flags data c) =
      (case next_file ?fs 0 of Some idx \<Rightarrow> ?c\<lparr>clip_recv := Some st\<rparr> | None \<Rightarrow> (finalize_received_files e st ?c)\<lparr>clip_recv := None\<rparr>)"
    using False by (simp add: handle_format_data_response_def Let_def st_def split: option.split)
  then show ?thesis
    using st fetched_inside_same[OF dirs, of "?c\<lparr>clip_recv := Some st\<rparr>"]
      fetched_inside_same[OF finalize_inside[OF dirs st, of e], of "(finalize_received_files e st ?c)\<lparr>clip_recv := None\<rparr>"]
    by (simp add: fetch_inv_def split: option.split)
qed

lemma size_received_inv:
  assumes "fetched_inside F c0 c" "fetch_ok F st" "rs_current_index st < length (rs_files st)"
  shows "fetch_inv F c0 (snd (size_received e st data c))"
proof -
  define got where "got = (rs_files st ! rs_current_index st)\<lparr>rf_size :=
      (if 8 \<le> length data then push_bit 32 (ucast (u32_at 4 data)) OR ucast (u32_at 0 data) else rf_size (rs_files st ! rs_current_index st))\<rparr>"
  define st' where "st' = st\<lparr>rs_files := (rs_files st)[rs_current_index st := got], rs_waiting_size := False, rs_current_offset := 0\<rparr>"
  have name: "is_safe_clip_name (rf_name got)" using assms(2,3) by (simp add: fetch_ok_def got_def list_all_length)
  then have st': "fetch_ok F st'"
    using assms(2) set_update_subset_insert[of "rs_files st" "rs_current_index st" got] by (auto simp: fetch_ok_def st'_def list_all_iff)
  have "lands_inside (rs_temp_dir st') (recv_path (rs_temp_dir st') got)" using safe_name_inside(1)[OF name] by (simp add: recv_path_def)
  then have w: "fetched_inside F c0 (snd (fs_write e (recv_path (rs_temp_dir st') got) [] c))"
    using st' by (intro write_inside(1)[OF assms(1)]) (auto simp: fetch_ok_def)
  have "snd (size_received e st data c) = (if rf_size got = 0 \<or> rf_is_dir got
      then snd (advance_to_next_file e st' (if rf_is_dir got then c else snd (fs_write e (recv_path (rs_temp_dir st') got) [] c)))
      else c\<lparr>clip_recv := Some st'\<rparr>)"
    unfolding size_received_def by (simp add: got_def[symmetric] st'_def[symmetric] Let_def) (simp add: got_def)
  then show ?thesis
    using advance_inside[OF assms(1) st', of e] advance_inside[OF w st', of e] st' fetched_inside_same[OF assms(1), of "c\<lparr>clip_recv := Some st'\<rparr>"]
    by (simp add: fetch_inv_def)
qed

lemma range_received_inv:
  assumes "fetched_inside F c0 c" "fetch_ok F st" "rs_current_index st < length (rs_files st)"
  shows "fetch_inv F c0 (snd (range_received e st data c))"
proof -
  let ?file = "rs_files st ! rs_current_index st" and ?t = "rs_temp_dir st"
  let ?p = "recv_path ?t ?file"
  have t: "?t \<in> F" and inside: "lands_inside ?t ?p"
    using assms(2,3) safe_name_inside(1) by (simp_all add: fetch_ok_def recv_path_def list_all_length)
  let ?c1 = "create_dir_all e (parent_dir ?p) c"
  have c1: "fetched_inside F c0 ?c1" using assms(1) t inside by (intro create_dir_inside) auto
  define r where "r = (if rs_current_offset st = 0 then fs_write e ?p data ?c1 else fs_append e ?p data ?c1)"
  have c2: "fetched_inside F c0 (snd r)" unfolding r_def using write_inside[OF c1 t inside] by simp
  have st': "fetch_ok F (st\<lparr>rs_current_offset := offset\<rparr>)" for offset using assms(2) by (simp add: fetch_ok_def)
  have "fetch_inv F c0 ((snd r)\<lparr>clip_recv := Some (st\<lparr>rs_current_offset := offset\<rparr>)\<rparr>)" for offset
    using st' fetched_inside_same[OF c2, of "(snd r)\<lparr>clip_recv := Some (st\<lparr>rs_current_offset := offset\<rparr>)\<rparr>"] by (simp add: fetch_inv_def)
  then show ?thesis
    using advance_inside[OF c2 assms(2), of e] advance_inside[OF c2 st', of e]
    by (simp add: range_received_def Let_def r_def[symmetric] case_prod_beta)
qed

lemma contents_response_inv:
  assumes "fetch_inv F c0 c"
  shows "fetch_inv F c0 (snd (handle_file_contents_response e flags data c))"
proof (cases "clip_recv c")
  case None
  then show ?thesis using assms by (simp add: handle_file_contents_response_def)
next
  case (Some st)
  then have c: "fetched_inside F c0 c" "fetch_ok F st" using assms by (simp_all add: fetch_inv_def)
  have gone: "fetched_inside F c0 (c\<lparr>clip_recv := None\<rparr>)" by (rule fetched_inside_same[OF c(1)]) simp_all
  show ?thesis
    using Some advance_inside[OF c, of e] size_received_inv[OF c, of e data] range_received_inv[OF c, of e data] finalize_inside[OF gone c(2), of e]
    by (simp add: handle_file_contents_response_def fetch_inv_def)
qed

lemma handle_inv:
  assumes "fetch_inv F c0 c" "clip_temp_dir e \<in> F"
  shows "fetch_inv F c0 (snd (handle_cliprdr host e msg c))"
proof -
  have same: "fetch_inv F c0 (c\<lparr>clip_served_requests := n\<rparr>)" "fetch_inv F c0 (c\<lparr>clip_served_requests := n, clip_served_bytes := m\<rparr>)" for n m
    using assms(1) by (auto simp: fetch_inv_def fetched_inside_def)
  have "fetch_inv F c0 (snd (handle_file_contents_request e req c))" for req
    using same by (auto simp: handle_file_contents_request_def Let_def split: option.split)
  moreover have "fetch_inv F c0 (snd (handle_format_data_request_host i c))" for i
    using same by (simp add: handle_format_data_request_host_def)
  ultimately show ?thesis
    using assms format_data_inv contents_response_inv
    by (simp add: handle_cliprdr_def handle_cliprdr_host_def handle_cliprdr_client_def split: cliprdr.split)
qed

lemma cliprdr_run_inv: "fetch_inv F c0 c \<Longrightarrow> \<forall>(e, msg)\<in>set msgs. clip_temp_dir e \<in> F \<Longrightarrow> fetch_inv F c0 (cliprdr_run host msgs c)"
  by (induction msgs arbitrary: c) (auto simp: cliprdr_run_def handle_inv)

section \<open>Serving\<close>

lemma unat_min: "unat (min a b) = min (unat a) (unat b)"
  by (simp add: min_def word_le_nat_alt)

lemma unat_saturating_sub: "unat (saturating_sub a b) = unat a - unat b"
  by (auto simp: saturating_sub_def word_le_nat_alt unat_sub)

definition served_range :: "contents_request \<Rightarrow> u64 \<Rightarrow> u64" where
  "served_range req whole = min (min (ucast (cr_cb_requested req)) (saturating_sub whole (request_position req))) MAX_SERVED_RANGE"

lemma served_range_bounds:
  "unat (served_range req whole) \<le> 256 * 1024" "unat (served_range req whole) \<le> unat whole - unat (request_position req)"
  "\<not> served_range req whole > MAX_FILECONTENTS_RANGE"
proof -
  show b: "unat (served_range req whole) \<le> 256 * 1024" "unat (served_range req whole) \<le> unat whole - unat (request_position req)"
    by (simp_all add: served_range_def unat_min unat_saturating_sub MAX_SERVED_RANGE_def)
  show "\<not> served_range req whole > MAX_FILECONTENTS_RANGE"
    using b(1) by (simp add: word_less_nat_alt MAX_FILECONTENTS_RANGE_def)
qed

end
