(* ===== verification/Clip_Paste.thy ===== *)
theory Clip_Paste
  imports Clip_Files Word_Nat
begin

text \<open>
  Both ends of the file clipboard together: a viewer that announced files and a host that fetches them. Every request is answered before
  the next is sent; reads may be as short as a byte.
\<close>

section \<open>A paste, both ends\<close>

text \<open>One step of a paste: the fetching host's first message is answered by the viewer that serves, and the host handles the answers.\<close>

definition paste_step :: "clip_env \<Rightarrow> clip_env \<Rightarrow> cliprdr list \<times> clip \<times> clip \<Rightarrow> cliprdr list \<times> clip \<times> clip" where
  "paste_step es er st =
     (case st of ([], s, r) \<Rightarrow> ([], s, r)
      | (msg # queue, s, r) \<Rightarrow>
          let (answers, s') = handle_cliprdr_client es msg s;
              (outs, r') = fold (\<lambda>a (outs, r). let (out', r') = handle_cliprdr_host er a r in (outs @ out', r')) answers ([], r)
          in (queue @ outs, s', r'))"

primrec paste_run :: "(nat \<Rightarrow> clip_env) \<Rightarrow> (nat \<Rightarrow> clip_env) \<Rightarrow> nat \<Rightarrow> cliprdr list \<times> clip \<times> clip \<Rightarrow> cliprdr list \<times> clip \<times> clip" where
  "paste_run es er 0 st = st"
| "paste_run es er (Suc n) st = paste_step (es n) (er n) (paste_run es er n st)"

definition good_envs :: "(nat \<Rightarrow> clip_env) \<Rightarrow> (nat \<Rightarrow> clip_env) \<Rightarrow> bool" where
  "good_envs es er \<longleftrightarrow>
     (\<forall>i. ce_fault (es i) = (\<lambda>_. NoFault) \<and> 0 < ce_read (es i) \<and> ce_fault (er i) = (\<lambda>_. NoFault) \<and> ce_clipboard_ok (er i))"

text \<open>What the serving side must have: the list it announced, up to date.\<close>

definition serves :: "clip_file list \<Rightarrow> disk \<Rightarrow> clip \<Rightarrow> bool" where
  "serves fs d s \<longleftrightarrow> clip_files s = fs \<and> clip_disk s = d"

definition listing_current :: "clip_file list \<Rightarrow> disk \<Rightarrow> bool" where
  "listing_current fs d \<longleftrightarrow> length fs < 2 ^ 31 \<and>
     (\<forall>f\<in>set fs. \<not> cf_is_dir f \<longrightarrow>
        (\<exists>content. d (cf_path f) = Some content \<and> unat (cf_size f) = length content \<and> length content < 2 ^ 63))"

lemma request_position_make:
  "request_position \<lparr>cr_stream_id = a, cr_list_index = b, cr_dw_flags = k, cr_n_position_low = ucast off,
     cr_n_position_high = ucast (drop_bit 32 off), cr_cb_requested = n\<rparr> = off"
proof (rule bit_word_eqI)
  fix i assume i: "i < LENGTH(64)"
  have m: "(0xFFFFFFFF :: u64) = mask 32" by (simp add: mask_eq_exp_minus_1)
  have "32 + (i - 32) = i" if "32 \<le> i" using that by simp
  then show "bit (request_position \<lparr>cr_stream_id = a, cr_list_index = b, cr_dw_flags = k, cr_n_position_low = ucast off,
     cr_n_position_high = ucast (drop_bit 32 off), cr_cb_requested = n\<rparr>) i = bit off i"
    using i by (cases "i = 31"; cases "i = 63"; cases "i < 32") (auto simp: request_position_def m bit_simps min_def)
qed

definition range_request :: "nat \<Rightarrow> nat \<Rightarrow> u64 \<Rightarrow> cliprdr" where
  "range_request idx k whole =
     make_file_contents_request_full (of_nat idx) FILECONTENTS_RANGE (ucast (of_nat k :: u64)) (ucast (drop_bit 32 (of_nat k :: u64)))
       (ucast (min (whole - of_nat k) MAX_FETCHED_RANGE))"

definition fetching :: "clip_file list \<Rightarrow> rstr \<Rightarrow> nat \<Rightarrow> nat \<Rightarrow> bool \<Rightarrow> recv_state" where
  "fetching fs folder idx k waiting =
     \<lparr>rs_files = map recv_of fs, rs_current_index = idx, rs_current_offset = of_nat k, rs_temp_dir = folder, rs_waiting_size = waiting\<rparr>"

lemma serve_size:
  assumes "serves fs d s" "idx < length fs" "length fs < 2 ^ 31"
  shows "\<exists>s'. handle_cliprdr_client e (request_size idx) s =
      ([FileContentsResponse 1 (of_nat idx)
          (le_bytes 4 (ucast (cf_size (fs ! idx)) :: u32) @ le_bytes 4 (ucast (drop_bit 32 (cf_size (fs ! idx))) :: u32))], s') \<and> serves fs d s'"
proof -
  have "unat (of_nat idx :: i32) = idx" using assms by (simp add: unat_of_nat)
  then show ?thesis
    using assms by (simp add: handle_cliprdr_client_def request_size_def make_file_contents_request_def make_file_contents_request_full_def
        handle_file_contents_request_def Let_def serves_def)
qed

lemma serve_range:
  assumes "serves fs d s" "idx < length fs" "length fs < 2 ^ 31" "\<not> cf_is_dir (fs ! idx)" "d (cf_path (fs ! idx)) = Some content"
    and "unat (cf_size (fs ! idx)) = length content" "length content < 2 ^ 63" "k < length content"
    and "ce_fault e = (\<lambda>_. NoFault)" "0 < ce_read e"
  shows "\<exists>n s'. 0 < n \<and> k + n \<le> length content \<and> serves fs d s' \<and>
    handle_cliprdr_client e (range_request idx k (cf_size (fs ! idx))) s = ([FileContentsResponse 1 (of_nat idx) (take n (drop k content))], s')"
proof -
  let ?f = "fs ! idx" and ?k = "of_nat k :: u64"
  have idx: "unat (of_nat idx :: i32) = idx" using assms(2,3) by (simp add: unat_of_nat)
  have k: "unat ?k = k" using assms(7,8) by (simp add: unat_of_nat)
  define req where "req = \<lparr>cr_stream_id = of_nat idx, cr_list_index = of_nat idx, cr_dw_flags = FILECONTENTS_RANGE, cr_n_position_low = ucast ?k,
      cr_n_position_high = ucast (drop_bit 32 ?k), cr_cb_requested = ucast (min (cf_size ?f - ?k) MAX_FETCHED_RANGE)\<rparr>"
  have pos: "request_position req = ?k" by (simp add: req_def request_position_make)
  have fl: "cr_list_index req = of_nat idx" "cr_stream_id req = of_nat idx" "cr_dw_flags req = 2" by (simp_all add: req_def FILECONTENTS_RANGE_def)
  have cb: "cr_cb_requested req = ucast (min (cf_size ?f - ?k) MAX_FETCHED_RANGE)" by (simp add: req_def)
  have sub: "unat (cf_size ?f - ?k) = length content - k"
    using assms(6,8) k by (simp add: unat_sub word_le_nat_alt)
  have "unat (ucast (ucast (min (cf_size ?f - ?k) MAX_FETCHED_RANGE) :: i32) :: u64) = min (length content - k) (4 * 1024 * 1024)"
    by (simp add: unat_ucast_mod unat_min sub MAX_FETCHED_RANGE_def)
  then have n: "unat (served_range req (cf_size ?f)) = min (length content - k) (256 * 1024)"
    by (simp add: served_range_def unat_min unat_saturating_sub pos k assms(6) MAX_SERVED_RANGE_def cb)
  define n where "n = min (unat (served_range req (cf_size ?f))) (ce_read e)"
  have pos_n: "0 < n" "k + n \<le> length content" using n assms(8,10) by (auto simp: n_def)
  let ?s = "s\<lparr>clip_served_requests := clip_served_requests s + 1\<rparr>"
  have chunk: "read_file_chunk e ?s (cf_path ?f) (request_position req) (unat (served_range req (cf_size ?f))) = Some (take n (drop k content))"
    using assms by (simp add: read_file_chunk_def pos k n_def serves_def)
  have ne: "take n (drop k content) \<noteq> []" using pos_n by simp
  have m: "range_request idx k (cf_size ?f) = FileContentsRequest req"
    by (simp add: range_request_def make_file_contents_request_full_def req_def)
  have "handle_file_contents_request e req s = ([FileContentsResponse 1 (of_nat idx) (take n (drop k content))],
      ?s\<lparr>clip_served_bytes := clip_served_bytes ?s + of_nat (length (take n (drop k content)))\<rparr>)"
    using assms(1,2,4) chunk ne idx served_range_bounds(3)[of req "cf_size ?f"]
    by (simp add: handle_file_contents_request_def Let_def served_range_def[symmetric] serves_def fl FILECONTENTS_SIZE_def FILECONTENTS_RANGE_def)
  then show ?thesis
    using pos_n assms(1) by (intro exI[of _ n]) (simp add: m handle_cliprdr_client_def serves_def)
qed

text \<open>Where a file goes.\<close>

definition dest :: "rstr \<Rightarrow> clip_file \<Rightarrow> rstr" where
  "dest folder f = folder @ [92] @ cf_rel_name f"

text \<open>The folders: the new one, those of the list, and none at the place of a file.\<close>

definition room :: "clip_file list \<Rightarrow> rstr \<Rightarrow> clip \<Rightarrow> bool" where
  "room fs folder r \<longleftrightarrow>
     folder \<in> set (clip_dirs r) \<and>
     (\<forall>f\<in>set fs. if cf_is_dir f then dest folder f \<in> set (clip_dirs r)
                 else dest folder f \<notin> set (clip_dirs r))"

definition ancestors_listed :: "clip_file list \<Rightarrow> bool" where
  "ancestors_listed fs \<longleftrightarrow>
     (\<forall>f\<in>set fs. \<forall>a\<in>set (dirs_above (cf_rel_name f)). \<exists>g\<in>set fs. cf_is_dir g \<and> cf_rel_name g = a)"

definition paste_ok :: "clip_file list \<Rightarrow> bool" where
  "paste_ok fs \<longleftrightarrow> distinct (map cf_rel_name fs) \<and> ancestors_listed fs \<and>
     (\<forall>f\<in>set fs. is_safe_clip_name (cf_rel_name f) \<and> list_all is_scalar (cf_rel_name f) \<and> 47 \<notin> set (cf_rel_name f))"

lemma dirs_above_iff: "u \<in> set (dirs_above p) \<longleftrightarrow> (\<exists>c v. p = u @ c # v \<and> is_sep c)"
proof
  assume "u \<in> set (dirs_above p)"
  then obtain i where "i < length p" "is_sep (p ! i)" "u = take i p" by (auto simp: dirs_above_def)
  then show "\<exists>c v. p = u @ c # v \<and> is_sep c" by (metis id_take_nth_drop)
next
  assume "\<exists>c v. p = u @ c # v \<and> is_sep c"
  then obtain c v where "p = u @ c # v" "is_sep c" by blast
  then show "u \<in> set (dirs_above p)" by (auto simp: dirs_above_def intro!: image_eqI[of _ _ "length u"])
qed

lemma dirs_above_append: "set (dirs_above (t @ [92] @ n)) = set (dirs_above t) \<union> {t} \<union> (\<lambda>a. t @ [92] @ a) ` set (dirs_above n)"
proof (rule set_eqI)
  fix x
  have "(\<exists>c v. t @ 92 # n = x @ c # v \<and> is_sep c) \<longleftrightarrow>
      (\<exists>c v. t = x @ c # v \<and> is_sep c) \<or> x = t \<or> (\<exists>a. x = t @ 92 # a \<and> (\<exists>c v. n = a @ c # v \<and> is_sep c))"
    (is "?l \<longleftrightarrow> ?r")
  proof
    show "?l \<Longrightarrow> ?r" by (auto simp: append_eq_append_conv2 append_eq_Cons_conv Cons_eq_append_conv is_sep_def)
    have "\<exists>c v. t @ 92 # n = t @ c # v \<and> is_sep c" by (simp add: is_sep_def)
    then show "?r \<Longrightarrow> ?l" by force
  qed
  then show "x \<in> set (dirs_above (t @ [92] @ n)) \<longleftrightarrow> x \<in> set (dirs_above t) \<union> {t} \<union> (\<lambda>a. t @ [92] @ a) ` set (dirs_above n)"
    by (auto simp: dirs_above_iff image_iff)
qed

lemma backslashes_id: "47 \<notin> set n \<Longrightarrow> backslashes n = n"
  unfolding backslashes_def by (rule map_idI) auto

lemma recv_path_of: "47 \<notin> set (cf_rel_name f) \<Longrightarrow> recv_path folder (recv_of f) = dest folder f"
  by (simp add: dest_def recv_path_def recv_of_def backslashes_id)

lemma parent_above: "\<exists>c\<in>set q. is_sep c \<Longrightarrow> parent_dir q \<in> set (dirs_above q)"
  using dirs_above_parent by blast

lemma parent_of_dest:
  "parent_dir (t @ [92] @ n) = t \<or> (\<exists>a\<in>set (dirs_above n). parent_dir (t @ [92] @ n) = t @ [92] @ a)"
proof (cases "\<exists>c\<in>set n. is_sep c")
  case True
  then obtain u s v where n: "n = u @ s # v" "is_sep s" "\<forall>c\<in>set v. \<not> is_sep c"
    using split_list_last_prop[of n is_sep] by blast
  have "dropWhile (\<lambda>c. \<not> is_sep c) (rev v @ rest) = dropWhile (\<lambda>c. \<not> is_sep c) rest" for rest
    using n(3) by (intro dropWhile_append2) auto
  then have "parent_dir (t @ [92] @ n) = t @ [92] @ u" "parent_dir n = u" by (simp_all add: parent_dir_def n)
  then show ?thesis using parent_above[of n] True by auto
next
  case False
  have "dropWhile (\<lambda>c. \<not> is_sep c) (rev n @ 92 # rev t) = dropWhile (\<lambda>c. \<not> is_sep c) (92 # rev t)"
    using False by (intro dropWhile_append2) auto
  then show ?thesis by (simp add: parent_dir_def is_sep_def)
qed

lemma room_parent:
  assumes "room fs t r" "ancestors_listed fs" "f \<in> set fs"
  shows "parent_dir (dest t f) \<in> set (clip_dirs r)"
  using parent_of_dest[of t "cf_rel_name f"] assms by (fastforce simp: dest_def room_def ancestors_listed_def)

lemma not_above_itself: "x \<in> set (dirs_above p) \<Longrightarrow> length x < length p"
  by (auto simp: dirs_above_def)

lemma above_not_file:
  assumes "ancestors_listed fs" "distinct (map cf_rel_name fs)" "p = t \<or> (\<exists>g\<in>set fs. cf_is_dir g \<and> p = dest t g)"
    and x: "x = p \<or> x \<in> set (dirs_above p)" and f: "f \<in> set fs" "\<not> cf_is_dir f"
  shows "x \<noteq> dest t f"
proof
  assume eq: "x = dest t f"
  then have long: "length t < length x" by (simp add: dest_def)
  have up: "x \<notin> set (dirs_above t)" "x \<noteq> t" using long not_above_itself[of x t] by auto
  then obtain g where g: "g \<in> set fs" "cf_is_dir g" "p = dest t g"
    using assms(3) x by auto
  have "x = p \<or> (\<exists>a\<in>set (dirs_above (cf_rel_name g)). x = t @ [92] @ a)"
    using x up unfolding g(3) dest_def dirs_above_append by auto
  then obtain h where "h \<in> set fs" "cf_is_dir h" "cf_rel_name h = cf_rel_name f"
    using eq g assms(1) unfolding ancestors_listed_def dest_def by auto
  then show False using f assms(2) by (metis distinct_map inj_onD)
qed

text \<open>Making a folder that is the new one or one of the list keeps the room.\<close>

lemma room_create:
  assumes "room fs t r" "ancestors_listed fs" "distinct (map cf_rel_name fs)" "p = t \<or> (\<exists>g\<in>set fs. cf_is_dir g \<and> p = dest t g)"
  shows "room fs t (create_dir_all e p r)"
  using assms(1) above_not_file[OF assms(2-4)] by (auto simp: room_def create_dir_all_def)

lemma room_same: "clip_dirs r' = clip_dirs r \<Longrightarrow> room fs t r' = room fs t r"
  by (simp add: room_def)

lemma paste_step_one:
  assumes "handle_cliprdr_client es m s = ([a], s')" "handle_cliprdr_host er a r = (outs, r')"
  shows "paste_step es er ([m], s, r) = (outs, s', r')"
  using assms by (simp add: paste_step_def)

text \<open>What one file's transfer does to the host: its content is on the disk, the folders are there, the clipboard is as before.\<close>

definition fetched_file :: "clip_file list \<Rightarrow> rstr \<Rightarrow> clip_file \<Rightarrow> bytes \<Rightarrow> clip \<Rightarrow> clip \<Rightarrow> bool" where
  "fetched_file fs t f content r r' \<longleftrightarrow>
     clip_disk r' = (clip_disk r)(dest t f \<mapsto> content) \<and> room fs t r' \<and> clip_board r' = clip_board r"

lemma recv_size:
  assumes "clip_recv r = Some (fetching fs t idx 0 True)" "idx < length fs" "\<not> cf_is_dir (fs ! idx)" "47 \<notin> set (cf_rel_name (fs ! idx))"
    and "room fs t r" "ancestors_listed fs" "ce_fault e = (\<lambda>_. NoFault)"
  shows "handle_cliprdr_host e (FileContentsResponse 1 i
        (le_bytes 4 (ucast (cf_size (fs ! idx)) :: u32) @ le_bytes 4 (ucast (drop_bit 32 (cf_size (fs ! idx))) :: u32))) r =
      (if cf_size (fs ! idx) = 0
       then advance_to_next_file e (fetching fs t idx 0 False) (r\<lparr>clip_disk := (clip_disk r)(dest t (fs ! idx) \<mapsto> [])\<rparr>)
       else ([range_request idx 0 (cf_size (fs ! idx))], r\<lparr>clip_recv := Some (fetching fs t idx 0 False)\<rparr>))"
proof -
  let ?f = "fs ! idx" and ?lo = "ucast (cf_size (fs ! idx)) :: u32" and ?hi = "ucast (drop_bit 32 (cf_size (fs ! idx))) :: u32"
  have lo: "u32_at 0 (le_bytes 4 ?lo @ le_bytes 4 ?hi) = ?lo" and hi: "u32_at 4 (le_bytes 4 ?lo @ le_bytes 4 ?hi) = ?hi"
    using u32_at_written[of "[]" 0 ?lo] u32_at_written[of "le_bytes 4 ?lo" 4 ?hi "[]"] by simp_all
  have keep: "(map recv_of fs)[idx := (map recv_of fs ! idx)\<lparr>rf_size := cf_size ?f\<rparr>] = map recv_of fs"
    using assms(2) by (intro list_update_same_conv[THEN iffD2]) (simp_all add: recv_of_def)
  have place_of: "recv_path t (recv_of ?f) = dest t ?f" by (rule recv_path_of) (rule assms(4))
  have "fs_write e (dest t ?f) [] r = (True, r\<lparr>clip_disk := (clip_disk r)(dest t ?f \<mapsto> [])\<rparr>)"
    using room_parent[OF assms(5,6), of ?f] assms(2,3,5,7) by (simp add: fs_write_def room_def)
  then have wrote: "snd (fs_write e (recv_path t (recv_of ?f)) [] r) = r\<lparr>clip_disk := (clip_disk r)(dest t ?f \<mapsto> [])\<rparr>"
    by (simp add: place_of)
  have f: "(recv_of ?f)\<lparr>rf_size := cf_size ?f\<rparr> = recv_of ?f" "rf_is_dir (recv_of ?f) = False"
    "cf_size ?f = 0 \<Longrightarrow> (recv_of ?f)\<lparr>rf_size := 0\<rparr> = recv_of ?f" "(map recv_of fs)[idx := recv_of ?f] = map recv_of fs"
    using assms(2,3) keep by (simp_all add: recv_of_def)
  have "size_received e (fetching fs t idx 0 True) (le_bytes 4 ?lo @ le_bytes 4 ?hi) r =
      (if cf_size ?f = 0
       then advance_to_next_file e (fetching fs t idx 0 False) (r\<lparr>clip_disk := (clip_disk r)(dest t ?f \<mapsto> [])\<rparr>)
       else ([range_request idx 0 (cf_size ?f)], r\<lparr>clip_recv := Some (fetching fs t idx 0 False)\<rparr>))"
    using assms(2) keep wrote f
    by (simp add: size_received_def fetching_def Let_def lo hi size_halves range_request_def make_file_contents_request_def)
  moreover have "handle_cliprdr_host e (FileContentsResponse 1 i data) r = size_received e (fetching fs t idx 0 True) data r" for data
    using assms(1,2) by (simp add: handle_cliprdr_host_def handle_file_contents_response_def) (simp add: fetching_def)
  ultimately show ?thesis by simp
qed

lemma range_received_written:
  assumes "file_path = recv_path (rs_temp_dir st) (rs_files st ! rs_current_index st)"
    and "(if rs_current_offset st = 0 then fs_write e file_path data (create_dir_all e (parent_dir file_path) c)
          else fs_append e file_path data (create_dir_all e (parent_dir file_path) c)) = (True, c2)"
  shows "range_received e st data c =
    (let idx = rs_current_index st; whole = rf_size (rs_files st ! idx); offset = rs_current_offset st + of_nat (length data)
     in if offset \<ge> whole then advance_to_next_file e (st\<lparr>rs_current_offset := offset\<rparr>) c2
        else ([make_file_contents_request_full (of_nat idx) FILECONTENTS_RANGE (ucast offset) (ucast (drop_bit 32 offset))
                 (ucast (min (whole - offset) MAX_FETCHED_RANGE))], c2\<lparr>clip_recv := Some (st\<lparr>rs_current_offset := offset\<rparr>)\<rparr>))"
  using assms(2) unfolding range_received_def Let_def assms(1)[symmetric] by simp

lemma fetching_fields:
  "rs_files (fetching fs t idx k w) = map recv_of fs" "rs_current_index (fetching fs t idx k w) = idx"
  "rs_current_offset (fetching fs t idx k w) = of_nat k" "rs_temp_dir (fetching fs t idx k w) = t"
  "(fetching fs t idx k w)\<lparr>rs_current_offset := of_nat m\<rparr> = fetching fs t idx m w" "rs_waiting_size (fetching fs t idx k w) = w"
  by (simp_all add: fetching_def)

lemma recv_range:
  assumes "clip_recv r = Some (fetching fs t idx k False)" "idx < length fs" "\<not> cf_is_dir (fs ! idx)" "47 \<notin> set (cf_rel_name (fs ! idx))"
    and "room fs t r" "ancestors_listed fs" "distinct (map cf_rel_name fs)" "ce_fault e = (\<lambda>_. NoFault)"
    and "unat (cf_size (fs ! idx)) = length content" "length content < 2 ^ 63" "0 < n" "k + n \<le> length content"
    and "k = 0 \<or> clip_disk r (dest t (fs ! idx)) = Some (take k content)"
  shows "\<exists>r'. clip_disk r' = (clip_disk r)(dest t (fs ! idx) \<mapsto> take (k + n) content) \<and> room fs t r' \<and> clip_board r' = clip_board r \<and>
    handle_cliprdr_host e (FileContentsResponse 1 i (take n (drop k content))) r =
      (if k + n = length content then advance_to_next_file e (fetching fs t idx (k + n) False) r'
       else ([range_request idx (k + n) (cf_size (fs ! idx))], r'\<lparr>clip_recv := Some (fetching fs t idx (k + n) False)\<rparr>))"
proof -
  let ?f = "fs ! idx" and ?p = "dest t (fs ! idx)" and ?data = "take n (drop k content)"
  have f: "?f \<in> set fs" using assms(2) by simp
  have place_of: "recv_path t (recv_of ?f) = ?p" by (rule recv_path_of) (rule assms(4))
  let ?r1 = "create_dir_all e (parent_dir ?p) r"
  have parent: "parent_dir ?p = t \<or> (\<exists>g\<in>set fs. cf_is_dir g \<and> parent_dir ?p = dest t g)"
    using parent_of_dest[of t "cf_rel_name ?f"] f assms(6) unfolding ancestors_listed_def dest_def by fastforce
  have room: "room fs t ?r1" by (rule room_create[OF assms(5,6,7) parent])
  have place: "parent_dir ?p \<in> set (clip_dirs ?r1)" "?p \<notin> set (clip_dirs ?r1)"
    using room_parent[OF room assms(6) f] room f assms(3) by (auto simp: room_def)
  let ?r' = "?r1\<lparr>clip_disk := (clip_disk r)(?p \<mapsto> take (k + n) content)\<rparr>"
  have uk: "unat (of_nat k :: u64) = k" using assms(10,11,12) by (simp add: unat_of_nat)
  have k0: "(of_nat k :: u64) = 0 \<longleftrightarrow> k = 0"
    using uk by (cases "k = 0") auto
  have len: "length ?data = n" using assms(12) by simp
  have sum: "of_nat k + of_nat n = (of_nat (k + n) :: u64)" by simp
  have unat_kn: "unat (of_nat k + of_nat n :: u64) = k + n" unfolding sum using assms(10,12) by (simp add: unat_of_nat del: of_nat_add)
  have more: "(of_nat k + of_nat n :: u64) \<ge> cf_size ?f \<longleftrightarrow> k + n = length content"
    using assms(9,12) unat_kn by (auto simp: word_le_nat_alt)
  have old: "take k content @ ?data = take (k + n) content" by (simp add: take_add)
  have written: "(if (of_nat k :: u64) = 0 then fs_write e ?p ?data ?r1 else fs_append e ?p ?data ?r1) = (True, ?r')"
  proof (cases "k = 0")
    case True
    then show ?thesis using place assms(8) by (simp add: fs_write_def)
  next
    case False
    then have "clip_disk ?r1 ?p = Some (take k content)" using assms(13) by simp
    then show ?thesis using False k0 assms(8) old by (simp add: fs_append_def)
  qed
  have item: "rs_files (fetching fs t idx k False) ! idx = recv_of ?f" "rf_size (recv_of ?f) = cf_size ?f"
    using assms(2) by (simp_all add: fetching_fields recv_of_def)
  note rr = range_received_written[of ?p "fetching fs t idx k False" e ?data r ?r', unfolded fetching_fields(2-4) item, OF place_of[symmetric] written]
  have "range_received e (fetching fs t idx k False) ?data r =
      (if k + n = length content then advance_to_next_file e (fetching fs t idx (k + n) False) ?r'
       else ([range_request idx (k + n) (cf_size ?f)], ?r'\<lparr>clip_recv := Some (fetching fs t idx (k + n) False)\<rparr>))"
    unfolding rr Let_def len more using fetching_fields(5)[of "k + n" fs t idx k False]
    by (simp only: range_request_def of_nat_add item more)
  moreover have "handle_cliprdr_host e (FileContentsResponse 1 i data) r = range_received e (fetching fs t idx k False) data r" for data
    using assms(1,2) by (simp add: handle_cliprdr_host_def handle_file_contents_response_def fetching_fields)
  moreover have "room fs t ?r'" using room room_same[of ?r' ?r1] by simp
  ultimately show ?thesis by (intro exI[of _ ?r']) simp
qed

text \<open>One file, from the request for its size to the step that looks for the next: any number of reads.\<close>

lemma range_loop:
  assumes good: "good_envs es er" and list: "paste_ok fs" "listing_current fs d"
    and idx: "idx < length fs" "\<not> cf_is_dir (fs ! idx)" "d (cf_path (fs ! idx)) = Some content"
    and at: "paste_run es er i st = ([range_request idx k (cf_size (fs ! idx))], s, r)" "serves fs d s"
    and r: "clip_recv r = Some (fetching fs t idx k False)" "room fs t r" "k < length content"
      "k = 0 \<or> clip_disk r (dest t (fs ! idx)) = Some (take k content)"
  shows "\<exists>j s' r1 e msgs r'. paste_run es er j st = (msgs, s', r') \<and> serves fs d s' \<and> ce_clipboard_ok e \<and>
    (msgs, r') = advance_to_next_file e (fetching fs t idx (length content) False) r1 \<and> fetched_file fs t (fs ! idx) content r r1"
  using at r
proof (induction "length content - k" arbitrary: k i s r rule: less_induct)
  case less
  let ?f = "fs ! idx"
  have f: "?f \<in> set fs" using idx(1) by simp
  have small: "length fs < 2 ^ 31" "unat (cf_size ?f) = length content" "length content < 2 ^ 63"
    using list(2) f idx(2,3) by (auto simp: listing_current_def)
  have names: "47 \<notin> set (cf_rel_name ?f)" "ancestors_listed fs" "distinct (map cf_rel_name fs)"
    using list(1) f by (auto simp: paste_ok_def)
  have envs: "ce_fault (es i) = (\<lambda>_. NoFault)" "0 < ce_read (es i)" "ce_fault (er i) = (\<lambda>_. NoFault)" "ce_clipboard_ok (er i)"
    using good by (auto simp: good_envs_def)
  obtain n s' where n: "0 < n" "k + n \<le> length content" "serves fs d s'"
    and answer: "handle_cliprdr_client (es i) (range_request idx k (cf_size ?f)) s = ([FileContentsResponse 1 (of_nat idx) (take n (drop k content))], s')"
    using serve_range[OF less.prems(2) idx(1) small(1) idx(2,3) small(2,3) less.prems(5) envs(1,2)] by blast
  obtain r' where r': "clip_disk r' = (clip_disk r)(dest t ?f \<mapsto> take (k + n) content)" "room fs t r'" "clip_board r' = clip_board r"
    and got: "handle_cliprdr_host (er i) (FileContentsResponse 1 (of_nat idx) (take n (drop k content))) r =
      (if k + n = length content then advance_to_next_file (er i) (fetching fs t idx (k + n) False) r'
       else ([range_request idx (k + n) (cf_size ?f)], r'\<lparr>clip_recv := Some (fetching fs t idx (k + n) False)\<rparr>))"
    using recv_range[OF less.prems(3) idx(1,2) names(1) less.prems(4) names(2,3) envs(3) small(2,3) n(1,2) less.prems(6)] by blast
  have then_on: "paste_run es er (Suc i) st = (fst (handle_cliprdr_host (er i) (FileContentsResponse 1 (of_nat idx) (take n (drop k content))) r), s',
      snd (handle_cliprdr_host (er i) (FileContentsResponse 1 (of_nat idx) (take n (drop k content))) r))"
    using less.prems(1) paste_step_one[OF answer prod.collapse[symmetric]] by simp
  show ?case
  proof (cases "k + n = length content")
    case True
    then have "fetched_file fs t ?f content r r'" using r' by (simp add: fetched_file_def)
    then show ?thesis using then_on True got n(3) envs(4) by (metis prod.collapse)
  next
    case False
    let ?r = "r'\<lparr>clip_recv := Some (fetching fs t idx (k + n) False)\<rparr>"
    have "\<exists>j s' r1 e msgs r''. paste_run es er j st = (msgs, s', r'') \<and> serves fs d s' \<and> ce_clipboard_ok e \<and>
        (msgs, r'') = advance_to_next_file e (fetching fs t idx (length content) False) r1 \<and> fetched_file fs t ?f content ?r r1"
      using less.hyps[of "k + n" "Suc i" s' ?r] n False then_on got r' room_same[of ?r r'] by simp
    moreover have "fetched_file fs t ?f content ?r r1 \<Longrightarrow> fetched_file fs t ?f content r r1" for r1
      using r' by (simp add: fetched_file_def)
    ultimately show ?thesis by meson
  qed
qed

lemma file_loop:
  assumes good: "good_envs es er" and list: "paste_ok fs" "listing_current fs d"
    and idx: "idx < length fs" "\<not> cf_is_dir (fs ! idx)" "d (cf_path (fs ! idx)) = Some content"
    and at: "paste_run es er i st = ([request_size idx], s, r)" "serves fs d s" "clip_recv r = Some (fetching fs t idx 0 True)" "room fs t r"
  shows "\<exists>j s' r1 e msgs r'. paste_run es er j st = (msgs, s', r') \<and> serves fs d s' \<and> ce_clipboard_ok e \<and>
    (msgs, r') = advance_to_next_file e (fetching fs t idx (length content) False) r1 \<and> fetched_file fs t (fs ! idx) content r r1"
proof -
  let ?f = "fs ! idx"
  have f: "?f \<in> set fs" using idx(1) by simp
  have small: "length fs < 2 ^ 31" "unat (cf_size ?f) = length content"
    using list(2) f idx(2,3) by (auto simp: listing_current_def)
  have names: "47 \<notin> set (cf_rel_name ?f)" "ancestors_listed fs" using list(1) f by (auto simp: paste_ok_def)
  have envs: "ce_fault (er i) = (\<lambda>_. NoFault)" "ce_clipboard_ok (er i)" using good by (auto simp: good_envs_def)
  define a where "a = FileContentsResponse 1 (of_nat idx)
      (le_bytes 4 (ucast (cf_size ?f) :: u32) @ le_bytes 4 (ucast (drop_bit 32 (cf_size ?f)) :: u32))"
  obtain s' where s': "handle_cliprdr_client (es i) (request_size idx) s = ([a], s')" "serves fs d s'"
    unfolding a_def using serve_size[OF at(2) idx(1) small(1)] by blast
  let ?r0 = "r\<lparr>clip_disk := (clip_disk r)(dest t ?f \<mapsto> [])\<rparr>" and ?r1 = "r\<lparr>clip_recv := Some (fetching fs t idx 0 False)\<rparr>"
  have got: "handle_cliprdr_host (er i) a r =
      (if cf_size ?f = 0 then advance_to_next_file (er i) (fetching fs t idx 0 False) ?r0 else ([range_request idx 0 (cf_size ?f)], ?r1))"
    unfolding a_def by (rule recv_size[OF at(3) idx(1,2) names(1) at(4) names(2) envs(1)])
  have then_on: "paste_run es er (Suc i) st = (fst (handle_cliprdr_host (er i) a r), s', snd (handle_cliprdr_host (er i) a r))"
    using at(1) paste_step_one[OF s'(1) prod.collapse[symmetric]] by simp
  show ?thesis
  proof (cases "cf_size ?f = 0")
    case True
    then have "content = []" using small(2) by simp
    moreover have "fetched_file fs t ?f [] r ?r0" using at(4) room_same[of ?r0 r] by (simp add: fetched_file_def)
    ultimately show ?thesis using then_on True got s'(2) envs(2) by (metis list.size(3) prod.collapse)
  next
    case False
    then have pos: "0 < length content" using small(2) by (metis gr0I unat_eq_zero)
    have same: "fetched_file fs t ?f content ?r1 r1 \<Longrightarrow> fetched_file fs t ?f content r r1" for r1 by (simp add: fetched_file_def)
    have "\<exists>j s' r1 e msgs r''. paste_run es er j st = (msgs, s', r'') \<and> serves fs d s' \<and> ce_clipboard_ok e \<and>
        (msgs, r'') = advance_to_next_file e (fetching fs t idx (length content) False) r1 \<and> fetched_file fs t ?f content ?r1 r1"
      by (rule range_loop[OF good list idx, of "Suc i" st 0 s' ?r1]) (use False then_on got s'(2) at(4) pos room_same[of ?r1 r] in simp_all)
    then show ?thesis using same by meson
  qed
qed

definition top_level :: "rstr \<Rightarrow> clip_file list \<Rightarrow> rstr list" where
  "top_level t fs = map (dest t) (filter (\<lambda>f. 92 \<notin> set (cf_rel_name f)) fs)"

lemma some_top_level:
  assumes "ancestors_listed fs" "f0 \<in> set fs"
  shows "top_level t fs \<noteq> []"
proof -
  obtain f where f: "f \<in> set fs" "\<And>g. g \<in> set fs \<Longrightarrow> length (cf_rel_name f) \<le> length (cf_rel_name g)"
    using ex_has_least_nat[of "\<lambda>f. f \<in> set fs" f0 "\<lambda>f. length (cf_rel_name f)"] assms(2) by blast
  have "92 \<notin> set (cf_rel_name f)"
  proof
    assume "92 \<in> set (cf_rel_name f)"
    then have "parent_dir (cf_rel_name f) \<in> set (dirs_above (cf_rel_name f))" by (intro parent_above) (auto simp: is_sep_def)
    moreover from this obtain g where "g \<in> set fs" "cf_rel_name g = parent_dir (cf_rel_name f)"
      using assms(1) f(1) unfolding ancestors_listed_def by blast
    ultimately show False using f(2)[of g] not_above_itself[of "parent_dir (cf_rel_name f)" "cf_rel_name f"] by simp
  qed
  then show ?thesis using f(1) by (auto simp: top_level_def filter_empty_conv)
qed

lemma finalize_fetched:
  assumes "ce_clipboard_ok e" "top_level t fs \<noteq> []" "rs_files st = map recv_of fs" "rs_temp_dir st = t"
  shows "clip_board (finalize_received_files e st r) = Some (top_level t fs)" "clip_disk (finalize_received_files e st r) = clip_disk r"
    "clip_dirs (finalize_received_files e st r) = clip_dirs r"
proof -
  have "map (\<lambda>f. t @ [92] @ rf_name f) (filter (\<lambda>f. 92 \<notin> set (rf_name f)) (map recv_of fs)) = top_level t fs"
    by (induction fs) (simp_all add: top_level_def recv_of_def dest_def)
  then show "clip_board (finalize_received_files e st r) = Some (top_level t fs)" "clip_disk (finalize_received_files e st r) = clip_disk r"
    "clip_dirs (finalize_received_files e st r) = clip_dirs r"
    using assms by (simp_all add: finalize_received_files_def set_clipboard_files_def Let_def)
qed

definition delivered :: "clip_file list \<Rightarrow> disk \<Rightarrow> rstr \<Rightarrow> clip \<Rightarrow> bool" where
  "delivered fs d t r \<longleftrightarrow> (\<forall>f\<in>set fs. \<not> cf_is_dir f \<longrightarrow> clip_disk r (dest t f) = d (cf_path f))"

lemma next_file_cases:
  "case next_file (map recv_of fs) k of
     Some i \<Rightarrow> k \<le> i \<and> i < length fs \<and> \<not> cf_is_dir (fs ! i) \<and> (\<forall>j. k \<le> j \<and> j < i \<longrightarrow> cf_is_dir (fs ! j))
   | None \<Rightarrow> \<forall>j. k \<le> j \<and> j < length fs \<longrightarrow> cf_is_dir (fs ! j)"
proof (cases "next_file (map recv_of fs) k")
  case None
  then have "\<forall>j. k \<le> j \<and> j < length fs \<longrightarrow> cf_is_dir (fs ! j)" by (auto simp: next_file_def find_None_iff recv_of_def)
  then show ?thesis using None by simp
next
  case (Some i)
  then obtain m where m: "m < length [k..<length fs]" "\<not> rf_is_dir (map recv_of fs ! ([k..<length fs] ! m))" "i = [k..<length fs] ! m"
      "\<forall>j<m. rf_is_dir (map recv_of fs ! ([k..<length fs] ! j))"
    by (auto simp: next_file_def find_Some_iff)
  have "cf_is_dir (fs ! j)" if "k \<le> j" "j < i" for j
    using m(4)[rule_format, of "j - k"] that m(1,3) by (simp add: recv_of_def)
  then show ?thesis using m Some by (simp add: recv_of_def)
qed

text \<open>All files: those before the current one are there, and the fetching goes on to the end.\<close>

definition delivered_before :: "nat \<Rightarrow> clip_file list \<Rightarrow> disk \<Rightarrow> rstr \<Rightarrow> clip \<Rightarrow> bool" where
  "delivered_before n fs d t r \<longleftrightarrow> (\<forall>j<n. j < length fs \<and> \<not> cf_is_dir (fs ! j) \<longrightarrow> clip_disk r (dest t (fs ! j)) = d (cf_path (fs ! j)))"

lemma delivered_more:
  assumes "distinct (map cf_rel_name fs)" "delivered_before idx fs d t r" "fetched_file fs t (fs ! idx) content r r'" "idx < length fs"
    and "d (cf_path (fs ! idx)) = Some content" "\<forall>j. idx < j \<and> j < m \<and> j < length fs \<longrightarrow> cf_is_dir (fs ! j)"
  shows "delivered_before m fs d t r'"
proof -
  have "clip_disk r' (dest t (fs ! j)) = d (cf_path (fs ! j))" if j: "j < m" "j < length fs" "\<not> cf_is_dir (fs ! j)" for j
  proof (cases "j = idx")
    case True
    then show ?thesis using assms(3,5) by (simp add: fetched_file_def)
  next
    case False
    then have "j < idx" using assms(6) j by (metis linorder_neqE_nat)
    moreover have "cf_rel_name (fs ! j) \<noteq> cf_rel_name (fs ! idx)"
      using assms(1,4) j(2) False by (simp add: distinct_conv_nth)
    ultimately show ?thesis using assms(2,3) j by (simp add: delivered_before_def fetched_file_def dest_def)
  qed
  then show ?thesis by (simp add: delivered_before_def)
qed

lemma files_loop:
  assumes good: "good_envs es er" and list: "paste_ok fs" "listing_current fs d"
    and idx: "idx < length fs" "\<not> cf_is_dir (fs ! idx)"
    and at: "paste_run es er i st = ([request_size idx], s, r)" "serves fs d s" "clip_recv r = Some (fetching fs t idx 0 True)" "room fs t r"
      "delivered_before idx fs d t r"
  shows "\<exists>j s' r'. paste_run es er j st = ([], s', r') \<and> delivered fs d t r' \<and> room fs t r' \<and> clip_board r' = Some (top_level t fs)"
  using idx at
proof (induction "length fs - idx" arbitrary: idx i s r rule: less_induct)
  case less
  have f: "fs ! idx \<in> set fs" using less.prems(1) by simp
  obtain content where content: "d (cf_path (fs ! idx)) = Some content"
    using list(2) f less.prems(2) by (auto simp: listing_current_def)
  obtain j s' r1 e msgs r' where run: "paste_run es er j st = (msgs, s', r')" "serves fs d s'" "ce_clipboard_ok e"
    and adv: "(msgs, r') = advance_to_next_file e (fetching fs t idx (length content) False) r1" and whole: "fetched_file fs t (fs ! idx) content r r1"
    using file_loop[OF good list less.prems(1,2) content less.prems(3-6)] by blast
  have distinct: "distinct (map cf_rel_name fs)" and closed: "ancestors_listed fs" using list(1) by (auto simp: paste_ok_def)
  note more = delivered_more[OF distinct less.prems(7) whole less.prems(1) content]
  show ?case
  proof (cases "next_file (map recv_of fs) (idx + 1)")
    case None
    then have rest: "\<forall>j. idx + 1 \<le> j \<and> j < length fs \<longrightarrow> cf_is_dir (fs ! j)" using next_file_cases[where k = "idx + 1" and fs = fs] by simp
    then have all: "delivered_before (length fs) fs d t r1" by (intro more) auto
    have top: "top_level t fs \<noteq> []" by (rule some_top_level[OF closed f])
    let ?st = "fetching fs t idx (length content) False"
    have "msgs = []" "r' = finalize_received_files e ?st (r1\<lparr>clip_recv := Some ?st\<rparr>)"
      using adv None by (simp_all add: advance_to_next_file_def fetching_fields)
    then have end_state: "msgs = []" "clip_disk r' = clip_disk r1" "clip_dirs r' = clip_dirs r1" "clip_board r' = Some (top_level t fs)"
      using finalize_fetched[OF run(3) top fetching_fields(1,4)] by simp_all
    moreover have "room fs t r'" using whole room_same[OF end_state(3)] by (simp add: fetched_file_def)
    moreover have "delivered fs d t r'" using all end_state(2) by (auto simp: delivered_def delivered_before_def in_set_conv_nth)
    ultimately show ?thesis using run(1) by blast
  next
    case (Some m)
    then have m: "idx + 1 \<le> m" "m < length fs" "\<not> cf_is_dir (fs ! m)" "\<forall>j. idx + 1 \<le> j \<and> j < m \<longrightarrow> cf_is_dir (fs ! j)"
      using next_file_cases[where k = "idx + 1" and fs = fs] by simp_all
    let ?r = "r1\<lparr>clip_recv := Some (fetching fs t m 0 True)\<rparr>"
    have "delivered_before m fs d t r1" using m(4) by (intro more) auto
    then have before: "delivered_before m fs d t ?r" by (simp add: delivered_before_def)
    have "msgs = [request_size m]" "r' = ?r"
      using adv Some by (simp_all add: advance_to_next_file_def fetching_fields(1,2)) (simp_all add: fetching_def)
    then show ?thesis
      using less.hyps[of m j s' ?r] m run before whole room_same[of ?r r1] by (simp add: fetched_file_def)
  qed
qed

lemma safe_no_nul:
  assumes "is_safe_clip_name name"
  shows "0 \<notin> set name"
proof
  assume "0 \<in> set name"
  then obtain part where part: "part \<in> set (split_seps name)" "0 \<in> set part" using set_split_seps[of 0 name] by (auto simp: is_sep_def)
  then have "is_safe_clip_component part" using assms by (simp add: is_safe_clip_name_def list_all_iff)
  then show False using part(2) safe_component by blast
qed

lemma clip_name_ok_safe: "is_safe_clip_name name \<Longrightarrow> list_all is_scalar name \<Longrightarrow> clip_name_ok name"
  using safe_no_nul by (auto simp: clip_name_ok_def is_safe_clip_name_def)

text \<open>The folders made for a list: the new one, those of the list, and room for the files.\<close>

lemma folders_made:
  assumes "ancestors_listed fs" "distinct (map cf_rel_name fs)" "ce_fault e = (\<lambda>_. NoFault)"
    and "\<forall>p\<in>set (clip_dirs r). \<not> starts_with (t @ [92]) p" "\<forall>f\<in>set fs. 47 \<notin> set (cf_rel_name f)"
  shows "room fs t (fold (\<lambda>f. create_dir_all e (recv_path t f)) (filter rf_is_dir (map recv_of fs)) (create_dir_all e t r))"
proof -
  let ?made = "\<lambda>gs c. fold (\<lambda>f. create_dir_all e (recv_path t f)) (filter rf_is_dir (map recv_of gs)) c"
  have made: "t \<in> set (clip_dirs (?made gs c)) \<and> (\<forall>g\<in>set gs. cf_is_dir g \<longrightarrow> dest t g \<in> set (clip_dirs (?made gs c))) \<and>
      (\<forall>f\<in>set fs. \<not> cf_is_dir f \<longrightarrow> dest t f \<notin> set (clip_dirs (?made gs c))) \<and> set (clip_dirs c) \<subseteq> set (clip_dirs (?made gs c))"
    if "set gs \<subseteq> set fs" "t \<in> set (clip_dirs c)" "\<forall>f\<in>set fs. \<not> cf_is_dir f \<longrightarrow> dest t f \<notin> set (clip_dirs c)" for gs c
    using that
  proof (induction gs arbitrary: c)
    case (Cons g gs)
    show ?case
    proof (cases "cf_is_dir g")
      case True
      let ?c = "create_dir_all e (recv_path t (recv_of g)) c"
      have path: "recv_path t (recv_of g) = dest t g" using Cons.prems(1) assms(5) by (intro recv_path_of) auto
      have dirs: "clip_dirs ?c = dest t g # dirs_above (dest t g) @ clip_dirs c" by (simp add: create_dir_all_def assms(3) path)
      have g: "dest t g = t \<or> (\<exists>h\<in>set fs. cf_is_dir h \<and> dest t g = dest t h)" using Cons.prems(1) True by auto
      have "dest t f \<noteq> dest t g \<and> dest t f \<notin> set (dirs_above (dest t g))" if "f \<in> set fs" "\<not> cf_is_dir f" for f
        using above_not_file[OF assms(1,2) g _ that] by blast
      then have "\<forall>f\<in>set fs. \<not> cf_is_dir f \<longrightarrow> dest t f \<notin> set (clip_dirs ?c)"
        using Cons.prems(3) unfolding dirs by simp
      then have "t \<in> set (clip_dirs (?made gs ?c)) \<and> (\<forall>g\<in>set gs. cf_is_dir g \<longrightarrow> dest t g \<in> set (clip_dirs (?made gs ?c))) \<and>
          (\<forall>f\<in>set fs. \<not> cf_is_dir f \<longrightarrow> dest t f \<notin> set (clip_dirs (?made gs ?c))) \<and> set (clip_dirs ?c) \<subseteq> set (clip_dirs (?made gs ?c))"
        using Cons.prems by (intro Cons.IH) (auto simp: dirs)
      moreover have "?made (g # gs) c = ?made gs ?c" using True by (simp add: recv_of_def)
      ultimately show ?thesis by (auto simp: dirs)
    next
      case False
      then have "?made (g # gs) c = ?made gs c" by (simp add: recv_of_def)
      then show ?thesis using Cons False by simp
    qed
  qed simp
  have start: "clip_dirs (create_dir_all e t r) = t # dirs_above t @ clip_dirs r" by (simp add: create_dir_all_def assms(3))
  have "dest t f \<notin> set (clip_dirs r)" for f
    using assms(4) by (auto simp: dest_def starts_with_def)
  moreover have "dest t f \<noteq> t \<and> dest t f \<notin> set (dirs_above t)" if "f \<in> set fs" "\<not> cf_is_dir f" for f
    using above_not_file[OF assms(1,2) disjI1[OF refl] _ that] by blast
  ultimately have "\<forall>f\<in>set fs. \<not> cf_is_dir f \<longrightarrow> dest t f \<notin> set (clip_dirs (create_dir_all e t r))"
    unfolding start by simp
  then show ?thesis using made[of fs "create_dir_all e t r"] start by (simp add: room_def)
qed

section \<open>Announced lists are closed\<close>

primrec tree_names :: "tree \<Rightarrow> rstr list" where
  "tree_names (Leaf _ _) = []"
| "tree_names (Folder _ ns) = concat (map (\<lambda>(n, h, below). n # below) (map (map_prod id (map_prod id tree_names)) ns))"
| "tree_names (Locked _) = []"

definition plain_names :: "tree \<Rightarrow> bool" where
  "plain_names t \<longleftrightarrow> (\<forall>n\<in>set (tree_names t). \<forall>c\<in>set n. \<not> is_sep c)"

definition closed_below :: "rstr \<Rightarrow> clip_file list \<Rightarrow> bool" where
  "closed_below rel fs \<longleftrightarrow>
     (\<forall>f\<in>set fs. 47 \<notin> set (cf_rel_name f) \<and>
        (\<forall>a\<in>set (dirs_above (cf_rel_name f)). a = rel \<or> a \<in> set (dirs_above rel) \<or> (\<exists>g\<in>set fs. cf_is_dir g \<and> cf_rel_name g = a)))"

lemma dirs_above_plain: "\<forall>c\<in>set n. \<not> is_sep c \<Longrightarrow> dirs_above n = []"
  by (auto simp: dirs_above_def filter_empty_conv)

lemma closed_append: "closed_below rel fs \<Longrightarrow> closed_below rel gs \<Longrightarrow> closed_below rel (fs @ gs)"
  unfolding closed_below_def by fastforce

lemma closed_entry:
  assumes "closed_below inner below" "below = [] \<or> cf_is_dir e" "47 \<notin> set inner"
    and "set (dirs_above inner) = set (dirs_above rel) \<union> {rel}" "cf_rel_name e = inner"
  shows "closed_below rel (e # below)"
  unfolding closed_below_def
proof (intro ballI conjI)
  fix f assume f: "f \<in> set (e # below)"
  show "47 \<notin> set (cf_rel_name f)" using f assms(1,3,5) unfolding closed_below_def by auto
  fix a assume a: "a \<in> set (dirs_above (cf_rel_name f))"
  show "a = rel \<or> a \<in> set (dirs_above rel) \<or> (\<exists>g\<in>set (e # below). cf_is_dir g \<and> cf_rel_name g = a)"
  proof (cases "f = e")
    case True
    then show ?thesis using a assms(4,5) by auto
  next
    case False
    then have "f \<in> set below" "cf_is_dir e" using f assms(2) by auto
    moreover from this have "a = inner \<or> a \<in> set (dirs_above inner) \<or> (\<exists>g\<in>set below. cf_is_dir g \<and> cf_rel_name g = a)"
      using assms(1) a unfolding closed_below_def by blast
    ultimately show ?thesis using assms(4,5) by auto
  qed
qed

lemma listing_closed:
  "47 \<notin> set rel \<Longrightarrow> plain_names t \<Longrightarrow> closed_below rel (enumerate_dir_recursive dir rel t)"
  "47 \<notin> set rel \<Longrightarrow> (\<forall>(n, h, t)\<in>set ns. (\<forall>c\<in>set n. \<not> is_sep c) \<and> plain_names t) \<Longrightarrow> closed_below rel (enumerate_dir_entries dir rel ns)"
proof (induction dir rel t and dir rel ns rule: enumerate_dir_recursive_enumerate_dir_entries.induct)
  case (1 dir rel m ns)
  have "\<forall>(n, h, t)\<in>set ns. (\<forall>c\<in>set n. \<not> is_sep c) \<and> plain_names t"
    using 1(3) by (auto simp: plain_names_def) 
  then show ?case using 1 by simp
next
  case (5 dir rel name hidden t ns)
  let ?rel = "rel @ [92] @ name" and ?dir = "rel_join dir name"
  let ?e = "clip_entry ?dir ?rel t"
  have name: "\<forall>c\<in>set name. \<not> is_sep c" "plain_names t" using 5(4) by auto
  have rel: "47 \<notin> set ?rel" using 5(3) name(1) by (auto simp: is_sep_def)
  have above: "set (dirs_above ?rel) = set (dirs_above rel) \<union> {rel}"
    using dirs_above_append[of rel name] dirs_above_plain[OF name(1)] by simp
  have entry: "cf_rel_name ?e = ?rel" by (simp add: clip_entry_def split: tree.split)
  have "closed_below ?rel (enumerate_dir_recursive ?dir ?rel t)" by (rule 5(1)[OF rel name(2)])
  moreover have "enumerate_dir_recursive ?dir ?rel t = [] \<or> cf_is_dir ?e" by (cases t) (simp_all add: clip_entry_def)
  ultimately have "closed_below rel (?e # enumerate_dir_recursive ?dir ?rel t)" using rel above entry by (intro closed_entry)
  moreover have "closed_below rel (enumerate_dir_entries dir rel ns)" using 5 by simp
  ultimately show ?case using closed_append by fastforce
qed (simp_all add: closed_below_def)

lemma split_seps_parts: "part \<in> set (split_seps s) \<Longrightarrow> c \<in> set part \<Longrightarrow> \<not> is_sep c"
proof (induction s arbitrary: part)
  case (Cons d s)
  have s: "split_seps s = hd (split_seps s) # tl (split_seps s)" by (metis list.collapse split_seps_nonempty)
  show ?case
  proof (cases "is_sep d")
    case True
    then show ?thesis using Cons by auto
  next
    case False
    then have "part = d # hd (split_seps s) \<or> part \<in> set (tl (split_seps s))" using Cons.prems(1) by auto
    then show ?thesis using Cons.IH[of "hd (split_seps s)"] Cons.IH[of part] Cons.prems(2) False s by (metis list.set_intros set_ConsD)
  qed
qed simp

definition closed_list :: "clip_file list \<Rightarrow> bool" where
  "closed_list fs \<longleftrightarrow> ancestors_listed fs \<and> (\<forall>f\<in>set fs. 47 \<notin> set (cf_rel_name f))"

lemma closed_list_append: "closed_list fs \<Longrightarrow> closed_list gs \<Longrightarrow> closed_list (fs @ gs)"
  unfolding closed_list_def ancestors_listed_def set_append by blast

lemma closed_list_top:
  assumes "closed_below name below" "below = [] \<or> cf_is_dir e" "\<forall>c\<in>set name. \<not> is_sep c" "cf_rel_name e = name"
  shows "closed_list (e # below)"
proof -
  have none: "dirs_above name = []" by (rule dirs_above_plain[OF assms(3)])
  have "\<exists>g\<in>set (e # below). cf_is_dir g \<and> cf_rel_name g = a" if f: "f \<in> set (e # below)" "a \<in> set (dirs_above (cf_rel_name f))" for f a
  proof -
    have "f \<in> set below" using f none assms(4) by auto
    moreover from this have "a = name \<or> (\<exists>g\<in>set below. cf_is_dir g \<and> cf_rel_name g = a)"
      using assms(1) f(2) none unfolding closed_below_def by auto
    ultimately show ?thesis using assms(2,4) by auto
  qed
  moreover have "\<forall>f\<in>set (e # below). 47 \<notin> set (cf_rel_name f)"
    using assms(1,3,4) unfolding closed_below_def by (auto simp: is_sep_def)
  ultimately show ?thesis unfolding closed_list_def ancestors_listed_def by blast
qed

lemma enumerate_closed:
  assumes "\<forall>p t. metadata p = Some t \<longrightarrow> plain_names t"
  shows "closed_list (enumerate_files metadata paths)"
proof (induction paths)
  case Nil
  then show ?case by (simp add: enumerate_files_def closed_list_def ancestors_listed_def)
next
  case (Cons p paths)
  let ?name = "path_file_name p"
  have one: "closed_list (clip_entry p ?name t # enumerate_dir_recursive p ?name t)" if t: "metadata p = Some t"
    for t
  proof (rule closed_list_top)
    have "\<forall>c\<in>set (last (split_seps s)). \<not> is_sep c" for s using split_seps_parts[of "last (split_seps s)" s] by auto
    then show plain: "\<forall>c\<in>set ?name. \<not> is_sep c" by (simp add: path_file_name_def Let_def)
    then have "47 \<notin> set ?name" by (auto simp: is_sep_def)
    then show "closed_below ?name (enumerate_dir_recursive p ?name t)" using assms t listing_closed(1) by blast
    show "enumerate_dir_recursive p ?name t = [] \<or> cf_is_dir (clip_entry p ?name t)" by (cases t) (simp_all add: clip_entry_def)
    show "cf_rel_name (clip_entry p ?name t) = ?name" by (simp add: clip_entry_def split: tree.split)
  qed
  have "closed_list []" by (simp add: closed_list_def ancestors_listed_def)
  then show ?case
    using Cons one closed_list_append by (fastforce simp: enumerate_files_def Let_def split: option.split)
qed

section \<open>The properties\<close>

lemma list_fetched:
  assumes good: "good_envs es er" and list: "paste_ok fs" "listing_current fs d" "fs \<noteq> []" and s: "serves fs d s"
    and fresh: "\<forall>p\<in>set (clip_dirs r). \<not> starts_with (clip_temp_dir (er 1) @ [92]) p"
  shows "\<exists>n s' r'. paste_run es er n (handle_incoming_format_list [(FILEDESCRIPTOR_FORMAT_ID, x)], s, r) = ([], s', r') \<and>
    delivered fs d (clip_temp_dir (er 1)) r' \<and> room fs (clip_temp_dir (er 1)) r' \<and> clip_board r' = Some (top_level (clip_temp_dir (er 1)) fs)"
proof -
  let ?t = "clip_temp_dir (er 1)" and ?st = "(handle_incoming_format_list [(FILEDESCRIPTOR_FORMAT_ID, x)], s, r)"
  have ok: "ancestors_listed fs" "distinct (map cf_rel_name fs)" "\<forall>f\<in>set fs. 47 \<notin> set (cf_rel_name f)"
      "\<forall>f\<in>set fs. clip_name_ok (cf_rel_name f)" "\<forall>f\<in>set fs. is_safe_clip_name (cf_rel_name f)"
    using list(1) clip_name_ok_safe by (auto simp: paste_ok_def)
  have size: "length fs < 2 ^ 32" using list(2) by (simp add: listing_current_def)
  have env: "ce_fault (er 1) = (\<lambda>_. NoFault)" "ce_clipboard_ok (er 1)" using good by (auto simp: good_envs_def)
  let ?s = "s\<lparr>clip_served_requests := clip_served_requests s + 1\<rparr>" and ?data = "build_file_group_descriptor fs"
  have served: "handle_cliprdr_client e (FormatDataRequest FILEDESCRIPTOR_FORMAT_ID) s = ([FormatDataResponse 1 ?data], ?s)" for e
    using s list(3) by (simp add: handle_cliprdr_client_def handle_format_data_request_host_def serves_def)
  let ?c = "fold (\<lambda>f. create_dir_all (er 1) (recv_path ?t f)) (filter rf_is_dir (map recv_of fs)) (create_dir_all (er 1) ?t r)"
  have room: "room fs ?t ?c" by (rule folders_made[OF ok(1,2) env(1) fresh ok(3)])
  have disk: "clip_board ?c = clip_board r" by (rule fold_invariant[where Q = "\<lambda>_. True" and P = "\<lambda>c. clip_board c = clip_board r"]) simp_all
  have "?data \<noteq> []" by (simp add: build_file_group_descriptor_def numeral_eq_Suc)
  then have got: "handle_cliprdr_host (er 1) (FormatDataResponse 1 ?data) r =
      (case next_file (map recv_of fs) 0 of
         Some idx \<Rightarrow> ([request_size idx], ?c\<lparr>clip_recv := Some (fetching fs ?t idx 0 True)\<rparr>)
       | None \<Rightarrow> ([], (finalize_received_files (er 1) (fetching fs ?t 0 0 True) ?c)\<lparr>clip_recv := None\<rparr>))"
    using list(3) ok(5)
    by (simp add: handle_cliprdr_host_def handle_format_data_response_def parse_built_descriptor[OF ok(4) size] Let_def list_all_iff recv_of_def
        fetching_def split: option.split)
  have run2: "paste_run es er (Suc (Suc 0)) ?st =
      (fst (handle_cliprdr_host (er 1) (FormatDataResponse 1 ?data) r), ?s, snd (handle_cliprdr_host (er 1) (FormatDataResponse 1 ?data) r))"
    using paste_step_one[OF served prod.collapse[symmetric], of "es 1" "er 1" r]
    by (simp add: handle_incoming_format_list_def paste_step_def[of "es 0"]) (simp add: handle_cliprdr_client_def)
  obtain f0 where f0: "f0 \<in> set fs" using list(3) by (cases fs) auto
  show ?thesis
  proof (cases "next_file (map recv_of fs) 0")
    case None
    then have "\<forall>f\<in>set fs. cf_is_dir f" using next_file_cases[where k = 0 and fs = fs] by (auto simp: in_set_conv_nth)
    moreover have "room fs ?t ((finalize_received_files (er 1) (fetching fs ?t 0 0 True) ?c)\<lparr>clip_recv := None\<rparr>)"
      using finalize_fetched(3)[OF env(2) some_top_level[OF ok(1) f0] fetching_fields(1,4)] room
      by (subst room_same[where r = ?c]) simp_all
    moreover have "clip_board (finalize_received_files (er 1) (fetching fs ?t 0 0 True) ?c) = Some (top_level ?t fs)"
      by (rule finalize_fetched(1)[OF env(2) some_top_level[OF ok(1) f0] fetching_fields(1,4)])
    ultimately show ?thesis using run2 got None by (intro exI[of _ "Suc (Suc 0)"]) (simp add: delivered_def)
  next
    case (Some idx)
    then have idx: "idx < length fs" "\<not> cf_is_dir (fs ! idx)" "\<forall>j<idx. cf_is_dir (fs ! j)"
      using next_file_cases[where k = 0 and fs = fs] by simp_all
    let ?r = "?c\<lparr>clip_recv := Some (fetching fs ?t idx 0 True)\<rparr>"
    have a: "paste_run es er (Suc (Suc 0)) ?st = ([request_size idx], ?s, ?r)" "serves fs d ?s" "clip_recv ?r = Some (fetching fs ?t idx 0 True)"
        "room fs ?t ?r" "delivered_before idx fs d ?t ?r"
      using run2 got Some s room room_same[of ?r ?c] idx(3) by (simp_all add: serves_def delivered_before_def)
    show ?thesis by (rule files_loop[OF good list(1,2) idx(1,2) a])
  qed
qed

text \<open>C8: 
  A paste arrives: when a viewer announces the files on its clipboard, the host, answering and being answered in turn, has after finitely
  many messages every announced file with its contents in a new folder, the folders as well, and the top-level ones on its clipboard.
  However few bytes each read returns, and whatever else is on its disk.
\<close>

theorem paste_delivers:
  assumes "check_clipboard_files_change ea s0 = (Some announce, s)" "\<forall>p t. ce_tree ea p = Some t \<longrightarrow> plain_names t"
    and "distinct (map cf_rel_name (clip_files s))"
    and "\<forall>f\<in>set (clip_files s). is_safe_clip_name (cf_rel_name f) \<and> list_all is_scalar (cf_rel_name f)"
    and "listing_current (clip_files s) (clip_disk s)" "good_envs es er"
    and "\<forall>p\<in>set (clip_dirs r). \<not> starts_with (clip_temp_dir (er 1) @ [92]) p"
  shows "\<exists>n s' r'. paste_run es er n (fst (handle_cliprdr_host e0 announce r), s, r) = ([], s', r') \<and>
    delivered (clip_files s) (clip_disk s) (clip_temp_dir (er 1)) r' \<and> room (clip_files s) (clip_temp_dir (er 1)) r' \<and>
    clip_board r' = Some (top_level (clip_temp_dir (er 1)) (clip_files s))"
proof -
  obtain paths where s: "announce = format_list_message" "clip_files s = enumerate_files (ce_tree ea) paths" "clip_files s \<noteq> []"
    using assms(1) by (auto simp: check_clipboard_files_change_def Let_def split: if_splits option.splits)
  have closed: "closed_list (clip_files s)" unfolding s(2) by (rule enumerate_closed[OF assms(2)])
  then have "paste_ok (clip_files s)" using assms(3,4) by (auto simp: paste_ok_def closed_list_def)
  moreover have "fst (handle_cliprdr_host e0 announce r) = handle_incoming_format_list [(FILEDESCRIPTOR_FORMAT_ID, FILEDESCRIPTORW_FORMAT_NAME)]"
    by (simp add: s(1) handle_cliprdr_host_def format_list_message_def handle_incoming_format_list_def)
  ultimately show ?thesis
    using list_fetched[OF assms(6) _ assms(5) s(3) _ assms(7)] by (simp add: serves_def)
qed

definition demo_clip :: clip where
  "demo_clip = \<lparr>clip_files = [], clip_last_paths = [], clip_recv = None, clip_served_requests = 0, clip_served_bytes = 0, clip_dropping = False,
     clip_forget_text = False, clip_disk = Map.empty, clip_dirs = [], clip_board = None\<rparr>"

definition demo_clip_env :: clip_env where
  "demo_clip_env = \<lparr>ce_millis = 7, ce_temp = [84], ce_fault = (\<lambda>_. NoFault), ce_read = 1, ce_clipboard_ok = True, ce_lower = id,
     ce_tree = (\<lambda>p. if p = [67, 58, 92, 100] then Some (Folder 0 [([97], False, Leaf 3 0)]) else None)\<rparr>"

definition demo_list :: "clip_file list" where
  "demo_list = [\<lparr>cf_path = [67, 58, 92, 100], cf_rel_name = [100], cf_size = 0, cf_is_dir = True\<rparr>,
     \<lparr>cf_path = [67, 58, 92, 100, 92, 97], cf_rel_name = [100, 92, 97], cf_size = 3, cf_is_dir = False\<rparr>]"

lemma demo_safe: "is_safe_clip_name [100]" "is_safe_clip_name [100, 92, 97]" "is_safe_clip_name [97]"
  by (simp_all add: is_safe_clip_name_def is_safe_clip_component_def Let_def to_ascii_uppercase_def split_on.simps split_once_def str_def
      starts_with_def encode_utf16_def utf16_char_def is_sep_def)

lemma demo_folder: "clip_temp_dir demo_clip_env = [84] @ CLIP_FOLDER @ [55]"
  by (simp add: clip_temp_dir_def temp_root_def demo_clip_env_def trim_end_matches_def show_nat.simps)

theorem paste_delivers_witness:
  "\<exists>n s' r'. paste_run (\<lambda>_. demo_clip_env) (\<lambda>_. demo_clip_env) n (fst (handle_cliprdr_host demo_clip_env format_list_message demo_clip),
       demo_clip\<lparr>clip_board := Some [[67, 58, 92, 100]], clip_disk := [[67, 58, 92, 100, 92, 97] \<mapsto> [1, 2, 3]],
         clip_last_paths := [[67, 58, 92, 100]], clip_files := demo_list\<rparr>, demo_clip) = ([], s', r') \<and>
     clip_disk r' ([84] @ CLIP_FOLDER @ [55, 92, 100, 92, 97]) = Some [1, 2, 3]"
proof -
  let ?before = "demo_clip\<lparr>clip_board := Some [[67, 58, 92, 100]], clip_disk := [[67, 58, 92, 100, 92, 97] \<mapsto> [1, 2, 3]]\<rparr>"
  let ?s = "?before\<lparr>clip_last_paths := [[67, 58, 92, 100]], clip_files := demo_list\<rparr>"
  have "path_file_name [67, 58, 92, 100] = [100]" by code_simp
  then have list: "enumerate_files (ce_tree demo_clip_env) [[67, 58, 92, 100]] = demo_list"
    by (simp add: enumerate_files_def demo_clip_env_def Let_def clip_entry_def rel_join_def demo_list_def)
  have "\<not> is_received_download demo_clip_env [67, 58, 92, 100]"
    by (simp add: is_received_download_def demo_clip_env_def temp_root_def trim_end_matches_def starts_with_def Let_def)
  then have check: "check_clipboard_files_change demo_clip_env ?before = (Some format_list_message, ?s)"
    by (simp add: check_clipboard_files_change_def Let_def list demo_clip_def) (simp add: demo_list_def)
  have plain: "\<forall>p t. ce_tree demo_clip_env p = Some t \<longrightarrow> plain_names t"
    by (simp add: demo_clip_env_def plain_names_def is_sep_def)
  have names: "distinct (map cf_rel_name (clip_files ?s))"
      "\<forall>f\<in>set (clip_files ?s). is_safe_clip_name (cf_rel_name f) \<and> list_all is_scalar (cf_rel_name f)"
    using demo_safe by (simp_all add: demo_list_def is_scalar_def)
  have cur: "listing_current (clip_files ?s) (clip_disk ?s)" by (simp add: listing_current_def demo_list_def)
  have good: "good_envs (\<lambda>_. demo_clip_env) (\<lambda>_. demo_clip_env)" by (simp add: good_envs_def demo_clip_env_def)
  have fresh: "\<forall>p\<in>set (clip_dirs demo_clip). \<not> starts_with (clip_temp_dir demo_clip_env @ [92]) p" by (simp add: demo_clip_def)
  obtain n s' r' where "paste_run (\<lambda>_. demo_clip_env) (\<lambda>_. demo_clip_env) n (fst (handle_cliprdr_host demo_clip_env format_list_message demo_clip), ?s, demo_clip)
      = ([], s', r')" and d: "delivered (clip_files ?s) (clip_disk ?s) (clip_temp_dir demo_clip_env) r'"
    using paste_delivers[OF check plain names cur good fresh] by blast
  moreover have "clip_disk r' ([84] @ CLIP_FOLDER @ [55, 92, 100, 92, 97]) = Some [1, 2, 3]"
    using d by (simp add: delivered_def demo_list_def demo_folder dest_def)
  ultimately show ?thesis by blast
qed

text \<open>C38: 
  Whatever the other side sends, file lists it was not asked for and answers out of order included, everything written, every folder
  made and every path put on the clipboard lies in a new folder below the temporary one.
\<close>

theorem fetched_files_stay_inside:
  assumes "clip_recv c = None"
  shows "fetched_inside ((\<lambda>(e, msg). clip_temp_dir e) ` set msgs) c (cliprdr_run host msgs c)"
proof -
  have "fetch_inv ((\<lambda>(e, msg). clip_temp_dir e) ` set msgs) c c" using assms by (simp add: fetch_inv_def fetched_inside_def)
  then have "fetch_inv ((\<lambda>(e, msg). clip_temp_dir e) ` set msgs) c (cliprdr_run host msgs c)" by (rule cliprdr_run_inv) force
  then show ?thesis by (simp add: fetch_inv_def)
qed

theorem fetched_files_stay_inside_witness:
  "fetched_inside {clip_temp_dir demo_clip_env} demo_clip
     (cliprdr_run False [(demo_clip_env, FormatDataResponse 1 [2, 0]), (demo_clip_env, FileContentsResponse 1 0 [7])] demo_clip)"
  using fetched_files_stay_inside[of demo_clip "[(demo_clip_env, FormatDataResponse 1 [2, 0]), (demo_clip_env, FileContentsResponse 1 0 [7])]" False]
  by (simp add: demo_clip_def)

text \<open>C39: 
  Only announced files are served: content leaves the machine as an answer to a request, at most 256 KB at a time, taken from a file of
  the announced list and within the size it was announced with.
\<close>

theorem serves_only_announced:
  assumes "FileContentsResponse 1 stream data \<in> set (fst (handle_cliprdr host e msg c))"
  shows "\<exists>req f. msg = FileContentsRequest req \<and> f \<in> set (clip_files c) \<and>
    (cr_dw_flags req = FILECONTENTS_SIZE \<and> length data = 8 \<or>
     length data \<le> 256 * 1024 \<and>
       (data \<noteq> [] \<longrightarrow> unat (request_position req) + length data \<le> unat (cf_size f) \<and> \<not> cf_is_dir f \<and>
         (\<exists>content. clip_disk c (cf_path f) = Some content \<and> data = take (length data) (drop (unat (request_position req)) content))))"
proof -
  obtain req where msg: "msg = FileContentsRequest req" and
    answer: "FileContentsResponse 1 stream data \<in> set (fst (handle_file_contents_request e req c))"
    using assms
    by (cases msg) (auto simp: handle_cliprdr_def handle_cliprdr_host_def handle_cliprdr_client_def handle_format_data_request_host_def
        handle_incoming_format_list_def handle_format_data_response_def handle_file_contents_response_def advance_to_next_file_def
        size_received_def range_received_def request_size_def make_file_contents_request_def make_file_contents_request_full_def Let_def
        split: if_splits option.splits prod.splits)
  then have index: "unat (cr_list_index req) < length (clip_files c)"
    by (auto simp: handle_file_contents_request_def Let_def split: if_splits)
  let ?f = "clip_files c ! unat (cr_list_index req)" and ?p = "request_position req"
  have f: "?f \<in> set (clip_files c)" using index by simp
  have "cr_dw_flags req = FILECONTENTS_SIZE \<and> length data = 8 \<or> data = [] \<or>
      \<not> cf_is_dir ?f \<and> read_file_chunk e (c\<lparr>clip_served_requests := clip_served_requests c + 1\<rparr>) (cf_path ?f) ?p (unat (served_range req (cf_size ?f)))
        = Some data"
    using answer index
    by (auto simp: handle_file_contents_request_def Let_def served_range_def[symmetric] served_range_bounds(3) split: if_splits option.splits)
  moreover have ?thesis if chunk: "\<not> cf_is_dir ?f"
      "read_file_chunk e (c\<lparr>clip_served_requests := clip_served_requests c + 1\<rparr>) (cf_path ?f) ?p (unat (served_range req (cf_size ?f))) = Some data"
      "data \<noteq> []"
  proof -
    obtain content where content: "clip_disk c (cf_path ?f) = Some content"
      and data: "data = take (min (unat (served_range req (cf_size ?f))) (ce_read e)) (drop (unat ?p) content)"
      using chunk(2) by (auto simp: read_file_chunk_def split: if_splits)
    have len: "length data \<le> unat (served_range req (cf_size ?f))" by (simp add: data)
    have nonempty: "0 < length data" using chunk(3) by simp
    have "length data \<le> 256 * 1024" "unat ?p + length data \<le> unat (cf_size ?f)"
      using len served_range_bounds(1,2)[of req "cf_size ?f"] nonempty by linarith+
    moreover have "data = take (length data) (drop (unat ?p) content)" unfolding data by (metis append_eq_conv_conj append_take_drop_id)
    ultimately show ?thesis using msg f content chunk(1) by blast
  qed
  moreover have ?thesis if "cr_dw_flags req = FILECONTENTS_SIZE \<and> length data = 8 \<or> data = []"
    using that msg f by (intro exI[of _ req] exI[of _ ?f]) auto
  ultimately show ?thesis by argo
qed

theorem serves_only_announced_witness:
  "\<exists>req f. request_size 1 = FileContentsRequest req \<and> f \<in> set demo_list \<and>
     (cr_dw_flags req = FILECONTENTS_SIZE \<or> unat (request_position req) + 8 \<le> unat (cf_size f))"
proof -
  let ?c = "demo_clip\<lparr>clip_files := demo_list\<rparr>"
  define data where "data = le_bytes 4 (ucast (cf_size (demo_list ! 1)) :: u32) @ le_bytes 4 (ucast (drop_bit 32 (cf_size (demo_list ! 1))) :: u32)"
  have ne: "data \<noteq> []" "length data = 8" by (simp_all add: data_def numeral_eq_Suc)
  have "serves demo_list Map.empty ?c" by (simp add: serves_def demo_clip_def)
  then have "\<exists>s'. handle_cliprdr_client demo_clip_env (request_size 1) ?c = ([FileContentsResponse 1 1 data], s')"
    using serve_size[of demo_list Map.empty ?c 1 demo_clip_env] by (auto simp: data_def demo_list_def)
  then have "FileContentsResponse 1 1 data \<in> set (fst (handle_cliprdr False demo_clip_env (request_size 1) ?c))"
    by (auto simp: handle_cliprdr_def)
  from serves_only_announced[OF this] have "\<exists>req f. request_size 1 = FileContentsRequest req \<and> f \<in> set demo_list \<and>
      (cr_dw_flags req = FILECONTENTS_SIZE \<or> unat (request_position req) + length data \<le> unat (cf_size f))"
    using ne by (elim exE conjE disjE) auto
  then show ?thesis using ne(2) by simp
qed

text \<open>
  The file list survives its binary form: names of up to 259 UTF-16 units, sizes of 64 bits and which entries are folders.
\<close>

theorem file_list_survives:
  assumes "\<forall>f\<in>set fs. clip_name_ok (cf_rel_name f)" "length fs < 2 ^ 32"
  shows "parse_file_group_descriptor (build_file_group_descriptor fs) = map recv_of fs"
  by (rule parse_built_descriptor[OF assms])

theorem file_list_survives_witness: "parse_file_group_descriptor (build_file_group_descriptor demo_list) = map recv_of demo_list"
proof -
  have "\<forall>f\<in>set demo_list. clip_name_ok (cf_rel_name f)" "length demo_list < 2 ^ 32"
    using demo_safe clip_name_ok_safe by (simp_all add: demo_list_def is_scalar_def)
  then show ?thesis by (rule file_list_survives)
qed

lemma push_lands:
  assumes "clip_name_ok name" "is_safe_clip_name name" "92 \<notin> set name" "47 \<notin> set name" "content \<noteq> []" "length content < 2 ^ 63"
    and "ce_fault e = (\<lambda>_. NoFault)" "ce_clipboard_ok e" "\<forall>p\<in>set (clip_dirs c). \<not> starts_with (clip_temp_dir e @ [92]) p"
    and "f = \<lparr>cf_path = path, cf_rel_name = name, cf_size = of_nat (length content), cf_is_dir = False\<rparr>"
    and "c' = cliprdr_run host [(e, FormatDataResponse 1 (build_file_group_descriptor [f])),
           (e, FileContentsResponse 1 0 (le_bytes 4 (ucast (cf_size f) :: u32) @ le_bytes 4 (ucast (drop_bit 32 (cf_size f)) :: u32))),
           (e, FileContentsResponse 1 0 content)] c"
  shows "clip_disk c' (clip_temp_dir e @ [92] @ name) = Some content \<and> clip_board c' = Some [clip_temp_dir e @ [92] @ name]"
proof -
  let ?t = "clip_temp_dir e" and ?d = "(le_bytes 4 (ucast (cf_size f) :: u32) @ le_bytes 4 (ucast (drop_bit 32 (cf_size f)) :: u32))"
  have f: "cf_rel_name f = name" "\<not> cf_is_dir f" "unat (cf_size f) = length content" "recv_of f = recv_of ([f] ! 0)"
    using assms(6) by (simp_all add: assms(10) unat_of_nat)
  have "dirs_above name = []" using assms(3,4) by (intro dirs_above_plain) (auto simp: is_sep_def)
  then have list: "ancestors_listed [f]" "distinct (map cf_rel_name [f])" "top_level ?t [f] = [?t @ [92] @ name]"
    using assms(3) by (simp_all add: ancestors_listed_def top_level_def dest_def f(1))
  have same: "handle_cliprdr host e msg c = handle_cliprdr_host e msg c"
    if "msg = FormatDataResponse i x \<or> msg = FileContentsResponse i j x" for msg i j x c
    using that by (auto simp: handle_cliprdr_def handle_cliprdr_host_def handle_cliprdr_client_def)
  let ?c1 = "(create_dir_all e ?t c)\<lparr>clip_recv := Some (fetching [f] ?t 0 0 True)\<rparr>"
  have room: "room [f] ?t ?c1"
    using folders_made[OF list(1,2) assms(7,9)] assms(4) f(1,2) room_same[of ?c1 "create_dir_all e ?t c"] by (simp add: recv_of_def)
  have "build_file_group_descriptor [f] \<noteq> []" by (simp add: build_file_group_descriptor_def numeral_eq_Suc)
  then have s1: "snd (handle_cliprdr_host e (FormatDataResponse 1 (build_file_group_descriptor [f])) c) = ?c1"
    using assms(1,2) f(1,2) parse_built_descriptor[of "[f]"]
    by (simp add: handle_cliprdr_host_def handle_format_data_response_def next_file_def recv_of_def fetching_def Let_def)
  let ?c2 = "?c1\<lparr>clip_recv := Some (fetching [f] ?t 0 0 False)\<rparr>"
  have ne: "cf_size f \<noteq> 0" using f(3) assms(5) by auto
  have s2: "snd (handle_cliprdr_host e (FileContentsResponse 1 0 ?d) ?c1) = ?c2"
    using recv_size[of ?c1 "[f]" ?t 0 e 0] room list(1) assms(4,7) f(1,2) ne by simp
  have room2: "room [f] ?t ?c2" using room room_same[of ?c2 ?c1] by simp
  obtain r' where r': "clip_disk r' = (clip_disk ?c2)(dest ?t f \<mapsto> content)"
    and s3: "handle_cliprdr_host e (FileContentsResponse 1 0 content) ?c2 = advance_to_next_file e (fetching [f] ?t 0 (length content) False) r'"
    using recv_range[of ?c2 "[f]" ?t 0 0 e content "length content" 0] room2 list(1,2) assms(4,5,6,7) f(1-3) by auto
  have "advance_to_next_file e (fetching [f] ?t 0 (length content) False) r' =
      ([], finalize_received_files e (fetching [f] ?t 0 (length content) False) (r'\<lparr>clip_recv := Some (fetching [f] ?t 0 (length content) False)\<rparr>))"
    by (simp add: advance_to_next_file_def next_file_def fetching_fields)
  then have "c' = finalize_received_files e (fetching [f] ?t 0 (length content) False) (r'\<lparr>clip_recv := Some (fetching [f] ?t 0 (length content) False)\<rparr>)"
    using s1 s2 s3 by (simp add: assms(11) cliprdr_run_def same)
  then show ?thesis
    using finalize_fetched(1,2)[OF assms(8) _ fetching_fields(1,4)] list(3) r' f(1) by (simp add: dest_def)
qed

definition demo_file :: clip_file where
  "demo_file = \<lparr>cf_path = [97], cf_rel_name = [97], cf_size = of_nat (length [1, 2, 3 :: u8]), cf_is_dir = False\<rparr>"

definition demo_push :: "(clip_env \<times> cliprdr) list" where
  "demo_push = [(demo_clip_env, FormatDataResponse 1 (build_file_group_descriptor [demo_file])),
     (demo_clip_env, FileContentsResponse 1 0 (le_bytes 4 (ucast (cf_size demo_file) :: u32) @ le_bytes 4 (ucast (drop_bit 32 (cf_size demo_file)) :: u32))),
     (demo_clip_env, FileContentsResponse 1 0 [1, 2, 3])]"

text \<open>
  Received files are not announced back: after a fetch has changed the clipboard, checking it announces nothing, also when the list of
  paths announced last has been lost.
\<close>

theorem no_echo:
  assumes "clip_recv c = None" "clip_board (cliprdr_run host msgs c) \<noteq> clip_board c" "\<forall>(e', msg)\<in>set msgs. ce_temp e' = ce_temp e"
    and "\<And>s. ce_lower e (temp_root e @ CLIP_FOLDER @ s) = ce_lower e (temp_root e) @ CLIP_FOLDER @ ce_lower e s"
  shows "fst (check_clipboard_files_change e ((cliprdr_run host msgs c)\<lparr>clip_last_paths := paths\<rparr>)) = None"
proof -
  let ?F = "(\<lambda>(e, msg). clip_temp_dir e) ` set msgs"
  have "fetch_inv ?F c c" using assms(1) by (simp add: fetch_inv_def fetched_inside_def)
  then have "fetch_inv ?F c (cliprdr_run host msgs c)" by (rule cliprdr_run_inv) force
  then obtain ps where ps: "clip_board (cliprdr_run host msgs c) = Some ps" "\<forall>p\<in>set ps. \<exists>folder\<in>?F. lands_inside folder p"
    using assms(2) unfolding fetch_inv_def fetched_inside_def by blast
  have "is_received_download e p" if p: "p \<in> set ps" for p
  proof -
    obtain e' msg q where e': "(e', msg) \<in> set msgs" "p = clip_temp_dir e' @ [92] @ q"
      using ps(2) p by (force simp: lands_inside_def)
    then have "p = temp_root e @ CLIP_FOLDER @ (show_nat (ce_millis e') @ [92] @ q)"
      using assms(3) by (auto simp: clip_temp_dir_def temp_root_def)
    then have "ce_lower e p = ce_lower e (temp_root e) @ CLIP_FOLDER @ ce_lower e (show_nat (ce_millis e') @ [92] @ q)"
      using assms(4) by simp
    then show ?thesis by (simp add: is_received_download_def Let_def starts_with_def)
  qed
  then show ?thesis using ps(1) by (simp add: check_clipboard_files_change_def list_all_iff)
qed

theorem no_echo_witness:
  "fst (check_clipboard_files_change demo_clip_env ((cliprdr_run False demo_push demo_clip)\<lparr>clip_last_paths := []\<rparr>)) = None"
proof -
  have n: "clip_name_ok [97]" using demo_safe(3) clip_name_ok_safe by (simp add: is_scalar_def)
  have "clip_board (cliprdr_run False demo_push demo_clip) = Some [clip_temp_dir demo_clip_env @ [92] @ [97]]"
    unfolding demo_push_def
    by (rule conjunct2[OF push_lands[OF n demo_safe(3) _ _ _ _ _ _ _ demo_file_def refl]]) (simp_all add: demo_clip_env_def demo_clip_def)
  then have board: "clip_board (cliprdr_run False demo_push demo_clip) \<noteq> clip_board demo_clip" by (simp add: demo_clip_def)
  have start: "clip_recv demo_clip = None" and temp: "\<forall>(e', msg)\<in>set demo_push. ce_temp e' = ce_temp demo_clip_env"
    by (simp_all add: demo_clip_def demo_push_def)
  have "ce_lower demo_clip_env (temp_root demo_clip_env @ CLIP_FOLDER @ s) =
      ce_lower demo_clip_env (temp_root demo_clip_env) @ CLIP_FOLDER @ ce_lower demo_clip_env s" for s
    by (simp add: demo_clip_env_def)
  then show ?thesis by (rule no_echo[OF start board temp])
qed

text \<open>A defect: neither side checks that it asked. A peer that sends a file list, a size and contents on its own puts its file on the
  clipboard of the other machine, of a viewer too, which never asks for files.\<close>

theorem pushed_file_lands:
  assumes "clip_name_ok name" "is_safe_clip_name name" "92 \<notin> set name" "47 \<notin> set name" "content \<noteq> []" "length content < 2 ^ 63"
    and "ce_fault e = (\<lambda>_. NoFault)" "ce_clipboard_ok e" "\<forall>p\<in>set (clip_dirs c). \<not> starts_with (clip_temp_dir e @ [92]) p"
    and "f = \<lparr>cf_path = path, cf_rel_name = name, cf_size = of_nat (length content), cf_is_dir = False\<rparr>"
    and "c' = cliprdr_run host [(e, FormatDataResponse 1 (build_file_group_descriptor [f])),
           (e, FileContentsResponse 1 0 (le_bytes 4 (ucast (cf_size f) :: u32) @ le_bytes 4 (ucast (drop_bit 32 (cf_size f)) :: u32))),
           (e, FileContentsResponse 1 0 content)] c"
  shows "clip_disk c' (clip_temp_dir e @ [92] @ name) = Some content \<and> clip_board c' = Some [clip_temp_dir e @ [92] @ name]"
  by (rule push_lands[OF assms])

theorem pushed_file_lands_witness:
  "clip_disk (cliprdr_run False demo_push demo_clip) (clip_temp_dir demo_clip_env @ [92] @ [97]) = Some [1, 2, 3]"
proof -
  have n: "clip_name_ok [97]" using demo_safe(3) clip_name_ok_safe by (simp add: is_scalar_def)
  have e: "(92 :: nat) \<notin> set [97]" "(47 :: nat) \<notin> set [97]" "[1, 2, 3 :: u8] \<noteq> []" "length [1, 2, 3 :: u8] < 2 ^ 63"
      "ce_fault demo_clip_env = (\<lambda>_. NoFault)" "ce_clipboard_ok demo_clip_env"
      "\<forall>p\<in>set (clip_dirs demo_clip). \<not> starts_with (clip_temp_dir demo_clip_env @ [92]) p"
    by (simp_all add: demo_clip_env_def demo_clip_def)
  show ?thesis unfolding demo_push_def by (rule conjunct1[OF pushed_file_lands[OF n demo_safe(3) e demo_file_def refl]])
qed

text \<open>A defect: an empty piece counts as received. A peer that answers with nothing is asked the same again, without end.\<close>

theorem empty_pieces_never_end:
  assumes "clip_recv c = Some st" "\<not> rs_waiting_size st" "rs_current_index st < length (rs_files st)"
    and "0 < rs_current_offset st" "rs_current_offset st < rf_size (rs_files st ! rs_current_index st)"
    and "p = recv_path (rs_temp_dir st) (rs_files st ! rs_current_index st)" "clip_disk c p = Some old" "ce_fault e = (\<lambda>_. NoFault)"
  shows "clip_recv (cliprdr_run host (replicate n (e, FileContentsResponse 1 i [])) c) = Some st \<and>
    clip_disk (cliprdr_run host (replicate n (e, FileContentsResponse 1 i [])) c) = clip_disk c"
  using assms(1,7)
proof (induction n arbitrary: c)
  case (Suc n)
  let ?c = "(create_dir_all e (parent_dir p) c)\<lparr>clip_recv := Some st\<rparr>"
  have ne: "rs_current_offset st \<noteq> 0" using assms(4) by auto
  have "fs_append e p [] (create_dir_all e (parent_dir p) c) = (True, (create_dir_all e (parent_dir p) c)\<lparr>clip_disk := clip_disk c\<rparr>)"
    using Suc.prems(2) assms(8) by (simp add: fs_append_def fun_upd_idem)
  then have "snd (range_received e st [] c) = ((create_dir_all e (parent_dir p) c)\<lparr>clip_disk := clip_disk c\<rparr>)\<lparr>clip_recv := Some st\<rparr>"
    using range_received_written[OF assms(6), of e "[]" c "(create_dir_all e (parent_dir p) c)\<lparr>clip_disk := clip_disk c\<rparr>"] assms(5) ne
    by (simp add: Let_def not_le[symmetric])
  then have "snd (handle_cliprdr host e (FileContentsResponse 1 i []) c) = ((create_dir_all e (parent_dir p) c)\<lparr>clip_disk := clip_disk c\<rparr>)\<lparr>clip_recv := Some st\<rparr>"
    using Suc.prems(1) assms(2,3)
    by (simp add: handle_cliprdr_def handle_cliprdr_host_def handle_cliprdr_client_def handle_file_contents_response_def)
  then show ?case using Suc.IH[of "((create_dir_all e (parent_dir p) c)\<lparr>clip_disk := clip_disk c\<rparr>)\<lparr>clip_recv := Some st\<rparr>"] Suc.prems
    by (simp add: cliprdr_run_def)
qed (simp add: cliprdr_run_def)


theorem empty_pieces_never_end_witness:
  "clip_recv (cliprdr_run True (replicate 5 (demo_clip_env, FileContentsResponse 1 0 []))
     (demo_clip\<lparr>clip_recv := Some (fetching [demo_file] [84] 0 1 False), clip_disk := [[84, 92, 97] \<mapsto> [1]]\<rparr>)) =
   Some (fetching [demo_file] [84] 0 1 False)"
proof -
  let ?st = "fetching [demo_file] [84] 0 1 False" and ?c = "demo_clip\<lparr>clip_recv := Some (fetching [demo_file] [84] 0 1 False), clip_disk := [[84, 92, 97] \<mapsto> [1]]\<rparr>"
  have h: "clip_recv ?c = Some ?st" "\<not> rs_waiting_size ?st" "rs_current_index ?st < length (rs_files ?st)" "0 < rs_current_offset ?st"
      "rs_current_offset ?st < rf_size (rs_files ?st ! rs_current_index ?st)" "clip_disk ?c [84, 92, 97] = Some [1]"
      "[84, 92, 97] = recv_path (rs_temp_dir ?st) (rs_files ?st ! rs_current_index ?st)" "ce_fault demo_clip_env = (\<lambda>_. NoFault)"
    by (simp_all add: fetching_def recv_of_def demo_file_def recv_path_def backslashes_def demo_clip_env_def)
  show ?thesis using empty_pieces_never_end[OF h(1-5,7,6,8)] by simp
qed

end
