(* ===== verification/Desk_Input.thy ===== *)
theory Desk_Input
  imports Clip_Files "HOL-Library.Signed_Division"
begin

text \<open>
  \<open>src/src/input.rs\<close> and the mouse and keyboard handlers of \<open>src/src/server.rs\<close>: what a peer's events become on the controlled machine.
  The state holds the keys a session has pressed (\<open>HELD_VKS\<close>, \<open>HELD_SCANCODES\<close>; the order of a list stands for the iteration order of a set)
  and the calls made to Windows. Screen size and keyboard layout are the system's.
\<close>

section \<open>Keys and buttons\<close>

datatype os_event =
    KeyInput u16 u16 u32
  | MouseInput i32 i32 u32 u32
  | LockWorkStation

record hid =
  hid_vks :: "u16 list"
  hid_scans :: "u16 list"
  hid_sent :: "os_event list"

record input_env =
  ie_screen :: "int \<times> int"
  ie_vk_key_scan :: "u16 \<Rightarrow> 16 word"
  ie_map_virtual_key :: "u32 \<Rightarrow> u32"

definition send_input :: "os_event \<Rightarrow> hid \<Rightarrow> hid" where
  "send_input ev h = h\<lparr>hid_sent := hid_sent h @ [ev]\<rparr>"

definition KEYEVENTF_EXTENDEDKEY :: u32 where "KEYEVENTF_EXTENDEDKEY = 0x0001"
definition KEYEVENTF_KEYUP :: u32 where "KEYEVENTF_KEYUP = 0x0002"
definition KEYEVENTF_UNICODE :: u32 where "KEYEVENTF_UNICODE = 0x0004"
definition KEYEVENTF_SCANCODE :: u32 where "KEYEVENTF_SCANCODE = 0x0008"

text \<open>\<open>VK_INSERT\<close>, \<open>VK_DELETE\<close>, \<open>VK_HOME\<close>, \<open>VK_END\<close>, \<open>VK_PRIOR\<close>, \<open>VK_NEXT\<close>, the arrows, \<open>VK_DIVIDE\<close>, \<open>VK_SNAPSHOT\<close>, \<open>VK_RCONTROL\<close>,
  \<open>VK_RMENU\<close>, \<open>VK_LWIN\<close>, \<open>VK_RWIN\<close>, \<open>VK_APPS\<close>.\<close>

definition is_extended_vk :: "u16 \<Rightarrow> bool" where
  "is_extended_vk vk \<longleftrightarrow>
     vk \<in> {0x2D, 0x2E, 0x24, 0x23, 0x21, 0x22, 0x25, 0x27, 0x26, 0x28, 0x6F, 0x2C, 0xA3, 0xA5, 0x5B, 0x5C, 0x5D}"

definition scan_with_flags :: "u16 \<Rightarrow> u16 \<times> u32" where
  "scan_with_flags scancode =
     (if scancode AND 0xFF00 = 0xE000 then (scancode AND 0x00FF, KEYEVENTF_SCANCODE OR KEYEVENTF_EXTENDEDKEY)
      else (scancode, KEYEVENTF_SCANCODE))"

definition vk_flags :: "u16 \<Rightarrow> u32" where
  "vk_flags vk = (if is_extended_vk vk then KEYEVENTF_EXTENDEDKEY else 0)"

definition up_flag :: "bool \<Rightarrow> u32" where
  "up_flag down = (if down then 0 else KEYEVENTF_KEYUP)"

definition vk_input :: "u16 \<Rightarrow> bool \<Rightarrow> os_event" where
  "vk_input vk down = KeyInput vk 0 (vk_flags vk OR up_flag down)"

definition scan_input :: "u16 \<Rightarrow> bool \<Rightarrow> os_event" where
  "scan_input scancode down = (let (scan, flags) = scan_with_flags scancode in KeyInput 0 scan (flags OR up_flag down))"

definition hold :: "bool \<Rightarrow> u16 \<Rightarrow> u16 list \<Rightarrow> u16 list" where
  "hold down k held = (if down then List.insert k held else removeAll k held)"

definition release_all_held_keys :: "hid \<Rightarrow> hid" where
  "release_all_held_keys h =
     (let h1 = (fold (\<lambda>vk. send_input (vk_input vk False)) (hid_vks h) h)\<lparr>hid_vks := []\<rparr>
      in (fold (\<lambda>sc. send_input (scan_input sc False)) (hid_scans h1) h1)\<lparr>hid_scans := []\<rparr>)"

definition key_event :: "u16 \<Rightarrow> bool \<Rightarrow> hid \<Rightarrow> hid" where
  "key_event scancode down h = send_input (scan_input scancode down) (h\<lparr>hid_scans := hold down scancode (hid_scans h)\<rparr>)"

definition vk_event :: "u16 \<Rightarrow> bool \<Rightarrow> hid \<Rightarrow> hid" where
  "vk_event vk down h = send_input (vk_input vk down) (h\<lparr>hid_vks := hold down vk (hid_vks h)\<rparr>)"

definition unicode_char_down :: "u16 \<Rightarrow> hid \<Rightarrow> hid" where
  "unicode_char_down ch = send_input (KeyInput 0 ch KEYEVENTF_UNICODE)"

definition unicode_char_up :: "u16 \<Rightarrow> hid \<Rightarrow> hid" where
  "unicode_char_up ch = send_input (KeyInput 0 ch (KEYEVENTF_UNICODE OR KEYEVENTF_KEYUP))"

definition unicode_sequence :: "rstr \<Rightarrow> hid \<Rightarrow> hid" where
  "unicode_sequence s = fold (\<lambda>ch h. unicode_char_up ch (unicode_char_down ch h)) (encode_utf16 s)"

definition char_to_vk :: "input_env \<Rightarrow> rchar \<Rightarrow> (u16 \<times> bool) option" where
  "char_to_vk ie ch =
     (let result = ie_vk_key_scan ie (of_nat ch)
      in if result = - 1 then None else Some (result AND 0xFF, signed_drop_bit 8 result AND 1 \<noteq> 0))"

definition vk_to_scancode_event :: "input_env \<Rightarrow> u16 \<Rightarrow> bool \<Rightarrow> hid \<Rightarrow> hid" where
  "vk_to_scancode_event ie vk down h =
     (if is_extended_vk vk then vk_event vk down h
      else let scan = ucast (ie_map_virtual_key ie (ucast vk)) :: u16
           in if scan \<noteq> 0 then key_event scan down h else vk_event vk down h)"

definition unicode_char :: "rchar \<Rightarrow> bool \<Rightarrow> hid \<Rightarrow> hid" where
  "unicode_char c down = (if down then unicode_char_down (of_nat c) else unicode_char_up (of_nat c))"

definition legacy_char_event :: "input_env \<Rightarrow> u32 \<Rightarrow> bool \<Rightarrow> bool \<Rightarrow> hid \<Rightarrow> hid" where
  "legacy_char_event ie chr down has_modifiers h =
     (if \<not> is_scalar (unat chr) then h
      else if has_modifiers then
        (case char_to_vk ie (unat chr) of None \<Rightarrow> h | Some (vk, shift) \<Rightarrow> vk_event vk down h)
      else unicode_char (unat chr) down h)"

definition translate_chr_event :: "u32 \<Rightarrow> bool \<Rightarrow> hid \<Rightarrow> hid" where
  "translate_chr_event code down h =
     (let vk_code = ucast (drop_bit 16 code) :: u16; scancode = ucast (code AND 0xFFFF) :: u16
      in if vk_code \<noteq> 0 then vk_event vk_code down h
         else if scancode \<noteq> 0 then key_event scancode down h else h)"

definition win2win_hotkey_event :: "input_env \<Rightarrow> u32 \<Rightarrow> bool \<Rightarrow> hid \<Rightarrow> hid" where
  "win2win_hotkey_event ie code down h =
     (let unicode = ucast (code AND 0x0000FFFF) :: u16; vk = ucast (drop_bit 16 code AND 0x0000FFFF) :: u16
      in if down \<and> unicode \<noteq> 0 then unicode_char_up unicode (unicode_char_down unicode h)
         else if vk \<noteq> 0 then vk_to_scancode_event ie vk down h else h)"

section \<open>The mouse\<close>

datatype mouse_button = LeftButton | RightButton | MiddleButton | BackButton | ForwardButton

definition mouse_move_to :: "input_env \<Rightarrow> i32 \<Rightarrow> i32 \<Rightarrow> hid \<Rightarrow> hid" where
  "mouse_move_to ie x y h =
     (let (sw, sh) = ie_screen ie
      in if sw = 0 \<or> sh = 0 then h
         else send_input (MouseInput (word_of_int ((sint x * 65536) sdiv sw)) (word_of_int ((sint y * 65536) sdiv sh)) (0x0001 OR 0x8000) 0) h)"

definition send_mouse_event :: "u32 \<Rightarrow> u32 \<Rightarrow> hid \<Rightarrow> hid" where
  "send_mouse_event flags data = send_input (MouseInput 0 0 flags data)"

definition mouse_down :: "mouse_button \<Rightarrow> hid \<Rightarrow> hid" where
  "mouse_down b =
     (case b of
        LeftButton \<Rightarrow> send_mouse_event 0x0002 0 | RightButton \<Rightarrow> send_mouse_event 0x0008 0 | MiddleButton \<Rightarrow> send_mouse_event 0x0020 0
      | BackButton \<Rightarrow> send_mouse_event 0x0080 1 | ForwardButton \<Rightarrow> send_mouse_event 0x0080 2)"

definition mouse_up :: "mouse_button \<Rightarrow> hid \<Rightarrow> hid" where
  "mouse_up b =
     (case b of
        LeftButton \<Rightarrow> send_mouse_event 0x0004 0 | RightButton \<Rightarrow> send_mouse_event 0x0010 0 | MiddleButton \<Rightarrow> send_mouse_event 0x0040 0
      | BackButton \<Rightarrow> send_mouse_event 0x0100 1 | ForwardButton \<Rightarrow> send_mouse_event 0x0100 2)"

definition mouse_scroll :: "i32 \<Rightarrow> hid \<Rightarrow> hid" where
  "mouse_scroll delta = send_mouse_event 0x0800 delta"

definition mouse_hscroll :: "i32 \<Rightarrow> hid \<Rightarrow> hid" where
  "mouse_hscroll delta = send_mouse_event 0x01000 delta"

record mouse_event =
  me_mask :: i32
  me_x :: i32
  me_y :: i32

definition MOUSE_TYPE_MOVE :: i32 where "MOUSE_TYPE_MOVE = 0"
definition MOUSE_TYPE_DOWN :: i32 where "MOUSE_TYPE_DOWN = 1"
definition MOUSE_TYPE_UP :: i32 where "MOUSE_TYPE_UP = 2"
definition MOUSE_TYPE_WHEEL :: i32 where "MOUSE_TYPE_WHEEL = 3"
definition MOUSE_TYPE_TRACKPAD :: i32 where "MOUSE_TYPE_TRACKPAD = 4"
definition WHEEL_DELTA :: i32 where "WHEEL_DELTA = 120"

definition button_of :: "i32 \<Rightarrow> mouse_button option" where
  "button_of buttons =
     (if buttons = 0x01 then Some LeftButton else if buttons = 0x02 then Some RightButton else if buttons = 0x04 then Some MiddleButton
      else if buttons = 0x08 then Some BackButton else if buttons = 0x10 then Some ForwardButton else None)"

definition handle_mouse_event :: "input_env \<Rightarrow> mouse_event \<Rightarrow> hid \<Rightarrow> hid" where
  "handle_mouse_event ie me h =
     (let x = me_x me; y = me_y me; evt_type = me_mask me AND 0x7; buttons = signed_drop_bit 3 (me_mask me);
          placed = (if x \<noteq> 0 \<or> y \<noteq> 0 then mouse_move_to ie x y h else h)
      in if evt_type = MOUSE_TYPE_MOVE then mouse_move_to ie x y h
         else if evt_type = MOUSE_TYPE_DOWN then (case button_of buttons of Some b \<Rightarrow> mouse_down b placed | None \<Rightarrow> placed)
         else if evt_type = MOUSE_TYPE_UP then (case button_of buttons of Some b \<Rightarrow> mouse_up b placed | None \<Rightarrow> placed)
         else if evt_type = MOUSE_TYPE_WHEEL \<or> evt_type = MOUSE_TYPE_TRACKPAD then
           let wheel_delta = (if evt_type = MOUSE_TYPE_WHEEL then WHEEL_DELTA else 1); hscroll = - x * wheel_delta; vscroll = y * wheel_delta;
               h1 = (if vscroll \<noteq> 0 then mouse_scroll vscroll h else h)
           in if hscroll \<noteq> 0 then mouse_hscroll hscroll h1 else h1
         else h)"

section \<open>The keyboard\<close>

datatype (plugins only: size) control_key =
    CK_Unknown | CK_Alt | CK_Backspace | CK_CapsLock | CK_Control | CK_Delete | CK_DownArrow | CK_End | CK_Escape | CK_F1 | CK_F10 | CK_F11
    | CK_F12 | CK_F2 | CK_F3 | CK_F4 | CK_F5 | CK_F6 | CK_F7 | CK_F8 | CK_F9 | CK_Home | CK_LeftArrow | CK_Meta | CK_Option | CK_PageDown
    | CK_PageUp | CK_Return | CK_RightArrow | CK_Shift | CK_Space | CK_Tab | CK_UpArrow | CK_Numpad0 | CK_Numpad1 | CK_Numpad2 | CK_Numpad3
    | CK_Numpad4 | CK_Numpad5 | CK_Numpad6 | CK_Numpad7 | CK_Numpad8 | CK_Numpad9 | CK_Cancel | CK_Clear | CK_Menu | CK_Pause | CK_Kana
    | CK_Hangul | CK_Junja | CK_Final | CK_Hanja | CK_Kanji | CK_Convert | CK_Select | CK_Print | CK_Execute | CK_Snapshot | CK_Insert
    | CK_Help | CK_Sleep | CK_Separator | CK_Scroll | CK_NumLock | CK_RWin | CK_Apps | CK_Multiply | CK_Add | CK_Subtract | CK_Decimal
    | CK_Divide | CK_Equals | CK_NumpadEnter | CK_RShift | CK_RControl | CK_RAlt | CK_VolumeMute | CK_VolumeUp | CK_VolumeDown | CK_Power
    | CK_CtrlAltDel | CK_LockScreen

datatype keyboard_mode = KLegacy | KMap | KTranslate | KAuto

datatype key_union = ControlKey control_key | Chr u32 | Unicode u32 | Seq rstr | Win2winHotkey u32

record key_msg =
  ke_down :: bool
  ke_press :: bool
  ke_union :: "key_union option"
  ke_modifiers :: "control_key list"
  ke_mode :: keyboard_mode

definition VK_TABLE :: "(control_key \<times> u16) list" where
  "VK_TABLE = [
    (CK_Alt, 0x12), (CK_Backspace, 0x08), (CK_CapsLock, 0x14), (CK_Control, 0x11), (CK_Delete, 0x2E), (CK_DownArrow, 0x28), (CK_End, 0x23),
     (CK_Escape, 0x1B), (CK_F1, 0x70), (CK_F2, 0x71), (CK_F3, 0x72), (CK_F4, 0x73), (CK_F5, 0x74), (CK_F6, 0x75), (CK_F7, 0x76),
     (CK_F8, 0x77), (CK_F9, 0x78), (CK_F10, 0x79), (CK_F11, 0x7A), (CK_F12, 0x7B), (CK_Home, 0x24), (CK_LeftArrow, 0x25), (CK_Meta, 0x5B),
     (CK_PageDown, 0x22), (CK_PageUp, 0x21), (CK_Return, 0x0D), (CK_RightArrow, 0x27), (CK_Shift, 0x10), (CK_Space, 0x20), (CK_Tab, 0x09),
     (CK_UpArrow, 0x26), (CK_Numpad0, 0x60), (CK_Numpad1, 0x61), (CK_Numpad2, 0x62), (CK_Numpad3, 0x63), (CK_Numpad4, 0x64),
     (CK_Numpad5, 0x65), (CK_Numpad6, 0x66), (CK_Numpad7, 0x67), (CK_Numpad8, 0x68), (CK_Numpad9, 0x69), (CK_Insert, 0x2D),
     (CK_Scroll, 0x91), (CK_NumLock, 0x90), (CK_Pause, 0x13), (CK_Multiply, 0x6A), (CK_Add, 0x6B), (CK_Subtract, 0x6D), (CK_Decimal, 0x6E),
     (CK_Divide, 0x6F), (CK_RShift, 0xA1), (CK_RControl, 0xA3), (CK_RAlt, 0xA5), (CK_Apps, 0x5D), (CK_RWin, 0x5C), (CK_VolumeMute, 0xAD),
     (CK_VolumeDown, 0xAE), (CK_VolumeUp, 0xAF)]"

definition control_key_vk :: "control_key \<Rightarrow> u16 option" where
  "control_key_vk ck = map_of VK_TABLE ck"

definition control_key_to_vk :: "control_key \<Rightarrow> hid \<Rightarrow> u16 option \<times> hid" where
  "control_key_to_vk ck h = (if ck = CK_LockScreen then (None, send_input LockWorkStation h) else (control_key_vk ck, h))"

definition control_key_event :: "control_key \<Rightarrow> bool \<Rightarrow> hid \<Rightarrow> hid" where
  "control_key_event ck down h = (case control_key_to_vk ck h of (Some vk, h') \<Rightarrow> vk_event vk down h' | (None, h') \<Rightarrow> h')"

definition has_modifiers :: "key_msg \<Rightarrow> bool" where
  "has_modifiers ke = list_ex (\<lambda>k. k \<in> {CK_Control, CK_RControl, CK_Alt, CK_RAlt, CK_Meta, CK_RWin}) (ke_modifiers ke)"

definition legacy_keyboard_mode :: "input_env \<Rightarrow> key_msg \<Rightarrow> hid \<Rightarrow> hid" where
  "legacy_keyboard_mode ie ke h =
     (case ke_union ke of
        Some (ControlKey ck) \<Rightarrow> control_key_event ck (ke_down ke) h
      | Some (Chr chr) \<Rightarrow> legacy_char_event ie chr (ke_down ke) (has_modifiers ke) h
      | Some (Unicode ch) \<Rightarrow> if is_scalar (unat ch) then unicode_char (unat ch) (ke_down ke) h else h
      | Some (Seq s) \<Rightarrow> unicode_sequence s h
      | Some (Win2winHotkey code) \<Rightarrow> win2win_hotkey_event ie code (ke_down ke) h
      | None \<Rightarrow> h)"

definition translate_keyboard_mode :: "input_env \<Rightarrow> key_msg \<Rightarrow> hid \<Rightarrow> hid" where
  "translate_keyboard_mode ie ke h =
     (case ke_union ke of
        Some (Chr code) \<Rightarrow> translate_chr_event code (ke_down ke) h
      | Some (Seq s) \<Rightarrow> unicode_sequence s h
      | Some (Win2winHotkey code) \<Rightarrow> win2win_hotkey_event ie code (ke_down ke) h
      | Some (ControlKey ck) \<Rightarrow> control_key_event ck (ke_down ke) h
      | _ \<Rightarrow> h)"

definition map_keyboard_mode :: "key_msg \<Rightarrow> hid \<Rightarrow> hid" where
  "map_keyboard_mode ke h =
     (case ke_union ke of
        Some (Chr code) \<Rightarrow> key_event (ucast code) (ke_down ke) h
      | Some (ControlKey ck) \<Rightarrow> control_key_event ck (ke_down ke) h
      | Some (Seq s) \<Rightarrow> unicode_sequence s h
      | _ \<Rightarrow> h)"

definition handle_key_event :: "input_env \<Rightarrow> key_msg \<Rightarrow> hid \<Rightarrow> hid" where
  "handle_key_event ie ke h =
     (let h1 = (case ke_mode ke of
                  KTranslate \<Rightarrow> translate_keyboard_mode ie ke h
                | KMap \<Rightarrow> map_keyboard_mode ke h
                | _ \<Rightarrow> legacy_keyboard_mode ie ke h)
      in if \<not> ke_press ke then h1
         else case ke_union ke of
           Some (ControlKey ck) \<Rightarrow>
             (case control_key_to_vk ck h1 of (Some vk, h2) \<Rightarrow> vk_event vk False (vk_event vk True h2) | (None, h2) \<Rightarrow> h2)
         | _ \<Rightarrow> h1)"

section \<open>Who moves the mouse\<close>

text \<open>\<open>MOUSE_OWNER_SESSION\<close> is shared by all sessions; zero is nobody.\<close>

definition claim_mouse :: "mouse_event \<Rightarrow> u32 \<Rightarrow> u32 \<Rightarrow> bool \<times> u32" where
  "claim_mouse me session_id owner =
     (if owner = 0 \<or> owner = session_id \<or> me_mask me AND 0x7 = MOUSE_TYPE_DOWN then (True, session_id) else (False, owner))"

definition release_mouse_owner :: "u32 \<Rightarrow> u32 \<Rightarrow> u32" where
  "release_mouse_owner session_id owner = (if owner = session_id then 0 else owner)"

section \<open>What is down\<close>

text \<open>What Windows takes for down after these calls: virtual keys by their code, scan codes by code and extension, characters entered as
  unicode, and mouse buttons.\<close>

record down =
  dn_vks :: "u16 set"
  dn_scans :: "(u16 \<times> bool) set"
  dn_chars :: "u16 set"
  dn_buttons :: "mouse_button set"

definition change :: "bool \<Rightarrow> 'a \<Rightarrow> 'a set \<Rightarrow> 'a set" where
  "change up k ks = (if up then ks - {k} else insert k ks)"

definition key_change :: "u16 \<Rightarrow> u16 \<Rightarrow> u32 \<Rightarrow> down \<Rightarrow> down" where
  "key_change vk scan flags p =
     (let up = flags AND KEYEVENTF_KEYUP \<noteq> 0; key = (scan, flags AND KEYEVENTF_EXTENDEDKEY \<noteq> 0)
      in if flags AND KEYEVENTF_UNICODE \<noteq> 0 then p\<lparr>dn_chars := change up scan (dn_chars p)\<rparr>
         else if flags AND KEYEVENTF_SCANCODE \<noteq> 0 then p\<lparr>dn_scans := change up key (dn_scans p)\<rparr>
         else p\<lparr>dn_vks := change up vk (dn_vks p)\<rparr>)"

text \<open>The flags for a button going down and up; the extended buttons are told apart by the data.\<close>

definition button_change :: "u32 \<Rightarrow> u32 \<Rightarrow> (bool \<times> mouse_button) option" where
  "button_change flags data =
     (let extended = (if data = 1 then Some BackButton else if data = 2 then Some ForwardButton else None)
      in if flags AND 0x0002 \<noteq> 0 then Some (False, LeftButton) else if flags AND 0x0004 \<noteq> 0 then Some (True, LeftButton)
         else if flags AND 0x0008 \<noteq> 0 then Some (False, RightButton) else if flags AND 0x0010 \<noteq> 0 then Some (True, RightButton)
         else if flags AND 0x0020 \<noteq> 0 then Some (False, MiddleButton) else if flags AND 0x0040 \<noteq> 0 then Some (True, MiddleButton)
         else if flags AND 0x0080 \<noteq> 0 then map_option (Pair False) extended
         else if flags AND 0x0100 \<noteq> 0 then map_option (Pair True) extended
         else None)"

fun pressed_step :: "os_event \<Rightarrow> down \<Rightarrow> down" where
  "pressed_step (KeyInput vk scan flags) p = key_change vk scan flags p"
| "pressed_step (MouseInput dx dy flags data) p =
     (case button_change flags data of Some (up, b) \<Rightarrow> p\<lparr>dn_buttons := change up b (dn_buttons p)\<rparr> | None \<Rightarrow> p)"
| "pressed_step LockWorkStation p = p"

definition nothing_down :: down where
  "nothing_down = \<lparr>dn_vks = {}, dn_scans = {}, dn_chars = {}, dn_buttons = {}\<rparr>"

definition pressed :: "os_event list \<Rightarrow> down" where
  "pressed evs = fold pressed_step evs nothing_down"

definition scan_key :: "u16 \<Rightarrow> u16 \<times> bool" where
  "scan_key sc = (fst (scan_with_flags sc), snd (scan_with_flags sc) AND KEYEVENTF_EXTENDEDKEY \<noteq> 0)"

text \<open>The held sets are exact for virtual keys and scan codes; characters and buttons are kept within what the peer has pressed.\<close>

definition held_inv :: "u16 set \<Rightarrow> mouse_button set \<Rightarrow> hid \<Rightarrow> bool" where
  "held_inv chars buttons h \<longleftrightarrow>
     dn_vks (pressed (hid_sent h)) = set (hid_vks h) \<and> dn_scans (pressed (hid_sent h)) = scan_key ` set (hid_scans h) \<and>
     dn_chars (pressed (hid_sent h)) \<subseteq> chars \<and> dn_buttons (pressed (hid_sent h)) \<subseteq> buttons"

text \<open>The characters and buttons a message presses and does not release.\<close>

definition typed_chars :: "key_msg \<Rightarrow> u16 set" where
  "typed_chars ke =
     (if \<not> ke_down ke \<or> ke_mode ke \<in> {KMap, KTranslate} then {}
      else case ke_union ke of
        Some (Chr c) \<Rightarrow> if is_scalar (unat c) \<and> \<not> has_modifiers ke then {of_nat (unat c)} else {}
      | Some (Unicode c) \<Rightarrow> if is_scalar (unat c) then {of_nat (unat c)} else {}
      | _ \<Rightarrow> {})"

definition pushed_buttons :: "mouse_event \<Rightarrow> mouse_button set" where
  "pushed_buttons me =
     (if me_mask me AND 0x7 = MOUSE_TYPE_DOWN then set_option (button_of (signed_drop_bit 3 (me_mask me))) else {})"

lemma pressed_snoc:
  "pressed (evs @ [ev]) = pressed_step ev (pressed evs)" "pressed (evs @ [ev, ev']) = pressed_step ev' (pressed_step ev (pressed evs))"
  by (simp_all add: pressed_def)

lemmas key_flags = KEYEVENTF_EXTENDEDKEY_def KEYEVENTF_KEYUP_def KEYEVENTF_UNICODE_def KEYEVENTF_SCANCODE_def

lemma scan_key_cases:
  "scan_key sc = (if sc AND 0xFF00 = 0xE000 then (sc AND 0x00FF, True) else (sc, False))"
  by (simp add: scan_key_def scan_with_flags_def key_flags)

lemma inj_scan_key: "inj scan_key"
proof (rule injI)
  fix a b :: u16 assume eq: "scan_key a = scan_key b"
  have split: "w = (w AND 0xFF00) OR (w AND 0x00FF)" for w :: u16
  proof -
    have "(0xFFFF :: u16) = - 1" by simp
    then have "w AND 0xFFFF = w" by (metis bit.conj_one_right)
    then show ?thesis by (simp flip: bit.conj_disj_distrib)
  qed
  show "a = b"
    using eq split[of a] split[of b] by (auto simp: scan_key_cases split: if_splits)
qed

lemma vk_pressed: "pressed_step (vk_input vk down) p = p\<lparr>dn_vks := change (\<not> down) vk (dn_vks p)\<rparr>"
  by (simp add: vk_input_def vk_flags_def up_flag_def key_flags key_change_def Let_def)

lemma scan_pressed: "pressed_step (scan_input sc down) p = p\<lparr>dn_scans := change (\<not> down) (scan_key sc) (dn_scans p)\<rparr>"
  by (simp add: scan_input_def scan_key_def scan_with_flags_def up_flag_def key_flags key_change_def Let_def)

lemma char_pressed:
  "key_change vk ch KEYEVENTF_UNICODE p = p\<lparr>dn_chars := insert ch (dn_chars p)\<rparr>"
  "key_change vk ch (KEYEVENTF_UNICODE OR KEYEVENTF_KEYUP) p = p\<lparr>dn_chars := dn_chars p - {ch}\<rparr>"
  by (simp_all add: key_flags key_change_def change_def Let_def)

lemma held_vk: "held_inv cs bs h \<Longrightarrow> held_inv cs bs (vk_event vk down h)"
  by (auto simp: held_inv_def vk_event_def send_input_def pressed_snoc vk_pressed hold_def change_def)

lemma held_scan: "held_inv cs bs h \<Longrightarrow> held_inv cs bs (key_event sc down h)"
  using inj_scan_key
  by (auto simp: held_inv_def key_event_def send_input_def pressed_snoc scan_pressed hold_def change_def inj_on_def)

lemma held_other:
  assumes "held_inv cs bs h" "pressed_step ev (pressed (hid_sent h)) = pressed (hid_sent h)"
  shows "held_inv cs bs (send_input ev h)"
  using assms by (simp add: held_inv_def send_input_def pressed_snoc)

lemma held_char:
  "held_inv cs bs h \<Longrightarrow> ch \<in> cs \<Longrightarrow> held_inv cs bs (unicode_char_down ch h)"
  "held_inv cs bs h \<Longrightarrow> held_inv cs bs (unicode_char_up ch h)"
  by (auto simp: held_inv_def unicode_char_down_def unicode_char_up_def send_input_def pressed_snoc char_pressed)

lemma held_char_pair: "held_inv cs bs h \<Longrightarrow> held_inv cs bs (unicode_char_up ch (unicode_char_down ch h))"
  by (auto simp: held_inv_def unicode_char_down_def unicode_char_up_def send_input_def pressed_snoc char_pressed)

lemma held_quiet_mouse:
  "button_change fl d = None \<Longrightarrow> held_inv cs bs h \<Longrightarrow> held_inv cs bs (send_input (MouseInput dx dy fl d) h)"
  "held_inv cs bs h \<Longrightarrow> held_inv cs bs (send_input LockWorkStation h)"
  by (auto intro!: held_other)

lemmas held_intros = held_vk held_scan held_char held_char_pair held_quiet_mouse(2)

lemma held_sequence: "held_inv cs bs h \<Longrightarrow> held_inv cs bs (unicode_sequence s h)"
  unfolding unicode_sequence_def by (rule fold_invariant[where Q = "\<lambda>_. True"]) (auto intro: held_char_pair)

lemma held_key_msg:
  assumes h: "held_inv cs bs h" and typed: "typed_chars ke \<subseteq> cs"
  shows "held_inv cs bs (handle_key_event ie ke h)"
proof -
  have ck: "held_inv cs bs h \<Longrightarrow> held_inv cs bs (control_key_event ck down h)" for ck down h
    by (auto simp: control_key_event_def control_key_to_vk_def intro: held_intros split: option.split)
  have w: "held_inv cs bs h \<Longrightarrow> held_inv cs bs (win2win_hotkey_event ie code down h)" for code down h
    by (auto simp: win2win_hotkey_event_def vk_to_scancode_event_def Let_def intro: held_intros)
  have u: "held_inv cs bs h \<Longrightarrow> (down \<Longrightarrow> of_nat c \<in> cs) \<Longrightarrow> held_inv cs bs (unicode_char c down h)" for c down h
    by (auto simp: unicode_char_def intro: held_intros)
  have l: "held_inv cs bs (legacy_keyboard_mode ie ke h)" if "ke_mode ke \<notin> {KMap, KTranslate}"
    using h ck w held_sequence typed that
    by (auto simp: legacy_keyboard_mode_def legacy_char_event_def typed_chars_def intro!: u intro: held_intros split: option.split key_union.split)
  have t: "held_inv cs bs (translate_keyboard_mode ie ke h)"
    using h ck w held_sequence
    by (auto simp: translate_keyboard_mode_def translate_chr_event_def Let_def intro: held_intros split: option.split key_union.split)
  have m: "held_inv cs bs (map_keyboard_mode ke h)"
    using h ck held_sequence by (auto simp: map_keyboard_mode_def intro: held_intros split: option.split key_union.split)
  show ?thesis
    using l t m
    by (auto simp: handle_key_event_def control_key_to_vk_def Let_def intro!: held_intros split: option.split key_union.split keyboard_mode.split)
qed

lemma button_pressed:
  "held_inv cs bs h \<Longrightarrow> b \<in> bs \<Longrightarrow> held_inv cs bs (mouse_down b h)" "held_inv cs bs h \<Longrightarrow> held_inv cs bs (mouse_up b h)"
  by (auto simp: held_inv_def mouse_down_def mouse_up_def send_mouse_event_def send_input_def pressed_snoc button_change_def change_def Let_def
      split: mouse_button.split)

lemma held_mouse_msg:
  assumes h: "held_inv cs bs h" and pushed: "pushed_buttons me \<subseteq> bs"
  shows "held_inv cs bs (handle_mouse_event ie me h)"
proof -
  have mv: "held_inv cs bs h \<Longrightarrow> held_inv cs bs (mouse_move_to ie x y h)" for x y h
    by (auto simp: mouse_move_to_def button_change_def intro!: held_quiet_mouse(1) split: prod.split)
  have s: "held_inv cs bs h \<Longrightarrow> held_inv cs bs (mouse_scroll d h)" "held_inv cs bs h \<Longrightarrow> held_inv cs bs (mouse_hscroll d h)" for d h
    by (auto simp: mouse_scroll_def mouse_hscroll_def send_mouse_event_def button_change_def intro!: held_quiet_mouse(1))
  show ?thesis
    using h mv s button_pressed pushed by (auto simp: handle_mouse_event_def pushed_buttons_def Let_def split: option.split)
qed

lemma send_fields: "hid_sent (send_input ev h) = hid_sent h @ [ev]" "hid_scans (send_input ev h) = hid_scans h"
  by (simp_all add: send_input_def)

lemma release_vks:
  "pressed (hid_sent (fold (\<lambda>vk. send_input (vk_input vk False)) ks h)) = (pressed (hid_sent h))\<lparr>dn_vks := dn_vks (pressed (hid_sent h)) - set ks\<rparr> \<and>
   hid_scans (fold (\<lambda>vk. send_input (vk_input vk False)) ks h) = hid_scans h"
proof (induction ks arbitrary: h)
  case (Cons k ks)
  show ?case using Cons.IH[of "send_input (vk_input k False) h"]
    by (simp add: send_fields pressed_snoc vk_pressed change_def) (metis Diff_insert2)
qed simp

lemma release_scans:
  "pressed (hid_sent (fold (\<lambda>sc. send_input (scan_input sc False)) ks h)) =
     (pressed (hid_sent h))\<lparr>dn_scans := dn_scans (pressed (hid_sent h)) - scan_key ` set ks\<rparr>"
proof (induction ks arbitrary: h)
  case (Cons k ks)
  show ?case using Cons.IH[of "send_input (scan_input k False) h"]
    by (simp add: send_fields pressed_snoc scan_pressed change_def) (metis Diff_insert2)
qed simp

text \<open>At the end every virtual key and scan code goes up, and nothing else does.\<close>

lemma released_all:
  assumes "held_inv cs bs h"
  shows "pressed (hid_sent (release_all_held_keys h)) = (pressed (hid_sent h))\<lparr>dn_vks := {}, dn_scans := {}\<rparr>"
proof -
  let ?h1 = "fold (\<lambda>vk. send_input (vk_input vk False)) (hid_vks h) h"
  have h1: "pressed (hid_sent ?h1) = (pressed (hid_sent h))\<lparr>dn_vks := {}\<rparr>" "hid_scans ?h1 = hid_scans h"
    using release_vks[of "hid_vks h" h] assms by (simp_all add: held_inv_def)
  show ?thesis
    using release_scans[of "hid_scans h" "?h1\<lparr>hid_vks := []\<rparr>"] h1 assms
    by (simp add: release_all_held_keys_def Let_def held_inv_def)
qed

end
