(* ===== verification/Desktop.thy ===== *)
theory Desktop
  imports Desk_Input Config_Options "HOL-Library.Log_Nat"
begin

text \<open>
  A desktop session on the controlled machine: \<open>run_video_input_loop\<close> of \<open>src/src/server.rs\<close> with its handlers and
  \<open>src/src/clipboard.rs\<close>. One turn of the loop is one step. \<open>desk\<close> holds the local variables of the loop, the statics it shares and the list of
  what it did (\<open>dk_done\<close>); input goes to \<open>dk_hid\<close>. \<open>dturn\<close> is what a turn sees: clocks, the message, the files through which the
  connection manager answers, what Windows returns, and the owner of the mouse as other sessions left it.
\<close>

section \<open>Single precision\<close>

text \<open>Positive numbers of \<open>f32\<close> as rationals; \<open>f32\<close> rounds to the nearest, ties to even, within the exponents that occur here.\<close>

definition pow2 :: "int \<Rightarrow> rat" where
  "pow2 e = (if 0 \<le> e then 2 ^ nat e else 1 / 2 ^ nat (- e))"

definition round_half_even :: "rat \<Rightarrow> int" where
  "round_half_even x =
     (let n = \<lfloor>x\<rfloor>; d = x - of_int n
      in if d < 1 / 2 then n else if d > 1 / 2 then n + 1 else if even n then n else n + 1)"

definition f32 :: "rat \<Rightarrow> rat" where
  "f32 q =
     (if q \<le> 0 then 0
      else let ulp = pow2 (int (floorlog 2 (nat \<lfloor>q * 2 ^ 64\<rfloor>)) - 1 - 64 - 23) in of_int (round_half_even (q / ulp)) * ulp)"

definition f32_to_u32 :: "rat \<Rightarrow> nat" where
  "f32_to_u32 q = min (nat \<lfloor>q\<rfloor>) (2 ^ 32 - 1)"

section \<open>Messages\<close>

datatype image_quality = NotSet | Low | Balanced | Best

datatype bool_option = BoolNotSet | BoolNo | BoolYes | BoolUnknown

record option_message =
  om_image_quality :: "image_quality option"
  om_custom_image_quality :: i32
  om_custom_fps :: i32
  om_lock_after_session_end :: bool_option
  om_show_remote_cursor :: bool_option
  om_privacy_mode :: bool_option
  om_block_input :: bool_option
  om_disable_keyboard :: bool_option
  om_disable_clipboard :: bool_option
  om_enable_file_transfer :: bool_option

datatype clipboard_format = TextFormat | HtmlFormat | OtherFormat

record clipboard_msg =
  cb_compress :: bool
  cb_content :: bytes
  cb_format :: clipboard_format

datatype desk_misc =
    SwitchSidesRequest bytes
  | LinkDashboardRequest rstr
  | OptionMisc option_message
  | RefreshVideo bool
  | RefreshVideoDisplay
  | PeerChat rstr
  | PeerCloseReason rstr
  | TogglePrivacyMode bool rstr
  | RestartRemoteDevice
  | OtherMisc

datatype desk_msg =
    MouseEvent mouse_event
  | KeyEvent key_msg
  | ClipboardMsg clipboard_msg
  | MultiClipboards "clipboard_msg list"
  | CliprdrMsg cliprdr
  | DeskMisc desk_misc
  | OtherDeskMsg

datatype desk_recv = NoMessage | PeerGone | Undecodable | PeerSent desk_msg

datatype perm_name = PermKeyboard | PermClipboard | PermAudio

datatype blk_state = BlkOnSucceeded | BlkOnFailed | BlkOffSucceeded | BlkOffFailed

datatype prv_state = PrvOnSucceeded | PrvOnFailed | PrvOffSucceeded | PrvOffByPeer

record cursor_data =
  cd_id :: u64
  cd_hotx :: i32
  cd_hoty :: i32
  cd_width :: i32
  cd_height :: i32
  cd_colors :: bytes

record encoded_frame =
  ef_data :: bytes
  ef_key :: bool
  ef_pts :: int

datatype desk_reply =
    SessionClosed
  | LinkDashboardResponse bool rstr
  | PrivacyNotice prv_state rstr rstr
  | BlockNotice blk_state
  | PermissionInfo perm_name bool
  | ClipboardText rstr
  | CliprdrReply cliprdr
  | ChatReply rstr
  | ServerTestDelay
  | CursorDataReply cursor_data
  | CursorPosition i32 i32
  | VideoFrames "encoded_frame list"

datatype deed =
    Reply desk_reply
  | SetClipboardText rstr
  | SetClipboardTextHtml rstr "rstr option"
  | BlockInput bool
  | TurnPrivacyOn
  | TurnPrivacyOff
  | RestartMachine
  | LockScreenDeed
  | AppendChat rstr rstr
  | SpawnConnect rstr rstr
  | ChangeDesktop
  | SetBitrate nat
  | RemovePerm rstr
  | RemoveChat rstr
  | RemoveLinkResponse rstr
  | WriteLinkRequest rstr rstr
  | RemoveLinkRequest rstr
  | LinkDevice

section \<open>State\<close>

record desk =
  dk_session :: u32
  dk_peer :: rstr
  dk_cm :: "rstr option"
  dk_display :: "i32 \<times> i32"
  dk_base_bitrate :: nat
  dk_quality :: image_quality
  dk_ratio :: rat
  dk_fps :: nat
  dk_interval :: nat
  dk_view_only :: bool
  dk_clipboard_off :: bool
  dk_file_copy :: bool
  dk_lock_after :: bool
  dk_show_cursor :: bool
  dk_keyboard :: bool
  dk_clipboard :: bool
  dk_force_keyframe :: bool
  dk_last_text :: rstr
  dk_pending_link :: "(rstr \<times> nat) option"
  dk_cursor_handle :: nat
  dk_cursor_pos :: "i32 \<times> i32"
  dk_cm_check :: nat
  dk_clipboard_check :: nat
  dk_keepalive :: nat
  dk_cursor_check :: nat
  dk_last_frame :: nat
  dk_owner :: u32
  dk_config2 :: "rstr option"
  dk_hid :: hid
  dk_clip :: clip
  dk_done :: "deed list"

record cursor_state =
  cu_visible :: bool
  cu_handle :: nat
  cu_x :: i32
  cu_y :: i32

record dturn =
  dt_top :: nat
  dt_recv_at :: nat
  dt_clip_at :: nat
  dt_link_at :: nat
  dt_now :: nat
  dt_stop :: bool
  dt_rejected :: bool
  dt_desktop_changed :: bool
  dt_recv :: desk_recv
  dt_perm :: "rstr option"
  dt_link_response :: "rstr option"
  dt_chat :: "rstr option"
  dt_validate :: "rstr \<Rightarrow> (rstr \<times> rstr) option"
  dt_link_asked :: bool
  dt_link_device :: bool
  dt_block_ok :: bool
  dt_privacy_error :: "rstr option"
  dt_privacy_off_locally :: bool
  dt_clipboard_text :: "rstr option"
  dt_clip_env :: clip_env
  dt_input_env :: input_env
  dt_owner :: u32
  dt_config2 :: "rstr option"
  dt_config2_writable :: bool
  dt_zstd :: "bytes \<Rightarrow> bytes option"
  dt_inflate :: "bytes \<Rightarrow> bytes option"
  dt_cursor :: "cursor_state option"
  dt_cursor_data :: "nat \<Rightarrow> cursor_data option"
  dt_capture_ok :: bool
  dt_encoded :: "bool \<Rightarrow> encoded_frame list option"
  dt_keepalive_sent :: bool
  dt_frame_sent :: bool

definition did :: "deed \<Rightarrow> desk \<Rightarrow> desk" where
  "did x d = d\<lparr>dk_done := dk_done d @ [x]\<rparr>"

definition reply :: "desk_reply \<Rightarrow> desk \<Rightarrow> desk" where
  "reply m = did (Reply m)"

section \<open>Video options\<close>

definition video_target_fps :: "image_quality \<Rightarrow> nat \<Rightarrow> nat" where
  "video_target_fps q custom_fps =
     (if custom_fps > 0 then max 5 (min 30 custom_fps)
      else case q of Low \<Rightarrow> 10 | Best \<Rightarrow> 25 | _ \<Rightarrow> 20)"

text \<open>The new quality, ratio and frame rate, and whether anything changed.\<close>

definition apply_video_option :: "option_message \<Rightarrow> image_quality \<times> rat \<times> nat \<Rightarrow> (image_quality \<times> rat \<times> nat) \<times> bool" where
  "apply_video_option opt v =
     (let (q, ratio, fps) = v;
          (q, ratio, changed) =
            (case om_image_quality opt of
               Some nq \<Rightarrow> if nq \<noteq> NotSet then (nq, case nq of Low \<Rightarrow> 1 / 2 | Best \<Rightarrow> 3 / 2 | _ \<Rightarrow> 1, True) else (q, ratio, False)
             | None \<Rightarrow> (q, ratio, False));
          (ratio, changed) =
            (if 0 <s om_custom_image_quality opt
             then (max (f32 (1 / 10)) (min 2
                     (f32 (of_nat (unat (signed_drop_bit 8 (om_custom_image_quality opt) AND 0xFFF)) * 2 / 100))), True)
             else (ratio, changed));
          (fps, changed) =
            (if 0 <s om_custom_fps opt then (max 5 (min 30 (unat (om_custom_fps opt))), True) else (fps, changed))
      in ((q, ratio, fps), changed))"

definition option_yes :: "bool_option \<Rightarrow> bool option" where
  "option_yes v = (case v of BoolYes \<Rightarrow> Some True | BoolNo \<Rightarrow> Some False | _ \<Rightarrow> None)"

definition base_bitrate :: "i32 \<Rightarrow> i32 \<Rightarrow> nat" where
  "base_bitrate w h = max 200 (min (unat w * unat h) (2 ^ 32 - 1) div 100)"

definition kbps :: "nat \<Rightarrow> rat \<Rightarrow> nat" where
  "kbps base ratio = max 200 (f32_to_u32 (f32 (f32 (of_nat base) * ratio)))"

definition apply_video :: "option_message \<Rightarrow> desk \<Rightarrow> desk" where
  "apply_video opt d =
     (let ((q, ratio, fps), changed) = apply_video_option opt (dk_quality d, dk_ratio d, dk_fps d);
          d = d\<lparr>dk_quality := q, dk_ratio := ratio, dk_fps := fps\<rparr>
      in if changed
         then (did (SetBitrate (kbps (dk_base_bitrate d) ratio)) d)\<lparr>dk_interval := 1000 div video_target_fps q fps\<rparr>
         else d)"

section \<open>Text on the clipboard\<close>

definition clip_decompress :: "dturn \<Rightarrow> bytes \<Rightarrow> bytes option" where
  "clip_decompress t data =
     (let out = zstd_decompress (dt_zstd t) data
      in if out \<noteq> [] then Some out
         else case dt_inflate t data of
           None \<Rightarrow> None
         | Some out \<Rightarrow> if length out > MAX_DECOMPRESSED_SIZE then None else Some out)"

definition extract_text_from_clipboard :: "dturn \<Rightarrow> clipboard_msg \<Rightarrow> rstr option" where
  "extract_text_from_clipboard t cb =
     (if cb_content cb = [] then None
      else case (if cb_compress cb then clip_decompress t (cb_content cb) else Some (cb_content cb)) of
        None \<Rightarrow> None
      | Some b \<Rightarrow> from_utf8 b)"

definition extract_text_from_multi :: "dturn \<Rightarrow> clipboard_msg list \<Rightarrow> rstr option" where
  "extract_text_from_multi t cbs =
     (case find (\<lambda>cb. cb_format cb = TextFormat) cbs of
        Some cb \<Rightarrow> extract_text_from_clipboard t cb
      | None \<Rightarrow> (case cbs of [] \<Rightarrow> None | cb # _ \<Rightarrow> extract_text_from_clipboard t cb))"

fun extract_html_from_multi :: "dturn \<Rightarrow> clipboard_msg list \<Rightarrow> rstr option" where
  "extract_html_from_multi t [] = None"
| "extract_html_from_multi t (cb # cbs) =
     (if cb_format cb = HtmlFormat then
        (case extract_text_from_clipboard t cb of
           None \<Rightarrow> None
         | Some html \<Rightarrow> if html \<noteq> [] then Some html else extract_html_from_multi t cbs)
      else extract_html_from_multi t cbs)"

definition handle_clipboard_message :: "dturn \<Rightarrow> clipboard_msg \<Rightarrow> desk \<Rightarrow> desk" where
  "handle_clipboard_message t cb d =
     (case extract_text_from_clipboard t cb of
        Some content \<Rightarrow> if content \<noteq> [] then did (SetClipboardText content) d else d
      | None \<Rightarrow> d)"

definition handle_multi_clipboards_message :: "dturn \<Rightarrow> clipboard_msg list \<Rightarrow> desk \<Rightarrow> desk" where
  "handle_multi_clipboards_message t cbs d =
     (case extract_text_from_multi t cbs of
        Some content \<Rightarrow> if content \<noteq> [] then did (SetClipboardTextHtml content (extract_html_from_multi t cbs)) d else d
      | None \<Rightarrow> d)"

definition check_clipboard_change :: "dturn \<Rightarrow> rstr \<Rightarrow> rstr option \<times> rstr" where
  "check_clipboard_change t last_text =
     (case dt_clipboard_text t of
        None \<Rightarrow> (None, last_text)
      | Some content \<Rightarrow> if content = [] \<or> content = last_text then (None, last_text) else (Some content, content))"

section \<open>Requests of the peer\<close>

definition set_privacy_mode :: "dturn \<Rightarrow> bool \<Rightarrow> rstr \<Rightarrow> desk \<Rightarrow> desk" where
  "set_privacy_mode t on impl_key d =
     (if on
      then let d = did TurnPrivacyOn d
           in case dt_privacy_error t of
                None \<Rightarrow> reply (PrivacyNotice PrvOnSucceeded [] impl_key) d
              | Some e \<Rightarrow> reply (PrivacyNotice PrvOnFailed e impl_key) d
      else reply (PrivacyNotice PrvOffSucceeded [] impl_key) (did TurnPrivacyOff d))"

definition block_state :: "bool \<Rightarrow> bool \<Rightarrow> blk_state" where
  "block_state on ok =
     (if on then if ok then BlkOnSucceeded else BlkOnFailed else if ok then BlkOffSucceeded else BlkOffFailed)"

definition option_privileged :: "dturn \<Rightarrow> option_message \<Rightarrow> desk \<Rightarrow> desk" where
  "option_privileged t opt d =
     (let d = (case option_yes (om_privacy_mode opt) of Some on \<Rightarrow> set_privacy_mode t on [] d | None \<Rightarrow> d);
          d = (case option_yes (om_block_input opt) of
                 Some on \<Rightarrow> reply (BlockNotice (block_state on (dt_block_ok t))) (did (BlockInput on) d)
               | None \<Rightarrow> d)
      in case option_yes (om_lock_after_session_end opt) of Some lock \<Rightarrow> d\<lparr>dk_lock_after := lock\<rparr> | None \<Rightarrow> d)"

definition handle_option :: "dturn \<Rightarrow> option_message \<Rightarrow> desk \<Rightarrow> desk" where
  "handle_option t opt d =
     (let d = (case option_yes (om_show_remote_cursor opt) of Some b \<Rightarrow> d\<lparr>dk_show_cursor := b\<rparr> | None \<Rightarrow> d);
          d = apply_video opt d;
          d = (if dk_keyboard d then option_privileged t opt d else d);
          d = (case option_yes (om_disable_keyboard opt) of Some b \<Rightarrow> d\<lparr>dk_view_only := b\<rparr> | None \<Rightarrow> d);
          d = (case option_yes (om_disable_clipboard opt) of
                 Some off \<Rightarrow> d\<lparr>dk_clipboard_off := off, dk_last_text := if off then [] else dk_last_text d\<rparr>
               | None \<Rightarrow> d)
      in case option_yes (om_enable_file_transfer opt) of Some on \<Rightarrow> d\<lparr>dk_file_copy := on\<rparr> | None \<Rightarrow> d)"

definition uuid_text :: "bytes \<Rightarrow> rstr" where
  "uuid_text b =
     hex_encode (take 4 b) @ [45] @ hex_encode (take 2 (drop 4 b)) @ [45] @ hex_encode (take 2 (drop 6 b)) @ [45]
     @ hex_encode (take 2 (drop 8 b)) @ [45] @ hex_encode (drop 10 b)"

definition handle_switch_sides :: "bytes \<Rightarrow> desk \<Rightarrow> desk" where
  "handle_switch_sides uuid d =
     (let d = reply SessionClosed d
      in if length uuid = 16 then did (SpawnConnect (dk_peer d) (uuid_text uuid)) d else d)"

text \<open>An invitation is put to the local user through the connection manager; what cannot be asked is answered at once.\<close>

definition ask_to_link :: "dturn \<Rightarrow> rstr \<Rightarrow> rstr \<Rightarrow> desk \<Rightarrow> bool \<times> desk" where
  "ask_to_link t code account_name d =
     (case dk_cm d of
        None \<Rightarrow> (False, d)
      | Some sid \<Rightarrow> (dt_link_asked t, did (WriteLinkRequest sid account_name) (did (RemoveLinkResponse sid) d)))"

definition handle_link_request :: "dturn \<Rightarrow> rstr \<Rightarrow> desk \<Rightarrow> desk" where
  "handle_link_request t invite_code d =
     (let code = trim invite_code; refuse = (\<lambda>reason. reply (LinkDashboardResponse False (str reason)))
      in if code = [] then refuse ''invalid_invite'' d
         else if dk_pending_link d \<noteq> None then refuse ''busy'' d
         else case dt_validate t code of
           None \<Rightarrow> refuse ''invalid_invite'' d
         | Some (new_user_id, account_name) \<Rightarrow>
             (let existing = config2_get_option (load_config2 (dk_config2 d)) (str ''dashboard_user_id'')
              in if existing \<noteq> [] \<and> existing = new_user_id then refuse ''already_linked'' d
                 else let (asked, d) = ask_to_link t code account_name d
                      in if asked then d\<lparr>dk_pending_link := Some (code, dt_recv_at t)\<rparr> else refuse ''link_failed'' d))"

definition handle_misc :: "dturn \<Rightarrow> desk_misc \<Rightarrow> desk \<Rightarrow> desk" where
  "handle_misc t m d =
     (case m of
        PeerChat content \<Rightarrow> (case dk_cm d of Some sid \<Rightarrow> did (AppendChat sid content) d | None \<Rightarrow> d)
      | TogglePrivacyMode on impl_key \<Rightarrow> set_privacy_mode t on impl_key d
      | RestartRemoteDevice \<Rightarrow>
          if config2_get_option (load_config2 (dk_config2 d)) (str ''enable-remote-restart'') = str ''N'' then d
          else did RestartMachine d
      | _ \<Rightarrow> d)"

definition handle_peer_message :: "dturn \<Rightarrow> bool \<Rightarrow> bool \<Rightarrow> desk_msg \<Rightarrow> desk \<Rightarrow> desk" where
  "handle_peer_message t keyboard_enabled clipboard_enabled msg d =
     (case msg of
        MouseEvent me \<Rightarrow>
          if keyboard_enabled then
            let (mine, owner) = claim_mouse me (dk_session d) (dk_owner d); d = d\<lparr>dk_owner := owner\<rparr>
            in if mine then d\<lparr>dk_hid := handle_mouse_event (dt_input_env t) me (dk_hid d)\<rparr> else d
          else d
      | KeyEvent ke \<Rightarrow> if keyboard_enabled then d\<lparr>dk_hid := handle_key_event (dt_input_env t) ke (dk_hid d)\<rparr> else d
      | ClipboardMsg cb \<Rightarrow> if clipboard_enabled then handle_clipboard_message t cb d else d
      | MultiClipboards cbs \<Rightarrow> if clipboard_enabled then handle_multi_clipboards_message t cbs d else d
      | DeskMisc m \<Rightarrow> handle_misc t m d
      | _ \<Rightarrow> d)"

text \<open>One message; the first component is whether the loop goes on.\<close>

definition on_message :: "dturn \<Rightarrow> desk_msg \<Rightarrow> desk \<Rightarrow> bool \<times> desk" where
  "on_message t msg d =
     (case msg of
        DeskMisc (SwitchSidesRequest uuid) \<Rightarrow> (False, handle_switch_sides uuid d)
      | _ \<Rightarrow>
          (let d = (case msg of
                      DeskMisc (LinkDashboardRequest code) \<Rightarrow> handle_link_request t code d
                    | DeskMisc (OptionMisc opt) \<Rightarrow> handle_option t opt d
                    | DeskMisc (RefreshVideo b) \<Rightarrow> if b then d\<lparr>dk_force_keyframe := True\<rparr> else d
                    | DeskMisc RefreshVideoDisplay \<Rightarrow> d\<lparr>dk_force_keyframe := True\<rparr>
                    | _ \<Rightarrow> d)
           in (True,
               case msg of
                 CliprdrMsg c \<Rightarrow>
                   if dk_clipboard d \<and> \<not> dk_clipboard_off d \<and> dk_file_copy d
                   then let (replies, clip) = handle_cliprdr_host (dt_clip_env t) c (dk_clip d)
                        in fold (\<lambda>r. reply (CliprdrReply r)) replies (d\<lparr>dk_clip := clip\<rparr>)
                   else d
               | _ \<Rightarrow> handle_peer_message t (dk_keyboard d \<and> \<not> dk_view_only d) (dk_clipboard d \<and> \<not> dk_clipboard_off d) msg d)))"

definition receive_phase :: "dturn \<Rightarrow> desk \<Rightarrow> bool \<times> desk" where
  "receive_phase t d =
     (case dt_recv t of
        PeerSent msg \<Rightarrow> on_message t msg d
      | PeerGone \<Rightarrow> (False, d)
      | _ \<Rightarrow> (True, d))"

section \<open>The local side\<close>

definition perm_of :: "rstr \<Rightarrow> perm_name option" where
  "perm_of name =
     (if name = str ''keyboard'' then Some PermKeyboard else if name = str ''clipboard'' then Some PermClipboard
      else if name = str ''audio'' then Some PermAudio else None)"

definition change_permission :: "rstr \<Rightarrow> desk \<Rightarrow> desk" where
  "change_permission content d =
     (case splitn 2 124 content of
        [name, v] \<Rightarrow>
          (let enabled = (v = str ''1'');
               d = (case perm_of name of Some p \<Rightarrow> reply (PermissionInfo p enabled) d | None \<Rightarrow> d)
           in if name = str ''keyboard'' then d\<lparr>dk_keyboard := enabled\<rparr>
              else if name = str ''clipboard''
              then d\<lparr>dk_clipboard := enabled, dk_last_text := if enabled then dk_last_text d else []\<rparr>
              else d)
      | _ \<Rightarrow> d)"

definition permission_phase :: "dturn \<Rightarrow> desk \<Rightarrow> desk" where
  "permission_phase t d =
     (case (dk_cm d, dt_perm t) of
        (Some sid, Some content) \<Rightarrow>
          let d = did (RemovePerm sid) d in if content \<noteq> [] then change_permission content d else d
      | _ \<Rightarrow> d)"

definition clipboard_phase :: "dturn \<Rightarrow> desk \<Rightarrow> desk" where
  "clipboard_phase t d =
     (if dk_clipboard d \<and> \<not> dk_clipboard_off d \<and> dt_clip_at t - dk_clipboard_check d \<ge> 1000 then
        let d = d\<lparr>dk_clipboard_check := dt_clip_at t\<rparr>;
            (files_msg, clip) = (if dk_file_copy d then check_clipboard_files_change (dt_clip_env t) (dk_clip d) else (None, dk_clip d));
            d = d\<lparr>dk_clip := clip\<rparr>
        in case files_msg of
             Some m \<Rightarrow> reply (CliprdrReply m) d
           | None \<Rightarrow>
               (let (content, last_text) = check_clipboard_change t (dk_last_text d); d = d\<lparr>dk_last_text := last_text\<rparr>
                in case content of Some c \<Rightarrow> reply (ClipboardText c) d | None \<Rightarrow> d)
      else d)"

definition save_option :: "dturn \<Rightarrow> string \<Rightarrow> rstr \<Rightarrow> desk \<Rightarrow> desk" where
  "save_option t key v d =
     (let cfg2 = fst (config2_set_option (load_config2 (dk_config2 d)) (str key) v)
      in d\<lparr>dk_config2 := save_config2 (dt_config2_writable t) cfg2 (save_config2 (dt_config2_writable t) cfg2 (dk_config2 d))\<rparr>)"

definition link_answered :: "dturn \<Rightarrow> rstr \<Rightarrow> bool \<Rightarrow> desk \<Rightarrow> desk" where
  "link_answered t code accepted d =
     (if \<not> accepted then reply (LinkDashboardResponse False (str ''declined'')) d
      else let d = did LinkDevice (save_option t ''invite_code'' code d)
           in if dt_link_device t
              then reply (LinkDashboardResponse True []) (save_option t ''last_enrolled_invite_code'' code d)
              else reply (LinkDashboardResponse False (str ''link_failed'')) (save_option t ''invite_code'' [] d))"

definition LINK_TIMEOUT :: nat where "LINK_TIMEOUT = 120000"

definition link_phase :: "dturn \<Rightarrow> desk \<Rightarrow> desk" where
  "link_phase t d =
     (case dk_pending_link d of
        None \<Rightarrow> d
      | Some (code, started) \<Rightarrow>
          (case (dk_cm d, dt_link_response t) of
             (Some sid, Some content) \<Rightarrow>
               link_answered t code (trim content = str ''Y'') (did (RemoveLinkResponse sid) (d\<lparr>dk_pending_link := None\<rparr>))
           | _ \<Rightarrow>
               if dt_link_at t - started \<ge> LINK_TIMEOUT then
                 let d = d\<lparr>dk_pending_link := None\<rparr>;
                     d = (case dk_cm d of Some sid \<Rightarrow> did (RemoveLinkResponse sid) (did (RemoveLinkRequest sid) d) | None \<Rightarrow> d)
                 in reply (LinkDashboardResponse False (str ''timeout'')) d
               else d))"

definition chat_phase :: "dturn \<Rightarrow> desk \<Rightarrow> desk" where
  "chat_phase t d =
     (case (dk_cm d, dt_chat t) of
        (Some sid, Some content) \<Rightarrow> let d = did (RemoveChat sid) d in if content \<noteq> [] then reply (ChatReply content) d else d
      | _ \<Rightarrow> d)"

section \<open>The picture\<close>

definition keepalive_phase :: "dturn \<Rightarrow> desk \<Rightarrow> bool \<times> desk" where
  "keepalive_phase t d =
     (if dt_now t - dk_keepalive d \<ge> 3000 then (dt_keepalive_sent t, reply ServerTestDelay (d\<lparr>dk_keepalive := dt_now t\<rparr>))
      else (True, d))"

definition privacy_phase :: "dturn \<Rightarrow> desk \<Rightarrow> desk" where
  "privacy_phase t d = (if dt_privacy_off_locally t then reply (PrivacyNotice PrvOffByPeer [] []) d else d)"

text \<open>Blue and red change places in every four bytes.\<close>

fun swap_colors :: "bytes \<Rightarrow> bytes" where
  "swap_colors (b # g # r # a # rest) = r # g # b # a # swap_colors rest"
| "swap_colors [b, g, r] = [r, g, b]"
| "swap_colors rest = rest"

definition cursor_data_ok :: "cursor_data \<Rightarrow> bool" where
  "cursor_data_ok cd \<longleftrightarrow>
     0 <s cd_width cd \<and> 0 <s cd_height cd \<and> length (cd_colors cd) = unat (cd_width cd * cd_height cd * 4)"

definition send_cursor_shape :: "dturn \<Rightarrow> cursor_state \<Rightarrow> desk \<Rightarrow> desk" where
  "send_cursor_shape t cs d =
     (if cu_handle cs \<noteq> 0 \<and> cu_handle cs \<noteq> dk_cursor_handle d then
        (case dt_cursor_data t (cu_handle cs) of
           None \<Rightarrow> d
         | Some cd \<Rightarrow>
             if cursor_data_ok cd
             then (reply (CursorDataReply (cd\<lparr>cd_colors := zstd_wrap_raw (swap_colors (cd_colors cd))\<rparr>)) d)\<lparr>dk_cursor_handle := cu_handle cs\<rparr>
             else d)
      else d)"

definition send_cursor_position :: "cursor_state \<Rightarrow> desk \<Rightarrow> desk" where
  "send_cursor_position cs d =
     (let pos = (cu_x cs - fst (dk_display d), cu_y cs - snd (dk_display d))
      in if dk_show_cursor d \<and> pos \<noteq> dk_cursor_pos d
         then reply (CursorPosition (fst pos) (snd pos)) (d\<lparr>dk_cursor_pos := pos\<rparr>) else d)"

definition cursor_phase :: "dturn \<Rightarrow> desk \<Rightarrow> desk" where
  "cursor_phase t d =
     (if dt_now t - dk_cursor_check d \<ge> 100 then
        let d = d\<lparr>dk_cursor_check := dt_now t\<rparr>
        in case dt_cursor t of
             Some cs \<Rightarrow> if cu_visible cs then send_cursor_position cs (send_cursor_shape t cs d) else d
           | None \<Rightarrow> d
      else d)"

text \<open>\<open>dt_encoded\<close> is the encoder, given whether a key frame is asked for; \<open>None\<close> is its error.\<close>

definition frame_phase :: "dturn \<Rightarrow> desk \<Rightarrow> bool \<times> desk" where
  "frame_phase t d =
     (if dt_now t - dk_last_frame d \<ge> dk_interval d then
        if \<not> dt_capture_ok t then (True, d)
        else case dt_encoded t (dk_force_keyframe d) of
          None \<Rightarrow> (True, d\<lparr>dk_last_frame := dt_now t\<rparr>)
        | Some frames \<Rightarrow>
            (let d = d\<lparr>dk_force_keyframe := False\<rparr>
             in if frames \<noteq> [] then
                  let d = reply (VideoFrames frames) d
                  in if dt_frame_sent t then (True, d\<lparr>dk_last_frame := dt_now t\<rparr>) else (False, d)
                else (True, d\<lparr>dk_last_frame := dt_now t\<rparr>))
      else (True, d))"

section \<open>The loop\<close>

definition cm_check_phase :: "dturn \<Rightarrow> desk \<Rightarrow> bool \<times> desk" where
  "cm_check_phase t d =
     (if dt_top t - dk_cm_check d \<ge> 500 then
        let d = d\<lparr>dk_cm_check := dt_top t\<rparr>
        in if dk_cm d \<noteq> None \<and> dt_rejected t then (False, reply SessionClosed d) else (True, d)
      else (True, d))"

definition and_then :: "bool \<times> desk \<Rightarrow> (desk \<Rightarrow> bool \<times> desk) \<Rightarrow> bool \<times> desk" where
  "and_then r f = (if fst r then f (snd r) else r)"

definition desktop_phase :: "dturn \<Rightarrow> desk \<Rightarrow> desk" where
  "desktop_phase t d = (if dt_desktop_changed t then did ChangeDesktop d else d)"

definition local_phases :: "dturn \<Rightarrow> desk \<Rightarrow> desk" where
  "local_phases t d = chat_phase t (link_phase t (clipboard_phase t (permission_phase t d)))"

text \<open>One turn; \<open>False\<close> is leaving the loop. What other sessions and processes changed meanwhile comes first.\<close>

definition desk_step :: "dturn \<Rightarrow> desk \<Rightarrow> bool \<times> desk" where
  "desk_step t d =
     (let d = d\<lparr>dk_owner := dt_owner t, dk_config2 := dt_config2 t\<rparr>
      in if dt_stop t then (False, d)
         else and_then (and_then (and_then (cm_check_phase t d)
                (\<lambda>d. receive_phase t (desktop_phase t d)))
                (\<lambda>d. keepalive_phase t (local_phases t d)))
                (\<lambda>d. frame_phase t (cursor_phase t (privacy_phase t d))))"

fun desk_run :: "dturn list \<Rightarrow> desk \<Rightarrow> bool \<times> desk" where
  "desk_run [] d = (True, d)"
| "desk_run (t # ts) d = and_then (desk_step t d) (desk_run ts)"

text \<open>\<open>SessionEndGuard\<close>: what is undone however the session ends.\<close>

definition session_end :: "desk \<Rightarrow> desk" where
  "session_end d =
     (let d = d\<lparr>dk_owner := release_mouse_owner (dk_session d) (dk_owner d), dk_hid := release_all_held_keys (dk_hid d)\<rparr>;
          d = did (BlockInput False) (did TurnPrivacyOff d)
      in if dk_lock_after d then did LockScreenDeed d else d)"

record desk_env =
  dv_session :: u32
  dv_peer :: rstr
  dv_cm :: "rstr option"
  dv_displays :: "(i32 \<times> i32 \<times> i32 \<times> i32) list"
  dv_capturer_ok :: bool
  dv_encoder_ok :: bool
  dv_now :: nat
  dv_option :: option_message
  dv_config2 :: "rstr option"
  dv_owner :: u32
  dv_hid :: hid
  dv_clip :: clip

definition EPSILON :: rat where "EPSILON = 1 / 2 ^ 23"

text \<open>Before the screen is known: what the guard works on.\<close>

definition desk_blank :: "desk_env \<Rightarrow> desk" where
  "desk_blank e =
     \<lparr>dk_session = dv_session e, dk_peer = dv_peer e, dk_cm = dv_cm e, dk_display = (0, 0), dk_base_bitrate = 0,
      dk_quality = NotSet, dk_ratio = 1, dk_fps = 0, dk_interval = 0, dk_view_only = False, dk_clipboard_off = False,
      dk_file_copy = False, dk_lock_after = False, dk_show_cursor = False, dk_keyboard = False, dk_clipboard = False,
      dk_force_keyframe = True, dk_last_text = [], dk_pending_link = None, dk_cursor_handle = 0,
      dk_cursor_pos = (- (2 ^ 31), - (2 ^ 31)), dk_cm_check = dv_now e, dk_clipboard_check = dv_now e, dk_keepalive = dv_now e,
      dk_cursor_check = dv_now e, dk_last_frame = dv_now e, dk_owner = dv_owner e, dk_config2 = dv_config2 e,
      dk_hid = dv_hid e, dk_clip = dv_clip e, dk_done = []\<rparr>"

definition desk_options :: "desk_env \<Rightarrow> desk \<Rightarrow> desk" where
  "desk_options e d =
     (let opt = dv_option e; yes = (\<lambda>v. option_yes v = Some True);
          ((q, ratio, fps), _) = apply_video_option opt (NotSet, 1, 0);
          cfg2 = load_config2 (dv_config2 e);
          d = d\<lparr>dk_quality := q, dk_ratio := ratio, dk_fps := fps, dk_interval := 1000 div video_target_fps q fps,
                dk_view_only := yes (om_disable_keyboard opt), dk_clipboard_off := yes (om_disable_clipboard opt),
                dk_file_copy := yes (om_enable_file_transfer opt), dk_lock_after := yes (om_lock_after_session_end opt),
                dk_show_cursor := yes (om_show_remote_cursor opt),
                dk_keyboard := config2_get_option cfg2 (str ''enable-keyboard'') \<noteq> str ''N'',
                dk_clipboard := config2_get_option cfg2 (str ''enable-clipboard'') \<noteq> str ''N''\<rparr>
      in if \<bar>ratio - 1\<bar> > EPSILON then did (SetBitrate (kbps (dk_base_bitrate d) ratio)) d else d)"

definition desk_start :: "desk_env \<Rightarrow> string + desk" where
  "desk_start e =
     (case dv_displays e of
        [] \<Rightarrow> Inl ''No displays found''
      | (x, y, w, h) # _ \<Rightarrow>
          if \<not> dv_capturer_ok e then Inl ''capturer'' else if \<not> dv_encoder_ok e then Inl ''encoder''
          else Inr (desk_options e ((desk_blank e)\<lparr>dk_display := (x, y), dk_base_bitrate := base_bitrate w h\<rparr>)))"

text \<open>The whole session: \<open>None\<close> while it is still running when the turns are used up.\<close>

definition run_video_input_loop :: "desk_env \<Rightarrow> dturn list \<Rightarrow> ((string + unit) \<times> desk) option" where
  "run_video_input_loop e ts =
     (case desk_start e of
        Inl err \<Rightarrow> Some (Inl err, session_end (desk_blank e))
      | Inr d \<Rightarrow>
          (case desk_run ts d of
             (True, _) \<Rightarrow> None
           | (False, d) \<Rightarrow> Some (Inr (), session_end (d\<lparr>dk_clip := clip_reset (dk_clip d)\<rparr>))))"

end
