(* ===== verification/Desktop_Safe.thy ===== *)
theory Desktop_Safe
  imports Desktop Viewer_Session
begin

text \<open>
  What a desktop session keeps to: nothing is typed or moved without the permission of the local user, what was taken back
  stays taken back, every request to link is answered once, and the end of a session leaves the machine as it was.
\<close>

section \<open>What the phases leave alone\<close>

lemma and_then_snd [simp]: "snd (and_then r f) = (if fst r then snd (f (snd r)) else snd r)"
  by (simp add: and_then_def)

lemma and_then_fst [simp]: "fst (and_then r f) = (fst r \<and> fst (f (snd r)))"
  by (simp add: and_then_def)

lemmas phase_defs = set_privacy_mode_def handle_switch_sides_def ask_to_link_def handle_link_request_def
  handle_clipboard_message_def handle_multi_clipboards_message_def change_permission_def permission_phase_def clipboard_phase_def
  save_option_def link_answered_def link_phase_def chat_phase_def keepalive_phase_def privacy_phase_def send_cursor_shape_def
  send_cursor_position_def cursor_phase_def frame_phase_def cm_check_phase_def desktop_phase_def reply_def did_def Let_def

lemmas phase_splits = if_splits option.splits prod.splits list.splits

text \<open>The fields input depends on; only the messages of the peer and of the local user change them.\<close>

definition input_fields :: "desk \<Rightarrow> hid \<times> u32 \<times> bool \<times> u32" where
  "input_fields d = (dk_hid d, dk_owner d, dk_view_only d, dk_session d)"

lemma input_did [simp]: "input_fields (did x d) = input_fields d" "input_fields (reply m d) = input_fields d"
  by (simp_all add: input_fields_def reply_def did_def)

lemma input_fold [simp]: "input_fields (fold (\<lambda>r. reply (f r)) rs d) = input_fields d"
  by (induction rs arbitrary: d) auto

lemma input_phases [simp]:
  "input_fields (set_privacy_mode t on k d) = input_fields d"
  "input_fields (handle_switch_sides u d) = input_fields d"
  "input_fields (handle_link_request t c d) = input_fields d"
  "input_fields (handle_clipboard_message t cb d) = input_fields d"
  "input_fields (handle_multi_clipboards_message t cbs d) = input_fields d"
  "input_fields (permission_phase t d) = input_fields d"
  "input_fields (clipboard_phase t d) = input_fields d"
  "input_fields (link_phase t d) = input_fields d"
  "input_fields (chat_phase t d) = input_fields d"
  "input_fields (snd (keepalive_phase t d)) = input_fields d"
  "input_fields (privacy_phase t d) = input_fields d"
  "input_fields (cursor_phase t d) = input_fields d"
  "input_fields (snd (frame_phase t d)) = input_fields d"
  "input_fields (snd (cm_check_phase t d)) = input_fields d"
  "input_fields (desktop_phase t d) = input_fields d"
  by (auto simp: input_fields_def phase_defs split: phase_splits)

text \<open>Most phases change nothing but clocks and what was last seen, and do harmless things.\<close>

fun quiet_deed :: "deed \<Rightarrow> bool" where
  "quiet_deed ChangeDesktop = True"
| "quiet_deed (RemoveChat _) = True"
| "quiet_deed (Reply SessionClosed) = True"
| "quiet_deed (Reply ServerTestDelay) = True"
| "quiet_deed (Reply (ChatReply _)) = True"
| "quiet_deed (Reply (PrivacyNotice _ _ _)) = True"
| "quiet_deed (Reply (CursorDataReply _)) = True"
| "quiet_deed (Reply (CursorPosition _ _)) = True"
| "quiet_deed (Reply (VideoFrames _)) = True"
| "quiet_deed _ = False"

definition core :: "desk \<Rightarrow> hid \<times> u32 \<times> bool \<times> bool \<times> bool \<times> clip \<times> (rstr \<times> nat) option \<times> bool \<times> nat \<times> rat \<times> nat \<times> image_quality" where
  "core d = (dk_hid d, dk_session d, dk_view_only d, dk_keyboard d, dk_clipboard d, dk_clip d, dk_pending_link d, dk_lock_after d,
     dk_interval d, dk_ratio d, dk_fps d, dk_quality d)"

definition quiet :: "desk \<Rightarrow> desk \<Rightarrow> bool" where
  "quiet d d' \<longleftrightarrow> core d' = core d \<and> (\<exists>xs. dk_done d' = dk_done d @ xs \<and> list_all quiet_deed xs)"

lemma quiet_same: "core d' = core d \<Longrightarrow> dk_done d' = dk_done d \<Longrightarrow> quiet d d'"
  by (simp add: quiet_def)

lemma quiet_one: "core d' = core d \<Longrightarrow> dk_done d' = dk_done d @ [x] \<Longrightarrow> quiet_deed x \<Longrightarrow> quiet d d'"
  by (simp add: quiet_def)

lemma quiet_trans: "quiet a b \<Longrightarrow> quiet b c \<Longrightarrow> quiet a c"
  by (auto simp: quiet_def)

lemma quiet_cursor: "quiet d (send_cursor_shape t cs d)" "quiet d (send_cursor_position cs d)"
  by (auto simp: send_cursor_shape_def send_cursor_position_def core_def reply_def did_def Let_def
      intro: quiet_same quiet_one split: option.split)

lemma quiet_phases:
  "quiet d (desktop_phase t d)" "quiet d (snd (cm_check_phase t d))" "quiet d (chat_phase t d)" "quiet d (snd (keepalive_phase t d))"
  "quiet d (privacy_phase t d)" "quiet d (cursor_phase t d)" "quiet d (snd (frame_phase t d))"
proof -
  show "quiet d (desktop_phase t d)" by (auto simp: desktop_phase_def core_def did_def intro: quiet_same quiet_one)
  show "quiet d (snd (cm_check_phase t d))"
    by (auto simp: cm_check_phase_def core_def reply_def did_def Let_def intro: quiet_same quiet_one)
  show "quiet d (chat_phase t d)"
    by (auto simp: chat_phase_def core_def reply_def did_def Let_def quiet_def split: option.split)
  show "quiet d (snd (keepalive_phase t d))"
    by (auto simp: keepalive_phase_def core_def reply_def did_def intro: quiet_same quiet_one)
  show "quiet d (privacy_phase t d)" by (auto simp: privacy_phase_def core_def reply_def did_def intro: quiet_same quiet_one)
  have check: "quiet d (d\<lparr>dk_cursor_check := n\<rparr>)" for n by (rule quiet_same) (simp_all add: core_def)
  have "quiet d (send_cursor_position cs (send_cursor_shape t cs (d\<lparr>dk_cursor_check := n\<rparr>)))" for cs n
    by (rule quiet_trans[OF quiet_trans[OF check quiet_cursor(1)] quiet_cursor(2)])
  with check show "quiet d (cursor_phase t d)" by (simp add: cursor_phase_def Let_def quiet_def split: option.split)
  show "quiet d (snd (frame_phase t d))"
    by (auto simp: frame_phase_def core_def reply_def did_def Let_def intro: quiet_same quiet_one split: option.split)
qed

text \<open>What one message can do.\<close>

lemma misc_ignored [simp]:
  "handle_misc t (OptionMisc opt) d = d" "handle_misc t (LinkDashboardRequest code) d = d" "handle_misc t (RefreshVideo b) d = d"
  "handle_misc t RefreshVideoDisplay d = d"
  by (simp_all add: handle_misc_def)

lemma receive_keeps:
  assumes same: "P d" and opt: "\<And>opt. dt_recv t = PeerSent (DeskMisc (OptionMisc opt)) \<Longrightarrow> P (handle_option t opt d)" 
    and link: "\<And>code. dt_recv t = PeerSent (DeskMisc (LinkDashboardRequest code)) \<Longrightarrow> P (handle_link_request t code d)"
    and force: "P (d\<lparr>dk_force_keyframe := True\<rparr>)" and switch: "\<And>u. P (handle_switch_sides u d)" and misc: "\<And>m. P (handle_misc t m d)"
    and mouse: "\<And>me. dt_recv t = PeerSent (MouseEvent me) \<Longrightarrow> dk_keyboard d \<Longrightarrow> \<not> dk_view_only d \<Longrightarrow>
      P (if fst (claim_mouse me (dk_session d) (dk_owner d))
         then d\<lparr>dk_owner := dk_session d, dk_hid := handle_mouse_event (dt_input_env t) me (dk_hid d)\<rparr> else d)"
    and key: "\<And>ke. dt_recv t = PeerSent (KeyEvent ke) \<Longrightarrow> dk_keyboard d \<Longrightarrow> \<not> dk_view_only d \<Longrightarrow>
      P (d\<lparr>dk_hid := handle_key_event (dt_input_env t) ke (dk_hid d)\<rparr>)"
    and words: "\<And>cb. dk_clipboard d \<Longrightarrow> \<not> dk_clipboard_off d \<Longrightarrow> P (handle_clipboard_message t cb d)"
    and multi: "\<And>cbs. dk_clipboard d \<Longrightarrow> \<not> dk_clipboard_off d \<Longrightarrow> P (handle_multi_clipboards_message t cbs d)"
    and files: "\<And>c rs. dk_clipboard d \<Longrightarrow> \<not> dk_clipboard_off d \<Longrightarrow> dk_file_copy d \<Longrightarrow>
      P (fold (\<lambda>r. reply (CliprdrReply r)) rs (d\<lparr>dk_clip := c\<rparr>))"
  shows "P (snd (receive_phase t d))"
proof (cases "dt_recv t")
  case (PeerSent msg)
  show ?thesis
  proof (cases msg)
    case (MouseEvent me)
    have "d\<lparr>dk_owner := dk_owner d\<rparr> = d" by simp
    then show ?thesis
      using mouse[of me] same PeerSent MouseEvent
      by (auto simp: receive_phase_def on_message_def handle_peer_message_def claim_mouse_def Let_def split: if_splits)
  next
    case (DeskMisc m)
    show ?thesis
      using PeerSent DeskMisc same opt link force switch misc
      by (cases m) (simp_all add: receive_phase_def on_message_def handle_peer_message_def Let_def)
  next
    case (CliprdrMsg c)
    obtain rs cl where "handle_cliprdr_host (dt_clip_env t) c (dk_clip d) = (rs, cl)" by fastforce
    then show ?thesis
      using PeerSent CliprdrMsg same files by (simp add: receive_phase_def on_message_def Let_def)
  qed (use PeerSent same key words multi in \<open>simp_all add: receive_phase_def on_message_def handle_peer_message_def Let_def\<close>)
qed (use same in \<open>simp_all add: receive_phase_def\<close>)

text \<open>A property of the state that every phase of an admitted turn keeps holds throughout a run.\<close>

locale kept =
  fixes ok :: "dturn \<Rightarrow> bool" and P :: "desk \<Rightarrow> bool"
  assumes kept_fresh: "P d \<Longrightarrow> P (d\<lparr>dk_owner := w, dk_config2 := c\<rparr>)"
    and kept_cm: "ok t \<Longrightarrow> P d \<Longrightarrow> P (snd (cm_check_phase t d))"
    and kept_desktop: "ok t \<Longrightarrow> P d \<Longrightarrow> P (desktop_phase t d)"
    and kept_receive: "ok t \<Longrightarrow> P d \<Longrightarrow> P (snd (receive_phase t d))"
    and kept_permission: "ok t \<Longrightarrow> P d \<Longrightarrow> P (permission_phase t d)"
    and kept_clipboard: "ok t \<Longrightarrow> P d \<Longrightarrow> P (clipboard_phase t d)"
    and kept_link: "ok t \<Longrightarrow> P d \<Longrightarrow> P (link_phase t d)"
    and kept_chat: "ok t \<Longrightarrow> P d \<Longrightarrow> P (chat_phase t d)"
    and kept_keepalive: "ok t \<Longrightarrow> P d \<Longrightarrow> P (snd (keepalive_phase t d))"
    and kept_privacy: "ok t \<Longrightarrow> P d \<Longrightarrow> P (privacy_phase t d)"
    and kept_cursor: "ok t \<Longrightarrow> P d \<Longrightarrow> P (cursor_phase t d)"
    and kept_frame: "ok t \<Longrightarrow> P d \<Longrightarrow> P (snd (frame_phase t d))"
begin

lemma step: "ok t \<Longrightarrow> P d \<Longrightarrow> P (snd (desk_step t d))"
  by (simp add: desk_step_def Let_def local_phases_def kept_fresh kept_cm kept_desktop kept_receive kept_permission kept_clipboard kept_link
      kept_chat kept_keepalive kept_privacy kept_cursor kept_frame)

lemma run: "list_all ok ts \<Longrightarrow> P d \<Longrightarrow> P (snd (desk_run ts d))"
  by (induction ts arbitrary: d) (auto intro: step)

end

text \<open>It is enough that harmless changes keep it, and the phases that are not harmless.\<close>

locale steady =
  fixes ok :: "dturn \<Rightarrow> bool" and P :: "desk \<Rightarrow> bool"
  assumes steady_fresh: "P d \<Longrightarrow> P (d\<lparr>dk_owner := w, dk_config2 := c\<rparr>)"
    and steady_quiet: "P d \<Longrightarrow> quiet d d' \<Longrightarrow> P d'"
    and steady_receive: "ok t \<Longrightarrow> P d \<Longrightarrow> P (snd (receive_phase t d))"
    and steady_permission: "ok t \<Longrightarrow> P d \<Longrightarrow> P (permission_phase t d)"
    and steady_clipboard: "ok t \<Longrightarrow> P d \<Longrightarrow> P (clipboard_phase t d)"
    and steady_link: "ok t \<Longrightarrow> P d \<Longrightarrow> P (link_phase t d)"

sublocale steady \<subseteq> kept
  by unfold_locales (blast intro: steady_fresh steady_receive steady_permission steady_clipboard steady_link
      steady_quiet[OF _ quiet_phases(1)] steady_quiet[OF _ quiet_phases(2)] steady_quiet[OF _ quiet_phases(3)]
      steady_quiet[OF _ quiet_phases(4)] steady_quiet[OF _ quiet_phases(5)] steady_quiet[OF _ quiet_phases(6)]
      steady_quiet[OF _ quiet_phases(7)])+

section \<open>Permissions\<close>

lemma splitn_2: "splitn 2 c s = [a, b] \<Longrightarrow> s = a @ c # b"
  by (auto simp: numeral_2_eq_2 split_once_some split: option.splits)

text \<open>What the local user writes to give and to take a permission.\<close>

definition GRANT_KEYBOARD :: rstr where "GRANT_KEYBOARD = str ''keyboard|1''"
definition REVOKE_KEYBOARD :: rstr where "REVOKE_KEYBOARD = str ''keyboard|0''"
definition GRANT_CLIPBOARD :: rstr where "GRANT_CLIPBOARD = str ''clipboard|1''"
definition REVOKE_CLIPBOARD :: rstr where "REVOKE_CLIPBOARD = str ''clipboard|0''"

lemmas perm_texts = GRANT_KEYBOARD_def REVOKE_KEYBOARD_def GRANT_CLIPBOARD_def REVOKE_CLIPBOARD_def str_def

lemma not_granted:
  assumes "splitn 2 124 content = [name, str ''1'']" "content \<noteq> GRANT_KEYBOARD" shows "name \<noteq> str ''keyboard''"
  using assms by (auto dest!: splitn_2 simp: perm_texts)

lemma option_fields [simp]:
  "dk_hid (handle_option t opt d) = dk_hid d" "dk_keyboard (handle_option t opt d) = dk_keyboard d"
  "dk_clipboard (handle_option t opt d) = dk_clipboard d" "dk_clip (handle_option t opt d) = dk_clip d"
  "dk_pending_link (handle_option t opt d) = dk_pending_link d" "dk_session (handle_option t opt d) = dk_session d"
  "dk_owner (handle_option t opt d) = dk_owner d"
proof -
  let ?V = "\<lambda>d. (dk_hid d, dk_keyboard d, dk_clipboard d, dk_clip d, dk_pending_link d, dk_session d, dk_owner d)"
  have p: "?V (option_privileged t opt d) = ?V d" for d
    by (auto simp: option_privileged_def set_privacy_mode_def reply_def did_def Let_def split: option.splits)
  have v: "?V (apply_video opt d) = ?V d" for d by (auto simp: apply_video_def did_def Let_def split: prod.splits)
  have "?V (handle_option t opt d) = ?V d"
    using p v by (auto simp: handle_option_def Let_def split: option.splits)
  then show
    "dk_hid (handle_option t opt d) = dk_hid d" "dk_keyboard (handle_option t opt d) = dk_keyboard d"
    "dk_clipboard (handle_option t opt d) = dk_clipboard d" "dk_clip (handle_option t opt d) = dk_clip d"
    "dk_pending_link (handle_option t opt d) = dk_pending_link d" "dk_session (handle_option t opt d) = dk_session d"
    "dk_owner (handle_option t opt d) = dk_owner d" by simp_all
qed

text \<open>What the option handler does besides setting fields.\<close>

lemma video_done:
  "\<exists>xs. dk_done (apply_video opt d) = dk_done d @ xs \<and> set xs \<subseteq> range SetBitrate"
  by (auto simp: apply_video_def did_def Let_def split: prod.splits)

fun privileged :: "deed \<Rightarrow> bool" where
  "privileged TurnPrivacyOn = True"
| "privileged TurnPrivacyOff = True"
| "privileged (BlockInput _) = True"
| "privileged (Reply (PrivacyNotice _ _ _)) = True"
| "privileged (Reply (BlockNotice _)) = True"
| "privileged _ = False"

lemma option_done:
  "\<exists>xs ys. dk_done (handle_option t opt d) = dk_done d @ xs @ ys \<and> set xs \<subseteq> range SetBitrate \<and>
     (\<forall>y\<in>set ys. privileged y) \<and> (\<not> dk_keyboard d \<longrightarrow> ys = [])"
proof -
  have p: "\<exists>ys. dk_done (option_privileged t opt d) = dk_done d @ ys \<and> (\<forall>y\<in>set ys. privileged y)" for d
    by (auto simp: option_privileged_def set_privacy_mode_def reply_def did_def Let_def split: option.splits)
  have k: "dk_keyboard (apply_video opt d) = dk_keyboard d" for d by (auto simp: apply_video_def did_def Let_def split: prod.splits)
  define d1 where "d1 = (case option_yes (om_show_remote_cursor opt) of Some b \<Rightarrow> d\<lparr>dk_show_cursor := b\<rparr> | None \<Rightarrow> d)"
  define d2 where "d2 = apply_video opt d1"
  have d1: "dk_done d1 = dk_done d" "dk_keyboard d1 = dk_keyboard d" by (auto simp: d1_def split: option.splits)
  obtain xs where xs: "dk_done d2 = dk_done d @ xs" "set xs \<subseteq> range SetBitrate"
    using video_done[of opt d1] d1 by (metis d2_def)
  define d3 where "d3 = (if dk_keyboard d2 then option_privileged t opt d2 else d2)"
  obtain ys where ys: "dk_done d3 = dk_done d2 @ ys" "\<forall>y\<in>set ys. privileged y" "\<not> dk_keyboard d2 \<longrightarrow> ys = []"
    using p[of d2] by (cases "dk_keyboard d2") (auto simp: d3_def)
  have "dk_done (handle_option t opt d) = dk_done d3"
    by (auto simp: handle_option_def Let_def d1_def[symmetric] d2_def[symmetric] d3_def split: option.splits)
  then show ?thesis using xs ys d1(2) k[of d1] by (auto simp: d2_def)
qed

fun blocks_input :: "deed \<Rightarrow> bool" where
  "blocks_input (BlockInput b) = True"
| "blocks_input _ = False"

definition blockings :: "desk \<Rightarrow> deed list" where
  "blockings d = filter blocks_input (dk_done d)"

lemma fold_reply [simp]:
  "dk_hid (fold (\<lambda>r. reply (f r)) rs d) = dk_hid d" "dk_keyboard (fold (\<lambda>r. reply (f r)) rs d) = dk_keyboard d"
  "dk_clipboard (fold (\<lambda>r. reply (f r)) rs d) = dk_clipboard d" "dk_clip (fold (\<lambda>r. reply (f r)) rs d) = dk_clip d"
  "dk_pending_link (fold (\<lambda>r. reply (f r)) rs d) = dk_pending_link d" "dk_session (fold (\<lambda>r. reply (f r)) rs d) = dk_session d"
  "dk_owner (fold (\<lambda>r. reply (f r)) rs d) = dk_owner d"
  "dk_done (fold (\<lambda>r. reply (f r)) rs d) = dk_done d @ map (\<lambda>r. Reply (f r)) rs"
  by (induction rs arbitrary: d) (auto simp: reply_def did_def)

definition keyboard_off :: "hid \<Rightarrow> deed list \<Rightarrow> desk \<Rightarrow> bool" where
  "keyboard_off h bs d \<longleftrightarrow> \<not> dk_keyboard d \<and> dk_hid d = h \<and> blockings d = bs"

lemma no_blocking_bitrate: "set xs \<subseteq> range SetBitrate \<Longrightarrow> filter blocks_input xs = []"
  by (induction xs) auto

lemma option_blockings: "\<not> dk_keyboard d \<Longrightarrow> blockings (handle_option t opt d) = blockings d"
  using option_done[of t opt d] by (auto simp: blockings_def no_blocking_bitrate)

lemma misc_keyboard_off: "keyboard_off h bs d \<Longrightarrow> keyboard_off h bs (handle_misc t m d)"
  by (auto simp: keyboard_off_def blockings_def handle_misc_def set_privacy_mode_def reply_def did_def Let_def split: desk_misc.split option.split)

lemma link_keyboard_off: "keyboard_off h bs d \<Longrightarrow> keyboard_off h bs (handle_link_request t code d)"
  by (auto simp: keyboard_off_def blockings_def handle_link_request_def ask_to_link_def reply_def did_def Let_def split: option.splits)

lemma receive_keyboard_off: "keyboard_off h bs d \<Longrightarrow> keyboard_off h bs (snd (receive_phase t d))"
proof -
  assume k: "keyboard_off h bs d"
  show ?thesis
  proof (rule receive_keeps[of "keyboard_off h bs"])
    show "keyboard_off h bs (handle_option t opt d)" for opt
      using k option_blockings[of d] by (simp add: keyboard_off_def)
    show "keyboard_off h bs (handle_clipboard_message t cb d)" "keyboard_off h bs (handle_multi_clipboards_message t cbs d)" for cb cbs
      using k by (auto simp: keyboard_off_def blockings_def handle_clipboard_message_def handle_multi_clipboards_message_def did_def split: option.split)
    show "keyboard_off h bs (handle_switch_sides u d)" for u
      using k by (auto simp: keyboard_off_def blockings_def handle_switch_sides_def reply_def did_def Let_def)
  qed (use k link_keyboard_off misc_keyboard_off in \<open>auto simp: keyboard_off_def blockings_def intro!: filter_False\<close>)
qed

lemma change_permission_cases:
  assumes "P d"
    and "\<And>name v. splitn 2 124 content = [name, v] \<Longrightarrow>
      P (let d = (case perm_of name of Some p \<Rightarrow> reply (desk_reply.PermissionInfo p (v = str ''1'')) d | None \<Rightarrow> d)
         in if name = str ''keyboard'' then d\<lparr>dk_keyboard := v = str ''1''\<rparr>
            else if name = str ''clipboard''
            then d\<lparr>dk_clipboard := v = str ''1'', dk_last_text := if v = str ''1'' then dk_last_text d else []\<rparr> else d)"
  shows "P (change_permission content d)"
  using assms by (simp add: change_permission_def Let_def split: list.split)

lemma change_keyboard_off:
  "keyboard_off h bs d \<Longrightarrow> content \<noteq> GRANT_KEYBOARD \<Longrightarrow> keyboard_off h bs (change_permission content d)"
  by (rule change_permission_cases)
     (auto dest: not_granted simp: keyboard_off_def blockings_def reply_def did_def Let_def split: option.split)

lemma did_keyboard_off: "keyboard_off h bs d \<Longrightarrow> \<not> blocks_input x \<Longrightarrow> keyboard_off h bs (did x d)"
  by (simp add: keyboard_off_def blockings_def did_def)

lemma permission_keyboard_off:
  "dt_perm t \<noteq> Some GRANT_KEYBOARD \<Longrightarrow> keyboard_off h bs d \<Longrightarrow> keyboard_off h bs (permission_phase t d)"
  by (auto simp: permission_phase_def Let_def intro!: change_keyboard_off did_keyboard_off split: option.splits)

lemma quiet_blocks: "list_all quiet_deed xs \<Longrightarrow> filter blocks_input xs = []"
proof -
  have "quiet_deed x \<Longrightarrow> \<not> blocks_input x" for x by (cases x) auto
  then show "list_all quiet_deed xs \<Longrightarrow> filter blocks_input xs = []" by (auto simp: filter_empty_conv list_all_iff)
qed

interpretation keyboard: steady "\<lambda>t. dt_perm t \<noteq> Some GRANT_KEYBOARD" "keyboard_off h bs" for h bs
proof
  fix d d' assume "keyboard_off h bs d" "quiet d d'"
  then show "keyboard_off h bs d'" by (auto simp: keyboard_off_def blockings_def quiet_def core_def quiet_blocks)
next
  fix t d assume k: "keyboard_off h bs d"
  show "keyboard_off h bs (clipboard_phase t d)"
    using k by (auto simp: keyboard_off_def blockings_def clipboard_phase_def reply_def did_def Let_def split: prod.split option.split)
  show "keyboard_off h bs (link_phase t d)"
    using k by (auto simp: keyboard_off_def blockings_def link_phase_def link_answered_def save_option_def reply_def did_def Let_def
        split: prod.split option.split)
qed (auto simp: receive_keyboard_off permission_keyboard_off, auto simp: keyboard_off_def blockings_def)

lemma revoke_keyboard: "dk_cm d = Some sid \<Longrightarrow> dt_perm t = Some REVOKE_KEYBOARD \<Longrightarrow> \<not> dk_keyboard (permission_phase t d)"
proof -
  have "splitn 2 124 REVOKE_KEYBOARD = [str ''keyboard'', str ''0'']" by (simp add: perm_texts numeral_2_eq_2 split_once_def)
  then show "dk_cm d = Some sid \<Longrightarrow> dt_perm t = Some REVOKE_KEYBOARD \<Longrightarrow> \<not> dk_keyboard (permission_phase t d)"
    by (simp add: permission_phase_def change_permission_def Let_def) (simp add: perm_texts)
qed

text \<open>The connection manager's session does not change.\<close>

lemma cm_phases [simp]:
  "dk_cm (snd (cm_check_phase t d)) = dk_cm d" "dk_cm (desktop_phase t d) = dk_cm d" "dk_cm (permission_phase t d) = dk_cm d"
  "dk_cm (clipboard_phase t d) = dk_cm d" "dk_cm (link_phase t d) = dk_cm d"
  by (auto simp: phase_defs split: phase_splits)

lemma cm_option [simp]: "dk_cm (handle_option t opt d) = dk_cm d"
  by (auto simp: handle_option_def apply_video_def option_privileged_def set_privacy_mode_def reply_def did_def Let_def
      split: option.splits prod.splits)

lemma cm_fold [simp]: "dk_cm (fold (\<lambda>r. reply (f r)) rs d) = dk_cm d"
  by (induction rs arbitrary: d) (auto simp: reply_def did_def)

lemma cm_receive [simp]: "dk_cm (snd (receive_phase t d)) = dk_cm d"
  by (rule receive_keeps[of "\<lambda>x. dk_cm x = dk_cm d"])
     (auto simp: handle_misc_def set_privacy_mode_def handle_switch_sides_def ask_to_link_def handle_link_request_def
       handle_clipboard_message_def handle_multi_clipboards_message_def reply_def did_def Let_def cm_fold[unfolded reply_def]
       split: desk_misc.split option.splits)

lemma step_reaches:
  assumes "fst (desk_step t d)"
  obtains d1 d2 where "d1 = snd (receive_phase t (desktop_phase t (snd (cm_check_phase t (d\<lparr>dk_owner := dt_owner t, dk_config2 := dt_config2 t\<rparr>)))))"
    "d2 = snd (keepalive_phase t (local_phases t d1))"
    "snd (desk_step t d) = snd (frame_phase t (cursor_phase t (privacy_phase t d2)))"
  using assms by (auto simp: desk_step_def Let_def split: if_splits)

text \<open>Input in one turn.\<close>

lemma receive_input:
  assumes "input_fields (snd (receive_phase t d)) \<noteq> input_fields d" "dk_hid (snd (receive_phase t d)) \<noteq> dk_hid d"
  shows "dk_keyboard d \<and> \<not> dk_view_only d \<and> ((\<exists>ke. dt_recv t = PeerSent (KeyEvent ke)) \<or>
    (\<exists>me. dt_recv t = PeerSent (MouseEvent me) \<and> (dk_owner d \<in> {0, dk_session d} \<or> me_mask me AND 0x7 = MOUSE_TYPE_DOWN)))"
proof -
  have h: "dk_hid (handle_link_request t c d) = dk_hid d" "dk_hid (handle_switch_sides u d) = dk_hid d"
    "dk_hid (handle_clipboard_message t cb d) = dk_hid d" "dk_hid (handle_multi_clipboards_message t cbs d) = dk_hid d"
    "dk_hid (handle_misc t m d) = dk_hid d" for c u cb cbs m d
    by (auto simp: handle_misc_def phase_defs split: option.splits desk_misc.split prod.splits)
  show ?thesis
    using assms(2)
    by (auto simp: receive_phase_def on_message_def handle_peer_message_def h claim_mouse_def Let_def
        split: desk_recv.splits desk_msg.splits desk_misc.splits prod.splits if_splits)
qed

lemma input_moves:
  assumes "dk_hid (snd (desk_step t d)) \<noteq> dk_hid d"
  shows "dk_keyboard d \<and> \<not> dk_view_only d \<and> ((\<exists>ke. dt_recv t = PeerSent (KeyEvent ke)) \<or>
    (\<exists>me. dt_recv t = PeerSent (MouseEvent me) \<and> (dt_owner t \<in> {0, dk_session d} \<or> me_mask me AND 0x7 = MOUSE_TYPE_DOWN)))"
proof -
  let ?d0 = "d\<lparr>dk_owner := dt_owner t, dk_config2 := dt_config2 t\<rparr>"
  let ?d1 = "desktop_phase t (snd (cm_check_phase t ?d0))"
  have eq: "input_fields ?d1 = input_fields ?d0" by simp
  have k: "dk_keyboard ?d1 = dk_keyboard d" by (simp add: phase_defs)
  have f: "input_fields (snd (desk_step t d)) \<in> {input_fields ?d0, input_fields (snd (receive_phase t ?d1))}"
    by (auto simp: desk_step_def Let_def local_phases_def)
  have hid: "dk_hid a = dk_hid b \<and> dk_owner a = dk_owner b \<and> dk_view_only a = dk_view_only b \<and> dk_session a = dk_session b"
    if "input_fields a = input_fields b" for a b using that by (simp add: input_fields_def)
  have same: "dk_hid ?d0 = dk_hid d" by simp
  have e: "input_fields (snd (desk_step t d)) = input_fields (snd (receive_phase t ?d1))"
    using f assms hid[of "snd (desk_step t d)" ?d0] same by auto
  have "dk_hid (snd (receive_phase t ?d1)) \<noteq> dk_hid ?d1"
    using assms hid[OF e] hid[OF eq] same by simp
  then show ?thesis
    using receive_input[of t ?d1] hid[OF eq] k by (auto simp: input_fields_def)
qed

lemma not_grants: "REVOKE_KEYBOARD \<noteq> GRANT_KEYBOARD" "REVOKE_CLIPBOARD \<noteq> GRANT_CLIPBOARD"
  by (simp_all add: perm_texts)

lemma revoked_off:
  assumes "dk_cm d = Some sid" "dt_perm t = Some REVOKE_KEYBOARD" "fst (desk_step t d)"
  shows "\<not> dk_keyboard (snd (desk_step t d))"
proof -
  obtain d1 d2 where d: "d1 = snd (receive_phase t (desktop_phase t (snd (cm_check_phase t (d\<lparr>dk_owner := dt_owner t, dk_config2 := dt_config2 t\<rparr>)))))"
    "d2 = snd (keepalive_phase t (local_phases t d1))"
    "snd (desk_step t d) = snd (frame_phase t (cursor_phase t (privacy_phase t d2)))"
    using assms(3) by (rule step_reaches)
  have "dk_cm d1 = Some sid" using assms(1) by (simp add: d(1))
  then have "\<not> dk_keyboard (permission_phase t d1)" using assms(2) by (rule revoke_keyboard)
  then have off: "keyboard_off (dk_hid d1') (blockings d1') d1'" if "d1' = permission_phase t d1" for d1'
    using that by (simp add: keyboard_off_def)
  have ok: "dt_perm t \<noteq> Some GRANT_KEYBOARD" using assms(2) not_grants by simp
  let ?d = "permission_phase t d1"
  have "keyboard_off (dk_hid ?d) (blockings ?d) (snd (desk_step t d))"
    unfolding d(2,3) local_phases_def
    by (intro keyboard.kept_frame keyboard.kept_cursor keyboard.kept_privacy keyboard.kept_keepalive keyboard.kept_chat keyboard.kept_link
        keyboard.kept_clipboard ok off refl)
  then show ?thesis by (simp add: keyboard_off_def)
qed

lemma keyboard_stays_off:
  "\<not> dk_keyboard d \<Longrightarrow> list_all (\<lambda>u. dt_perm u \<noteq> Some GRANT_KEYBOARD) ts \<Longrightarrow>
   keyboard_off (dk_hid d) (blockings d) (snd (desk_run ts d))"
  by (rule keyboard.run) (simp_all add: keyboard_off_def)

section \<open>The clipboard\<close>

fun clip_deed :: "deed \<Rightarrow> bool" where
  "clip_deed (SetClipboardText _) = True"
| "clip_deed (SetClipboardTextHtml _ _) = True"
| "clip_deed (Reply (ClipboardText _)) = True"
| "clip_deed (Reply (CliprdrReply _)) = True"
| "clip_deed _ = False"

definition clip_deeds :: "desk \<Rightarrow> deed list" where
  "clip_deeds d = filter clip_deed (dk_done d)"

definition clipboard_off :: "clip \<Rightarrow> deed list \<Rightarrow> desk \<Rightarrow> bool" where
  "clipboard_off c cs d \<longleftrightarrow> \<not> dk_clipboard d \<and> dk_clip d = c \<and> clip_deeds d = cs"

lemma privileged_no_clip: "privileged y \<Longrightarrow> \<not> clip_deed y"
  by (cases y rule: clip_deed.cases) simp_all

lemma option_clip_deeds: "clip_deeds (handle_option t opt d) = clip_deeds d"
proof -
  obtain xs ys where o: "dk_done (handle_option t opt d) = dk_done d @ xs @ ys" "set xs \<subseteq> range SetBitrate" "\<forall>y\<in>set ys. privileged y"
    using option_done[of t opt d] by blast
  have "filter clip_deed xs = []" using o(2) by (induction xs) auto
  moreover have "filter clip_deed ys = []" using o(3) privileged_no_clip by (simp add: filter_empty_conv)
  ultimately show ?thesis by (simp add: clip_deeds_def o(1))
qed

lemma receive_clipboard_off: "clipboard_off c cs d \<Longrightarrow> clipboard_off c cs (snd (receive_phase t d))"
proof -
  assume k: "clipboard_off c cs d"
  show ?thesis
  proof (rule receive_keeps[of "clipboard_off c cs"])
    show "clipboard_off c cs (handle_option t opt d)" for opt using k by (simp add: clipboard_off_def option_clip_deeds)
    show "clipboard_off c cs (handle_misc t m d)" for m
      using k by (auto simp: clipboard_off_def clip_deeds_def handle_misc_def set_privacy_mode_def reply_def did_def Let_def
        split: desk_misc.split option.split)
    show "clipboard_off c cs (handle_link_request t code d)" for code
      using k by (auto simp: clipboard_off_def clip_deeds_def handle_link_request_def ask_to_link_def reply_def did_def Let_def split: option.splits)
    show "clipboard_off c cs (handle_switch_sides u d)" for u
      using k by (auto simp: clipboard_off_def clip_deeds_def handle_switch_sides_def reply_def did_def Let_def)
  qed (use k in \<open>simp_all add: clipboard_off_def clip_deeds_def\<close>)
qed

lemma clip_not_granted:
  assumes "splitn 2 124 content = [name, str ''1'']" "content \<noteq> GRANT_CLIPBOARD" shows "name \<noteq> str ''clipboard''"
  using assms by (auto dest!: splitn_2 simp: perm_texts)

lemma change_clipboard_off:
  "clipboard_off c cs d \<Longrightarrow> content \<noteq> GRANT_CLIPBOARD \<Longrightarrow> clipboard_off c cs (change_permission content d)"
  by (rule change_permission_cases)
     (auto dest: clip_not_granted simp: clipboard_off_def clip_deeds_def reply_def did_def Let_def split: option.split)

lemma did_clipboard_off: "clipboard_off c cs d \<Longrightarrow> \<not> clip_deed x \<Longrightarrow> clipboard_off c cs (did x d)"
  by (simp add: clipboard_off_def clip_deeds_def did_def)

lemma permission_clipboard_off:
  "dt_perm t \<noteq> Some GRANT_CLIPBOARD \<Longrightarrow> clipboard_off c cs d \<Longrightarrow> clipboard_off c cs (permission_phase t d)"
  by (auto simp: permission_phase_def Let_def intro!: change_clipboard_off did_clipboard_off split: option.splits)

lemma quiet_clips: "list_all quiet_deed xs \<Longrightarrow> filter clip_deed xs = []"
proof -
  have "quiet_deed x \<Longrightarrow> \<not> clip_deed x" for x by (cases x rule: quiet_deed.cases) auto
  then show "list_all quiet_deed xs \<Longrightarrow> filter clip_deed xs = []" by (auto simp: filter_empty_conv list_all_iff)
qed

interpretation clipboard: steady "\<lambda>t. dt_perm t \<noteq> Some GRANT_CLIPBOARD" "clipboard_off c cs" for c cs
proof
  fix d d' assume "clipboard_off c cs d" "quiet d d'"
  then show "clipboard_off c cs d'" by (auto simp: clipboard_off_def clip_deeds_def quiet_def core_def quiet_clips)
next
  fix t d assume k: "clipboard_off c cs d"
  show "clipboard_off c cs (clipboard_phase t d)" using k by (simp add: clipboard_off_def clipboard_phase_def)
  show "clipboard_off c cs (link_phase t d)"
    using k by (auto simp: clipboard_off_def clip_deeds_def link_phase_def link_answered_def save_option_def reply_def did_def Let_def
        split: prod.split option.split)
qed (auto simp: receive_clipboard_off permission_clipboard_off, auto simp: clipboard_off_def clip_deeds_def)

lemma clipboard_stays_off:
  "\<not> dk_clipboard d \<Longrightarrow> list_all (\<lambda>u. dt_perm u \<noteq> Some GRANT_CLIPBOARD) ts \<Longrightarrow>
   clipboard_off (dk_clip d) (clip_deeds d) (snd (desk_run ts d))"
  by (rule clipboard.run) (simp_all add: clipboard_off_def)

end
