(* ===== verification/Desktop_Ends.thy ===== *)
theory Desktop_Ends
  imports Desktop_Safe Clip_Paste Viewer_Session
begin

text \<open>
  The properties of a desktop session: permissions, answers to requests to link, what the end of a session leaves behind, and the
  rate of the picture.
\<close>

section \<open>Requests to link\<close>

fun link_answer :: "deed \<Rightarrow> bool" where
  "link_answer (Reply (LinkDashboardResponse _ _)) = True"
| "link_answer _ = False"

definition link_answers :: "desk \<Rightarrow> nat" where
  "link_answers d = length (filter link_answer (dk_done d))"

definition link_load :: "desk \<Rightarrow> nat" where
  "link_load d = link_answers d + (if dk_pending_link d = None then 0 else 1)"

fun link_asked :: "desk_recv \<Rightarrow> bool" where
  "link_asked (PeerSent (DeskMisc (LinkDashboardRequest _))) = True"
| "link_asked _ = False"

lemma quiet_links: "list_all quiet_deed xs \<Longrightarrow> filter link_answer xs = []"
proof -
  have "quiet_deed x \<Longrightarrow> \<not> link_answer x" for x by (cases x rule: quiet_deed.cases) auto
  then show "list_all quiet_deed xs \<Longrightarrow> filter link_answer xs = []" by (auto simp: filter_empty_conv list_all_iff)
qed

lemma link_quiet: "quiet d d' \<Longrightarrow> link_load d' = link_load d"
  by (auto simp: quiet_def core_def link_load_def link_answers_def quiet_links)

lemmas link_harmless [simp] = quiet_phases[THEN link_quiet]

lemma link_permission [simp]: "link_load (permission_phase t d) = link_load d"
proof -
  have "link_load (did (RemovePerm sid) d) = link_load d" for sid by (simp add: link_load_def link_answers_def did_def)
  moreover have "link_load (change_permission content e) = link_load e" for content e
    by (rule change_permission_cases[of "\<lambda>x. link_load x = link_load e"])
       (auto simp: link_load_def link_answers_def reply_def did_def Let_def split: option.split)
  ultimately show ?thesis by (simp add: permission_phase_def Let_def split: option.split)
qed

lemma link_clipboard [simp]: "link_load (clipboard_phase t d) = link_load d"
  by (auto simp: link_load_def link_answers_def clipboard_phase_def reply_def did_def Let_def split: prod.split option.split)

lemma link_linking [simp]: "link_load (link_phase t d) = link_load d"
  by (auto simp: link_load_def link_answers_def link_phase_def link_answered_def save_option_def reply_def did_def Let_def
      split: prod.split option.split)

lemma link_option: "link_load (handle_option t opt d) = link_load d"
proof -
  obtain xs ys where o: "dk_done (handle_option t opt d) = dk_done d @ xs @ ys" "set xs \<subseteq> range SetBitrate" "\<forall>y\<in>set ys. privileged y"
    using option_done[of t opt d] by blast
  have "filter link_answer xs = []" using o(2) by (induction xs) auto
  moreover have "privileged y \<Longrightarrow> \<not> link_answer y" for y by (cases y rule: link_answer.cases) simp_all
  then have "filter link_answer ys = []" using o(3) by (simp add: filter_empty_conv)
  ultimately show ?thesis by (simp add: link_load_def link_answers_def o(1))
qed

lemma link_request: "link_load (handle_link_request t code d) = Suc (link_load d)"
  by (auto simp: link_load_def link_answers_def handle_link_request_def ask_to_link_def reply_def did_def Let_def split: option.splits)

lemma link_receive: "link_load (snd (receive_phase t d)) = link_load d + (if link_asked (dt_recv t) then 1 else 0)"
proof (cases "link_asked (dt_recv t)")
  case True
  then obtain code where "dt_recv t = PeerSent (DeskMisc (LinkDashboardRequest code))" by (cases "dt_recv t" rule: link_asked.cases) auto
  then show ?thesis by (simp add: receive_phase_def on_message_def handle_peer_message_def link_request)
next
  case False
  have "link_load (snd (receive_phase t d)) = link_load d"
  proof (rule receive_keeps[of "\<lambda>x. link_load x = link_load d"])
    show "link_load (handle_misc t m d) = link_load d" for m
      by (auto simp: link_load_def link_answers_def handle_misc_def set_privacy_mode_def reply_def did_def Let_def
          split: desk_misc.split option.split)
    show "link_load (handle_clipboard_message t cb d) = link_load d" "link_load (handle_multi_clipboards_message t cbs d) = link_load d" for cb cbs
      by (auto simp: link_load_def link_answers_def handle_clipboard_message_def handle_multi_clipboards_message_def did_def split: option.split)
    show "link_load (handle_switch_sides u d) = link_load d" for u
      by (auto simp: link_load_def link_answers_def handle_switch_sides_def reply_def did_def Let_def)
    show "link_load (fold (\<lambda>r. reply (CliprdrReply r)) rs (d\<lparr>dk_clip := x\<rparr>)) = link_load d" for rs x
      by (auto simp: link_load_def link_answers_def filter_empty_conv)
  qed (use False link_option in \<open>simp_all add: link_load_def link_answers_def\<close>)
  then show ?thesis using False by simp
qed

lemma link_step:
  assumes "fst (desk_step t d)"
  shows "link_load (snd (desk_step t d)) = link_load d + (if link_asked (dt_recv t) then 1 else 0)"
proof -
  have u: "link_load (d\<lparr>dk_owner := w, dk_config2 := c\<rparr>) = link_load d" for w c by (simp add: link_load_def link_answers_def)
  from assms show ?thesis by (rule step_reaches) (simp add: link_receive local_phases_def u)
qed

lemma link_run:
  "fst (desk_run ts d) \<Longrightarrow> link_load (snd (desk_run ts d)) = link_load d + length (filter (\<lambda>t. link_asked (dt_recv t)) ts)"
  by (induction ts arbitrary: d) (auto simp: link_step)

text \<open>A request that nobody answers is answered by the clock.\<close>

definition link_fresh :: "nat \<Rightarrow> desk \<Rightarrow> bool" where
  "link_fresh now d \<longleftrightarrow> (\<forall>code started. dk_pending_link d = Some (code, started) \<longrightarrow> now - started < LINK_TIMEOUT)"

lemma answered_pending: "dk_pending_link (link_answered t code b e) = dk_pending_link e"
  by (simp add: link_answered_def save_option_def reply_def did_def Let_def)

lemma link_phase_fresh: "link_fresh (dt_link_at t) (link_phase t d)"
  by (auto simp: link_fresh_def link_phase_def answered_pending reply_def did_def Let_def split: option.split)

lemma quiet_pending: "quiet d d' \<Longrightarrow> dk_pending_link d' = dk_pending_link d"
  by (simp add: quiet_def core_def)

lemma link_step_fresh:
  assumes "fst (desk_step t d)" shows "link_fresh (dt_link_at t) (snd (desk_step t d))"
proof -
  have q: "link_fresh n d' = link_fresh n d" if "quiet d d'" for n d d' using that by (simp add: link_fresh_def quiet_pending)
  from assms show ?thesis by (rule step_reaches) (simp add: quiet_phases[THEN q] local_phases_def link_phase_fresh)
qed

text \<open>What waits is the request that came first: others are refused while it waits, and its time stays that of its arrival.\<close>

lemma link_phase_pending: "dk_pending_link (link_phase t d) \<in> {None, dk_pending_link d}"
  by (auto simp: link_phase_def answered_pending reply_def did_def Let_def split: option.split)

lemma pending_phases [simp]:
  "dk_pending_link (permission_phase t d) = dk_pending_link d" "dk_pending_link (clipboard_phase t d) = dk_pending_link d"
proof -
  have "dk_pending_link (change_permission content e) = dk_pending_link e" for content e
    by (rule change_permission_cases[of "\<lambda>x. dk_pending_link x = dk_pending_link e"])
       (auto simp: reply_def did_def Let_def split: option.split)
  then show "dk_pending_link (permission_phase t d) = dk_pending_link d"
    by (simp add: permission_phase_def did_def Let_def split: option.split)
  show "dk_pending_link (clipboard_phase t d) = dk_pending_link d"
    by (simp add: clipboard_phase_def reply_def did_def Let_def split: prod.split option.split)
qed

lemma receive_pending:
  "dk_pending_link (snd (receive_phase t d)) = dk_pending_link d \<or>
   dk_pending_link d = None \<and> link_asked (dt_recv t) \<and> (\<exists>code. dk_pending_link (snd (receive_phase t d)) = Some (code, dt_recv_at t))"
  (is "?same (snd (receive_phase t d)) \<or> ?new (snd (receive_phase t d))")
proof -
  have link: "?same (handle_link_request t code d) \<or> ?new (handle_link_request t code d)"
    if "dt_recv t = PeerSent (DeskMisc (LinkDashboardRequest code))" for code
    using that by (auto simp: handle_link_request_def ask_to_link_def reply_def did_def Let_def split: option.split)
  show ?thesis
  proof (rule receive_keeps[of "\<lambda>x. ?same x \<or> ?new x"])
    show "?same (handle_misc t m d) \<or> ?new (handle_misc t m d)" for m
      by (auto simp: handle_misc_def set_privacy_mode_def reply_def did_def Let_def split: desk_misc.split option.split)
    show "?same (handle_clipboard_message t cb d) \<or> ?new (handle_clipboard_message t cb d)"
      "?same (handle_multi_clipboards_message t cbs d) \<or> ?new (handle_multi_clipboards_message t cbs d)" for cb cbs
      by (auto simp: handle_clipboard_message_def handle_multi_clipboards_message_def did_def split: option.split)
    show "?same (handle_switch_sides u d) \<or> ?new (handle_switch_sides u d)" for u
      by (simp add: handle_switch_sides_def reply_def did_def Let_def)
  qed (use link in auto)
qed

lemma step_pending:
  assumes "desk_step t d = (True, d')" "dk_pending_link d' = Some (code, started)"
  shows "dk_pending_link d = Some (code, started) \<or> dk_pending_link d = None \<and> link_asked (dt_recv t) \<and> started = dt_recv_at t"
proof -
  from assms(1) have "fst (desk_step t d)" by simp
  then show ?thesis
  proof (rule step_reaches)
    fix d1 d2
    let ?d0 = "desktop_phase t (snd (cm_check_phase t (d\<lparr>dk_owner := dt_owner t, dk_config2 := dt_config2 t\<rparr>)))"
    assume d1: "d1 = snd (receive_phase t ?d0)" and d2: "d2 = snd (keepalive_phase t (local_phases t d1))"
      and step: "snd (desk_step t d) = snd (frame_phase t (cursor_phase t (privacy_phase t d2)))"
    have "dk_pending_link d' = dk_pending_link (link_phase t (clipboard_phase t (permission_phase t d1)))"
      using step assms(1) by (simp add: d2 local_phases_def quiet_phases[THEN quiet_pending])
    then have "dk_pending_link d1 = Some (code, started)"
      using link_phase_pending[of t "clipboard_phase t (permission_phase t d1)"] assms(2) by auto
    moreover have "dk_pending_link ?d0 = dk_pending_link d" by (simp add: quiet_phases[THEN quiet_pending])
    ultimately show ?thesis using receive_pending[of t ?d0] by (auto simp: d1)
  qed
qed

definition link_waits :: "dturn list \<Rightarrow> desk \<Rightarrow> bool" where
  "link_waits ts d \<longleftrightarrow> dk_pending_link (snd (desk_run ts d)) \<noteq> None"

lemma and_then_assoc: "and_then (and_then r f) g = and_then r (\<lambda>d. and_then (f d) g)"
  by (simp add: and_then_def)

lemma desk_run_append: "desk_run (ts @ us) d = and_then (desk_run ts d) (desk_run us)"
proof (induction ts arbitrary: d)
  case (Cons t ts)
  have "desk_run (ts @ us) = (\<lambda>d. and_then (desk_run ts d) (desk_run us))" using Cons.IH by (rule ext)
  then show ?case by (simp add: and_then_assoc)
qed (simp add: and_then_def)

lemma desk_run_snoc: "desk_run (ts @ [t]) d = and_then (desk_run ts d) (desk_step t)"
proof -
  have "desk_run [t] x = desk_step t x" for x by (cases "desk_step t x") (auto simp: and_then_def)
  then have "desk_run [t] = desk_step t" by (rule ext)
  then show ?thesis by (simp add: desk_run_append)
qed

lemma link_since:
  assumes "dk_pending_link d = None" "desk_run ts d = (True, d')" "dk_pending_link d' = Some (code, started)"
  shows "\<exists>as u bs. ts = as @ u # bs \<and> link_asked (dt_recv u) \<and> started = dt_recv_at u \<and> \<not> link_waits as d \<and>
    (\<forall>k\<le>length bs. link_waits (as @ u # take k bs) d)"
  using assms(2,3)
proof (induction ts arbitrary: d' code started rule: rev_induct)
  case (snoc t ts)
  obtain d1 where d1: "desk_run ts d = (True, d1)" "desk_step t d1 = (True, d')"
    using snoc.prems(1) by (cases "desk_run ts d") (auto simp: desk_run_snoc and_then_def split: if_splits)
  have waits: "link_waits (ts @ [t]) d" using snoc.prems by (simp add: link_waits_def)
  from step_pending[OF d1(2) snoc.prems(2)] show ?case
  proof (elim disjE conjE)
    assume "dk_pending_link d1 = Some (code, started)"
    then obtain as u bs where since: "ts = as @ u # bs" "link_asked (dt_recv u)" "started = dt_recv_at u" "\<not> link_waits as d"
      "\<forall>k\<le>length bs. link_waits (as @ u # take k bs) d"
      using snoc.IH[OF d1(1)] by blast
    have "link_waits (as @ u # take k (bs @ [t])) d" if "k \<le> length (bs @ [t])" for k
      using that since(1,5) waits by (cases "k \<le> length bs") (auto simp: le_Suc_eq)
    then show ?thesis using since by (intro exI[of _ as] exI[of _ u] exI[of _ "bs @ [t]"]) simp
  next
    assume "dk_pending_link d1 = None" "link_asked (dt_recv t)" "started = dt_recv_at t"
    then show ?thesis using d1(1) waits by (intro exI[of _ ts] exI[of _ t] exI[of _ "[]"]) (simp add: link_waits_def)
  qed
qed (use assms(1) in simp)

section \<open>The end of a session\<close>

fun hides :: "deed \<Rightarrow> bool \<Rightarrow> bool" where
  "hides TurnPrivacyOn _ = True"
| "hides TurnPrivacyOff _ = False"
| "hides _ b = b"

fun blocks :: "deed \<Rightarrow> bool \<Rightarrow> bool" where
  "blocks (BlockInput on) _ = on"
| "blocks _ b = b"

text \<open>Whether the privacy screen may be up and the local input may be blocked after these deeds.\<close>

definition screen_hidden :: "deed list \<Rightarrow> bool" where "screen_hidden ds = fold hides ds False"
definition input_blocked :: "deed list \<Rightarrow> bool" where "input_blocked ds = fold blocks ds False"

fun asks_to_lock :: "desk_recv \<Rightarrow> bool" where
  "asks_to_lock (PeerSent (DeskMisc (OptionMisc opt))) = (om_lock_after_session_end opt = BoolYes)"
| "asks_to_lock _ = False"

text \<open>What the messages of the peer press and do not release themselves, of characters and of mouse buttons.\<close>

fun recv_chars :: "desk_recv \<Rightarrow> u16 set" where
  "recv_chars (PeerSent (KeyEvent ke)) = typed_chars ke"
| "recv_chars _ = {}"

fun recv_buttons :: "desk_recv \<Rightarrow> mouse_button set" where
  "recv_buttons (PeerSent (MouseEvent me)) = pushed_buttons me"
| "recv_buttons _ = {}"

lemma receive_held:
  assumes h: "held_inv cs bs (dk_hid d)" and r: "recv_chars (dt_recv t) \<subseteq> cs" "recv_buttons (dt_recv t) \<subseteq> bs"
  shows "held_inv cs bs (dk_hid (snd (receive_phase t d)))"
proof (rule receive_keeps[of "\<lambda>x. held_inv cs bs (dk_hid x)"])
  show "held_inv cs bs (dk_hid (handle_link_request t c d))" "held_inv cs bs (dk_hid (handle_switch_sides u d))"
    "held_inv cs bs (dk_hid (handle_clipboard_message t cb d))" "held_inv cs bs (dk_hid (handle_multi_clipboards_message t cbs d))"
    "held_inv cs bs (dk_hid (handle_misc t m d))" for c u cb cbs m
    using h by (auto simp: handle_misc_def set_privacy_mode_def handle_switch_sides_def ask_to_link_def handle_link_request_def
      handle_clipboard_message_def handle_multi_clipboards_message_def reply_def did_def Let_def split: option.splits desk_misc.split)
qed (use h r in \<open>auto intro: held_mouse_msg held_key_msg\<close>)

lemma receive_session [simp]: "dk_session (snd (receive_phase t d)) = dk_session d"
  by (rule receive_keeps[of "\<lambda>x. dk_session x = dk_session d"])
     (auto simp: handle_misc_def set_privacy_mode_def handle_switch_sides_def ask_to_link_def handle_link_request_def
        handle_clipboard_message_def handle_multi_clipboards_message_def fold_reply(6)[unfolded reply_def] reply_def did_def Let_def
       split: option.splits desk_misc.split)

definition held_session :: "u16 set \<Rightarrow> mouse_button set \<Rightarrow> u32 \<Rightarrow> desk \<Rightarrow> bool" where
  "held_session cs bs n d \<longleftrightarrow> held_inv cs bs (dk_hid d) \<and> dk_session d = n"

lemma input_fields_eq: "input_fields a = input_fields b \<Longrightarrow> dk_hid a = dk_hid b \<and> dk_session a = dk_session b"
  by (simp add: input_fields_def)

interpretation held: steady "\<lambda>t. recv_chars (dt_recv t) \<subseteq> cs \<and> recv_buttons (dt_recv t) \<subseteq> bs" "held_session cs bs n" for cs bs n
proof
  fix t d assume h: "held_session cs bs n d"
  show "held_session cs bs n (permission_phase t d)" "held_session cs bs n (clipboard_phase t d)" "held_session cs bs n (link_phase t d)"
    using h input_fields_eq[OF input_phases(6), of t d] input_fields_eq[OF input_phases(7), of t d] input_fields_eq[OF input_phases(8), of t d]
    by (simp_all add: held_session_def)
qed (auto simp: held_session_def quiet_def core_def receive_held)

definition unlocked :: "desk \<Rightarrow> bool" where
  "unlocked d \<longleftrightarrow> \<not> dk_lock_after d \<and> LockScreenDeed \<notin> set (dk_done d)"

lemma option_lock: "\<not> dk_lock_after d \<Longrightarrow> om_lock_after_session_end opt \<noteq> BoolYes \<Longrightarrow> \<not> dk_lock_after (handle_option t opt d)"
  by (auto simp: handle_option_def apply_video_def option_privileged_def set_privacy_mode_def reply_def did_def option_yes_def Let_def
      split: option.splits prod.splits bool_option.splits if_splits)

lemma option_no_lock: "LockScreenDeed \<notin> set (dk_done d) \<Longrightarrow> LockScreenDeed \<notin> set (dk_done (handle_option t opt d))"
proof -
  obtain xs ys where o: "dk_done (handle_option t opt d) = dk_done d @ xs @ ys" "set xs \<subseteq> range SetBitrate" "\<forall>y\<in>set ys. privileged y"
    using option_done[of t opt d] by blast
  have "LockScreenDeed \<notin> set ys" using o(3) privileged.simps by fastforce
  then show "LockScreenDeed \<notin> set (dk_done d) \<Longrightarrow> LockScreenDeed \<notin> set (dk_done (handle_option t opt d))"
    using o(2) by (auto simp: o(1))
qed

lemma receive_unlocked: "\<not> asks_to_lock (dt_recv t) \<Longrightarrow> unlocked d \<Longrightarrow> unlocked (snd (receive_phase t d))"
proof -
  assume a: "\<not> asks_to_lock (dt_recv t)" and u: "unlocked d"
  have f: "dk_lock_after (fold (\<lambda>r. reply (CliprdrReply r)) rs d) = dk_lock_after d" for rs d
    by (induction rs arbitrary: d) (auto simp: reply_def did_def)
  show ?thesis
  proof (rule receive_keeps[of unlocked])
    show "unlocked (handle_option t opt d)" if "dt_recv t = PeerSent (DeskMisc (OptionMisc opt))" for opt
      using that a u option_lock option_no_lock by (simp add: unlocked_def)
    show "unlocked (handle_link_request t c d)" "unlocked (handle_switch_sides k d)"
      "unlocked (handle_clipboard_message t cb d)" "unlocked (handle_multi_clipboards_message t cbs d)"
      "unlocked (handle_misc t m d)" for c k cb cbs m
      using u by (auto simp: unlocked_def handle_misc_def set_privacy_mode_def handle_switch_sides_def ask_to_link_def handle_link_request_def
        handle_clipboard_message_def handle_multi_clipboards_message_def reply_def did_def Let_def split: option.splits desk_misc.split)
  qed (use u f in \<open>auto simp: unlocked_def\<close>)
qed

interpretation unlocked: steady "\<lambda>t. \<not> asks_to_lock (dt_recv t)" unlocked
proof
  fix d d' assume "unlocked d" "quiet d d'"
  moreover have "list_all quiet_deed xs \<Longrightarrow> LockScreenDeed \<notin> set xs" for xs by (auto simp: list_all_iff)
  ultimately show "unlocked d'" by (auto simp: unlocked_def quiet_def core_def)
next
  fix t d assume u: "unlocked d"
  have "unlocked (did (RemovePerm sid) d)" for sid using u by (simp add: unlocked_def did_def)
  moreover have "unlocked e \<Longrightarrow> unlocked (change_permission content e)" for content e
    by (rule change_permission_cases) (auto simp: unlocked_def reply_def did_def Let_def split: option.split)
  ultimately show "unlocked (permission_phase t d)" using u by (simp add: permission_phase_def Let_def split: option.split)
  show "unlocked (clipboard_phase t d)"
    using u by (auto simp: unlocked_def clipboard_phase_def reply_def did_def Let_def split: prod.split option.split)
  show "unlocked (link_phase t d)"
    using u by (auto simp: unlocked_def link_phase_def link_answered_def save_option_def reply_def did_def Let_def split: prod.split option.split)
qed (auto simp: receive_unlocked, auto simp: unlocked_def)

lemma end_fields:
  "dk_hid (session_end d) = release_all_held_keys (dk_hid d)" "dk_owner (session_end d) = release_mouse_owner (dk_session d) (dk_owner d)"
  "\<not> screen_hidden (dk_done (session_end d))" "\<not> input_blocked (dk_done (session_end d))"
  "LockScreenDeed \<in> set (dk_done (session_end d)) \<longleftrightarrow> dk_lock_after d \<or> LockScreenDeed \<in> set (dk_done d)"
  by (auto simp: session_end_def screen_hidden_def input_blocked_def did_def Let_def)

lemma options_fields:
  "dk_hid (desk_options e d) = dk_hid d" "dk_session (desk_options e d) = dk_session d"
  "dk_lock_after (desk_options e d) \<longleftrightarrow> om_lock_after_session_end (dv_option e) = BoolYes"
  "set (dk_done (desk_options e d)) \<subseteq> set (dk_done d) \<union> range SetBitrate"
proof -
  obtain q ratio fps c where v: "apply_video_option (dv_option e) (NotSet, 1, 0) = ((q, ratio, fps), c)"
    by (metis surj_pair)
  show "dk_hid (desk_options e d) = dk_hid d" "dk_session (desk_options e d) = dk_session d"
    "set (dk_done (desk_options e d)) \<subseteq> set (dk_done d) \<union> range SetBitrate"
    by (auto simp: desk_options_def v did_def Let_def)
  show "dk_lock_after (desk_options e d) \<longleftrightarrow> om_lock_after_session_end (dv_option e) = BoolYes"
    by (simp add: desk_options_def v did_def Let_def option_yes_def split: bool_option.split)
qed

lemma started:
  assumes "desk_start e = Inr d"
  obtains x w where "d = desk_options e ((desk_blank e)\<lparr>dk_display := x, dk_base_bitrate := w\<rparr>)"
  using assms by (auto simp: desk_start_def split: list.splits if_splits)

lemma blank_fields: "held_inv cs bs (dv_hid e) \<Longrightarrow> held_session cs bs (dv_session e) (desk_blank e)" "unlocked (desk_blank e)"
  by (simp_all add: held_session_def unlocked_def desk_blank_def)

lemma start_fields:
  assumes "desk_start e = Inr d"
  shows "held_inv cs bs (dv_hid e) \<Longrightarrow> held_session cs bs (dv_session e) d"
    and "om_lock_after_session_end (dv_option e) \<noteq> BoolYes \<Longrightarrow> unlocked d"
proof -
  obtain x w where d: "d = desk_options e ((desk_blank e)\<lparr>dk_display := x, dk_base_bitrate := w\<rparr>)" using assms by (rule started)
  show "held_inv cs bs (dv_hid e) \<Longrightarrow> held_session cs bs (dv_session e) d"
    by (simp add: d held_session_def options_fields) (simp add: desk_blank_def)
  have "LockScreenDeed \<notin> set (dk_done d)"
    using options_fields(4)[of e "(desk_blank e)\<lparr>dk_display := x, dk_base_bitrate := w\<rparr>"] by (auto simp: d desk_blank_def)
  then show "om_lock_after_session_end (dv_option e) \<noteq> BoolYes \<Longrightarrow> unlocked d"
    by (simp add: unlocked_def) (simp add: d options_fields)
qed

lemma loop_cases:
  assumes "run_video_input_loop e ts = Some (r, d)"
  obtains "d = session_end (desk_blank e)" | d0 where "desk_start e = Inr d0"
    "d = session_end ((snd (desk_run ts d0))\<lparr>dk_clip := clip_reset (dk_clip (snd (desk_run ts d0)))\<rparr>)"
  using assms by (auto simp: run_video_input_loop_def split: sum.splits prod.splits bool.splits)

section \<open>Frame rate and bit rate\<close>

definition paced :: "desk \<Rightarrow> bool" where
  "paced d \<longleftrightarrow> dk_interval d = 1000 div video_target_fps (dk_quality d) (dk_fps d) \<and> (\<forall>n. SetBitrate n \<in> set (dk_done d) \<longrightarrow> 200 \<le> n)"

lemma fps_range: "5 \<le> video_target_fps q fps" "video_target_fps q fps \<le> 30"
  by (auto simp: video_target_fps_def split: image_quality.split)

lemma paced_interval: "paced d \<Longrightarrow> 33 \<le> dk_interval d \<and> dk_interval d \<le> 200"
proof -
  let ?f = "video_target_fps (dk_quality d) (dk_fps d)"
  assume "paced d"
  then have i: "dk_interval d = 1000 div ?f" by (simp add: paced_def)
  have "1000 div 30 \<le> 1000 div ?f" using fps_range[of "dk_quality d" "dk_fps d"] by (intro div_le_mono2) auto
  moreover have "1000 div ?f \<le> 1000 div 5" using fps_range[of "dk_quality d" "dk_fps d"] by (intro div_le_mono2) auto
  ultimately show ?thesis by (simp add: i)
qed

lemma kbps_least: "200 \<le> kbps base ratio" by (simp add: kbps_def)

lemma paced_add:
  assumes "paced d" "dk_interval d' = dk_interval d" "dk_quality d' = dk_quality d" "dk_fps d' = dk_fps d"
    "\<And>n. SetBitrate n \<in> set (dk_done d') \<Longrightarrow> SetBitrate n \<in> set (dk_done d)"
  shows "paced d'"
  using assms by (simp add: paced_def)

lemma paced_video: "paced d \<Longrightarrow> paced (apply_video opt d)"
proof -
  assume p: "paced d"
  obtain q r f c where v: "apply_video_option opt (dk_quality d, dk_ratio d, dk_fps d) = ((q, r, f), c)" by (metis surj_pair)
  have same: "q = dk_quality d \<and> f = dk_fps d" if "\<not> c"
    using v that by (auto simp: apply_video_option_def Let_def split: option.splits if_splits)
  show ?thesis
    using p same by (cases c) (auto simp: apply_video_def v paced_def did_def kbps_least Let_def)
qed

lemma paced_option: "paced d \<Longrightarrow> paced (handle_option t opt d)"
proof -
  assume p: "paced d"
  define d1 where "d1 = (case option_yes (om_show_remote_cursor opt) of Some b \<Rightarrow> d\<lparr>dk_show_cursor := b\<rparr> | None \<Rightarrow> d)"
  have "paced d1" using p by (auto simp: d1_def paced_def split: option.split)
  then have d2: "paced (apply_video opt d1)" by (rule paced_video)
  have pr: "paced e \<Longrightarrow> paced (option_privileged t opt e)" for e
    by (rule paced_add[of e]) (auto simp: option_privileged_def set_privacy_mode_def reply_def did_def Let_def split: option.splits if_splits)
  have "paced (e\<lparr>dk_view_only := a\<rparr>) = paced e" "paced (e\<lparr>dk_clipboard_off := a, dk_last_text := b\<rparr>) = paced e"
    "paced (e\<lparr>dk_clipboard_off := a\<rparr>) = paced e" "paced (e\<lparr>dk_file_copy := a\<rparr>) = paced e"
    "paced (e\<lparr>dk_clipboard_off := a, dk_last_text := b, dk_file_copy := a'\<rparr>) = paced e"
    "paced (e\<lparr>dk_clipboard_off := a, dk_file_copy := a'\<rparr>) = paced e"
    "paced (e\<lparr>dk_view_only := v, dk_clipboard_off := a, dk_last_text := b\<rparr>) = paced e"
    "paced (e\<lparr>dk_view_only := v, dk_clipboard_off := a\<rparr>) = paced e" "paced (e\<lparr>dk_view_only := v, dk_file_copy := a'\<rparr>) = paced e"
    "paced (e\<lparr>dk_view_only := v, dk_clipboard_off := a, dk_last_text := b, dk_file_copy := a'\<rparr>) = paced e"
    "paced (e\<lparr>dk_view_only := v, dk_clipboard_off := a, dk_file_copy := a'\<rparr>) = paced e"
    for e a b a' v by (simp_all add: paced_def)
  then show ?thesis
    using d2 pr[OF d2] by (simp add: handle_option_def Let_def d1_def[symmetric] split: option.split)
qed

lemma receive_paced: "paced d \<Longrightarrow> paced (snd (receive_phase t d))"
proof -
  assume p: "paced d"
  have f: "dk_interval (fold (\<lambda>r. reply (CliprdrReply r)) rs d) = dk_interval d" "dk_quality (fold (\<lambda>r. reply (CliprdrReply r)) rs d) = dk_quality d"
    "dk_fps (fold (\<lambda>r. reply (CliprdrReply r)) rs d) = dk_fps d" for rs d
    by (induction rs arbitrary: d) (auto simp: reply_def did_def)
  show ?thesis
  proof (rule receive_keeps[of paced])
    show "paced (handle_link_request t c d)" "paced (handle_switch_sides k d)"
      "paced (handle_clipboard_message t cb d)" "paced (handle_multi_clipboards_message t cbs d)"
      "paced (handle_misc t m d)" for c k cb cbs m
      by (rule paced_add[OF p]; auto simp: handle_misc_def set_privacy_mode_def handle_switch_sides_def ask_to_link_def handle_link_request_def
        handle_clipboard_message_def handle_multi_clipboards_message_def reply_def did_def Let_def split: option.splits desk_misc.splits if_splits)+
    show "paced (fold (\<lambda>r. reply (CliprdrReply r)) rs (d\<lparr>dk_clip := c\<rparr>))" for rs c
      by (rule paced_add[OF p]) (auto simp: f)
  qed (use p paced_option in \<open>auto simp: paced_def\<close>)
qed

interpretation paced: steady "\<lambda>_. True" paced
proof
  fix d d' assume p: "paced d" and "quiet d d'"
  moreover have "list_all quiet_deed xs \<Longrightarrow> SetBitrate n \<notin> set xs" for xs n by (auto simp: list_all_iff)
  ultimately show "paced d'" by (intro paced_add[OF p]) (auto simp: quiet_def core_def)
next
  fix t d assume p: "paced d"
  have "paced (did (RemovePerm sid) d)" for sid using p by (simp add: paced_def did_def)
  moreover have "paced e \<Longrightarrow> paced (change_permission content e)" for content e
    by (rule change_permission_cases) (auto simp: paced_def reply_def did_def Let_def split: option.split)
  ultimately show "paced (permission_phase t d)" using p by (simp add: permission_phase_def Let_def split: option.split)
  show "paced (clipboard_phase t d)"
    by (rule paced_add[OF p]) (auto simp: clipboard_phase_def reply_def did_def Let_def split: prod.splits option.splits if_splits)
  show "paced (link_phase t d)"
    by (rule paced_add[OF p]) (auto simp: link_phase_def link_answered_def save_option_def reply_def did_def Let_def split: prod.splits option.splits if_splits)
qed (auto simp: receive_paced, auto simp: paced_def)

lemma paced_start: "desk_start e = Inr d \<Longrightarrow> paced d"
proof -
  assume "desk_start e = Inr d"
  then obtain x w where d: "d = desk_options e ((desk_blank e)\<lparr>dk_display := x, dk_base_bitrate := w\<rparr>)" by (rule started)
  obtain q ratio fps c where v: "apply_video_option (dv_option e) (NotSet, 1, 0) = ((q, ratio, fps), c)"
    by (metis surj_pair)
  show ?thesis by (auto simp: d desk_options_def v paced_def did_def desk_blank_def kbps_least Let_def)
qed

section \<open>The properties\<close>

definition demo_option :: option_message where
  "demo_option = \<lparr>om_image_quality = Some Best, om_custom_image_quality = 0, om_custom_fps = 0, om_lock_after_session_end = BoolNotSet,
     om_show_remote_cursor = BoolYes, om_privacy_mode = BoolNotSet, om_block_input = BoolNotSet, om_disable_keyboard = BoolNotSet,
     om_disable_clipboard = BoolNotSet, om_enable_file_transfer = BoolYes\<rparr>"

definition demo_desk_env :: desk_env where
  "demo_desk_env = \<lparr>dv_session = 5, dv_peer = [49], dv_cm = Some [97], dv_displays = [(0, 0, 800, 600)], dv_capturer_ok = True,
     dv_encoder_ok = True, dv_now = 0, dv_option = demo_option, dv_config2 = None, dv_owner = 0,
     dv_hid = \<lparr>hid_vks = [], hid_scans = [], hid_sent = []\<rparr>, dv_clip = demo_clip\<rparr>"

definition demo_dturn :: dturn where
  "demo_dturn = \<lparr>dt_top = 1, dt_recv_at = 1, dt_clip_at = 1, dt_link_at = 1, dt_now = 1, dt_stop = False, dt_rejected = False,
     dt_desktop_changed = False, dt_recv = NoMessage, dt_perm = None, dt_link_response = None, dt_chat = None, dt_validate = (\<lambda>_. None),
     dt_link_asked = True, dt_link_device = True, dt_block_ok = True, dt_privacy_error = None, dt_privacy_off_locally = False,
     dt_clipboard_text = None, dt_clip_env = demo_clip_env,
     dt_input_env = \<lparr>ie_screen = (800, 600), ie_vk_key_scan = (\<lambda>_. - 1), ie_map_virtual_key = (\<lambda>_. 0)\<rparr>, dt_owner = 0,
     dt_config2 = None, dt_config2_writable = True, dt_zstd = (\<lambda>_. None), dt_inflate = (\<lambda>_. None), dt_cursor = None,
     dt_cursor_data = (\<lambda>_. None), dt_capture_ok = True, dt_encoded = (\<lambda>_. Some []), dt_keepalive_sent = True, dt_frame_sent = True\<rparr>"

definition demo_key :: key_msg where
  "demo_key = \<lparr>ke_down = True, ke_press = False, ke_union = Some (ControlKey CK_Return), ke_modifiers = [], ke_mode = KLegacy\<rparr>"

definition demo_desk :: desk where
  "demo_desk = (desk_blank demo_desk_env)\<lparr>dk_keyboard := True, dk_clipboard := True, dk_interval := 50\<rparr>"

text \<open>C7: 
  Input needs permission: in a turn of the loop keys are pressed and the mouse is moved only for a key or mouse message of the peer, while
  the keyboard is permitted and the viewer is not in view-only mode; the mouse only if nobody else has it or a button goes down.
\<close>

theorem input_needs_permission:
  assumes "dk_hid (snd (desk_step t d)) \<noteq> dk_hid d"
  shows "dk_keyboard d \<and> \<not> dk_view_only d \<and> ((\<exists>ke. dt_recv t = PeerSent (KeyEvent ke)) \<or>
    (\<exists>me. dt_recv t = PeerSent (MouseEvent me) \<and> (dt_owner t \<in> {0, dk_session d} \<or> me_mask me AND 0x7 = MOUSE_TYPE_DOWN)))"
  using assms by (rule input_moves)

lemmas demo_defs = demo_desk_def desk_blank_def demo_desk_env_def demo_dturn_def demo_option_def demo_clip_def demo_clip_env_def

lemma demo_turn_fields [simp]:
  "dt_top demo_dturn = 1" "dt_recv_at demo_dturn = 1" "dt_clip_at demo_dturn = 1" "dt_link_at demo_dturn = 1"
  "dt_now demo_dturn = 1" "\<not> dt_stop demo_dturn" "\<not> dt_rejected demo_dturn" "\<not> dt_desktop_changed demo_dturn"
  "dt_recv demo_dturn = NoMessage" "dt_perm demo_dturn = None" "dt_link_response demo_dturn = None" "dt_chat demo_dturn = None"
  "\<not> dt_privacy_off_locally demo_dturn" "dt_owner demo_dturn = 0" "dt_config2 demo_dturn = None"
  by (simp_all add: demo_defs)

lemma demo_desk_fields [simp]:
  "dk_keyboard demo_desk" "dk_clipboard demo_desk" "\<not> dk_view_only demo_desk" "dk_cm demo_desk = Some [97]"
  "dk_pending_link demo_desk = None" "dk_interval demo_desk = 50" "dk_cm_check demo_desk = 0" "dk_clipboard_check demo_desk = 0"
  "dk_keepalive demo_desk = 0" "dk_cursor_check demo_desk = 0" "dk_last_frame demo_desk = 0" "dk_done demo_desk = []"
  "dk_hid demo_desk = \<lparr>hid_vks = [], hid_scans = [], hid_sent = []\<rparr>"
  by (simp_all add: demo_defs)

lemma demo_desk_fresh [simp]: "demo_desk\<lparr>dk_owner := 0, dk_config2 := None\<rparr> = demo_desk"
  by (simp add: demo_defs)

text \<open>In a turn in which only a message arrives, and no timer is due, the step is what the message does.\<close>

definition idle_turn :: "dturn \<Rightarrow> bool" where
  "idle_turn t \<longleftrightarrow> dt_top t = 1 \<and> dt_clip_at t = 1 \<and> dt_link_at t = 1 \<and> dt_now t = 1 \<and> \<not> dt_stop t \<and>
     \<not> dt_rejected t \<and> \<not> dt_desktop_changed t \<and> dt_perm t = None \<and> dt_link_response t = None \<and> dt_chat t = None \<and>
     \<not> dt_privacy_off_locally t \<and> dt_owner t = 0 \<and> dt_config2 t = None"

definition calm :: "desk \<Rightarrow> bool" where
  "calm d \<longleftrightarrow> 1 < dk_interval d \<and> dk_cm_check d = 0 \<and> dk_clipboard_check d = 0 \<and> dk_keepalive d = 0 \<and> dk_cursor_check d = 0 \<and> dk_last_frame d = 0"

lemma idle_turns: "idle_turn (demo_dturn\<lparr>dt_recv := r\<rparr>)" "idle_turn (demo_dturn\<lparr>dt_recv := r, dt_validate := v\<rparr>)"
  by (simp_all add: idle_turn_def)

lemma calm_fields [simp]:
  "calm (d\<lparr>dk_owner := w\<rparr>) = calm d" "calm (d\<lparr>dk_config2 := c\<rparr>) = calm d" "calm (d\<lparr>dk_hid := h\<rparr>) = calm d"
  "calm (d\<lparr>dk_done := ds\<rparr>) = calm d" "calm (d\<lparr>dk_pending_link := p\<rparr>) = calm d" "calm demo_desk"
  by (simp_all add: calm_def)

lemma calm_phases:
  assumes "idle_turn t" "calm d"
  shows "cm_check_phase t d = (True, d)" "desktop_phase t d = d" "local_phases t d = d" "keepalive_phase t d = (True, d)"
    "privacy_phase t d = d" "cursor_phase t d = d" "frame_phase t d = (True, d)"
proof -
  show "cm_check_phase t d = (True, d)" "desktop_phase t d = d" "keepalive_phase t d = (True, d)" "privacy_phase t d = d" "cursor_phase t d = d"
    "frame_phase t d = (True, d)"
    using assms by (simp_all add: idle_turn_def calm_def cm_check_phase_def desktop_phase_def keepalive_phase_def privacy_phase_def
      cursor_phase_def frame_phase_def)
  have "permission_phase t d = d" "clipboard_phase t d = d"
    using assms by (simp_all add: idle_turn_def calm_def permission_phase_def clipboard_phase_def split: option.split)
  moreover have "link_phase t d = d" "chat_phase t d = d"
    using assms by (simp_all add: idle_turn_def link_phase_def chat_phase_def LINK_TIMEOUT_def split: option.split)
  ultimately show "local_phases t d = d" by (simp add: local_phases_def)
qed

lemma calm_step:
  assumes "idle_turn t" "calm d" "receive_phase t (d\<lparr>dk_owner := 0, dk_config2 := None\<rparr>) = (go, d')" "calm d'"
  shows "desk_step t d = (go, d')"
proof -
  let ?d0 = "d\<lparr>dk_owner := 0, dk_config2 := None\<rparr>"
  have "dt_owner t = 0" "dt_config2 t = None" "\<not> dt_stop t" using assms(1) by (simp_all add: idle_turn_def)
  moreover have "calm ?d0" using assms(2) by simp
  ultimately show ?thesis
    using assms(3,4) calm_phases[OF assms(1)] by (simp add: desk_step_def and_then_def Let_def)
qed

lemmas demo_receive = receive_phase_def on_message_def handle_peer_message_def

lemma demo_step_typed:
  "desk_step (demo_dturn\<lparr>dt_recv := PeerSent (KeyEvent demo_key)\<rparr>) demo_desk =
     (True, demo_desk\<lparr>dk_hid := vk_event 0x0D True (dk_hid demo_desk)\<rparr>)"
proof -
  have "control_key_vk CK_Return = Some 0x0D" by (simp add: control_key_vk_def VK_TABLE_def)
  then have "handle_key_event ie demo_key h = vk_event 0x0D True h" for ie h
    by (simp add: handle_key_event_def demo_key_def legacy_keyboard_mode_def control_key_event_def control_key_to_vk_def)
  then show ?thesis by (intro calm_step idle_turns) (simp_all add: demo_receive)
qed

theorem input_needs_permission_witness:
  "dk_keyboard demo_desk \<and> \<not> dk_view_only demo_desk"
proof -
  have "dk_hid (snd (desk_step (demo_dturn\<lparr>dt_recv := PeerSent (KeyEvent demo_key)\<rparr>) demo_desk)) \<noteq> dk_hid demo_desk"
    unfolding demo_step_typed by (simp add: vk_event_def send_input_def hold_def)
  from input_needs_permission[OF this] show ?thesis by blast
qed

text \<open>C6: 
  A keyboard permission taken back is gone: after the turn that reads the local user's \<open>keyboard|0\<close> nothing more is typed or moved and the
  local input is neither blocked nor unblocked, whatever the peer sends, until the user writes \<open>keyboard|1\<close>. The same for the clipboard from
  any turn on in which it is not permitted: nothing is put on it, read from it, or sent of it.
\<close>

theorem revoked_permissions_hold:
  assumes "dk_cm d = Some sid" "dt_perm t = Some REVOKE_KEYBOARD" "desk_step t d = (True, d1)"
    and "\<forall>u\<in>set ts. dt_perm u \<noteq> Some GRANT_KEYBOARD"
    and "\<not> dk_clipboard c" "\<forall>u\<in>set us. dt_perm u \<noteq> Some GRANT_CLIPBOARD"
  shows "dk_hid (snd (desk_run ts d1)) = dk_hid d1 \<and> blockings (snd (desk_run ts d1)) = blockings d1 \<and>
    dk_clip (snd (desk_run us c)) = dk_clip c \<and> clip_deeds (snd (desk_run us c)) = clip_deeds c"
proof -
  have "\<not> dk_keyboard d1" using revoked_off[OF assms(1,2)] assms(3) by simp
  then have "keyboard_off (dk_hid d1) (blockings d1) (snd (desk_run ts d1))"
    using keyboard_stays_off assms(4) by (simp add: list_all_iff)
  moreover have "clipboard_off (dk_clip c) (clip_deeds c) (snd (desk_run us c))"
    using clipboard_stays_off assms(5,6) by (simp add: list_all_iff)
  ultimately show ?thesis by (simp add: keyboard_off_def clipboard_off_def)
qed

lemma demo_step_revoked:
  "desk_step (demo_dturn\<lparr>dt_perm := Some REVOKE_KEYBOARD\<rparr>) demo_desk =
     (True, demo_desk\<lparr>dk_done := [RemovePerm [97], Reply (desk_reply.PermissionInfo PermKeyboard False)], dk_keyboard := False\<rparr>)"
proof -
  have "splitn 2 124 REVOKE_KEYBOARD = [str ''keyboard'', str ''0'']" by (simp add: perm_texts numeral_2_eq_2 split_once_def)
  moreover have "str ''0'' \<noteq> str ''1''" "REVOKE_KEYBOARD \<noteq> []" by (simp_all add: perm_texts)
  ultimately have "permission_phase (demo_dturn\<lparr>dt_perm := Some REVOKE_KEYBOARD\<rparr>) demo_desk =
      demo_desk\<lparr>dk_done := [RemovePerm [97], Reply (desk_reply.PermissionInfo PermKeyboard False)], dk_keyboard := False\<rparr>"
    by (simp add: permission_phase_def change_permission_def perm_of_def reply_def did_def)
  then show ?thesis
    by (simp add: desk_step_def and_then_def cm_check_phase_def receive_phase_def desktop_phase_def keepalive_phase_def local_phases_def
      chat_phase_def link_phase_def clipboard_phase_def frame_phase_def cursor_phase_def privacy_phase_def)
qed

theorem revoked_permissions_hold_witness:
  "\<exists>d1. desk_step (demo_dturn\<lparr>dt_perm := Some REVOKE_KEYBOARD\<rparr>) demo_desk = (True, d1) \<and>
     dk_hid (snd (desk_run [demo_dturn\<lparr>dt_recv := PeerSent (KeyEvent demo_key)\<rparr>] d1)) = dk_hid d1"
proof -
  let ?d1 = "demo_desk\<lparr>dk_done := [RemovePerm [97], Reply (desk_reply.PermissionInfo PermKeyboard False)], dk_keyboard := False\<rparr>"
  have "dk_hid (snd (desk_run [demo_dturn\<lparr>dt_recv := PeerSent (KeyEvent demo_key)\<rparr>] ?d1)) = dk_hid ?d1 \<and>
    blockings (snd (desk_run [demo_dturn\<lparr>dt_recv := PeerSent (KeyEvent demo_key)\<rparr>] ?d1)) = blockings ?d1 \<and>
    dk_clip (snd (desk_run [] (demo_desk\<lparr>dk_clipboard := False\<rparr>))) = dk_clip (demo_desk\<lparr>dk_clipboard := False\<rparr>) \<and>
    clip_deeds (snd (desk_run [] (demo_desk\<lparr>dk_clipboard := False\<rparr>))) = clip_deeds (demo_desk\<lparr>dk_clipboard := False\<rparr>)"
    by (rule revoked_permissions_hold[OF _ _ demo_step_revoked, of "[97]"]) (simp_all add: perm_texts)
  then show ?thesis using demo_step_revoked by blast
qed

text \<open>C40: 
  Every request to link the machine to a dashboard is answered once: over any run that is still going on, the requests received are the answers
  sent plus the one that waits for the local user. A request that waits has waited for less than two minutes since the turn in which it arrived,
  and others that arrive meanwhile do not prolong this.
\<close>

theorem link_requests_answered:
  assumes "dk_done d = []" "dk_pending_link d = None" "desk_run (ts @ [t]) d = (True, d')"
  shows "length (filter (\<lambda>t. link_asked (dt_recv t)) (ts @ [t])) = link_answers d' + (if link_waits (ts @ [t]) d then 1 else 0) \<and>
    (link_waits (ts @ [t]) d \<longrightarrow>
      (\<exists>as u bs. ts @ [t] = as @ u # bs \<and> link_asked (dt_recv u) \<and> \<not> link_waits as d \<and>
         (\<forall>k\<le>length bs. link_waits (as @ u # take k bs) d) \<and> dt_link_at t - dt_recv_at u < LINK_TIMEOUT))"
proof -
  have "link_load d' = link_load d + length (filter (\<lambda>t. link_asked (dt_recv t)) (ts @ [t]))"
    using link_run[of "ts @ [t]" d] assms(3) by simp
  then have n: "length (filter (\<lambda>t. link_asked (dt_recv t)) (ts @ [t])) = link_load d'"
    using assms(1,2) by (simp add: link_load_def link_answers_def)
  obtain e where "desk_step t e = (True, d')"
    using assms(3) by (cases "desk_run ts d") (auto simp: desk_run_snoc and_then_def split: if_splits)
  then have fresh: "link_fresh (dt_link_at t) d'" using link_step_fresh[of t e] by simp
  have "\<exists>as u bs. ts @ [t] = as @ u # bs \<and> link_asked (dt_recv u) \<and> \<not> link_waits as d \<and>
      (\<forall>k\<le>length bs. link_waits (as @ u # take k bs) d) \<and> dt_link_at t - dt_recv_at u < LINK_TIMEOUT" if "link_waits (ts @ [t]) d"
  proof -
    have "dk_pending_link d' \<noteq> None" using that unfolding link_waits_def assms(3) by simp
    then obtain code started where p: "dk_pending_link d' = Some (code, started)" by (metis not_None_eq surj_pair)
    then have "dt_link_at t - started < LINK_TIMEOUT" using fresh by (auto simp: link_fresh_def)
    then show ?thesis using link_since[OF assms(2,3) p] by blast
  qed
  then show ?thesis using n assms(3) by (simp add: link_load_def link_waits_def)
qed

text \<open>A request that is put to the user, and another one at once.\<close>

definition asking_turn :: dturn where
  "asking_turn = demo_dturn\<lparr>dt_recv := PeerSent (DeskMisc (LinkDashboardRequest [97])), dt_validate := (\<lambda>_. Some ([98], [99]))\<rparr>"

lemma trim_a: "trim [97] = [97]"
  by (rule trim_trimmed) (simp add: trimmed_def is_whitespace_def)

lemma demo_step_link:
  "desk_step asking_turn demo_desk =
     (True, demo_desk\<lparr>dk_pending_link := Some ([97], 1), dk_done := [RemoveLinkResponse [97], WriteLinkRequest [97] [99]]\<rparr>)"
proof -
  have "config2_get_option (load_config2 (dk_config2 demo_desk)) (str ''dashboard_user_id'') = []"
    by (simp add: demo_defs load_config2_def config2_load_def config2_empty_def config2_get_option_def options_get_def)
  moreover have "dt_link_asked asking_turn" "dt_validate asking_turn = (\<lambda>_. Some ([98], [99]))" "dt_recv_at asking_turn = 1"
    by (simp_all add: asking_turn_def demo_dturn_def)
  ultimately have "handle_link_request asking_turn [97] demo_desk =
      demo_desk\<lparr>dk_pending_link := Some ([97], 1), dk_done := [RemoveLinkResponse [97], WriteLinkRequest [97] [99]]\<rparr>"
    by (simp add: handle_link_request_def ask_to_link_def trim_a did_def Let_def)
  moreover have "dt_recv asking_turn = PeerSent (DeskMisc (LinkDashboardRequest [97]))" "idle_turn asking_turn"
    by (simp_all add: asking_turn_def idle_turns)
  ultimately show ?thesis by (intro calm_step) (simp_all add: demo_receive)
qed

lemma demo_step_busy:
  "desk_step asking_turn (demo_desk\<lparr>dk_pending_link := Some ([97], 1), dk_done := xs\<rparr>) =
     (True, demo_desk\<lparr>dk_pending_link := Some ([97], 1), dk_done := xs @ [Reply (LinkDashboardResponse False (str ''busy''))]\<rparr>)"
proof -
  have "demo_desk\<lparr>dk_pending_link := p, dk_done := xs, dk_owner := 0, dk_config2 := None\<rparr> = demo_desk\<lparr>dk_pending_link := p, dk_done := xs\<rparr>" for p xs
    by (simp add: demo_defs)
  moreover have "dt_recv asking_turn = PeerSent (DeskMisc (LinkDashboardRequest [97]))" "idle_turn asking_turn"
    by (simp_all add: asking_turn_def idle_turns)
  ultimately show ?thesis
    by (intro calm_step) (simp_all add: demo_receive handle_link_request_def trim_a reply_def did_def)
qed

theorem link_requests_answered_witness:
  "\<exists>d'. desk_run ([asking_turn] @ [asking_turn]) demo_desk = (True, d') \<and> link_answers d' = 1 \<and>
     (\<exists>as u bs. [asking_turn] @ [asking_turn] = as @ u # bs \<and> link_asked (dt_recv u) \<and> \<not> link_waits as demo_desk \<and>
        dt_link_at asking_turn - dt_recv_at u < LINK_TIMEOUT)"
proof -
  let ?ts = "[asking_turn] @ [asking_turn]"
  let ?d = "demo_desk\<lparr>dk_pending_link := Some ([97], 1), dk_done := [RemoveLinkResponse [97], WriteLinkRequest [97] [99], Reply (LinkDashboardResponse False (str ''busy''))]\<rparr>"
  have r: "desk_run ?ts demo_desk = (True, ?d)"
    by (simp add: demo_step_link demo_step_busy and_then_def del: One_nat_def)
  then have w: "link_waits ?ts demo_desk" by (simp add: link_waits_def)
  have "dk_done demo_desk = []" "dk_pending_link demo_desk = None" by simp_all
  note answered = link_requests_answered[OF this r]
  have "link_asked (dt_recv asking_turn)" by (simp add: asking_turn_def)
  then have "link_answers ?d = 1" using answered w by simp
  moreover have "\<exists>as u bs. ?ts = as @ u # bs \<and> link_asked (dt_recv u) \<and> \<not> link_waits as demo_desk \<and>
      dt_link_at asking_turn - dt_recv_at u < LINK_TIMEOUT"
    using answered w by blast
  ultimately show ?thesis using r by blast
qed

text \<open>C5: 
  However a session ends, no virtual key and no scan code that came through it stays down, the privacy screen is down, the local input is not
  blocked, and the mouse does not belong to it any more. The screen is locked only if the peer asked for it. Characters entered as unicode and
  mouse buttons are not released by the end: those that were down stay down, and these are among what the peer's messages pressed.
\<close>

theorem session_end_restores:
  assumes "run_video_input_loop e ts = Some (r, d)" "held_inv {} {} (dv_hid e)" "dv_session e \<noteq> 0"
  shows "let p = pressed (hid_sent (dk_hid d)) in
    dn_vks p = {} \<and> dn_scans p = {} \<and>
    dn_chars p \<subseteq> (\<Union>t\<in>set ts. recv_chars (dt_recv t)) \<and> dn_buttons p \<subseteq> (\<Union>t\<in>set ts. recv_buttons (dt_recv t)) \<and>
    (\<exists>x. d = session_end x \<and> p = (pressed (hid_sent (dk_hid x)))\<lparr>dn_vks := {}, dn_scans := {}\<rparr>) \<and>
    \<not> screen_hidden (dk_done d) \<and> \<not> input_blocked (dk_done d) \<and> dk_owner d \<noteq> dv_session e \<and>
    (LockScreenDeed \<in> set (dk_done d) \<longrightarrow> om_lock_after_session_end (dv_option e) = BoolYes \<or> (\<exists>t\<in>set ts. asks_to_lock (dt_recv t)))"
proof -
  let ?cs = "\<Union>t\<in>set ts. recv_chars (dt_recv t)" and ?bs = "\<Union>t\<in>set ts. recv_buttons (dt_recv t)"
  have start: "held_inv ?cs ?bs (dv_hid e)" using assms(2) by (auto simp: held_inv_def)
  have over: "?thesis" if h: "held_session ?cs ?bs (dv_session e) x" and d: "d = session_end x"
    and l: "\<not> (om_lock_after_session_end (dv_option e) = BoolYes \<or> (\<exists>t\<in>set ts. asks_to_lock (dt_recv t))) \<Longrightarrow> unlocked x" for x
  proof -
    have inv: "held_inv ?cs ?bs (dk_hid x)" "dk_session x = dv_session e" using h by (simp_all add: held_session_def)
    have "pressed (hid_sent (dk_hid d)) = (pressed (hid_sent (dk_hid x)))\<lparr>dn_vks := {}, dn_scans := {}\<rparr>"
      using released_all[OF inv(1)] by (simp add: d end_fields)
    moreover have "dk_owner d \<noteq> dv_session e" using inv(2) assms(3) by (simp add: d end_fields release_mouse_owner_def)
    moreover have "\<not> screen_hidden (dk_done d)" "\<not> input_blocked (dk_done d)" by (simp_all add: d end_fields)
    moreover have "LockScreenDeed \<in> set (dk_done d) \<longrightarrow>
        om_lock_after_session_end (dv_option e) = BoolYes \<or> (\<exists>t\<in>set ts. asks_to_lock (dt_recv t))"
      using l by (auto simp: d end_fields unlocked_def)
    ultimately show ?thesis using inv(1) d by (auto simp: held_inv_def Let_def)
  qed
  from assms(1) show ?thesis
  proof (rule loop_cases)
    assume "d = session_end (desk_blank e)"
    then show ?thesis using over[OF blank_fields(1)[OF start]] blank_fields(2)[of e] by blast
  next
    fix d0 let ?x = "snd (desk_run ts d0)"
    assume s: "desk_start e = Inr d0" and d: "d = session_end (?x\<lparr>dk_clip := clip_reset (dk_clip ?x)\<rparr>)"
    have "held_session ?cs ?bs (dv_session e) ?x"
      by (rule held.run) (use start_fields(1)[OF s start] in \<open>auto simp: list_all_iff\<close>)
    moreover have "unlocked ?x" if "\<not> (om_lock_after_session_end (dv_option e) = BoolYes \<or> (\<exists>t\<in>set ts. asks_to_lock (dt_recv t)))"
      using that unlocked.run[of ts] start_fields(2)[OF s] by (simp add: list_all_iff)
    ultimately show ?thesis using over[OF _ d] by (simp add: held_session_def unlocked_def)
  qed
qed

text \<open>A peer that presses return, a character and the left button and goes away.\<close>

definition char_key :: key_msg where
  "char_key = demo_key\<lparr>ke_union := Some (Unicode 97)\<rparr>"

definition left_down :: mouse_event where
  "left_down = \<lparr>me_mask = 9, me_x = 0, me_y = 0\<rparr>"

definition parting_turns :: "dturn list" where
  "parting_turns =
     [demo_dturn\<lparr>dt_recv := PeerSent (KeyEvent demo_key)\<rparr>, demo_dturn\<lparr>dt_recv := PeerSent (KeyEvent char_key)\<rparr>,
      demo_dturn\<lparr>dt_recv := PeerSent (MouseEvent left_down)\<rparr>, demo_dturn\<lparr>dt_recv := PeerGone\<rparr>]"

lemma demo_key_hid:
  "handle_key_event ie demo_key h = vk_event 0x0D True h" "handle_key_event ie char_key h = unicode_char_down 97 h"
proof -
  have "control_key_vk CK_Return = Some 0x0D" by (simp add: control_key_vk_def VK_TABLE_def)
  then show "handle_key_event ie demo_key h = vk_event 0x0D True h"
    by (simp add: handle_key_event_def demo_key_def legacy_keyboard_mode_def control_key_event_def control_key_to_vk_def)
  show "handle_key_event ie char_key h = unicode_char_down 97 h"
    by (simp add: handle_key_event_def char_key_def demo_key_def legacy_keyboard_mode_def is_scalar_def unicode_char_def)
qed

lemma left_down_hid: "handle_mouse_event ie left_down h = mouse_down LeftButton h" "fst (claim_mouse left_down n 0)" "snd (claim_mouse left_down n 0) = n"
  by (simp_all add: handle_mouse_event_def left_down_def MOUSE_TYPE_MOVE_def MOUSE_TYPE_DOWN_def button_of_def claim_mouse_def Let_def)

lemma calm_key:
  assumes "calm d" "dk_keyboard d" "\<not> dk_view_only d"
  shows "desk_step (demo_dturn\<lparr>dt_recv := PeerSent (KeyEvent ke)\<rparr>) d =
    (True, d\<lparr>dk_owner := 0, dk_config2 := None, dk_hid := handle_key_event (dt_input_env demo_dturn) ke (dk_hid d)\<rparr>)"
proof (intro calm_step idle_turns assms(1))
  let ?t = "demo_dturn\<lparr>dt_recv := PeerSent (KeyEvent ke)\<rparr>" and ?d = "d\<lparr>dk_owner := 0, dk_config2 := None\<rparr>"
  show "receive_phase ?t ?d = (True, ?d\<lparr>dk_hid := handle_key_event (dt_input_env demo_dturn) ke (dk_hid d)\<rparr>)"
    using assms(2,3) by (simp add: demo_receive)
qed (use assms(1) in simp)

lemma calm_button:
  assumes "calm d" "dk_keyboard d" "\<not> dk_view_only d"
  shows "desk_step (demo_dturn\<lparr>dt_recv := PeerSent (MouseEvent left_down)\<rparr>) d =
    (True, d\<lparr>dk_owner := 0, dk_config2 := None, dk_owner := dk_session d, dk_hid := mouse_down LeftButton (dk_hid d)\<rparr>)"
proof (intro calm_step idle_turns assms(1))
  let ?t = "demo_dturn\<lparr>dt_recv := PeerSent (MouseEvent left_down)\<rparr>" and ?d = "d\<lparr>dk_owner := 0, dk_config2 := None\<rparr>"
  obtain n where "claim_mouse left_down (dk_session d) 0 = (True, n)" "n = dk_session d"
    using left_down_hid(2,3)[of "dk_session d"] by (cases "claim_mouse left_down (dk_session d) 0") simp
  then show "receive_phase ?t ?d = (True, ?d\<lparr>dk_owner := dk_session d, dk_hid := mouse_down LeftButton (dk_hid d)\<rparr>)"
    using assms(2,3) by (simp add: demo_receive left_down_hid(1))
qed (use assms(1) in simp)

lemma calm_gone: "calm d \<Longrightarrow> desk_step (demo_dturn\<lparr>dt_recv := PeerGone\<rparr>) d = (False, d\<lparr>dk_owner := 0, dk_config2 := None\<rparr>)"
  by (intro calm_step idle_turns) (simp_all add: demo_receive)

lemma demo_start: "\<exists>d. desk_start demo_desk_env = Inr d \<and> calm d \<and> dk_keyboard d \<and> \<not> dk_view_only d \<and> dk_hid d = dv_hid demo_desk_env"
proof -
  obtain d0 where d0: "desk_start demo_desk_env = Inr d0" by (simp add: desk_start_def demo_desk_env_def)
  then obtain x w where x: "d0 = desk_options demo_desk_env ((desk_blank demo_desk_env)\<lparr>dk_display := x, dk_base_bitrate := w\<rparr>)" by (rule started)
  obtain q ratio fps c where v: "apply_video_option demo_option (NotSet, 1, 0) = ((q, ratio, fps), c)" by (metis surj_pair)
  have "1000 div 30 \<le> 1000 div video_target_fps q fps" using fps_range[of q fps] by (intro div_le_mono2) auto
  then have i: "1 < 1000 div video_target_fps q fps" by simp
  have none: "config2_get_option (load_config2 None) k = []" for k
    by (simp add: load_config2_def config2_load_def config2_empty_def config2_get_option_def options_get_def)
  have o: "dv_option demo_desk_env = demo_option" "dv_config2 demo_desk_env = None" "dv_now demo_desk_env = 0" by (simp_all add: demo_desk_env_def)
  have view: "option_yes (om_disable_keyboard demo_option) \<noteq> Some True" by (simp add: option_yes_def demo_option_def)
  have "calm d0" using i by (simp add: x calm_def desk_options_def v did_def desk_blank_def o Let_def)
  moreover have "dk_keyboard d0 \<and> \<not> dk_view_only d0"
    using v by (simp add: x desk_options_def did_def desk_blank_def o none view Let_def)
  moreover have "dk_hid d0 = dv_hid demo_desk_env" by (simp add: x options_fields) (simp add: desk_blank_def)
  ultimately show ?thesis using d0 by blast
qed

lemma parting_run:
  assumes "calm d" "dk_keyboard d" "\<not> dk_view_only d" "dk_hid d = \<lparr>hid_vks = [], hid_scans = [], hid_sent = []\<rparr>"
  shows "\<exists>d1. desk_run parting_turns d = (False, d1) \<and> dk_hid d1 =
    \<lparr>hid_vks = [0x0D], hid_scans = [], hid_sent = [KeyInput 0x0D 0 0, KeyInput 0 97 4, MouseInput 0 0 2 0]\<rparr>"
proof -
  have "mouse_down LeftButton (unicode_char_down 97 (vk_event 0x0D True (dk_hid d))) =
      \<lparr>hid_vks = [0x0D], hid_scans = [], hid_sent = [KeyInput 0x0D 0 0, KeyInput 0 97 4, MouseInput 0 0 2 0]\<rparr>"
    by (simp add: assms(4) vk_event_def hold_def unicode_char_down_def mouse_down_def send_mouse_event_def send_input_def vk_input_def
      vk_flags_def is_extended_vk_def up_flag_def key_flags)
  then show ?thesis
    using assms(1,2,3) by (simp add: parting_turns_def calm_key calm_button calm_gone and_then_def demo_key_hid)
qed

theorem session_end_restores_witness:
  "\<exists>r d. run_video_input_loop demo_desk_env parting_turns = Some (r, d) \<and> dn_vks (pressed (hid_sent (dk_hid d))) = {} \<and>
     dn_chars (pressed (hid_sent (dk_hid d))) = {97} \<and> dn_buttons (pressed (hid_sent (dk_hid d))) = {LeftButton} \<and>
     KeyInput 0x0D 0 0 \<in> set (hid_sent (dk_hid d)) \<and> \<not> input_blocked (dk_done d) \<and> dk_owner d \<noteq> 5"
proof -
  have env: "dv_hid demo_desk_env = \<lparr>hid_vks = [], hid_scans = [], hid_sent = []\<rparr>" "dv_session demo_desk_env = 5" "held_inv {} {} (dv_hid demo_desk_env)"
    by (simp_all add: held_inv_def pressed_def nothing_down_def demo_desk_env_def)
  obtain d0 d1 where d0: "desk_start demo_desk_env = Inr d0" and d1: "desk_run parting_turns d0 = (False, d1)" "dk_hid d1 =
      \<lparr>hid_vks = [0x0D], hid_scans = [], hid_sent = [KeyInput 0x0D 0 0, KeyInput 0 97 4, MouseInput 0 0 2 0]\<rparr>"
    using demo_start parting_run env(1) by metis
  let ?d = "session_end (d1\<lparr>dk_clip := clip_reset (dk_clip d1)\<rparr>)"
  have run: "run_video_input_loop demo_desk_env parting_turns = Some (Inr (), ?d)" by (simp add: run_video_input_loop_def d0 d1(1))
  have sent: "hid_sent (dk_hid ?d) = [KeyInput 0x0D 0 0, KeyInput 0 97 4, MouseInput 0 0 2 0, vk_input 0x0D False]"
    by (simp add: end_fields d1(2) release_all_held_keys_def send_input_def)
  have "dn_chars (pressed (hid_sent (dk_hid ?d))) = {97}" "dn_buttons (pressed (hid_sent (dk_hid ?d))) = {LeftButton}"
    unfolding sent by (simp_all add: pressed_def vk_pressed key_change_def key_flags button_change_def nothing_down_def change_def Let_def)
  then show ?thesis
    using session_end_restores[OF run] run env sent by (intro exI[of _ "Inr ()"] exI[of _ ?d]) (simp add: Let_def)
qed

text \<open>
  The picture is paced: throughout a session the time between frames stays between 33 and 200 milliseconds and the encoder is never asked for
  less than 200 kilobits a second, whatever options the peer sends.
\<close>

theorem picture_paced:
  assumes "desk_start e = Inr d0"
  shows "33 \<le> dk_interval (snd (desk_run ts d0)) \<and> dk_interval (snd (desk_run ts d0)) \<le> 200 \<and>
    (\<forall>n. SetBitrate n \<in> set (dk_done (snd (desk_run ts d0))) \<longrightarrow> 200 \<le> n)"
proof -
  have "paced (snd (desk_run ts d0))" using paced.run[of ts d0] paced_start[OF assms] by (simp add: list_all_iff)
  then show ?thesis using paced_interval by (simp add: paced_def)
qed

theorem picture_paced_witness:
  "\<exists>d0. desk_start demo_desk_env = Inr d0 \<and> 33 \<le> dk_interval (snd (desk_run [demo_dturn] d0))"
proof -
  have "\<exists>d0. desk_start demo_desk_env = Inr d0" by (simp add: desk_start_def demo_desk_env_def)
  then obtain d0 where "desk_start demo_desk_env = Inr d0" by blast
  with picture_paced[OF this, of "[demo_dturn]"] show ?thesis by blast
qed

lemma hex_plain: "filter (\<lambda>c. c \<noteq> 45) (hex_encode b) = hex_encode b"
proof -
  have "45 \<notin> set (hex_encode b)" by (auto simp: hex_encode_def hex_lower_def)
  then show ?thesis by (simp add: filter_id_conv) metis
qed

lemma hex_encode_append: "hex_encode (a @ b) = hex_encode a @ hex_encode b"
  by (simp add: hex_encode_def)

lemma uuid_text_hex: "filter (\<lambda>c. c \<noteq> 45) (uuid_text b) = hex_encode b"
proof -
  have "hex_encode (take 4 b) @ hex_encode (take 2 (drop 4 b)) @ hex_encode (take 2 (drop 6 b)) @ hex_encode (take 2 (drop 8 b))
      @ hex_encode (drop 10 b) = hex_encode (take 4 b @ take 2 (drop 4 b) @ take 2 (drop 6 b) @ take 2 (drop 8 b) @ drop 10 b)"
    by (simp add: hex_encode_append)
  also have "take 2 (drop 8 b) @ drop 10 b = drop 8 b" using append_take_drop_id[of 2 "drop 8 b"] by simp
  also have "take 2 (drop 6 b) @ drop 8 b = drop 6 b" using append_take_drop_id[of 2 "drop 6 b"] by simp
  also have "take 2 (drop 4 b) @ drop 6 b = drop 4 b" using append_take_drop_id[of 2 "drop 4 b"] by simp
  finally show ?thesis by (simp add: uuid_text_def hex_plain)
qed

text \<open>
  Switching sides hands the viewer's token on intact: the token of sixteen bytes that the host writes out as a uuid for the process it starts is
  what that process reads back from its command line and presents to log in.
\<close>

theorem switch_token_survives:
  assumes "length token = 16"
  shows "switch_uuid_bytes (uuid_text token) = Some token \<and> SpawnConnect (dk_peer d) (uuid_text token) \<in> set (dk_done (handle_switch_sides token d))"
proof -
  have "even (length (utf8 (hex_encode token)))" by (simp add: utf8_hex_encode length_concat comp_def sum_list_triv)
  moreover have "hex_decode (hex_encode token) = Some token" by (rule hex_decode_encode)
  ultimately have "switch_uuid_bytes (uuid_text token) = Some token"
    by (simp add: switch_uuid_bytes_def uuid_text_hex hex_decode_def Let_def list_ex_iff split: if_splits)
  then show ?thesis using assms by (simp add: handle_switch_sides_def reply_def did_def Let_def)
qed

theorem switch_token_survives_witness:
  "switch_uuid_bytes (uuid_text [1, 2, 3, 4, 5, 6, 7, 8, 9, 10, 11, 12, 13, 14, 15, 16]) = Some [1, 2, 3, 4, 5, 6, 7, 8, 9, 10, 11, 12, 13, 14, 15, 16]"
  using switch_token_survives[of "[1, 2, 3, 4, 5, 6, 7, 8, 9, 10, 11, 12, 13, 14, 15, 16]" demo_desk] by simp

text \<open>
  What permissions do not stop (a defect, shown): with the keyboard permission taken away a peer can still put up the privacy screen and restart
  the machine, and a key that is down when the permission is taken away stays down.
\<close>

theorem permissions_bypassed:
  "TurnPrivacyOn \<in> set (dk_done (snd (receive_phase (t\<lparr>dt_recv := PeerSent (DeskMisc (TogglePrivacyMode True k))\<rparr>) (d\<lparr>dk_keyboard := False\<rparr>)))) \<and>
   (config2_get_option (load_config2 (dk_config2 d)) (str ''enable-remote-restart'') \<noteq> str ''N'' \<longrightarrow>
     RestartMachine \<in> set (dk_done (snd (receive_phase (t\<lparr>dt_recv := PeerSent (DeskMisc RestartRemoteDevice)\<rparr>) (d\<lparr>dk_keyboard := False\<rparr>))))) \<and>
   dk_hid (change_permission REVOKE_KEYBOARD d) = dk_hid d"
proof -
  have "dk_hid (change_permission content d) = dk_hid d" for content
    by (rule change_permission_cases[of "\<lambda>x. dk_hid x = dk_hid d"]) (auto simp: reply_def did_def Let_def split: option.split)
  moreover have "TurnPrivacyOn \<in> set (dk_done (set_privacy_mode t True k d))" for t d
    by (simp add: set_privacy_mode_def reply_def did_def Let_def split: option.split)
  ultimately show ?thesis
    by (simp add: receive_phase_def on_message_def handle_peer_message_def handle_misc_def did_def)
qed

theorem permissions_bypassed_witness:
  "RestartMachine \<in> set (dk_done (snd (receive_phase (demo_dturn\<lparr>dt_recv := PeerSent (DeskMisc RestartRemoteDevice)\<rparr>)
     (demo_desk\<lparr>dk_keyboard := False\<rparr>))))"
proof -
  have "config2_get_option (load_config2 (dk_config2 demo_desk)) (str ''enable-remote-restart'') \<noteq> str ''N''"
    by (simp add: demo_defs load_config2_def config2_load_def config2_empty_def config2_get_option_def options_get_def str_def)
  with permissions_bypassed show ?thesis by blast
qed

end
