(* ===== verification/Tunnel.thy ===== *)
theory Tunnel
  imports Prelude
begin

text \<open>
  A port forwarded through a session: \<open>run_port_forward_loop\<close> of \<open>src/src/server.rs\<close>. The two sockets are lists of what went through them; a
  turn of the loop gives what arrived on each side and how much of a write the target's non-blocking socket takes.
\<close>

datatype tunnel_recv = TunnelNothing | TunnelGone | TunnelData bytes

datatype target_read = TargetClosed | TargetNothing | TargetFailed | TargetData bytes

record tunnel_turn =
  tt_stop :: bool
  tt_now :: nat
  tt_rejected :: bool
  tt_recv :: tunnel_recv
  tt_accepts :: nat
  tt_read :: target_read
  tt_sent :: bool

record tunnel =
  tn_to_target :: bytes
  tn_to_peer :: "bytes list"
  tn_idle :: nat
  tn_cm_check :: nat
  tn_slept :: nat

definition tunnel_and :: "bool \<times> tunnel \<Rightarrow> (tunnel \<Rightarrow> bool \<times> tunnel) \<Rightarrow> bool \<times> tunnel" where
  "tunnel_and r f = (if fst r then f (snd r) else r)"

definition tunnel_check :: "tunnel_turn \<Rightarrow> tunnel \<Rightarrow> bool \<times> tunnel" where
  "tunnel_check t s =
     (if tt_stop t then (False, s)
      else if tt_now t - tn_cm_check s \<ge> 500 then (\<not> tt_rejected t, s\<lparr>tn_cm_check := tt_now t\<rparr>) else (True, s))"

text \<open>\<open>write_all\<close> fails when the socket would block, after the part it took.\<close>

definition write_target :: "tunnel_turn \<Rightarrow> bytes \<Rightarrow> tunnel \<Rightarrow> bool \<times> tunnel" where
  "write_target t data s = (length data \<le> tt_accepts t, s\<lparr>tn_to_target := tn_to_target s @ take (tt_accepts t) data\<rparr>)"

definition tunnel_in :: "tunnel_turn \<Rightarrow> tunnel \<Rightarrow> bool \<times> tunnel" where
  "tunnel_in t s =
     (case tt_recv t of
        TunnelData data \<Rightarrow> if data = [] then (False, s) else write_target t data s
      | TunnelNothing \<Rightarrow> (True, s)
      | TunnelGone \<Rightarrow> (False, s))"

definition TUNNEL_BUFFER :: nat where "TUNNEL_BUFFER = 65536"

text \<open>What the system's read gives is at most the buffer; nothing read means the target closed.\<close>

definition tunnel_out :: "tunnel_turn \<Rightarrow> tunnel \<Rightarrow> bool \<times> tunnel" where
  "tunnel_out t s =
     (case tt_read t of
        TargetClosed \<Rightarrow> (False, s)
      | TargetData data \<Rightarrow>
          if data = [] then (False, s)
          else (tt_sent t, if tt_sent t then s\<lparr>tn_to_peer := tn_to_peer s @ [take TUNNEL_BUFFER data]\<rparr> else s)
      | TargetNothing \<Rightarrow> (True, s)
      | TargetFailed \<Rightarrow> (False, s))"

definition tunnel_pause :: "tunnel_turn \<Rightarrow> tunnel \<Rightarrow> bool \<times> tunnel" where
  "tunnel_pause t s =
     (let had_data = (case tt_recv t of TunnelData _ \<Rightarrow> True | _ \<Rightarrow> False) \<or> (case tt_read t of TargetData _ \<Rightarrow> True | _ \<Rightarrow> False)
      in if had_data then (True, s\<lparr>tn_idle := 0\<rparr>)
         else let n = tn_idle s + 1 in (True, s\<lparr>tn_idle := n, tn_slept := tn_slept s + (if n > 10 then 5 else 0)\<rparr>))"

definition tunnel_step :: "tunnel_turn \<Rightarrow> tunnel \<Rightarrow> bool \<times> tunnel" where
  "tunnel_step t s = tunnel_and (tunnel_and (tunnel_and (tunnel_check t s) (tunnel_in t)) (tunnel_out t)) (tunnel_pause t)"

fun run_port_forward_loop :: "tunnel_turn list \<Rightarrow> tunnel \<Rightarrow> bool \<times> tunnel" where
  "run_port_forward_loop [] s = (True, s)"
| "run_port_forward_loop (t # ts) s = tunnel_and (tunnel_step t s) (run_port_forward_loop ts)"

text \<open>Connecting: the first address of the target, or an error.\<close>

definition tunnel_open :: "('a list + string) \<Rightarrow> ('a \<Rightarrow> bool) \<Rightarrow> nat \<Rightarrow> string + tunnel" where
  "tunnel_open addrs connects now =
     (case addrs of
        Inr e \<Rightarrow> Inl e
      | Inl [] \<Rightarrow> Inl ''DNS resolve failed for tunnel target''
      | Inl (a # _) \<Rightarrow>
          if connects a then Inr \<lparr>tn_to_target = [], tn_to_peer = [], tn_idle = 0, tn_cm_check = now, tn_slept = 0\<rparr>
          else Inl ''connect'')"

definition came_in :: "tunnel_turn \<Rightarrow> bytes" where
  "came_in t = (case tt_recv t of TunnelData data \<Rightarrow> data | _ \<Rightarrow> [])"

definition came_out :: "tunnel_turn \<Rightarrow> bytes list" where
  "came_out t = (case tt_read t of TargetData data \<Rightarrow> [take TUNNEL_BUFFER data] | _ \<Rightarrow> [])"

lemma tunnel_step_goes_on:
  assumes "tunnel_step t s = (True, s')"
  shows "tn_to_target s' = tn_to_target s @ came_in t \<and> tn_to_peer s' = tn_to_peer s @ came_out t"
proof -
  obtain s1 s2 s3 where "tunnel_check t s = (True, s1)" "tunnel_in t s1 = (True, s2)" "tunnel_out t s2 = (True, s3)" "tunnel_pause t s3 = (True, s')"
    using assms by (auto simp: tunnel_step_def tunnel_and_def split: if_splits) (metis prod.collapse)
  then show ?thesis
    by (auto simp: tunnel_check_def tunnel_in_def write_target_def tunnel_out_def tunnel_pause_def came_in_def came_out_def Let_def
        split: if_splits tunnel_recv.splits target_read.splits)
qed

lemma tunnel_in_takes:
  "\<exists>k. tn_to_target (snd (tunnel_in t s)) = tn_to_target s @ take k (came_in t)" "tn_to_peer (snd (tunnel_in t s)) = tn_to_peer s"
proof -
  have "tn_to_target (snd (tunnel_in t s)) = tn_to_target s @ take (tt_accepts t) (came_in t)"
    by (simp add: tunnel_in_def write_target_def came_in_def split: tunnel_recv.split)
  then show "\<exists>k. tn_to_target (snd (tunnel_in t s)) = tn_to_target s @ take k (came_in t)" by blast
  show "tn_to_peer (snd (tunnel_in t s)) = tn_to_peer s"
    by (simp add: tunnel_in_def write_target_def split: tunnel_recv.split)
qed

lemma tunnel_out_takes:
  "\<exists>k. tn_to_peer (snd (tunnel_out t s)) = tn_to_peer s @ take k (came_out t)" "tn_to_target (snd (tunnel_out t s)) = tn_to_target s"
proof -
  have "tn_to_peer (snd (tunnel_out t s)) \<in> {tn_to_peer s, tn_to_peer s @ came_out t}"
    by (simp add: tunnel_out_def came_out_def split: target_read.split)
  then show "\<exists>k. tn_to_peer (snd (tunnel_out t s)) = tn_to_peer s @ take k (came_out t)"
    by (elim insertE emptyE) (auto intro: exI[of _ 0] exI[of _ "length (came_out t)"])
  show "tn_to_target (snd (tunnel_out t s)) = tn_to_target s" by (simp add: tunnel_out_def split: target_read.split)
qed

lemma tunnel_step_ends:
  "\<exists>k j. tn_to_target (snd (tunnel_step t s)) = tn_to_target s @ take k (came_in t) \<and>
     tn_to_peer (snd (tunnel_step t s)) = tn_to_peer s @ take j (came_out t)"
proof -
  obtain on s1 where c: "tunnel_check t s = (on, s1)" by fastforce
  have s1: "tn_to_target s1 = tn_to_target s" "tn_to_peer s1 = tn_to_peer s"
    using c by (auto simp: tunnel_check_def split: if_splits)
  obtain k where k: "tn_to_target (snd (tunnel_in t s1)) = tn_to_target s1 @ take k (came_in t)" using tunnel_in_takes by blast
  obtain j where j: "tn_to_peer (snd (tunnel_out t (snd (tunnel_in t s1)))) = tn_to_peer s1 @ take j (came_out t)"
    using tunnel_out_takes(1)[of t "snd (tunnel_in t s1)"] by (auto simp: tunnel_in_takes(2))
  have p: "tn_to_target (snd (tunnel_pause t x)) = tn_to_target x" "tn_to_peer (snd (tunnel_pause t x)) = tn_to_peer x" for x
    by (simp_all add: tunnel_pause_def Let_def)
  let ?in = "tunnel_in t s1" and ?out = "tunnel_out t (snd (tunnel_in t s1))"
  have "snd (tunnel_step t s) \<in> {s1, snd ?in, snd ?out, snd (tunnel_pause t (snd ?out))}"
    by (cases on; cases "fst ?in"; cases "fst ?out"; simp add: tunnel_step_def tunnel_and_def c)
  then consider "snd (tunnel_step t s) = s1" | "snd (tunnel_step t s) = snd ?in"
    | "snd (tunnel_step t s) = snd ?out \<or> snd (tunnel_step t s) = snd (tunnel_pause t (snd ?out))" by blast
  then show ?thesis
  proof cases
    case 1 then show ?thesis using s1 by (intro exI[of _ 0]) simp
  next
    case 2 then show ?thesis using s1 k tunnel_in_takes(2) by (intro exI[of _ k] exI[of _ 0]) simp
  next
    case 3 then show ?thesis using s1 k j p tunnel_out_takes(2) by (intro exI[of _ k] exI[of _ j]) auto
  qed
qed

text \<open>
  A tunnel keeps the stream: what has gone to the target is a beginning of what the peer sent, in order and without a gap, and what went
  to the peer a beginning of what the target said; all of it as long as the loop goes on.
\<close>

theorem tunnel_keeps_stream:
  assumes "run_port_forward_loop ts s = (on, s')" "tn_to_target s = []" "tn_to_peer s = []"
  shows "(\<exists>rest. concat (map came_in ts) = tn_to_target s' @ rest) \<and> (\<exists>rest. concat (map came_out ts) = tn_to_peer s' @ rest) \<and>
    (on \<longrightarrow> tn_to_target s' = concat (map came_in ts) \<and> tn_to_peer s' = concat (map came_out ts)) \<and>
    (\<forall>piece\<in>set (tn_to_peer s'). length piece \<le> TUNNEL_BUFFER)"
proof -
  have run: "\<exists>a b. tn_to_target s' = tn_to_target s @ a \<and> tn_to_peer s' = tn_to_peer s @ b \<and>
      (\<exists>r. concat (map came_in ts) = a @ r) \<and> (\<exists>r. concat (map came_out ts) = b @ r) \<and>
      (on \<longrightarrow> a = concat (map came_in ts) \<and> b = concat (map came_out ts))"
    if "run_port_forward_loop ts s = (on, s')" for ts s s' on
    using that
  proof (induction ts arbitrary: s)
    case (Cons t ts)
    show ?case
    proof (cases "fst (tunnel_step t s)")
      case True
      then obtain s1 where s1: "tunnel_step t s = (True, s1)" by (metis prod.collapse)
      with Cons.prems have "run_port_forward_loop ts s1 = (on, s')" by (simp add: tunnel_and_def)
      from Cons.IH[OF this] show ?thesis using tunnel_step_goes_on[OF s1] by fastforce
    next
      case False
      with Cons.prems have "s' = snd (tunnel_step t s)" "\<not> on" by (auto simp: tunnel_and_def)
      moreover obtain k j where "tn_to_target (snd (tunnel_step t s)) = tn_to_target s @ take k (came_in t)"
        "tn_to_peer (snd (tunnel_step t s)) = tn_to_peer s @ take j (came_out t)" using tunnel_step_ends by blast
      moreover have "concat (map came_in (t # ts)) = take k (came_in t) @ drop k (came_in t) @ concat (map came_in ts)"
        "concat (map came_out (t # ts)) = take j (came_out t) @ drop j (came_out t) @ concat (map came_out ts)" by simp_all
      ultimately show ?thesis by blast
    qed
  qed simp
  have "\<forall>piece\<in>set (concat (map came_out ts)). length piece \<le> TUNNEL_BUFFER"
    by (auto simp: came_out_def split: target_read.splits)
  moreover from run[OF assms(1)] assms(2,3) obtain r where "concat (map came_out ts) = tn_to_peer s' @ r" by auto
  ultimately show ?thesis using run[OF assms(1)] assms(2,3) by auto
qed

definition demo_tunnel :: tunnel where
  "demo_tunnel = \<lparr>tn_to_target = [], tn_to_peer = [], tn_idle = 0, tn_cm_check = 0, tn_slept = 0\<rparr>"

definition demo_tunnel_turn :: tunnel_turn where
  "demo_tunnel_turn = \<lparr>tt_stop = False, tt_now = 0, tt_rejected = False, tt_recv = TunnelData [1, 2, 3], tt_accepts = 8,
     tt_read = TargetNothing, tt_sent = True\<rparr>"

theorem tunnel_keeps_stream_witness:
  "\<exists>s'. run_port_forward_loop [demo_tunnel_turn] demo_tunnel = (True, s') \<and> tn_to_target s' = [1, 2, 3]"
proof -
  have r: "run_port_forward_loop [demo_tunnel_turn] demo_tunnel = (True, demo_tunnel\<lparr>tn_to_target := [1, 2, 3]\<rparr>)"
    by (simp add: tunnel_step_def tunnel_and_def tunnel_check_def tunnel_in_def write_target_def tunnel_out_def tunnel_pause_def
        demo_tunnel_turn_def demo_tunnel_def)
  have "tn_to_target demo_tunnel = []" "tn_to_peer demo_tunnel = []" by (simp_all add: demo_tunnel_def)
  from tunnel_keeps_stream[OF r this] show ?thesis using r by (auto simp: came_in_def demo_tunnel_turn_def)
qed

text \<open>
  A target that reads slowly loses its tunnel (a defect, shown): when its socket takes less than a whole message the loop ends and the rest
  of the message is lost.
\<close>

theorem slow_target_ends_tunnel:
  assumes "tt_recv t = TunnelData data" "tt_accepts t < length data" "\<not> tt_stop t" "\<not> tt_rejected t"
  shows "\<not> fst (tunnel_step t s) \<and> tn_to_target (snd (tunnel_step t s)) = tn_to_target s @ take (tt_accepts t) data"
  using assms by (auto simp: tunnel_step_def tunnel_and_def tunnel_check_def tunnel_in_def write_target_def)

theorem slow_target_ends_tunnel_witness:
  "\<not> fst (tunnel_step (demo_tunnel_turn\<lparr>tt_accepts := 2\<rparr>) demo_tunnel)"
  using slow_target_ends_tunnel[of "demo_tunnel_turn\<lparr>tt_accepts := 2\<rparr>" "[1, 2, 3]" demo_tunnel] by (simp add: demo_tunnel_turn_def)

end
