(* ===== verification/Spec2Isabelle.thy ===== *)
theory Spec2Isabelle
  imports Config_Options Framing Sha2 Legacy_Hash Poly1305_Correct Websocket Turn Two_Factor Session_Login Terminal File_Viewer Script_Gc
    Viewer_Server Signalling Clip_Paste Desktop_Ends Tunnel
begin

text \<open>
  HopToDesk for Windows XP: a remote desktop program. A process on the controlled machine (\<^emph>\<open>server\<close>, \<open>src/src/server.rs\<close>) accepts
  connections directly, through a TURN relay or over the local network; a process on the controlling machine (\<^emph>\<open>viewer\<close>,
  \<open>src/src/client.rs\<close> and \<open>remote.rs\<close>) finds it through a signalling server, proves who it is, and then runs a session: a desktop,
  a file transfer, a terminal or a tunnel. The window of the viewer is drawn by an engine of its own with a script
  language (\<open>src/wireui-xp\<close>). This development models the protocol side of the program and the memory management of the script
  language, and proves what a user relies on: nobody gets in without a credential, the two ends agree on their key,
  what is sent arrives unchanged, settings survive their files, and the limits and deadlines of the code hold.

  \<^bold>\<open>Parts and theories.\<close>

  \<^item> \<open>Prelude\<close>, \<open>Word_Nat\<close>, \<open>Rust_Str\<close>, \<open>Utf8\<close>: machine integers, byte strings, byte order, the \<open>str\<close> and \<open>char\<close> operations of the Rust
    library that the sources use, and the collections of lemmas the other theories share.
  \<^item> \<open>Block_Hash\<close>, \<open>Sha2\<close>, \<open>Legacy_Hash\<close>: SHA-256 (incremental), SHA-512, MD5, SHA-1 and HMAC-SHA1 of \<open>crypto.rs\<close> and \<open>turn.rs\<close>. The locale
    \<open>md_hash\<close> states what a block function promises; each hash is an interpretation, and equals the padded fold of its standard.
  \<^item> \<open>Salsa20\<close>, \<open>Poly1305\<close>, \<open>Poly1305_Correct\<close>, \<open>Secretbox\<close>: the authenticated encryption of \<open>crypto.rs\<close>. Poly1305 on five limbs of 26 bits
    is shown equal to the polynomial modulo 2 to the 130 minus 5, with bounds on every intermediate word; the locales are \<open>stream_cipher\<close> and \<open>aead\<close>.
  \<^item> \<open>Byte_Stream\<close>, \<open>Framing\<close>: a byte stream, the length-prefixed frames of \<open>network.rs\<close>, the counters of an encrypted session, delivery
    and authenticity. The locale \<open>frame_codec\<close> is interpreted by the frames here, in \<open>Stun\<close> and in \<open>Websocket\<close>.
  \<^item> \<open>Toml\<close>, \<open>Codecs\<close>, \<open>Config_Store\<close>, \<open>Config_Options\<close>: the codecs and the four stores of \<open>config.rs\<close> with their files; the locales
    \<open>option_store\<close> and \<open>persistent_store\<close> are interpreted for every store.
  \<^item> \<open>Stun\<close>, \<open>Turn\<close>: STUN messages and the TURN transactions, fallback and refresh of \<open>turn.rs\<close>.
  \<^item> \<open>Websocket\<close>: frames and reading loop of \<open>websocket.rs\<close>.
  \<^item> \<open>Two_Factor\<close>: \<open>auth_2fa.rs\<close>. \<open>Session_Login\<close>: \<open>run_session_public\<close> of \<open>server.rs\<close> up to the start of a session, invitations and
    switch-sides tokens. Every receiving loop of the code is a phase and one turn of a loop is one step; a step's argument holds what it
    sees from outside (clock, message, randomness, other processes).
  \<^item> \<open>Viewer_Session\<close>: the other end, \<open>client_handshake\<close> and the login of \<open>client.rs\<close> in the same style, with the keys pinned per peer.
    \<open>Viewer_Server\<close> runs both against each other.
  \<^item> \<open>Signalling\<close>: \<open>signal.rs\<close>: the address of the signalling server and its cache, the loop that keeps a connection alive and notices when
    it is silent, the answers to connect requests, and the request a viewer sends.
  \<^item> \<open>Terminal\<close>: \<open>terminal_service.rs\<close>. \<open>File_Transfer\<close>, \<open>File_Server\<close>, \<open>File_Viewer\<close>: listings, blocks and safe names of
    \<open>file_transfer.rs\<close>, the loop of the server and the handler of the viewer (\<open>remote.rs\<close>).
  \<^item> \<open>Clip_Files\<close>, \<open>Clip_Paste\<close>: \<open>clipboard_file.rs\<close>, files copied from one clipboard to the other: announcing and serving on one side,
    fetching on the other, and both together.
  \<^item> \<open>Desk_Input\<close>, \<open>Desktop\<close>, \<open>Desktop_Safe\<close>, \<open>Desktop_Ends\<close>: a desktop session on the server. \<open>Desk_Input\<close> is \<open>input.rs\<close> and the mouse and
    keyboard handlers; \<open>Desktop\<close> the loop \<open>run_video_input_loop\<close> with \<open>clipboard.rs\<close>, one turn a step made of phases in the order of the code;
    \<open>Desktop_Safe\<close> the locales \<open>kept\<close> and \<open>steady\<close> (what phases leave alone), interpreted for every invariant; \<open>Desktop_Ends\<close> the properties.
  \<^item> \<open>Tunnel\<close>: a forwarded port, \<open>run_port_forward_loop\<close>.
  \<^item> \<open>Script_Gc\<close>: the heap of the script language, its scopes and its collector (\<open>wireui-xp/src/script/gc.rs\<close>, \<open>interp.rs\<close>).

  \<^bold>\<open>What the lemmas show.\<close> Equivalence of the optimised routines with reference definitions (hashes, Poly1305); round trips (frames, STUN, WebSocket
  text, every configuration file, base64, stored passwords, uploads and downloads through both ends); refinement (the encrypted session
  delivers sequences of messages, the line editor implements the keys); invariants of reachable states (terminal service, job tables, login limits,
  relay allocation, recent peers); safety (who is admitted, whom the viewer encrypts for, where the viewer writes, when input is
  injected and what the end of a session leaves behind); termination and deadlines
  (waiting loops of both sides, downloads, the collector); and the behaviour of the code in cases it does not handle well.


  \<^bold>\<open>Conventions.\<close> A record of the source is a \<open>record\<close>, an enum a \<open>datatype\<close>, an error is \<open>Inl\<close> or \<open>None\<close>, a panic a value of its own. Words have their width
  where wrap-around matters; lengths and clocks are \<open>nat\<close>. A hash map is an association list, whose order stands for the
  iteration order of the code and is a parameter where it matters. Messages are taken after protobuf decoding.

  \<^bold>\<open>Bounds and fuel.\<close> Loops are structural or have a measure. Fuel appears in \<open>Script_Gc\<close> alone: marking needs one more than the number
  of cells (\<open>gc_exact\<close> shows that this is enough), and a scope chain its length. Waiting loops are steps of a run of any length.

  \<^bold>\<open>Parameters.\<close> Code outside the repository: protobuf, \<open>ring\<close>'s HMAC, the QR matrix, zstd's decompression, the operating system (files, sockets,
  clocks, random bytes, processes). X25519 and Ed25519 of \<open>crypto.rs\<close> are parameters too, with agreement and verification as named
  hypotheses where a property needs them.

  \<^bold>\<open>Not modelled.\<close> The field arithmetic of X25519 and Ed25519; screen capture, the video codec and
  recording; the connection manager's window, the dashboard and installation; Win32
  calls and TLS; the engine of \<open>wireui-xp\<close> (parsing and evaluating scripts, HTML, CSS, layout, painting) and the tables of translations.
\<close>

end
